(* ===== verification/Prelude.thy ===== *)
theory Prelude
  imports Main "HOL-Library.List_Lexorder" "HOL-Library.Char_ord"
begin

text \<open>
  The prelude of the development: the outcome of a C++ operation (a value, a call of
  \<open>exit(1)\<close>, a thrown exception or undefined behaviour), state-passing commands over
  such outcomes, byte strings with slices and overwrites, and \<open>std::map\<close> as a list of
  pairs in the order of its keys.
\<close>

section \<open>Outcomes of C++ operations\<close>

text \<open>
  \<open>Exit\<close> is \<open>exit(1)\<close>, \<open>Throw\<close> a \<open>std::exception\<close> with its message (callers may catch it)
  and \<open>Undef\<close> undefined behaviour: a read or write outside a vector, a null
  dereference. \<open>OutOfFuel\<close> is no outcome of the code: a loop of the model used up its fuel.
\<close>

datatype cpp_error = Exit | Throw string | Undef | OutOfFuel

type_synonym 'a outcome = "cpp_error + 'a"

fun rbind :: "'a outcome \<Rightarrow> ('a \<Rightarrow> 'b outcome) \<Rightarrow> 'b outcome" where
  "rbind (Inl e) f = Inl e"
| "rbind (Inr x) f = f x"

lemma rbind_eq_Inr: "rbind m f = Inr y \<longleftrightarrow> (\<exists>x. m = Inr x \<and> f x = Inr y)"
  by (cases m) auto

lemma rbind_assoc: "rbind (rbind m f) g = rbind m (\<lambda>x. rbind (f x) g)"
  by (cases m) auto

section \<open>State-passing commands\<close>

text \<open>
  A command takes the state and returns its outcome and the state it leaves. The state
  survives an exception: what the code had changed before a throw stays changed.
\<close>

type_synonym ('s, 'a) cmd = "'s \<Rightarrow> 'a outcome \<times> 's"

definition ret :: "'a \<Rightarrow> ('s, 'a) cmd" where
  "ret x s = (Inr x, s)"

definition raise :: "cpp_error \<Rightarrow> ('s, 'a) cmd" where
  "raise e s = (Inl e, s)"

definition lift :: "'a outcome \<Rightarrow> ('s, 'a) cmd" where
  "lift r s = (r, s)"

definition gets :: "('s \<Rightarrow> 'a) \<Rightarrow> ('s, 'a) cmd" where
  "gets f s = (Inr (f s), s)"

definition upd :: "('s \<Rightarrow> 's) \<Rightarrow> ('s, unit) cmd" where
  "upd f s = (Inr (), f s)"

definition bnd :: "('s, 'a) cmd \<Rightarrow> ('a \<Rightarrow> ('s, 'b) cmd) \<Rightarrow> ('s, 'b) cmd" where
  "bnd m f s = (case m s of (Inl e, s') \<Rightarrow> (Inl e, s') | (Inr x, s') \<Rightarrow> f x s')"

definition seq :: "('s, 'a) cmd \<Rightarrow> ('s, 'b) cmd \<Rightarrow> ('s, 'b) cmd" where
  "seq m m' = bnd m (\<lambda>_. m')"

named_theorems cmd_simps "evaluation of commands on a known state"

lemma ret_apply [cmd_simps]: "ret x s = (Inr x, s)"
  by (simp add: ret_def)

lemma raise_apply [cmd_simps]: "raise e s = (Inl e, s)"
  by (simp add: raise_def)

lemma lift_apply [cmd_simps]: "lift r s = (r, s)"
  by (simp add: lift_def)

lemma gets_apply [cmd_simps]: "gets f s = (Inr (f s), s)"
  by (simp add: gets_def)

lemma upd_apply [cmd_simps]: "upd f s = (Inr (), f s)"
  by (simp add: upd_def)

lemma bnd_Inr [cmd_simps]: "m s = (Inr x, s') \<Longrightarrow> bnd m f s = f x s'"
  by (simp add: bnd_def)

lemma bnd_Inl [cmd_simps]: "m s = (Inl e, s') \<Longrightarrow> bnd m f s = (Inl e, s')"
  by (simp add: bnd_def)

lemma seq_Inr [cmd_simps]: "m s = (Inr x, s') \<Longrightarrow> seq m m' s = m' s'"
  by (simp add: seq_def bnd_def)

lemma seq_Inl [cmd_simps]: "m s = (Inl e, s') \<Longrightarrow> seq m m' s = (Inl e, s')"
  by (simp add: seq_def bnd_def)

lemma bnd_bnd: "bnd (bnd m f) g = bnd m (\<lambda>x. bnd (f x) g)"
  by (rule ext) (auto simp: bnd_def split: prod.splits sum.splits)

text \<open>
  \<open>keeps I m\<close>: the command keeps the predicate \<open>I\<close> of the state, whatever its outcome.
  Invariants are proved with the rules below, one per combinator.
\<close>

definition keeps :: "('s \<Rightarrow> bool) \<Rightarrow> ('s, 'a) cmd \<Rightarrow> bool" where
  "keeps I m \<longleftrightarrow> (\<forall>s. I s \<longrightarrow> I (snd (m s)))"

lemma keepsI [intro?]: "(\<And>s. I s \<Longrightarrow> I (snd (m s))) \<Longrightarrow> keeps I m"
  by (simp add: keeps_def)

lemma keepsD: "keeps I m \<Longrightarrow> I s \<Longrightarrow> m s = (r, s') \<Longrightarrow> I s'"
  by (metis keeps_def snd_conv)

named_theorems keeps_intros "rules that a command keeps a predicate"

lemma keeps_ret [keeps_intros]: "keeps I (ret x)"
  by (simp add: keeps_def ret_def)

lemma keeps_raise [keeps_intros]: "keeps I (raise e)"
  by (simp add: keeps_def raise_def)

lemma keeps_lift [keeps_intros]: "keeps I (lift r)"
  by (simp add: keeps_def lift_def)

lemma keeps_gets [keeps_intros]: "keeps I (gets f)"
  by (simp add: keeps_def gets_def)

lemma keeps_upd: "(\<And>s. I s \<Longrightarrow> I (f s)) \<Longrightarrow> keeps I (upd f)"
  by (simp add: keeps_def upd_def)

lemma keeps_bnd [keeps_intros]:
  assumes "keeps I m" and "\<And>x. keeps I (f x)"
  shows "keeps I (bnd m f)"
  using assms by (fastforce simp: keeps_def bnd_def split: prod.splits sum.splits)

lemma keeps_seq [keeps_intros]: "keeps I m \<Longrightarrow> keeps I m' \<Longrightarrow> keeps I (seq m m')"
  by (simp add: seq_def keeps_bnd)

lemma keeps_if [keeps_intros]: "keeps I m \<Longrightarrow> keeps I m' \<Longrightarrow> keeps I (if b then m else m')"
  by simp

section \<open>Bytes, slices and overwrites\<close>

text \<open>A \<open>std::vector<char>\<close> is a list of bytes; HOL's \<open>char\<close> has exactly eight bits.\<close>

type_synonym bytes = "char list"

definition slice :: "nat \<Rightarrow> nat \<Rightarrow> 'a list \<Rightarrow> 'a list" where
  "slice i n xs = take n (drop i xs)"

text \<open>\<open>memcpy\<close> of \<open>xs\<close> into \<open>ys\<close> at index \<open>i\<close>.\<close>

definition overwrite :: "nat \<Rightarrow> 'a list \<Rightarrow> 'a list \<Rightarrow> 'a list" where
  "overwrite i xs ys = take i ys @ xs @ drop (i + length xs) ys"

lemma length_slice: "i + n \<le> length xs \<Longrightarrow> length (slice i n xs) = n"
  by (simp add: slice_def)

lemma length_overwrite [simp]: "i + length xs \<le> length ys \<Longrightarrow> length (overwrite i xs ys) = length ys"
  by (simp add: overwrite_def)

lemma slice_overwrite [simp]:
  "i + length xs \<le> length ys \<Longrightarrow> n = length xs \<Longrightarrow> slice i n (overwrite i xs ys) = xs"
  by (simp add: slice_def overwrite_def)

lemma nth_overwrite:
  assumes "i + length xs \<le> length ys" and "k < length ys"
  shows "overwrite i xs ys ! k = (if i \<le> k \<and> k < i + length xs then xs ! (k - i) else ys ! k)"
  using assms by (auto simp: overwrite_def nth_append)

lemma slice_overwrite_disjoint:
  assumes "i + length xs \<le> length ys" and "j + n \<le> i \<or> i + length xs \<le> j"
  shows "slice j n (overwrite i xs ys) = slice j n ys"
proof (rule nth_equalityI)
  show "length (slice j n (overwrite i xs ys)) = length (slice j n ys)"
    using assms(1) by (simp add: slice_def)
next
  fix k assume "k < length (slice j n (overwrite i xs ys))"
  then have "k < n" and "j + k < length ys"
    using assms(1) by (auto simp: slice_def)
  then show "slice j n (overwrite i xs ys) ! k = slice j n ys ! k"
    using assms by (auto simp: slice_def nth_overwrite)
qed

lemma drop_overwrite_before:
  "i + length xs \<le> length ys \<Longrightarrow> i + length xs \<le> j \<Longrightarrow> drop j (overwrite i xs ys) = drop j ys"
  by (simp add: overwrite_def)

lemma drop_overwrite_at:
  "i + length xs \<le> length ys \<Longrightarrow> drop i (overwrite i xs ys) = xs @ drop (i + length xs) ys"
  by (simp add: overwrite_def)

lemma overwrite_all: "length xs = length ys \<Longrightarrow> overwrite 0 xs ys = xs"
  by (simp add: overwrite_def)

lemma nth_upd: "j < length xs \<Longrightarrow> xs[i := x] ! j = (if i = j then x else xs ! j)"
  by (cases "i = j") simp_all

section \<open>Maps in key order\<close>

text \<open>
  \<open>std::map\<close> iterates in the order of its keys, so it is a list of pairs kept in that order.
\<close>

fun om_put :: "'k::linorder \<Rightarrow> 'v \<Rightarrow> ('k \<times> 'v) list \<Rightarrow> ('k \<times> 'v) list" where
  "om_put k v [] = [(k, v)]"
| "om_put k v ((k', v') # m) =
     (if k < k' then (k, v) # (k', v') # m
      else if k = k' then (k, v) # m
      else (k', v') # om_put k v m)"

definition om_del :: "'k \<Rightarrow> ('k \<times> 'v) list \<Rightarrow> ('k \<times> 'v) list" where
  "om_del k m = filter (\<lambda>p. fst p \<noteq> k) m"

definition om_ok :: "('k::linorder \<times> 'v) list \<Rightarrow> bool" where
  "om_ok m \<longleftrightarrow> sorted_wrt (<) (map fst m)"

lemma map_of_om_put [simp]: "map_of (om_put k v m) = (map_of m)(k \<mapsto> v)"
  by (induction m) (auto simp: fun_eq_iff)

lemma map_of_om_del [simp]: "map_of (om_del k m) = (map_of m)(k := None)"
  unfolding om_del_def by (induction m) (auto simp: fun_eq_iff)

lemma set_om_put: "fst ` set (om_put k v m) = insert k (fst ` set m)"
  by (simp flip: dom_map_of_conv_image_fst)

lemma om_ok_Nil [simp]: "om_ok []"
  by (simp add: om_ok_def)

lemma om_ok_put: "om_ok m \<Longrightarrow> om_ok (om_put k v m)"
proof (induction m)
  case Nil
  then show ?case by (simp add: om_ok_def)
next
  case (Cons p m)
  obtain k' v' where p: "p = (k', v')" by fastforce
  have "\<forall>x \<in> fst ` set (om_put k v m). k' < x" if "k' < k"
    using Cons.prems that by (auto simp: om_ok_def p set_om_put)
  then show ?case
    using Cons by (auto simp: om_ok_def p intro: less_trans)
qed

lemma om_ok_del: "om_ok m \<Longrightarrow> om_ok (om_del k m)"
  by (auto simp: om_ok_def om_del_def sorted_wrt_map sorted_wrt_filter)

lemma om_ok_distinct: "om_ok m \<Longrightarrow> distinct (map fst m)"
  unfolding om_ok_def by (metis strict_sorted_iff)

text \<open>The contract of \<open>std::map\<close> that the clients use, and its provider.\<close>

locale ordered_map =
  fixes lookup :: "'m \<Rightarrow> 'k \<Rightarrow> 'v option"
    and insert_at :: "'k \<Rightarrow> 'v \<Rightarrow> 'm \<Rightarrow> 'm"
    and erase :: "'k \<Rightarrow> 'm \<Rightarrow> 'm"
    and ok :: "'m \<Rightarrow> bool"
  assumes lookup_insert: "lookup (insert_at k v m) = (lookup m)(k \<mapsto> v)"
    and lookup_erase: "lookup (erase k m) = (lookup m)(k := None)"
    and ok_insert: "ok m \<Longrightarrow> ok (insert_at k v m)"
    and ok_erase: "ok m \<Longrightarrow> ok (erase k m)"
begin

lemma lookup_fold_erase: "lookup (fold erase ks m) k = (if k \<in> set ks then None else lookup m k)"
  by (induction ks arbitrary: m) (auto simp: lookup_erase)

lemma ok_fold_erase: "ok m \<Longrightarrow> ok (fold erase ks m)"
  by (induction ks arbitrary: m) (auto simp: ok_erase)

lemma erase_insert: "lookup m k = None \<Longrightarrow> lookup (erase k (insert_at k v m)) = lookup m"
  by (auto simp: lookup_insert lookup_erase)

end

interpretation om: ordered_map map_of om_put om_del om_ok
  by unfold_locales (auto simp: om_ok_put om_ok_del)

section \<open>Decimal numbers\<close>

text \<open>\<open>std::to_string(int)\<close>.\<close>

fun show_nat :: "nat \<Rightarrow> string" where
  "show_nat n =
     (if n < 10 then [char_of (48 + n)] else show_nat (n div 10) @ [char_of (48 + n mod 10)])"

definition show_int :: "int \<Rightarrow> string" where
  "show_int n = (if n < 0 then ''-'' @ show_nat (nat (- n)) else show_nat (nat n))"

declare show_nat.simps [simp del]

end
