(* ===== verification/Page.thy ===== *)
theory Page
  imports Prelude
begin

text \<open>
  \<open>src/src/file/Page.cpp\<close>: a page is a vector of bytes of the block size; integers are
  copied in and out as four bytes, byte strings with their length before them. The guards
  compare in \<open>size_t\<close>, so a negative offset wraps around modulo \<open>2 ^ 64\<close>.
\<close>

section \<open>Machine integers\<close>

definition int32 :: "int \<Rightarrow> bool" where
  "int32 n \<longleftrightarrow> - (2 ^ 31) \<le> n \<and> n < 2 ^ 31"

text \<open>The value an \<open>int\<close> has after conversion to \<open>size_t\<close>.\<close>

definition usize :: "int \<Rightarrow> int" where
  "usize n = n mod 2 ^ 64"

text \<open>\<open>memcpy\<close> from and to an \<open>int\<close>: two's complement, least significant byte first.\<close>

definition int_bytes :: "int \<Rightarrow> bytes" where
  "int_bytes n = [char_of n, char_of (n div 256), char_of (n div 65536), char_of (n div 16777216)]"

definition bytes_int :: "bytes \<Rightarrow> int" where
  "bytes_int bs =
     (let u = foldr (\<lambda>b acc. of_char b + 256 * acc) bs 0
      in if u < 2 ^ 31 then u else u - 2 ^ 32)"

lemma length_int_bytes [simp]: "length (int_bytes n) = 4"
  by (simp add: int_bytes_def)

lemma int_bytes_sum:
  "n mod 256 + 256 * (n div 256 mod 256 + 256 * (n div 65536 mod 256 + 256 * (n div 16777216 mod 256)))
   = n mod (4294967296 :: int)"
proof -
  have a: "m mod 4294967296 = 256 * (m div 256 mod 16777216) + m mod 256" for m :: int
    using zmod_zmult2_eq [of 16777216 m 256] by simp
  have b: "m mod 16777216 = 256 * (m div 256 mod 65536) + m mod 256" for m :: int
    using zmod_zmult2_eq [of 65536 m 256] by simp
  have c: "m mod 65536 = 256 * (m div 256 mod 256) + m mod 256" for m :: int
    using zmod_zmult2_eq [of 256 m 256] by simp
  have d: "n div 65536 = n div 256 div 256"
    using zdiv_zmult2_eq [of 256 n 256] by simp
  have e: "n div 16777216 = n div 256 div 256 div 256"
    using zdiv_zmult2_eq [of 256 n 65536] zdiv_zmult2_eq [of 256 n 256] by simp
  show ?thesis
    unfolding a [of n] b [of "n div 256"] c [of "n div 256 div 256"] d e
    by (simp only: add.commute)
qed

lemma bytes_int_bytes: "bytes_int (int_bytes n) = (let u = n mod 4294967296 in if u < 2 ^ 31 then u else u - 2 ^ 32)"
proof -
  have "foldr (\<lambda>b acc. of_char b + 256 * acc) (int_bytes n) (0::int) = n mod 4294967296"
    unfolding int_bytes_sum [symmetric] by (simp add: int_bytes_def)
  then show ?thesis by (simp add: bytes_int_def)
qed

lemma int_bytes_inverse [simp]:
  assumes "int32 n"
  shows "bytes_int (int_bytes n) = n"
proof (cases "0 \<le> n")
  case True
  with assms show ?thesis by (simp add: bytes_int_bytes int32_def)
next
  case False
  with assms have "n mod 4294967296 = n + 4294967296"
    using mod_pos_pos_trivial [of "n + 4294967296" "4294967296"] by (simp add: int32_def)
  with False assms show ?thesis by (simp add: bytes_int_bytes int32_def)
qed

lemma of_char_int [simp]: "(0::int) \<le> of_char c" "of_char c < (256::int)"
proof -
  have "of_char c mod 256 = (of_char c :: int)" by simp
  then show "(0::int) \<le> of_char c" "of_char c < (256::int)"
    by (metis pos_mod_sign pos_mod_bound zero_less_numeral)+
qed

lemma char_of_low: "char_of (of_char a + 256 * q :: int) = a"
  by (simp add: char_of_eq_iff take_bit_eq_mod)

lemma digit_div: "0 \<le> w \<Longrightarrow> w < 256 \<Longrightarrow> (w + 256 * q) div 256 = (q :: int)"
  by simp

lemma int_bytes_digits:
  "int_bytes (of_char a + 256 * (of_char b + 256 * (of_char c + 256 * (of_char d + 256 * k)))) = [a, b, c, d]"
proof -
  let ?n = "of_char a + 256 * (of_char b + 256 * (of_char c + 256 * (of_char d + 256 * k))) :: int"
  have 1: "?n div 256 = of_char b + 256 * (of_char c + 256 * (of_char d + 256 * k))"
    by (rule digit_div) simp_all
  have 2: "?n div 65536 = of_char c + 256 * (of_char d + 256 * k)"
    using zdiv_zmult2_eq [of 256 ?n 256] 1 digit_div [of "of_char b" "of_char c + 256 * (of_char d + 256 * k)"] by simp
  have 3: "?n div 16777216 = of_char d + 256 * k"
    using zdiv_zmult2_eq [of 256 ?n 65536] 2 digit_div [of "of_char c" "of_char d + 256 * k"] by simp
  show ?thesis
    unfolding int_bytes_def 1 2 3 char_of_low ..
qed

lemma digits4_bound:
  fixes w x y z :: int
  assumes "0 \<le> w" "w < 256" "0 \<le> x" "x < 256" "0 \<le> y" "y < 256" "0 \<le> z" "z < 256"
  shows "0 \<le> w + 256 * (x + 256 * (y + 256 * z))" "w + 256 * (x + 256 * (y + 256 * z)) < 4294967296"
  using assms by (simp_all add: algebra_simps)

lemma bytes_int_range:
  assumes "length bs = 4"
  shows "int32 (bytes_int bs)" "int_bytes (bytes_int bs) = bs"
proof -
  from assms obtain a b c d where bs: "bs = [a, b, c, d]"
    by (auto simp: eval_nat_numeral length_Suc_conv)
  let ?u = "of_char a + 256 * (of_char b + 256 * (of_char c + 256 * of_char d)) :: int"
  have b: "bytes_int bs = (if ?u < 2 ^ 31 then ?u else ?u - 2 ^ 32)"
    by (simp add: bytes_int_def bs Let_def)
  have r: "(0::int) \<le> of_char e" "of_char e < (256::int)" for e
    by (rule of_char_int)+
  have "0 \<le> u \<Longrightarrow> u < 4294967296 \<Longrightarrow> int32 (if u < 2 ^ 31 then u else u - 2 ^ 32)" for u
    by (simp add: int32_def)
  from this [OF digits4_bound [OF r r r r]] show "int32 (bytes_int bs)"
    unfolding b .
  have "?u - 2 ^ 32 = of_char a + 256 * (of_char b + 256 * (of_char c + 256 * (of_char d + 256 * (- 1))))"
    by simp
  then show "int_bytes (bytes_int bs) = bs"
    unfolding b using int_bytes_digits [of a b c d 0, unfolded mult_zero_right add_0_right]
      int_bytes_digits [of a b c d "- 1"] bs by (cases "?u < 2 ^ 31") (simp_all only: if_True if_False)
qed
lemma usize_id: "0 \<le> n \<Longrightarrow> n < 2 ^ 64 \<Longrightarrow> usize n = n"
  by (simp add: usize_def)

section \<open>The page operations\<close>

definition zero_byte :: char where
  "zero_byte = CHR 0x00"

text \<open>\<open>Page(int blocksize)\<close>: a vector of zero bytes.\<close>

definition page_new :: "int \<Rightarrow> bytes" where
  "page_new blocksize = replicate (nat blocksize) zero_byte"

text \<open>
  \<open>getInt\<close> and \<open>setInt\<close>: the guard \<open>offset + sizeof(int) > size()\<close> is computed in
  \<open>size_t\<close>. An access it lets through outside the vector is undefined behaviour.
\<close>

definition getInt :: "bytes \<Rightarrow> int \<Rightarrow> int outcome" where
  "getInt bb offset =
     (if int (length bb) < usize (offset + 4) then Inl Exit
      else if offset < 0 \<or> int (length bb) < offset + 4 then Inl Undef
      else Inr (bytes_int (slice (nat offset) 4 bb)))"

definition setInt :: "bytes \<Rightarrow> int \<Rightarrow> int \<Rightarrow> bytes outcome" where
  "setInt bb offset n =
     (if int (length bb) < usize (offset + 4) then Inl Exit
      else if offset < 0 \<or> int (length bb) < offset + 4 then Inl Undef
      else Inr (overwrite (nat offset) (int_bytes n) bb))"

text \<open>
  \<open>getBytes\<close>: a negative length that passes the guard reaches \<open>std::vector<char>(len)\<close>,
  which throws \<open>std::length_error\<close>.
\<close>

definition getBytes :: "bytes \<Rightarrow> int \<Rightarrow> bytes outcome" where
  "getBytes bb offset = rbind (getInt bb offset) (\<lambda>len.
     if int (length bb) < usize (offset + 4 + len) then Inl Exit
     else if len < 0 then Inl (Throw ''cannot create std::vector larger than max_size()'')
     else if int (length bb) < offset + 4 + len then Inl Undef
     else Inr (slice (nat (offset + 4)) (nat len) bb))"

definition setBytes :: "bytes \<Rightarrow> int \<Rightarrow> bytes \<Rightarrow> bytes outcome" where
  "setBytes bb offset b =
     (let len = int (length b) in
      if int (length bb) < usize (offset + 4 + len) then Inl Exit
      else rbind (setInt bb offset len) (\<lambda>bb'.
        if int (length bb) < offset + 4 + len then Inl Undef
        else Inr (overwrite (nat (offset + 4)) b bb')))"

definition getString :: "bytes \<Rightarrow> int \<Rightarrow> string outcome" where
  "getString bb offset = getBytes bb offset"

definition setString :: "bytes \<Rightarrow> int \<Rightarrow> string \<Rightarrow> bytes outcome" where
  "setString bb offset s = setBytes bb offset s"

definition maxLength :: "int \<Rightarrow> int" where
  "maxLength strlen = 4 + strlen"

lemma length_page_new [simp]: "length (page_new b) = nat b"
  by (simp add: page_new_def)

section \<open>Fields of a page\<close>

text \<open>
  What the layers above rely on for a value type stored in pages: an encoding, a write that
  copies the encoding to its offset, and a read that finds the value wherever its encoding
  stands. The round trips are proved once from these laws.
\<close>

locale page_field =
  fixes get :: "bytes \<Rightarrow> int \<Rightarrow> 'v outcome"
    and put :: "bytes \<Rightarrow> int \<Rightarrow> 'v \<Rightarrow> bytes outcome"
    and enc :: "'v \<Rightarrow> bytes"
    and valid :: "'v \<Rightarrow> bool"
  assumes put_eq: "0 \<le> off \<Longrightarrow> off + int (length (enc v)) \<le> int (length bb) \<Longrightarrow> int (length bb) < 2 ^ 31 \<Longrightarrow>
      put bb off v = Inr (overwrite (nat off) (enc v) bb)"
    and get_eq: "valid v \<Longrightarrow> 0 \<le> off \<Longrightarrow> off + int (length (enc v)) \<le> int (length bb) \<Longrightarrow>
      int (length bb) < 2 ^ 31 \<Longrightarrow> slice (nat off) (length (enc v)) bb = enc v \<Longrightarrow> get bb off = Inr v"
begin

lemma get_overwrite:
  assumes "valid v" "0 \<le> off" "off + int (length (enc v)) \<le> int (length bb)" "int (length bb) < 2 ^ 31"
  shows "get (overwrite (nat off) (enc v) bb) off = Inr v"
  using assms by (intro get_eq) auto

lemma get_put:
  assumes "valid v" "0 \<le> off" "off + int (length (enc v)) \<le> int (length bb)" "int (length bb) < 2 ^ 31"
  shows "rbind (put bb off v) (\<lambda>bb'. get bb' off) = Inr v"
  using assms by (simp add: put_eq get_overwrite)

lemma get_other:
  assumes "valid v" "0 \<le> off" "off + int (length (enc v)) \<le> int (length bb)" "int (length bb) < 2 ^ 31"
    and "slice (nat off) (length (enc v)) bb = enc v"
    and "i + length xs \<le> length bb"
    and "off + int (length (enc v)) \<le> int i \<or> int (i + length xs) \<le> off"
  shows "get (overwrite i xs bb) off = Inr v"
proof (rule get_eq)
  have "nat off + length (enc v) \<le> i \<or> i + length xs \<le> nat off"
    using assms(2,7) by linarith
  then show "slice (nat off) (length (enc v)) (overwrite i xs bb) = enc v"
    using assms(5,6) by (simp add: slice_overwrite_disjoint)
qed (use assms in auto)

end

definition str_bytes :: "string \<Rightarrow> bytes" where
  "str_bytes s = int_bytes (int (length s)) @ s"

lemma length_str_bytes [simp]: "length (str_bytes s) = 4 + length s"
  by (simp add: str_bytes_def)

lemma slice_prefix:
  assumes "slice i n bb = xs @ ys" "length xs = k"
  shows "slice i k bb = xs"
proof -
  have "length (slice i n bb) \<le> n"
    by (simp add: slice_def)
  with assms have "k \<le> n"
    by simp
  then have "slice i k bb = take k (slice i n bb)"
    by (simp add: slice_def min_def)
  then show ?thesis using assms by simp
qed

lemma slice_suffix:
  assumes "slice i n bb = xs @ ys" "length xs = k"
  shows "slice (i + k) (n - k) bb = ys"
proof -
  have "slice (i + k) (n - k) bb = drop k (slice i n bb)"
    by (simp add: slice_def drop_take add.commute)
  then show ?thesis using assms by simp
qed

interpretation int_field: page_field getInt setInt int_bytes int32
  by unfold_locales (simp_all add: getInt_def setInt_def usize_id)

lemma setBytes_eq:
  assumes "0 \<le> off" "off + int (length (str_bytes b)) \<le> int (length bb)" "int (length bb) < 2 ^ 31"
  shows "setBytes bb off b = Inr (overwrite (nat off) (str_bytes b) bb)"
proof -
  have "overwrite (nat (off + 4)) b (overwrite (nat off) (int_bytes (int (length b))) bb) =
      overwrite (nat off) (str_bytes b) bb"
    using assms by (auto simp: overwrite_def str_bytes_def nat_add_distrib add_ac min_def)
  then show ?thesis
    using assms by (simp add: setBytes_def int_field.put_eq usize_id)
qed

lemma getBytes_eq:
  assumes "int (length b) < 2 ^ 31" "0 \<le> off" "off + int (length (str_bytes b)) \<le> int (length bb)"
    "int (length bb) < 2 ^ 31" "slice (nat off) (length (str_bytes b)) bb = str_bytes b"
  shows "getBytes bb off = Inr b"
proof -
  have s: "slice (nat off) (4 + length b) bb = int_bytes (int (length b)) @ b"
    using assms(5) by (simp add: str_bytes_def)
  have "getInt bb off = Inr (int (length b))"
    by (rule int_field.get_eq) (use assms slice_prefix [OF s, of 4] in \<open>auto simp: int32_def\<close>)
  moreover have "slice (nat (off + 4)) (length b) bb = b"
    using slice_suffix [OF s, of 4] assms(2) by (simp add: nat_add_distrib)
  ultimately show ?thesis
    using assms by (simp add: getBytes_def usize_id)
qed

interpretation str_field: page_field getString setString str_bytes "\<lambda>s. int (length s) < 2 ^ 31"
  by unfold_locales (simp_all add: getString_def setString_def setBytes_eq getBytes_eq)

interpretation bytes_field: page_field getBytes setBytes str_bytes "\<lambda>s. int (length s) < 2 ^ 31"
  by unfold_locales (simp_all add: setBytes_eq getBytes_eq)

lemma setInt_length: "setInt bb off n = Inr bb' \<Longrightarrow> length bb' = length bb"
  by (auto simp: setInt_def split: if_splits)

lemma setBytes_length: "setBytes bb off b = Inr bb' \<Longrightarrow> length bb' = length bb"
  by (auto simp: setBytes_def rbind_eq_Inr Let_def setInt_def split: if_splits)

lemma setString_length: "setString bb off s = Inr bb' \<Longrightarrow> length bb' = length bb"
  by (simp add: setString_def setBytes_length)

section \<open>Properties\<close>

text \<open>C1. An integer written to a page at an offset where it fits is read back unchanged.\<close>

theorem page_int_roundtrip:
  assumes "int32 n" "0 \<le> off" "off + 4 \<le> int (length bb)" "int (length bb) < 2 ^ 31"
  shows "rbind (setInt bb off n) (\<lambda>bb'. getInt bb' off) = Inr n"
  using int_field.get_put [of n off bb] assms by simp

theorem page_int_roundtrip_witness:
  "rbind (setInt (page_new 12) 8 (- 5)) (\<lambda>bb'. getInt bb' 8) = Inr (- 5)"
  by (rule page_int_roundtrip) (simp_all add: int32_def)

end
