(* ===== verification/FileManager.thy ===== *)
theory FileManager
  imports Page
begin

text \<open>
  \<open>src/src/file/BlockId.cpp\<close> and \<open>src/src/file/FileMgr.cpp\<close>: block identifiers with the order
  that the \<open>std::map\<close>s of the program use, and the file manager, which moves whole blocks
  between files and pages. Opening a file never fails here and the disk never reports
  \<open>badbit\<close>; a stream whose \<open>seekp\<close> failed stays failed until the next read clears it.
\<close>

section \<open>Block identifiers\<close>

datatype block_id = BlockId (fileName: string) (number: int)

text \<open>The order of \<open>operator<\<close>: file names first (bytes as unsigned), then block numbers.\<close>

definition blk_less :: "block_id \<Rightarrow> block_id \<Rightarrow> bool" where
  "blk_less a b = (if fileName a = fileName b then number a < number b else fileName a < fileName b)"

instantiation block_id :: linorder
begin

definition less_block_id :: "block_id \<Rightarrow> block_id \<Rightarrow> bool" where
  "less_block_id = blk_less"

definition less_eq_block_id :: "block_id \<Rightarrow> block_id \<Rightarrow> bool" where
  "less_eq_block_id a b \<longleftrightarrow> a = b \<or> a < b"

instance
proof
  fix x y z :: block_id
  show "(x < y) = (x \<le> y \<and> \<not> y \<le> x)"
    by (cases x; cases y) (auto simp: less_block_id_def blk_less_def less_eq_block_id_def)
  show "x \<le> x"
    by (simp add: less_eq_block_id_def)
  show "x \<le> y \<Longrightarrow> y \<le> z \<Longrightarrow> x \<le> z"
    by (cases x; cases y; cases z) (auto simp: less_block_id_def blk_less_def less_eq_block_id_def split: if_splits)
  show "x \<le> y \<Longrightarrow> y \<le> x \<Longrightarrow> x = y"
    by (cases x; cases y) (auto simp: less_block_id_def blk_less_def less_eq_block_id_def split: if_splits)
  show "x \<le> y \<or> y \<le> x"
    by (cases x; cases y) (auto simp: less_block_id_def blk_less_def less_eq_block_id_def split: if_splits)
qed

end

definition blk_equals :: "block_id \<Rightarrow> block_id \<Rightarrow> bool" where
  "blk_equals a b \<longleftrightarrow> fileName a = fileName b \<and> number a = number b"

definition blk_isNull :: "block_id \<Rightarrow> bool" where
  "blk_isNull b \<longleftrightarrow> fileName b = []"

definition blk_toString :: "block_id \<Rightarrow> string" where
  "blk_toString b = ''[file '' @ fileName b @ '', block '' @ show_int (number b) @ '']''"

lemma blk_equals_eq [simp]: "blk_equals a b \<longleftrightarrow> a = b"
  by (cases a; cases b) (simp add: blk_equals_def)

section \<open>The file manager\<close>

text \<open>
  The database directory is a map from file names to contents. \<open>failed\<close> holds the files
  whose open stream has \<open>failbit\<close> set.
\<close>

record fm =
  blocksize :: int
  isNew :: bool
  files :: "string \<Rightarrow> bytes option"
  failed :: "string set"

text \<open>The constructor removes left-over temporary tables from an existing directory.\<close>

definition is_temp :: "string \<Rightarrow> bool" where
  "is_temp n \<longleftrightarrow> take 4 n = ''temp''"

definition fm_init :: "(string \<Rightarrow> bytes option) option \<Rightarrow> int \<Rightarrow> fm" where
  "fm_init dir bs =
     \<lparr>blocksize = bs, isNew = (dir = None),
      files = (\<lambda>n. if is_temp n then None else case dir of None \<Rightarrow> None | Some d \<Rightarrow> d n),
      failed = {}\<rparr>"

text \<open>\<open>getFile\<close>: a missing file is created empty.\<close>

definition fm_getFile :: "string \<Rightarrow> 'a fm_scheme \<Rightarrow> 'a fm_scheme" where
  "fm_getFile n s = (case files s n of None \<Rightarrow> s\<lparr>files := (files s)(n \<mapsto> [])\<rparr> | Some _ \<Rightarrow> s)"

definition fm_length :: "string \<Rightarrow> 'a fm_scheme \<Rightarrow> int" where
  "fm_length n s = (case files s n of None \<Rightarrow> 0 | Some c \<Rightarrow> int (length c) div blocksize s)"

text \<open>Writing beyond the end of a file leaves a hole of zero bytes.\<close>

definition file_write :: "nat \<Rightarrow> bytes \<Rightarrow> bytes \<Rightarrow> bytes" where
  "file_write i xs c = take i c @ replicate (i - length c) zero_byte @ xs @ drop (i + length xs) c"

text \<open>\<open>seekp(offset)\<close> and \<open>write\<close> on the stream of an open file.\<close>

definition stream_write :: "string \<Rightarrow> int \<Rightarrow> bytes \<Rightarrow> 'a fm_scheme \<Rightarrow> 'a fm_scheme" where
  "stream_write n offset xs s =
     (if n \<in> failed s \<or> offset < 0 then s\<lparr>failed := insert n (failed s)\<rparr>
      else s\<lparr>files := (files s)(n \<mapsto> file_write (nat offset) xs (case files s n of None \<Rightarrow> [] | Some c \<Rightarrow> c))\<rparr>)"

definition fm_write :: "block_id \<Rightarrow> bytes \<Rightarrow> ('a fm_scheme, unit) cmd" where
  "fm_write blk p s =
     (let s1 = fm_getFile (fileName blk) s in
      if int (length p) < blocksize s then (Inl Undef, s1)
      else (Inr (), stream_write (fileName blk) (number blk * blocksize s) (take (nat (blocksize s)) p) s1))"

definition fm_append :: "string \<Rightarrow> ('a fm_scheme, block_id) cmd" where
  "fm_append n s =
     (let s1 = fm_getFile n s;
          newBlkNum = fm_length n s1
      in (Inr (BlockId n newBlkNum),
          stream_write n (newBlkNum * blocksize s) (page_new (blocksize s)) s1))"

text \<open>
  \<open>read\<close>: the bytes of the file from the block's offset on, at most a block of them, replace
  the front of the page; when they are fewer than a block, \<open>memset\<close> clears
  \<open>blocksize - readCnt\<close> bytes from the start of the page.
\<close>

definition fm_read :: "block_id \<Rightarrow> bytes \<Rightarrow> ('a fm_scheme, bytes) cmd" where
  "fm_read blk p s =
     (let n = fileName blk;
          s1 = fm_getFile n s;
          bs = nat (blocksize s);
          offset = number blk * blocksize s;
          input = (if n \<in> failed s \<or> offset < 0 then []
                   else slice (nat offset) bs (case files s n of None \<Rightarrow> [] | Some c \<Rightarrow> c));
          p1 = overwrite 0 input p
      in if int (length p) < blocksize s then (Inl Undef, s1)
         else if length input < bs
         then (Inr (overwrite 0 (replicate (bs - length input) zero_byte) p1),
               s1\<lparr>failed := failed s - {n}\<rparr>)
         else (Inr p1, s1))"

section \<open>What the disk holds\<close>

text \<open>
  The specification's view of a file is its bytes followed by zeros without end; a block is
  a window of that view.
\<close>

definition byte_at :: "bytes \<Rightarrow> nat \<Rightarrow> char" where
  "byte_at c k = (if k < length c then c ! k else zero_byte)"

definition file_bytes :: "string \<Rightarrow> 'a fm_scheme \<Rightarrow> bytes" where
  "file_bytes n s = (case files s n of None \<Rightarrow> [] | Some c \<Rightarrow> c)"

definition disk_block :: "'a fm_scheme \<Rightarrow> block_id \<Rightarrow> bytes" where
  "disk_block s b =
     map (\<lambda>k. byte_at (file_bytes (fileName b) s) (nat (number b) * nat (blocksize s) + k)) [0..<nat (blocksize s)]"

text \<open>Files made of whole blocks, and no failed stream.\<close>

definition fm_inv :: "'a fm_scheme \<Rightarrow> bool" where
  "fm_inv s \<longleftrightarrow> 0 < blocksize s \<and> failed s = {} \<and>
     (\<forall>n. nat (blocksize s) dvd length (file_bytes n s))"

lemma length_disk_block [simp]: "length (disk_block s b) = nat (blocksize s)"
  by (simp add: disk_block_def)

lemma fm_getFile_simps [simp]:
  "blocksize (fm_getFile n s) = blocksize s"
  "failed (fm_getFile n s) = failed s"
  "file_bytes m (fm_getFile n s) = file_bytes m s"
  "fm.more (fm_getFile n s) = fm.more s"
  by (auto simp: fm_getFile_def file_bytes_def split: option.splits)

lemma stream_write_simps [simp]:
  "blocksize (stream_write n i xs s) = blocksize s"
  "fm.more (stream_write n i xs s) = fm.more s"
  by (auto simp: stream_write_def)

lemma file_bytes_stream_write:
  "n \<notin> failed s \<Longrightarrow> 0 \<le> i \<Longrightarrow>
   file_bytes m (stream_write n i xs s) = (if m = n then file_write (nat i) xs (file_bytes n s) else file_bytes m s)"
  by (auto simp: stream_write_def file_bytes_def)

lemma failed_stream_write: "n \<notin> failed s \<Longrightarrow> 0 \<le> i \<Longrightarrow> failed (stream_write n i xs s) = failed s"
  by (simp add: stream_write_def)

lemma disk_block_getFile [simp]: "disk_block (fm_getFile n s) = disk_block s"
  by (simp add: disk_block_def fun_eq_iff)

lemma fm_length_eq: "fm_length n s = int (length (file_bytes n s)) div blocksize s"
  by (simp add: fm_length_def file_bytes_def split: option.split)

lemma length_file_write: "length (file_write i xs c) = max (length c) (i + length xs)"
  by (auto simp: file_write_def)

lemma byte_at_file_write:
  "byte_at (file_write i xs c) k = (if i \<le> k \<and> k < i + length xs then xs ! (k - i) else byte_at c k)"
proof -
  have "min (length c) i + (i - length c) = i"
    by simp
  then show ?thesis
    unfolding byte_at_def length_file_write by (auto simp: file_write_def nth_append)
qed

lemma block_window:
  fixes i j k b :: nat
  assumes "k < b"
  shows "(i * b \<le> j * b + k \<and> j * b + k < i * b + b) \<longleftrightarrow> i = j"
proof
  assume h: "i * b \<le> j * b + k \<and> j * b + k < i * b + b"
  then have "i * b < (j + 1) * b" and "j * b < (i + 1) * b"
    using assms by (auto simp: algebra_simps)
  then have "i < j + 1" and "j < i + 1"
    using mult_less_cancel2 by blast+
  then show "i = j" by simp
qed (use assms in auto)

lemma disk_block_stream_write:
  assumes "length p = nat (blocksize s)" "0 \<le> number b'" "0 \<le> number b" "0 < blocksize s" "fileName b \<notin> failed s"
  shows "disk_block (stream_write (fileName b) (number b * blocksize s) p s) b' =
    (if b' = b then p else disk_block s b')"
proof (cases "fileName b' = fileName b")
  case False
  then have "b' \<noteq> b" by auto
  with False assms show ?thesis
    by (simp add: disk_block_def file_bytes_stream_write)
next
  case True
  have same: "nat (number b') = nat (number b) \<longleftrightarrow> b' = b"
    using True assms by (cases b; cases b') auto
  let ?w = "nat (number b) * nat (blocksize s)"
  have off: "nat (number b * blocksize s) = ?w"
    using assms by (simp add: nat_mult_distrib)
  have "byte_at (file_write ?w p c) (nat (number b') * nat (blocksize s) + k) =
      (if b' = b then p ! k else byte_at c (nat (number b') * nat (blocksize s) + k))"
    if "k < nat (blocksize s)" for k c
    using block_window [OF that, of "nat (number b)" "nat (number b')"] assms(1) same
    by (auto simp: byte_at_file_write)
  with True off assms show ?thesis
    by (auto simp: disk_block_def file_bytes_stream_write intro!: nth_equalityI)
qed

lemma fm_inv_stream_write:
  assumes "fm_inv s" "length p = nat (blocksize s)" "0 \<le> i"
  shows "fm_inv (stream_write n (i * blocksize s) p s)"
proof -
  have pos: "0 < blocksize s" and nf: "n \<notin> failed s"
    using assms(1) by (auto simp: fm_inv_def)
  have off: "nat (i * blocksize s) = nat i * nat (blocksize s)"
    using assms(3) by (simp add: nat_mult_distrib)
  have "nat (blocksize s) dvd length (file_write (nat (i * blocksize s)) p c)"
    if "nat (blocksize s) dvd length c" for c
    using that assms(2) unfolding length_file_write off by (simp add: max_def)
  with assms pos nf show ?thesis
    by (auto simp: fm_inv_def failed_stream_write file_bytes_stream_write)
qed

lemma fm_inv_getFile [simp]: "fm_inv (fm_getFile n s) = fm_inv s"
  by (simp add: fm_inv_def)

lemma fm_write_eq:
  assumes "fm_inv s" "length p = nat (blocksize s)" "0 \<le> number b"
  shows "fm_write b p s = (Inr (), stream_write (fileName b) (number b * blocksize s) p (fm_getFile (fileName b) s))"
  using assms by (simp add: fm_write_def fm_inv_def Let_def)

text \<open>A block read from a file of whole blocks is the block of the disk.\<close>

lemma slice_block:
  assumes "b dvd length c" "0 < b"
  shows "slice (i * b) b c = map (\<lambda>k. byte_at c (i * b + k)) [0..<b] \<or> (slice (i * b) b c = [] \<and> length c \<le> i * b)"
proof (cases "i * b < length c")
  case True
  from assms obtain m where m: "length c = m * b"
    by (metis dvd_def mult.commute)
  with True have "i < m" by (simp add: assms(2))
  then have "(i + 1) * b \<le> length c"
    unfolding m by (intro mult_le_mono1) simp
  then show ?thesis
    by (auto simp: slice_def byte_at_def intro!: nth_equalityI)
qed (simp add: slice_def)

lemma fm_read_eq:
  assumes "fm_inv s" "length p = nat (blocksize s)" "0 \<le> number b"
  shows "fm_read b p s = (Inr (disk_block s b), fm_getFile (fileName b) s)"
proof -
  let ?b = "nat (blocksize s)"
  let ?in = "slice (nat (number b * blocksize s)) ?b (file_bytes (fileName b) s)"
  have pos: "0 < blocksize s" and dv: "?b dvd length (file_bytes (fileName b) s)" and nf: "failed s = {}"
    using assms(1) by (auto simp: fm_inv_def)
  have off: "nat (number b * blocksize s) = nat (number b) * ?b"
    using assms(3) by (simp add: nat_mult_distrib)
  have ge: "\<not> number b * blocksize s < 0"
    using assms(3) pos by (simp add: not_less)
  from slice_block [OF dv, of "nat (number b)"] pos
  consider "?in = disk_block s b" | "?in = []" "length (file_bytes (fileName b) s) \<le> nat (number b) * ?b"
    by (auto simp: off disk_block_def)
  then show ?thesis
  proof cases
    case 1
    then show ?thesis
      using assms(2) ge nf pos
      by (simp add: fm_read_def Let_def file_bytes_def [symmetric] overwrite_all)
  next
    case 2
    have "disk_block s b = replicate ?b zero_byte"
      using 2(2) by (auto simp: disk_block_def byte_at_def intro!: nth_equalityI)
    then show ?thesis
      using assms(2) ge nf pos 2(1)
      by (simp add: fm_read_def Let_def file_bytes_def [symmetric] overwrite_def)
  qed
qed

lemma fm_append_eq:
  assumes "fm_inv s"
  shows "fm_append n s = (Inr (BlockId n (fm_length n s)),
    stream_write n (fm_length n s * blocksize s) (page_new (blocksize s)) (fm_getFile n s))"
  by (simp add: fm_append_def Let_def fm_length_eq)

lemma fm_length_nonneg: "fm_inv s \<Longrightarrow> 0 \<le> fm_length n s"
  by (simp add: fm_length_eq fm_inv_def pos_imp_zdiv_nonneg_iff)

lemma fm_length_stream_write:
  assumes "fm_inv s" "length p = nat (blocksize s)" "0 \<le> i"
  shows "fm_length m (stream_write n (i * blocksize s) p s) =
    (if m = n then max (fm_length n s) (i + 1) else fm_length m s)"
proof -
  have pos: "0 < blocksize s" and nf: "n \<notin> failed s" and dv: "nat (blocksize s) dvd length (file_bytes n s)"
    using assms(1) by (auto simp: fm_inv_def)
  from dv obtain q where q: "length (file_bytes n s) = q * nat (blocksize s)"
    by (metis dvd_def mult.commute)
  have "int (max (q * nat (blocksize s)) (nat (i * blocksize s) + nat (blocksize s))) =
      max (int q * blocksize s) ((i + 1) * blocksize s)"
    using pos assms(3) by (simp add: of_nat_max algebra_simps)
  also have "\<dots> = max (int q) (i + 1) * blocksize s"
    using pos by (simp add: max_mult_distrib_right)
  finally have m: "int (max (q * nat (blocksize s)) (nat (i * blocksize s) + nat (blocksize s))) div blocksize s =
      max (int q) (i + 1)"
    using pos by simp
  with pos nf assms q show ?thesis
    by (simp add: fm_length_eq file_bytes_stream_write length_file_write)
qed

section \<open>Storing a block\<close>

text \<open>What a write of a whole page does to a disk of whole blocks, as one operation.\<close>

definition store_block :: "block_id \<Rightarrow> bytes \<Rightarrow> 'a fm_scheme \<Rightarrow> 'a fm_scheme" where
  "store_block b p s = stream_write (fileName b) (number b * blocksize s) p (fm_getFile (fileName b) s)"

lemma store_block_simps [simp]:
  "blocksize (store_block b p s) = blocksize s"
  "fm.more (store_block b p s) = fm.more s"
  "fileName b \<noteq> n \<Longrightarrow> file_bytes n (store_block b p s) = file_bytes n s"
  by (auto simp: store_block_def stream_write_def file_bytes_def fm_getFile_def split: option.splits)

lemma fm_write_store:
  "fm_inv s \<Longrightarrow> int (length p) = blocksize s \<Longrightarrow> 0 \<le> number b \<Longrightarrow> fm_write b p s = (Inr (), store_block b p s)"
  by (subst fm_write_eq) (auto simp: store_block_def)

lemma fm_append_store:
  "fm_inv s \<Longrightarrow> fm_append n s =
    (Inr (BlockId n (fm_length n s)), store_block (BlockId n (fm_length n s)) (page_new (blocksize s)) s)"
  by (simp add: fm_append_eq store_block_def)

lemma fm_inv_store [simp]:
  "fm_inv s \<Longrightarrow> int (length p) = blocksize s \<Longrightarrow> 0 \<le> number b \<Longrightarrow> fm_inv (store_block b p s)"
  using fm_inv_stream_write [of "fm_getFile (fileName b) s" p "number b" "fileName b"]
  by (auto simp: store_block_def)

lemma disk_block_store:
  assumes "fm_inv s" "int (length p) = blocksize s" "0 \<le> number b" "0 \<le> number b'"
  shows "disk_block (store_block b p s) b' = (if b' = b then p else disk_block s b')"
  using disk_block_stream_write [of p "fm_getFile (fileName b) s" b' b] assms
  by (auto simp: store_block_def fm_inv_def)

lemma fm_length_store:
  assumes "fm_inv s" "int (length p) = blocksize s" "0 \<le> number b"
  shows "fm_length m (store_block b p s) =
    (if m = fileName b then max (fm_length m s) (number b + 1) else fm_length m s)"
  using fm_length_stream_write [of "fm_getFile (fileName b) s" p "number b" m "fileName b"] assms
  by (auto simp: store_block_def fm_length_eq)

end
