(* ===== verification/LogManager.thy ===== *)
theory LogManager
  imports FileManager "HOL-Library.Sublist"
begin

text \<open>
  \<open>src/src/logging/LogMgr.cpp\<close> and \<open>LogIterator.cpp\<close>: the log file is a sequence of blocks.
  The first four bytes of a block hold its boundary; the records of the block lie from the
  boundary to the end of the block, the newest first. The theory shows that the state
  represents the list of the appended records, that a part of it is durable, and that the
  iterator returns the records newest first.
\<close>

section \<open>The log manager\<close>

record lm = fm +
  logFileName :: string
  logPage :: bytes
  currBlk :: block_id
  latestLsn :: int
  lastSaveLsn :: int

text \<open>The private \<open>flush()\<close> and the public \<open>flush(lsn)\<close>.\<close>

definition lm_flush_page :: "('a lm_scheme, unit) cmd" where
  "lm_flush_page =
     bnd (gets (\<lambda>s. (currBlk s, logPage s))) (\<lambda>(blk, p).
     seq (fm_write blk p)
         (upd (\<lambda>s. s\<lparr>lastSaveLsn := latestLsn s\<rparr>)))"

definition lm_flush :: "int \<Rightarrow> ('a lm_scheme, unit) cmd" where
  "lm_flush lsn = bnd (gets lastSaveLsn) (\<lambda>saved. if saved \<le> lsn then lm_flush_page else ret ())"

definition lm_appendNewBlock :: "('a lm_scheme, block_id) cmd" where
  "lm_appendNewBlock =
     bnd (gets logFileName) (\<lambda>n.
     bnd (fm_append n) (\<lambda>blk.
     bnd (gets (\<lambda>s. (logPage s, blocksize s))) (\<lambda>(p, bs).
     bnd (lift (setInt p 0 bs)) (\<lambda>p'.
     seq (upd (\<lambda>s. s\<lparr>logPage := p'\<rparr>))
     (seq (fm_write blk p') (ret blk))))))"

text \<open>The constructor: the last block of an existing log becomes the log page.\<close>

definition lm_init :: "string \<Rightarrow> fm \<Rightarrow> unit outcome \<times> lm" where
  "lm_init n s =
     (let s0 = fm.extend s (lm.fields n (page_new (blocksize s)) (BlockId n 0) 0 0);
          logFileLength = fm_length n s
      in if logFileLength = 0
         then bnd lm_appendNewBlock (\<lambda>blk. upd (\<lambda>s. s\<lparr>currBlk := blk\<rparr>)) s0
         else seq (upd (\<lambda>s. s\<lparr>currBlk := BlockId n (logFileLength - 1)\<rparr>))
                (bnd (gets (\<lambda>s. (currBlk s, logPage s))) (\<lambda>(blk, p).
                 bnd (fm_read blk p) (\<lambda>p'. upd (\<lambda>s. s\<lparr>logPage := p'\<rparr>)))) s0)"

text \<open>\<open>append\<close>: where the record does not fit, the page is flushed and a new block begun.\<close>

definition lm_make_room :: "int \<Rightarrow> int \<Rightarrow> ('a lm_scheme, int) cmd" where
  "lm_make_room boundary bytesNeeded =
     (if boundary - bytesNeeded < 4
      then seq lm_flush_page
           (bnd lm_appendNewBlock (\<lambda>blk.
            seq (upd (\<lambda>s. s\<lparr>currBlk := blk\<rparr>))
            (bnd (gets logPage) (\<lambda>p. lift (getInt p 0)))))
      else ret boundary)"

definition lm_append :: "bytes \<Rightarrow> ('a lm_scheme, int) cmd" where
  "lm_append logRec =
     bnd (gets logPage) (\<lambda>p0.
     bnd (lift (getInt p0 0)) (\<lambda>boundary0.
     let bytesNeeded = int (length logRec) + 4 in
     bnd (lm_make_room boundary0 bytesNeeded) (\<lambda>boundary.
     let recPos = boundary - bytesNeeded in
     bnd (gets logPage) (\<lambda>p.
     bnd (lift (setBytes p recPos logRec)) (\<lambda>p1.
     seq (upd (\<lambda>s. s\<lparr>logPage := p1\<rparr>))
     (bnd (lift (setInt p1 0 recPos)) (\<lambda>p2.
     seq (upd (\<lambda>s. s\<lparr>logPage := p2, latestLsn := latestLsn s + 1\<rparr>))
         (gets latestLsn))))))))"

section \<open>The iterator\<close>

record log_iter =
  itPage :: bytes
  itBlk :: block_id
  currPos :: int

definition li_moveToBlock :: "block_id \<Rightarrow> bytes \<Rightarrow> ('a fm_scheme, log_iter) cmd" where
  "li_moveToBlock blk p =
     bnd (fm_read blk p) (\<lambda>p'.
     bnd (lift (getInt p' 0)) (\<lambda>boundary.
     ret \<lparr>itPage = p', itBlk = blk, currPos = boundary\<rparr>))"

definition li_init :: "block_id \<Rightarrow> ('a fm_scheme, log_iter) cmd" where
  "li_init blk = bnd (gets blocksize) (\<lambda>bs. li_moveToBlock blk (page_new bs))"

definition li_hasNext :: "log_iter \<Rightarrow> 'a fm_scheme \<Rightarrow> bool" where
  "li_hasNext it s \<longleftrightarrow> currPos it < blocksize s \<or> 0 < number (itBlk it)"

definition li_next :: "log_iter \<Rightarrow> ('a fm_scheme, bytes \<times> log_iter) cmd" where
  "li_next it =
     bnd (gets blocksize) (\<lambda>bs.
     bnd (if currPos it = bs
          then li_moveToBlock (BlockId (fileName (itBlk it)) (number (itBlk it) - 1)) (itPage it)
          else ret it) (\<lambda>it'.
     bnd (lift (getBytes (itPage it') (currPos it'))) (\<lambda>logRec.
     ret (logRec, it'\<lparr>currPos := currPos it' + 4 + int (length logRec)\<rparr>))))"

definition lm_iterator :: "('a lm_scheme, log_iter) cmd" where
  "lm_iterator = seq lm_flush_page (bnd (gets currBlk) li_init)"

text \<open>
  The loop \<open>while (it.hasNext()) it.next()\<close>, with fuel; \<open>log_iterator_returns_all\<close> says how
  much is enough.
\<close>

fun li_drain :: "nat \<Rightarrow> log_iter \<Rightarrow> ('a fm_scheme, bytes list) cmd" where
  "li_drain 0 it = raise OutOfFuel"
| "li_drain (Suc fuel) it =
     bnd (gets (li_hasNext it)) (\<lambda>more.
     if more then bnd (li_next it) (\<lambda>(r, it'). bnd (li_drain fuel it') (\<lambda>rs. ret (r # rs)))
     else ret [])"

section \<open>The records a block holds\<close>

definition page_body :: "bytes list \<Rightarrow> bytes" where
  "page_body rs = concat (map str_bytes (rev rs))"

definition holds :: "int \<Rightarrow> bytes \<Rightarrow> bytes list \<Rightarrow> bool" where
  "holds bs p rs \<longleftrightarrow>
     int (length p) = bs \<and> bs < 2 ^ 31 \<and> int (length (page_body rs)) + 4 \<le> bs \<and>
     getInt p 0 = Inr (bs - int (length (page_body rs))) \<and>
     drop (nat (bs - int (length (page_body rs)))) p = page_body rs"

lemma page_body_simps [simp]:
  "page_body [] = []"
  "page_body (rs @ [r]) = str_bytes r @ page_body rs"
  by (simp_all add: page_body_def)

lemma holds_empty:
  assumes "int (length p) = bs" "4 \<le> bs" "bs < 2 ^ 31"
  shows "setInt p 0 bs = Inr (overwrite 0 (int_bytes bs) p)"
    and "holds bs (overwrite 0 (int_bytes bs) p) []"
proof -
  show "setInt p 0 bs = Inr (overwrite 0 (int_bytes bs) p)"
    using int_field.put_eq [of 0 bs p] assms by simp
  show "holds bs (overwrite 0 (int_bytes bs) p) []"
    using int_field.get_overwrite [of bs 0 p] assms by (simp add: holds_def int32_def)
qed

lemma holds_append:
  assumes h: "holds bs p rs"
    and fits: "int (length (page_body rs)) + int (length r) + 8 \<le> bs"
    and pos: "pos = bs - int (length (page_body rs)) - int (length r) - 4"
  shows "setBytes p pos r = Inr (overwrite (nat pos) (str_bytes r) p)"
    and "setInt (overwrite (nat pos) (str_bytes r) p) 0 pos =
         Inr (overwrite 0 (int_bytes pos) (overwrite (nat pos) (str_bytes r) p))"
    and "holds bs (overwrite 0 (int_bytes pos) (overwrite (nat pos) (str_bytes r) p)) (rs @ [r])"
proof -
  have bnds: "4 \<le> pos" "pos + int (length (str_bytes r)) \<le> int (length p)" "int (length p) < 2 ^ 31"
    using h fits pos by (auto simp: holds_def)
  show "setBytes p pos r = Inr (overwrite (nat pos) (str_bytes r) p)"
    using bnds by (intro setBytes_eq) auto
  let ?q = "overwrite (nat pos) (str_bytes r) p"
  have lq: "length ?q = length p"
    using bnds by (intro length_overwrite) auto
  show "setInt ?q 0 pos = Inr (overwrite 0 (int_bytes pos) ?q)"
    using int_field.put_eq [of 0 pos ?q] bnds lq by simp
  have body: "drop (nat pos) (overwrite 0 (int_bytes pos) ?q) = page_body (rs @ [r])"
  proof -
    have "drop (nat pos) (overwrite 0 (int_bytes pos) ?q) = drop (nat pos) ?q"
      using bnds lq by (intro drop_overwrite_before) auto
    also have "\<dots> = str_bytes r @ drop (nat pos + length (str_bytes r)) p"
      using bnds by (intro drop_overwrite_at) auto
    also have "nat pos + length (str_bytes r) = nat (bs - int (length (page_body rs)))"
      using bnds pos by auto
    finally show ?thesis
      using h by (simp add: holds_def)
  qed
  have "getInt (overwrite 0 (int_bytes pos) ?q) 0 = Inr pos"
    using int_field.get_overwrite [of pos 0 ?q] bnds lq by (simp add: int32_def)
  with body bnds pos h fits lq show "holds bs (overwrite 0 (int_bytes pos) ?q) (rs @ [r])"
    by (auto simp: holds_def algebra_simps)
qed

section \<open>The log as a list of records\<close>

lemma lm_field_simps [simp]:
  "logFileName (store_block b p s) = logFileName s"
  "logPage (store_block b p s) = logPage s"
  "currBlk (store_block b p s) = currBlk s"
  "latestLsn (store_block b p s) = latestLsn s"
  "lastSaveLsn (store_block b p s) = lastSaveLsn s"
  "lm.more (store_block b p s) = lm.more s"
  by (simp_all add: store_block_def stream_write_def fm_getFile_def split: option.splits)

lemma lm_field_simps2 [simp]:
  "logFileName (fm_getFile n s) = logFileName s"
  "logPage (fm_getFile n s) = logPage s"
  "currBlk (fm_getFile n s) = currBlk s"
  "latestLsn (fm_getFile n s) = latestLsn s"
  "lastSaveLsn (fm_getFile n s) = lastSaveLsn s"
  "lm.more (fm_getFile n s) = lm.more s"
  by (simp_all add: fm_getFile_def split: option.splits)

lemma lm_upd_file_bytes [simp]:
  "file_bytes n (s\<lparr>logPage := p\<rparr>) = file_bytes n s"
  "file_bytes n (s\<lparr>currBlk := b\<rparr>) = file_bytes n s"
  "file_bytes n (s\<lparr>latestLsn := x\<rparr>) = file_bytes n s"
  "file_bytes n (s\<lparr>lastSaveLsn := x\<rparr>) = file_bytes n s"
  by (simp_all add: file_bytes_def)

lemma lm_upd_disk_block [simp]:
  "disk_block (s\<lparr>logPage := p\<rparr>) b = disk_block s b"
  "disk_block (s\<lparr>currBlk := c\<rparr>) b = disk_block s b"
  "disk_block (s\<lparr>latestLsn := x\<rparr>) b = disk_block s b"
  "disk_block (s\<lparr>lastSaveLsn := x\<rparr>) b = disk_block s b"
  by (simp_all add: disk_block_def)

lemma lm_upd_fm_inv [simp]:
  "fm_inv (s\<lparr>logPage := p\<rparr>) = fm_inv s"
  "fm_inv (s\<lparr>currBlk := c\<rparr>) = fm_inv s"
  "fm_inv (s\<lparr>latestLsn := x\<rparr>) = fm_inv s"
  "fm_inv (s\<lparr>lastSaveLsn := x\<rparr>) = fm_inv s"
  by (simp_all add: fm_inv_def)

lemma lm_upd_fm_length [simp]:
  "fm_length n (s\<lparr>logPage := p\<rparr>) = fm_length n s"
  "fm_length n (s\<lparr>currBlk := c\<rparr>) = fm_length n s"
  "fm_length n (s\<lparr>latestLsn := x\<rparr>) = fm_length n s"
  "fm_length n (s\<lparr>lastSaveLsn := x\<rparr>) = fm_length n s"
  by (simp_all add: fm_length_eq)

text \<open>
  The blocks of the log file hold the record lists \<open>bss\<close>, all but the last block complete and
  none of them empty; the page in memory holds \<open>cur\<close>, of which the first \<open>d\<close> records are in
  the last block of the file too.
\<close>

definition log_rep :: "'a lm_scheme \<Rightarrow> bytes list list \<Rightarrow> bytes list \<Rightarrow> nat \<Rightarrow> bool" where
  "log_rep s bss cur d \<longleftrightarrow>
     fm_inv s \<and> currBlk s = BlockId (logFileName s) (int (length bss)) \<and>
     fm_length (logFileName s) s = int (length bss) + 1 \<and>
     (\<forall>i < length bss. bss ! i \<noteq> [] \<and>
        holds (blocksize s) (disk_block s (BlockId (logFileName s) (int i))) (bss ! i)) \<and>
     holds (blocksize s) (logPage s) cur \<and> d \<le> length cur \<and>
     holds (blocksize s) (disk_block s (currBlk s)) (take d cur)"

definition log_frame :: "'a lm_scheme \<Rightarrow> 'a lm_scheme \<Rightarrow> bool" where
  "log_frame s s' \<longleftrightarrow> blocksize s' = blocksize s \<and> logFileName s' = logFileName s \<and>
     lm.more s' = lm.more s \<and> (\<forall>n. n \<noteq> logFileName s \<longrightarrow> file_bytes n s' = file_bytes n s)"

lemma log_frame_refl [simp]: "log_frame s s"
  by (simp add: log_frame_def)

lemma log_frame_trans: "log_frame s s' \<Longrightarrow> log_frame s' s'' \<Longrightarrow> log_frame s s''"
  by (simp add: log_frame_def)

lemma log_frame_disk_block:
  "log_frame s s' \<Longrightarrow> fileName b \<noteq> logFileName s \<Longrightarrow> disk_block s' b = disk_block s b"
  by (simp add: log_frame_def disk_block_def)

lemma log_repD:
  assumes "log_rep s bss cur d"
  shows "fm_inv s" "int (length (logPage s)) = blocksize s" "0 \<le> number (currBlk s)"
    "currBlk s = BlockId (logFileName s) (int (length bss))" "blocksize s < 2 ^ 31"
    "holds (blocksize s) (logPage s) cur"
  using assms by (auto simp: log_rep_def holds_def)

lemma flush_page_rep:
  assumes "log_rep s bss cur d"
  shows "\<exists>s'. lm_flush_page s = (Inr (), s') \<and> log_rep s' bss cur (length cur) \<and> log_frame s s' \<and>
    latestLsn s' = latestLsn s \<and> lastSaveLsn s' = latestLsn s \<and> logPage s' = logPage s"
proof -
  let ?s = "(store_block (currBlk s) (logPage s) s)\<lparr>lastSaveLsn := latestLsn s\<rparr>"
  note r = log_repD [OF assms]
  have "lm_flush_page s = (Inr (), ?s)"
    using r by (simp add: lm_flush_page_def cmd_simps fm_write_store)
  moreover have "log_rep ?s bss cur (length cur)"
    using assms r by (auto simp: log_rep_def disk_block_store fm_length_store)
  moreover have "log_frame s ?s"
    using r by (auto simp: log_frame_def)
  ultimately show ?thesis by auto
qed

lemma append_block_rep:
  assumes "log_rep s bss cur (length cur)" "cur \<noteq> []" "4 \<le> blocksize s"
  shows "\<exists>s'. lm_appendNewBlock s = (Inr (BlockId (logFileName s) (int (length bss) + 1)), s') \<and>
    log_rep (s'\<lparr>currBlk := BlockId (logFileName s) (int (length bss) + 1)\<rparr>) (bss @ [cur]) [] 0 \<and> log_frame s s' \<and>
    latestLsn s' = latestLsn s \<and> lastSaveLsn s' = lastSaveLsn s \<and>
    getInt (logPage s') 0 = Inr (blocksize s)"
proof -
  let ?b = "BlockId (logFileName s) (int (length bss) + 1)"
  let ?p = "overwrite 0 (int_bytes (blocksize s)) (logPage s)"
  let ?s1 = "store_block ?b (page_new (blocksize s)) s"
  let ?s = "store_block ?b ?p (?s1\<lparr>logPage := ?p\<rparr>)"
  note r = log_repD [OF assms(1)]
  have len: "fm_length (logFileName s) s = int (length bss) + 1" and pos: "0 < blocksize s"
    using assms(1) by (auto simp: log_rep_def fm_inv_def)
  have lp: "int (length ?p) = blocksize s"
    using r(2) assms(3) by simp
  have h0: "setInt (logPage s) 0 (blocksize s) = Inr ?p" "holds (blocksize s) ?p []"
    using holds_empty [of "logPage s" "blocksize s"] r assms(3) by auto
  have i1: "fm_inv ?s1"
    using r(1) pos by simp
  have eq: "lm_appendNewBlock s = (Inr ?b, ?s)"
    using r lp i1 len h0(1)
    by (simp add: lm_appendNewBlock_def cmd_simps fm_append_store fm_write_store)
  have db: "disk_block ?s b = (if b = ?b then ?p else disk_block s b)" if "0 \<le> number b" for b
    using that r(1) pos lp i1 by (simp add: disk_block_store)
  have rep: "log_rep (?s\<lparr>currBlk := ?b\<rparr>) (bss @ [cur]) [] 0"
    using assms(1,2) r lp i1 h0(2) len pos
    by (auto simp: log_rep_def db fm_length_store nth_append less_Suc_eq)
  have "getInt ?p 0 = Inr (blocksize s)"
    using h0(2) by (simp add: holds_def)
  moreover have "log_frame s ?s"
    by (auto simp: log_frame_def)
  ultimately show ?thesis
    using eq rep by auto
qed

lemma make_room_rep:
  assumes rep: "log_rep s bss cur d" and fits: "int (length r) + 8 \<le> blocksize s"
  shows "\<exists>bss' cur' d' s'. lm_make_room (blocksize s - int (length (page_body cur))) (int (length r) + 4) s =
      (Inr (blocksize s - int (length (page_body cur'))), s') \<and>
    log_rep s' bss' cur' d' \<and> concat bss' @ cur' = concat bss @ cur \<and>
    prefix (concat bss @ take d cur) (concat bss' @ take d' cur') \<and>
    log_frame s s' \<and> latestLsn s' = latestLsn s \<and>
    (lastSaveLsn s' = lastSaveLsn s \<or> lastSaveLsn s' = latestLsn s \<and> concat bss' @ take d' cur' = concat bss @ cur) \<and>
    int (length (page_body cur')) + int (length r) + 8 \<le> blocksize s"
proof (cases "int (length (page_body cur)) + int (length r) + 8 \<le> blocksize s")
  case True
  then have "lm_make_room (blocksize s - int (length (page_body cur))) (int (length r) + 4) s =
      (Inr (blocksize s - int (length (page_body cur))), s)"
    by (simp add: lm_make_room_def cmd_simps)
  with True rep show ?thesis
    by (intro exI [of _ bss] exI [of _ cur] exI [of _ d] exI [of _ s]) simp
next
  case False
  then have ne: "cur \<noteq> []"
    using fits by auto
  from flush_page_rep [OF rep] obtain s1 where s1: "lm_flush_page s = (Inr (), s1)"
    "log_rep s1 bss cur (length cur)" "log_frame s s1" "latestLsn s1 = latestLsn s" "lastSaveLsn s1 = latestLsn s"
    by auto
  have b1: "blocksize s1 = blocksize s" "logFileName s1 = logFileName s"
    using s1(3) by (auto simp: log_frame_def)
  from append_block_rep [OF s1(2) ne] fits b1 obtain s2 where
    s2: "lm_appendNewBlock s1 = (Inr (BlockId (logFileName s1) (int (length bss) + 1)), s2)"
    "log_rep (s2\<lparr>currBlk := BlockId (logFileName s1) (int (length bss) + 1)\<rparr>) (bss @ [cur]) [] 0"
    "log_frame s1 s2" "latestLsn s2 = latestLsn s1" "lastSaveLsn s2 = lastSaveLsn s1"
    "getInt (logPage s2) 0 = Inr (blocksize s1)"
    by auto
  let ?s = "s2\<lparr>currBlk := BlockId (logFileName s1) (int (length bss) + 1)\<rparr>"
  have "log_frame s1 ?s"
    using s2(3) by (simp add: log_frame_def)
  then have fr: "log_frame s ?s"
    using s1(3) log_frame_trans by blast
  have "lm_make_room (blocksize s - int (length (page_body cur))) (int (length r) + 4) s = (Inr (blocksize s), ?s)"
    using False s1(1) s2(1,6) b1 by (simp add: lm_make_room_def cmd_simps)
  with s2 s1 fr fits show ?thesis
    by (intro exI [of _ "bss @ [cur]"] exI [of _ "[]"] exI [of _ 0] exI [of _ ?s])
      (auto intro: prefixI take_is_prefix)
qed

lemma append_rep:
  assumes rep: "log_rep s bss cur d" and fits: "int (length r) + 8 \<le> blocksize s"
  shows "\<exists>bss' cur' d' s'. lm_append r s = (Inr (latestLsn s + 1), s') \<and>
    log_rep s' bss' cur' d' \<and> concat bss' @ cur' = (concat bss @ cur) @ [r] \<and>
    prefix (concat bss @ take d cur) (concat bss' @ take d' cur') \<and>
    log_frame s s' \<and> latestLsn s' = latestLsn s + 1 \<and>
    (lastSaveLsn s' = lastSaveLsn s \<or>
     lastSaveLsn s' = latestLsn s \<and> concat bss' @ take d' cur' = concat bss @ cur)"
proof -
  from make_room_rep [OF assms] obtain bss1 cur1 d1 s1 where
    m: "lm_make_room (blocksize s - int (length (page_body cur))) (int (length r) + 4) s =
      (Inr (blocksize s - int (length (page_body cur1))), s1)"
    and r1: "log_rep s1 bss1 cur1 d1" and same: "concat bss1 @ cur1 = concat bss @ cur"
    and pre: "prefix (concat bss @ take d cur) (concat bss1 @ take d1 cur1)"
    and fr: "log_frame s s1" and ll: "latestLsn s1 = latestLsn s"
    and ls: "lastSaveLsn s1 = lastSaveLsn s \<or> lastSaveLsn s1 = latestLsn s \<and> concat bss1 @ take d1 cur1 = concat bss @ cur"
    and fit1: "int (length (page_body cur1)) + int (length r) + 8 \<le> blocksize s"
    by blast
  have bs: "blocksize s1 = blocksize s"
    using fr by (simp add: log_frame_def)
  let ?pos = "blocksize s - int (length (page_body cur1)) - int (length r) - 4"
  let ?p1 = "overwrite (nat ?pos) (str_bytes r) (logPage s1)"
  let ?p2 = "overwrite 0 (int_bytes ?pos) ?p1"
  let ?s = "s1\<lparr>logPage := ?p2, latestLsn := latestLsn s1 + 1\<rparr>"
  have h: "holds (blocksize s) (logPage s1) cur1"
    using log_repD(6) [OF r1] bs by simp
  note ha = holds_append [OF h fit1 refl]
  have g0: "getInt (logPage s) 0 = Inr (blocksize s - int (length (page_body cur)))"
    using log_repD(6) [OF rep] by (simp add: holds_def)
  have pos_eq: "blocksize s - int (length (page_body cur1)) - (int (length r) + 4) = ?pos"
    by simp
  have ap: "lm_append r s = (Inr (latestLsn s + 1), ?s)"
    unfolding lm_append_def Let_def
    using g0 m ha(1,2) ll by (simp add: cmd_simps pos_eq del: diff_diff_eq)
  have d1: "d1 \<le> length cur1"
    using r1 by (simp add: log_rep_def)
  have rep': "log_rep ?s bss1 (cur1 @ [r]) d1"
    using r1 ha(3) bs d1 by (auto simp: log_rep_def)
  have fr': "log_frame s ?s"
    using fr by (simp add: log_frame_def)
  show ?thesis
    using ap rep' same pre fr' ll ls d1
    by (intro exI [of _ bss1] exI [of _ "cur1 @ [r]"] exI [of _ d1] exI [of _ ?s])
      (auto simp flip: append_assoc)
qed

text \<open>
  \<open>log_state s base rs dur\<close>: the log is the list of records \<open>rs\<close>, oldest first, of which
  \<open>base\<close> were there when the log manager was created; \<open>dur\<close> are the records a new log
  manager would find on the disk. The LSNs count the records appended since.
\<close>

definition log_state :: "'a lm_scheme \<Rightarrow> nat \<Rightarrow> bytes list \<Rightarrow> bytes list \<Rightarrow> bool" where
  "log_state s base rs dur \<longleftrightarrow>
     (\<exists>bss cur d. log_rep s bss cur d \<and> rs = concat bss @ cur \<and> dur = concat bss @ take d cur) \<and>
     int (length rs) = int base + latestLsn s \<and>
     int base + lastSaveLsn s \<le> int (length dur) \<and> lastSaveLsn s \<le> latestLsn s"

lemma log_state_append:
  assumes "log_state s base rs dur" "int (length r) + 8 \<le> blocksize s"
  shows "\<exists>s' dur'. lm_append r s = (Inr (latestLsn s + 1), s') \<and>
    log_state s' base (rs @ [r]) dur' \<and> prefix dur dur' \<and> log_frame s s' \<and> latestLsn s' = latestLsn s + 1"
proof -
  obtain bss cur d where r: "log_rep s bss cur d" "rs = concat bss @ cur" "dur = concat bss @ take d cur"
    and n: "int (length rs) = int base + latestLsn s" "int base + lastSaveLsn s \<le> int (length dur)"
      "lastSaveLsn s \<le> latestLsn s"
    using assms(1) by (auto simp: log_state_def)
  from append_rep [OF r(1) assms(2)] obtain bss' cur' d' s' where a:
    "lm_append r s = (Inr (latestLsn s + 1), s')" "log_rep s' bss' cur' d'"
    "concat bss' @ cur' = rs @ [r]" "prefix dur (concat bss' @ take d' cur')" "log_frame s s'"
    "latestLsn s' = latestLsn s + 1"
    "lastSaveLsn s' = lastSaveLsn s \<or> lastSaveLsn s' = latestLsn s \<and> concat bss' @ take d' cur' = rs"
    using r(2,3) by auto
  have "int base + lastSaveLsn s' \<le> int (length (concat bss' @ take d' cur'))"
    using a(4,7) n prefix_length_le [OF a(4)] by auto
  moreover have "int (length (rs @ [r])) = int base + latestLsn s'"
    using n a(6) by simp
  ultimately have "log_state s' base (rs @ [r]) (concat bss' @ take d' cur')"
    unfolding log_state_def using a(2,3,6,7) n(3) by (intro conjI exI [of _ bss'] exI [of _ cur'] exI [of _ d']) auto
  with a show ?thesis by blast
qed

lemma log_state_flush:
  assumes "log_state s base rs dur" "lsn \<le> latestLsn s"
  shows "\<exists>s' dur'. lm_flush lsn s = (Inr (), s') \<and> log_state s' base rs dur' \<and>
    prefix dur dur' \<and> int base + lsn \<le> int (length dur') \<and> log_frame s s' \<and> latestLsn s' = latestLsn s"
proof -
  obtain bss cur d where r: "log_rep s bss cur d" "rs = concat bss @ cur" "dur = concat bss @ take d cur"
    and n: "int (length rs) = int base + latestLsn s" "int base + lastSaveLsn s \<le> int (length dur)"
      "lastSaveLsn s \<le> latestLsn s"
    using assms(1) by (auto simp: log_state_def)
  show ?thesis
  proof (cases "lastSaveLsn s \<le> lsn")
    case False
    then have "lm_flush lsn s = (Inr (), s)"
      by (simp add: lm_flush_def cmd_simps)
    with False assms(1) n show ?thesis
      by (intro exI [of _ s] exI [of _ dur]) auto
  next
    case True
    from flush_page_rep [OF r(1)] obtain s' where s': "lm_flush_page s = (Inr (), s')"
      "log_rep s' bss cur (length cur)" "log_frame s s'" "latestLsn s' = latestLsn s" "lastSaveLsn s' = latestLsn s"
      by blast
    have "lm_flush lsn s = (Inr (), s')"
      using True s'(1) by (simp add: lm_flush_def cmd_simps)
    moreover have "log_state s' base rs rs"
      unfolding log_state_def using s' n r(2) by (intro conjI exI [of _ bss] exI [of _ cur] exI [of _ "length cur"]) auto
    moreover have "prefix dur rs"
      using r by (auto intro: take_is_prefix)
    ultimately show ?thesis
      using s' n assms(2) by (intro exI [of _ s'] exI [of _ rs]) auto
  qed
qed

section \<open>The records the iterator returns\<close>

text \<open>
  \<open>it_rep f s it rem\<close>: the iterator over the log file \<open>f\<close> has still to return the records
  \<open>rem\<close>, the last of them first.
\<close>

definition it_rep :: "string \<Rightarrow> 'a fm_scheme \<Rightarrow> log_iter \<Rightarrow> bytes list \<Rightarrow> bool" where
  "it_rep f s it rem \<longleftrightarrow>
     fm_inv s \<and> blocksize s < 2 ^ 31 \<and> 0 < fm_length f s \<and>
     (\<exists>bss ks. rem = concat bss @ ks \<and> itBlk it = BlockId f (int (length bss)) \<and>
        (\<forall>i < length bss. bss ! i \<noteq> [] \<and> holds (blocksize s) (disk_block s (BlockId f (int i))) (bss ! i)) \<and>
        int (length (itPage it)) = blocksize s \<and> 4 \<le> currPos it \<and>
        currPos it = blocksize s - int (length (page_body ks)) \<and>
        drop (nat (currPos it)) (itPage it) = page_body ks)"

lemma fm_getFile_id: "0 < fm_length f s \<Longrightarrow> fm_getFile f s = s"
  by (auto simp: fm_length_def fm_getFile_def split: option.splits)

lemma it_rep_cong:
  assumes "it_rep f s it rem" "fm_inv s'" "blocksize s' = blocksize s" "fm_length f s' = fm_length f s"
    and "\<And>i. 0 \<le> i \<Longrightarrow> disk_block s' (BlockId f i) = disk_block s (BlockId f i)"
  shows "it_rep f s' it rem"
  using assms unfolding it_rep_def by auto

lemma moveToBlock_rep:
  assumes "fm_inv s" "blocksize s < 2 ^ 31" "0 < fm_length f s"
    and "\<forall>i < length bss. bss ! i \<noteq> [] \<and> holds (blocksize s) (disk_block s (BlockId f (int i))) (bss ! i)"
    and h: "holds (blocksize s) (disk_block s (BlockId f (int (length bss)))) ks"
    and "int (length p) = blocksize s"
  shows "\<exists>it. li_moveToBlock (BlockId f (int (length bss))) p s = (Inr it, s) \<and> it_rep f s it (concat bss @ ks)"
proof -
  let ?b = "BlockId f (int (length bss))"
  let ?it = "\<lparr>itPage = disk_block s ?b, itBlk = ?b, currPos = blocksize s - int (length (page_body ks))\<rparr>"
  have "fm_read ?b p s = (Inr (disk_block s ?b), s)"
    using fm_read_eq [of s p ?b] assms fm_getFile_id [of f s] by auto
  then have "li_moveToBlock ?b p s = (Inr ?it, s)"
    using h by (simp add: li_moveToBlock_def cmd_simps holds_def)
  moreover have "it_rep f s ?it (concat bss @ ks)"
    unfolding it_rep_def using assms
    by (intro conjI exI [of _ bss] exI [of _ ks]) (auto simp: holds_def)
  ultimately show ?thesis by blast
qed

lemma it_rep_hasNext:
  assumes "it_rep f s it rem"
  shows "li_hasNext it s \<longleftrightarrow> rem \<noteq> []"
proof -
  obtain bss ks where b: "rem = concat bss @ ks" "itBlk it = BlockId f (int (length bss))"
    "\<forall>i < length bss. bss ! i \<noteq> []" "currPos it = blocksize s - int (length (page_body ks))"
    using assms by (auto simp: it_rep_def)
  have "page_body ks = [] \<longleftrightarrow> ks = []"
    by (cases ks rule: rev_cases) (auto simp: str_bytes_def int_bytes_def)
  moreover have "concat bss = [] \<longleftrightarrow> bss = []"
    using b(3) by (cases bss) auto
  ultimately show ?thesis
    using b by (auto simp: li_hasNext_def)
qed

lemma li_next_in_page:
  assumes "fm_inv s" "blocksize s < 2 ^ 31" "0 < fm_length f s"
    and "itBlk it = BlockId f (int (length bss))"
    and "\<forall>i < length bss. bss ! i \<noteq> [] \<and> holds (blocksize s) (disk_block s (BlockId f (int i))) (bss ! i)"
    and len: "int (length (itPage it)) = blocksize s" and ge: "4 \<le> currPos it"
    and pos: "currPos it = blocksize s - int (length (page_body (ks @ [k])))"
    and body: "drop (nat (currPos it)) (itPage it) = page_body (ks @ [k])"
  shows "getBytes (itPage it) (currPos it) = Inr k"
    and "it_rep f s (it\<lparr>currPos := currPos it + 4 + int (length k)\<rparr>) (concat bss @ ks)"
proof -
  show "getBytes (itPage it) (currPos it) = Inr k"
    by (rule getBytes_eq) (use assms in \<open>auto simp: slice_def\<close>)
  have "drop (nat (currPos it + 4 + int (length k))) (itPage it) =
      drop (length (str_bytes k)) (drop (nat (currPos it)) (itPage it))"
    using ge by (simp add: nat_add_distrib add.commute add.left_commute)
  then have "drop (nat (currPos it + 4 + int (length k))) (itPage it) = page_body ks"
    unfolding body by simp
  then show "it_rep f s (it\<lparr>currPos := currPos it + 4 + int (length k)\<rparr>) (concat bss @ ks)"
    unfolding it_rep_def using assms
    by (intro conjI exI [of _ bss] exI [of _ ks]) auto
qed

lemma it_rep_next:
  assumes "it_rep f s it (rem @ [x])"
  shows "\<exists>it'. li_next it s = (Inr (x, it'), s) \<and> it_rep f s it' rem"
proof -
  obtain bss ks where b: "rem @ [x] = concat bss @ ks" "itBlk it = BlockId f (int (length bss))"
    "\<forall>i < length bss. bss ! i \<noteq> [] \<and> holds (blocksize s) (disk_block s (BlockId f (int i))) (bss ! i)"
    "int (length (itPage it)) = blocksize s" "4 \<le> currPos it"
    "currPos it = blocksize s - int (length (page_body ks))"
    "drop (nat (currPos it)) (itPage it) = page_body ks"
    and f: "fm_inv s" "blocksize s < 2 ^ 31" "0 < fm_length f s"
    using assms by (auto simp: it_rep_def)
  show ?thesis
  proof (cases ks rule: rev_cases)
    case (snoc ks' k)
    then have k: "k = x" "rem = concat bss @ ks'"
      using b(1) by (simp_all flip: append_assoc)
    have ne: "currPos it \<noteq> blocksize s"
      using b(6) snoc by simp
    note st = li_next_in_page [OF f b(2,3,4,5) b(6,7) [unfolded snoc]]
    then show ?thesis
      using ne k by (simp add: li_next_def cmd_simps)
  next
    case Nil
    with b(1) obtain bss' l where l: "bss = bss' @ [l]"
      by (cases bss rule: rev_cases) auto
    with b(3) have "l \<noteq> []" and hl: "holds (blocksize s) (disk_block s (BlockId f (int (length bss')))) l"
      by (auto simp: nth_append dest!: spec [of _ "length bss'"])
    then obtain l' where l': "l = l' @ [x]" "rem = concat bss' @ l'"
      using b(1) Nil l by (cases l rule: rev_cases) (auto simp flip: append_assoc)
    have bss': "\<forall>i < length bss'. bss' ! i \<noteq> [] \<and> holds (blocksize s) (disk_block s (BlockId f (int i))) (bss' ! i)"
      using b(3) l by (auto simp: nth_append split: if_splits)
    let ?it = "\<lparr>itPage = disk_block s (BlockId f (int (length bss'))), itBlk = BlockId f (int (length bss')),
        currPos = blocksize s - int (length (page_body l))\<rparr>"
    have "fm_read (BlockId f (int (length bss'))) (itPage it) s = (Inr (disk_block s (BlockId f (int (length bss')))), s)"
      using fm_read_eq [of s "itPage it" "BlockId f (int (length bss'))"] f b(4) fm_getFile_id [of f s] by auto
    then have mv: "li_moveToBlock (BlockId f (int (length bss'))) (itPage it) s = (Inr ?it, s)"
      using hl by (simp add: li_moveToBlock_def cmd_simps holds_def)
    have at_end: "currPos it = blocksize s"
      using b(6) Nil by simp
    have prev: "BlockId (fileName (itBlk it)) (number (itBlk it) - 1) = BlockId f (int (length bss'))"
      using b(2) l by simp
    have "itBlk ?it = BlockId f (int (length bss'))"
      "int (length (itPage ?it)) = blocksize s" "4 \<le> currPos ?it"
      "currPos ?it = blocksize s - int (length (page_body (l' @ [x])))"
      "drop (nat (currPos ?it)) (itPage ?it) = page_body (l' @ [x])"
      using hl l' by (auto simp: holds_def)
    note st = li_next_in_page [OF f this(1) bss' this(2-5)]
    then show ?thesis
      using at_end mv l' unfolding li_next_def prev by (simp add: cmd_simps)
  qed
qed

lemma li_drain_rep:
  "it_rep f s it rem \<Longrightarrow> length rem < fuel \<Longrightarrow> li_drain fuel it s = (Inr (rev rem), s)"
proof (induction fuel arbitrary: it rem)
  case (Suc fuel)
  have more: "li_hasNext it s \<longleftrightarrow> rem \<noteq> []"
    using Suc.prems(1) by (rule it_rep_hasNext)
  show ?case
  proof (cases rem rule: rev_cases)
    case Nil
    with more show ?thesis by (simp add: cmd_simps)
  next
    case (snoc rem' x)
    then obtain it' where it': "li_next it s = (Inr (x, it'), s)" "it_rep f s it' rem'"
      using it_rep_next Suc.prems(1) by blast
    have "li_drain fuel it' s = (Inr (rev rem'), s)"
      using Suc.IH [OF it'(2)] Suc.prems(2) snoc by simp
    with it'(1) more snoc show ?thesis by (simp add: cmd_simps)
  qed
qed simp

lemma iterator_rep:
  assumes "log_state s base rs dur"
  shows "\<exists>it s'. lm_iterator s = (Inr it, s') \<and> it_rep (logFileName s) s' it rs \<and>
    log_state s' base rs rs \<and> log_frame s s' \<and> latestLsn s' = latestLsn s"
proof -
  obtain bss cur d where r: "log_rep s bss cur d" "rs = concat bss @ cur"
    and n: "int (length rs) = int base + latestLsn s"
    using assms by (auto simp: log_state_def)
  from flush_page_rep [OF r(1)] obtain s' where s': "lm_flush_page s = (Inr (), s')"
    "log_rep s' bss cur (length cur)" "log_frame s s'" "latestLsn s' = latestLsn s" "lastSaveLsn s' = latestLsn s"
    by blast
  have nm: "logFileName s' = logFileName s" and bs: "blocksize s' = blocksize s"
    using s'(3) by (auto simp: log_frame_def)
  have i: "fm_inv s'" "blocksize s' < 2 ^ 31" "0 < fm_length (logFileName s) s'"
    "currBlk s' = BlockId (logFileName s) (int (length bss))"
    "\<forall>i < length bss. bss ! i \<noteq> [] \<and> holds (blocksize s') (disk_block s' (BlockId (logFileName s) (int i))) (bss ! i)"
    "holds (blocksize s') (disk_block s' (BlockId (logFileName s) (int (length bss)))) cur"
    using s'(2) nm by (auto simp: log_rep_def holds_def)
  have "int (length (page_new (blocksize s'))) = blocksize s'"
    using i(1) by (simp add: fm_inv_def)
  from moveToBlock_rep [OF i(1,2,3,5,6) this] obtain it where
    it: "li_moveToBlock (BlockId (logFileName s) (int (length bss))) (page_new (blocksize s')) s' = (Inr it, s')"
      "it_rep (logFileName s) s' it rs"
    using r(2) by auto
  have "lm_iterator s = (Inr it, s')"
    using s'(1) it(1) i(4) by (simp add: lm_iterator_def li_init_def cmd_simps)
  moreover have "log_state s' base rs rs"
    unfolding log_state_def using s' n r(2)
    by (intro conjI exI [of _ bss] exI [of _ cur] exI [of _ "length cur"]) auto
  ultimately show ?thesis
    using it(2) s'(3,4) by blast
qed

text \<open>
  Until the next append, a flush of the log rewrites its last block at most, so iterators
  stay right.
\<close>

definition log_still :: "'a lm_scheme \<Rightarrow> 'a lm_scheme \<Rightarrow> bool" where
  "log_still s s' \<longleftrightarrow> currBlk s' = currBlk s \<and> logFileName s' = logFileName s \<and>
     fm_length (logFileName s) s' = fm_length (logFileName s) s \<and>
     (\<forall>i. 0 \<le> i \<longrightarrow> i < number (currBlk s) \<longrightarrow>
        disk_block s' (BlockId (logFileName s) i) = disk_block s (BlockId (logFileName s) i))"

lemma log_still_refl [simp]: "log_still s s"
  by (simp add: log_still_def)

lemma log_still_trans: "log_still s s' \<Longrightarrow> log_still s' s'' \<Longrightarrow> log_still s s''"
  by (simp add: log_still_def)

lemma lm_flush_still:
  assumes "log_state s base rs dur" "lm_flush l s = (Inr (), s')"
  shows "log_still s s'"
proof -
  obtain bss cur d where r: "log_rep s bss cur d"
    using assms(1) by (auto simp: log_state_def)
  note r' = log_repD [OF r]
  let ?s = "(store_block (currBlk s) (logPage s) s)\<lparr>lastSaveLsn := latestLsn s\<rparr>"
  have "lm_flush_page s = (Inr (), ?s)"
    using r' by (simp add: lm_flush_page_def cmd_simps fm_write_store)
  then have "s' = s \<or> s' = ?s"
    using assms(2) by (auto simp: lm_flush_def cmd_simps split: if_splits)
  moreover have "log_still s ?s"
    using r' r by (auto simp: log_still_def disk_block_store fm_length_store log_rep_def)
  ultimately show ?thesis by auto
qed

definition it_at :: "'a lm_scheme \<Rightarrow> log_iter \<Rightarrow> bytes list \<Rightarrow> bool" where
  "it_at s it rem \<longleftrightarrow> it_rep (logFileName s) s it rem \<and> number (itBlk it) \<le> number (currBlk s)"

lemma it_at_still:
  assumes "it_at s it rem" "log_still s s'" "fm_inv s'" "blocksize s' = blocksize s"
  shows "it_at s' it rem"
proof -
  have n: "logFileName s' = logFileName s" "currBlk s' = currBlk s" and le: "number (itBlk it) \<le> number (currBlk s)"
    and l: "fm_length (logFileName s) s' = fm_length (logFileName s) s"
    using assms(1,2) by (auto simp: log_still_def it_at_def)
  obtain bss ks where r: "blocksize s < 2 ^ 31" "0 < fm_length (logFileName s) s" "rem = concat bss @ ks"
      "itBlk it = BlockId (logFileName s) (int (length bss))"
      "\<forall>i < length bss. bss ! i \<noteq> [] \<and> holds (blocksize s) (disk_block s (BlockId (logFileName s) (int i))) (bss ! i)"
      "int (length (itPage it)) = blocksize s \<and> 4 \<le> currPos it \<and> currPos it = blocksize s - int (length (page_body ks)) \<and>
        drop (nat (currPos it)) (itPage it) = page_body ks"
    using assms(1) unfolding it_at_def it_rep_def by blast
  have "disk_block s' (BlockId (logFileName s) (int i)) = disk_block s (BlockId (logFileName s) (int i))" if "i < length bss" for i
    using assms(2) that le r(4) by (simp add: log_still_def)
  with r assms(3,4) l have "it_rep (logFileName s) s' it rem"
    unfolding it_rep_def by (intro conjI exI [of _ bss] exI [of _ ks]) auto
  with n le show ?thesis by (simp add: it_at_def)
qed

lemma bnd_InrE: "bnd m f s = (Inr y, s'') \<Longrightarrow> (\<And>x s'. m s = (Inr x, s') \<Longrightarrow> f x s' = (Inr y, s'') \<Longrightarrow> P) \<Longrightarrow> P"
  by (auto simp: bnd_def split: prod.splits sum.splits)

lemma li_moveToBlock_blk: "li_moveToBlock b p s = (Inr it, s') \<Longrightarrow> itBlk it = b"
  unfolding li_moveToBlock_def by (elim bnd_InrE) (auto simp: ret_def)

lemma li_next_blk: "li_next it s = (Inr (x, it'), s') \<Longrightarrow> number (itBlk it') \<le> number (itBlk it)"
  unfolding li_next_def by (elim bnd_InrE) (auto simp: ret_def dest: li_moveToBlock_blk split: if_splits)

lemma it_at_next:
  assumes "it_at s it (rem @ [x])"
  shows "\<exists>it'. li_next it s = (Inr (x, it'), s) \<and> it_at s it' rem"
proof -
  from assms it_rep_next obtain it' where it': "li_next it s = (Inr (x, it'), s)" "it_rep (logFileName s) s it' rem"
    unfolding it_at_def by blast
  from li_next_blk [OF it'(1)] it' assms show ?thesis
    by (auto simp: it_at_def)
qed

lemma it_at_hasNext: "it_at s it rem \<Longrightarrow> li_hasNext it s \<longleftrightarrow> rem \<noteq> []"
  unfolding it_at_def using it_rep_hasNext by blast

lemma iterator_at:
  assumes "log_state s base rs dur"
  shows "\<exists>it s'. lm_iterator s = (Inr it, s') \<and> it_at s' it rs \<and> log_state s' base rs rs \<and>
    log_frame s s' \<and> latestLsn s' = latestLsn s"
proof -
  obtain it s' where it: "lm_iterator s = (Inr it, s')" "it_rep (logFileName s) s' it rs" "log_state s' base rs rs"
      "log_frame s s'" "latestLsn s' = latestLsn s"
    using iterator_rep [OF assms] by blast
  have "itBlk it = currBlk s'"
  proof -
    have "itBlk it = currBlk s''" if "bnd (gets currBlk) li_init s'' = (Inr it, s')" for s'' :: "'a lm_scheme"
      using that unfolding li_init_def by (elim bnd_InrE) (auto simp: gets_def dest: li_moveToBlock_blk)
    moreover obtain s'' where s'': "lm_flush_page s = (Inr (), s'')" "bnd (gets currBlk) li_init s'' = (Inr it, s')"
      using bnd_InrE [OF it(1) [unfolded lm_iterator_def seq_def]] by auto
    moreover have "s' = s''"
    proof -
      obtain bss cur d where "log_rep s bss cur d"
        using assms by (auto simp: log_state_def)
      from flush_page_rep [OF this] s''(1) have r: "log_rep s'' bss cur (length cur)" by auto
      then have "fm_inv s''" "currBlk s'' = BlockId (logFileName s'') (int (length bss))" "0 < fm_length (logFileName s'') s''"
        by (simp_all add: log_rep_def)
      then have "fm_read (currBlk s'') (page_new (blocksize s'')) s'' = (Inr (disk_block s'' (currBlk s'')), s'')"
        by (subst fm_read_eq) (simp_all add: fm_getFile_id)
      with s''(2) show ?thesis
        by (auto simp: li_init_def li_moveToBlock_def bnd_def gets_def lift_def ret_def split: sum.splits)
    qed
    ultimately show ?thesis by simp
  qed
  moreover have "logFileName s' = logFileName s"
    using it(4) by (simp add: log_frame_def)
  ultimately show ?thesis
    using it by (auto simp: it_at_def)
qed

section \<open>Opening a log\<close>

definition lm_of :: "string \<Rightarrow> bytes \<Rightarrow> block_id \<Rightarrow> fm \<Rightarrow> lm" where
  "lm_of n p b s = \<lparr>blocksize = blocksize s, isNew = isNew s, files = files s, failed = failed s,
     logFileName = n, logPage = p, currBlk = b, latestLsn = 0, lastSaveLsn = 0\<rparr>"

lemma lm_of_simps [simp]:
  "blocksize (lm_of n p b s) = blocksize s" "files (lm_of n p b s) = files s"
  "failed (lm_of n p b s) = failed s" "isNew (lm_of n p b s) = isNew s"
  "logFileName (lm_of n p b s) = n" "logPage (lm_of n p b s) = p" "currBlk (lm_of n p b s) = b"
  "latestLsn (lm_of n p b s) = 0" "lastSaveLsn (lm_of n p b s) = 0"
  "file_bytes m (lm_of n p b s) = file_bytes m s" "disk_block (lm_of n p b s) c = disk_block s c"
  "fm_inv (lm_of n p b s) = fm_inv s" "fm_length m (lm_of n p b s) = fm_length m s"
  by (simp_all add: lm_of_def file_bytes_def disk_block_def fm_inv_def fm_length_def split: option.split)

lemma lm_init_eq:
  "lm_init n s =
     (let s0 = lm_of n (page_new (blocksize s)) (BlockId n 0) s
      in if fm_length n s = 0
         then bnd lm_appendNewBlock (\<lambda>blk. upd (\<lambda>s. s\<lparr>currBlk := blk\<rparr>)) s0
         else seq (upd (\<lambda>t. t\<lparr>currBlk := BlockId n (fm_length n s - 1)\<rparr>))
                (bnd (gets (\<lambda>s. (currBlk s, logPage s))) (\<lambda>(blk, p).
                 bnd (fm_read blk p) (\<lambda>p'. upd (\<lambda>s. s\<lparr>logPage := p'\<rparr>)))) s0)"
  by (simp add: lm_init_def lm_of_def fm.extend_def lm.fields_def Let_def)

lemma lm_init_fresh:
  assumes "fm_inv s" "4 \<le> blocksize s" "blocksize s < 2 ^ 31" "fm_length n s = 0"
  shows "\<exists>s'. lm_init n s = (Inr (), s') \<and> log_state s' 0 [] [] \<and> blocksize s' = blocksize s \<and>
    logFileName s' = n \<and> latestLsn s' = 0 \<and> (\<forall>m. m \<noteq> n \<longrightarrow> file_bytes m s' = file_bytes m s)"
proof -
  let ?init = "lm_of n (page_new (blocksize s)) (BlockId n 0) s"
  let ?b = "BlockId n 0"
  let ?p = "overwrite 0 (int_bytes (blocksize s)) (page_new (blocksize s))"
  let ?s1 = "store_block ?b (page_new (blocksize s)) ?init"
  let ?s = "(store_block ?b ?p (?s1\<lparr>logPage := ?p\<rparr>))\<lparr>currBlk := ?b\<rparr>"
  have i0: "fm_inv ?init" and l0: "fm_length n ?init = 0"
    using assms by simp_all
  have pl: "int (length (page_new (blocksize s))) = blocksize s"
    using assms(2) by simp
  have h0: "setInt (page_new (blocksize s)) 0 (blocksize s) = Inr ?p" "holds (blocksize s) ?p []"
    using holds_empty [of "page_new (blocksize s)" "blocksize s"] assms(2,3) pl by auto
  have lp: "int (length ?p) = blocksize s"
    using assms(2) by simp
  have i1: "fm_inv ?s1"
    using i0 assms(2) by simp
  have eq: "lm_init n s = (Inr (), ?s)"
    using i0 i1 l0 lp h0(1) assms(4)
    by (simp add: lm_init_eq lm_appendNewBlock_def cmd_simps fm_append_store fm_write_store)
  have "log_rep ?s [] [] 0"
    using i0 i1 l0 lp h0(2) by (auto simp: log_rep_def disk_block_store fm_length_store)
  then have "log_state ?s 0 [] []"
    by (auto simp: log_state_def)
  moreover have "file_bytes m ?s = file_bytes m s" if "m \<noteq> n" for m
    using that by simp
  ultimately show ?thesis
    using eq by auto
qed

text \<open>
  A crash loses everything but the files; the next process opens the same directory. It
  finds the durable records.
\<close>

definition crash :: "'a fm_scheme \<Rightarrow> fm" where
  "crash s = fm_init (Some (files s)) (blocksize s)"

lemma crash_eqs:
  "\<not> is_temp n \<Longrightarrow> file_bytes n (crash s) = file_bytes n s"
  "blocksize (crash s) = blocksize s"
  "failed (crash s) = {}"
  by (auto simp: crash_def fm_init_def file_bytes_def)

lemma fm_inv_crash: "fm_inv s \<Longrightarrow> fm_inv (crash s)"
  by (auto simp: fm_inv_def crash_def fm_init_def file_bytes_def split: option.splits)

lemma lm_init_reopen:
  assumes "log_state s base rs dur" "\<not> is_temp (logFileName s)"
  shows "\<exists>s'. lm_init (logFileName s) (crash s) = (Inr (), s') \<and> log_state s' (length dur) dur dur \<and>
    logFileName s' = logFileName s \<and> blocksize s' = blocksize s \<and> (\<forall>m. file_bytes m s' = file_bytes m (crash s))"
proof -
  obtain bss cur d where r: "log_rep s bss cur d" "dur = concat bss @ take d cur"
    using assms(1) by (auto simp: log_state_def)
  let ?n = "logFileName s" and ?c = "crash s"
  let ?b = "BlockId ?n (int (length bss))"
  let ?init = "(lm_of ?n (page_new (blocksize ?c)) (BlockId ?n 0) ?c)\<lparr>currBlk := ?b\<rparr>"
  let ?s = "?init\<lparr>logPage := disk_block s ?b\<rparr>"
  have i0: "fm_inv ?init"
    using fm_inv_crash [of s] log_repD(1) [OF r(1)] by simp
  have len: "fm_length ?n s = int (length bss) + 1"
    using r(1) by (simp add: log_rep_def)
  then have l0: "fm_length ?n ?c = int (length bss) + 1"
    using assms(2) by (simp add: fm_length_eq crash_eqs)
  then have l1: "fm_length ?n ?init = int (length bss) + 1"
    by simp
  have db: "disk_block ?c (BlockId ?n i) = disk_block s (BlockId ?n i)" for i
    using assms(2) by (simp add: disk_block_def crash_eqs)
  have pl: "length (page_new (blocksize ?c)) = nat (blocksize ?init)"
    by simp
  have rd: "fm_read ?b (page_new (blocksize ?c)) ?init = (Inr (disk_block s ?b), ?init)"
    using fm_read_eq [OF i0 pl, of ?b] l1 fm_getFile_id [of ?n ?init] by (simp add: db)
  have eq: "lm_init ?n ?c = (Inr (), ?s)"
    using l0 rd by (simp add: lm_init_eq cmd_simps)
  have "log_rep ?s bss (take d cur) (length (take d cur))"
    using r(1) i0 l1 by (auto simp: log_rep_def db crash_eqs)
  then have "log_state ?s (length dur) dur dur"
    unfolding log_state_def using r(2)
    by (intro conjI exI [of _ bss] exI [of _ "take d cur"] exI [of _ "length (take d cur)"]) (auto simp: min_def)
  then show ?thesis
    using eq by (auto simp: crash_eqs)
qed

section \<open>The contract of a write-ahead log\<close>

text \<open>
  What the buffer manager and the recovery manager rely on: \<open>rep s base rs dur\<close> relates a
  state to the list of its records and of those that survive a crash.
\<close>

fun append_all :: "(bytes \<Rightarrow> ('s, int) cmd) \<Rightarrow> bytes list \<Rightarrow> ('s, unit) cmd" where
  "append_all ap [] = ret ()"
| "append_all ap (r # rs) = seq (ap r) (append_all ap rs)"

locale wal =
  fixes append :: "bytes \<Rightarrow> ('s, int) cmd"
    and flush :: "int \<Rightarrow> ('s, unit) cmd"
    and rep :: "'s \<Rightarrow> nat \<Rightarrow> bytes list \<Rightarrow> bytes list \<Rightarrow> bool"
    and lsn :: "'s \<Rightarrow> int"
    and room :: "'s \<Rightarrow> int"
  assumes append_rep: "rep s base rs dur \<Longrightarrow> int (length r) \<le> room s \<Longrightarrow>
      \<exists>s' dur'. append r s = (Inr (lsn s + 1), s') \<and> rep s' base (rs @ [r]) dur' \<and> prefix dur dur' \<and>
        lsn s' = lsn s + 1 \<and> room s' = room s"
    and flush_rep: "rep s base rs dur \<Longrightarrow> l \<le> lsn s \<Longrightarrow>
      \<exists>s' dur'. flush l s = (Inr (), s') \<and> rep s' base rs dur' \<and> prefix dur dur' \<and>
        int base + l \<le> int (length dur') \<and> lsn s' = lsn s \<and> room s' = room s"
    and rep_lsn: "rep s base rs dur \<Longrightarrow> int (length rs) = int base + lsn s"
    and rep_prefix: "rep s base rs dur \<Longrightarrow> prefix dur rs"
begin

lemma append_all_rep:
  assumes "rep s base rs dur" "\<forall>r \<in> set xs. int (length r) \<le> room s"
  shows "\<exists>s' dur'. append_all append xs s = (Inr (), s') \<and> rep s' base (rs @ xs) dur' \<and> prefix dur dur' \<and>
    lsn s' = lsn s + int (length xs) \<and> room s' = room s"
  using assms
proof (induction xs arbitrary: s rs dur)
  case Nil
  then show ?case by (auto simp: cmd_simps)
next
  case (Cons x xs)
  then obtain s1 dur1 where 1: "append x s = (Inr (lsn s + 1), s1)" "rep s1 base (rs @ [x]) dur1" "prefix dur dur1"
    "lsn s1 = lsn s + 1" "room s1 = room s"
    using append_rep [of s base rs dur x] by auto
  from Cons.IH [OF 1(2)] Cons.prems(2) 1(5) obtain s2 dur2 where
    2: "append_all append xs s1 = (Inr (), s2)" "rep s2 base ((rs @ [x]) @ xs) dur2" "prefix dur1 dur2"
    "lsn s2 = lsn s1 + int (length xs)" "room s2 = room s1"
    by auto
  have "append_all append (x # xs) s = (Inr (), s2)"
    using 1(1) 2(1) by (simp add: cmd_simps)
  moreover have "prefix dur dur2"
    using 1(3) 2(3) prefix_order.trans by blast
  ultimately show ?case
    using 2 1(4,5) by auto
qed

lemma flush_covers:
  assumes "rep s base rs dur" "\<forall>r \<in> set xs \<union> set ys. int (length r) \<le> room s"
  shows "\<exists>s' dur'. seq (append_all append xs) (seq (flush (lsn s + int (length xs))) (append_all append ys)) s = (Inr (), s') \<and>
    rep s' base (rs @ xs @ ys) dur' \<and> prefix (rs @ xs) dur' \<and> room s' = room s"
proof -
  from append_all_rep [OF assms(1), of xs] assms(2) obtain s1 d1 where
    1: "append_all append xs s = (Inr (), s1)" "rep s1 base (rs @ xs) d1" "lsn s1 = lsn s + int (length xs)"
      "room s1 = room s" by auto
  from flush_rep [OF 1(2), of "lsn s1"] obtain s2 d2 where
    2: "flush (lsn s1) s1 = (Inr (), s2)" "rep s2 base (rs @ xs) d2" "int base + lsn s1 \<le> int (length d2)"
      "room s2 = room s1" by auto
  have "length d2 = length (rs @ xs)"
    using rep_lsn [OF 1(2)] 2(3) prefix_length_le [OF rep_prefix [OF 2(2)]] by simp
  then have d2: "d2 = rs @ xs"
    using rep_prefix [OF 2(2)] by (metis append_eq_append_conv append_self_conv prefixE)
  from append_all_rep [OF 2(2), of ys] assms(2) 2(4) 1(4) obtain s3 d3 where
    3: "append_all append ys s2 = (Inr (), s3)" "rep s3 base ((rs @ xs) @ ys) d3" "prefix d2 d3" "room s3 = room s2"
    by auto
  show ?thesis
    using 1 2 3 d2 by (intro exI [of _ s3] exI [of _ d3]) (simp add: cmd_simps)
qed

end

lemma log_state_lsn: "log_state s base rs dur \<Longrightarrow> int (length rs) = int base + latestLsn s"
  by (simp add: log_state_def)

lemma log_state_prefix: "log_state s base rs dur \<Longrightarrow> prefix dur rs"
  by (auto simp: log_state_def take_is_prefix)

definition log_of :: "string \<Rightarrow> 'a lm_scheme \<Rightarrow> nat \<Rightarrow> bytes list \<Rightarrow> bytes list \<Rightarrow> bool" where
  "log_of n s base rs dur \<longleftrightarrow> log_state s base rs dur \<and> logFileName s = n"

interpretation log_wal: wal lm_append lm_flush "log_of n" latestLsn "\<lambda>s. blocksize s - 8"
  for n
proof
  fix s :: "'a lm_scheme" and base and rs dur and r :: bytes
  assume "log_of n s base rs dur" "int (length r) \<le> blocksize s - 8"
  then show "\<exists>s' dur'. lm_append r s = (Inr (latestLsn s + 1), s') \<and> log_of n s' base (rs @ [r]) dur' \<and> prefix dur dur' \<and>
      latestLsn s' = latestLsn s + 1 \<and> blocksize s' - 8 = blocksize s - 8"
    using log_state_append [of s base rs dur r] by (fastforce simp: log_of_def log_frame_def)
next
  fix s :: "'a lm_scheme" and base and rs dur and l :: int
  assume "log_of n s base rs dur" "l \<le> latestLsn s"
  then show "\<exists>s' dur'. lm_flush l s = (Inr (), s') \<and> log_of n s' base rs dur' \<and> prefix dur dur' \<and>
      int base + l \<le> int (length dur') \<and> latestLsn s' = latestLsn s \<and> blocksize s' - 8 = blocksize s - 8"
    using log_state_flush [of s base rs dur l] by (fastforce simp: log_of_def log_frame_def)
qed (auto simp: log_of_def log_state_lsn log_state_prefix)

lemma iterate_log:
  assumes "log_of n s base rs dur" "length rs < fuel"
  shows "fst (bnd lm_iterator (li_drain fuel) s) = Inr (rev rs)"
proof -
  obtain it s' where it: "lm_iterator s = (Inr it, s')" "it_rep (logFileName s) s' it rs"
    using assms(1) iterator_rep unfolding log_of_def by blast
  with li_drain_rep [OF it(2) assms(2)] show ?thesis by (simp add: cmd_simps)
qed

section \<open>Properties\<close>

text \<open>
  C2. On a new log file, the iterator returns the appended records, each that fits in a block,
  newest first, over as many blocks as they take.
\<close>

theorem log_iterator_returns_all:
  assumes "fm_inv s" "fm_length n s = 0" "4 \<le> blocksize s" "blocksize s < 2 ^ 31"
    and "\<forall>r \<in> set rs. int (length r) + 8 \<le> blocksize s" and "length rs < fuel"
  shows "\<exists>s1. lm_init n s = (Inr (), s1) \<and>
    fst (seq (append_all lm_append rs) (bnd lm_iterator (li_drain fuel)) s1) = Inr (rev rs)"
proof -
  obtain s1 where s1: "lm_init n s = (Inr (), s1)" "log_of n s1 0 [] []" "blocksize s1 = blocksize s"
    using lm_init_fresh [OF assms(1,3,4,2)] by (auto simp: log_of_def)
  from log_wal.append_all_rep [OF s1(2), of rs] assms(5) s1(3) obtain s2 dur where
    s2: "append_all lm_append rs s1 = (Inr (), s2)" "log_of n s2 0 rs dur"
    by (auto simp: algebra_simps)
  show ?thesis
    using s1(1) s2(1) iterate_log [OF s2(2) assms(6)] by (simp add: cmd_simps)
qed

lemma fm_inv_empty: "0 < bs \<Longrightarrow> fm_inv (fm_init None bs)" "fm_length n (fm_init None bs) = 0"
    "blocksize (fm_init None bs) = bs"
  by (simp_all add: fm_inv_def fm_init_def file_bytes_def fm_length_def)

theorem log_iterator_returns_all_witness:
  "\<exists>s1. lm_init ''log'' (fm_init None 20) = (Inr (), s1) \<and>
    fst (seq (append_all lm_append [''commit'', ''x'', ''rollback'']) (bnd lm_iterator (li_drain 5)) s1) =
      Inr [''rollback'', ''x'', ''commit'']"
  using log_iterator_returns_all [of "fm_init None 20" "''log''" "[''commit'', ''x'', ''rollback'']" 5]
  by (simp add: fm_inv_empty)

text \<open>
  C3. Durability: records appended before a flush of the last of their numbers survive a crash,
  in order, followed by a part of what was appended after the flush.
\<close>

theorem log_flushed_records_survive:
  assumes "fm_inv s" "fm_length n s = 0" "4 \<le> blocksize s" "blocksize s < 2 ^ 31" "\<not> is_temp n"
    and "\<forall>r \<in> set xs \<union> set ys. int (length r) + 8 \<le> blocksize s" and "length xs + length ys < fuel"
  shows "\<exists>s1 s2 s3 zs. lm_init n s = (Inr (), s1) \<and>
    seq (append_all lm_append xs) (seq (lm_flush (int (length xs))) (append_all lm_append ys)) s1 = (Inr (), s2) \<and>
    lm_init n (crash s2) = (Inr (), s3) \<and>
    fst (bnd lm_iterator (li_drain fuel) s3) = Inr (rev (xs @ zs)) \<and> prefix zs ys"
proof -
  obtain s1 where s1: "lm_init n s = (Inr (), s1)" "log_of n s1 0 [] []" "blocksize s1 = blocksize s" "latestLsn s1 = 0"
    using lm_init_fresh [OF assms(1,3,4,2)] by (auto simp: log_of_def)
  from log_wal.flush_covers [OF s1(2), of xs ys] assms(6) s1(3,4) obtain s2 dur where
    s2: "seq (append_all lm_append xs) (seq (lm_flush (int (length xs))) (append_all lm_append ys)) s1 = (Inr (), s2)"
      "log_of n s2 0 (xs @ ys) dur" "prefix xs dur"
    by (auto simp: algebra_simps)
  have pr: "prefix dur (xs @ ys)"
    using log_wal.rep_prefix [OF s2(2)] .
  with s2(3) obtain zs where zs: "dur = xs @ zs" "prefix zs ys"
    by (auto simp: prefix_def)
  have fuel: "length dur < fuel"
    using prefix_length_le [OF pr] assms(7) by simp
  obtain s3 where s3: "lm_init n (crash s2) = (Inr (), s3)" "log_of n s3 (length dur) dur dur"
    using lm_init_reopen [of s2 0 "xs @ ys" dur] s2(2) assms(5) unfolding log_of_def by blast
  show ?thesis
    using s1(1) s2(1) s3(1) iterate_log [OF s3(2) fuel] zs by blast
qed

theorem log_flushed_records_survive_witness:
  "\<exists>s1 s2 s3 zs. lm_init ''log'' (fm_init None 20) = (Inr (), s1) \<and>
    seq (append_all lm_append [''a'', ''b'']) (seq (lm_flush (int (length [''a'', ''b'']))) (append_all lm_append [''c''])) s1 =
      (Inr (), s2) \<and>
    lm_init ''log'' (crash s2) = (Inr (), s3) \<and>
    fst (bnd lm_iterator (li_drain 5) s3) = Inr (rev ([''a'', ''b''] @ zs)) \<and> prefix zs [''c'']"
  by (rule log_flushed_records_survive) (simp_all add: fm_inv_empty is_temp_def)


end
