(* ===== verification/BufferManager.thy ===== *)
theory BufferManager
  imports LogManager
begin

text \<open>
  \<open>src/src/buffer/Buffer.cpp\<close> and \<open>BufferMgr.cpp\<close>: a fixed pool of pages that cache disk
  blocks. A \<open>Buffer*\<close> is its index in the pool. The theory shows that the pool never holds a
  block twice, that \<open>_numAvailable\<close> counts the unpinned buffers, that what a pinned buffer
  shows is the newest contents of its block whatever the pool replaced before, and that a
  modified page reaches the disk only after the log record of its last change.
\<close>

section \<open>Buffers\<close>

record buffer =
  buf_page :: bytes
  buf_blk :: block_id
  buf_pins :: int
  buf_txnum :: int
  buf_lsn :: int

definition null_blk :: block_id where
  "null_blk = BlockId '''' (- 1)"

definition buf_new :: "int \<Rightarrow> buffer" where
  "buf_new bs = \<lparr>buf_page = page_new bs, buf_blk = null_blk, buf_pins = 0, buf_txnum = - 1, buf_lsn = - 1\<rparr>"

definition buf_setModified :: "int \<Rightarrow> int \<Rightarrow> buffer \<Rightarrow> buffer" where
  "buf_setModified txnum lsn b =
     (if lsn \<ge> 0 then b\<lparr>buf_txnum := txnum, buf_lsn := lsn\<rparr> else b\<lparr>buf_txnum := txnum\<rparr>)"

definition buf_isPinned :: "buffer \<Rightarrow> bool" where
  "buf_isPinned b \<longleftrightarrow> buf_pins b > 0"

definition buf_pin :: "buffer \<Rightarrow> buffer" where
  "buf_pin b = b\<lparr>buf_pins := buf_pins b + 1\<rparr>"

definition buf_unpin :: "buffer \<Rightarrow> buffer" where
  "buf_unpin b = b\<lparr>buf_pins := buf_pins b - 1\<rparr>"

section \<open>The pool\<close>

record bm = lm +
  pool :: "buffer list"
  numAvailable :: int

definition bm_init :: "int \<Rightarrow> lm \<Rightarrow> bm" where
  "bm_init buffSize s =
     lm.extend s (bm.fields (replicate (nat buffSize) (buf_new (blocksize s))) buffSize)"

definition upd_buf :: "nat \<Rightarrow> (buffer \<Rightarrow> buffer) \<Rightarrow> 'a bm_scheme \<Rightarrow> 'a bm_scheme" where
  "upd_buf i f s = s\<lparr>pool := (pool s)[i := f (pool s ! i)]\<rparr>"

definition buf_flush :: "nat \<Rightarrow> ('a bm_scheme, unit) cmd" where
  "buf_flush i =
     bnd (gets (\<lambda>s. pool s ! i)) (\<lambda>b.
     if buf_txnum b \<ge> 0
     then seq (lm_flush (buf_lsn b))
         (seq (fm_write (buf_blk b) (buf_page b))
              (upd (upd_buf i (\<lambda>b. b\<lparr>buf_txnum := - 1\<rparr>))))
     else ret ())"

definition buf_assignToBlock :: "nat \<Rightarrow> block_id \<Rightarrow> ('a bm_scheme, unit) cmd" where
  "buf_assignToBlock i blk =
     seq (buf_flush i)
    (seq (upd (upd_buf i (\<lambda>b. b\<lparr>buf_blk := blk\<rparr>)))
    (bnd (gets (\<lambda>s. buf_page (pool s ! i))) (\<lambda>p.
     bnd (fm_read blk p) (\<lambda>p'.
     upd (upd_buf i (\<lambda>b. b\<lparr>buf_page := p', buf_pins := 0\<rparr>))))))"

fun find_buf :: "(buffer \<Rightarrow> bool) \<Rightarrow> buffer list \<Rightarrow> nat option" where
  "find_buf P [] = None"
| "find_buf P (b # bs) = (if P b then Some 0 else map_option Suc (find_buf P bs))"

definition bm_findExistingBuffer :: "block_id \<Rightarrow> 'a bm_scheme \<Rightarrow> nat option" where
  "bm_findExistingBuffer blk s = find_buf (\<lambda>b. blk_equals (buf_blk b) blk) (pool s)"

definition bm_chooseUnpinnedBuffer :: "'a bm_scheme \<Rightarrow> nat option" where
  "bm_chooseUnpinnedBuffer s = find_buf (\<lambda>b. \<not> buf_isPinned b) (pool s)"

definition bm_available :: "'a bm_scheme \<Rightarrow> int" where
  "bm_available s = numAvailable s"

text \<open>\<open>flushAll\<close>: the loop over the pool, from buffer \<open>i\<close> on.\<close>

fun bm_flush_from :: "int \<Rightarrow> nat list \<Rightarrow> ('a bm_scheme, unit) cmd" where
  "bm_flush_from txnum [] = ret ()"
| "bm_flush_from txnum (i # is) =
     bnd (gets (\<lambda>s. pool s ! i)) (\<lambda>b.
     seq (if buf_txnum b = txnum then buf_flush i else ret ())
         (bm_flush_from txnum is))"

definition bm_flushAll :: "int \<Rightarrow> ('a bm_scheme, unit) cmd" where
  "bm_flushAll txnum = bnd (gets (\<lambda>s. [0..<length (pool s)])) (bm_flush_from txnum)"

definition bm_unpin :: "nat \<Rightarrow> ('a bm_scheme, unit) cmd" where
  "bm_unpin i =
     seq (upd (upd_buf i buf_unpin))
    (bnd (gets (\<lambda>s. pool s ! i)) (\<lambda>b.
     if \<not> buf_isPinned b then upd (\<lambda>s. s\<lparr>numAvailable := numAvailable s + 1\<rparr>) else ret ()))"

definition bm_pin_at :: "nat \<Rightarrow> ('a bm_scheme, nat option) cmd" where
  "bm_pin_at i =
     bnd (gets (\<lambda>s. pool s ! i)) (\<lambda>b.
     seq (if \<not> buf_isPinned b then upd (\<lambda>s. s\<lparr>numAvailable := numAvailable s - 1\<rparr>) else ret ())
    (seq (upd (upd_buf i buf_pin))
         (ret (Some i))))"

definition bm_tryToPin :: "block_id \<Rightarrow> ('a bm_scheme, nat option) cmd" where
  "bm_tryToPin blk =
     bnd (gets (bm_findExistingBuffer blk)) (\<lambda>found.
     case found of
       Some i \<Rightarrow> bm_pin_at i
     | None \<Rightarrow>
         bnd (gets bm_chooseUnpinnedBuffer) (\<lambda>free.
         case free of
           None \<Rightarrow> ret None
         | Some i \<Rightarrow> seq (buf_assignToBlock i blk) (bm_pin_at i)))"

text \<open>
  \<open>pin\<close> waits while no buffer is free. The waits are a list of what the other threads do to
  the state between two attempts; when it is used up the ten seconds are over.
\<close>

fun bm_pin :: "block_id \<Rightarrow> ('a bm_scheme \<Rightarrow> 'a bm_scheme) list \<Rightarrow> ('a bm_scheme, nat) cmd" where
  "bm_pin blk waits =
     bnd (bm_tryToPin blk) (\<lambda>b.
     case b of
       Some i \<Rightarrow> ret i
     | None \<Rightarrow>
         (case waits of
            [] \<Rightarrow> raise (Throw ''BufferMgr: No available buffer'')
          | w # ws \<Rightarrow> seq (upd w) (bm_pin blk ws)))"

declare bm_pin.simps [simp del]

section \<open>Frame facts\<close>

lemma bm_more_eq:
  fixes s s' :: "'a bm_scheme"
  assumes "lm.more s' = lm.more s"
  shows "pool s' = pool s" "numAvailable s' = numAvailable s" "bm.more s' = bm.more s"
  using assms by (cases s; cases s'; simp)+

lemma pool_store [simp]: "pool (store_block b p s) = pool s" "numAvailable (store_block b p s) = numAvailable s"
  "bm.more (store_block b p s) = bm.more s"
  by (rule bm_more_eq, simp)+

lemma pool_getFile [simp]: "pool (fm_getFile n s) = pool s" "numAvailable (fm_getFile n s) = numAvailable s"
  "bm.more (fm_getFile n s) = bm.more s"
  by (rule bm_more_eq, simp)+

text \<open>States that agree on the files and the log have the same blocks and the same log.\<close>

lemma log_state_cong:
  assumes "blocksize s' = blocksize s" "failed s' = failed s" "\<And>n. file_bytes n s' = file_bytes n s"
    "logFileName s' = logFileName s" "logPage s' = logPage s" "currBlk s' = currBlk s"
    "latestLsn s' = latestLsn s" "lastSaveLsn s' = lastSaveLsn s"
  shows "log_state s' base rs dur = log_state s base rs dur"
  unfolding log_state_def log_rep_def fm_inv_def fm_length_eq disk_block_def assms ..

lemma log_state_getFile [simp]: "log_state (fm_getFile n s) base rs dur = log_state s base rs dur"
  by (rule log_state_cong) simp_all

lemma log_state_fm_inv: "log_state s base rs dur \<Longrightarrow> fm_inv s"
  by (auto simp: log_state_def log_rep_def)

lemma log_state_store:
  assumes "log_state s base rs dur" "fileName b \<noteq> logFileName s" "int (length p) = blocksize s" "0 \<le> number b"
  shows "log_state (store_block b p s) base rs dur"
proof -
  have i: "fm_inv s"
    using assms(1) by (rule log_state_fm_inv)
  have "disk_block (store_block b p s) (BlockId (logFileName s) k) = disk_block s (BlockId (logFileName s) k)" for k
    using assms(2) by (simp add: disk_block_def)
  moreover have "fm_length (logFileName s) (store_block b p s) = fm_length (logFileName s) s"
    using assms(2) by (simp add: fm_length_eq)
  ultimately have "log_rep (store_block b p s) bss cur d" if "log_rep s bss cur d" for bss cur d
    using that i assms by (auto simp: log_rep_def)
  with assms(1) show ?thesis
    unfolding log_state_def by fastforce
qed

lemma bm_upd_simps [simp]:
  "file_bytes n (s\<lparr>pool := x\<rparr>) = file_bytes n s" "file_bytes n (s\<lparr>numAvailable := k\<rparr>) = file_bytes n s"
  "disk_block (s\<lparr>pool := x\<rparr>) = disk_block s" "disk_block (s\<lparr>numAvailable := k\<rparr>) = disk_block s"
  "log_state (s\<lparr>pool := x\<rparr>) = log_state s" "log_state (s\<lparr>numAvailable := k\<rparr>) = log_state s"
proof -
  show "log_state (s\<lparr>pool := x\<rparr>) = log_state s" "log_state (s\<lparr>numAvailable := k\<rparr>) = log_state s"
    by (intro ext log_state_cong; simp add: file_bytes_def)+
qed (simp_all add: file_bytes_def disk_block_def fun_eq_iff)

lemma upd_buf_simps [simp]:
  "pool (upd_buf i f s) = (pool s)[i := f (pool s ! i)]"
  "numAvailable (upd_buf i f s) = numAvailable s" "blocksize (upd_buf i f s) = blocksize s"
  "file_bytes n (upd_buf i f s) = file_bytes n s" "disk_block (upd_buf i f s) = disk_block s"
  "log_state (upd_buf i f s) = log_state s" "logFileName (upd_buf i f s) = logFileName s"
  "latestLsn (upd_buf i f s) = latestLsn s" "currBlk (upd_buf i f s) = currBlk s" "bm.more (upd_buf i f s) = bm.more s"
  by (simp_all add: upd_buf_def)

lemma find_buf_Some: "find_buf P bs = Some i \<Longrightarrow> i < length bs \<and> P (bs ! i)"
  by (induction bs arbitrary: i) (auto split: if_splits)

lemma find_buf_None: "find_buf P bs = None \<longleftrightarrow> (\<forall>b \<in> set bs. \<not> P b)"
  by (induction bs) auto

section \<open>The invariant of the pool\<close>

text \<open>Blocks of data files: the log file is written by the log manager only.\<close>

definition data_blk :: "'a lm_scheme \<Rightarrow> block_id \<Rightarrow> bool" where
  "data_blk s b \<longleftrightarrow> fileName b \<noteq> logFileName s \<and> fileName b \<noteq> [] \<and> 0 \<le> number b"

definition buf_ok :: "'a lm_scheme \<Rightarrow> buffer \<Rightarrow> bool" where
  "buf_ok s b \<longleftrightarrow>
     int (length (buf_page b)) = blocksize s \<and> 0 \<le> buf_pins b \<and> buf_lsn b \<le> latestLsn s \<and>
     (buf_blk b = null_blk \<and> buf_txnum b < 0 \<and> buf_pins b = 0 \<or>
      data_blk s (buf_blk b) \<and> (buf_txnum b < 0 \<longrightarrow> buf_page b = disk_block s (buf_blk b)))"

definition no_dup :: "buffer list \<Rightarrow> bool" where
  "no_dup bs \<longleftrightarrow> (\<forall>i < length bs. \<forall>j < length bs. buf_blk (bs ! i) = buf_blk (bs ! j) \<longrightarrow>
     i = j \<or> buf_blk (bs ! i) = null_blk)"

definition unpinned_count :: "buffer list \<Rightarrow> int" where
  "unpinned_count bs = int (length (filter (\<lambda>b. \<not> buf_isPinned b) bs))"

definition bm_inv :: "'a bm_scheme \<Rightarrow> bool" where
  "bm_inv s \<longleftrightarrow>
     (\<forall>i < length (pool s). buf_ok s (pool s ! i)) \<and> no_dup (pool s) \<and>
     numAvailable s = unpinned_count (pool s)"

text \<open>The contents of a block as the program sees it: the page that caches it, or the disk.\<close>

definition view :: "'a bm_scheme \<Rightarrow> block_id \<Rightarrow> bytes" where
  "view s b = (case bm_findExistingBuffer b s of Some i \<Rightarrow> buf_page (pool s ! i) | None \<Rightarrow> disk_block s b)"

lemma data_blk_simps [simp]:
  "data_blk (fm_getFile n s) = data_blk s" "data_blk (store_block b p s) = data_blk s"
  "data_blk (upd_buf i f s') = data_blk s'"
  by (simp_all add: data_blk_def fun_eq_iff)

lemma null_not_data [simp]: "\<not> data_blk s null_blk"
  by (simp add: data_blk_def null_blk_def)

lemma bm_invD:
  assumes "bm_inv s" "i < length (pool s)"
  shows "buf_ok s (pool s ! i)"
  using assms by (simp add: bm_inv_def)

lemma view_cached:
  assumes "no_dup (pool s)" "i < length (pool s)" "buf_blk (pool s ! i) = b" "data_blk s b"
  shows "bm_findExistingBuffer b s = Some i" "view s b = buf_page (pool s ! i)"
proof -
  obtain j where j: "bm_findExistingBuffer b s = Some j"
    using find_buf_None [of "\<lambda>x. blk_equals (buf_blk x) b" "pool s"] assms
    by (cases "bm_findExistingBuffer b s") (auto simp: bm_findExistingBuffer_def)
  then have "j < length (pool s)" "buf_blk (pool s ! j) = b"
    using find_buf_Some by (auto simp: bm_findExistingBuffer_def)
  with assms have "j = i"
    unfolding no_dup_def by (metis null_not_data)
  with j show "bm_findExistingBuffer b s = Some i" "view s b = buf_page (pool s ! i)"
    by (simp_all add: view_def)
qed

lemma view_uncached:
  assumes "\<forall>i < length (pool s). buf_blk (pool s ! i) \<noteq> b"
  shows "bm_findExistingBuffer b s = None" "view s b = disk_block s b"
proof -
  show "bm_findExistingBuffer b s = None"
    using assms unfolding bm_findExistingBuffer_def find_buf_None by (auto simp: in_set_conv_nth)
  then show "view s b = disk_block s b"
    by (simp add: view_def)
qed

lemma unpinned_count_upd:
  assumes "i < length bs"
  shows "unpinned_count (bs[i := b]) =
    unpinned_count bs + (if buf_isPinned b then 0 else 1) - (if buf_isPinned (bs ! i) then 0 else 1)"
proof -
  have cons: "unpinned_count (x # xs) = (if buf_isPinned x then 0 else 1) + unpinned_count xs" for x xs
    by (simp add: unpinned_count_def)
  show ?thesis
    using assms
  proof (induction bs arbitrary: i)
    case (Cons x xs)
    then show ?case by (cases i) (simp_all add: cons)
  qed simp
qed

lemma no_dup_same_blk:
  "no_dup bs \<Longrightarrow> buf_blk b = buf_blk (bs ! i) \<Longrightarrow> no_dup (bs[i := b])"
  unfolding no_dup_def by (auto simp: nth_upd)

lemma no_dup_new_blk:
  assumes "no_dup bs" "\<forall>j < length bs. buf_blk (bs ! j) \<noteq> buf_blk b"
  shows "no_dup (bs[i := b])"
  using assms unfolding no_dup_def by (auto simp: nth_upd)

text \<open>A change of one buffer that keeps its block keeps the invariant.\<close>

lemma bm_inv_upd_buf:
  assumes "bm_inv s" "i < length (pool s)" "buf_ok s (f (pool s ! i))"
    "buf_blk (f (pool s ! i)) = buf_blk (pool s ! i)" "buf_isPinned (f (pool s ! i)) = buf_isPinned (pool s ! i)"
  shows "bm_inv (upd_buf i f s)"
proof -
  have ok: "buf_ok (upd_buf i f s) = buf_ok s"
    by (simp add: fun_eq_iff buf_ok_def data_blk_def)
  show ?thesis
    using assms unfolding bm_inv_def ok
    by (auto simp: nth_upd no_dup_same_blk unpinned_count_upd)
qed

section \<open>Writing buffers back\<close>

lemma write_back:
  assumes inv: "bm_inv s" and fi: "fm_inv s" and i: "i < length (pool s)" and d: "data_blk s (buf_blk (pool s ! i))"
  defines "s' \<equiv> upd_buf i (\<lambda>b. b\<lparr>buf_txnum := - 1\<rparr>) (store_block (buf_blk (pool s ! i)) (buf_page (pool s ! i)) s)"
  shows "bm_inv s'" "\<And>b. data_blk s b \<Longrightarrow> view s' b = view s b"
    "\<And>b. data_blk s b \<Longrightarrow> disk_block s' b = (if b = buf_blk (pool s ! i) then buf_page (pool s ! i) else disk_block s b)"
proof -
  let ?b = "buf_blk (pool s ! i)" and ?p = "buf_page (pool s ! i)"
  have lp: "int (length ?p) = blocksize s" and n: "0 \<le> number ?b"
    using bm_invD [OF inv i] d by (auto simp: buf_ok_def data_blk_def)
  show disk: "disk_block s' b = (if b = ?b then ?p else disk_block s b)" if "data_blk s b" for b
    using that fi lp n by (simp add: s'_def disk_block_store data_blk_def)
  have pool': "pool s' = (pool s)[i := (pool s ! i)\<lparr>buf_txnum := - 1\<rparr>]"
    by (simp add: s'_def)
  have same: "data_blk s' = data_blk s" "blocksize s' = blocksize s" "latestLsn s' = latestLsn s" "numAvailable s' = numAvailable s"
    by (simp_all add: s'_def data_blk_def fun_eq_iff)
  have nd: "no_dup (pool s)" and na: "numAvailable s = unpinned_count (pool s)"
    using inv by (simp_all add: bm_inv_def)
  have "buf_ok s' (pool s' ! j)" if j: "j < length (pool s')" for j
  proof (cases "j = i")
    case True
    with bm_invD [OF inv i] i d show ?thesis
      by (simp add: pool' buf_ok_def same disk)
  next
    case False
    have "buf_blk (pool s ! j) \<noteq> ?b"
      using nd j i d False unfolding no_dup_def pool' by (metis length_list_update null_not_data)
    with bm_invD [OF inv, of j] j False show ?thesis
      by (auto simp: pool' buf_ok_def same disk)
  qed
  moreover have "no_dup (pool s')"
    unfolding pool' by (rule no_dup_same_blk [OF nd]) simp
  ultimately show inv': "bm_inv s'"
    using na i by (simp add: bm_inv_def same pool' unpinned_count_upd buf_isPinned_def)
  show "view s' b = view s b" if b: "data_blk s b" for b
  proof (cases "\<exists>j < length (pool s). buf_blk (pool s ! j) = b")
    case True
    then obtain j where j: "j < length (pool s)" "buf_blk (pool s ! j) = b" by blast
    have "buf_blk (pool s' ! j) = b" "buf_page (pool s' ! j) = buf_page (pool s ! j)"
      using j by (auto simp: pool' nth_upd)
    with j b view_cached(2) [of s' j b] view_cached(2) [OF nd j b] inv' show ?thesis
      by (simp add: pool' same bm_inv_def)
  next
    case False
    then have "\<forall>j < length (pool s'). buf_blk (pool s' ! j) \<noteq> b"
      using i by (auto simp: pool' nth_upd)
    from view_uncached(2) [OF this] False b i show ?thesis
      by (subst view_uncached(2)) (auto simp: disk)
  qed
qed

lemma log_still_simps [simp]:
  "log_still s (upd_buf i f s') = log_still s s'" "log_still s (s'\<lparr>numAvailable := k\<rparr>) = log_still s s'"
  "log_still s (fm_getFile n s') = log_still s s'"
  by (simp_all add: log_still_def fm_length_eq)

lemma log_still_store:
  "fileName b \<noteq> logFileName s \<Longrightarrow> logFileName s' = logFileName s \<Longrightarrow> log_still s (store_block b p s') = log_still s s'"
  by (simp add: log_still_def fm_length_eq disk_block_def)

text \<open>
  \<open>bm_log\<close>: the invariant with a log as in \<open>LogManager\<close>.
\<close>

definition bm_log :: "'a bm_scheme \<Rightarrow> nat \<Rightarrow> bytes list \<Rightarrow> bytes list \<Rightarrow> bool" where
  "bm_log s base rs dur \<longleftrightarrow> bm_inv s \<and> log_state s base rs dur"

text \<open>
  A block is dirty up to \<open>l\<close> when a buffer holds changes of it whose last log record has an LSN
  of at least \<open>l\<close>. \<open>bm_core d\<close>: no contents change, and only blocks are written to the disk
  whose changes all have records up to \<open>d\<close>, the last durable LSN.
\<close>

definition dlsn :: "nat \<Rightarrow> bytes list \<Rightarrow> int" where
  "dlsn base dur = int (length dur) - int base"

definition dirty :: "'a bm_scheme \<Rightarrow> block_id \<Rightarrow> int \<Rightarrow> bool" where
  "dirty s b l \<longleftrightarrow> (\<exists>i < length (pool s). buf_blk (pool s ! i) = b \<and> 0 \<le> buf_txnum (pool s ! i) \<and> l \<le> buf_lsn (pool s ! i))"

text \<open>The transactions with changes that are not on the disk.\<close>

definition owners :: "'a bm_scheme \<Rightarrow> int set" where
  "owners s = {t. 0 \<le> t \<and> (\<exists>i < length (pool s). buf_txnum (pool s ! i) = t)}"

definition bm_core :: "int \<Rightarrow> 'a bm_scheme \<Rightarrow> 'a bm_scheme \<Rightarrow> bool" where
  "bm_core d s s' \<longleftrightarrow> blocksize s' = blocksize s \<and> logFileName s' = logFileName s \<and>
     latestLsn s' = latestLsn s \<and> log_still s s' \<and> length (pool s') = length (pool s) \<and>
     owners s' \<subseteq> owners s \<and>
     (\<forall>b. data_blk s b \<longrightarrow> view s' b = view s b \<and>
        (\<forall>l. dirty s b l \<longrightarrow> dirty s' b l \<or> l \<le> d) \<and>
        (disk_block s' b = disk_block s b \<or> disk_block s' b = view s b \<and> (\<forall>l. dirty s b l \<longrightarrow> l \<le> d)))"

definition bm_frame :: "int \<Rightarrow> 'a bm_scheme \<Rightarrow> 'a bm_scheme \<Rightarrow> bool" where
  "bm_frame d s s' \<longleftrightarrow> bm_core d s s' \<and> bm.more s' = bm.more s"

lemmas bm_frame_defs = bm_frame_def bm_core_def

lemma bm_frame_refl [simp]: "bm_core d s s" "bm_frame d s s"
  by (simp_all add: bm_frame_defs)

lemma bm_core_data_blk: "bm_core d s s' \<Longrightarrow> data_blk s' = data_blk s"
  by (simp add: bm_core_def data_blk_def fun_eq_iff)

lemma bm_frame_data_blk: "bm_frame d s s' \<Longrightarrow> data_blk s' = data_blk s"
  unfolding bm_frame_def by (blast intro: bm_core_data_blk)

lemma dlsn_mono: "prefix dur dur' \<Longrightarrow> dlsn base dur \<le> dlsn base dur'"
  by (auto simp: dlsn_def dest: prefix_length_le)

lemma bm_core_trans:
  assumes "bm_core d s s'" "bm_core d' s' s''" "d \<le> d'"
  shows "bm_core d' s s''"
proof -
  have db: "data_blk s' = data_blk s"
    using assms(1) by (rule bm_core_data_blk)
  have "view s'' b = view s b \<and> (\<forall>l. dirty s b l \<longrightarrow> dirty s'' b l \<or> l \<le> d') \<and>
      (disk_block s'' b = disk_block s b \<or> disk_block s'' b = view s b \<and> (\<forall>l. dirty s b l \<longrightarrow> l \<le> d'))"
    if b: "data_blk s b" for b
  proof -
    have 1: "view s' b = view s b" "\<And>l. dirty s b l \<Longrightarrow> dirty s' b l \<or> l \<le> d"
      "disk_block s' b = disk_block s b \<or> disk_block s' b = view s b \<and> (\<forall>l. dirty s b l \<longrightarrow> l \<le> d)"
      using assms(1) b by (auto simp: bm_core_def)
    have 2: "view s'' b = view s' b" "\<And>l. dirty s' b l \<Longrightarrow> dirty s'' b l \<or> l \<le> d'"
      "disk_block s'' b = disk_block s' b \<or> disk_block s'' b = view s' b \<and> (\<forall>l. dirty s' b l \<longrightarrow> l \<le> d')"
      using assms(2) b db by (auto simp: bm_core_def)
    show ?thesis
      using 1 2 assms(3) by (metis order_trans)
  qed
  moreover have "log_still s s''" "owners s'' \<subseteq> owners s"
    using assms log_still_trans by (auto simp: bm_core_def)
  ultimately show ?thesis
    using assms(1,2) by (simp add: bm_core_def)
qed

lemma bm_frame_trans: "bm_frame d s s' \<Longrightarrow> bm_frame d' s' s'' \<Longrightarrow> d \<le> d' \<Longrightarrow> bm_frame d' s s''"
  by (auto simp: bm_frame_def intro: bm_core_trans)

lemma dirty_upd_same:
  assumes "buf_blk (f (pool s ! i)) = buf_blk (pool s ! i)" "buf_txnum (f (pool s ! i)) = buf_txnum (pool s ! i)"
    "buf_lsn (f (pool s ! i)) = buf_lsn (pool s ! i)"
  shows "dirty ((upd_buf i f s)\<lparr>numAvailable := k\<rparr>) b l = dirty s b l"
proof -
  have "buf_blk ((pool s)[i := f (pool s ! i)] ! j) = buf_blk (pool s ! j)"
    "buf_txnum ((pool s)[i := f (pool s ! i)] ! j) = buf_txnum (pool s ! j)"
    "buf_lsn ((pool s)[i := f (pool s ! i)] ! j) = buf_lsn (pool s ! j)" for j
    using assms by (cases "i < length (pool s)"; cases "j = i"; simp add: list_update_beyond)+
  then show ?thesis by (simp add: dirty_def)
qed

lemma owners_pool:
  assumes "pool s' = (pool s)[i := b]" "i < length (pool s)" "buf_txnum b = buf_txnum (pool s ! i) \<or> buf_txnum b < 0"
  shows "owners s' \<subseteq> owners s"
  using assms by (auto simp: owners_def nth_upd)

lemma owners_upd_same:
  "buf_txnum (f (pool s ! i)) = buf_txnum (pool s ! i) \<Longrightarrow> owners ((upd_buf i f s)\<lparr>numAvailable := k\<rparr>) = owners s"
  unfolding owners_def by (cases "i < length (pool s)") (auto simp: nth_upd list_update_beyond split: if_splits)

lemma log_frame_bm:
  fixes s s' :: "'a bm_scheme"
  assumes "log_frame s s'"
  shows "pool s' = pool s" "numAvailable s' = numAvailable s" "bm.more s' = bm.more s"
    "data_blk s' = data_blk s" "blocksize s' = blocksize s" "\<And>b. data_blk s b \<Longrightarrow> disk_block s' b = disk_block s b"
    "\<And>b. data_blk s b \<Longrightarrow> view s' b = view s b"
proof -
  have m: "lm.more s' = lm.more s"
    using assms by (simp add: log_frame_def)
  then show p: "pool s' = pool s" "numAvailable s' = numAvailable s" "bm.more s' = bm.more s"
    by (rule bm_more_eq)+
  show "data_blk s' = data_blk s" "blocksize s' = blocksize s"
    using assms by (simp_all add: log_frame_def data_blk_def fun_eq_iff)
  show d: "disk_block s' b = disk_block s b" if "data_blk s b" for b
    using that log_frame_disk_block [OF assms] by (simp add: data_blk_def)
  show "view s' b = view s b" if "data_blk s b" for b
    using d [OF that] p by (simp add: view_def bm_findExistingBuffer_def split: option.split)
qed

lemma log_frame_inv:
  fixes s s' :: "'a bm_scheme"
  assumes "log_frame s s'" "latestLsn s \<le> latestLsn s'" "bm_inv s"
  shows "bm_inv s'"
proof -
  note f = log_frame_bm [OF assms(1)]
  have "buf_ok s' b" if "buf_ok s b" for b
    using that f(5,6) assms(2) by (auto simp: buf_ok_def f(4))
  with assms(3) f(1,2) show ?thesis
    by (auto simp: bm_inv_def)
qed

text \<open>
  \<open>Buffer::flush\<close> writes the log first: when the block is on the disk, the log records up to
  the buffer's LSN are durable; in between, in \<open>s1\<close>, the disk still holds the old block.
\<close>

lemma buf_flush_spec:
  assumes "bm_log s base rs dur" "i < length (pool s)"
  defines "b \<equiv> pool s ! i"
  shows "\<exists>s' dur'. buf_flush i s = (Inr (), s') \<and> bm_log s' base rs dur' \<and> prefix dur dur' \<and> bm_frame (dlsn base dur') s s' \<and>
    pool s' = (pool s)[i := b\<lparr>buf_txnum := min (buf_txnum b) (- 1)\<rparr>] \<and>
    (buf_txnum b \<ge> 0 \<longrightarrow> int base + buf_lsn b \<le> int (length dur') \<and> disk_block s' (buf_blk b) = buf_page b \<and>
      (\<exists>s1. lm_flush (buf_lsn b) s = (Inr (), s1) \<and> log_state s1 base rs dur' \<and>
         (\<forall>c. data_blk s c \<longrightarrow> disk_block s1 c = disk_block s c))) \<and>
    (\<forall>c. data_blk s c \<longrightarrow> c \<noteq> buf_blk b \<longrightarrow> disk_block s' c = disk_block s c)"
proof (cases "buf_txnum b \<ge> 0")
  case False
  then have "buf_flush i s = (Inr (), s)" "b\<lparr>buf_txnum := min (buf_txnum b) (- 1)\<rparr> = b"
    by (simp_all add: buf_flush_def cmd_simps b_def min_def)
  with assms False show ?thesis
    by (intro exI [of _ s] exI [of _ dur]) simp
next
  case True
  have inv: "bm_inv s" and log: "log_state s base rs dur"
    using assms(1) by (auto simp: bm_log_def)
  have ok: "buf_ok s b" and d: "data_blk s (buf_blk b)"
    using bm_invD [OF inv assms(2)] True by (auto simp: buf_ok_def b_def)
  then have "buf_lsn b \<le> latestLsn s" by (simp add: buf_ok_def)
  from log_state_flush [OF log this] obtain s1 dur1 where
    s1: "lm_flush (buf_lsn b) s = (Inr (), s1)" "log_state s1 base rs dur1" "prefix dur dur1"
      "int base + buf_lsn b \<le> int (length dur1)" "log_frame s s1" "latestLsn s1 = latestLsn s" by blast
  note f = log_frame_bm [OF s1(5)]
  have inv1: "bm_inv s1" and fi: "fm_inv s1"
    using log_frame_inv [OF s1(5) _ inv] s1(6) log_state_fm_inv [OF s1(2)] by auto
  let ?s = "upd_buf i (\<lambda>b. b\<lparr>buf_txnum := - 1\<rparr>) (store_block (buf_blk b) (buf_page b) s1)"
  have i1: "i < length (pool s1)" and b1: "pool s1 ! i = b"
    using assms(2) by (simp_all add: f b_def)
  note w = write_back [OF inv1 fi i1, unfolded b1, unfolded f, OF d]
  have pool': "pool ?s = (pool s)[i := b\<lparr>buf_txnum := - 1\<rparr>]"
    using f(1) by (simp add: b_def)
  have nd: "no_dup (pool s)"
    using inv by (simp add: bm_inv_def)
  have dsk: "(dirty s c l \<longrightarrow> dirty ?s c l \<or> l \<le> dlsn base dur1) \<and>
      (disk_block ?s c = disk_block s c \<or> disk_block ?s c = view s c \<and> (\<forall>l. dirty s c l \<longrightarrow> l \<le> dlsn base dur1))"
    if c: "data_blk s c" for c l
  proof (cases "c = buf_blk b")
    case True
    have "l \<le> dlsn base dur1" if dl: "dirty s c l" for l
    proof -
      obtain j where j: "j < length (pool s)" "buf_blk (pool s ! j) = c" "l \<le> buf_lsn (pool s ! j)"
        using dl by (auto simp: dirty_def)
      then have "j = i"
        using nd assms(2) True c unfolding no_dup_def b_def by (metis null_not_data)
      with j(3) s1(4) show ?thesis by (simp add: b_def dlsn_def)
    qed
    moreover have "disk_block ?s c = view s c"
      using w(3) [OF c] True view_cached(2) [OF nd assms(2) _ c] by (simp add: b_def)
    ultimately show ?thesis by auto
  next
    case False
    then have "dirty s c l \<Longrightarrow> dirty ?s c l" for l
      unfolding dirty_def pool' by (auto simp: nth_upd b_def)
    with False w(3) [OF c] f(6) [OF c] show ?thesis by auto
  qed
  have "buf_flush i s = (Inr (), ?s)"
    using True s1(1) fi ok d f(5)
    by (simp add: buf_flush_def cmd_simps fm_write_store buf_ok_def data_blk_def flip: b_def)
  moreover have "bm_log ?s base rs dur1"
    using w(1) d ok s1(2) f(5) s1(5) by (auto simp: bm_log_def data_blk_def buf_ok_def log_frame_def intro!: log_state_store)
  moreover have "bm_frame (dlsn base dur1) s ?s"
    using owners_pool [OF pool' assms(2)] s1(5,6) dsk w(2) f d lm_flush_still [OF log s1(1)]
    by (auto simp: bm_frame_defs log_frame_def data_blk_def log_still_store)
  moreover have "pool ?s = (pool s)[i := b\<lparr>buf_txnum := min (buf_txnum b) (- 1)\<rparr>]"
    using True f(1) by (simp add: b_def min_def)
  ultimately show ?thesis
    using s1 w(3) d f(6) by (intro exI [of _ ?s] exI [of _ dur1]) auto
qed

section \<open>Pinning\<close>

lemma view_cong:
  assumes "pool s' = pool s" "disk_block s' = disk_block s"
  shows "view s' = view s" "bm_findExistingBuffer b s' = bm_findExistingBuffer b s"
  using assms by (simp_all add: view_def bm_findExistingBuffer_def fun_eq_iff split: option.split)

text \<open>Replacing the block of an unpinned buffer by one that no buffer holds.\<close>

lemma replace_blk:
  assumes inv: "bm_inv s" and i: "i < length (pool s)" and free: "\<not> buf_isPinned (pool s ! i)"
    and clean: "buf_txnum (pool s ! i) < 0" and blk: "data_blk s blk" "\<forall>j < length (pool s). buf_blk (pool s ! j) \<noteq> blk"
  defines "s' \<equiv> upd_buf i (\<lambda>b. b\<lparr>buf_blk := blk, buf_page := disk_block s blk, buf_pins := 0\<rparr>) s"
  shows "bm_inv s'" "\<And>b. data_blk s b \<Longrightarrow> view s' b = view s b"
proof -
  let ?b = "(pool s ! i)\<lparr>buf_blk := blk, buf_page := disk_block s blk, buf_pins := 0\<rparr>"
  have pool': "pool s' = (pool s)[i := ?b]"
    by (simp add: s'_def)
  have ok: "buf_ok s (pool s ! i)" and nd: "no_dup (pool s)" and na: "numAvailable s = unpinned_count (pool s)"
    using inv i by (simp_all add: bm_inv_def)
  have ok': "buf_ok s' = buf_ok s"
    by (simp add: s'_def fun_eq_iff buf_ok_def data_blk_def)
  have "buf_ok s ?b"
    using ok blk(1) by (auto simp: buf_ok_def)
  moreover have nd': "no_dup (pool s')"
    unfolding pool' by (rule no_dup_new_blk [OF nd]) (use blk(2) in auto)
  ultimately show "bm_inv s'"
    using inv i free na unfolding bm_inv_def ok'
    by (auto simp: pool' nth_upd unpinned_count_upd) (auto simp: buf_isPinned_def s'_def)
  show "view s' b = view s b" if b: "data_blk s b" for b
  proof (cases "\<exists>j < length (pool s). buf_blk (pool s ! j) = b \<and> j \<noteq> i")
    case True
    then obtain j where j: "j < length (pool s)" "buf_blk (pool s ! j) = b" "j \<noteq> i" by blast
    then have "buf_blk (pool s' ! j) = b" "buf_page (pool s' ! j) = buf_page (pool s ! j)"
      by (auto simp: pool' nth_upd)
    with j b view_cached(2) [OF nd' _ this(1)] view_cached(2) [OF nd j(1,2) b] show ?thesis
      by (simp add: pool' data_blk_def s'_def)
  next
    case False
    have old: "view s b = disk_block s b"
    proof (cases "buf_blk (pool s ! i) = b")
      case True
      then have "buf_page (pool s ! i) = disk_block s b"
        using ok b clean by (auto simp: buf_ok_def)
      with view_cached(2) [OF nd i True b] show ?thesis by simp
    next
      case i': False
      with False show ?thesis by (intro view_uncached(2)) auto
    qed
    show ?thesis
    proof (cases "b = blk")
      case True
      have "data_blk s' b" "i < length (pool s')" "buf_blk (pool s' ! i) = b"
        using b i True by (simp_all add: s'_def data_blk_def)
      from view_cached(2) [OF nd' this(2,3,1)] show ?thesis
        using True i old by (simp add: pool')
    next
      case False': False
      with False i have "\<forall>j < length (pool s'). buf_blk (pool s' ! j) \<noteq> b"
        by (auto simp: pool' nth_upd)
      from view_uncached(2) [OF this] old show ?thesis by (simp add: s'_def)
    qed
  qed
qed

lemma buf_assign_spec:
  assumes "bm_log s base rs dur" "i < length (pool s)" "\<not> buf_isPinned (pool s ! i)"
    and blk: "data_blk s blk" "\<forall>j < length (pool s). buf_blk (pool s ! j) \<noteq> blk"
  shows "\<exists>s' dur'. buf_assignToBlock i blk s = (Inr (), s') \<and> bm_log s' base rs dur' \<and> prefix dur dur' \<and>
    bm_frame (dlsn base dur') s s' \<and> buf_blk (pool s' ! i) = blk \<and> buf_pins (pool s' ! i) = 0 \<and>
    (\<forall>j < length (pool s). j \<noteq> i \<longrightarrow> pool s' ! j = pool s ! j) \<and> numAvailable s' = numAvailable s"
proof -
  from buf_flush_spec [OF assms(1,2)] obtain s1 dur1 where
    s1: "buf_flush i s = (Inr (), s1)" "bm_log s1 base rs dur1" "prefix dur dur1" "bm_frame (dlsn base dur1) s s1"
      "pool s1 = (pool s)[i := (pool s ! i)\<lparr>buf_txnum := min (buf_txnum (pool s ! i)) (- 1)\<rparr>]" by blast
  have inv: "bm_inv s" "bm_inv s1" and fi: "fm_inv s1"
    using assms(1) s1(2) by (auto simp: bm_log_def log_state_fm_inv)
  let ?s2 = "fm_getFile (fileName blk) (upd_buf i (\<lambda>b. b\<lparr>buf_blk := blk\<rparr>) s1)"
  let ?g = "fm_getFile (fileName blk) s1"
  let ?s3 = "upd_buf i (\<lambda>b. b\<lparr>buf_page := disk_block s1 blk, buf_pins := 0\<rparr>) ?s2"
  let ?s3' = "upd_buf i (\<lambda>b. b\<lparr>buf_blk := blk, buf_page := disk_block s1 blk, buf_pins := 0\<rparr>) ?g"
  have len: "length (pool s1) = length (pool s)"
    using s1(5) by simp
  have okg: "buf_ok ?g = buf_ok s1"
    by (simp add: fun_eq_iff buf_ok_def data_blk_def)
  have invg: "bm_inv ?g"
    using inv(2) by (simp add: bm_inv_def okg)
  have d: "data_blk s1 = data_blk s"
    using s1(4) by (rule bm_frame_data_blk)
  have lp: "length (buf_page (pool s1 ! i)) = nat (blocksize s1)"
    using bm_invD [OF inv(2), of i] assms(2) len by (auto simp: buf_ok_def)
  have eq3: "?s3 = ?s3'"
    using assms(2) len by (simp add: upd_buf_def fm_getFile_def split: option.split)
  have fi2: "fm_inv (upd_buf i (\<lambda>b. b\<lparr>buf_blk := blk\<rparr>) s1)"
    using fi by (simp add: fm_inv_def upd_buf_def file_bytes_def)
  have "fm_read blk (buf_page (pool s1 ! i)) (upd_buf i (\<lambda>b. b\<lparr>buf_blk := blk\<rparr>) s1) = (Inr (disk_block s1 blk), ?s2)"
    using fm_read_eq [OF fi2] lp blk(1) by (simp add: data_blk_def)
  then have eq: "buf_assignToBlock i blk s = (Inr (), ?s3)"
    using s1(1) assms(2) len by (simp add: buf_assignToBlock_def cmd_simps)
  have free1: "\<not> buf_isPinned (pool ?g ! i)" and clean: "buf_txnum (pool ?g ! i) < 0"
    and un: "\<forall>j < length (pool ?g). buf_blk (pool ?g ! j) \<noteq> blk"
    using s1(5) assms(2,3) blk(2) by (auto simp: buf_isPinned_def nth_upd)
  have ig: "i < length (pool ?g)" and blkg: "data_blk ?g blk"
    using assms(2) len blk(1) d by simp_all
  note r = replace_blk [OF invg ig free1 clean blkg un]
  have vg: "view ?g = view s1"
    by (rule view_cong) simp_all
  have dirt: "dirty ?s3 b l" if dl: "dirty s1 b l" for b l
  proof -
    obtain j where j: "j < length (pool s1)" "buf_blk (pool s1 ! j) = b" "0 \<le> buf_txnum (pool s1 ! j)" "l \<le> buf_lsn (pool s1 ! j)"
      using dl by (auto simp: dirty_def)
    with clean have "j \<noteq> i" by auto
    with j show ?thesis
      unfolding dirty_def by (intro exI [of _ j]) simp
  qed
  have own: "owners ?s3 \<subseteq> owners s1"
    using assms(2) len
    by (intro owners_pool [of ?s3 s1 i "(pool s1 ! i)\<lparr>buf_blk := blk, buf_page := disk_block s1 blk, buf_pins := 0\<rparr>"])
      simp_all
  have "bm_log ?s3 base rs dur1"
    using r(1) s1(2) unfolding eq3 by (simp add: bm_log_def)
  moreover have "bm_frame (dlsn base dur1) s1 ?s3"
    using dirt own r(2) unfolding eq3 by (auto simp: bm_frame_defs vg data_blk_def)
  moreover have "buf_blk (pool ?s3 ! i) = blk" "buf_pins (pool ?s3 ! i) = 0"
    "\<forall>j < length (pool s). j \<noteq> i \<longrightarrow> pool ?s3 ! j = pool s ! j"
    using assms(2) len s1(5) by (simp_all add: nth_upd)
  moreover have "numAvailable ?s3 = numAvailable s"
    using inv s1(5) assms(2) by (simp add: bm_inv_def unpinned_count_upd buf_isPinned_def)
  ultimately show ?thesis
    using eq s1(3) bm_frame_trans [OF s1(4)] by blast
qed

lemma bm_inv_count:
  assumes "bm_inv s" "i < length (pool s)" "buf_ok s (f (pool s ! i))" "buf_blk (f (pool s ! i)) = buf_blk (pool s ! i)"
    "k = numAvailable s + (if buf_isPinned (f (pool s ! i)) then 0 else 1) - (if buf_isPinned (pool s ! i) then 0 else 1)"
  shows "bm_inv ((upd_buf i f s)\<lparr>numAvailable := k\<rparr>)"
proof -
  have ok: "buf_ok ((upd_buf i f s)\<lparr>numAvailable := k\<rparr>) = buf_ok s"
    by (simp add: fun_eq_iff buf_ok_def data_blk_def)
  show ?thesis
    using assms unfolding bm_inv_def ok
    by (auto simp: nth_upd no_dup_same_blk unpinned_count_upd)
qed

lemma view_keep_page:
  assumes "i < length (pool s)" "buf_blk (f (pool s ! i)) = buf_blk (pool s ! i)" "buf_page (f (pool s ! i)) = buf_page (pool s ! i)"
  shows "view ((upd_buf i f s)\<lparr>numAvailable := k\<rparr>) b = view s b"
proof -
  have f: "find_buf P (xs[i := x]) = find_buf P xs" if "P x = P (xs ! i)" "i < length xs" for P x and xs :: "buffer list"
    using that
  proof (induction xs arbitrary: i)
    case (Cons y ys)
    then show ?case by (cases i) auto
  qed simp
  have "bm_findExistingBuffer b ((upd_buf i f s)\<lparr>numAvailable := k\<rparr>) = bm_findExistingBuffer b s"
    unfolding bm_findExistingBuffer_def using assms by (simp add: f)
  moreover have "buf_page ((pool s)[i := f (pool s ! i)] ! j) = buf_page (pool s ! j)" for j
    using assms by (cases "j = i") simp_all
  ultimately show ?thesis
    using assms(1) by (simp add: view_def split: option.split)
qed

lemma bm_pin_at_spec:
  assumes "bm_log s base rs dur" "i < length (pool s)" "data_blk s (buf_blk (pool s ! i))"
  shows "\<exists>s'. bm_pin_at i s = (Inr (Some i), s') \<and> bm_log s' base rs dur \<and> bm_frame (dlsn base dur) s s' \<and>
    pool s' = (pool s)[i := buf_pin (pool s ! i)]"
proof -
  let ?k = "if buf_isPinned (pool s ! i) then numAvailable s else numAvailable s - 1"
  let ?s = "(upd_buf i buf_pin s)\<lparr>numAvailable := ?k\<rparr>"
  have inv: "bm_inv s" using assms(1) by (simp add: bm_log_def)
  have ok: "buf_ok s (pool s ! i)" using bm_invD [OF inv assms(2)] .
  have c: "upd_buf i buf_pin (s\<lparr>numAvailable := k\<rparr>) = (upd_buf i buf_pin s)\<lparr>numAvailable := k\<rparr>" for k
    by (simp add: upd_buf_def)
  have "bm_pin_at i s = (Inr (Some i), ?s)"
    by (simp add: bm_pin_at_def cmd_simps c)
  moreover have "bm_inv ?s"
    using ok assms(3) by (intro bm_inv_count inv assms(2)) (auto simp: buf_ok_def buf_pin_def buf_isPinned_def)
  moreover have "bm_frame (dlsn base dur) s ?s"
    using view_keep_page [OF assms(2), of buf_pin] dirty_upd_same [of buf_pin s i] owners_upd_same [of buf_pin s i]
    by (simp only: bm_frame_defs) (simp add: buf_pin_def)
  ultimately show ?thesis
    using assms(1) by (intro exI [of _ ?s]) (simp add: bm_log_def)
qed

lemma no_free_buffer:
  assumes "bm_inv s" "bm_chooseUnpinnedBuffer s = None"
  shows "numAvailable s = 0"
proof -
  have "filter (\<lambda>b. \<not> buf_isPinned b) (pool s) = []"
    using assms(2) by (simp add: bm_chooseUnpinnedBuffer_def find_buf_None filter_empty_conv)
  then have "unpinned_count (pool s) = 0"
    by (simp only: unpinned_count_def list.size)
  with assms(1) show ?thesis by (simp add: bm_inv_def)
qed

text \<open>
  One attempt to pin: either every buffer is pinned and none holds the block, or a buffer now
  holds it, with its newest contents and one more pin; no other buffer changed.
\<close>

definition pinned_at :: "'a bm_scheme \<Rightarrow> 'a bm_scheme \<Rightarrow> block_id \<Rightarrow> nat \<Rightarrow> bool" where
  "pinned_at s s' blk i \<longleftrightarrow> i < length (pool s') \<and> buf_blk (pool s' ! i) = blk \<and>
     buf_page (pool s' ! i) = view s blk \<and> 0 < buf_pins (pool s' ! i) \<and>
     (buf_isPinned (pool s ! i) \<longrightarrow> pool s' ! i = buf_pin (pool s ! i)) \<and>
     (\<not> buf_isPinned (pool s ! i) \<longrightarrow> buf_pins (pool s' ! i) = 1) \<and>
     (\<forall>j < length (pool s). j \<noteq> i \<longrightarrow> pool s' ! j = pool s ! j)"

lemma bm_tryToPin_spec:
  assumes "bm_log s base rs dur" "data_blk s blk"
  shows "\<exists>r s' dur'. bm_tryToPin blk s = (Inr r, s') \<and> bm_log s' base rs dur' \<and> prefix dur dur' \<and> bm_frame (dlsn base dur') s s' \<and>
    (case r of None \<Rightarrow> s' = s \<and> numAvailable s = 0 \<and> (\<forall>b \<in> set (pool s). buf_blk b \<noteq> blk)
     | Some i \<Rightarrow> pinned_at s s' blk i)"
proof (cases "bm_findExistingBuffer blk s")
  case (Some i)
  have inv: "bm_inv s" using assms(1) by (simp add: bm_log_def)
  have i: "i < length (pool s)" "buf_blk (pool s ! i) = blk"
    using find_buf_Some Some by (auto simp: bm_findExistingBuffer_def)
  from bm_pin_at_spec [OF assms(1) i(1)] i assms(2) obtain s' where
    s': "bm_pin_at i s = (Inr (Some i), s')" "bm_log s' base rs dur" "bm_frame (dlsn base dur) s s'"
      "pool s' = (pool s)[i := buf_pin (pool s ! i)]" by blast
  have "bm_tryToPin blk s = (Inr (Some i), s')"
    using Some s'(1) by (simp add: bm_tryToPin_def cmd_simps)
  moreover have "view s blk = buf_page (pool s ! i)"
    using inv i assms(2) by (intro view_cached) (auto simp: bm_inv_def)
  moreover have "0 \<le> buf_pins (pool s ! i)"
    using bm_invD [OF inv i(1)] by (simp add: buf_ok_def)
  ultimately show ?thesis
    using s' i by (intro exI [of _ "Some i"] exI [of _ s'] exI [of _ dur]) (auto simp: pinned_at_def buf_pin_def buf_isPinned_def)
next
  case None
  have inv: "bm_inv s" using assms(1) by (simp add: bm_log_def)
  have un: "\<forall>j < length (pool s). buf_blk (pool s ! j) \<noteq> blk" "\<forall>b \<in> set (pool s). buf_blk b \<noteq> blk"
    using None by (auto simp: bm_findExistingBuffer_def find_buf_None)
  show ?thesis
  proof (cases "bm_chooseUnpinnedBuffer s")
    case no: None
    then have "bm_tryToPin blk s = (Inr None, s)"
      using None by (simp add: bm_tryToPin_def cmd_simps)
    with no_free_buffer [OF inv no] assms(1) un show ?thesis
      by (intro exI [of _ None] exI [of _ s] exI [of _ dur]) simp
  next
    case (Some i)
    have i: "i < length (pool s)" "\<not> buf_isPinned (pool s ! i)"
      using find_buf_Some Some by (auto simp: bm_chooseUnpinnedBuffer_def)
    from buf_assign_spec [OF assms(1) i assms(2) un(1)] obtain s1 dur1 where
      s1: "buf_assignToBlock i blk s = (Inr (), s1)" "bm_log s1 base rs dur1" "prefix dur dur1" "bm_frame (dlsn base dur1) s s1"
        "buf_blk (pool s1 ! i) = blk" "buf_pins (pool s1 ! i) = 0"
        "\<forall>j < length (pool s). j \<noteq> i \<longrightarrow> pool s1 ! j = pool s ! j" by blast
    have i1: "i < length (pool s1)" "data_blk s1 blk"
      using i s1(4) bm_frame_data_blk [OF s1(4)] assms(2) by (auto simp: bm_frame_defs)
    from bm_pin_at_spec [OF s1(2) i1(1)] i1(2) s1(5) obtain s' where
      s': "bm_pin_at i s1 = (Inr (Some i), s')" "bm_log s' base rs dur1" "bm_frame (dlsn base dur1) s1 s'"
        "pool s' = (pool s1)[i := buf_pin (pool s1 ! i)]" by auto
    have "bm_tryToPin blk s = (Inr (Some i), s')"
      using None Some s1(1) s'(1) by (simp add: bm_tryToPin_def cmd_simps)
    moreover have "view s blk = buf_page (pool s1 ! i)"
      using view_cached(2) [of s1 i blk] i1 s1(2,4,5) assms(2) by (simp add: bm_log_def bm_inv_def bm_frame_defs)
    ultimately show ?thesis
      using s' i i1 s1 bm_frame_trans [OF s1(4) s'(3)]
      by (intro exI [of _ "Some i"] exI [of _ s'] exI [of _ dur1])
        (auto simp: pinned_at_def buf_pin_def buf_isPinned_def)
  qed
qed

lemma bm_pin_no_wait:
  "bm_pin blk [] s = (case bm_tryToPin blk s of (Inr (Some i), s') \<Rightarrow> (Inr i, s')
     | (Inr None, s') \<Rightarrow> (Inl (Throw ''BufferMgr: No available buffer''), s') | (Inl e, s') \<Rightarrow> (Inl e, s'))"
  by (subst bm_pin.simps) (auto simp: bnd_def ret_def raise_def split: prod.split sum.split option.split)

section \<open>Unpinning, flushing, modifying\<close>

lemma bm_unpin_spec:
  assumes "bm_log s base rs dur" "i < length (pool s)" "buf_isPinned (pool s ! i)"
  shows "\<exists>s'. bm_unpin i s = (Inr (), s') \<and> bm_log s' base rs dur \<and> bm_frame (dlsn base dur) s s' \<and>
    pool s' = (pool s)[i := buf_unpin (pool s ! i)]"
proof -
  let ?k = "if buf_isPinned (buf_unpin (pool s ! i)) then numAvailable s else numAvailable s + 1"
  let ?s = "(upd_buf i buf_unpin s)\<lparr>numAvailable := ?k\<rparr>"
  have inv: "bm_inv s" using assms(1) by (simp add: bm_log_def)
  have ok: "buf_ok s (pool s ! i)" using bm_invD [OF inv assms(2)] .
  have "(upd_buf i buf_unpin s)\<lparr>numAvailable := numAvailable s\<rparr> = upd_buf i buf_unpin s"
    by (simp add: upd_buf_def)
  then have "bm_unpin i s = (Inr (), ?s)"
    using assms(2) by (simp add: bm_unpin_def cmd_simps)
  moreover have "bm_inv ?s"
    using ok assms(3) by (intro bm_inv_count inv assms(2)) (auto simp: buf_ok_def buf_unpin_def buf_isPinned_def)
  moreover have "bm_frame (dlsn base dur) s ?s"
    using view_keep_page [OF assms(2), of buf_unpin] dirty_upd_same [of buf_unpin s i] owners_upd_same [of buf_unpin s i]
    by (simp only: bm_frame_defs) (simp add: buf_unpin_def)
  ultimately show ?thesis
    using assms(1) by (intro exI [of _ ?s]) (simp add: bm_log_def)
qed

text \<open>\<open>flushAll\<close> leaves no page of the transaction unwritten.\<close>

definition clean_for :: "int \<Rightarrow> buffer \<Rightarrow> bool" where
  "clean_for txnum b \<longleftrightarrow> buf_txnum b \<noteq> txnum"

definition clear_tx :: "int \<Rightarrow> buffer \<Rightarrow> buffer" where
  "clear_tx txnum b = (if buf_txnum b = txnum then b\<lparr>buf_txnum := - 1\<rparr> else b)"

lemma bm_flush_from_spec:
  assumes "bm_log s base rs dur" "\<forall>i \<in> set is. i < length (pool s)" "0 \<le> txnum"
  shows "\<exists>s' dur'. bm_flush_from txnum is s = (Inr (), s') \<and> bm_log s' base rs dur' \<and> prefix dur dur' \<and> bm_frame (dlsn base dur') s s' \<and>
    (\<forall>j < length (pool s). pool s' ! j = (if j \<in> set is then clear_tx txnum (pool s ! j) else pool s ! j))"
  using assms
proof (induction "is" arbitrary: s dur)
  case Nil
  then show ?case by (intro exI [of _ s] exI [of _ dur]) (simp add: cmd_simps)
next
  case (Cons i "is")
  have i: "i < length (pool s)" using Cons.prems(2) by simp
  have "\<exists>s1 dur1. (if buf_txnum (pool s ! i) = txnum then buf_flush i else ret ()) s = (Inr (), s1) \<and>
      bm_log s1 base rs dur1 \<and> prefix dur dur1 \<and> bm_frame (dlsn base dur1) s s1 \<and> pool s1 = (pool s)[i := clear_tx txnum (pool s ! i)]"
  proof (cases "buf_txnum (pool s ! i) = txnum")
    case True
    then show ?thesis
      using buf_flush_spec [OF Cons.prems(1) i] Cons.prems(3) by (fastforce simp: clear_tx_def min_def)
  next
    case False
    then show ?thesis
      using Cons.prems(1) by (intro exI [of _ s] exI [of _ dur]) (simp add: cmd_simps clear_tx_def)
  qed
  then obtain s1 dur1 where s1: "(if buf_txnum (pool s ! i) = txnum then buf_flush i else ret ()) s = (Inr (), s1)"
      "bm_log s1 base rs dur1" "prefix dur dur1" "bm_frame (dlsn base dur1) s s1" "pool s1 = (pool s)[i := clear_tx txnum (pool s ! i)]"
    by blast
  from Cons.IH [OF s1(2)] Cons.prems(2,3) s1(5) obtain s2 dur2 where
    s2: "bm_flush_from txnum is s1 = (Inr (), s2)" "bm_log s2 base rs dur2" "prefix dur1 dur2" "bm_frame (dlsn base dur2) s1 s2"
      "\<forall>j < length (pool s1). pool s2 ! j = (if j \<in> set is then clear_tx txnum (pool s1 ! j) else pool s1 ! j)"
    by auto
  have idem: "clear_tx txnum (clear_tx txnum b) = clear_tx txnum b" for b
    by (simp add: clear_tx_def)
  have "bm_flush_from txnum (i # is) s = (Inr (), s2)"
    using s1(1) s2(1) by (auto simp: cmd_simps)
  moreover have "\<forall>j < length (pool s). pool s2 ! j = (if j \<in> set (i # is) then clear_tx txnum (pool s ! j) else pool s ! j)"
    using s2(5) s1(5) idem by (auto simp: nth_upd)
  ultimately show ?case
    using s2(2) prefix_order.trans [OF s1(3) s2(3)] bm_frame_trans [OF s1(4) s2(4) dlsn_mono [OF s2(3)]] by blast
qed

lemma bm_flushAll_spec:
  assumes "bm_log s base rs dur" "0 \<le> txnum"
  shows "\<exists>s' dur'. bm_flushAll txnum s = (Inr (), s') \<and> bm_log s' base rs dur' \<and> prefix dur dur' \<and> bm_frame (dlsn base dur') s s' \<and>
    pool s' = map (clear_tx txnum) (pool s)"
proof -
  from bm_flush_from_spec [OF assms(1) _ assms(2), of "[0..<length (pool s)]"] obtain s' dur' where
    s': "bm_flush_from txnum [0..<length (pool s)] s = (Inr (), s')" "bm_log s' base rs dur'" "prefix dur dur'" "bm_frame (dlsn base dur') s s'"
      "\<forall>j < length (pool s). pool s' ! j = clear_tx txnum (pool s ! j)" by auto
  have "pool s' = map (clear_tx txnum) (pool s)"
    using s'(4,5) by (intro nth_equalityI) (auto simp: bm_frame_defs)
  with s' show ?thesis
    by (intro exI [of _ s'] exI [of _ dur']) (simp add: bm_flushAll_def cmd_simps)
qed

lemma owners_clear: "pool s' = map (clear_tx t) (pool s) \<Longrightarrow> owners s' \<subseteq> owners s - {t}"
  by (auto simp: owners_def clear_tx_def split: if_splits)

text \<open>Without owners of changes the disk holds what the program sees.\<close>

definition settled :: "'a bm_scheme \<Rightarrow> bool" where
  "settled s \<longleftrightarrow> (\<forall>b. data_blk s b \<longrightarrow> disk_block s b = view s b)"

lemma no_owners_settled:
  assumes "bm_inv s" "owners s = {}"
  shows "settled s"
  unfolding settled_def
proof (intro allI impI)
  fix b assume b: "data_blk s b"
  have nd: "no_dup (pool s)" using assms(1) by (simp add: bm_inv_def)
  show "disk_block s b = view s b"
  proof (cases "\<exists>i < length (pool s). buf_blk (pool s ! i) = b")
    case True
    then obtain i where i: "i < length (pool s)" "buf_blk (pool s ! i) = b" by blast
    have "buf_txnum (pool s ! i) < 0"
    proof (rule ccontr)
      assume "\<not> buf_txnum (pool s ! i) < 0"
      then have "buf_txnum (pool s ! i) \<in> owners s"
        using i(1) by (auto simp: owners_def)
      with assms(2) show False by simp
    qed
    then have "buf_page (pool s ! i) = disk_block s b"
      using bm_invD [OF assms(1) i(1)] i(2) b by (auto simp: buf_ok_def)
    with view_cached(2) [OF nd i b] show ?thesis by simp
  next
    case False
    then show ?thesis using view_uncached(2) [of s b] by simp
  qed
qed

text \<open>What a client does to a pinned buffer: it changes the page and calls \<open>setModified\<close>.\<close>

definition bm_modify :: "nat \<Rightarrow> bytes \<Rightarrow> int \<Rightarrow> int \<Rightarrow> 'a bm_scheme \<Rightarrow> 'a bm_scheme" where
  "bm_modify i p txnum lsn = upd_buf i (\<lambda>b. buf_setModified txnum lsn (b\<lparr>buf_page := p\<rparr>))"

lemma bm_modify_spec:
  assumes "bm_log s base rs dur" "i < length (pool s)" "data_blk s (buf_blk (pool s ! i))"
    "int (length p) = blocksize s" "0 \<le> txnum" "lsn \<le> latestLsn s"
  defines "s' \<equiv> bm_modify i p txnum lsn s"
  shows "bm_log s' base rs dur" "pool s' = (pool s)[i := buf_setModified txnum lsn ((pool s ! i)\<lparr>buf_page := p\<rparr>)]"
    "\<And>b. data_blk s b \<Longrightarrow> view s' b = (if b = buf_blk (pool s ! i) then p else view s b)"
proof -
  let ?b = "buf_setModified txnum lsn ((pool s ! i)\<lparr>buf_page := p\<rparr>)"
  have inv: "bm_inv s" using assms(1) by (simp add: bm_log_def)
  have nd: "no_dup (pool s)" using inv by (simp add: bm_inv_def)
  have ok: "buf_ok s (pool s ! i)" using bm_invD [OF inv assms(2)] .
  show pool': "pool s' = (pool s)[i := ?b]"
    by (simp add: s'_def bm_modify_def)
  have "bm_inv s'"
    unfolding s'_def bm_modify_def using ok assms(3-6)
    by (intro bm_inv_upd_buf inv assms(2)) (auto simp: buf_ok_def buf_setModified_def buf_isPinned_def)
  then show "bm_log s' base rs dur"
    using assms(1) by (simp add: bm_log_def s'_def bm_modify_def)
  have blk': "buf_blk (pool s' ! j) = buf_blk (pool s ! j)" for j
    using assms(2) by (cases "j = i") (simp_all add: pool' buf_setModified_def)
  have nd': "no_dup (pool s')"
    using \<open>bm_inv s'\<close> by (simp add: bm_inv_def)
  show "view s' b = (if b = buf_blk (pool s ! i) then p else view s b)" if b: "data_blk s b" for b
  proof (cases "\<exists>j < length (pool s). buf_blk (pool s ! j) = b")
    case True
    then obtain j where j: "j < length (pool s)" "buf_blk (pool s ! j) = b" by blast
    have "data_blk s' b" "j < length (pool s')" "buf_blk (pool s' ! j) = b"
      using b j(1) blk' j(2) by (simp_all add: s'_def bm_modify_def)
    note v = view_cached(2) [OF nd' this(2,3,1)] view_cached(2) [OF nd j b]
    have "j = i" if "b = buf_blk (pool s ! i)"
      using nd j that assms(2) b unfolding no_dup_def by (metis null_not_data)
    with v j assms(2) show ?thesis
      by (cases "j = i") (auto simp: pool' buf_setModified_def)
  next
    case False
    then have "\<forall>j < length (pool s'). buf_blk (pool s' ! j) \<noteq> b"
      by (simp add: blk') (simp add: pool')
    from view_uncached(2) [OF this] view_uncached(2) [of s b] False assms(2) show ?thesis
      by (auto simp: s'_def bm_modify_def)
  qed
qed

section \<open>Histories of the pool\<close>

text \<open>
  What threads do to the pool, each step under its mutex: attempts to pin, unpins of pinned
  buffers, changes of pinned pages with an LSN the log has given out, flushes, and appends to
  the log.
\<close>

inductive bm_step :: "bm \<Rightarrow> bm \<Rightarrow> bool" where
  step_pin: "data_blk s blk \<Longrightarrow> bm_tryToPin blk s = (r, s') \<Longrightarrow> bm_step s s'"
| step_unpin: "i < length (pool s) \<Longrightarrow> buf_isPinned (pool s ! i) \<Longrightarrow> bm_unpin i s = (r, s') \<Longrightarrow> bm_step s s'"
| step_modify: "i < length (pool s) \<Longrightarrow> buf_isPinned (pool s ! i) \<Longrightarrow> int (length p) = blocksize s \<Longrightarrow>
    0 \<le> txnum \<Longrightarrow> lsn \<le> latestLsn s \<Longrightarrow> bm_step s (bm_modify i p txnum lsn s)"
| step_flushAll: "0 \<le> txnum \<Longrightarrow> bm_flushAll txnum s = (r, s') \<Longrightarrow> bm_step s s'"
| step_append: "int (length rec) + 8 \<le> blocksize s \<Longrightarrow> lm_append rec s = (r, s') \<Longrightarrow> bm_step s s'"

lemma pinned_data_blk:
  "bm_inv s \<Longrightarrow> i < length (pool s) \<Longrightarrow> buf_isPinned (pool s ! i) \<Longrightarrow> data_blk s (buf_blk (pool s ! i))"
  using bm_invD by (fastforce simp: buf_ok_def buf_isPinned_def)

lemma bm_step_log:
  assumes "bm_step s s'" "bm_log s base rs dur"
  shows "\<exists>rs' dur'. bm_log s' base rs' dur' \<and> length (pool s') = length (pool s)"
  using assms
proof (cases rule: bm_step.cases)
  case (step_pin blk r)
  then show ?thesis
    using bm_tryToPin_spec [OF assms(2) step_pin(1)] by (fastforce simp: bm_frame_defs)
next
  case (step_unpin i r)
  then show ?thesis
    using bm_unpin_spec [OF assms(2) step_unpin(1,2)] by fastforce
next
  case (step_modify i p txnum lsn)
  have "data_blk s (buf_blk (pool s ! i))"
    using step_modify assms(2) by (auto simp: bm_log_def intro!: pinned_data_blk)
  from bm_modify_spec [OF assms(2) step_modify(2) this step_modify(4-6)] step_modify(1) show ?thesis
    by fastforce
next
  case (step_flushAll txnum r)
  then show ?thesis
    using bm_flushAll_spec [OF assms(2) step_flushAll(1)] by fastforce
next
  case (step_append r' r)
  have log: "log_state s base rs dur" and inv: "bm_inv s"
    using assms(2) by (auto simp: bm_log_def)
  from log_state_append [OF log step_append(1)] obtain dur' where
    "log_state s' base (rs @ [r']) dur'" "log_frame s s'" "latestLsn s' = latestLsn s + 1"
    using step_append(2) by auto
  with log_frame_inv [OF this(2) _ inv] log_frame_bm(1) [OF this(2)] show ?thesis
    by (auto simp: bm_log_def)
qed

lemma bm_steps_log:
  "bm_step\<^sup>*\<^sup>* s s' \<Longrightarrow> bm_log s base rs dur \<Longrightarrow>
    \<exists>rs' dur'. bm_log s' base rs' dur' \<and> length (pool s') = length (pool s)"
proof (induction rule: rtranclp_induct)
  case (step y z)
  then obtain rs1 dur1 where "bm_log y base rs1 dur1" "length (pool y) = length (pool s)" by blast
  with bm_step_log [OF step(2) this(1)] show ?case by auto
qed auto

definition bm_of :: "int \<Rightarrow> lm \<Rightarrow> bm" where
  "bm_of k s = \<lparr>blocksize = blocksize s, isNew = isNew s, files = files s, failed = failed s,
     logFileName = logFileName s, logPage = logPage s, currBlk = currBlk s, latestLsn = latestLsn s,
     lastSaveLsn = lastSaveLsn s, pool = replicate (nat k) (buf_new (blocksize s)), numAvailable = k\<rparr>"

lemma bm_init_eq: "bm_init k s = bm_of k s"
  by (simp add: bm_init_def bm_of_def lm.extend_def bm.fields_def)

lemma bm_init_log:
  assumes "log_state s base rs dur" "- 1 \<le> latestLsn s" "0 \<le> k"
  shows "bm_log (bm_init k s) base rs dur" "pool (bm_init k s) = replicate (nat k) (buf_new (blocksize s))"
    "blocksize (bm_init k s) = blocksize s" "logFileName (bm_init k s) = logFileName s"
proof -
  have c: "unpinned_count (replicate n (buf_new b)) = int n" for n b
    by (simp add: unpinned_count_def buf_new_def buf_isPinned_def)
  have "fm_inv s" using assms(1) by (rule log_state_fm_inv)
  then have "buf_ok (bm_of k s) (buf_new (blocksize s))"
    using assms(2) by (simp add: buf_ok_def buf_new_def bm_of_def fm_inv_def)
  moreover have "log_state (bm_of k s) base rs dur"
    using assms(1) by (subst log_state_cong [of _ s]) (simp_all add: bm_of_def file_bytes_def)
  moreover have "no_dup (replicate (nat k) (buf_new (blocksize s)))"
    by (simp add: no_dup_def buf_new_def)
  ultimately show "bm_log (bm_init k s) base rs dur"
    using assms(3) by (simp add: bm_log_def bm_init_eq bm_inv_def) (simp add: bm_of_def c)
qed (simp_all add: bm_init_eq bm_of_def)

lemma fresh_pool:
  assumes "fm_inv f" "4 \<le> blocksize f" "blocksize f < 2 ^ 31" "fm_length n f = 0" "0 \<le> k"
  shows "bm_log (bm_init k (snd (lm_init n f))) 0 [] []"
    "pool (bm_init k (snd (lm_init n f))) = replicate (nat k) (buf_new (blocksize f))"
    "blocksize (bm_init k (snd (lm_init n f))) = blocksize f" "logFileName (bm_init k (snd (lm_init n f))) = n"
proof -
  obtain l where l: "lm_init n f = (Inr (), l)" "log_state l 0 [] []" "blocksize l = blocksize f" "latestLsn l = 0"
      "logFileName l = n"
    using lm_init_fresh [OF assms(1-4)] by blast
  then have "- 1 \<le> latestLsn l" by simp
  from bm_init_log [OF l(2) this assms(5)] l
  show "bm_log (bm_init k (snd (lm_init n f))) 0 [] []"
    "pool (bm_init k (snd (lm_init n f))) = replicate (nat k) (buf_new (blocksize f))"
    "blocksize (bm_init k (snd (lm_init n f))) = blocksize f" "logFileName (bm_init k (snd (lm_init n f))) = n"
    by simp_all
qed

section \<open>Properties\<close>

text \<open>
  C5. After any history of pins, unpins, changes, flushes and log appends, no block is held by
  two buffers and \<open>available()\<close> is the number of unpinned buffers, between none and all.
\<close>

theorem buffer_pool_invariant:
  assumes "fm_inv f" "fm_length n f = 0" "4 \<le> blocksize f" "blocksize f < 2 ^ 31" "0 \<le> k"
    and "bm_step\<^sup>*\<^sup>* (bm_init k (snd (lm_init n f))) s"
  shows "no_dup (pool s) \<and> bm_available s = int (length (filter (\<lambda>b. \<not> buf_isPinned b) (pool s))) \<and>
    0 \<le> bm_available s \<and> bm_available s \<le> k"
proof -
  note p = fresh_pool [OF assms(1,3,4,2,5)]
  from bm_steps_log [OF assms(6) p(1)] p(2) assms(5) have inv: "bm_inv s" and len: "length (pool s) = nat k"
    by (auto simp: bm_log_def)
  have "length (filter (\<lambda>b. \<not> buf_isPinned b) (pool s)) \<le> nat k"
    unfolding len [symmetric] by (rule length_filter_le)
  with inv assms(5) show ?thesis
    by (simp add: bm_inv_def unpinned_count_def bm_available_def)
qed

definition pool_example :: bm where
  "pool_example = bm_init 2 (snd (lm_init ''log'' (fm_init None 32)))"

lemma pool_example_log: "bm_log pool_example 0 [] []" "data_blk pool_example (BlockId ''t'' 3)"
    "blocksize pool_example = 32" "length (pool pool_example) = 2"
  using fresh_pool [of "fm_init None 32" "''log''" 2]
  by (simp_all add: fm_inv_empty pool_example_def data_blk_def)

theorem buffer_pool_invariant_witness:
  "let s = snd (bm_tryToPin (BlockId ''t'' 3) pool_example)
   in no_dup (pool s) \<and> bm_available s = int (length (filter (\<lambda>b. \<not> buf_isPinned b) (pool s))) \<and>
    0 \<le> bm_available s \<and> bm_available s \<le> 2"
proof -
  have "bm_step pool_example (snd (bm_tryToPin (BlockId ''t'' 3) pool_example))"
    by (rule step_pin [OF pool_example_log(2) prod.collapse [symmetric]])
  then show ?thesis
    unfolding Let_def
    by (intro buffer_pool_invariant [of "fm_init None 32" "''log''" 2])
      (simp_all add: fm_inv_empty r_into_rtranclp flip: pool_example_def)
qed

text \<open>
  C6. The pool is transparent: a pin returns a buffer of the block whose page is the newest
  contents of that block, whatever was replaced for it, and changes the contents of no
  block; it throws, without waiting, only when no buffer is free and none holds the block.
\<close>

theorem pin_shows_latest_contents:
  assumes "bm_log s base rs dur" "data_blk s blk"
  shows "case bm_pin blk [] s of
      (Inr i, s') \<Rightarrow> buf_blk (pool s' ! i) = blk \<and> buf_isPinned (pool s' ! i) \<and> buf_page (pool s' ! i) = view s blk \<and>
        (\<forall>b. data_blk s b \<longrightarrow> view s' b = view s b)
    | (Inl e, s') \<Rightarrow> e = Throw ''BufferMgr: No available buffer'' \<and> s' = s \<and> bm_available s = 0 \<and>
        (\<forall>b \<in> set (pool s). buf_blk b \<noteq> blk)"
proof -
  from bm_tryToPin_spec [OF assms] obtain r s' d where
    r: "bm_tryToPin blk s = (Inr r, s')" "bm_frame d s s'"
      "case r of None \<Rightarrow> s' = s \<and> numAvailable s = 0 \<and> (\<forall>b \<in> set (pool s). buf_blk b \<noteq> blk)
       | Some i \<Rightarrow> pinned_at s s' blk i" by blast
  then show ?thesis
    by (cases r) (auto simp: bm_pin_no_wait pinned_at_def buf_isPinned_def bm_frame_defs bm_available_def)
qed

theorem pin_shows_latest_contents_witness:
  "case bm_pin (BlockId ''t'' 3) [] pool_example of
      (Inr i, s') \<Rightarrow> buf_blk (pool s' ! i) = BlockId ''t'' 3 \<and> buf_isPinned (pool s' ! i) \<and>
        buf_page (pool s' ! i) = view pool_example (BlockId ''t'' 3) \<and>
        (\<forall>b. data_blk pool_example b \<longrightarrow> view s' b = view pool_example b)
    | (Inl e, s') \<Rightarrow> e = Throw ''BufferMgr: No available buffer'' \<and> s' = pool_example \<and> bm_available pool_example = 0 \<and>
        (\<forall>b \<in> set (pool pool_example). buf_blk b \<noteq> BlockId ''t'' 3)"
  by (rule pin_shows_latest_contents [OF pool_example_log(1,2)])


definition pool_modified :: bm where
  "pool_modified = bm_modify 0 (replicate 32 (CHR ''x'')) 1 0 (snd (bm_tryToPin (BlockId ''t'' 3) pool_example))"


end
