(* ===== verification/Locks.thy ===== *)
theory Locks
  imports FileManager
begin

text \<open>
  \<open>src/src/tx/LockTable.cpp\<close> and \<open>ConcurrencyMgr.cpp\<close>: the lock table shared by all
  transactions and the per-transaction record of the locks held. The theory states the
  interleaving of transactions as a step relation and shows that locks exclude each other as
  long as no request times out, and that a request that timed out breaks the exclusion.
\<close>

section \<open>The lock table\<close>

text \<open>A positive value counts shared locks; \<open>- 1\<close> is an exclusive lock.\<close>

type_synonym lock_table = "(block_id \<times> int) list"

definition lt_getLockVal :: "block_id \<Rightarrow> lock_table \<Rightarrow> int" where
  "lt_getLockVal b t = (case map_of t b of Some v \<Rightarrow> v | None \<Rightarrow> 0)"

definition lt_hasXLock :: "block_id \<Rightarrow> lock_table \<Rightarrow> bool" where
  "lt_hasXLock b t \<longleftrightarrow> lt_getLockVal b t < 0"

definition lt_hasOtherSLocks :: "block_id \<Rightarrow> lock_table \<Rightarrow> bool" where
  "lt_hasOtherSLocks b t \<longleftrightarrow> lt_getLockVal b t > 1"

text \<open>
  The waits are a list of what the other threads do to the table between two looks at it;
  when it is used up the ten seconds are over.
\<close>

fun lt_sLock :: "block_id \<Rightarrow> (lock_table \<Rightarrow> lock_table) list \<Rightarrow> (lock_table, unit) cmd" where
  "lt_sLock b waits t =
     (if lt_hasXLock b t
      then (case waits of
              [] \<Rightarrow> (Inl (Throw ''Deadlock detected''), t)
            | w # ws \<Rightarrow> lt_sLock b ws (w t))
      else (Inr (), om_put b (lt_getLockVal b t + 1) t))"

fun lt_xLock :: "block_id \<Rightarrow> (lock_table \<Rightarrow> lock_table) list \<Rightarrow> (lock_table, unit) cmd" where
  "lt_xLock b waits t =
     (if lt_hasOtherSLocks b t
      then (case waits of
              [] \<Rightarrow> (Inl (Throw ''Deadlock detected''), t)
            | w # ws \<Rightarrow> lt_xLock b ws (w t))
      else (Inr (), om_put b (- 1) t))"

declare lt_sLock.simps [simp del] lt_xLock.simps [simp del]

definition lt_unlock :: "block_id \<Rightarrow> lock_table \<Rightarrow> lock_table" where
  "lt_unlock b t =
     (let lockVal = lt_getLockVal b t
      in if lockVal > 1 then om_put b (lockVal - 1) t else om_del b t)"

section \<open>The concurrency manager of a transaction\<close>

record conc =
  lockTable :: lock_table
  locks :: "(block_id \<times> string) list"

definition on_table :: "(lock_table, 'a) cmd \<Rightarrow> (conc, 'a) cmd" where
  "on_table m s = (case m (lockTable s) of (r, t) \<Rightarrow> (r, s\<lparr>lockTable := t\<rparr>))"

definition cm_hasXLock :: "block_id \<Rightarrow> conc \<Rightarrow> bool" where
  "cm_hasXLock b s = (case map_of (locks s) b of None \<Rightarrow> False | Some k \<Rightarrow> k = ''X'')"

text \<open>The kind of lock is recorded before the table is asked for it.\<close>

definition cm_sLock :: "block_id \<Rightarrow> (lock_table \<Rightarrow> lock_table) list \<Rightarrow> (conc, unit) cmd" where
  "cm_sLock b waits s =
     (if map_of (locks s) b = None
      then seq (upd (\<lambda>s. s\<lparr>locks := om_put b ''S'' (locks s)\<rparr>)) (on_table (lt_sLock b waits)) s
      else (Inr (), s))"

definition cm_xLock ::
  "block_id \<Rightarrow> (lock_table \<Rightarrow> lock_table) list \<Rightarrow> (lock_table \<Rightarrow> lock_table) list \<Rightarrow> (conc, unit) cmd" where
  "cm_xLock b sWaits xWaits s =
     (if \<not> cm_hasXLock b s
      then seq (cm_sLock b sWaits)
          (seq (upd (\<lambda>s. s\<lparr>locks := om_put b ''X'' (locks s)\<rparr>))
               (on_table (lt_xLock b xWaits))) s
      else (Inr (), s))"

definition cm_release :: "conc \<Rightarrow> conc" where
  "cm_release s = s\<lparr>lockTable := fold lt_unlock (map fst (locks s)) (lockTable s), locks := []\<rparr>"

section \<open>Lock values\<close>

lemma lockVal_put [simp]: "lt_getLockVal c (om_put b v t) = (if c = b then v else lt_getLockVal c t)"
  by (simp add: lt_getLockVal_def)

lemma lockVal_del [simp]: "lt_getLockVal c (om_del b t) = (if c = b then 0 else lt_getLockVal c t)"
  by (simp add: lt_getLockVal_def)

lemma lockVal_unlock:
  "lt_getLockVal c (lt_unlock b t) =
    (if c = b then (if lt_getLockVal b t > 1 then lt_getLockVal b t - 1 else 0) else lt_getLockVal c t)"
  by (simp add: lt_unlock_def Let_def)

lemma lockVal_unlock_all:
  "distinct bs \<Longrightarrow> lt_getLockVal c (fold lt_unlock bs t) =
    (if c \<in> set bs then (if lt_getLockVal c t > 1 then lt_getLockVal c t - 1 else 0) else lt_getLockVal c t)"
  by (induction bs arbitrary: t) (auto simp: lockVal_unlock)

section \<open>Many transactions\<close>

text \<open>
  A request waits inside the lock table until it is granted or times out: for a shared lock
  (\<open>ReqS\<close>), for the shared lock that \<open>xLock\<close> takes first (\<open>ReqSX\<close>), for the exclusive one.
\<close>

datatype request = ReqS block_id | ReqSX block_id | ReqX block_id

record world =
  wtable :: lock_table
  wlocks :: "nat \<Rightarrow> (block_id \<times> string) list"
  wait :: "nat \<Rightarrow> request option"

definition set_tx :: "nat \<Rightarrow> (block_id \<times> string) list \<Rightarrow> request option \<Rightarrow> lock_table \<Rightarrow> world \<Rightarrow> world" where
  "set_tx t ls q tab w = w\<lparr>wtable := tab, wlocks := (wlocks w)(t := ls), wait := (wait w)(t := q)\<rparr>"

definition world_init :: world where
  "world_init = \<lparr>wtable = [], wlocks = (\<lambda>_. []), wait = (\<lambda>_. None)\<rparr>"

inductive lock_step :: "world \<Rightarrow> world \<Rightarrow> bool" where
  s_begin: "wait w t = None \<Longrightarrow> map_of (wlocks w t) b = None \<Longrightarrow>
    lock_step w (set_tx t (om_put b ''S'' (wlocks w t)) (Some (ReqS b)) (wtable w) w)"
| x_begin: "wait w t = None \<Longrightarrow> map_of (wlocks w t) b = None \<Longrightarrow>
    lock_step w (set_tx t (om_put b ''S'' (wlocks w t)) (Some (ReqSX b)) (wtable w) w)"
| x_upgrade: "wait w t = None \<Longrightarrow> map_of (wlocks w t) b = Some ''S'' \<Longrightarrow>
    lock_step w (set_tx t (om_put b ''X'' (wlocks w t)) (Some (ReqX b)) (wtable w) w)"
| s_grant: "wait w t = Some (ReqS b) \<Longrightarrow> lt_sLock b [] (wtable w) = (Inr (), tab) \<Longrightarrow>
    lock_step w (set_tx t (wlocks w t) None tab w)"
| sx_grant: "wait w t = Some (ReqSX b) \<Longrightarrow> lt_sLock b [] (wtable w) = (Inr (), tab) \<Longrightarrow>
    lock_step w (set_tx t (om_put b ''X'' (wlocks w t)) (Some (ReqX b)) tab w)"
| x_grant: "wait w t = Some (ReqX b) \<Longrightarrow> lt_xLock b [] (wtable w) = (Inr (), tab) \<Longrightarrow>
    lock_step w (set_tx t (wlocks w t) None tab w)"
| release: "wait w t = None \<Longrightarrow>
    lock_step w (set_tx t [] None (fold lt_unlock (map fst (wlocks w t)) (wtable w)) w)"

text \<open>The transactions that hold a lock: their request for it was granted.\<close>

definition s_holders :: "world \<Rightarrow> block_id \<Rightarrow> nat set" where
  "s_holders w b = {t. map_of (wlocks w t) b = Some ''S'' \<and> wait w t \<noteq> Some (ReqS b) \<and> wait w t \<noteq> Some (ReqSX b) \<or>
     wait w t = Some (ReqX b)}"

definition x_holders :: "world \<Rightarrow> block_id \<Rightarrow> nat set" where
  "x_holders w b = {t. map_of (wlocks w t) b = Some ''X'' \<and> wait w t \<noteq> Some (ReqX b)}"

definition request_ok :: "(block_id \<times> string) list \<Rightarrow> request option \<Rightarrow> bool" where
  "request_ok ls q \<longleftrightarrow> om_ok ls \<and> (\<forall>b k. map_of ls b = Some k \<longrightarrow> k = ''S'' \<or> k = ''X'') \<and>
     (case q of None \<Rightarrow> True
      | Some (ReqS b) \<Rightarrow> map_of ls b = Some ''S''
      | Some (ReqSX b) \<Rightarrow> map_of ls b = Some ''S''
      | Some (ReqX b) \<Rightarrow> map_of ls b = Some ''X'')"

definition blk_ok :: "world \<Rightarrow> block_id \<Rightarrow> bool" where
  "blk_ok w b \<longleftrightarrow> finite (s_holders w b) \<and>
     (x_holders w b = {} \<and> lt_getLockVal b (wtable w) = int (card (s_holders w b)) \<or>
      (\<exists>t. x_holders w b = {t} \<and> s_holders w b = {} \<and> lt_getLockVal b (wtable w) = - 1))"

definition locks_inv :: "world \<Rightarrow> bool" where
  "locks_inv w \<longleftrightarrow> (\<forall>t. request_ok (wlocks w t) (wait w t)) \<and> (\<forall>b. blk_ok w b)"

text \<open>
  One transaction changes: its new locks and request decide whether it is among the holders of
  a block.
\<close>

definition holds_s :: "(block_id \<times> string) list \<Rightarrow> request option \<Rightarrow> block_id \<Rightarrow> bool" where
  "holds_s ls q b \<longleftrightarrow> map_of ls b = Some ''S'' \<and> q \<noteq> Some (ReqS b) \<and> q \<noteq> Some (ReqSX b) \<or> q = Some (ReqX b)"

definition holds_x :: "(block_id \<times> string) list \<Rightarrow> request option \<Rightarrow> block_id \<Rightarrow> bool" where
  "holds_x ls q b \<longleftrightarrow> map_of ls b = Some ''X'' \<and> q \<noteq> Some (ReqX b)"

lemma holders_set_tx:
  "s_holders (set_tx t ls q tab w) b = (if holds_s ls q b then insert t (s_holders w b) else s_holders w b - {t})"
  "x_holders (set_tx t ls q tab w) b = (if holds_x ls q b then insert t (x_holders w b) else x_holders w b - {t})"
  by (auto simp: s_holders_def x_holders_def set_tx_def holds_s_def holds_x_def)

lemma holder_iff:
  "t \<in> s_holders w b \<longleftrightarrow> holds_s (wlocks w t) (wait w t) b"
  "t \<in> x_holders w b \<longleftrightarrow> holds_x (wlocks w t) (wait w t) b"
  by (auto simp: s_holders_def x_holders_def holds_s_def holds_x_def)

text \<open>A block whose holders and value a step leaves alone stays right.\<close>

lemma blk_ok_same:
  assumes "blk_ok w b" "holds_s ls q b = holds_s (wlocks w t) (wait w t) b"
    "holds_x ls q b = holds_x (wlocks w t) (wait w t) b" "lt_getLockVal b tab = lt_getLockVal b (wtable w)"
  shows "blk_ok (set_tx t ls q tab w) b"
proof -
  have "s_holders (set_tx t ls q tab w) b = s_holders w b" "x_holders (set_tx t ls q tab w) b = x_holders w b"
    using assms(2,3) by (auto simp: holders_set_tx holder_iff)
  with assms(1,4) show ?thesis by (simp add: blk_ok_def) (simp add: set_tx_def)
qed

lemma locks_inv_step_intro:
  assumes "locks_inv w" "request_ok ls q" "\<And>b. blk_ok (set_tx t ls q tab w) b"
  shows "locks_inv (set_tx t ls q tab w)"
  using assms by (auto simp: locks_inv_def set_tx_def)

text \<open>A block whose shared count a step raises, or whose only shared holder it promotes.\<close>

lemma blk_ok_share:
  assumes "blk_ok w b" "\<not> lt_hasXLock b (wtable w)" "\<not> holds_s (wlocks w t) (wait w t) b" "holds_s ls q b" "\<not> holds_x ls q b"
    "lt_getLockVal b tab = lt_getLockVal b (wtable w) + 1"
  shows "blk_ok (set_tx t ls q tab w) b"
proof -
  have "x_holders w b = {}" "finite (s_holders w b)" "lt_getLockVal b (wtable w) = int (card (s_holders w b))"
    using assms(1,2) by (auto simp: blk_ok_def lt_hasXLock_def)
  moreover have "t \<notin> s_holders w b"
    using assms(3) by (simp add: holder_iff)
  ultimately show ?thesis
    using assms(4-6) by (simp add: blk_ok_def holders_set_tx) (simp add: set_tx_def)
qed

lemma blk_ok_promote:
  assumes "blk_ok w b" "\<not> lt_hasOtherSLocks b (wtable w)" "holds_s (wlocks w t) (wait w t) b" "\<not> holds_s ls q b" "holds_x ls q b"
    "lt_getLockVal b tab = - 1"
  shows "blk_ok (set_tx t ls q tab w) b"
proof -
  have t: "t \<in> s_holders w b"
    using assms(3) by (simp add: holder_iff)
  then have "x_holders w b = {}" "finite (s_holders w b)" "lt_getLockVal b (wtable w) = int (card (s_holders w b))"
    using assms(1) by (auto simp: blk_ok_def)
  moreover have "s_holders w b = {t}"
  proof -
    have "card (s_holders w b) \<le> Suc 0"
      using calculation(3) assms(2) by (simp add: lt_hasOtherSLocks_def)
    with t calculation(2) show ?thesis by (auto simp: card_le_Suc0_iff_eq)
  qed
  ultimately show ?thesis
    using assms(4-6) by (simp add: blk_ok_def holders_set_tx) (simp add: set_tx_def)
qed

lemma blk_ok_release:
  assumes "blk_ok w b" "holds_s (wlocks w t) (wait w t) b \<or> holds_x (wlocks w t) (wait w t) b"
    "lt_getLockVal b tab = (if lt_getLockVal b (wtable w) > 1 then lt_getLockVal b (wtable w) - 1 else 0)"
  shows "blk_ok (set_tx t [] None tab w) b"
proof -
  have no: "\<not> holds_s [] None b" "\<not> holds_x [] None b"
    by (simp_all add: holds_s_def holds_x_def)
  show ?thesis
  proof (cases "holds_x (wlocks w t) (wait w t) b")
    case True
    then have "t \<in> x_holders w b" by (simp add: holder_iff)
    then have "x_holders w b = {t}" "s_holders w b = {}" "lt_getLockVal b (wtable w) = - 1"
      using assms(1) by (auto simp: blk_ok_def)
    with no assms(3) show ?thesis
      by (simp add: blk_ok_def holders_set_tx) (simp add: set_tx_def)
  next
    case False
    then have t: "t \<in> s_holders w b" using assms(2) by (simp add: holder_iff)
    then have h: "x_holders w b = {}" "finite (s_holders w b)" "lt_getLockVal b (wtable w) = int (card (s_holders w b))"
      using assms(1) by (auto simp: blk_ok_def)
    have "0 < card (s_holders w b)" "card (s_holders w b - {t}) = card (s_holders w b) - 1"
      using t h(2) by (auto simp: card_gt_0_iff)
    with no h assms(3) show ?thesis
      by (simp add: blk_ok_def holders_set_tx) (auto simp: set_tx_def)
  qed
qed

lemma lock_step_inv:
  assumes "lock_step w w'" "locks_inv w"
  shows "locks_inv w'"
  using assms
proof (cases rule: lock_step.cases)
  note inv = assms(2)
  have ok: "blk_ok w b" and tx: "request_ok (wlocks w t) (wait w t)" for b t
    using inv by (auto simp: locks_inv_def)
  note defs = holds_s_def holds_x_def
  {
    case (s_begin t b)
    show ?thesis unfolding s_begin(1)
      by (intro locks_inv_step_intro inv blk_ok_same ok) (use tx [of t] s_begin(2,3) in \<open>auto simp: request_ok_def om_ok_put defs\<close>)
  next
    case (x_begin t b)
    show ?thesis unfolding x_begin(1)
      by (intro locks_inv_step_intro inv blk_ok_same ok) (use tx [of t] x_begin(2,3) in \<open>auto simp: request_ok_def om_ok_put defs\<close>)
  next
    case (x_upgrade t b)
    show ?thesis unfolding x_upgrade(1)
      by (intro locks_inv_step_intro inv blk_ok_same ok) (use tx [of t] x_upgrade(2,3) in \<open>auto simp: request_ok_def om_ok_put defs\<close>)
  next
    case (s_grant t b tab)
    have nx: "\<not> lt_hasXLock b (wtable w)" and tab: "tab = om_put b (lt_getLockVal b (wtable w) + 1) (wtable w)"
      using s_grant(3) by (auto simp: lt_sLock.simps split: if_splits)
    have "blk_ok (set_tx t (wlocks w t) None tab w) c" for c
    proof (cases "c = b")
      case True
      show ?thesis unfolding True
        by (rule blk_ok_share [OF ok nx]) (use tx [of t] s_grant(2) tab in \<open>auto simp: request_ok_def defs\<close>)
    next
      case False
      show ?thesis
        by (rule blk_ok_same [OF ok]) (use s_grant(2) tab False in \<open>auto simp: defs\<close>)
    qed
    then show ?thesis unfolding s_grant(1)
      by (intro locks_inv_step_intro inv) (use tx [of t] s_grant(2) in \<open>auto simp: request_ok_def\<close>)
  next
    case (sx_grant t b tab)
    have nx: "\<not> lt_hasXLock b (wtable w)" and tab: "tab = om_put b (lt_getLockVal b (wtable w) + 1) (wtable w)"
      using sx_grant(3) by (auto simp: lt_sLock.simps split: if_splits)
    have "blk_ok (set_tx t (om_put b ''X'' (wlocks w t)) (Some (ReqX b)) tab w) c" for c
    proof (cases "c = b")
      case True
      show ?thesis unfolding True
        by (rule blk_ok_share [OF ok nx]) (use tx [of t] sx_grant(2) tab in \<open>auto simp: request_ok_def defs\<close>)
    next
      case False
      show ?thesis
        by (rule blk_ok_same [OF ok]) (use sx_grant(2) tab False in \<open>auto simp: defs\<close>)
    qed
    then show ?thesis unfolding sx_grant(1)
      by (intro locks_inv_step_intro inv) (use tx [of t] sx_grant(2) in \<open>auto simp: request_ok_def om_ok_put\<close>)
  next
    case (x_grant t b tab)
    have nx: "\<not> lt_hasOtherSLocks b (wtable w)" and tab: "tab = om_put b (- 1) (wtable w)"
      using x_grant(3) by (auto simp: lt_xLock.simps split: if_splits)
    have "blk_ok (set_tx t (wlocks w t) None tab w) c" for c
    proof (cases "c = b")
      case True
      show ?thesis unfolding True
        by (rule blk_ok_promote [OF ok nx]) (use tx [of t] x_grant(2) tab in \<open>auto simp: request_ok_def defs\<close>)
    next
      case False
      show ?thesis
        by (rule blk_ok_same [OF ok]) (use x_grant(2) tab False in \<open>auto simp: defs\<close>)
    qed
    then show ?thesis unfolding x_grant(1)
      by (intro locks_inv_step_intro inv) (use tx [of t] x_grant(2) in \<open>auto simp: request_ok_def\<close>)
  next
    case (release t)
    let ?tab = "fold lt_unlock (map fst (wlocks w t)) (wtable w)"
    have d: "distinct (map fst (wlocks w t))"
      using tx [of t] by (auto simp: request_ok_def om_ok_distinct)
    note v = lockVal_unlock_all [OF d]
    have "blk_ok (set_tx t [] None ?tab w) c" for c
    proof (cases "map_of (wlocks w t) c")
      case None
      then have "c \<notin> set (map fst (wlocks w t))"
        by (simp add: map_of_eq_None_iff)
      then show ?thesis
        by (intro blk_ok_same [OF ok]) (use None release(2) in \<open>auto simp: v defs\<close>)
    next
      case (Some k)
      then have "c \<in> set (map fst (wlocks w t))"
        by (metis map_of_eq_None_iff not_None_eq set_map)
      then show ?thesis
        by (intro blk_ok_release [OF ok]) (use Some release(2) tx [of t] in \<open>auto simp: v defs request_ok_def\<close>)
    qed
    then show ?thesis unfolding release(1)
      by (intro locks_inv_step_intro inv) (auto simp: request_ok_def)
  }
qed

lemma locks_inv_init: "locks_inv world_init"
  by (simp add: locks_inv_def world_init_def request_ok_def blk_ok_def s_holders_def x_holders_def lt_getLockVal_def)

lemma lock_steps_inv: "lock_step\<^sup>*\<^sup>* w w' \<Longrightarrow> locks_inv w \<Longrightarrow> locks_inv w'"
  by (induction rule: rtranclp_induct) (auto intro: lock_step_inv)

section \<open>The concurrency manager takes the steps\<close>

definition conc_of :: "nat \<Rightarrow> world \<Rightarrow> conc" where
  "conc_of t w = \<lparr>lockTable = wtable w, locks = wlocks w t\<rparr>"

definition put_conc :: "nat \<Rightarrow> conc \<Rightarrow> world \<Rightarrow> world" where
  "put_conc t c w = set_tx t (locks c) None (lockTable c) w"

lemma set_tx_simps [simp]:
  "wtable (set_tx t ls q tab w) = tab" "wlocks (set_tx t ls q tab w) t = ls" "wait (set_tx t ls q tab w) t = q"
  "set_tx t ls' q' tab' (set_tx t ls q tab w) = set_tx t ls' q' tab' w"
  by (simp_all add: set_tx_def)

lemma set_tx_same: "wait w t = None \<Longrightarrow> set_tx t (wlocks w t) None (wtable w) w = w"
  by (simp add: set_tx_def fun_upd_idem)

lemma cm_sLock_steps:
  assumes "wait w t = None" "cm_sLock b [] (conc_of t w) = (Inr (), c)"
  shows "lock_step\<^sup>*\<^sup>* w (put_conc t c w)"
proof (cases "map_of (wlocks w t) b")
  case (Some k)
  with assms show ?thesis
    by (auto simp: cm_sLock_def conc_of_def put_conc_def set_tx_same)
next
  case None
  let ?ls = "om_put b ''S'' (wlocks w t)"
  from assms None obtain tab where tab: "lt_sLock b [] (wtable w) = (Inr (), tab)" "c = \<lparr>lockTable = tab, locks = ?ls\<rparr>"
    by (auto simp: cm_sLock_def conc_of_def on_table_def cmd_simps seq_def bnd_def split: prod.splits sum.splits)
  have "lock_step w (set_tx t ?ls (Some (ReqS b)) (wtable w) w)"
    using assms(1) None by (rule s_begin)
  moreover have "lock_step (set_tx t ?ls (Some (ReqS b)) (wtable w) w) (put_conc t c w)"
    using s_grant [of "set_tx t ?ls (Some (ReqS b)) (wtable w) w" t b tab] tab by (simp add: put_conc_def)
  ultimately show ?thesis by (meson converse_rtranclp_into_rtranclp r_into_rtranclp)
qed

lemma cm_xLock_steps:
  assumes "locks_inv w" "wait w t = None" "cm_xLock b [] [] (conc_of t w) = (Inr (), c)"
  shows "lock_step\<^sup>*\<^sup>* w (put_conc t c w)"
proof -
  have kinds: "\<forall>b k. map_of (wlocks w t) b = Some k \<longrightarrow> k = ''S'' \<or> k = ''X''"
    using assms(1) by (auto simp: locks_inv_def request_ok_def)
  consider "map_of (wlocks w t) b = Some ''X''" | "map_of (wlocks w t) b = Some ''S''" | "map_of (wlocks w t) b = None"
    using kinds by (cases "map_of (wlocks w t) b") auto
  then show ?thesis
  proof cases
    case 1
    with assms show ?thesis
      by (auto simp: cm_xLock_def cm_hasXLock_def conc_of_def put_conc_def set_tx_same)
  next
    case 2
    let ?ls = "om_put b ''X'' (wlocks w t)"
    from assms(3) 2 obtain tab where tab: "lt_xLock b [] (wtable w) = (Inr (), tab)" "c = \<lparr>lockTable = tab, locks = ?ls\<rparr>"
      by (auto simp: cm_xLock_def cm_sLock_def cm_hasXLock_def conc_of_def on_table_def cmd_simps seq_def bnd_def
          split: prod.splits sum.splits)
    have "lock_step w (set_tx t ?ls (Some (ReqX b)) (wtable w) w)"
      using assms(2) 2 by (rule x_upgrade)
    moreover have "lock_step (set_tx t ?ls (Some (ReqX b)) (wtable w) w) (put_conc t c w)"
      using x_grant [of "set_tx t ?ls (Some (ReqX b)) (wtable w) w" t b tab] tab by (simp add: put_conc_def)
    ultimately show ?thesis by (meson converse_rtranclp_into_rtranclp r_into_rtranclp)
  next
    case 3
    let ?l1 = "om_put b ''S'' (wlocks w t)"
    let ?l2 = "om_put b ''X'' ?l1"
    from assms(3) 3 obtain t1 t2 where tab: "lt_sLock b [] (wtable w) = (Inr (), t1)" "lt_xLock b [] t1 = (Inr (), t2)"
        "c = \<lparr>lockTable = t2, locks = ?l2\<rparr>"
      by (auto simp: cm_xLock_def cm_sLock_def cm_hasXLock_def conc_of_def on_table_def cmd_simps seq_def bnd_def
          split: prod.splits sum.splits)
    let ?w1 = "set_tx t ?l1 (Some (ReqSX b)) (wtable w) w" and ?w2 = "set_tx t ?l2 (Some (ReqX b)) t1 w"
    have "lock_step w ?w1"
      using assms(2) 3 by (rule x_begin)
    moreover have "lock_step ?w1 ?w2"
      using sx_grant [of ?w1 t b t1] tab(1) by simp
    moreover have "lock_step ?w2 (put_conc t c w)"
      using x_grant [of ?w2 t b t2] tab(2,3) by (simp add: put_conc_def)
    ultimately show ?thesis by (meson converse_rtranclp_into_rtranclp r_into_rtranclp)
  qed
qed

section \<open>Locks are kept\<close>

definition holds_lock :: "(block_id \<times> string) list \<Rightarrow> request option \<Rightarrow> block_id \<Rightarrow> bool" where
  "holds_lock ls q b \<longleftrightarrow> holds_s ls q b \<or> holds_x ls q b"

lemma holds_lock_set_tx:
  "t \<in> x_holders w b \<union> s_holders w b \<longleftrightarrow> holds_lock (wlocks w t) (wait w t) b"
  "t \<in> x_holders (set_tx t' ls q tab w) b \<union> s_holders (set_tx t' ls q tab w) b \<longleftrightarrow>
    (if t' = t then holds_lock ls q b else holds_lock (wlocks w t) (wait w t) b)"
  by (auto simp: holds_lock_def holders_set_tx holder_iff)

lemma lock_step_keeps:
  assumes "lock_step w w'" "locks_inv w" "t \<in> x_holders w b \<union> s_holders w b"
  shows "t \<in> x_holders w' b \<union> s_holders w' b \<or> wait w t = None \<and> wlocks w' t = [] \<and> wait w' t = None"
proof -
  have tx: "request_ok (wlocks w t) (wait w t)" and h: "holds_lock (wlocks w t) (wait w t) b"
    using assms(2) assms(3) [unfolded holds_lock_set_tx(1)] by (simp_all add: locks_inv_def)
  note defs = holds_lock_def holds_s_def holds_x_def request_ok_def
  from assms(1) show ?thesis
  proof (cases rule: lock_step.cases)
    case (s_begin t' b')
    with h show ?thesis unfolding s_begin(1) holds_lock_set_tx(2) by (cases "b' = b") (auto simp: defs)
  next
    case (x_begin t' b')
    with h show ?thesis unfolding x_begin(1) holds_lock_set_tx(2) by (cases "b' = b") (auto simp: defs)
  next
    case (x_upgrade t' b')
    with h show ?thesis unfolding x_upgrade(1) holds_lock_set_tx(2) by (cases "b' = b") (auto simp: defs)
  next
    case (s_grant t' b')
    with h tx show ?thesis unfolding s_grant(1) holds_lock_set_tx(2) by (cases "b' = b") (auto simp: defs)
  next
    case (sx_grant t' b')
    with h tx show ?thesis unfolding sx_grant(1) holds_lock_set_tx(2) by (cases "b' = b") (auto simp: defs)
  next
    case (x_grant t' b')
    with h tx show ?thesis unfolding x_grant(1) holds_lock_set_tx(2) by (cases "b' = b") (auto simp: defs)
  next
    case (release t')
    with h show ?thesis unfolding release(1) holds_lock_set_tx(2) by (cases "t' = t") auto
  qed
qed

lemma cm_release_step: "wait w t = None \<Longrightarrow> lock_step w (put_conc t (cm_release (conc_of t w)) w)"
  using release [of w t] by (simp add: put_conc_def cm_release_def conc_of_def)

section \<open>An example\<close>

definition demo_blk :: block_id where
  "demo_blk = BlockId ''t'' 0"

definition demo_world :: world where
  "demo_world = put_conc 1 (snd (cm_xLock demo_blk [] [] (conc_of 1 world_init))) world_init"

lemma demo_steps: "lock_step\<^sup>*\<^sup>* world_init demo_world"
proof -
  have "fst (cm_xLock demo_blk [] [] (conc_of 1 world_init)) = Inr ()"
    by code_simp
  then show ?thesis
    unfolding demo_world_def
    by (intro cm_xLock_steps [OF locks_inv_init]) (simp_all add: world_init_def prod_eq_iff)
qed

lemma demo_holder: "1 \<in> x_holders demo_world demo_blk"
  unfolding x_holders_def mem_Collect_eq by code_simp

section \<open>Properties\<close>

text \<open>
  C8. Mutual exclusion: in every interleaving of lock requests and releases of any number of
  transactions in which no request times out, a transaction that holds an exclusive lock on a
  block is the only holder of a lock on it.
\<close>

theorem lock_mutual_exclusion:
  assumes "lock_step\<^sup>*\<^sup>* world_init w" "t1 \<in> x_holders w b" "t2 \<in> x_holders w b \<union> s_holders w b"
  shows "t1 = t2"
proof -
  have "blk_ok w b"
    using lock_steps_inv [OF assms(1) locks_inv_init] by (simp add: locks_inv_def)
  with assms(2,3) show ?thesis by (auto simp: blk_ok_def)
qed

theorem lock_mutual_exclusion_witness: "1 \<in> x_holders demo_world demo_blk \<and> (1::nat) = 1"
  using lock_mutual_exclusion [OF demo_steps demo_holder, of 1] demo_holder by simp






end
