(* ===== verification/LogRecords.thy ===== *)
theory LogRecords
  imports FileManager
begin

text \<open>
  \<open>src/src/tx/LogRecord\<close>: the records that the recovery manager writes to the log, the bytes
  each \<open>writeToLog\<close> makes of them and \<open>createLogRecord\<close>, which reads them back. The theory
  shows that all kinds but \<open>SETSTRING\<close> survive the round trip, and what becomes of that one.
\<close>

section \<open>Records\<close>

datatype log_record =
    CheckpointRecord
  | StartRecord int
  | CommitRecord int
  | RollbackRecord int
  | SetIntRecord int block_id int int
  | SetStringRecord int block_id int string

fun lr_op :: "log_record \<Rightarrow> int" where
  "lr_op CheckpointRecord = 0"
| "lr_op (StartRecord _) = 1"
| "lr_op (CommitRecord _) = 2"
| "lr_op (RollbackRecord _) = 3"
| "lr_op (SetIntRecord _ _ _ _) = 4"
| "lr_op (SetStringRecord _ _ _ _) = 5"

fun lr_txNumber :: "log_record \<Rightarrow> int" where
  "lr_txNumber CheckpointRecord = - 1"
| "lr_txNumber (StartRecord t) = t"
| "lr_txNumber (CommitRecord t) = t"
| "lr_txNumber (RollbackRecord t) = t"
| "lr_txNumber (SetIntRecord t _ _ _) = t"
| "lr_txNumber (SetStringRecord t _ _ _) = t"

fun lr_toString :: "log_record \<Rightarrow> string" where
  "lr_toString CheckpointRecord = ''<CHECKPOINT>''"
| "lr_toString (StartRecord t) = ''<START, '' @ show_int t @ ''>''"
| "lr_toString (CommitRecord t) = ''<COMMIT, '' @ show_int t @ ''>''"
| "lr_toString (RollbackRecord t) = ''<ROLLBACK, '' @ show_int t @ ''>''"
| "lr_toString (SetIntRecord t b off v) =
     ''<SETINT, '' @ show_int t @ '', '' @ blk_toString b @ '', '' @ show_int off @ '', '' @ show_int v @ ''>''"
| "lr_toString (SetStringRecord t b off v) =
     ''<SETSTRING, '' @ show_int t @ '', '' @ blk_toString b @ '', '' @ show_int off @ '', '' @ v @ ''>''"

section \<open>Writing\<close>

text \<open>The \<open>writeToLog\<close> functions up to \<open>lm.append\<close>: the vector they fill through a page.\<close>

definition checkpoint_bytes :: "bytes outcome" where
  "checkpoint_bytes = setInt (page_new 4) 0 0"

definition start_bytes :: "int \<Rightarrow> bytes outcome" where
  "start_bytes txNum =
     (let tpos = 4; recSize = tpos + 4
      in rbind (setInt (page_new recSize) 0 1) (\<lambda>p. setInt p tpos txNum))"

definition commit_bytes :: "int \<Rightarrow> bytes outcome" where
  "commit_bytes txNum =
     (let tpos = 4; recSize = tpos + 4
      in rbind (setInt (page_new recSize) 0 2) (\<lambda>p. setInt p tpos txNum))"

definition rollback_bytes :: "int \<Rightarrow> bytes outcome" where
  "rollback_bytes txNum =
     (let tpos = 4; recSize = tpos + 4
      in rbind (setInt (page_new recSize) 0 3) (\<lambda>p. setInt p tpos txNum))"

definition setInt_bytes :: "int \<Rightarrow> block_id \<Rightarrow> int \<Rightarrow> int \<Rightarrow> bytes outcome" where
  "setInt_bytes txNum blk offset val =
     (let tpos = 4;
          fpos = tpos + 4;
          bpos = fpos + maxLength (int (length (fileName blk)));
          opos = bpos + 4;
          vpos = opos + 4;
          recSize = vpos + 4
      in rbind (setInt (page_new recSize) 0 4) (\<lambda>p.
         rbind (setInt p tpos txNum) (\<lambda>p.
         rbind (setString p fpos (fileName blk)) (\<lambda>p.
         rbind (setInt p bpos (number blk)) (\<lambda>p.
         rbind (setInt p opos offset) (\<lambda>p.
         setInt p vpos val))))))"

definition setString_bytes :: "int \<Rightarrow> block_id \<Rightarrow> int \<Rightarrow> string \<Rightarrow> bytes outcome" where
  "setString_bytes txNum blk offset str =
     (let tpos = 4;
          fpos = tpos + 4;
          bpos = fpos + maxLength (int (length (fileName blk)));
          opos = bpos + 4;
          vpos = opos + maxLength (int (length str));
          recSize = vpos + maxLength (int (length str))
      in rbind (setInt (page_new recSize) 0 5) (\<lambda>p.
         rbind (setInt p tpos txNum) (\<lambda>p.
         rbind (setString p fpos (fileName blk)) (\<lambda>p.
         rbind (setInt p bpos (number blk)) (\<lambda>p.
         rbind (setInt p opos offset) (\<lambda>p.
         setString p vpos str))))))"

section \<open>Reading\<close>

text \<open>The constructors from a page; \<open>createLogRecord\<close> returns a null pointer for other codes.\<close>

definition parse_start :: "bytes \<Rightarrow> log_record outcome" where
  "parse_start p = (let tpos = 4 in rbind (getInt p tpos) (\<lambda>t. Inr (StartRecord t)))"

definition parse_commit :: "bytes \<Rightarrow> log_record outcome" where
  "parse_commit p = (let tpos = 4 in rbind (getInt p tpos) (\<lambda>t. Inr (CommitRecord t)))"

definition parse_rollback :: "bytes \<Rightarrow> log_record outcome" where
  "parse_rollback p = (let tpos = 4 in rbind (getInt p tpos) (\<lambda>t. Inr (RollbackRecord t)))"

definition parse_setInt :: "bytes \<Rightarrow> log_record outcome" where
  "parse_setInt p =
     (let tpos = 4
      in rbind (getInt p tpos) (\<lambda>txNum.
         let fpos = tpos + 4
         in rbind (getString p fpos) (\<lambda>fn.
            let bpos = fpos + maxLength (int (length fn))
            in rbind (getInt p bpos) (\<lambda>blkNum.
               let opos = bpos + 4
               in rbind (getInt p opos) (\<lambda>offset.
                  let vpos = opos + 4
                  in rbind (getInt p vpos) (\<lambda>val.
                     Inr (SetIntRecord txNum (BlockId fn blkNum) offset val)))))))"

definition parse_setString :: "bytes \<Rightarrow> log_record outcome" where
  "parse_setString p =
     (let tpos = 4
      in rbind (getInt p tpos) (\<lambda>txNum.
         let fpos = tpos + 4
         in rbind (getString p fpos) (\<lambda>fn.
            let bpos = fpos + maxLength (int (length fn))
            in rbind (getInt p bpos) (\<lambda>blkNum.
               let opos = bpos + 4
               in rbind (getInt p opos) (\<lambda>offset.
                  let vpos = opos + 4
                  in rbind (getString p vpos) (\<lambda>str.
                     Inr (SetStringRecord txNum (BlockId fn blkNum) offset str)))))))"

definition createLogRecord :: "bytes \<Rightarrow> log_record option outcome" where
  "createLogRecord bs = rbind (getInt bs 0) (\<lambda>code.
     if code = 0 then Inr (Some CheckpointRecord)
     else if code = 1 then rbind (parse_start bs) (\<lambda>r. Inr (Some r))
     else if code = 2 then rbind (parse_commit bs) (\<lambda>r. Inr (Some r))
     else if code = 3 then rbind (parse_rollback bs) (\<lambda>r. Inr (Some r))
     else if code = 4 then rbind (parse_setInt bs) (\<lambda>r. Inr (Some r))
     else if code = 5 then rbind (parse_setString bs) (\<lambda>r. Inr (Some r))
     else Inr None)"

definition lr_bytes :: "log_record \<Rightarrow> bytes outcome" where
  "lr_bytes r =
     (case r of
        CheckpointRecord \<Rightarrow> checkpoint_bytes
      | StartRecord t \<Rightarrow> start_bytes t
      | CommitRecord t \<Rightarrow> commit_bytes t
      | RollbackRecord t \<Rightarrow> rollback_bytes t
      | SetIntRecord t b off v \<Rightarrow> setInt_bytes t b off v
      | SetStringRecord t b off v \<Rightarrow> setString_bytes t b off v)"

section \<open>Filling a page from the front\<close>

definition zeros :: "nat \<Rightarrow> bytes" where
  "zeros n = replicate n zero_byte"

lemma length_zeros [simp]: "length (zeros n) = n"
  by (simp add: zeros_def)

lemma zeros_add: "zeros (m + n) = zeros m @ zeros n"
  by (simp add: zeros_def replicate_add)

lemma page_new_zeros: "0 \<le> n \<Longrightarrow> page_new n = [] @ zeros (nat n)"
  by (simp add: page_new_def zeros_def)

lemma overwrite_zeros:
  assumes "length xs \<le> k" "i = length pre"
  shows "overwrite i xs (pre @ zeros k) = (pre @ xs) @ zeros (k - length xs)"
  using assms by (simp add: overwrite_def zeros_def)

lemma setInt_zeros:
  assumes "off = int (length pre)" "4 \<le> k" "int (length pre + k) < 2 ^ 31"
  shows "setInt (pre @ zeros k) off v = Inr ((pre @ int_bytes v) @ zeros (k - 4))"
  using int_field.put_eq [of off v "pre @ zeros k"] assms
  by (simp add: overwrite_zeros)

lemma setString_zeros:
  assumes "off = int (length pre)" "4 + length v \<le> k" "int (length pre + k) < 2 ^ 31"
  shows "setString (pre @ zeros k) off v = Inr ((pre @ str_bytes v) @ zeros (k - (4 + length v)))"
  using str_field.put_eq [of off v "pre @ zeros k"] assms
  by (simp add: overwrite_zeros)

lemma getInt_at:
  assumes "off = int (length pre)" "int32 v" "int (length (pre @ int_bytes v @ post)) < 2 ^ 31"
  shows "getInt (pre @ int_bytes v @ post) off = Inr v"
  by (rule int_field.get_eq) (use assms in \<open>auto simp: slice_def\<close>)

lemma getString_at:
  assumes "off = int (length pre)" "int (length (pre @ str_bytes v @ post)) < 2 ^ 31"
  shows "getString (pre @ str_bytes v @ post) off = Inr v"
  by (rule str_field.get_eq) (use assms in \<open>auto simp: slice_def\<close>)

section \<open>The bytes of a record\<close>

lemma tx_record_bytes:
  assumes "0 \<le> code" "code < 2 ^ 31"
  shows "rbind (setInt (page_new 8) 0 code) (\<lambda>p. setInt p 4 t) = Inr (int_bytes code @ int_bytes t)"
proof -
  have "setInt (page_new 8) 0 code = Inr (int_bytes code @ zeros 4)"
    using setInt_zeros [of 0 "[]" 8 code] page_new_zeros [of 8] by simp
  moreover have "setInt (int_bytes code @ zeros 4) 4 t = Inr (int_bytes code @ int_bytes t)"
    using setInt_zeros [of 4 "int_bytes code" 4 t] by (simp add: zeros_def)
  ultimately show ?thesis by simp
qed

lemma setInt_bytes_eq:
  assumes "int (length (fileName b)) + 24 < 2 ^ 31"
  shows "setInt_bytes t b off v = Inr (((((int_bytes 4 @ int_bytes t) @ str_bytes (fileName b)) @ int_bytes (number b)) @
    int_bytes off) @ int_bytes v)"
proof -
  let ?l = "length (fileName b)"
  let ?p0 = "int_bytes 4" let ?p1 = "?p0 @ int_bytes t" let ?p2 = "?p1 @ str_bytes (fileName b)"
  let ?p3 = "?p2 @ int_bytes (number b)" let ?p4 = "?p3 @ int_bytes off"
  have n: "page_new (24 + int ?l) = [] @ zeros (24 + ?l)"
    using page_new_zeros [of "24 + int ?l"] by (simp add: nat_add_distrib)
  have "setInt (page_new (24 + int ?l)) 0 4 = Inr (?p0 @ zeros (20 + ?l))"
    unfolding n using setInt_zeros [of 0 "[]" "24 + ?l" 4] assms by simp
  moreover have "setInt (?p0 @ zeros (20 + ?l)) 4 t = Inr (?p1 @ zeros (16 + ?l))"
    using setInt_zeros [of 4 ?p0 "20 + ?l" t] assms by simp
  moreover have "setString (?p1 @ zeros (16 + ?l)) 8 (fileName b) = Inr (?p2 @ zeros 12)"
    using setString_zeros [of 8 ?p1 "fileName b" "16 + ?l"] assms by simp
  moreover have "setInt (?p2 @ zeros 12) (12 + int ?l) (number b) = Inr (?p3 @ zeros 8)"
    using setInt_zeros [of "12 + int ?l" ?p2 12 "number b"] assms by simp
  moreover have "setInt (?p3 @ zeros 8) (16 + int ?l) off = Inr (?p4 @ zeros 4)"
    using setInt_zeros [of "16 + int ?l" ?p3 8 off] assms by simp
  moreover have "setInt (?p4 @ zeros 4) (20 + int ?l) v = Inr ((?p4 @ int_bytes v) )"
    using setInt_zeros [of "20 + int ?l" ?p4 4 v] assms by (simp add: zeros_def)
  ultimately show ?thesis
    by (simp add: setInt_bytes_def maxLength_def Let_def add_ac)
qed

text \<open>The writer of \<open>SETSTRING\<close> leaves a gap as long as the string before the value.\<close>

lemma setString_bytes_eq:
  assumes "int (length (fileName b)) + 2 * int (length v) + 24 < 2 ^ 31"
  shows "setString_bytes t b off v = Inr ((((((int_bytes 5 @ int_bytes t) @ str_bytes (fileName b)) @ int_bytes (number b)) @
    int_bytes off) @ zeros (length v)) @ str_bytes v)"
proof -
  let ?l = "length (fileName b)" and ?k = "length v"
  let ?p0 = "int_bytes 5" let ?p1 = "?p0 @ int_bytes t" let ?p2 = "?p1 @ str_bytes (fileName b)"
  let ?p3 = "?p2 @ int_bytes (number b)" let ?p4 = "?p3 @ int_bytes off"
  let ?p5 = "?p4 @ zeros ?k"
  have n: "page_new (24 + int ?l + 2 * int ?k) = [] @ zeros (24 + ?l + 2 * ?k)"
    using page_new_zeros [of "24 + int ?l + 2 * int ?k"] by (simp add: nat_add_distrib nat_mult_distrib)
  have "setInt (page_new (24 + int ?l + 2 * int ?k)) 0 5 = Inr (?p0 @ zeros (20 + ?l + 2 * ?k))"
    unfolding n using setInt_zeros [of 0 "[]" "24 + ?l + 2 * ?k" 5] assms by (simp add: add.assoc)
  moreover have "setInt (?p0 @ zeros (20 + ?l + 2 * ?k)) 4 t = Inr (?p1 @ zeros (16 + ?l + 2 * ?k))"
    using setInt_zeros [of 4 ?p0 "20 + ?l + 2 * ?k" t] assms by (simp add: add.assoc)
  moreover have "setString (?p1 @ zeros (16 + ?l + 2 * ?k)) 8 (fileName b) = Inr (?p2 @ zeros (12 + 2 * ?k))"
    using setString_zeros [of 8 ?p1 "fileName b" "16 + ?l + 2 * ?k"] assms by (simp add: add.assoc)
  moreover have "setInt (?p2 @ zeros (12 + 2 * ?k)) (12 + int ?l) (number b) = Inr (?p3 @ zeros (8 + 2 * ?k))"
    using setInt_zeros [of "12 + int ?l" ?p2 "12 + 2 * ?k" "number b"] assms by simp
  moreover have "setInt (?p3 @ zeros (8 + 2 * ?k)) (16 + int ?l) off = Inr (?p4 @ zeros (4 + 2 * ?k))"
    using setInt_zeros [of "16 + int ?l" ?p3 "8 + 2 * ?k" off] assms by simp
  moreover have "setString (?p4 @ zeros (4 + 2 * ?k)) (20 + int ?l + int ?k) v = Inr (?p5 @ str_bytes v)"
  proof -
    have z: "?p4 @ zeros (4 + 2 * ?k) = ?p5 @ zeros (4 + ?k)"
    proof -
      have "zeros (4 + 2 * ?k) = zeros ?k @ zeros (4 + ?k)"
        unfolding zeros_add [symmetric] by (rule arg_cong [where f = zeros]) simp
      then show ?thesis by (simp only: append_assoc)
    qed
    have "setString (?p5 @ zeros (4 + ?k)) (20 + int ?l + int ?k) v = Inr ((?p5 @ str_bytes v) @ zeros (4 + ?k - (4 + ?k)))"
      by (rule setString_zeros) (use assms in simp_all)
    then show ?thesis unfolding z by (simp add: zeros_def)
  qed
  ultimately show ?thesis
    by (simp add: setString_bytes_def maxLength_def Let_def algebra_simps)
qed

section \<open>Reading a record back\<close>

lemma createLogRecord_code:
  assumes "int32 c" "int (length (int_bytes c @ post)) < 2 ^ 31"
  shows "getInt (int_bytes c @ post) 0 = Inr c"
  using getInt_at [of 0 "[]" c post] assms by simp

lemma parse_tx_eq:
  assumes "int32 t" "int (length (int_bytes c @ int_bytes t @ post)) < 2 ^ 31"
  shows "parse_start (int_bytes c @ int_bytes t @ post) = Inr (StartRecord t)"
    "parse_commit (int_bytes c @ int_bytes t @ post) = Inr (CommitRecord t)"
    "parse_rollback (int_bytes c @ int_bytes t @ post) = Inr (RollbackRecord t)"
  using getInt_at [of 4 "int_bytes c" t post] assms by (simp_all add: parse_start_def parse_commit_def parse_rollback_def)

text \<open>The fields that the two kinds of update records share.\<close>

lemma parse_fields:
  assumes "int32 t" "int32 n" "int32 off" "p = int_bytes c @ int_bytes t @ str_bytes fn @ int_bytes n @ int_bytes off @ post"
    "int (length p) < 2 ^ 31"
  shows "getInt p 4 = Inr t" "getString p 8 = Inr fn" "getInt p (12 + int (length fn)) = Inr n"
    "getInt p (16 + int (length fn)) = Inr off"
proof -
  let ?q = "int_bytes c @ int_bytes t"
  show "getInt p 4 = Inr t"
    using getInt_at [of 4 "int_bytes c" t] assms(1,4,5) by simp
  show "getString p 8 = Inr fn"
    using getString_at [of 8 ?q fn] assms(4,5) by simp
  show "getInt p (12 + int (length fn)) = Inr n"
    using getInt_at [of "12 + int (length fn)" "?q @ str_bytes fn" n] assms(2,4,5) by simp
  show "getInt p (16 + int (length fn)) = Inr off"
    using getInt_at [of "16 + int (length fn)" "?q @ str_bytes fn @ int_bytes n" off] assms(3,4,5) by simp
qed

lemma parse_setInt_eq:
  assumes "int32 t" "int32 n" "int32 off" "int32 v" "int (length fn) + 24 < 2 ^ 31"
  shows "parse_setInt (int_bytes c @ int_bytes t @ str_bytes fn @ int_bytes n @ int_bytes off @ int_bytes v) =
    Inr (SetIntRecord t (BlockId fn n) off v)"
proof -
  let ?p = "int_bytes c @ int_bytes t @ str_bytes fn @ int_bytes n @ int_bytes off @ int_bytes v"
  have l: "int (length ?p) < 2 ^ 31" using assms(5) by simp
  note f = parse_fields [OF assms(1-3) refl l]
  have "getInt ?p (20 + int (length fn)) = Inr v"
    using getInt_at [of "20 + int (length fn)" "int_bytes c @ int_bytes t @ str_bytes fn @ int_bytes n @ int_bytes off" v "[]"]
      assms(4) l by simp
  with f show ?thesis
    by (simp add: parse_setInt_def maxLength_def algebra_simps Let_def)
qed

lemma parse_setString_eq:
  assumes "int32 t" "int32 n" "int32 off"
    "p = int_bytes c @ int_bytes t @ str_bytes fn @ int_bytes n @ int_bytes off @ post" "int (length p) < 2 ^ 31"
  shows "parse_setString p = rbind (getString p (20 + int (length fn))) (\<lambda>s. Inr (SetStringRecord t (BlockId fn n) off s))"
  using parse_fields [OF assms(1-5)]
  by (simp add: parse_setString_def maxLength_def algebra_simps Let_def)

text \<open>What fits in the integers and vectors of the code.\<close>

definition lr_fits :: "log_record \<Rightarrow> bool" where
  "lr_fits r = (case r of
      SetIntRecord t b off v \<Rightarrow> int32 t \<and> int32 (number b) \<and> int32 off \<and> int32 v \<and> int (length (fileName b)) + 24 < 2 ^ 31
    | SetStringRecord t b off v \<Rightarrow> int32 t \<and> int32 (number b) \<and> int32 off \<and>
        int (length (fileName b)) + 2 * int (length v) + 24 < 2 ^ 31
    | r \<Rightarrow> int32 (lr_txNumber r))"

lemma small_codes: "int32 0" "int32 1" "int32 2" "int32 3" "int32 4" "int32 5"
  by (simp_all add: int32_def)

lemma checkpoint_bytes_eq: "checkpoint_bytes = Inr (int_bytes 0)"
  using setInt_zeros [of 0 "[]" 4 0] page_new_zeros [of 4] by (simp add: checkpoint_bytes_def zeros_def)

lemma createLogRecord_setString:
  assumes "lr_fits (SetStringRecord t b off v)"
  defines "p \<equiv> int_bytes 5 @ int_bytes t @ str_bytes (fileName b) @ int_bytes (number b) @ int_bytes off @ zeros (length v) @ str_bytes v"
  shows "setString_bytes t b off v = Inr p"
    "createLogRecord p = rbind (getString p (20 + int (length (fileName b)))) (\<lambda>s. Inr (Some (SetStringRecord t b off s)))"
proof -
  have f: "int32 t" "int32 (number b)" "int32 off" "int (length (fileName b)) + 2 * int (length v) + 24 < 2 ^ 31"
    using assms(1) by (simp_all add: lr_fits_def)
  show "setString_bytes t b off v = Inr p"
    using setString_bytes_eq [OF f(4)] by (simp add: p_def)
  have l: "int (length p) < 2 ^ 31"
    using f(4) by (simp add: p_def)
  have "getInt p 0 = Inr 5"
    unfolding p_def by (rule createLogRecord_code) (use l small_codes in \<open>simp_all add: p_def\<close>)
  moreover have "rbind (parse_setString p) (\<lambda>r. Inr (Some r)) =
      rbind (getString p (20 + int (length (fileName b)))) (\<lambda>s. Inr (Some (SetStringRecord t b off s)))"
    by (subst parse_setString_eq [OF f(1-3) p_def [THEN meta_eq_to_obj_eq] l]) (simp add: rbind_assoc)
  ultimately show "createLogRecord p = rbind (getString p (20 + int (length (fileName b)))) (\<lambda>s. Inr (Some (SetStringRecord t b off s)))"
    by (simp add: createLogRecord_def)
qed

lemma lr_roundtrip:
  assumes "lr_fits r" "\<forall>t b off v. r = SetStringRecord t b off v \<longrightarrow> v = ''''"
  shows "rbind (lr_bytes r) createLogRecord = Inr (Some r)"
proof (cases r)
  case CheckpointRecord
  then show ?thesis
    using createLogRecord_code [of 0 "[]"] small_codes by (simp add: lr_bytes_def checkpoint_bytes_eq createLogRecord_def)
next
  case (StartRecord t)
  then show ?thesis
    using assms(1) tx_record_bytes [of 1 t] createLogRecord_code [of 1 "int_bytes t"] parse_tx_eq(1) [of t 1 "[]"] small_codes
    by (simp add: lr_bytes_def start_bytes_def createLogRecord_def lr_fits_def Let_def)
next
  case (CommitRecord t)
  then show ?thesis
    using assms(1) tx_record_bytes [of 2 t] createLogRecord_code [of 2 "int_bytes t"] parse_tx_eq(2) [of t 2 "[]"] small_codes
    by (simp add: lr_bytes_def commit_bytes_def createLogRecord_def lr_fits_def Let_def)
next
  case (RollbackRecord t)
  then show ?thesis
    using assms(1) tx_record_bytes [of 3 t] createLogRecord_code [of 3 "int_bytes t"] parse_tx_eq(3) [of t 3 "[]"] small_codes
    by (simp add: lr_bytes_def rollback_bytes_def createLogRecord_def lr_fits_def Let_def)
next
  case (SetIntRecord t b off v)
  obtain fn n where b: "b = BlockId fn n" by (cases b)
  have f: "int32 t" "int32 n" "int32 off" "int32 v" "int (length fn) + 24 < 2 ^ 31"
    using assms(1) SetIntRecord b by (simp_all add: lr_fits_def)
  show ?thesis
    using SetIntRecord b f parse_setInt_eq [OF f, of 4] small_codes
      createLogRecord_code [of 4 "int_bytes t @ str_bytes fn @ int_bytes n @ int_bytes off @ int_bytes v"]
    by (simp add: lr_bytes_def setInt_bytes_eq createLogRecord_def)
next
  case (SetStringRecord t b off v)
  then have v: "v = ''''" and f: "lr_fits (SetStringRecord t b off v)"
    using assms by auto
  note c = createLogRecord_setString [OF f]
  have l: "int (length (fileName b)) + 24 < 2 ^ 31"
    using f v by (simp add: lr_fits_def)
  have "getString (int_bytes 5 @ int_bytes t @ str_bytes (fileName b) @ int_bytes (number b) @ int_bytes off @ zeros 0 @ str_bytes '''')
      (20 + int (length (fileName b))) = Inr ''''"
    using getString_at [of "20 + int (length (fileName b))"
        "int_bytes 5 @ int_bytes t @ str_bytes (fileName b) @ int_bytes (number b) @ int_bytes off" "''''" "[]"] l
    by (simp add: zeros_def)
  with c v SetStringRecord show ?thesis by (simp add: lr_bytes_def)
qed

section \<open>Properties\<close>

text \<open>
  C12. Every log record whose values fit is read back as it was written: all kinds, but
  for \<open>SETSTRING\<close> only with an empty old value.
\<close>

theorem log_record_roundtrip:
  assumes "lr_fits r" "\<forall>t b off v. r = SetStringRecord t b off v \<longrightarrow> v = ''''"
  shows "rbind (lr_bytes r) createLogRecord = Inr (Some r)"
  using lr_roundtrip [OF assms] .

theorem log_record_roundtrip_witness:
  "rbind (lr_bytes (SetIntRecord 7 (BlockId ''student.tbl'' 2) 80 (- 1))) createLogRecord =
    Inr (Some (SetIntRecord 7 (BlockId ''student.tbl'' 2) 80 (- 1)))"
  by (rule log_record_roundtrip) (simp_all add: lr_fits_def int32_def)

text \<open>
  C13. \<open>SETSTRING\<close> records lose the old value: the writer leaves a gap of the length of the
  string that the reader does not skip, so every old value of four bytes or more is read back
  as the empty string, which undo then stores; shorter ones make the reader exit.
\<close>

theorem setString_record_loses_value:
  assumes "lr_fits (SetStringRecord t b off v)" "4 \<le> length v"
  shows "rbind (lr_bytes (SetStringRecord t b off v)) createLogRecord = Inr (Some (SetStringRecord t b off ''''))"
proof -
  let ?h = "int_bytes 5 @ int_bytes t @ str_bytes (fileName b) @ int_bytes (number b) @ int_bytes off"
  note c = createLogRecord_setString [OF assms(1)]
  have "zeros 4 = str_bytes ''''"
    by code_simp
  then have z: "zeros (length v) = str_bytes '''' @ zeros (length v - 4)"
    using zeros_add [of 4 "length v - 4"] assms(2) by simp
  have l: "int (length (?h @ str_bytes '''' @ (zeros (length v - 4) @ str_bytes v))) < 2 ^ 31"
    using assms by (simp add: lr_fits_def)
  have "getString (?h @ str_bytes '''' @ (zeros (length v - 4) @ str_bytes v)) (20 + int (length (fileName b))) = Inr ''''"
    by (rule getString_at [OF _ l]) simp
  with c show ?thesis by (simp add: lr_bytes_def z)
qed

theorem setString_record_loses_value_witness:
  "rbind (lr_bytes (SetStringRecord 7 (BlockId ''t'' 0) 80 ''hello'')) createLogRecord =
    Inr (Some (SetStringRecord 7 (BlockId ''t'' 0) 80 ''''))"
  by (rule setString_record_loses_value) (simp_all add: lr_fits_def int32_def)

lemma setString_record_short_exits:
  "rbind (lr_bytes (SetStringRecord 7 (BlockId ''t'' 0) 80 ''abc'')) createLogRecord = Inl Exit"
  by code_simp

end
