(* ===== verification/Transactions.thy ===== *)
theory Transactions
  imports BufferManager Locks LogRecords "HOL-Library.Multiset"
begin

text \<open>
  \<open>src/src/tx/BufferList.cpp\<close>, \<open>RecoveryMgr.cpp\<close> and \<open>Transaction.cpp\<close>: a transaction pins
  blocks, locks them, logs old values and changes pages; it ends by commit, rollback or, at
  the start of a process, by recovery. The operations are those of one thread with no other
  thread acting in between: a wait for a lock or a buffer then ends in its timeout. The theory
  shows that reads see writes, that rollback and recovery restore what the transaction found,
  and that a commit makes its changes durable.
\<close>

section \<open>State\<close>

text \<open>
  \<open>_nextTxNum\<close> and the lock table are static, shared by all transactions of the process; the
  other fields belong to the current transaction.
\<close>

record tx = bm +
  conc :: conc
  nextTxNum :: int
  txNum :: int
  pinned :: "block_id list"
  buffers :: "(block_id \<times> nat) list"
  finished :: bool

definition on_conc :: "(conc, 'a) cmd \<Rightarrow> ('b tx_scheme, 'a) cmd" where
  "on_conc m s = (case m (conc s) of (r, c) \<Rightarrow> (r, s\<lparr>conc := c\<rparr>))"

section \<open>The list of pinned buffers\<close>

text \<open>\<open>*(_buffers[blkId])\<close> dereferences a null pointer for a block that is not pinned.\<close>

definition bl_getBuffer :: "block_id \<Rightarrow> ('a tx_scheme, nat) cmd" where
  "bl_getBuffer blk =
     bnd (gets (\<lambda>s. map_of (buffers s) blk)) (\<lambda>i. case i of None \<Rightarrow> raise Undef | Some i \<Rightarrow> ret i)"

definition bl_pin :: "block_id \<Rightarrow> ('a tx_scheme, unit) cmd" where
  "bl_pin blk =
     bnd (bm_pin blk []) (\<lambda>i.
     upd (\<lambda>s. s\<lparr>buffers := om_put blk i (buffers s), pinned := pinned s @ [blk]\<rparr>))"

definition bl_unpin :: "block_id \<Rightarrow> ('a tx_scheme, unit) cmd" where
  "bl_unpin blk =
     bnd (gets (\<lambda>s. map_of (buffers s) blk)) (\<lambda>it.
     case it of
       None \<Rightarrow> ret ()
     | Some i \<Rightarrow>
         seq (bm_unpin i)
        (seq (upd (\<lambda>s. s\<lparr>pinned := remove1 blk (pinned s)\<rparr>))
             (upd (\<lambda>s. if blk \<notin> set (pinned s) then s\<lparr>buffers := om_del blk (buffers s)\<rparr> else s))))"

fun bl_unpin_all :: "block_id list \<Rightarrow> ('a tx_scheme, unit) cmd" where
  "bl_unpin_all [] = ret ()"
| "bl_unpin_all (blk # blks) =
     bnd (bl_getBuffer blk) (\<lambda>i. seq (bm_unpin i) (bl_unpin_all blks))"

definition bl_unpinAll :: "('a tx_scheme, unit) cmd" where
  "bl_unpinAll =
     bnd (gets pinned) (\<lambda>blks.
     seq (bl_unpin_all blks)
         (upd (\<lambda>s. s\<lparr>buffers := [], pinned := []\<rparr>)))"

section \<open>Transactions and their log\<close>

definition tx_pin :: "block_id \<Rightarrow> ('a tx_scheme, unit) cmd" where
  "tx_pin blk = bl_pin blk"

definition tx_unpin :: "block_id \<Rightarrow> ('a tx_scheme, unit) cmd" where
  "tx_unpin blk = bl_unpin blk"

definition page_at :: "nat \<Rightarrow> ('a bm_scheme, bytes) cmd" where
  "page_at i = gets (\<lambda>s. buf_page (pool s ! i))"

definition tx_getInt :: "block_id \<Rightarrow> int \<Rightarrow> ('a tx_scheme, int) cmd" where
  "tx_getInt blk offset =
     seq (on_conc (cm_sLock blk []))
    (bnd (bl_getBuffer blk) (\<lambda>i.
     bnd (page_at i) (\<lambda>p. lift (getInt p offset))))"

definition tx_getString :: "block_id \<Rightarrow> int \<Rightarrow> ('a tx_scheme, string) cmd" where
  "tx_getString blk offset =
     seq (on_conc (cm_sLock blk []))
    (bnd (bl_getBuffer blk) (\<lambda>i.
     bnd (page_at i) (\<lambda>p. lift (getString p offset))))"

text \<open>\<open>RecoveryMgr::setInt\<close> and \<open>setString\<close> log the old value; the new one is not used.\<close>

definition rm_setInt :: "nat \<Rightarrow> int \<Rightarrow> int \<Rightarrow> ('a tx_scheme, int) cmd" where
  "rm_setInt i offset val =
     bnd (page_at i) (\<lambda>p.
     bnd (lift (getInt p offset)) (\<lambda>oldVal.
     bnd (gets (\<lambda>s. (buf_blk (pool s ! i), txNum s))) (\<lambda>(blk, t).
     bnd (lift (setInt_bytes t blk offset oldVal)) lm_append)))"

definition rm_setString :: "nat \<Rightarrow> int \<Rightarrow> string \<Rightarrow> ('a tx_scheme, int) cmd" where
  "rm_setString i offset val =
     bnd (page_at i) (\<lambda>p.
     bnd (lift (getString p offset)) (\<lambda>oldVal.
     bnd (gets (\<lambda>s. (buf_blk (pool s ! i), txNum s))) (\<lambda>(blk, t).
     bnd (lift (setString_bytes t blk offset oldVal)) lm_append)))"

definition tx_setInt :: "block_id \<Rightarrow> int \<Rightarrow> int \<Rightarrow> bool \<Rightarrow> ('a tx_scheme, unit) cmd" where
  "tx_setInt blk offset val okToLog =
     seq (on_conc (cm_xLock blk [] []))
    (bnd (bl_getBuffer blk) (\<lambda>i.
     bnd (if okToLog then rm_setInt i offset val else ret (- 1)) (\<lambda>lsn.
     bnd (page_at i) (\<lambda>p.
     bnd (lift (setInt p offset val)) (\<lambda>p'.
     seq (upd (upd_buf i (\<lambda>b. b\<lparr>buf_page := p'\<rparr>)))
         (upd (\<lambda>s. upd_buf i (buf_setModified (txNum s) lsn) s)))))))"

definition tx_setString :: "block_id \<Rightarrow> int \<Rightarrow> string \<Rightarrow> bool \<Rightarrow> ('a tx_scheme, unit) cmd" where
  "tx_setString blk offset val okToLog =
     seq (on_conc (cm_xLock blk [] []))
    (bnd (bl_getBuffer blk) (\<lambda>i.
     bnd (if okToLog then rm_setString i offset val else ret (- 1)) (\<lambda>lsn.
     bnd (page_at i) (\<lambda>p.
     bnd (lift (setString p offset val)) (\<lambda>p'.
     seq (upd (upd_buf i (\<lambda>b. b\<lparr>buf_page := p'\<rparr>)))
         (upd (\<lambda>s. upd_buf i (buf_setModified (txNum s) lsn) s)))))))"

text \<open>The block with number \<open>- 1\<close> stands for the end of a file.\<close>

definition tx_size :: "string \<Rightarrow> ('a tx_scheme, int) cmd" where
  "tx_size fn = seq (on_conc (cm_sLock (BlockId fn (- 1)) [])) (gets (fm_length fn))"

definition tx_append :: "string \<Rightarrow> ('a tx_scheme, block_id) cmd" where
  "tx_append fn = seq (on_conc (cm_xLock (BlockId fn (- 1)) [] [])) (fm_append fn)"

definition tx_blockSize :: "'a tx_scheme \<Rightarrow> int" where
  "tx_blockSize s = blocksize s"

definition tx_availableBuffers :: "'a tx_scheme \<Rightarrow> int" where
  "tx_availableBuffers s = bm_available s"

text \<open>The constructor takes the next number, logs a start record and has no locks or pins.\<close>

definition tx_new :: "('a tx_scheme, unit) cmd" where
  "tx_new =
     seq (upd (\<lambda>s. s\<lparr>nextTxNum := nextTxNum s + 1, txNum := nextTxNum s + 1, finished := False,
                      conc := (conc s)\<lparr>locks := []\<rparr>, pinned := [], buffers := []\<rparr>))
    (bnd (gets txNum) (\<lambda>t.
     bnd (lift (start_bytes t)) (\<lambda>r.
     bnd (lm_append r) (\<lambda>_. ret ()))))"

text \<open>The first transaction of a process finds an empty lock table.\<close>

definition tx_init :: "bm \<Rightarrow> tx" where
  "tx_init s = bm.extend s (tx.fields \<lparr>lockTable = [], locks = []\<rparr> 0 0 [] [] True)"

definition tx_end :: "('a tx_scheme, unit) cmd" where
  "tx_end =
     seq (upd (\<lambda>s. s\<lparr>conc := cm_release (conc s)\<rparr>))
    (seq bl_unpinAll
         (upd (\<lambda>s. s\<lparr>finished := True\<rparr>)))"

definition rm_commit :: "('a tx_scheme, unit) cmd" where
  "rm_commit =
     bnd (gets txNum) (\<lambda>t.
     seq (bm_flushAll t)
    (bnd (lift (commit_bytes t)) (\<lambda>r.
     bnd (lm_append r) lm_flush)))"

definition tx_commit :: "('a tx_scheme, unit) cmd" where
  "tx_commit = seq rm_commit tx_end"

text \<open>\<open>undo\<close>: only the two kinds of update records do anything.\<close>

definition lr_undo :: "log_record \<Rightarrow> ('a tx_scheme, unit) cmd" where
  "lr_undo r =
     (case r of
        SetIntRecord t blk offset val \<Rightarrow> seq (tx_pin blk) (seq (tx_setInt blk offset val False) (tx_unpin blk))
      | SetStringRecord t blk offset str \<Rightarrow> seq (tx_pin blk) (seq (tx_setString blk offset str False) (tx_unpin blk))
      | _ \<Rightarrow> ret ())"

text \<open>A record of unknown kind is a null pointer.\<close>

definition next_record :: "log_iter \<Rightarrow> ('a fm_scheme, log_record \<times> log_iter) cmd" where
  "next_record it =
     bnd (li_next it) (\<lambda>(bs, it').
     bnd (lift (createLogRecord bs)) (\<lambda>r.
     case r of None \<Rightarrow> raise Undef | Some r \<Rightarrow> ret (r, it')))"

fun rm_rollback_loop :: "nat \<Rightarrow> log_iter \<Rightarrow> ('a tx_scheme, unit) cmd" where
  "rm_rollback_loop 0 it = raise OutOfFuel"
| "rm_rollback_loop (Suc fuel) it =
     bnd (gets (\<lambda>s. (li_hasNext it s, txNum s))) (\<lambda>(more, t).
     if more
     then bnd (next_record it) (\<lambda>(r, it').
          if lr_txNumber r = t
          then if lr_op r = 1 then ret () else seq (lr_undo r) (rm_rollback_loop fuel it')
          else rm_rollback_loop fuel it')
     else ret ())"

definition rm_doRollback :: "nat \<Rightarrow> ('a tx_scheme, unit) cmd" where
  "rm_doRollback fuel = bnd lm_iterator (rm_rollback_loop fuel)"

definition rm_rollback :: "nat \<Rightarrow> ('a tx_scheme, unit) cmd" where
  "rm_rollback fuel =
     seq (rm_doRollback fuel)
    (bnd (gets txNum) (\<lambda>t.
     seq (bm_flushAll t)
    (bnd (lift (rollback_bytes t)) (\<lambda>r.
     bnd (lm_append r) lm_flush))))"

definition tx_rollback :: "nat \<Rightarrow> ('a tx_scheme, unit) cmd" where
  "tx_rollback fuel = seq (rm_rollback fuel) tx_end"

fun rm_recover_loop :: "nat \<Rightarrow> int list \<Rightarrow> log_iter \<Rightarrow> ('a tx_scheme, unit) cmd" where
  "rm_recover_loop 0 finishedTxs it = raise OutOfFuel"
| "rm_recover_loop (Suc fuel) finishedTxs it =
     bnd (gets (li_hasNext it)) (\<lambda>more.
     if more
     then bnd (next_record it) (\<lambda>(r, it').
          if lr_op r = 0 then ret ()
          else if lr_op r = 2 \<or> lr_op r = 3 then rm_recover_loop fuel (finishedTxs @ [lr_txNumber r]) it'
          else if lr_txNumber r \<notin> set finishedTxs then seq (lr_undo r) (rm_recover_loop fuel finishedTxs it')
          else rm_recover_loop fuel finishedTxs it')
     else ret ())"

definition rm_doRecover :: "nat \<Rightarrow> ('a tx_scheme, unit) cmd" where
  "rm_doRecover fuel = bnd lm_iterator (rm_recover_loop fuel [])"

definition rm_recover :: "nat \<Rightarrow> ('a tx_scheme, unit) cmd" where
  "rm_recover fuel =
     seq (rm_doRecover fuel)
    (bnd (gets txNum) (\<lambda>t.
     seq (bm_flushAll t)
    (bnd (lift checkpoint_bytes) (\<lambda>r.
     bnd (lm_append r) lm_flush))))"

definition tx_recover :: "nat \<Rightarrow> ('a tx_scheme, unit) cmd" where
  "tx_recover fuel =
     bnd (gets txNum) (\<lambda>t.
     seq (bm_flushAll t)
    (seq (rm_recover fuel) tx_end))"

definition tx_destroy :: "('a tx_scheme, unit) cmd" where
  "tx_destroy =
     bnd (gets finished) (\<lambda>fin.
     if \<not> fin then seq (upd (\<lambda>s. s\<lparr>conc := cm_release (conc s)\<rparr>)) bl_unpinAll else ret ())"

definition tx_forceConcurrencyRelease :: "('a tx_scheme, unit) cmd" where
  "tx_forceConcurrencyRelease = seq (upd (\<lambda>s. s\<lparr>conc := cm_release (conc s)\<rparr>)) bl_unpinAll"

section \<open>Frame facts\<close>

text \<open>The layers below do not see the fields of the transaction.\<close>

lemma bm_truncate_fields:
  fixes s :: "'a bm_scheme" and s' :: "'b bm_scheme"
  assumes "bm.truncate s' = bm.truncate s"
  shows "blocksize s' = blocksize s" "files s' = files s" "failed s' = failed s" "logFileName s' = logFileName s"
    "logPage s' = logPage s" "currBlk s' = currBlk s" "latestLsn s' = latestLsn s" "lastSaveLsn s' = lastSaveLsn s"
    "pool s' = pool s" "numAvailable s' = numAvailable s"
  using assms by (simp_all add: bm.truncate_def)

lemma bm_cong:
  fixes s :: "'a bm_scheme" and s' :: "'b bm_scheme"
  assumes "bm.truncate s' = bm.truncate s"
  shows "file_bytes n s' = file_bytes n s" "disk_block s' b = disk_block s b" "data_blk s' = data_blk s"
    "fm_length n s' = fm_length n s" "fm_inv s' = fm_inv s" "log_state s' base rs dur = log_state s base rs dur"
    "view s' b = view s b" "bm_log s' base rs dur = bm_log s base rs dur" "dirty s' b l = dirty s b l"
    "it_at s' it rem = it_at s it rem" "owners s' = owners s" "settled s' = settled s"
proof -
  note f = bm_truncate_fields [OF assms]
  show fb: "file_bytes n s' = file_bytes n s" for n
    by (simp add: file_bytes_def f)
  show d: "disk_block s' b = disk_block s b" for b
    by (simp add: disk_block_def fb f)
  show db: "data_blk s' = data_blk s"
    by (simp add: data_blk_def f fun_eq_iff)
  show fl: "fm_length n s' = fm_length n s" for n
    by (simp add: fm_length_eq fb f)
  show i: "fm_inv s' = fm_inv s"
    by (simp add: fm_inv_def fb f)
  show ls: "log_state s' base rs dur = log_state s base rs dur"
    by (rule log_state_cong) (simp_all add: fb f)
  show v: "view s' b = view s b" for b
    by (simp add: view_def bm_findExistingBuffer_def d f split: option.split)
  have "buf_ok s' = buf_ok s"
    by (simp add: fun_eq_iff buf_ok_def db d f)
  then show "bm_log s' base rs dur = bm_log s base rs dur"
    by (simp add: bm_log_def bm_inv_def ls f)
  show dt: "dirty s' b l = dirty s b l" for b l
    by (simp add: dirty_def f)
  show "it_at s' it rem = it_at s it rem"
    by (simp add: it_at_def it_rep_def f d fl i)
  show ow: "owners s' = owners s"
    by (simp add: owners_def f)
  show "settled s' = settled s"
    by (simp add: settled_def db v d)
qed

lemma bm_cong_frames:
  fixes s s' :: "'a bm_scheme"
  assumes "bm.truncate s' = bm.truncate s"
  shows "log_still r s' = log_still r s" "log_still s' r = log_still s r"
    "bm_core d r s' = bm_core d r s" "bm_core d s' r = bm_core d s r"
proof -
  note f = bm_truncate_fields [OF assms] bm_cong [OF assms]
  show st: "log_still r s' = log_still r s" "log_still s' r = log_still s r"
    by (simp_all add: log_still_def f)
  show "bm_core d r s' = bm_core d r s" "bm_core d s' r = bm_core d s r"
    unfolding bm_core_def f st by (rule refl)+
qed

lemma tx_truncate [simp]:
  fixes s :: "'a tx_scheme"
  shows "bm.truncate (s\<lparr>conc := c\<rparr>) = bm.truncate s" "bm.truncate (s\<lparr>pinned := p\<rparr>) = bm.truncate s"
    "bm.truncate (s\<lparr>buffers := bs\<rparr>) = bm.truncate s" "bm.truncate (s\<lparr>finished := x\<rparr>) = bm.truncate s"
    "bm.truncate (s\<lparr>txNum := t\<rparr>) = bm.truncate s" "bm.truncate (s\<lparr>nextTxNum := t\<rparr>) = bm.truncate s"
  by (simp_all add: bm.truncate_def)

lemmas tx_cong [simp] =
  bm_cong [OF tx_truncate(1)] bm_cong [OF tx_truncate(2)] bm_cong [OF tx_truncate(3)]
  bm_cong [OF tx_truncate(4)] bm_cong [OF tx_truncate(5)] bm_cong [OF tx_truncate(6)]
  bm_cong_frames [OF tx_truncate(1)] bm_cong_frames [OF tx_truncate(2)] bm_cong_frames [OF tx_truncate(3)]
  bm_cong_frames [OF tx_truncate(4)] bm_cong_frames [OF tx_truncate(5)] bm_cong_frames [OF tx_truncate(6)]

text \<open>Commands of the layers below leave the fields of the transaction alone.\<close>

lemma tx_more_eq:
  fixes s s' :: "'a tx_scheme"
  assumes "bm.more s' = bm.more s"
  shows "conc s' = conc s" "nextTxNum s' = nextTxNum s" "txNum s' = txNum s" "pinned s' = pinned s"
    "buffers s' = buffers s" "finished s' = finished s" "tx.more s' = tx.more s"
  using assms by (cases s; cases s'; simp)+

lemma upd_buf_tx [simp]:
  fixes s :: "'a tx_scheme"
  shows "conc (upd_buf i f s) = conc s" "nextTxNum (upd_buf i f s) = nextTxNum s" "txNum (upd_buf i f s) = txNum s"
    "pinned (upd_buf i f s) = pinned s" "buffers (upd_buf i f s) = buffers s" "finished (upd_buf i f s) = finished s"
    "tx.more (upd_buf i f s) = tx.more s"
  by (simp_all add: upd_buf_def)

text \<open>What an operation that changes no contents keeps, and what it may write back.\<close>

definition tx_frame :: "int \<Rightarrow> 'a tx_scheme \<Rightarrow> 'a tx_scheme \<Rightarrow> bool" where
  "tx_frame d s s' \<longleftrightarrow> bm_core d s s' \<and> txNum s' = txNum s \<and> nextTxNum s' = nextTxNum s"

lemma tx_frameI: "bm_frame d s s' \<Longrightarrow> tx_frame d s s'"
  unfolding bm_frame_def tx_frame_def using tx_more_eq [of s' s] by blast

lemma tx_frame_data_blk: "tx_frame d s s' \<Longrightarrow> data_blk s' = data_blk s"
  unfolding tx_frame_def by (blast intro: bm_core_data_blk)

lemma tx_frame_upd [simp]:
  "tx_frame d s (s'\<lparr>conc := c\<rparr>) = tx_frame d s s'" "tx_frame d s (s'\<lparr>pinned := p\<rparr>) = tx_frame d s s'"
  "tx_frame d s (s'\<lparr>buffers := bs\<rparr>) = tx_frame d s s'" "tx_frame d s (s'\<lparr>finished := x\<rparr>) = tx_frame d s s'"
  by (simp_all add: tx_frame_def)

lemma tx_frame_refl [simp]: "tx_frame d s s"
  by (simp add: tx_frame_def)

lemma tx_frame_trans: "tx_frame d s s' \<Longrightarrow> tx_frame d' s' s'' \<Longrightarrow> d \<le> d' \<Longrightarrow> tx_frame d' s s''"
  by (auto simp: tx_frame_def intro: bm_core_trans)

section \<open>The buffer list and the pool\<close>

definition bl_ok :: "'a tx_scheme \<Rightarrow> bool" where
  "bl_ok s \<longleftrightarrow>
     (\<forall>blk i. map_of (buffers s) blk = Some i \<longrightarrow>
        i < length (pool s) \<and> buf_blk (pool s ! i) = blk \<and> data_blk s blk \<and> blk \<in> set (pinned s)) \<and>
     (\<forall>blk \<in> set (pinned s). map_of (buffers s) blk \<noteq> None) \<and>
     (\<forall>i < length (pool s). int (count (mset (pinned s)) (buf_blk (pool s ! i))) \<le> buf_pins (pool s ! i))"

definition tx_ok :: "'a tx_scheme \<Rightarrow> nat \<Rightarrow> bytes list \<Rightarrow> bytes list \<Rightarrow> bool" where
  "tx_ok s base rs dur \<longleftrightarrow> bm_log s base rs dur \<and> bl_ok s"

lemma bl_ok_buffer:
  assumes "bl_ok s" "blk \<in> set (pinned s)"
  shows "\<exists>i. map_of (buffers s) blk = Some i \<and> i < length (pool s) \<and> buf_blk (pool s ! i) = blk \<and>
    data_blk s blk \<and> buf_isPinned (pool s ! i)"
proof -
  obtain i where i: "map_of (buffers s) blk = Some i" "i < length (pool s)" "buf_blk (pool s ! i) = blk" "data_blk s blk"
    using assms by (fastforce simp: bl_ok_def)
  then have "int (count (mset (pinned s)) blk) \<le> buf_pins (pool s ! i)"
    using assms(1) by (auto simp: bl_ok_def)
  moreover have "0 < count (mset (pinned s)) blk"
    using assms(2) by simp
  ultimately have "0 < buf_pins (pool s ! i)"
    by linarith
  with i show ?thesis
    by (auto simp: buf_isPinned_def)
qed

lemma numAvailable_upd:
  assumes "bm_inv s" "bm_inv s'" "i < length (pool s)" "pool s' = (pool s)[i := b]"
  shows "numAvailable s' = numAvailable s + (if buf_isPinned b then 0 else 1) - (if buf_isPinned (pool s ! i) then 0 else 1)"
  using assms by (simp add: bm_inv_def unpinned_count_upd)

lemma pin_pool:
  assumes "pinned_at s s' blk i" "length (pool s') = length (pool s)"
  shows "pool s' = (pool s)[i := pool s' ! i]"
  using assms by (intro nth_equalityI) (auto simp: pinned_at_def nth_upd)

text \<open>Pinning through the list: no error as long as a buffer is free or the block is pinned.\<close>

lemma bl_ok_pin:
  assumes inv: "bm_inv s" "bm_inv s1" and ok: "bl_ok s" and p: "pinned_at s s1 blk i" and blk: "data_blk s blk"
    and len: "length (pool s1) = length (pool s)" and db: "data_blk s1 = data_blk s"
    and bl: "buffers s1 = buffers s" "pinned s1 = pinned s"
  shows "bl_ok (s1\<lparr>buffers := om_put blk i (buffers s1), pinned := pinned s1 @ [blk]\<rparr>)"
proof -
  have pi: "i < length (pool s)" "buf_blk (pool s1 ! i) = blk" "0 < buf_pins (pool s1 ! i)"
    "buf_isPinned (pool s ! i) \<longrightarrow> pool s1 ! i = buf_pin (pool s ! i)"
    "\<not> buf_isPinned (pool s ! i) \<longrightarrow> buf_pins (pool s1 ! i) = 1"
    and pj: "\<And>j. j < length (pool s) \<Longrightarrow> j \<noteq> i \<Longrightarrow> pool s1 ! j = pool s ! j"
    using p len by (auto simp: pinned_at_def)
  have nd: "no_dup (pool s1)" using inv(2) by (simp add: bm_inv_def)
  have uniq: "j = i" if "j < length (pool s)" "buf_blk (pool s1 ! j) = blk" for j
    using nd that pi(1,2) blk len unfolding no_dup_def by (metis null_not_data)
  have cnt: "int (count (mset (pinned s)) (buf_blk (pool s ! j))) \<le> buf_pins (pool s ! j)" if "j < length (pool s)" for j
    using ok that by (simp add: bl_ok_def)
  have fresh: "blk \<notin> set (pinned s)" if "\<not> buf_isPinned (pool s ! i)"
  proof
    assume "blk \<in> set (pinned s)"
    then obtain k where k: "k < length (pool s)" "buf_blk (pool s ! k) = blk" "buf_isPinned (pool s ! k)"
      using bl_ok_buffer [OF ok] by blast
    then have "k \<noteq> i" using that by auto
    with k pj uniq [of k] show False by auto
  qed
  have maps: "j < length (pool s1) \<and> buf_blk (pool s1 ! j) = c \<and> data_blk s1 c \<and> c \<in> set (pinned s)"
    if "map_of (buffers s) c = Some j" "c \<noteq> blk" for c j
  proof -
    have j: "j < length (pool s)" "buf_blk (pool s ! j) = c" "data_blk s c" "c \<in> set (pinned s)"
      using ok that(1) by (auto simp: bl_ok_def)
    then have "buf_isPinned (pool s ! j)"
      using bl_ok_buffer [OF ok j(4)] that(1) by auto
    then have "j \<noteq> i"
      using pi(2,4) j(2) that(2) by (auto simp: buf_pin_def)
    with j pj len db show ?thesis by simp
  qed
  have counts: "int (count (mset (pinned s @ [blk])) (buf_blk (pool s1 ! j))) \<le> buf_pins (pool s1 ! j)"
    if j: "j < length (pool s1)" for j
  proof (cases "j = i")
    case False
    then have "buf_blk (pool s1 ! j) \<noteq> blk" "pool s1 ! j = pool s ! j"
      using uniq [of j] pj [of j] j len by auto
    with cnt [of j] j len show ?thesis by simp
  next
    case True
    show ?thesis
    proof (cases "buf_isPinned (pool s ! i)")
      case p: True
      with cnt [OF pi(1)] pi(2,4) True show ?thesis by (auto simp: buf_pin_def)
    next
      case False
      then have "count (mset (pinned s)) blk = 0"
        using fresh by (simp add: count_eq_zero_iff)
      with pi True show ?thesis by (simp del: count_mset_0_iff)
    qed
  qed
  show ?thesis
    unfolding bl_ok_def using maps counts pi len db blk ok bl by (auto simp: bl_ok_def)
qed

lemma tx_pin_Some:
  assumes "tx_ok s base rs dur" "data_blk s blk" "bm_tryToPin blk s = (Inr (Some i), s1)" "bm_log s1 base rs dur1"
    "prefix dur dur1" "bm_frame (dlsn base dur1) s s1" "pinned_at s s1 blk i"
  shows "\<exists>s' dur' i. tx_pin blk s = (Inr (), s') \<and> tx_ok s' base rs dur' \<and> prefix dur dur' \<and>
    tx_frame (dlsn base dur') s s' \<and> conc s' = conc s \<and> pinned s' = pinned s @ [blk] \<and> map_of (buffers s') blk = Some i \<and>
    pinned_at s s' blk i"
proof -
  have inv: "bm_inv s" and ok: "bl_ok s"
    using assms(1) by (auto simp: tx_ok_def bm_log_def)
  let ?s = "s1\<lparr>buffers := om_put blk i (buffers s1), pinned := pinned s1 @ [blk]\<rparr>"
  have more: "bm.more s1 = bm.more s" and len: "length (pool s1) = length (pool s)" and db: "data_blk s1 = data_blk s"
    using assms(6) bm_frame_data_blk [OF assms(6)] by (auto simp: bm_frame_defs)
  note m = tx_more_eq [OF more]
  have "tx_pin blk s = (Inr (), ?s)"
    using assms(3) by (simp add: tx_pin_def bl_pin_def bm_pin_no_wait cmd_simps)
  moreover have "bl_ok ?s"
    using assms(4) by (intro bl_ok_pin [OF inv _ ok assms(7,2) len db m(5,4)]) (simp add: bm_log_def)
  moreover have "pinned_at s ?s blk i"
    using assms(7) by (simp add: pinned_at_def)
  ultimately show ?thesis
    using assms(4,5) tx_frameI [OF assms(6)] m by (intro exI [of _ ?s] exI [of _ dur1] exI [of _ i]) (simp add: tx_ok_def)
qed

lemma tx_pin_spec:
  assumes "tx_ok s base rs dur" "data_blk s blk" "0 < numAvailable s \<or> blk \<in> set (pinned s) \<or> fst (tx_pin blk s) = Inr ()"
  shows "\<exists>s' dur' i. tx_pin blk s = (Inr (), s') \<and> tx_ok s' base rs dur' \<and> prefix dur dur' \<and>
    tx_frame (dlsn base dur') s s' \<and> conc s' = conc s \<and> pinned s' = pinned s @ [blk] \<and> map_of (buffers s') blk = Some i \<and>
    pinned_at s s' blk i"
proof -
  have log: "bm_log s base rs dur" and ok: "bl_ok s"
    using assms(1) by (auto simp: tx_ok_def)
  from bm_tryToPin_spec [OF log assms(2)] obtain r s1 dur1 where
    r: "bm_tryToPin blk s = (Inr r, s1)" "bm_log s1 base rs dur1" "prefix dur dur1" "bm_frame (dlsn base dur1) s s1"
      "case r of None \<Rightarrow> s1 = s \<and> numAvailable s = 0 \<and> (\<forall>b \<in> set (pool s). buf_blk b \<noteq> blk)
       | Some i \<Rightarrow> pinned_at s s1 blk i" by blast
  have "r \<noteq> None"
  proof
    assume "r = None"
    then have "fst (tx_pin blk s) \<noteq> Inr ()"
      using r(1) by (simp add: tx_pin_def bl_pin_def bm_pin_no_wait cmd_simps bnd_def)
    with r(5) \<open>r = None\<close> assms(3) bl_ok_buffer [OF ok, of blk] show False by (auto dest: nth_mem)
  qed
  then obtain i where "r = Some i" "pinned_at s s1 blk i"
    using r(5) by auto
  with tx_pin_Some [OF assms(1,2) _ r(2,3,4)] r(1) show ?thesis by auto
qed

lemma tx_unpin_spec:
  assumes "tx_ok s base rs dur" "blk \<in> set (pinned s)" "map_of (buffers s) blk = Some i"
  shows "\<exists>s'. tx_unpin blk s = (Inr (), s') \<and> tx_ok s' base rs dur \<and> tx_frame (dlsn base dur) s s' \<and> conc s' = conc s \<and>
    pinned s' = remove1 blk (pinned s) \<and> pool s' = (pool s)[i := buf_unpin (pool s ! i)] \<and>
    (\<forall>c. c \<noteq> blk \<longrightarrow> map_of (buffers s') c = map_of (buffers s) c)"
proof -
  have log: "bm_log s base rs dur" and inv: "bm_inv s" and ok: "bl_ok s"
    using assms(1) by (auto simp: tx_ok_def bm_log_def)
  have i: "i < length (pool s)" "buf_blk (pool s ! i) = blk" "data_blk s blk" "buf_isPinned (pool s ! i)"
    using bl_ok_buffer [OF ok assms(2)] assms(3) by auto
  from bm_unpin_spec [OF log i(1,4)] obtain s1 where
    s1: "bm_unpin i s = (Inr (), s1)" "bm_log s1 base rs dur" "bm_frame (dlsn base dur) s s1"
      "pool s1 = (pool s)[i := buf_unpin (pool s ! i)]" by blast
  have more: "bm.more s1 = bm.more s" and db: "data_blk s1 = data_blk s"
    using s1(3) bm_frame_data_blk [OF s1(3)] by (auto simp: bm_frame_defs)
  note m = tx_more_eq [OF more]
  let ?p = "remove1 blk (pinned s)"
  let ?s = "s1\<lparr>pinned := ?p, buffers := if blk \<notin> set ?p then om_del blk (buffers s) else buffers s\<rparr>"
  have nd: "no_dup (pool s)" using inv by (simp add: bm_inv_def)
  have blk1: "buf_blk (pool s1 ! j) = buf_blk (pool s ! j)" for j
    using i(1) by (cases "j = i") (simp_all add: s1(4) buf_unpin_def)
  have counts: "int (count (mset ?p) (buf_blk (pool s1 ! j))) \<le> buf_pins (pool s1 ! j)" if j: "j < length (pool s1)" for j
  proof -
    have c: "int (count (mset (pinned s)) (buf_blk (pool s ! j))) \<le> buf_pins (pool s ! j)"
      using ok j s1(4) by (simp add: bl_ok_def)
    show ?thesis
    proof (cases "j = i")
      case True
      have "0 < count (mset (pinned s)) blk" using assms(2) by simp
      with c True i(1,2) show ?thesis by (simp add: s1(4) buf_unpin_def)
    next
      case False
      then have "buf_blk (pool s ! j) \<noteq> blk"
        using nd i j s1(4) unfolding no_dup_def by (metis length_list_update null_not_data)
      with c False blk1 show ?thesis by (simp add: s1(4))
    qed
  qed
  have "bl_ok ?s"
    unfolding bl_ok_def
  proof (intro conjI)
    show "\<forall>c j. map_of (buffers ?s) c = Some j \<longrightarrow>
        j < length (pool ?s) \<and> buf_blk (pool ?s ! j) = c \<and> data_blk ?s c \<and> c \<in> set (pinned ?s)"
    proof (intro allI)
      fix c j
      show "map_of (buffers ?s) c = Some j \<longrightarrow>
          j < length (pool ?s) \<and> buf_blk (pool ?s ! j) = c \<and> data_blk ?s c \<and> c \<in> set (pinned ?s)"
        using ok blk1 db s1(4) by (cases "c = blk") (auto simp: bl_ok_def split: if_splits)
    qed
    show "\<forall>c \<in> set (pinned ?s). map_of (buffers ?s) c \<noteq> None"
      using ok notin_set_remove1 [of _ "pinned s" blk] by (auto simp: bl_ok_def)
    show "\<forall>j < length (pool ?s). int (count (mset (pinned ?s)) (buf_blk (pool ?s ! j))) \<le> buf_pins (pool ?s ! j)"
      using counts by simp
  qed
  moreover have "tx_unpin blk s = (Inr (), ?s)"
    using s1(1) assms(3) m by (simp add: tx_unpin_def bl_unpin_def cmd_simps)
  ultimately show ?thesis
    using s1 tx_frameI [OF s1(3)] m by (intro exI [of _ ?s]) (auto simp: tx_ok_def)
qed

section \<open>Reads and writes\<close>

lemma on_conc_eq: "on_conc m s = (fst (m (conc s)), s\<lparr>conc := snd (m (conc s))\<rparr>)"
  by (simp add: on_conc_def split: prod.split)

lemma view_pinned:
  assumes "tx_ok s base rs dur" "map_of (buffers s) blk = Some i"
  shows "buf_page (pool s ! i) = view s blk" "i < length (pool s)" "buf_blk (pool s ! i) = blk" "data_blk s blk"
    "int (length (view s blk)) = blocksize s"
proof -
  have inv: "bm_inv s" and b: "i < length (pool s)" "buf_blk (pool s ! i) = blk" "data_blk s blk"
    using assms by (auto simp: tx_ok_def bm_log_def bl_ok_def)
  then show "i < length (pool s)" "buf_blk (pool s ! i) = blk" "data_blk s blk" by simp_all
  show v: "buf_page (pool s ! i) = view s blk"
    using view_cached(2) [OF _ b] inv by (simp add: bm_inv_def)
  show "int (length (view s blk)) = blocksize s"
    using bm_invD [OF inv b(1)] v by (simp add: buf_ok_def)
qed

lemma tx_ok_conc [simp]: "tx_ok (s\<lparr>conc := c\<rparr>) base rs dur = tx_ok s base rs dur"
  by (simp add: tx_ok_def bl_ok_def)

lemma tx_getInt_eq:
  assumes "tx_ok s base rs dur" "blk \<in> set (pinned s)" "fst (cm_sLock blk [] (conc s)) = Inr ()"
  shows "tx_getInt blk off s = (getInt (view s blk) off, s\<lparr>conc := snd (cm_sLock blk [] (conc s))\<rparr>)"
proof -
  obtain i where i: "map_of (buffers s) blk = Some i"
    using bl_ok_buffer assms(1,2) unfolding tx_ok_def by blast
  then show ?thesis
    using assms(3) view_pinned(1) [OF assms(1) i]
    by (simp add: tx_getInt_def on_conc_eq cmd_simps bl_getBuffer_def page_at_def)
qed

text \<open>The change of a page in memory, after the log record, if there is one.\<close>

lemma upd_twice:
  assumes "i < length (pool s)"
  shows "seq (upd (upd_buf i (\<lambda>b. b\<lparr>buf_page := p\<rparr>))) (upd (\<lambda>s. upd_buf i (buf_setModified (txNum s) lsn) s)) s =
    (Inr (), bm_modify i p (txNum s) lsn s)"
proof -
  have "txNum (upd_buf i f s) = txNum s" for f
    by (simp add: upd_buf_def)
  then show ?thesis
    using assms by (simp add: cmd_simps bm_modify_def) (simp add: upd_buf_def)
qed

lemma modify_spec:
  assumes ok: "tx_ok s base rs dur" and i: "map_of (buffers s) blk = Some i" and p: "int (length p) = blocksize s"
    and t: "0 \<le> txNum s" and lsn: "lsn \<le> latestLsn s" "lsn < 0 \<or> buf_lsn (pool s ! i) \<le> lsn"
  defines "s' \<equiv> bm_modify i p (txNum s) lsn s"
  shows "tx_ok s' base rs dur" "\<And>b. data_blk s b \<Longrightarrow> view s' b = (if b = blk then p else view s b)"
    "disk_block s' = disk_block s" "\<And>b l. dirty s b l \<Longrightarrow> dirty s' b l" "0 \<le> lsn \<Longrightarrow> dirty s' blk lsn"
    "bm.more s' = bm.more s" "latestLsn s' = latestLsn s" "log_still s s'" "blocksize s' = blocksize s"
    "logFileName s' = logFileName s" "length (pool s') = length (pool s)" "numAvailable s' = numAvailable s"
    "\<And>j. buf_pins (pool s' ! j) = buf_pins (pool s ! j)" "\<And>j. buf_blk (pool s' ! j) = buf_blk (pool s ! j)"
    "owners s' \<subseteq> insert (txNum s) (owners s)"
proof -
  note v = view_pinned [OF ok i]
  have log: "bm_log s base rs dur" and bl: "bl_ok s"
    using ok by (auto simp: tx_ok_def)
  have "data_blk s (buf_blk (pool s ! i))"
    using v(3,4) by simp
  note m = bm_modify_spec [OF log v(2) this p t lsn(1), folded s'_def]
  show more: "bm.more s' = bm.more s" "latestLsn s' = latestLsn s" "blocksize s' = blocksize s"
    "logFileName s' = logFileName s" "length (pool s') = length (pool s)" "disk_block s' = disk_block s"
    "log_still s s'" "numAvailable s' = numAvailable s"
    by (simp_all add: s'_def bm_modify_def)
  show pins: "buf_pins (pool s' ! j) = buf_pins (pool s ! j)" and blks: "buf_blk (pool s' ! j) = buf_blk (pool s ! j)" for j
    using v(2) by (cases "j = i"; simp add: m(2) buf_setModified_def)+
  show "view s' b = (if b = blk then p else view s b)" if "data_blk s b" for b
    using m(3) [OF that] v(3) by simp
  have "data_blk s' = data_blk s"
    by (simp add: s'_def bm_modify_def)
  then have "bl_ok s'"
    using bl by (simp add: bl_ok_def blks pins tx_more_eq [OF more(1)] more(5))
  then show "tx_ok s' base rs dur"
    using m(1) by (simp add: tx_ok_def)
  show "dirty s' b l" if d: "dirty s b l" for b l
  proof -
    obtain j where j: "j < length (pool s)" "buf_blk (pool s ! j) = b" "0 \<le> buf_txnum (pool s ! j)" "l \<le> buf_lsn (pool s ! j)"
      using d by (auto simp: dirty_def)
    have "0 \<le> buf_txnum (pool s' ! j)" "l \<le> buf_lsn (pool s' ! j)"
      using j t lsn(2) v(2) by (cases "j = i"; auto simp: m(2) buf_setModified_def)+
    with j blks more(5) show ?thesis by (auto simp: dirty_def)
  qed
  show "dirty s' blk lsn" if "0 \<le> lsn"
    unfolding dirty_def using v(2,3) t that by (intro exI [of _ i]) (simp add: m(2) buf_setModified_def)
  have "buf_txnum (pool s' ! j) = buf_txnum (pool s ! j) \<or> buf_txnum (pool s' ! j) = txNum s" for j
    using v(2) by (cases "j = i") (simp_all add: m(2) buf_setModified_def)
  then show "owners s' \<subseteq> insert (txNum s) (owners s)"
    unfolding owners_def more(5) by auto metis
qed

lemma tx_log_append:
  assumes "tx_ok s base rs dur" "int (length r) + 8 \<le> blocksize s"
  shows "\<exists>s' dur'. lm_append r s = (Inr (latestLsn s + 1), s') \<and> tx_ok s' base (rs @ [r]) dur' \<and> prefix dur dur' \<and>
    latestLsn s' = latestLsn s + 1 \<and> log_frame s s'"
proof -
  have log: "log_state s base rs dur" and inv: "bm_inv s" and bl: "bl_ok s"
    using assms(1) by (auto simp: tx_ok_def bm_log_def)
  from log_state_append [OF log assms(2)] obtain s' dur' where
    s': "lm_append r s = (Inr (latestLsn s + 1), s')" "log_state s' base (rs @ [r]) dur'" "prefix dur dur'"
      "log_frame s s'" "latestLsn s' = latestLsn s + 1" by blast
  note f = log_frame_bm [OF s'(4)]
  have "bm_inv s'"
    using log_frame_inv [OF s'(4) _ inv] s'(5) by simp
  moreover have "bl_ok s'"
    using bl by (simp add: bl_ok_def tx_more_eq [OF f(3)] f(1,4))
  ultimately show ?thesis
    using s' by (auto simp: tx_ok_def bm_log_def)
qed

lemma slice_length4: "0 \<le> off \<Longrightarrow> off + 4 \<le> int (length p) \<Longrightarrow> length (slice (nat off) 4 p) = 4"
  by (rule length_slice) linarith

lemma log_state_bounds: "log_state s base rs dur \<Longrightarrow> blocksize s < 2 ^ 31 \<and> 4 \<le> blocksize s"
  by (auto simp: log_state_def log_rep_def holds_def)

lemma getInt_view:
  assumes "0 \<le> off" "off + 4 \<le> int (length p)" "int (length p) < 2 ^ 31"
  shows "getInt p off = Inr (bytes_int (slice (nat off) 4 p))"
  using assms by (simp add: getInt_def usize_id)

text \<open>
  \<open>setInt\<close> without a log record, as undo uses it: the four bytes change, nothing else does.
\<close>

lemma tx_setInt_unlogged:
  assumes ok: "tx_ok s base rs dur" and i: "map_of (buffers s) blk = Some i"
    and lock: "fst (cm_xLock blk [] [] (conc s)) = Inr ()"
    and off: "0 \<le> off" "off + 4 \<le> blocksize s" and t: "0 \<le> txNum s"
  shows "tx_setInt blk off v False s = (Inr (), bm_modify i (overwrite (nat off) (int_bytes v) (view s blk)) (txNum s) (- 1)
      (s\<lparr>conc := snd (cm_xLock blk [] [] (conc s))\<rparr>))"
proof -
  let ?c = "snd (cm_xLock blk [] [] (conc s))"
  let ?p = "overwrite (nat off) (int_bytes v) (view s blk)"
  note vp = view_pinned [OF ok i]
  have bs: "blocksize s < 2 ^ 31"
    using ok log_state_bounds by (auto simp: tx_ok_def bm_log_def)
  have "setInt (view s blk) off v = Inr ?p"
    using int_field.put_eq [of off v "view s blk"] off vp(5) bs by simp
  then show ?thesis
    using i lock vp(1) upd_twice [of i "s\<lparr>conc := ?c\<rparr>" ?p "- 1"] vp(2)
    by (simp add: tx_setInt_def on_conc_eq cmd_simps bl_getBuffer_def page_at_def)
qed

text \<open>\<open>setInt\<close> with its log record.\<close>

definition upd_rec :: "int \<Rightarrow> block_id \<times> int \<times> int \<Rightarrow> bytes" where
  "upd_rec t u = (case u of (b, off, old) \<Rightarrow>
     int_bytes 4 @ int_bytes t @ str_bytes (fileName b) @ int_bytes (number b) @ int_bytes off @ int_bytes old)"

lemma length_upd_rec: "int (length (upd_rec t (b, off, old))) = 24 + int (length (fileName b))"
  by (simp add: upd_rec_def)

lemma tx_setInt_logged:
  assumes ok: "tx_ok s base rs dur" and i: "map_of (buffers s) blk = Some i"
    and lock: "fst (cm_xLock blk [] [] (conc s)) = Inr ()"
    and off: "0 \<le> off" "off + 4 \<le> blocksize s" and t: "0 \<le> txNum s"
    and fits: "int (length (fileName blk)) + 32 \<le> blocksize s"
  defines "old \<equiv> bytes_int (slice (nat off) 4 (view s blk))"
  shows "\<exists>s1 dur'. lm_append (upd_rec (txNum s) (blk, off, old)) (s\<lparr>conc := snd (cm_xLock blk [] [] (conc s))\<rparr>) =
      (Inr (latestLsn s + 1), s1) \<and>
    tx_ok s1 base (rs @ [upd_rec (txNum s) (blk, off, old)]) dur' \<and> prefix dur dur' \<and> latestLsn s1 = latestLsn s + 1 \<and>
    log_frame (s\<lparr>conc := snd (cm_xLock blk [] [] (conc s))\<rparr>) s1 \<and>
    tx_setInt blk off v True s =
      (Inr (), bm_modify i (overwrite (nat off) (int_bytes v) (view s blk)) (txNum s) (latestLsn s + 1) s1)"
proof -
  let ?c = "snd (cm_xLock blk [] [] (conc s))" and ?r = "upd_rec (txNum s) (blk, off, old)"
  let ?rel = "s\<lparr>conc := ?c\<rparr>"
  let ?p = "overwrite (nat off) (int_bytes v) (view s blk)"
  note vp = view_pinned [OF ok i]
  have bs: "blocksize s < 2 ^ 31"
    using ok log_state_bounds by (auto simp: tx_ok_def bm_log_def)
  have get: "getInt (view s blk) off = Inr old"
    using getInt_view [of off "view s blk"] off vp(5) bs by (simp add: old_def)
  have enc: "setInt_bytes (txNum s) blk off old = Inr ?r"
    using setInt_bytes_eq [of blk "txNum s" off old] fits bs by (simp add: upd_rec_def)
  have "int (length ?r) + 8 \<le> blocksize ?rel"
    using fits by (simp add: length_upd_rec)
  from tx_log_append [of ?rel base rs dur, OF _ this] ok obtain s1 dur' where
    s1: "lm_append ?r ?rel = (Inr (latestLsn s + 1), s1)" "tx_ok s1 base (rs @ [?r]) dur'" "prefix dur dur'"
      "latestLsn s1 = latestLsn s + 1" "log_frame ?rel s1"
    by auto
  note f = log_frame_bm [OF s1(5)]
  note m = tx_more_eq [OF f(3)]
  have pg: "buf_page (pool s1 ! i) = view s blk" and il: "i < length (pool s1)" and tn: "txNum s1 = txNum s"
    using vp(1,2) f(1) m(3) by auto
  have "setInt (view s blk) off v = Inr ?p"
    using int_field.put_eq [of off v "view s blk"] off vp(5) bs by simp
  then have "tx_setInt blk off v True s = (Inr (), bm_modify i ?p (txNum s) (latestLsn s + 1) s1)"
    using i lock vp(1,3) get enc s1(1) pg upd_twice [OF il, of ?p "latestLsn s + 1"] tn
    by (simp add: tx_setInt_def rm_setInt_def on_conc_eq cmd_simps bl_getBuffer_def page_at_def)
  with s1 show ?thesis by blast
qed


section \<open>Ending a transaction\<close>

text \<open>
  \<open>bl_pins s blks\<close>: the blocks are in buffers that have at least as many pins as there are
  entries for them.
\<close>

definition bl_pins :: "'a tx_scheme \<Rightarrow> block_id list \<Rightarrow> bool" where
  "bl_pins s blks \<longleftrightarrow>
     (\<forall>blk \<in> set blks. \<exists>i. map_of (buffers s) blk = Some i \<and> i < length (pool s) \<and> buf_blk (pool s ! i) = blk) \<and>
     (\<forall>i < length (pool s). int (count (mset blks) (buf_blk (pool s ! i))) \<le> buf_pins (pool s ! i))"

lemma unpin_all_spec:
  assumes "bm_log s base rs dur" "bl_pins s blks"
  shows "\<exists>s'. bl_unpin_all blks s = (Inr (), s') \<and> bm_log s' base rs dur \<and> bm_frame (dlsn base dur) s s'"
  using assms
proof (induction blks arbitrary: s)
  case Nil
  then show ?case by (simp add: cmd_simps)
next
  case (Cons blk blks)
  obtain i where i: "map_of (buffers s) blk = Some i" "i < length (pool s)" "buf_blk (pool s ! i) = blk"
    using Cons.prems(2) by (auto simp: bl_pins_def)
  have cnt: "int (count (mset (blk # blks)) (buf_blk (pool s ! j))) \<le> buf_pins (pool s ! j)" if "j < length (pool s)" for j
    using Cons.prems(2) that by (simp add: bl_pins_def)
  have "buf_isPinned (pool s ! i)"
    using cnt [OF i(2)] i(3) by (simp add: buf_isPinned_def)
  from bm_unpin_spec [OF Cons.prems(1) i(2) this] obtain s1 where
    s1: "bm_unpin i s = (Inr (), s1)" "bm_log s1 base rs dur" "bm_frame (dlsn base dur) s s1"
      "pool s1 = (pool s)[i := buf_unpin (pool s ! i)]" by blast
  have m: "buffers s1 = buffers s"
    using s1(3) by (auto simp: bm_frame_def dest: tx_more_eq(5))
  have blk1: "buf_blk (pool s1 ! j) = buf_blk (pool s ! j)" for j
    using i(2) by (cases "j = i") (simp_all add: s1(4) buf_unpin_def)
  have "int (count (mset blks) (buf_blk (pool s ! j))) \<le> buf_pins (pool s1 ! j)" if j: "j < length (pool s)" for j
    using cnt [OF j] i(2,3) j by (cases "j = i") (auto simp: s1(4) buf_unpin_def split: if_splits)
  then have "bl_pins s1 blks"
    using Cons.prems(2) blk1 m s1(4) by (auto simp: bl_pins_def)
  from Cons.IH [OF s1(2) this] obtain s2 where
    s2: "bl_unpin_all blks s1 = (Inr (), s2)" "bm_log s2 base rs dur" "bm_frame (dlsn base dur) s1 s2" by blast
  have "bl_unpin_all (blk # blks) s = (Inr (), s2)"
    using i(1) s1(1) s2(1) by (simp add: cmd_simps bl_getBuffer_def)
  then show ?case
    using s2(2) bm_frame_trans [OF s1(3) s2(3)] by blast
qed

lemma tx_end_spec:
  assumes "tx_ok s base rs dur"
  shows "\<exists>s'. tx_end s = (Inr (), s') \<and> tx_ok s' base rs dur \<and> tx_frame (dlsn base dur) s s' \<and>
    conc s' = cm_release (conc s) \<and> pinned s' = [] \<and> buffers s' = []"
proof -
  let ?rel = "s\<lparr>conc := cm_release (conc s)\<rparr>"
  have log: "bm_log ?rel base rs dur" and bl: "bl_ok s"
    using assms by (auto simp: tx_ok_def)
  have "bl_pins ?rel (pinned s)"
    using bl bl_ok_buffer [OF bl] by (auto simp: bl_pins_def bl_ok_def)
  from unpin_all_spec [OF log this] obtain s1 where
    s1: "bl_unpin_all (pinned s) ?rel = (Inr (), s1)" "bm_log s1 base rs dur" "bm_frame (dlsn base dur) ?rel s1" by blast
  let ?s = "s1\<lparr>buffers := [], pinned := [], finished := True\<rparr>"
  have m: "conc s1 = conc ?rel"
    using s1(3) by (auto simp: bm_frame_def dest: tx_more_eq(1))
  have "tx_end s = (Inr (), ?s)"
    using s1(1) by (simp add: tx_end_def bl_unpinAll_def cmd_simps)
  moreover have "tx_ok ?s base rs dur"
  proof -
    have "0 \<le> buf_pins (pool s1 ! i)" if "i < length (pool s1)" for i
      using s1(2) that by (simp add: bm_log_def bm_inv_def buf_ok_def)
    with s1(2) show ?thesis by (simp add: tx_ok_def bl_ok_def)
  qed
  moreover have "tx_frame (dlsn base dur) s ?s"
    using tx_frameI [OF s1(3)] unfolding tx_frame_def by simp
  ultimately show ?thesis
    using m by (intro exI [of _ ?s]) simp
qed

end
