(* ===== verification/Recovery.thy ===== *)
theory Recovery
  imports Transactions
begin

text \<open>
  Why undo works. A transaction's log holds the old value of every change; the contents
  differ from those before the transaction only where a record covers them. The theory
  keeps this for the contents the program sees and, with the durable records, for the disk,
  and proves from it that rollback and recovery after a crash restore the contents before
  the transaction, and that commit makes the changes durable.
\<close>

section \<open>Undoing a list of changes\<close>

text \<open>A change is a block, an offset and the old value there.\<close>

type_synonym change = "block_id \<times> int \<times> int"

definition covers :: "change list \<Rightarrow> block_id \<Rightarrow> nat \<Rightarrow> bool" where
  "covers us b p \<longleftrightarrow> (\<exists>(c, off, old) \<in> set us. c = b \<and> nat off \<le> p \<and> p < nat off + 4)"

definition old_ok :: "(block_id \<Rightarrow> bytes) \<Rightarrow> change list \<Rightarrow> change \<Rightarrow> bool" where
  "old_ok P us u = (case u of (b, off, old) \<Rightarrow>
     \<forall>k < 4. \<not> covers us b (nat off + k) \<longrightarrow> int_bytes old ! k = P b ! (nat off + k))"

text \<open>Every record that is the first to cover a byte holds the byte of \<open>P\<close>.\<close>

definition consistent :: "(block_id \<Rightarrow> bytes) \<Rightarrow> change list \<Rightarrow> bool" where
  "consistent P us \<longleftrightarrow> (\<forall>j < length us. old_ok P (take j us) (us ! j))"

definition agree :: "(block_id \<Rightarrow> bytes) \<Rightarrow> change list \<Rightarrow> (block_id \<Rightarrow> bytes) \<Rightarrow> block_id \<Rightarrow> bool" where
  "agree P us X b \<longleftrightarrow> length (X b) = length (P b) \<and> (\<forall>p < length (P b). \<not> covers us b p \<longrightarrow> X b ! p = P b ! p)"

definition undo1 :: "change \<Rightarrow> (block_id \<Rightarrow> bytes) \<Rightarrow> (block_id \<Rightarrow> bytes)" where
  "undo1 u X = (case u of (b, off, old) \<Rightarrow> X(b := overwrite (nat off) (int_bytes old) (X b)))"

lemma covers_simps [simp]:
  "\<not> covers [] b p"
  "covers (us @ [(c, off, old)]) b p \<longleftrightarrow> covers us b p \<or> c = b \<and> nat off \<le> p \<and> p < nat off + 4"
  by (auto simp: covers_def)

lemma covers_mono: "set us \<subseteq> set vs \<Longrightarrow> covers us b p \<Longrightarrow> covers vs b p"
  by (auto simp: covers_def)

lemma consistent_snoc: "consistent P (us @ [u]) \<longleftrightarrow> consistent P us \<and> old_ok P us u"
  by (auto simp: consistent_def nth_append less_Suc_eq)

lemma consistent_take: "consistent P us \<Longrightarrow> consistent P (take n us)"
  by (auto simp: consistent_def min_def)

lemma agree_Nil: "agree P [] X b \<longleftrightarrow> X b = P b"
  by (auto simp: agree_def intro: nth_equalityI)

lemma agree_mono: "set us \<subseteq> set vs \<Longrightarrow> agree P us X b \<Longrightarrow> agree P vs X b"
  using covers_mono by (auto simp: agree_def)

lemma undo_agree:
  assumes "old_ok P us u" "agree P (us @ [u]) X b" "u = (c, off, old)" "c = b \<Longrightarrow> nat off + 4 \<le> length (P b)"
  shows "agree P us (undo1 u X) b"
proof (cases "c = b")
  case False
  with assms(2,3) show ?thesis
    by (simp add: agree_def undo1_def)
next
  case True
  have len: "length (X b) = length (P b)" and off: "nat off + 4 \<le> length (P b)"
    using assms(2,4) True by (simp_all add: agree_def)
  have "overwrite (nat off) (int_bytes old) (X b) ! p = P b ! p" if p: "p < length (P b)" "\<not> covers us b p" for p
  proof (cases "nat off \<le> p \<and> p < nat off + 4")
    case in_range: True
    define k where "k = p - nat off"
    have k: "k < 4" "p = nat off + k"
      using in_range by (auto simp: k_def)
    then have "int_bytes old ! k = P b ! p"
      using assms(1,3) True p(2) by (simp add: old_ok_def)
    then show ?thesis
      using k len off by (simp add: nth_overwrite)
  next
    case False
    then have "X b ! p = P b ! p"
      using assms(2,3) p True by (auto simp: agree_def)
    with False len off p show ?thesis by (auto simp: nth_overwrite)
  qed
  with len off assms(3) True show ?thesis
    by (auto simp: agree_def undo1_def)
qed

text \<open>A logged change keeps both: its record holds the bytes it replaces.\<close>

lemma agree_change:
  assumes "agree P us X b" "int (length (X b)) = bs" "0 \<le> off" "off + 4 \<le> bs"
    "old = bytes_int (slice (nat off) 4 (X b))"
  shows "agree P (us @ [(b, off, old)]) (X(b := overwrite (nat off) (int_bytes v) (X b))) b" "old_ok P us (b, off, old)"
proof -
  have len: "length (X b) = length (P b)" and off: "nat off + 4 \<le> length (X b)"
    using assms by (auto simp: agree_def)
  then show "agree P (us @ [(b, off, old)]) (X(b := overwrite (nat off) (int_bytes v) (X b))) b"
    using assms(1) by (auto simp: agree_def nth_overwrite)
  have "int_bytes old = slice (nat off) 4 (X b)"
    unfolding assms(5) by (rule bytes_int_range(2)) (use off in \<open>simp add: length_slice\<close>)
  then have "int_bytes old ! k = X b ! (nat off + k)" if "k < 4" for k
    using that off by (simp add: slice_def)
  with assms(1) len off show "old_ok P us (b, off, old)"
    by (auto simp: agree_def old_ok_def)
qed

section \<open>A transaction in progress\<close>

definition change_ok :: "'a tx_scheme \<Rightarrow> change \<Rightarrow> bool" where
  "change_ok s u = (case u of (b, off, old) \<Rightarrow> data_blk s b \<and> 0 \<le> off \<and> off + 4 \<le> blocksize s \<and> int32 old \<and>
     int32 (number b) \<and> int (length (fileName b)) + 32 \<le> blocksize s)"

definition x_locked :: "block_id \<Rightarrow> 'a tx_scheme \<Rightarrow> bool" where
  "x_locked b s \<longleftrightarrow> cm_hasXLock b (conc s)"

text \<open>
  \<open>active P pre us s base dur\<close>: the transaction began when the contents were \<open>P\<close> and the log
  was \<open>pre\<close>, its start record included, and has since made the changes \<open>us\<close>. The disk differs
  from \<open>P\<close> only where the durable ones of their records cover it.
\<close>

definition active ::
  "(block_id \<Rightarrow> bytes) \<Rightarrow> bytes list \<Rightarrow> change list \<Rightarrow> 'a tx_scheme \<Rightarrow> nat \<Rightarrow> bytes list \<Rightarrow> bool" where
  "active P pre us s base dur \<longleftrightarrow>
     tx_ok s base (pre @ map (upd_rec (txNum s)) us) dur \<and> consistent P us \<and> (\<forall>u \<in> set us. change_ok s u \<and> x_locked (fst u) s) \<and>
     (\<forall>b. data_blk s b \<longrightarrow> int (length (P b)) = blocksize s \<and> agree P us (view s) b \<and>
        agree P (take (length dur - length pre) us) (disk_block s) b) \<and>
     (\<forall>j < length us. length dur \<le> length pre + j \<longrightarrow> dirty s (fst (us ! j)) (int (length pre + j) + 1 - int base)) \<and>
     base \<le> length pre \<and> 0 \<le> txNum s \<and> int32 (txNum s) \<and> owners s \<subseteq> {txNum s}"

lemma activeD:
  assumes "active P pre us s base dur"
  shows "tx_ok s base (pre @ map (upd_rec (txNum s)) us) dur" "consistent P us" "\<And>u. u \<in> set us \<Longrightarrow> change_ok s u"
    "\<And>b. data_blk s b \<Longrightarrow> agree P us (view s) b" "0 \<le> txNum s" "int32 (txNum s)" "owners s \<subseteq> {txNum s}"
    "\<And>b. data_blk s b \<Longrightarrow> int (length (P b)) = blocksize s" "base \<le> length pre"
  using assms by (auto simp: active_def)

text \<open>Operations that change no contents keep a transaction in progress.\<close>

lemma active_frame:
  assumes act: "active P pre us s base dur" and ok: "tx_ok s' base (pre @ map (upd_rec (txNum s)) us) dur'"
    and fr: "tx_frame (dlsn base dur') s s'" and pr: "prefix dur dur'"
    and lk: "\<And>b. x_locked b s \<Longrightarrow> x_locked b s'"
  shows "active P pre us s' base dur'"
proof -
  have core: "bm_core (dlsn base dur') s s'" and t: "txNum s' = txNum s"
    using fr by (simp_all add: tx_frame_def)
  have db: "data_blk s' = data_blk s" and bs: "blocksize s' = blocksize s" and ow: "owners s' \<subseteq> owners s"
    using core bm_core_data_blk [OF core] by (auto simp: bm_core_def)
  have le: "length dur \<le> length dur'"
    using pr by (rule prefix_length_le)
  let ?lsn = "\<lambda>j. int (length pre + j) + 1 - int base"
  have dirt: "dirty s (fst (us ! j)) (?lsn j)" if "j < length us" "length dur \<le> length pre + j" for j
    using act that by (simp add: active_def)
  have dblk: "data_blk s (fst (us ! j))" if "j < length us" for j
    using act nth_mem [OF that] by (cases "us ! j") (auto simp: active_def change_ok_def)
  have disk: "agree P (take (length dur' - length pre) us) (disk_block s') b" if b: "data_blk s b" for b
  proof -
    have a: "agree P us (view s) b" "agree P (take (length dur - length pre) us) (disk_block s) b"
      using act b by (auto simp: active_def)
    have "disk_block s' b = disk_block s b \<or> disk_block s' b = view s b \<and> (\<forall>l. dirty s b l \<longrightarrow> l \<le> dlsn base dur')"
      using core b by (simp add: bm_core_def)
    then show ?thesis
    proof
      assume same: "disk_block s' b = disk_block s b"
      have "set (take (length dur - length pre) us) \<subseteq> set (take (length dur' - length pre) us)"
        using le by (intro set_take_subset_set_take) simp
      from agree_mono [OF this a(2)] same show ?thesis
        by (simp add: agree_def)
    next
      assume new: "disk_block s' b = view s b \<and> (\<forall>l. dirty s b l \<longrightarrow> l \<le> dlsn base dur')"
      have "covers (take (length dur' - length pre) us) b p" if cv: "covers us b p" for p
      proof -
        obtain u where u: "u \<in> set us" "fst u = b" "nat (fst (snd u)) \<le> p \<and> p < nat (fst (snd u)) + 4"
          using cv by (auto simp: covers_def)
        then obtain j where j: "j < length us" "us ! j = u"
          by (auto simp: in_set_conv_nth)
        have "j < length dur' - length pre"
        proof (rule ccontr)
          assume "\<not> j < length dur' - length pre"
          then have "length dur' \<le> length pre + j" by simp
          with dirt [OF j(1)] le new u(2) j(2) have "?lsn j \<le> dlsn base dur'" by simp
          with \<open>length dur' \<le> length pre + j\<close> show False by (simp add: dlsn_def)
        qed
        then have "u \<in> set (take (length dur' - length pre) us)"
          using j by (metis in_set_conv_nth length_take min_less_iff_conj nth_take)
        then show ?thesis
          unfolding covers_def using u(2,3) by (intro bexI [of _ u]) (auto split: prod.splits)
      qed
      with a(1) new show ?thesis
        by (auto simp: agree_def)
    qed
  qed
  have "dirty s' (fst (us ! j)) (?lsn j)" if j: "j < length us" "length dur' \<le> length pre + j" for j
  proof -
    have "dirty s' (fst (us ! j)) (?lsn j) \<or> ?lsn j \<le> dlsn base dur'"
      using core dblk [OF j(1)] dirt [OF j(1)] j(2) le by (auto simp: bm_core_def)
    with j(2) show ?thesis by (auto simp: dlsn_def)
  qed
  moreover have "agree P us (view s') b" if "data_blk s b" for b
    using act core that by (simp add: active_def agree_def bm_core_def)
  ultimately show ?thesis
    using act ok ow disk lk unfolding active_def t bs db
    by (auto simp: change_ok_def db bs)
qed

lemma cm_xLock_has:
  assumes "cm_xLock b [] [] c = (Inr (), c')"
  shows "cm_hasXLock b c'" "\<And>d. cm_hasXLock d c \<Longrightarrow> cm_hasXLock d c'"
  using assms
  by (auto simp: cm_xLock_def cm_sLock_def cm_hasXLock_def on_table_def seq_def bnd_def upd_def
      split: if_splits prod.splits sum.splits option.splits)

lemma cm_sLock_keeps: "cm_hasXLock d c \<Longrightarrow> cm_hasXLock d (snd (cm_sLock b [] c))"
  by (auto simp: cm_sLock_def cm_hasXLock_def on_table_def seq_def bnd_def upd_def
      split: if_splits prod.splits sum.splits option.splits)

lemma bnd_Inr_iff: "bnd m f s = (Inr y, s') \<longleftrightarrow> (\<exists>x t. m s = (Inr x, t) \<and> f x t = (Inr y, s'))"
  by (auto simp: bnd_def split: prod.splits sum.splits)

lemma getInt_bounds:
  assumes "getInt p off = Inr v" shows "0 \<le> off" "off + 4 \<le> int (length p)"
  using assms by (auto simp: getInt_def split: if_splits)

text \<open>What a successful \<open>setInt\<close> has checked.\<close>

lemma tx_setInt_success:
  assumes ok: "tx_ok s base rs dur" and run: "tx_setInt blk off v True s = (Inr (), s')"
  shows "fst (cm_xLock blk [] [] (conc s)) = Inr ()" "\<exists>i. map_of (buffers s) blk = Some i"
    "0 \<le> off" "off + 4 \<le> blocksize s"
proof -
  let ?c = "snd (cm_xLock blk [] [] (conc s))"
  from run show l: "fst (cm_xLock blk [] [] (conc s)) = Inr ()"
    by (auto simp: tx_setInt_def seq_def bnd_Inr_iff on_conc_eq)
  from run l obtain i where i: "map_of (buffers s) blk = Some i"
    by (auto simp: tx_setInt_def seq_def bnd_Inr_iff on_conc_eq bl_getBuffer_def gets_def raise_def split: option.splits)
  then show "\<exists>i. map_of (buffers s) blk = Some i" ..
  note vp = view_pinned [OF ok i]
  from run l i obtain w where "getInt (buf_page (pool s ! i)) off = Inr w"
    by (auto simp: tx_setInt_def rm_setInt_def seq_def bnd_Inr_iff on_conc_eq bl_getBuffer_def gets_def ret_def page_at_def lift_def)
  then show "0 \<le> off" "off + 4 \<le> blocksize s"
    using getInt_bounds [of "view s blk" off w] vp(1,5) by auto
qed

lemma tx_ok_lsn: "tx_ok s base rs dur \<Longrightarrow> int (length rs) = int base + latestLsn s"
  by (auto simp: tx_ok_def bm_log_def log_state_def)

lemma active_setInt:
  assumes act: "active P pre us s base dur" and run: "tx_setInt blk off v True s = (Inr (), s')"
    and blk: "int32 (number blk)" "int (length (fileName blk)) + 32 \<le> blocksize s"
  shows "\<exists>u dur'. active P pre (us @ [u]) s' base dur' \<and> prefix dur dur' \<and> txNum s' = txNum s \<and> nextTxNum s' = nextTxNum s \<and>
    blocksize s' = blocksize s \<and> logFileName s' = logFileName s \<and> length (pool s') = length (pool s) \<and>
    conc s' = snd (cm_xLock blk [] [] (conc s))"
proof -
  note a = activeD [OF act]
  note sc = tx_setInt_success [OF a(1) run]
  obtain i where i: "map_of (buffers s) blk = Some i" using sc(2) by blast
  note vp = view_pinned [OF a(1) i]
  let ?old = "bytes_int (slice (nat off) 4 (view s blk))"
  let ?u = "(blk, off, ?old)" and ?p = "overwrite (nat off) (int_bytes v) (view s blk)"
  let ?lk = "s\<lparr>conc := snd (cm_xLock blk [] [] (conc s))\<rparr>"
  from tx_setInt_logged [OF a(1) i sc(1,3,4) a(5) blk(2)] obtain s1 dur' where
    s1: "tx_ok s1 base ((pre @ map (upd_rec (txNum s)) us) @ [upd_rec (txNum s) ?u]) dur'" "prefix dur dur'"
      "latestLsn s1 = latestLsn s + 1" "log_frame ?lk s1"
      "tx_setInt blk off v True s = (Inr (), bm_modify i ?p (txNum s) (latestLsn s + 1) s1)" by blast
  note f = log_frame_bm [OF s1(4)]
  note m = tx_more_eq [OF f(3)]
  have t1: "txNum s1 = txNum s" and i1: "map_of (buffers s1) blk = Some i" and c1: "conc s1 = snd (cm_xLock blk [] [] (conc s))"
    using m i by simp_all
  have dsk: "disk_block s1 b = disk_block s b" "view s1 b = view s b" if "data_blk s b" for b
    using f(6,7) that by auto
  have drt: "dirty s1 b l = dirty s b l" and own: "owners s1 = owners s" for b l
    using f(1) by (simp_all add: dirty_def owners_def)
  have s': "s' = bm_modify i ?p (txNum s1) (latestLsn s1) s1"
    using run s1(3,5) t1 by simp
  have lp: "int (length ?p) = blocksize s1"
    using sc(3,4) vp(5) f(5) by simp
  have "buf_lsn (pool s1 ! i) \<le> latestLsn s1"
    using s1(1) vp(2) f(1) by (auto simp: tx_ok_def bm_log_def bm_inv_def buf_ok_def)
  note md = modify_spec [OF s1(1) i1 lp _ order_refl disjI2 [OF this], folded s', unfolded t1, OF a(5)]
  have db: "data_blk s' = data_blk s" "blocksize s' = blocksize s"
    using f(4,5) md(9,10) by (auto simp: data_blk_def fun_eq_iff log_frame_def)
  have t': "txNum s' = txNum s" and cc: "conc s' = snd (cm_xLock blk [] [] (conc s))"
    using tx_more_eq [OF md(6)] t1 c1 by simp_all
  have lock: "cm_xLock blk [] [] (conc s) = (Inr (), conc s')"
    using sc(1) cc by (simp add: prod_eq_iff)
  have lsn: "latestLsn s1 = int (length pre + length us) + 1 - int base"
    using tx_ok_lsn [OF s1(1)] by simp
  then have nn: "0 \<le> latestLsn s1"
    using a(9) by simp
  have ch: "agree P (us @ [?u]) ((view s)(blk := ?p)) blk" "old_ok P us ?u"
    using agree_change [OF a(4) [OF vp(4)] vp(5) sc(3,4) refl] by simp_all
  have "active P pre (us @ [?u]) s' base dur'"
    unfolding active_def t'
  proof (intro conjI)
    show "tx_ok s' base (pre @ map (upd_rec (txNum s)) (us @ [?u])) dur'"
      using md(1) by simp
    show "consistent P (us @ [?u])"
      using a(2) ch(2) by (simp add: consistent_snoc)
    have "int32 ?old"
      using sc(3,4) vp(5) by (intro bytes_int_range(1) slice_length4) simp_all
    then show "\<forall>u \<in> set (us @ [?u]). change_ok s' u \<and> x_locked (fst u) s'"
      using act cm_xLock_has [OF lock] vp(4) sc(3,4) blk
      by (auto simp: active_def change_ok_def x_locked_def db)
    show "\<forall>b. data_blk s' b \<longrightarrow> int (length (P b)) = blocksize s' \<and> agree P (us @ [?u]) (view s') b \<and>
        agree P (take (length dur' - length pre) (us @ [?u])) (disk_block s') b"
    proof (intro allI impI conjI)
      fix b assume "data_blk s' b"
      then have b: "data_blk s b" by (simp add: db)
      then have b1: "data_blk s1 b" using f(4) by simp
      show "int (length (P b)) = blocksize s'"
        using a(8) [OF b] db by simp
      have "view s' b = ((view s)(blk := ?p)) b"
        using md(2) [OF b1] dsk(2) [OF b] by simp
      moreover have "agree P (us @ [?u]) (view s) b" if "b \<noteq> blk"
        using agree_mono [OF _ a(4) [OF b], of "us @ [?u]"] by auto
      ultimately show "agree P (us @ [?u]) (view s') b"
        using ch(1) by (cases "b = blk") (auto simp: agree_def)
      have same: "disk_block s' b = disk_block s b"
        using md(3) dsk(1) [OF b] by simp
      have old: "agree P (take (length dur - length pre) us) (disk_block s) b"
        using act b by (simp add: active_def)
      have "set (take (length dur - length pre) us) \<subseteq> set (take (length dur' - length pre) (us @ [?u]))"
        using set_take_subset_set_take [OF diff_le_mono [OF prefix_length_le [OF s1(2)]], of "length pre" us] by auto
      from agree_mono [OF this old] same show "agree P (take (length dur' - length pre) (us @ [?u])) (disk_block s') b"
        by (simp add: agree_def)
    qed
    show "\<forall>j < length (us @ [?u]). length dur' \<le> length pre + j \<longrightarrow>
        dirty s' (fst ((us @ [?u]) ! j)) (int (length pre + j) + 1 - int base)"
    proof (intro allI impI)
      fix j assume j: "j < length (us @ [?u])" "length dur' \<le> length pre + j"
      show "dirty s' (fst ((us @ [?u]) ! j)) (int (length pre + j) + 1 - int base)"
      proof (cases "j < length us")
        case True
        have "length dur \<le> length pre + j"
          using prefix_length_le [OF s1(2)] j(2) by simp
        then have "dirty s (fst (us ! j)) (int (length pre + j) + 1 - int base)"
          using act True by (simp add: active_def)
        then show ?thesis
          using md(4) drt True by (simp add: nth_append)
      next
        case False
        then have "j = length us" using j(1) by simp
        then show ?thesis
          using md(5) [OF nn] lsn by simp
      qed
    qed
    show "owners s' \<subseteq> {txNum s}"
      using md(15) own a(7) by auto
  qed (use a in auto)
  moreover have "length (pool s') = length (pool s)" "nextTxNum s' = nextTxNum s"
    using md(11) f(1) tx_more_eq(2) [OF md(6)] m(2) by simp_all
  moreover have "logFileName s' = logFileName s"
    using md(10) s1(4) by (simp add: log_frame_def)
  ultimately show ?thesis
    using s1(2) t' db cc by blast
qed

section \<open>Locks of a transaction that runs alone\<close>

text \<open>The lock table holds the locks of this transaction only; requests are then granted.\<close>

definition solo :: "conc \<Rightarrow> bool" where
  "solo c \<longleftrightarrow> om_ok (locks c) \<and> (\<forall>b. lt_getLockVal b (lockTable c) =
     (case map_of (locks c) b of None \<Rightarrow> 0 | Some k \<Rightarrow> if k = ''X'' then - 1 else 1))"

lemma soloD:
  assumes "solo c"
  shows "lt_hasXLock b (lockTable c) \<longleftrightarrow> cm_hasXLock b c" "\<not> lt_hasOtherSLocks b (lockTable c)"
  using assms by (auto simp: solo_def lt_hasXLock_def lt_hasOtherSLocks_def cm_hasXLock_def split: option.split)

lemma solo_sLock:
  assumes "solo c"
  shows "fst (cm_sLock b [] c) = Inr ()" "solo (snd (cm_sLock b [] c))" "map_of (locks (snd (cm_sLock b [] c))) b \<noteq> None"
proof -
  have "\<not> cm_hasXLock b c" if "map_of (locks c) b = None"
    using that by (simp add: cm_hasXLock_def)
  then show "fst (cm_sLock b [] c) = Inr ()" "solo (snd (cm_sLock b [] c))" "map_of (locks (snd (cm_sLock b [] c))) b \<noteq> None"
    using assms soloD(1) [OF assms, of b]
    by (auto simp: cm_sLock_def on_table_def cmd_simps lt_sLock.simps solo_def om_ok_put)
qed

lemma solo_xLock:
  assumes "solo c"
  shows "fst (cm_xLock b [] [] c) = Inr ()" "solo (snd (cm_xLock b [] [] c))"
proof -
  let ?c = "snd (cm_sLock b [] c)"
  have s: "cm_sLock b [] c = (Inr (), ?c)" "solo ?c"
    using solo_sLock [OF assms, of b] by (auto simp: prod_eq_iff)
  show "fst (cm_xLock b [] [] c) = Inr ()" "solo (snd (cm_xLock b [] [] c))"
    using assms s soloD(2) [OF s(2), of b]
    by (auto simp: cm_xLock_def on_table_def cmd_simps lt_xLock.simps solo_def om_ok_put)
qed

lemma solo_release: "solo c \<Longrightarrow> solo (cm_release c)"
proof -
  assume c: "solo c"
  have "lt_getLockVal b (lockTable (cm_release c)) = 0" for b
  proof (cases "map_of (locks c) b")
    case None
    then have "b \<notin> fst ` set (locks c)" by (simp add: map_of_eq_None_iff)
    with c None show ?thesis
      by (simp add: solo_def cm_release_def lockVal_unlock_all om_ok_distinct)
  next
    case (Some k)
    then have "b \<in> fst ` set (locks c)" by (metis map_of_eq_None_iff option.distinct(1))
    with c Some show ?thesis
      by (auto simp: solo_def cm_release_def lockVal_unlock_all om_ok_distinct)
  qed
  then show ?thesis by (simp add: solo_def cm_release_def)
qed

lemma solo_release_free: "solo c \<Longrightarrow> lt_getLockVal b (lockTable (cm_release c)) = 0"
  using solo_release [of c] by (simp add: solo_def cm_release_def)

lemma solo_start: "(\<And>b. lt_getLockVal b (lockTable c) = 0) \<Longrightarrow> solo (c\<lparr>locks := []\<rparr>)"
  by (simp add: solo_def)

section \<open>Running operations\<close>

datatype tx_op = OpPin block_id | OpUnpin block_id | OpGetInt block_id int | OpSetInt block_id int int

fun op_run :: "tx_op \<Rightarrow> ('a tx_scheme, unit) cmd" where
  "op_run (OpPin b) = tx_pin b"
| "op_run (OpUnpin b) = tx_unpin b"
| "op_run (OpGetInt b off) = bnd (tx_getInt b off) (\<lambda>_. ret ())"
| "op_run (OpSetInt b off v) = tx_setInt b off v True"

fun ops_run :: "tx_op list \<Rightarrow> ('a tx_scheme, unit) cmd" where
  "ops_run [] = ret ()"
| "ops_run (x # xs) = seq (op_run x) (ops_run xs)"

text \<open>The blocks are data blocks whose update records fit in the log.\<close>

fun op_blk :: "tx_op \<Rightarrow> block_id" where
  "op_blk (OpPin b) = b"
| "op_blk (OpUnpin b) = b"
| "op_blk (OpGetInt b _) = b"
| "op_blk (OpSetInt b _ _) = b"

definition blk_fits :: "int \<Rightarrow> string \<Rightarrow> block_id \<Rightarrow> bool" where
  "blk_fits bs logName b \<longleftrightarrow> fileName b \<noteq> logName \<and> fileName b \<noteq> [] \<and> 0 \<le> number b \<and> number b < 2 ^ 31 \<and>
     int (length (fileName b)) + 32 \<le> bs"

lemma blk_fitsD:
  assumes "blk_fits (blocksize s) (logFileName s) b"
  shows "data_blk s b" "int32 (number b)" "int (length (fileName b)) + 32 \<le> blocksize s"
  using assms by (auto simp: blk_fits_def data_blk_def int32_def)

definition same_tx :: "'a tx_scheme \<Rightarrow> 'a tx_scheme \<Rightarrow> bool" where
  "same_tx s s' \<longleftrightarrow> txNum s' = txNum s \<and> nextTxNum s' = nextTxNum s \<and> blocksize s' = blocksize s \<and>
     logFileName s' = logFileName s \<and> length (pool s') = length (pool s)"

lemma same_tx_frame: "tx_frame d s s' \<Longrightarrow> same_tx s s'"
  by (simp add: tx_frame_def bm_core_def same_tx_def)

lemma same_tx_trans: "same_tx s s' \<Longrightarrow> same_tx s' s'' \<Longrightarrow> same_tx s s''"
  by (simp add: same_tx_def)

lemma active_op:
  assumes act: "active P pre us s base dur" and run: "op_run x s = (Inr (), s')"
    and fits: "blk_fits (blocksize s) (logFileName s) (op_blk x)"
  shows "\<exists>us' dur'. active P pre (us @ us') s' base dur' \<and> prefix dur dur' \<and> same_tx s s' \<and> length us' \<le> 1 \<and>
    (solo (conc s) \<longrightarrow> solo (conc s'))"
proof -
  note a = activeD [OF act]
  note b = blk_fitsD [OF fits]
  show ?thesis
  proof (cases x)
    case (OpPin blk)
    with run b have "fst (tx_pin blk s) = Inr ()" "data_blk s blk" by auto
    from tx_pin_spec [OF a(1) this(2)] this(1) run OpPin obtain dur' where
      p: "tx_ok s' base (pre @ map (upd_rec (txNum s)) us) dur'" "prefix dur dur'" "tx_frame (dlsn base dur') s s'" "conc s' = conc s"
      by auto
    then have "active P pre us s' base dur'"
      by (intro active_frame [OF act]) (simp_all add: x_locked_def)
    with p same_tx_frame show ?thesis by (intro exI [of _ "[]"] exI [of _ dur']) auto
  next
    case (OpUnpin blk)
    have bl: "bl_ok s" using a(1) by (simp add: tx_ok_def)
    show ?thesis
    proof (cases "map_of (buffers s) blk")
      case None
      with run OpUnpin have "s' = s"
        by (simp add: tx_unpin_def bl_unpin_def cmd_simps)
      with act show ?thesis
        by (intro exI [of _ "[]"] exI [of _ dur]) (simp add: same_tx_def)
    next
      case (Some i)
      then have "blk \<in> set (pinned s)"
        using bl by (simp add: bl_ok_def)
      from tx_unpin_spec [OF a(1) this Some] run OpUnpin
      have p: "tx_ok s' base (pre @ map (upd_rec (txNum s)) us) dur" "tx_frame (dlsn base dur) s s'" "conc s' = conc s"
        by auto
      then have "active P pre us s' base dur"
        by (intro active_frame [OF act]) (simp_all add: x_locked_def)
      with p same_tx_frame show ?thesis by (intro exI [of _ "[]"] exI [of _ dur]) auto
    qed
  next
    case (OpGetInt blk off)
    let ?c = "snd (cm_sLock blk [] (conc s))"
    from run OpGetInt have s': "s' = s\<lparr>conc := ?c\<rparr>"
      by (auto simp: tx_getInt_def seq_def bnd_Inr_iff on_conc_eq bl_getBuffer_def gets_def ret_def raise_def page_at_def lift_def
          split: option.splits)
    have "active P pre us (s\<lparr>conc := ?c\<rparr>) base dur"
    proof (rule active_frame [OF act])
      show "x_locked b (s\<lparr>conc := ?c\<rparr>)" if "x_locked b s" for b
        using that cm_sLock_keeps by (simp add: x_locked_def)
    qed (use a(1) in simp_all)
    then show ?thesis
      unfolding s' using solo_sLock(2) by (intro exI [of _ "[]"] exI [of _ dur]) (simp add: same_tx_def)
  next
    case (OpSetInt blk off v)
    with run b have "tx_setInt blk off v True s = (Inr (), s')" "int32 (number blk)" "int (length (fileName blk)) + 32 \<le> blocksize s"
      by auto
    from active_setInt [OF act this] obtain u dur' where
      "active P pre (us @ [u]) s' base dur'" "prefix dur dur'" "same_tx s s'" "conc s' = snd (cm_xLock blk [] [] (conc s))"
      unfolding same_tx_def by blast
    then show ?thesis
      using solo_xLock(2) [of "conc s" blk] by (intro exI [of _ "[u]"] exI [of _ dur']) simp
  qed
qed

lemma active_ops:
  assumes "active P pre us s base dur" "ops_run xs s = (Inr (), s')"
    "\<forall>x \<in> set xs. blk_fits (blocksize s) (logFileName s) (op_blk x)"
  shows "\<exists>us' dur'. active P pre (us @ us') s' base dur' \<and> prefix dur dur' \<and> same_tx s s' \<and> length us' \<le> length xs \<and>
    (solo (conc s) \<longrightarrow> solo (conc s'))"
  using assms
proof (induction xs arbitrary: s us dur)
  case Nil
  then show ?case by (intro exI [of _ "[]"] exI [of _ dur]) (simp add: ret_def same_tx_def)
next
  case (Cons x xs)
  from Cons.prems(2) obtain s1 where s1: "op_run x s = (Inr (), s1)" "ops_run xs s1 = (Inr (), s')"
    by (auto simp: seq_def bnd_Inr_iff)
  from active_op [OF Cons.prems(1) s1(1)] Cons.prems(3) obtain us1 dur1 where
    1: "active P pre (us @ us1) s1 base dur1" "prefix dur dur1" "same_tx s s1" "length us1 \<le> 1"
      "solo (conc s) \<longrightarrow> solo (conc s1)" by auto
  from Cons.IH [OF 1(1) s1(2)] Cons.prems(3) 1(3) obtain us2 dur2 where
    2: "active P pre ((us @ us1) @ us2) s' base dur2" "prefix dur1 dur2" "same_tx s1 s'" "length us2 \<le> length xs"
      "solo (conc s1) \<longrightarrow> solo (conc s')"
    by (auto simp: same_tx_def)
  then show ?case
    using 1 prefix_order.trans same_tx_trans by (intro exI [of _ "us1 @ us2"] exI [of _ dur2]) auto
qed

section \<open>Beginning a transaction\<close>

text \<open>
  Between transactions: nothing is pinned or dirty, and what the log says is durable.
\<close>

definition idle :: "'a tx_scheme \<Rightarrow> nat \<Rightarrow> bytes list \<Rightarrow> bool" where
  "idle s base rs \<longleftrightarrow> tx_ok s base rs rs \<and> owners s = {} \<and> base \<le> length rs \<and> pinned s = []"

lemma idle_settled: "idle s base rs \<Longrightarrow> settled s"
  by (auto simp: idle_def tx_ok_def bm_log_def intro: no_owners_settled)

definition start_rec :: "int \<Rightarrow> bytes" where
  "start_rec t = int_bytes 1 @ int_bytes t"

lemma view_length: "tx_ok s base rs dur \<Longrightarrow> data_blk s b \<Longrightarrow> int (length (view s b)) = blocksize s"
proof -
  assume ok: "tx_ok s base rs dur" and b: "data_blk s b"
  have inv: "bm_inv s" and bs: "0 < blocksize s"
    using ok log_state_fm_inv by (auto simp: tx_ok_def bm_log_def fm_inv_def)
  show ?thesis
  proof (cases "bm_findExistingBuffer b s")
    case None
    with bs show ?thesis by (simp add: view_def)
  next
    case (Some i)
    then have "i < length (pool s)"
      using find_buf_Some by (auto simp: bm_findExistingBuffer_def)
    with Some bm_invD [OF inv] show ?thesis by (simp add: view_def buf_ok_def)
  qed
qed

lemma tx_new_active:
  assumes idle: "idle s base rs" and t: "0 \<le> nextTxNum s" "nextTxNum s + 1 < 2 ^ 31" and bs: "16 \<le> blocksize s"
  shows "\<exists>s' dur. tx_new s = (Inr (), s') \<and> active (view s) (rs @ [start_rec (nextTxNum s + 1)]) [] s' base dur \<and>
    txNum s' = nextTxNum s + 1 \<and> nextTxNum s' = nextTxNum s + 1 \<and> conc s' = (conc s)\<lparr>locks := []\<rparr> \<and> blocksize s' = blocksize s \<and>
    logFileName s' = logFileName s \<and> length (pool s') = length (pool s) \<and> numAvailable s' = numAvailable s \<and>
    prefix rs dur \<and> (\<forall>b. data_blk s b \<longrightarrow> view s' b = view s b)"
proof -
  let ?t = "nextTxNum s + 1"
  let ?i = "s\<lparr>nextTxNum := ?t, txNum := ?t, finished := False, conc := (conc s)\<lparr>locks := []\<rparr>, pinned := [], buffers := []\<rparr>"
  have ok: "tx_ok s base rs rs" and ow: "owners s = {}" and base: "base \<le> length rs"
    using idle by (auto simp: idle_def)
  have "tx_ok ?i base rs rs"
    using ok by (auto simp: tx_ok_def bl_ok_def bm_log_def bm_inv_def buf_ok_def)
  from tx_log_append [OF this, of "start_rec ?t"] bs obtain s' dur where
    s': "lm_append (start_rec ?t) ?i = (Inr (latestLsn s + 1), s')" "tx_ok s' base (rs @ [start_rec ?t]) dur" "prefix rs dur"
      "latestLsn s' = latestLsn s + 1" "log_frame ?i s'"
    by (auto simp: start_rec_def)
  note f = log_frame_bm [OF s'(5)]
  note m = tx_more_eq [OF f(3)]
  have enc: "start_bytes ?t = Inr (start_rec ?t)"
    using tx_record_bytes [of 1 ?t] by (simp add: start_bytes_def start_rec_def Let_def)
  have "tx_new s = (Inr (), s')"
    using s'(1) enc by (simp add: tx_new_def cmd_simps)
  moreover have "active (view s) (rs @ [start_rec ?t]) [] s' base dur"
    unfolding active_def
  proof (intro conjI)
    show "\<forall>b. data_blk s' b \<longrightarrow> int (length (view s b)) = blocksize s' \<and> agree (view s) [] (view s') b \<and>
        agree (view s) (take (length dur - length (rs @ [start_rec ?t])) []) (disk_block s') b"
      using view_length [OF ok] idle_settled [OF idle] f by (auto simp: agree_Nil settled_def)
    show "owners s' \<subseteq> {txNum s'}"
      using ow f(1) by (auto simp: owners_def)
  qed (use s'(2) t base m in \<open>auto simp: consistent_def int32_def\<close>)
  moreover have "logFileName s' = logFileName s"
    using s'(5) by (simp add: log_frame_def)
  ultimately show ?thesis
    using m f s'(3,5) by (intro exI [of _ s'] exI [of _ dur]) auto
qed

section \<open>Ending a transaction\<close>

lemma tx_log_flush:
  assumes ok: "tx_ok s base rs dur" and l: "l = latestLsn s"
  shows "\<exists>s'. lm_flush l s = (Inr (), s') \<and> tx_ok s' base rs rs \<and> log_frame s s' \<and> latestLsn s' = latestLsn s"
proof -
  have log: "log_state s base rs dur" and inv: "bm_inv s" and bl: "bl_ok s"
    using ok by (auto simp: tx_ok_def bm_log_def)
  from log_state_flush [OF log, of l] l obtain s' dur' where
    s': "lm_flush l s = (Inr (), s')" "log_state s' base rs dur'" "prefix dur dur'"
      "int base + l \<le> int (length dur')" "log_frame s s'" "latestLsn s' = latestLsn s" by auto
  have "length rs \<le> length dur'"
    using s'(4) l log_state_lsn [OF log] by simp
  moreover have "prefix dur' rs"
    using s'(2) by (rule log_state_prefix)
  ultimately have "dur' = rs"
    by (auto simp: prefix_def)
  note f = log_frame_bm [OF s'(5)]
  have "bm_inv s'"
    using log_frame_inv [OF s'(5) _ inv] s'(6) by simp
  moreover have "bl_ok s'"
    using bl by (simp add: bl_ok_def tx_more_eq [OF f(3)] f(1,4))
  ultimately show ?thesis
    using s' \<open>dur' = rs\<close> by (auto simp: tx_ok_def bm_log_def)
qed

lemma same_pins_available:
  assumes "bm_inv s" "bm_inv s'" "length (pool s') = length (pool s)"
    "\<And>j. j < length (pool s) \<Longrightarrow> buf_isPinned (pool s' ! j) = buf_isPinned (pool s ! j)"
  shows "numAvailable s' = numAvailable s"
proof -
  have "map (\<lambda>b. \<not> buf_isPinned b) (pool s') = map (\<lambda>b. \<not> buf_isPinned b) (pool s)"
    using assms(3,4) by (intro nth_equalityI) simp_all
  moreover have "unpinned_count bs = int (length (filter id (map (\<lambda>b. \<not> buf_isPinned b) bs)))" for bs
    by (simp add: unpinned_count_def filter_map o_def)
  ultimately have "unpinned_count (pool s') = unpinned_count (pool s)"
    by (simp only:)
  then show ?thesis
    using assms(1,2) by (simp add: bm_inv_def)
qed

lemma tx_flushAll:
  assumes ok: "tx_ok s base rs dur" and t: "0 \<le> t"
  shows "\<exists>s' dur'. bm_flushAll t s = (Inr (), s') \<and> tx_ok s' base rs dur' \<and> tx_frame (dlsn base dur') s s' \<and>
    bm.more s' = bm.more s \<and> owners s' \<subseteq> owners s - {t} \<and> numAvailable s' = numAvailable s"
proof -
  have log: "bm_log s base rs dur" and bl: "bl_ok s"
    using ok by (auto simp: tx_ok_def)
  from bm_flushAll_spec [OF log t] obtain s1 dur1 where
    1: "bm_flushAll t s = (Inr (), s1)" "bm_log s1 base rs dur1" "bm_frame (dlsn base dur1) s s1"
      "pool s1 = map (clear_tx t) (pool s)" by blast
  have more: "bm.more s1 = bm.more s" and db: "data_blk s1 = data_blk s"
    using 1(3) bm_frame_data_blk [OF 1(3)] by (auto simp: bm_frame_def)
  have "bl_ok s1"
    using bl by (simp add: bl_ok_def 1(4) db tx_more_eq [OF more] clear_tx_def)
  moreover have "numAvailable s1 = numAvailable s"
    using log 1(2) by (intro same_pins_available) (auto simp: bm_log_def 1(4) clear_tx_def buf_isPinned_def)
  ultimately show ?thesis
    using 1 more tx_frameI [OF 1(3)] owners_clear [OF 1(4)] by (intro exI [of _ s1] exI [of _ dur1]) (simp add: tx_ok_def)
qed

definition finish :: "int \<Rightarrow> bytes \<Rightarrow> ('a tx_scheme, unit) cmd" where
  "finish t r = seq (bm_flushAll t) (seq (bnd (lm_append r) lm_flush) tx_end)"

lemma finish_spec:
  assumes ok: "tx_ok s base rs dur" and ow: "owners s \<subseteq> {t}" and t: "0 \<le> t"
    and r: "int (length r) + 8 \<le> blocksize s" and base: "base \<le> length rs"
  shows "\<exists>s'. finish t r s = (Inr (), s') \<and> idle s' base (rs @ [r]) \<and> same_tx s s' \<and> conc s' = cm_release (conc s) \<and>
    (\<forall>b. data_blk s b \<longrightarrow> view s' b = view s b \<and> disk_block s' b = view s b)"
proof -
  from tx_flushAll [OF ok t] obtain s1 dur1 where
    1: "bm_flushAll t s = (Inr (), s1)" "tx_ok s1 base rs dur1" "tx_frame (dlsn base dur1) s s1"
      "bm.more s1 = bm.more s" "owners s1 \<subseteq> owners s - {t}" by blast
  have ow1: "owners s1 = {}"
    using 1(5) ow by blast
  have db1: "data_blk s1 = data_blk s"
    using tx_frame_data_blk [OF 1(3)] .
  note m1 = tx_more_eq [OF 1(4)]
  have v1: "view s1 b = view s b" if "data_blk s b" for b
    using 1(3) that by (simp add: tx_frame_def bm_core_def)
  have st1: "same_tx s s1"
    using 1(3) by (rule same_tx_frame)
  have "int (length r) + 8 \<le> blocksize s1"
    using r st1 by (simp add: same_tx_def)
  from tx_log_append [OF 1(2) this] obtain s2 dur2 where
    2: "lm_append r s1 = (Inr (latestLsn s1 + 1), s2)" "tx_ok s2 base (rs @ [r]) dur2" "latestLsn s2 = latestLsn s1 + 1"
      "log_frame s1 s2" by blast
  from tx_log_flush [OF 2(2) 2(3) [symmetric]] obtain s3 where
    3: "lm_flush (latestLsn s1 + 1) s2 = (Inr (), s3)" "tx_ok s3 base (rs @ [r]) (rs @ [r])" "log_frame s2 s3" by blast
  note f = log_frame_bm [OF log_frame_trans [OF 2(4) 3(3)]]
  note m3 = tx_more_eq [OF f(3)]
  from tx_end_spec [OF 3(2)] obtain s4 where
    4: "tx_end s3 = (Inr (), s4)" "tx_ok s4 base (rs @ [r]) (rs @ [r])" "tx_frame (dlsn base (rs @ [r])) s3 s4"
      "conc s4 = cm_release (conc s3)" "pinned s4 = []" by blast
  have run: "finish t r s = (Inr (), s4)"
    using 1(1) 2(1) 3(1) 4(1) by (simp add: finish_def cmd_simps)
  have st3: "same_tx s1 s3"
    using log_frame_trans [OF 2(4) 3(3)] m3 f(1) by (simp add: same_tx_def log_frame_def)
  have st4: "same_tx s s4"
    using same_tx_trans [OF st1 same_tx_trans [OF st3 same_tx_frame [OF 4(3)]]] .
  have v4: "view s4 b = view s b" if b: "data_blk s b" for b
  proof -
    have "data_blk s3 b" "data_blk s1 b"
      using f(4) db1 b by simp_all
    then have "view s4 b = view s3 b"
      using 4(3) by (simp add: tx_frame_def bm_core_def)
    then show ?thesis
      using f(7) v1 b \<open>data_blk s1 b\<close> by simp
  qed
  have ow4: "owners s4 = {}"
  proof -
    have "owners s3 = owners s1" using f(1) by (simp add: owners_def)
    then show ?thesis using 4(3) ow1 by (auto simp: tx_frame_def bm_core_def)
  qed
  have id: "idle s4 base (rs @ [r])"
    using 4(2,5) ow4 base by (simp add: idle_def)
  have "disk_block s4 b = view s b" if b: "data_blk s b" for b
  proof -
    have "data_blk s4 b"
      using st4 b by (simp add: same_tx_def data_blk_def)
    with idle_settled [OF id] v4 [OF b] show ?thesis by (simp add: settled_def)
  qed
  then show ?thesis
    using run id st4 4(4) m3(1) m1(1) v4 by (intro exI [of _ s4]) simp
qed

definition commit_rec :: "int \<Rightarrow> bytes" where
  "commit_rec t = int_bytes 2 @ int_bytes t"

definition rollback_rec :: "int \<Rightarrow> bytes" where
  "rollback_rec t = int_bytes 3 @ int_bytes t"

lemma end_bytes_eq: "commit_bytes t = Inr (commit_rec t)" "rollback_bytes t = Inr (rollback_rec t)"
  using tx_record_bytes [of 2 t] tx_record_bytes [of 3 t]
  by (simp_all add: commit_bytes_def rollback_bytes_def commit_rec_def rollback_rec_def Let_def)

lemma tx_commit_eq: "tx_commit s = finish (txNum s) (commit_rec (txNum s)) s"
  by (auto simp: tx_commit_def rm_commit_def finish_def end_bytes_eq seq_def bnd_def gets_def lift_def split: prod.splits sum.splits)

lemma tx_rollback_eq:
  "tx_rollback fuel s = seq (rm_doRollback fuel) (\<lambda>s. finish (txNum s) (rollback_rec (txNum s)) s) s"
  by (auto simp: tx_rollback_def rm_rollback_def finish_def end_bytes_eq seq_def bnd_def gets_def lift_def split: prod.splits sum.splits)

section \<open>Undo\<close>

lemma createLogRecord_recs:
  "int32 t \<Longrightarrow> change_ok s (b, off, old) \<Longrightarrow> blocksize s < 2 ^ 31 \<Longrightarrow>
    createLogRecord (upd_rec t (b, off, old)) = Inr (Some (SetIntRecord t b off old))"
  "int32 t \<Longrightarrow> createLogRecord (start_rec t) = Inr (Some (StartRecord t))"
  "int32 t \<Longrightarrow> createLogRecord (commit_rec t) = Inr (Some (CommitRecord t))"
  "int32 t \<Longrightarrow> createLogRecord (rollback_rec t) = Inr (Some (RollbackRecord t))"
  "createLogRecord (int_bytes 0) = Inr (Some CheckpointRecord)"
proof -
  show "createLogRecord (upd_rec t (b, off, old)) = Inr (Some (SetIntRecord t b off old))"
    if "int32 t" "change_ok s (b, off, old)" "blocksize s < 2 ^ 31"
  proof -
    have "lr_fits (SetIntRecord t b off old)"
      using that by (auto simp: change_ok_def lr_fits_def int32_def)
    from lr_roundtrip [OF this] show ?thesis
      using that setInt_bytes_eq [of b t off old] by (simp add: lr_bytes_def upd_rec_def change_ok_def)
  qed
  show "createLogRecord (start_rec t) = Inr (Some (StartRecord t))" if "int32 t"
    using lr_roundtrip [of "StartRecord t"] that tx_record_bytes [of 1 t]
    by (simp add: lr_bytes_def start_bytes_def lr_fits_def start_rec_def Let_def)
  show "createLogRecord (commit_rec t) = Inr (Some (CommitRecord t))" if "int32 t"
    using lr_roundtrip [of "CommitRecord t"] that by (simp add: lr_bytes_def lr_fits_def end_bytes_eq)
  show "createLogRecord (rollback_rec t) = Inr (Some (RollbackRecord t))" if "int32 t"
    using lr_roundtrip [of "RollbackRecord t"] that by (simp add: lr_bytes_def lr_fits_def end_bytes_eq)
  show "createLogRecord (int_bytes 0) = Inr (Some CheckpointRecord)"
    using lr_roundtrip [of CheckpointRecord] by (simp add: lr_bytes_def lr_fits_def checkpoint_bytes_eq int32_def)
qed

text \<open>Undo of one change: pin, store the old value without a record, unpin.\<close>

lemma undo_step:
  assumes ok: "tx_ok s base rs dur" and ch: "change_ok s (b, off, old)" and t: "0 \<le> txNum s"
    and lock: "fst (cm_xLock b [] [] (conc s)) = Inr ()"
    and av: "0 < numAvailable s \<or> b \<in> set (pinned s)" and ow: "owners s \<subseteq> {txNum s}" and base: "base \<le> length rs"
  shows "\<exists>s' dur'. lr_undo (SetIntRecord t' b off old) s = (Inr (), s') \<and> tx_ok s' base rs dur' \<and> prefix dur dur' \<and>
    (\<forall>c. data_blk s c \<longrightarrow> view s' c = undo1 (b, off, old) (view s) c) \<and> conc s' = snd (cm_xLock b [] [] (conc s)) \<and>
    numAvailable s' = numAvailable s \<and> set (pinned s') = set (pinned s) \<and> owners s' \<subseteq> {txNum s} \<and> same_tx s s' \<and> log_still s s'"
proof -
  let ?c = "snd (cm_xLock b [] [] (conc s))"
  have d: "data_blk s b" and o: "0 \<le> off" "off + 4 \<le> blocksize s"
    using ch by (auto simp: change_ok_def)
  from tx_pin_spec [OF ok d] av obtain s1 dur1 i where
    1: "tx_pin b s = (Inr (), s1)" "tx_ok s1 base rs dur1" "prefix dur dur1" "tx_frame (dlsn base dur1) s s1" "conc s1 = conc s"
      "pinned s1 = pinned s @ [b]" "map_of (buffers s1) b = Some i" "pinned_at s s1 b i" by blast
  have core1: "bm_core (dlsn base dur1) s s1" "txNum s1 = txNum s"
    using 1(4) by (simp_all add: tx_frame_def)
  have db1: "data_blk s1 = data_blk s" and bs1: "blocksize s1 = blocksize s"
    using tx_frame_data_blk [OF 1(4)] core1 by (auto simp: bm_core_def)
  let ?lk = "s1\<lparr>conc := ?c\<rparr>"
  let ?p = "overwrite (nat off) (int_bytes old) (view s1 b)"
  let ?s2 = "bm_modify i ?p (txNum s) (- 1) ?lk"
  have run2: "tx_setInt b off old False s1 = (Inr (), ?s2)"
    using tx_setInt_unlogged [OF 1(2,7), of off old] lock 1(5) o bs1 core1(2) t by simp
  have lk: "tx_ok ?lk base rs dur1" "map_of (buffers ?lk) b = Some i"
    using 1(2,7) by simp_all
  have lp: "int (length ?p) = blocksize ?lk"
    using view_pinned(5) [OF 1(2,7)] o bs1 by simp
  have nn: "- 1 \<le> latestLsn ?lk"
    using tx_ok_lsn [OF lk(1)] base by simp
  have tn: "txNum ?lk = txNum s" "0 \<le> txNum ?lk"
    using core1(2) t by simp_all
  have "(- 1 :: int) < 0 \<or> buf_lsn (pool ?lk ! i) \<le> - 1" by simp
  note md = modify_spec [OF lk lp tn(2) nn this, unfolded tn(1)]
  have m2: "pinned ?s2 = pinned s @ [b]" "conc ?s2 = ?c" "txNum ?s2 = txNum s" "nextTxNum ?s2 = nextTxNum s" "buffers ?s2 = buffers s1"
    using tx_more_eq [OF md(6)] 1(4,6) core1(2) by (simp_all add: tx_frame_def)
  have bl2: "bl_ok ?s2" using md(1) by (simp add: tx_ok_def)
  have mb: "map_of (buffers ?s2) b = Some i" and pb: "b \<in> set (pinned ?s2)"
    using m2 1(7) by simp_all
  from tx_unpin_spec [OF md(1) pb mb] obtain s3 where
    3: "tx_unpin b ?s2 = (Inr (), s3)" "tx_ok s3 base rs dur1" "tx_frame (dlsn base dur1) ?s2 s3" "conc s3 = conc ?s2"
      "pinned s3 = remove1 b (pinned ?s2)" "pool s3 = (pool ?s2)[i := buf_unpin (pool ?s2 ! i)]" by blast
  have core3: "bm_core (dlsn base dur1) ?s2 s3" "txNum s3 = txNum s" "nextTxNum s3 = nextTxNum s"
    using 3(3) m2 by (simp_all add: tx_frame_def)
  have db2: "data_blk ?s2 = data_blk s"
    using db1 md(9,10) by (simp add: bm_modify_def)
  have v3: "view s3 c = undo1 (b, off, old) (view s) c" if c: "data_blk s c" for c
  proof -
    have v1: "view s1 c' = view s c'" if "data_blk s c'" for c'
      using core1(1) that by (simp add: bm_core_def)
    have "view s3 c = view ?s2 c"
      using core3(1) c db2 by (simp add: bm_core_def)
    also have "\<dots> = (if c = b then ?p else view s1 c)"
      using md(2) [of c] c db1 by simp
    finally show ?thesis
      using v1 c d by (simp add: undo1_def)
  qed
  have i: "i < length (pool s)" "length (pool s1) = length (pool s)"
    using view_pinned(2) [OF 1(2,7)] core1(1) by (auto simp: bm_core_def)
  have pins: "buf_isPinned (pool s3 ! j) = buf_isPinned (pool s ! j)" if j: "j < length (pool s)" for j
  proof (cases "j = i")
    case False
    have "buf_pins (pool s3 ! j) = buf_pins (pool s1 ! j)"
      using False md(13) by (simp add: 3(6))
    then show ?thesis
      using 1(8) False j by (simp add: pinned_at_def buf_isPinned_def)
  next
    case True
    have "buf_pins (pool s3 ! i) = buf_pins (pool s1 ! i) - 1"
      using md(11,13) i by (simp add: 3(6) buf_unpin_def)
    then show ?thesis
      using 1(8) True by (auto simp: pinned_at_def buf_isPinned_def buf_pin_def)
  qed
  have len3: "length (pool s3) = length (pool s)"
    using 3(6) md(11) i(2) by simp
  have "numAvailable s3 = numAvailable s"
    using pins len3 ok 3(2) by (intro same_pins_available) (simp_all add: tx_ok_def bm_log_def)
  moreover have "set (pinned s3) = set (pinned s)"
  proof (cases "b \<in> set (pinned s)")
    case True
    then have "set (remove1 b (pinned s @ [b])) = insert b (set (remove1 b (pinned s)))"
      by (simp add: remove1_append)
    then have "x \<in> set (remove1 b (pinned s @ [b])) \<longleftrightarrow> x \<in> set (pinned s)" for x
      using True by (cases "x = b") simp_all
    then show ?thesis
      unfolding 3(5) m2(1) by blast
  next
    case False
    then show ?thesis
      by (simp add: 3(5) m2(1) remove1_append remove1_idem)
  qed
  moreover have "owners s3 \<subseteq> {txNum s}"
  proof -
    have "owners ?lk \<subseteq> owners s" using core1(1) by (simp add: bm_core_def)
    then show ?thesis using core3(1) md(15) ow by (auto simp: bm_core_def)
  qed
  moreover have "same_tx s s3"
    using core1 core3 md(9-11) i(2) by (simp add: same_tx_def bm_core_def)
  moreover have "log_still s s3"
  proof -
    have "log_still s ?lk" using core1(1) by (simp add: bm_core_def)
    moreover have "log_still ?s2 s3" using core3(1) by (simp add: bm_core_def)
    ultimately show ?thesis using md(8) log_still_trans by blast
  qed
  moreover have "lr_undo (SetIntRecord t' b off old) s = (Inr (), s3)"
    using 1(1) run2 3(1) by (simp add: lr_undo_def cmd_simps)
  ultimately show ?thesis
    using 1(3) 3(2,4) m2(2) v3 by (intro exI [of _ s3] exI [of _ dur1]) simp
qed


lemma agree_cong: "X b = Y b \<Longrightarrow> agree P us X b = agree P us Y b"
  by (simp add: agree_def)

lemma x_locked_again: "x_locked b s \<Longrightarrow> cm_xLock b [] [] (conc s) = (Inr (), conc s)"
  by (simp add: x_locked_def cm_xLock_def ret_def)

lemma tx_ok_bounds: "tx_ok s base rs dur \<Longrightarrow> blocksize s < 2 ^ 31 \<and> fm_inv s"
  using log_state_bounds log_state_fm_inv by (auto simp: tx_ok_def bm_log_def)

lemma next_record_eq:
  assumes "it_at s it (rem @ [x])" "createLogRecord x = Inr (Some r)"
  shows "\<exists>it'. next_record it s = (Inr (r, it'), s) \<and> it_at s it' rem"
proof -
  from it_at_next [OF assms(1)] obtain it' where it': "li_next it s = (Inr (x, it'), s)" "it_at s it' rem"
    by blast
  with assms(2) show ?thesis
    by (intro exI [of _ it']) (simp add: next_record_def cmd_simps)
qed

text \<open>
  The records of the transaction, read from the newest back to its start record, restore \<open>P\<close>.
\<close>

lemma rollback_loop:
  assumes "it_at s it ((pre0 @ [start_rec (txNum s)]) @ map (upd_rec (txNum s)) us)" "tx_ok s base rs dur" "consistent P us"
    "\<And>b. data_blk s b \<Longrightarrow> int (length (P b)) = blocksize s \<and> agree P us (view s) b"
    "\<And>u. u \<in> set us \<Longrightarrow> change_ok s u \<and> x_locked (fst u) s" "0 \<le> txNum s" "int32 (txNum s)" "owners s \<subseteq> {txNum s}"
    "0 < numAvailable s" "base \<le> length rs" "length us < fuel"
  shows "\<exists>s' dur'. rm_rollback_loop fuel it s = (Inr (), s') \<and> tx_ok s' base rs dur' \<and>
    (\<forall>b. data_blk s b \<longrightarrow> view s' b = P b) \<and> owners s' \<subseteq> {txNum s} \<and> same_tx s s' \<and> conc s' = conc s"
  using assms
proof (induction us arbitrary: s it fuel dur rule: rev_induct)
  case Nil
  let ?t = "txNum s"
  obtain fuel' where fuel: "fuel = Suc fuel'" using Nil.prems(11) by (cases fuel) auto
  have "it_at s it (pre0 @ [start_rec ?t])" using Nil.prems(1) by simp
  from next_record_eq [OF this createLogRecord_recs(2) [OF Nil.prems(7)]] obtain it' where
    "next_record it s = (Inr (StartRecord ?t, it'), s)" by blast
  then have "rm_rollback_loop fuel it s = (Inr (), s)"
    using it_at_hasNext [OF Nil.prems(1)] by (simp add: fuel cmd_simps)
  with Nil.prems show ?case
    by (intro exI [of _ s] exI [of _ dur]) (simp add: same_tx_def agree_Nil)
next
  case (snoc u us)
  let ?t = "txNum s"
  obtain b off old where u: "u = (b, off, old)" by (cases u)
  obtain fuel' where fuel: "fuel = Suc fuel'" using snoc.prems(11) by (cases fuel) auto
  have ch: "change_ok s (b, off, old)" and xl: "x_locked b s"
    using snoc.prems(5) [of u] by (simp_all add: u)
  have bs: "blocksize s < 2 ^ 31"
    using tx_ok_bounds [OF snoc.prems(2)] by simp
  have "it_at s it ((pre0 @ [start_rec ?t] @ map (upd_rec ?t) us) @ [upd_rec ?t (b, off, old)])"
    using snoc.prems(1) by (simp add: u)
  from next_record_eq [OF this createLogRecord_recs(1) [OF snoc.prems(7) ch bs]] obtain it' where
    it': "next_record it s = (Inr (SetIntRecord ?t b off old, it'), s)" "it_at s it' (pre0 @ [start_rec ?t] @ map (upd_rec ?t) us)"
    by blast
  from undo_step [OF snoc.prems(2) ch snoc.prems(6), of ?t] x_locked_again [OF xl] snoc.prems(8,9,10) obtain s1 dur1 where
    s1: "lr_undo (SetIntRecord ?t b off old) s = (Inr (), s1)" "tx_ok s1 base rs dur1"
      "\<And>c. data_blk s c \<Longrightarrow> view s1 c = undo1 (b, off, old) (view s) c" "conc s1 = conc s"
      "numAvailable s1 = numAvailable s" "owners s1 \<subseteq> {?t}" "same_tx s s1" "log_still s s1"
    by auto
  have st: "txNum s1 = ?t" "blocksize s1 = blocksize s" "data_blk s1 = data_blk s"
    using s1(7) by (auto simp: same_tx_def data_blk_def)
  have old: "consistent P us" "old_ok P us u"
    using snoc.prems(3) by (simp_all add: consistent_snoc)
  have 1: "it_at s1 it' ((pre0 @ [start_rec (txNum s1)]) @ map (upd_rec (txNum s1)) us)"
    using it_at_still [OF it'(2) s1(8)] tx_ok_bounds [OF s1(2)] st by simp
  have 2: "int (length (P c)) = blocksize s1 \<and> agree P us (view s1) c" if "data_blk s1 c" for c
  proof -
    have c: "data_blk s c" using that st by simp
    have "int (length (P c)) = blocksize s" using snoc.prems(4) [OF c] ..
    then have "agree P us (undo1 u (view s)) c"
      using snoc.prems(4) [OF c] ch by (intro undo_agree [OF old(2) _ u]) (auto simp: change_ok_def)
    then show ?thesis
      using s1(3) [OF c] snoc.prems(4) [OF c] st(2) agree_cong [of "view s1" c] by (simp add: u)
  qed
  have 3: "change_ok s1 v \<and> x_locked (fst v) s1" if "v \<in> set us" for v
    using snoc.prems(5) [of v] that st s1(4) by (auto simp: change_ok_def x_locked_def)
  have "0 \<le> txNum s1" "int32 (txNum s1)" "owners s1 \<subseteq> {txNum s1}" "0 < numAvailable s1" "length us < fuel'"
    using snoc.prems st s1 fuel by simp_all
  from snoc.IH [OF 1 s1(2) old(1) 2 3 this(1-4) snoc.prems(10) this(5)] obtain s2 dur2 where
    s2: "rm_rollback_loop fuel' it' s1 = (Inr (), s2)" "tx_ok s2 base rs dur2" "\<forall>b. data_blk s b \<longrightarrow> view s2 b = P b"
      "owners s2 \<subseteq> {?t}" "same_tx s1 s2" "conc s2 = conc s"
    using st s1(4) by auto
  have "rm_rollback_loop fuel it s = (Inr (), s2)"
    using it_at_hasNext [OF snoc.prems(1)] it'(1) s1(1) s2(1) by (simp add: fuel cmd_simps)
  with s2 same_tx_trans [OF s1(7) s2(5)] show ?case by blast
qed

lemma tx_iterator:
  assumes ok: "tx_ok s base rs dur"
  shows "\<exists>it s'. lm_iterator s = (Inr it, s') \<and> it_at s' it rs \<and> tx_ok s' base rs rs \<and> same_tx s s' \<and> conc s' = conc s \<and>
    numAvailable s' = numAvailable s \<and> owners s' = owners s \<and> data_blk s' = data_blk s \<and> (\<forall>b. data_blk s b \<longrightarrow> view s' b = view s b)"
proof -
  have log: "log_state s base rs dur" and inv: "bm_inv s" and bl: "bl_ok s"
    using ok by (auto simp: tx_ok_def bm_log_def)
  from iterator_at [OF log] obtain it s1 where
    1: "lm_iterator s = (Inr it, s1)" "it_at s1 it rs" "log_state s1 base rs rs" "log_frame s s1" "latestLsn s1 = latestLsn s"
    by blast
  note f = log_frame_bm [OF 1(4)]
  note m = tx_more_eq [OF f(3)]
  have "tx_ok s1 base rs rs"
    using 1(3) log_frame_inv [OF 1(4) _ inv] 1(5) bl by (simp add: tx_ok_def bm_log_def bl_ok_def m f(1,4))
  moreover have "numAvailable s1 = numAvailable s" "owners s1 = owners s" "logFileName s1 = logFileName s"
    using f 1(4) by (simp_all add: owners_def log_frame_def)
  ultimately show ?thesis
    using 1(1,2) f m by (intro exI [of _ it] exI [of _ s1]) (simp add: same_tx_def)
qed

text \<open>Rollback and commit end a transaction; the first restores, the second keeps.\<close>

lemma tx_commit_active:
  assumes act: "active P pre us s base dur" and bs: "16 \<le> blocksize s"
  shows "\<exists>s'. tx_commit s = (Inr (), s') \<and> idle s' base ((pre @ map (upd_rec (txNum s)) us) @ [commit_rec (txNum s)]) \<and>
    same_tx s s' \<and> conc s' = cm_release (conc s) \<and> (\<forall>b. data_blk s b \<longrightarrow> view s' b = view s b \<and> disk_block s' b = view s b)"
proof -
  note a = activeD [OF act]
  show ?thesis
    unfolding tx_commit_eq using a bs by (intro finish_spec) (simp_all add: commit_rec_def)
qed

lemma tx_rollback_active:
  assumes act: "active P (pre0 @ [start_rec (txNum s)]) us s base dur" and bs: "16 \<le> blocksize s"
    and av: "0 < numAvailable s" and fuel: "length us < fuel"
  shows "\<exists>s' rs'. tx_rollback fuel s = (Inr (), s') \<and>
    idle s' base (((pre0 @ [start_rec (txNum s)]) @ map (upd_rec (txNum s)) us) @ [rollback_rec (txNum s)]) \<and>
    same_tx s s' \<and> conc s' = cm_release (conc s) \<and> (\<forall>b. data_blk s b \<longrightarrow> view s' b = P b \<and> disk_block s' b = P b)"
proof -
  let ?rs = "(pre0 @ [start_rec (txNum s)]) @ map (upd_rec (txNum s)) us"
  note a = activeD [OF act]
  from tx_iterator [OF a(1)] obtain it s1 where
    1: "lm_iterator s = (Inr it, s1)" "it_at s1 it ?rs" "tx_ok s1 base ?rs ?rs" "same_tx s s1" "conc s1 = conc s"
      "numAvailable s1 = numAvailable s" "owners s1 = owners s" "data_blk s1 = data_blk s" "\<And>b. data_blk s b \<Longrightarrow> view s1 b = view s b"
    by blast
  have t1: "txNum s1 = txNum s" "blocksize s1 = blocksize s"
    using 1(4) by (simp_all add: same_tx_def)
  have "\<exists>s' dur'. rm_rollback_loop fuel it s1 = (Inr (), s') \<and> tx_ok s' base ?rs dur' \<and>
    (\<forall>b. data_blk s1 b \<longrightarrow> view s' b = P b) \<and> owners s' \<subseteq> {txNum s1} \<and> same_tx s1 s' \<and> conc s' = conc s1"
  proof (rule rollback_loop [where us = us and base = base and ?pre0.0 = pre0])
    show "int (length (P b)) = blocksize s1 \<and> agree P us (view s1) b" if "data_blk s1 b" for b
      using that a(4,8) 1(8,9) t1 agree_cong [of "view s1" b "view s"] by simp
    show "change_ok s1 u \<and> x_locked (fst u) s1" if "u \<in> set us" for u
      using act that 1(5,8) t1 by (auto simp: active_def change_ok_def x_locked_def)
  qed (use 1 a av fuel t1 in simp_all)
  then obtain s2 dur2 where
    2: "rm_rollback_loop fuel it s1 = (Inr (), s2)" "tx_ok s2 base ?rs dur2" "\<And>b. data_blk s b \<Longrightarrow> view s2 b = P b"
      "owners s2 \<subseteq> {txNum s}" "same_tx s1 s2" "conc s2 = conc s"
    using 1(5,8) t1 by auto
  have st2: "same_tx s s2" using same_tx_trans [OF 1(4) 2(5)] .
  then have t2: "txNum s2 = txNum s" "blocksize s2 = blocksize s" "data_blk s2 = data_blk s"
    by (auto simp: same_tx_def data_blk_def)
  have "rm_doRollback fuel s = (Inr (), s2)"
    using 1(1) 2(1) by (simp add: rm_doRollback_def cmd_simps)
  then have eq: "tx_rollback fuel s = finish (txNum s) (rollback_rec (txNum s)) s2"
    using t2 by (simp add: tx_rollback_eq cmd_simps)
  have "int (length (rollback_rec (txNum s))) + 8 \<le> blocksize s2" "base \<le> length ?rs"
    using bs a(9) t2 by (simp_all add: rollback_rec_def)
  from finish_spec [OF 2(2,4) a(5) this] obtain s3 where
    3: "finish (txNum s) (rollback_rec (txNum s)) s2 = (Inr (), s3)" "idle s3 base (?rs @ [rollback_rec (txNum s)])" "same_tx s2 s3"
      "conc s3 = cm_release (conc s2)" "\<And>b. data_blk s2 b \<Longrightarrow> view s3 b = view s2 b \<and> disk_block s3 b = view s2 b"
    by blast
  show ?thesis
    using eq 3 same_tx_trans [OF st2 3(3)] 2(3,6) t2 by (intro exI [of _ s3]) simp
qed



section \<open>Opening the database again\<close>

lemma tx_init_facts [simp]:
  "bm.truncate (tx_init s) = s" "conc (tx_init s) = \<lparr>lockTable = [], locks = []\<rparr>" "nextTxNum (tx_init s) = 0"
  "txNum (tx_init s) = 0" "pinned (tx_init s) = []" "buffers (tx_init s) = []" "pool (tx_init s) = pool s"
  "blocksize (tx_init s) = blocksize s" "logFileName (tx_init s) = logFileName s" "numAvailable (tx_init s) = numAvailable s"
  by (simp_all add: tx_init_def bm.extend_def tx.fields_def bm.truncate_def)

lemma bm_truncate_id: "bm.truncate (s :: bm) = s"
  by (simp add: bm.truncate_def)

lemmas tx_init_cong = bm_cong [of "tx_init s" s for s, unfolded tx_init_facts(1) bm_truncate_id, OF refl]

lemma open_idle:
  assumes "log_state l base rs rs" "latestLsn l = 0" "0 < k" "base \<le> length rs"
  defines "s \<equiv> tx_init (bm_init k l)"
  shows "idle s base rs" "blocksize s = blocksize l" "logFileName s = logFileName l" "numAvailable s = k"
    "data_blk l b \<Longrightarrow> view s b = disk_block l b" "disk_block s b = disk_block l b"
proof -
  have "- 1 \<le> latestLsn l" "0 \<le> k" using assms by simp_all
  note i = bm_init_log [OF assms(1) this]
  show "blocksize s = blocksize l" "logFileName s = logFileName l"
    using i by (simp_all add: s_def)
  show "numAvailable s = k"
    by (simp add: s_def bm_init_eq bm_of_def)
  have "tx_ok s base rs rs"
    using i by (simp add: s_def tx_ok_def bl_ok_def tx_init_cong buf_new_def)
  moreover have "owners s = {}"
    using i by (simp add: s_def owners_def buf_new_def)
  ultimately show idle: "idle s base rs"
    using assms(4) by (simp add: idle_def s_def)
  have "disk_block (bm_init k l) b = disk_block l b"
    by (simp add: bm_init_eq bm_of_def disk_block_def file_bytes_def)
  then show disk: "disk_block s b = disk_block l b"
    by (simp add: s_def tx_init_cong)
  show "view s b = disk_block l b" if "data_blk l b"
  proof -
    have "data_blk s b" using that i by (simp add: s_def tx_init_cong data_blk_def)
    with idle_settled [OF idle] disk show ?thesis by (simp add: settled_def)
  qed
qed


section \<open>Recovery\<close>

text \<open>
  \<open>quiet fin rs\<close>: reading the records \<open>rs\<close>, the newest first, with the transactions \<open>fin\<close> known
  to be finished, recovery undoes none of them.
\<close>

fun quiet :: "int list \<Rightarrow> log_record list \<Rightarrow> bool" where
  "quiet fin [] \<longleftrightarrow> True"
| "quiet fin (r # rs) \<longleftrightarrow>
     (if lr_op r = 0 then True
      else if lr_op r = 2 \<or> lr_op r = 3 then quiet (fin @ [lr_txNumber r]) rs
      else (lr_op r = 1 \<or> lr_txNumber r \<in> set fin) \<and> quiet fin rs)"

lemma quiet_mono: "quiet fin rs \<Longrightarrow> set fin \<subseteq> set fin' \<Longrightarrow> quiet fin' rs"
proof (induction rs arbitrary: fin fin')
  case (Cons r rs)
  from Cons.prems(2) have "set (fin @ [x]) \<subseteq> set (fin' @ [x])" for x by auto
  with Cons show ?case by (auto split: if_splits)
qed simp

definition decodes :: "bytes list \<Rightarrow> log_record list \<Rightarrow> bool" where
  "decodes rs recs \<longleftrightarrow> list_all2 (\<lambda>x r. createLogRecord x = Inr (Some r)) rs recs"

lemma undo_start: "lr_op r = 1 \<Longrightarrow> lr_undo r s = (Inr (), s)"
  by (cases r) (simp_all add: lr_undo_def ret_def)

lemma recover_step:
  assumes "it_at s it (rem @ [x])" "createLogRecord x = Inr (Some r)"
  shows "\<exists>it'. it_at s it' rem \<and> rm_recover_loop (Suc fuel) fin it s =
    (if lr_op r = 0 then ret ()
     else if lr_op r = 2 \<or> lr_op r = 3 then rm_recover_loop fuel (fin @ [lr_txNumber r]) it'
     else if lr_txNumber r \<notin> set fin then seq (lr_undo r) (rm_recover_loop fuel fin it')
     else rm_recover_loop fuel fin it') s"
proof -
  obtain it' where it': "next_record it s = (Inr (r, it'), s)" "it_at s it' rem"
    using next_record_eq [OF assms] by blast
  then show ?thesis
    using it_at_hasNext [OF assms(1)] by (intro exI [of _ it']) (simp add: cmd_simps)
qed

lemma recover_quiet:
  assumes "it_at s it rs" "decodes rs recs" "quiet fin (rev recs)" "length rs < fuel"
  shows "rm_recover_loop fuel fin it s = (Inr (), s)"
  using assms
proof (induction rs arbitrary: it recs fin fuel rule: rev_induct)
  case Nil
  then obtain f where "fuel = Suc f" by (cases fuel) auto
  then show ?case using it_at_hasNext [OF Nil.prems(1)] by (simp add: cmd_simps)
next
  case (snoc x rs)
  obtain recs' r where r: "recs = recs' @ [r]" "decodes rs recs'" "createLogRecord x = Inr (Some r)"
    using snoc.prems(2) by (auto simp: decodes_def list_all2_append1 list_all2_Cons1)
  obtain f where f: "fuel = Suc f" using snoc.prems(4) by (cases fuel) auto
  from recover_step [OF snoc.prems(1) r(3), of f fin] obtain it' where
    it': "it_at s it' rs" "rm_recover_loop (Suc f) fin it s =
      (if lr_op r = 0 then ret ()
       else if lr_op r = 2 \<or> lr_op r = 3 then rm_recover_loop f (fin @ [lr_txNumber r]) it'
       else if lr_txNumber r \<notin> set fin then seq (lr_undo r) (rm_recover_loop f fin it')
       else rm_recover_loop f fin it') s" by blast
  have "rm_recover_loop f fin' it' s = (Inr (), s)" if "quiet fin' (rev recs')" for fin'
    using snoc.IH [OF it'(1) r(2) that] snoc.prems(4) f by simp
  with snoc.prems(3) it'(2) show ?case
    by (auto simp: r(1) f ret_def seq_def bnd_def undo_start split: if_splits)
qed

text \<open>
  The changes of the unfinished transaction \<open>t\<close> are undone. \<open>Q\<close> selects the blocks whose
  contents are known: those of files that do not vanish at a restart.
\<close>

lemma recover_undo:
  assumes "it_at s it (rs0 @ map (upd_rec t) us)" "tx_ok s base rs dur" "consistent P us"
    "\<And>b. data_blk s b \<Longrightarrow> Q b \<Longrightarrow> int (length (P b)) = blocksize s \<and> agree P us (view s) b"
    "\<And>u. u \<in> set us \<Longrightarrow> change_ok s u" "int32 t" "0 \<le> txNum s" "owners s \<subseteq> {txNum s}"
    "0 < numAvailable s" "base \<le> length rs" "solo (conc s)" "length us \<le> fuel"
  shows "\<exists>it' s' dur'. rm_recover_loop fuel [] it s = rm_recover_loop (fuel - length us) [] it' s' \<and> it_at s' it' rs0 \<and>
    tx_ok s' base rs dur' \<and> (\<forall>b. data_blk s b \<longrightarrow> Q b \<longrightarrow> view s' b = P b) \<and> owners s' \<subseteq> {txNum s} \<and> same_tx s s' \<and> solo (conc s')"
  using assms
proof (induction us arbitrary: s it fuel dur rule: rev_induct)
  case Nil
  then show ?case
    by (intro exI [of _ it] exI [of _ s] exI [of _ dur]) (simp add: same_tx_def agree_Nil)
next
  case (snoc u us)
  obtain b off old where u: "u = (b, off, old)" by (cases u)
  obtain fuel' where fuel: "fuel = Suc fuel'" using snoc.prems(12) by (cases fuel) auto
  have ch: "change_ok s (b, off, old)"
    using snoc.prems(5) [of u] by (simp add: u)
  have bs: "blocksize s < 2 ^ 31"
    using tx_ok_bounds [OF snoc.prems(2)] by simp
  have "it_at s it ((rs0 @ map (upd_rec t) us) @ [upd_rec t (b, off, old)])"
    using snoc.prems(1) by (simp add: u)
  from recover_step [OF this createLogRecord_recs(1) [OF snoc.prems(6) ch bs], of fuel' "[]"] obtain it' where
    it': "it_at s it' (rs0 @ map (upd_rec t) us)"
      "rm_recover_loop fuel [] it s = seq (lr_undo (SetIntRecord t b off old)) (rm_recover_loop fuel' [] it') s"
    by (auto simp: fuel)
  from undo_step [OF snoc.prems(2) ch snoc.prems(7), of t] solo_xLock(1) [OF snoc.prems(11)] snoc.prems(8,9,10) obtain s1 dur1 where
    s1: "lr_undo (SetIntRecord t b off old) s = (Inr (), s1)" "tx_ok s1 base rs dur1"
      "\<And>c. data_blk s c \<Longrightarrow> view s1 c = undo1 (b, off, old) (view s) c" "conc s1 = snd (cm_xLock b [] [] (conc s))"
      "numAvailable s1 = numAvailable s" "owners s1 \<subseteq> {txNum s}" "same_tx s s1" "log_still s s1"
    by auto
  have st: "txNum s1 = txNum s" "blocksize s1 = blocksize s" "data_blk s1 = data_blk s"
    using s1(7) by (auto simp: same_tx_def data_blk_def)
  have old: "consistent P us" "old_ok P us u"
    using snoc.prems(3) by (simp_all add: consistent_snoc)
  have 1: "it_at s1 it' (rs0 @ map (upd_rec t) us)"
    using it_at_still [OF it'(1) s1(8)] tx_ok_bounds [OF s1(2)] st by simp
  have 2: "int (length (P c)) = blocksize s1 \<and> agree P us (view s1) c" if "data_blk s1 c" "Q c" for c
  proof -
    have c: "data_blk s c" using that st by simp
    have "agree P us (undo1 u (view s)) c"
      using snoc.prems(4) [OF c that(2)] ch by (intro undo_agree [OF old(2) _ u]) (auto simp: change_ok_def)
    then show ?thesis
      using s1(3) [OF c] snoc.prems(4) [OF c that(2)] st(2) agree_cong [of "view s1" c] by (simp add: u)
  qed
  have 3: "change_ok s1 v" if "v \<in> set us" for v
    using snoc.prems(5) [of v] that st by (auto simp: change_ok_def)
  have "0 \<le> txNum s1" "owners s1 \<subseteq> {txNum s1}" "0 < numAvailable s1" "solo (conc s1)" "length us \<le> fuel'"
    using snoc.prems st s1 fuel solo_xLock(2) by simp_all
  from snoc.IH [OF 1 s1(2) old(1) 2 3 snoc.prems(6) this(1-3) snoc.prems(10) this(4,5)] obtain it2 s2 dur2 where
    s2: "rm_recover_loop fuel' [] it' s1 = rm_recover_loop (fuel' - length us) [] it2 s2" "it_at s2 it2 rs0" "tx_ok s2 base rs dur2"
      "\<forall>b. data_blk s b \<longrightarrow> Q b \<longrightarrow> view s2 b = P b" "owners s2 \<subseteq> {txNum s}" "same_tx s1 s2" "solo (conc s2)"
    using st by auto
  have "rm_recover_loop fuel [] it s = rm_recover_loop (fuel - length (us @ [u])) [] it2 s2"
    using it'(2) s1(1) s2(1) by (simp add: fuel cmd_simps)
  with s2 same_tx_trans [OF s1(7) s2(6)] show ?case by blast
qed


lemma tx_recover_eq:
  "tx_recover fuel s = seq (bm_flushAll (txNum s)) (seq (rm_doRecover fuel) (\<lambda>s. finish (txNum s) (int_bytes 0) s)) s"
  by (auto simp: tx_recover_def rm_recover_def finish_def checkpoint_bytes_eq seq_def bnd_def gets_def lift_def
      split: prod.splits sum.splits)

lemma durable_part:
  assumes "prefix rs dur" "prefix dur ((rs @ [x]) @ xs)"
  shows "dur = rs \<or> dur = (rs @ [x]) @ take (length dur - length (rs @ [x])) xs"
proof -
  obtain d where d: "dur = rs @ d" "prefix d (x # xs)"
    using assms by (auto simp: prefix_def)
  then show ?thesis
    by (cases d) (auto simp: prefix_def)
qed

text \<open>
  A crash while the transaction was active: the next process opens the log, starts a
  transaction and recovers; then the contents are those before the unfinished transaction.
\<close>

lemma recover_active:
  assumes act: "active P (rs @ [start_rec (txNum s)]) us s base dur" and pr: "prefix rs dur" and dec: "decodes rs recs"
    and qu: "quiet [] (rev recs)" and tmp: "\<not> is_temp (logFileName s)" and k: "0 < k" and bs: "16 \<le> blocksize s"
    and fuel: "length rs + length us + 2 < fuel"
  shows "\<exists>l s'. lm_init (logFileName s) (crash s) = (Inr (), l) \<and> seq tx_new (tx_recover fuel) (tx_init (bm_init k l)) = (Inr (), s') \<and>
    (\<forall>b. data_blk s b \<longrightarrow> \<not> is_temp (fileName b) \<longrightarrow> view s' b = P b \<and> disk_block s' b = P b) \<and>
    idle s' (length dur) ((dur @ [start_rec 1]) @ [int_bytes 0]) \<and> nextTxNum s' = 1 \<and> solo (conc s') \<and> logFileName s' = logFileName s \<and>
    blocksize s' = blocksize s \<and> (\<forall>b. lt_getLockVal b (lockTable (conc s')) = 0)"
proof -
  let ?t = "txNum s"
  note a = activeD [OF act]
  let ?us = "take (length dur - length (rs @ [start_rec ?t])) us"
  have log: "log_state s base ((rs @ [start_rec ?t]) @ map (upd_rec ?t) us) dur"
    using a(1) by (simp add: tx_ok_def bm_log_def)
  from lm_init_reopen [OF log tmp] obtain l where
    l: "lm_init (logFileName s) (crash s) = (Inr (), l)" "log_state l (length dur) dur dur" "logFileName l = logFileName s"
      "blocksize l = blocksize s" "\<And>m. file_bytes m l = file_bytes m (crash s)" by blast
  have lz: "latestLsn l = 0" using log_state_lsn [OF l(2)] by simp
  let ?o = "tx_init (bm_init k l)"
  note op = open_idle [OF l(2) lz k order_refl]
  have disk: "disk_block l b = disk_block s b" if "\<not> is_temp (fileName b)" for b
    by (simp add: disk_block_def l(4,5) crash_eqs(1) [OF that])
  have dbl: "data_blk l = data_blk s" "data_blk ?o = data_blk s"
    using l(3,4) op(2,3) by (simp_all add: data_blk_def fun_eq_iff)
  have "0 \<le> nextTxNum ?o" "nextTxNum ?o + 1 < 2 ^ 31" "16 \<le> blocksize ?o"
    using op(2) l(4) bs by simp_all
  from tx_new_active [OF op(1) this] obtain s1 dur1 where
    1: "tx_new ?o = (Inr (), s1)" "active (view ?o) (dur @ [start_rec 1]) [] s1 (length dur) dur1" "txNum s1 = 1" "nextTxNum s1 = 1"
      "conc s1 = \<lparr>lockTable = [], locks = []\<rparr>" "blocksize s1 = blocksize s" "logFileName s1 = logFileName s" "numAvailable s1 = k"
      "\<And>b. data_blk s b \<Longrightarrow> view s1 b = view ?o b"
    using op(2,3,4) l(3,4) dbl by auto
  note a1 = activeD [OF 1(2)]
  have db1: "data_blk s1 = data_blk s" using 1(6,7) by (simp add: data_blk_def fun_eq_iff)
  have nn: "0 \<le> txNum s1" using 1(3) by simp
  from tx_flushAll [OF a1(1) nn] obtain s2 dur2 where
    2: "bm_flushAll 1 s1 = (Inr (), s2)" "tx_ok s2 (length dur) (dur @ [start_rec 1]) dur2" "tx_frame (dlsn (length dur) dur2) s1 s2"
      "bm.more s2 = bm.more s1" "owners s2 \<subseteq> {}" "numAvailable s2 = k"
    using a1(7) 1(3,8) by auto
  note m2 = tx_more_eq [OF 2(4)]
  from tx_iterator [OF 2(2)] obtain it s3 where
    3: "lm_iterator s2 = (Inr it, s3)" "it_at s3 it (dur @ [start_rec 1])" "tx_ok s3 (length dur) (dur @ [start_rec 1]) (dur @ [start_rec 1])"
      "same_tx s2 s3" "conc s3 = conc s2" "numAvailable s3 = k" "owners s3 = {}" "data_blk s3 = data_blk s2"
      "\<And>b. data_blk s2 b \<Longrightarrow> view s3 b = view s2 b"
    using 2(5,6) by auto
  have db2: "data_blk s2 = data_blk s" using tx_frame_data_blk [OF 2(3)] db1 by simp
  have st3: "same_tx s1 s3" using same_tx_trans [OF same_tx_frame [OF 2(3)] 3(4)] .
  have f3: "txNum s3 = 1" "blocksize s3 = blocksize s" "data_blk s3 = data_blk s" "solo (conc s3)"
    using st3 1(3,5,6) 3(5,8) db2 m2 by (simp_all add: same_tx_def solo_def lt_getLockVal_def)
  have v3: "view s3 b = disk_block s b" if b: "data_blk s b" "\<not> is_temp (fileName b)" for b
  proof -
    have "view s3 b = view s1 b" using 3(9) 2(3) b db1 db2 by (simp add: tx_frame_def bm_core_def)
    then show ?thesis using 1(9) op(5) dbl disk b by simp
  qed
  obtain f where f: "fuel = Suc f" using fuel by (cases fuel) auto
  have "int32 1" by (simp add: int32_def)
  from recover_step [OF 3(2) createLogRecord_recs(2) [OF this], of f "[]"] obtain it1 where
    it1: "it_at s3 it1 dur" "rm_recover_loop fuel [] it s3 = rm_recover_loop f [] it1 s3"
    by (auto simp: f seq_def bnd_def undo_start simp del: rm_recover_loop.simps)
  define rs0 where "rs0 = (if dur = rs then rs else rs @ [start_rec ?t])"
  define recs0 where "recs0 = (if dur = rs then recs else recs @ [StartRecord ?t])"
  have dur: "dur = rs0 @ map (upd_rec ?t) ?us"
    using durable_part [OF pr log_state_prefix [OF log]] by (auto simp: rs0_def take_map)
  have "decodes rs0 recs0" "quiet [] (rev recs0)"
    using dec qu createLogRecord_recs(2) [OF a(6)] by (auto simp: rs0_def recs0_def decodes_def list_all2_appendI)
  have lens: "length ?us \<le> f" "length rs0 < f - length ?us"
    using fuel f by (auto simp: rs0_def min_def)
  have "int (length (P b)) = blocksize s3 \<and> agree P ?us (view s3) b" if "data_blk s3 b" "\<not> is_temp (fileName b)" for b
  proof -
    have b: "data_blk s b" using that f3 by simp
    then have "agree P ?us (disk_block s) b" using act by (simp add: active_def)
    then show ?thesis using v3 [OF b that(2)] a(8) [OF b] f3 agree_cong [of "view s3" b] by simp
  qed
  moreover have "change_ok s3 u" if "u \<in> set ?us" for u
    using a(3) [OF in_set_takeD [OF that]] f3 by (auto simp: change_ok_def)
  ultimately have "\<exists>it' s' dur'. rm_recover_loop f [] it1 s3 = rm_recover_loop (f - length ?us) [] it' s' \<and> it_at s' it' rs0 \<and>
      tx_ok s' (length dur) (dur @ [start_rec 1]) dur' \<and> (\<forall>b. data_blk s3 b \<longrightarrow> \<not> is_temp (fileName b) \<longrightarrow> view s' b = P b) \<and>
      owners s' \<subseteq> {txNum s3} \<and> same_tx s3 s' \<and> solo (conc s')"
    by (intro recover_undo [OF subst [OF dur, of "it_at s3 it1", OF it1(1)] _ consistent_take [OF a(2)], of "length dur" "dur @ [start_rec 1]"])
      (use 3 f3 a(6) k lens in simp_all)
  then obtain it2 s4 dur4 where
    4: "rm_recover_loop f [] it1 s3 = rm_recover_loop (f - length ?us) [] it2 s4" "it_at s4 it2 rs0"
      "tx_ok s4 (length dur) (dur @ [start_rec 1]) dur4" "\<And>b. data_blk s b \<Longrightarrow> \<not> is_temp (fileName b) \<Longrightarrow> view s4 b = P b"
      "owners s4 \<subseteq> {1}" "same_tx s3 s4" "solo (conc s4)"
    using f3 by auto
  have st4: "same_tx s1 s4" using same_tx_trans [OF st3 4(6)] .
  have f4: "txNum s4 = 1" "blocksize s4 = blocksize s" "data_blk s4 = data_blk s" "logFileName s4 = logFileName s" "nextTxNum s4 = 1"
    using st4 1(3,4,6,7) by (simp_all add: same_tx_def data_blk_def fun_eq_iff)
  have "rm_recover_loop fuel [] it s3 = (Inr (), s4)"
    using it1(2) 4(1) recover_quiet [OF 4(2) \<open>decodes rs0 recs0\<close> \<open>quiet [] (rev recs0)\<close> lens(2)] by simp
  then have run: "tx_recover fuel s1 = finish 1 (int_bytes 0) s4"
    using 1(3) 2(1) 3(1) f4(1) by (simp add: tx_recover_eq rm_doRecover_def cmd_simps)
  have "owners s4 \<subseteq> {1}" "(0::int) \<le> 1" "int (length (int_bytes 0)) + 8 \<le> blocksize s4" "length dur \<le> length (dur @ [start_rec 1])"
    using 4(5) f4(2) bs by simp_all
  from finish_spec [OF 4(3) this] obtain s5 where
    5: "finish 1 (int_bytes 0) s4 = (Inr (), s5)" "idle s5 (length dur) ((dur @ [start_rec 1]) @ [int_bytes 0])" "same_tx s4 s5"
      "conc s5 = cm_release (conc s4)" "\<And>b. data_blk s4 b \<Longrightarrow> view s5 b = view s4 b \<and> disk_block s5 b = view s4 b" by blast
  have "seq tx_new (tx_recover fuel) ?o = (Inr (), s5)"
    using 1(1) run 5(1) by (simp add: cmd_simps)
  then show ?thesis
    using l(1) 4(4,7) 5 f4 solo_release solo_release_free
    by (intro exI [of _ l] exI [of _ s5]) (simp add: same_tx_def)
qed


section \<open>Histories of transactions\<close>

lemma recover_loop_fuel:
  "rm_recover_loop fuel fin it s = (Inr (), s') \<Longrightarrow> fuel \<le> fuel' \<Longrightarrow> rm_recover_loop fuel' fin it s = (Inr (), s')"
proof (induction fuel arbitrary: fin it s fuel')
  case 0
  then show ?case by (simp add: raise_def)
next
  case (Suc fuel)
  obtain f where f: "fuel' = Suc f" "fuel \<le> f" using Suc.prems(2) by (cases fuel') auto
  note IH = Suc.IH [OF _ f(2)]
  show ?case
  proof (cases "li_hasNext it s")
    case False
    with Suc.prems(1) f(1) show ?thesis by (simp add: cmd_simps)
  next
    case True
    with Suc.prems(1) obtain r it' s1 where n: "next_record it s = (Inr (r, it'), s1)"
      by (auto simp: gets_def bnd_Inr_iff)
    have st: "rm_recover_loop (Suc g) fin it s =
        (if lr_op r = 0 then ret ()
         else if lr_op r = 2 \<or> lr_op r = 3 then rm_recover_loop g (fin @ [lr_txNumber r]) it'
         else if lr_txNumber r \<notin> set fin then seq (lr_undo r) (rm_recover_loop g fin it')
         else rm_recover_loop g fin it') s1" for g
      using n True by (simp add: cmd_simps)
    have "seq (lr_undo r) (rm_recover_loop f fin it') s1 = (Inr (), s')"
      if undo: "seq (lr_undo r) (rm_recover_loop fuel fin it') s1 = (Inr (), s')"
    proof -
      obtain s2 where s2: "lr_undo r s1 = (Inr (), s2)" "rm_recover_loop fuel fin it' s2 = (Inr (), s')"
        using undo by (auto simp: seq_def bnd_Inr_iff)
      with IH [OF s2(2)] show ?thesis by (simp add: cmd_simps)
    qed
    then show ?thesis
      using Suc.prems(1) IH unfolding f(1) st by (auto simp del: rm_recover_loop.simps split: if_splits)
  qed
qed

text \<open>
  The database at rest between transactions, in every state that a sequence of transactions,
  each committed, rolled back or cut short by a crash and recovered from, can reach.
\<close>

inductive history :: "tx \<Rightarrow> bool" where
  fresh: "lm_init n (fm_init None bs) = (Inr (), l) \<Longrightarrow> 16 \<le> bs \<Longrightarrow> bs < 2 ^ 31 \<Longrightarrow> \<not> is_temp n \<Longrightarrow> 0 < k \<Longrightarrow>
    history (tx_init (bm_init k l))"
| committed: "history s \<Longrightarrow> nextTxNum s + 1 < 2 ^ 31 \<Longrightarrow> tx_new s = (Inr (), s1) \<Longrightarrow> ops_run xs s1 = (Inr (), s2) \<Longrightarrow>
    \<forall>x \<in> set xs. blk_fits (blocksize s) (logFileName s) (op_blk x) \<Longrightarrow> tx_commit s2 = (Inr (), s3) \<Longrightarrow> history s3"
| rolled_back: "history s \<Longrightarrow> nextTxNum s + 1 < 2 ^ 31 \<Longrightarrow> tx_new s = (Inr (), s1) \<Longrightarrow> ops_run xs s1 = (Inr (), s2) \<Longrightarrow>
    \<forall>x \<in> set xs. blk_fits (blocksize s) (logFileName s) (op_blk x) \<Longrightarrow> 0 < numAvailable s2 \<Longrightarrow> length xs < fuel \<Longrightarrow>
    tx_rollback fuel s2 = (Inr (), s3) \<Longrightarrow> history s3"
| crashed: "history s \<Longrightarrow> nextTxNum s + 1 < 2 ^ 31 \<Longrightarrow> tx_new s = (Inr (), s1) \<Longrightarrow> ops_run xs s1 = (Inr (), s2) \<Longrightarrow>
    \<forall>x \<in> set xs. blk_fits (blocksize s) (logFileName s) (op_blk x) \<Longrightarrow> 0 < k \<Longrightarrow> lm_init (logFileName s) (crash s2) = (Inr (), l) \<Longrightarrow>
    seq tx_new (tx_recover fuel) (tx_init (bm_init k l)) = (Inr (), s3) \<Longrightarrow> history s3"

definition at_rest :: "tx \<Rightarrow> nat \<Rightarrow> bytes list \<Rightarrow> log_record list \<Rightarrow> bool" where
  "at_rest s base rs recs \<longleftrightarrow> idle s base rs \<and> decodes rs recs \<and> quiet [] (rev recs) \<and> 0 \<le> nextTxNum s \<and> 16 \<le> blocksize s \<and>
     \<not> is_temp (logFileName s) \<and> (\<forall>b. lt_getLockVal b (lockTable (conc s)) = 0)"

lemma tx_recover_fuel:
  assumes "seq tx_new (tx_recover fuel) s = (Inr (), s')" "fuel \<le> fuel'"
  shows "seq tx_new (tx_recover fuel') s = (Inr (), s')"
  using assms recover_loop_fuel [OF _ assms(2)]
  by (auto simp: tx_recover_eq rm_doRecover_def seq_def bnd_Inr_iff) blast

text \<open>What holds while a transaction runs that began at rest.\<close>

lemma run_active:
  assumes rest: "at_rest s base rs recs" and n: "nextTxNum s + 1 < 2 ^ 31" and run: "tx_new s = (Inr (), s1)" "ops_run xs s1 = (Inr (), s2)"
    and fits: "\<forall>x \<in> set xs. blk_fits (blocksize s) (logFileName s) (op_blk x)"
  shows "\<exists>us dur. active (view s) (rs @ [start_rec (txNum s2)]) us s2 base dur \<and> prefix rs dur \<and> length us \<le> length xs \<and>
    solo (conc s2) \<and> blocksize s2 = blocksize s \<and> logFileName s2 = logFileName s \<and> data_blk s2 = data_blk s \<and>
    nextTxNum s2 = nextTxNum s + 1"
proof -
  have r: "idle s base rs" "0 \<le> nextTxNum s" "16 \<le> blocksize s"
    using rest by (simp_all add: at_rest_def)
  from tx_new_active [OF r(1,2) n r(3)] run(1) obtain dur1 where
    1: "active (view s) (rs @ [start_rec (nextTxNum s + 1)]) [] s1 base dur1" "txNum s1 = nextTxNum s + 1"
      "nextTxNum s1 = nextTxNum s + 1" "conc s1 = (conc s)\<lparr>locks := []\<rparr>" "blocksize s1 = blocksize s" "logFileName s1 = logFileName s"
      "prefix rs dur1"
    by auto
  from active_ops [OF 1(1) run(2)] fits 1(5,6) obtain us dur where
    2: "active (view s) (rs @ [start_rec (nextTxNum s + 1)]) us s2 base dur" "prefix dur1 dur" "same_tx s1 s2" "length us \<le> length xs"
      "solo (conc s1) \<longrightarrow> solo (conc s2)"
    by auto
  have "solo (conc s1)"
    unfolding 1(4) using rest by (intro solo_start) (simp add: at_rest_def)
  then show ?thesis
    using 1 2 prefix_order.trans [OF 1(7) 2(2)]
    by (intro exI [of _ us] exI [of _ dur]) (simp add: same_tx_def data_blk_def fun_eq_iff)
qed

lemma quiet_changes:
  assumes "quiet fin rs" "t \<in> set fin"
  shows "quiet fin (map (\<lambda>(b, off, old). SetIntRecord t b off old) us @ rs)"
  using assms by (induction us) auto

lemma decodes_changes:
  assumes "int32 t" "\<And>u. u \<in> set us \<Longrightarrow> change_ok s u" "blocksize s < 2 ^ 31"
  shows "decodes (map (upd_rec t) us) (map (\<lambda>(b, off, old). SetIntRecord t b off old) us)"
  using assms createLogRecord_recs(1) [OF assms(1)] by (induction us) (fastforce simp: decodes_def)+

lemma at_rest_ended:
  assumes rest: "at_rest s base rs recs" and act: "active P (rs @ [start_rec (txNum s2)]) us s2 base dur"
    and fin: "idle s3 base (((rs @ [start_rec (txNum s2)]) @ map (upd_rec (txNum s2)) us) @ [x])"
    and x: "x = commit_rec (txNum s2) \<or> x = rollback_rec (txNum s2)"
    and same: "same_tx s2 s3" "blocksize s2 = blocksize s" "logFileName s2 = logFileName s" "nextTxNum s2 = nextTxNum s + 1"
    and lk: "solo (conc s2)" "conc s3 = cm_release (conc s2)"
  shows "\<exists>base rs recs. at_rest s3 base rs recs"
proof -
  let ?t = "txNum s2"
  note a = activeD [OF act]
  let ?us = "map (\<lambda>(b, off, old). SetIntRecord ?t b off old) us"
  obtain r where r: "createLogRecord x = Inr (Some r)" "lr_op r = 2 \<or> lr_op r = 3" "lr_txNumber r = ?t"
    using x createLogRecord_recs(3,4) [OF a(6)] by auto
  have dec: "decodes (((rs @ [start_rec ?t]) @ map (upd_rec ?t) us) @ [x]) (((recs @ [StartRecord ?t]) @ ?us) @ [r])"
    using rest decodes_changes [OF a(6,3)] tx_ok_bounds [OF a(1)] createLogRecord_recs(2) [OF a(6)] r(1)
    by (auto simp: at_rest_def decodes_def intro!: list_all2_appendI)
  have "quiet [?t] (rev recs)"
    using rest quiet_mono [of "[]" "rev recs" "[?t]"] by (simp add: at_rest_def)
  then have "quiet [?t] (StartRecord ?t # rev recs)"
    by simp
  from quiet_changes [OF this, of ?t "rev us"] have "quiet [] (rev (((recs @ [StartRecord ?t]) @ ?us) @ [r]))"
    using r(2,3) by (auto simp: rev_map)
  with dec fin rest same solo_release_free [OF lk(1)] lk(2) have
    "at_rest s3 base (((rs @ [start_rec ?t]) @ map (upd_rec ?t) us) @ [x]) (((recs @ [StartRecord ?t]) @ ?us) @ [r])"
    by (simp add: at_rest_def same_tx_def)
  then show ?thesis by blast
qed


lemma history_at_rest: "history s \<Longrightarrow> \<exists>base rs recs. at_rest s base rs recs"
proof (induction rule: history.induct)
  case (fresh n bs l k)
  have "fm_inv (fm_init None bs)" "fm_length n (fm_init None bs) = 0" "blocksize (fm_init None bs) = bs"
    using fm_inv_empty fresh by simp_all
  from lm_init_fresh [OF this(1) _ _ this(2)] fresh this(3) have
    l: "log_state l 0 [] []" "latestLsn l = 0" "blocksize l = bs" "logFileName l = n" by auto
  have "(0::nat) \<le> length ([] :: bytes list)" by simp
  note op = open_idle [OF l(1,2) fresh(5) this]
  show ?case
    using op(1-3) l fresh
    by (intro exI [of _ 0] exI [of _ "[]"]) (simp add: at_rest_def decodes_def lt_getLockVal_def)
next
  case (committed s s1 xs s2 s3)
  from committed(7) obtain base rs recs where rest: "at_rest s base rs recs" by blast
  from run_active [OF rest committed(2-5)] obtain us dur where
    2: "active (view s) (rs @ [start_rec (txNum s2)]) us s2 base dur" "solo (conc s2)" "blocksize s2 = blocksize s"
      "logFileName s2 = logFileName s" "nextTxNum s2 = nextTxNum s + 1" by blast
  have "16 \<le> blocksize s2" using rest 2(3) by (simp add: at_rest_def)
  from tx_commit_active [OF 2(1) this] committed(6) have
    "idle s3 base (((rs @ [start_rec (txNum s2)]) @ map (upd_rec (txNum s2)) us) @ [commit_rec (txNum s2)])"
    "same_tx s2 s3" "conc s3 = cm_release (conc s2)" by auto
  then show ?case
    using at_rest_ended [OF rest 2(1) _ _ _ 2(3-5,2)] by blast
next
  case (rolled_back s s1 xs s2 fuel s3)
  from rolled_back(9) obtain base rs recs where rest: "at_rest s base rs recs" by blast
  from run_active [OF rest rolled_back(2-5)] obtain us dur where
    2: "active (view s) (rs @ [start_rec (txNum s2)]) us s2 base dur" "solo (conc s2)" "blocksize s2 = blocksize s"
      "logFileName s2 = logFileName s" "nextTxNum s2 = nextTxNum s + 1" "length us \<le> length xs" by blast
  have "16 \<le> blocksize s2" using rest 2(3) by (simp add: at_rest_def)
  moreover have "length us < fuel" using 2(6) rolled_back(7) by simp
  note rb = tx_rollback_active [OF 2(1) calculation rolled_back(6) this]
  from rb rolled_back(8) have
    "idle s3 base (((rs @ [start_rec (txNum s2)]) @ map (upd_rec (txNum s2)) us) @ [rollback_rec (txNum s2)])"
    "same_tx s2 s3" "conc s3 = cm_release (conc s2)"
    by auto
  then show ?case
    using at_rest_ended [OF rest 2(1) _ _ _ 2(3-5,2)] by blast
next
  case (crashed s s1 xs s2 k l fuel s3)
  from crashed(9) obtain base rs recs where rest: "at_rest s base rs recs" by blast
  from run_active [OF rest crashed(2-5)] obtain us dur where
    2: "active (view s) (rs @ [start_rec (txNum s2)]) us s2 base dur" "solo (conc s2)" "blocksize s2 = blocksize s"
      "logFileName s2 = logFileName s" "prefix rs dur" by blast
  have r: "decodes rs recs" "quiet [] (rev recs)" "\<not> is_temp (logFileName s2)" "16 \<le> blocksize s2"
    using rest 2(3,4) by (simp_all add: at_rest_def)
  let ?fuel = "max fuel (length rs + length us + 3)"
  from recover_active [OF 2(1,5) r(1-3) crashed(6) r(4), of ?fuel] crashed(7) 2(4) tx_recover_fuel [OF crashed(8), of ?fuel] have
    3: "idle s3 (length dur) ((dur @ [start_rec 1]) @ [int_bytes 0])" "nextTxNum s3 = 1" "logFileName s3 = logFileName s2"
      "blocksize s3 = blocksize s2" "\<forall>b. lt_getLockVal b (lockTable (conc s3)) = 0"
    by auto
  note a = activeD [OF 2(1)]
  let ?us = "map (\<lambda>(b, off, old). SetIntRecord (txNum s2) b off old) us"
  have "decodes ((rs @ [start_rec (txNum s2)]) @ map (upd_rec (txNum s2)) us) ((recs @ [StartRecord (txNum s2)]) @ ?us)"
    using r(1) decodes_changes [OF a(6,3)] tx_ok_bounds [OF a(1)] createLogRecord_recs(2) [OF a(6)]
    by (auto simp: decodes_def intro!: list_all2_appendI)
  moreover have "prefix dur ((rs @ [start_rec (txNum s2)]) @ map (upd_rec (txNum s2)) us)"
    using a(1) log_state_prefix by (auto simp: tx_ok_def bm_log_def)
  then have "dur = take (length dur) ((rs @ [start_rec (txNum s2)]) @ map (upd_rec (txNum s2)) us)"
    by (metis append_eq_conv_conj prefixE)
  ultimately obtain recs' where "decodes dur recs'"
    unfolding decodes_def by (metis list_all2_takeI)
  then have "decodes ((dur @ [start_rec 1]) @ [int_bytes 0]) ((recs' @ [StartRecord 1]) @ [CheckpointRecord])"
    using createLogRecord_recs(2) [of 1] createLogRecord_recs(5) by (simp add: decodes_def list_all2_appendI int32_def)
  with 3 r show ?case
    by (intro exI [of _ "length dur"] exI) (auto simp: at_rest_def)
qed


section \<open>Properties\<close>


definition demo_hist :: tx where
  "demo_hist = tx_init (bm_init 3 (snd (lm_init ''log'' (fm_init None 64))))"

definition demo_ops :: "tx_op list" where
  "demo_ops = (let b = BlockId ''t'' 0; c = BlockId ''t'' 1
     in [OpPin b, OpSetInt b 8 77, OpSetInt b 10 5, OpPin c, OpSetInt c 60 (- 1), OpGetInt b 8, OpUnpin c])"

definition demo_run :: tx where
  "demo_run = snd (seq tx_new (ops_run demo_ops) demo_hist)"

lemma demo_hist: "history demo_hist"
proof -
  have "fst (lm_init ''log'' (fm_init None 64)) = Inr ()" by code_simp
  then have "lm_init ''log'' (fm_init None 64) = (Inr (), snd (lm_init ''log'' (fm_init None 64)))"
    by (simp add: prod_eq_iff)
  from history.fresh [OF this] show ?thesis
    by (simp add: demo_hist_def is_temp_def)
qed

lemma demo_run:
  "tx_new demo_hist = (Inr (), snd (tx_new demo_hist))"
  "ops_run demo_ops (snd (tx_new demo_hist)) = (Inr (), demo_run)"
  "0 < numAvailable demo_run" "nextTxNum demo_hist + 1 < 2 ^ 31" "blocksize demo_hist = 64" "logFileName demo_hist = ''log''"
proof -
  have "fst (tx_new demo_hist) = Inr ()" by code_simp
  moreover have "fst (ops_run demo_ops (snd (tx_new demo_hist))) = Inr ()" by code_simp
  ultimately show "tx_new demo_hist = (Inr (), snd (tx_new demo_hist))"
      "ops_run demo_ops (snd (tx_new demo_hist)) = (Inr (), demo_run)"
    by (auto simp: demo_run_def prod_eq_iff seq_def bnd_def split: prod.split)
qed (code_simp)+

lemma demo_fits: "\<forall>x \<in> set demo_ops. blk_fits (blocksize demo_hist) (logFileName demo_hist) (op_blk x)"
  by (simp add: demo_run(5,6) demo_ops_def blk_fits_def Let_def)








end
