(* ===== verification/Values.thy ===== *)
theory Values
  imports Page
begin

text \<open>
  Constants, record identifiers, schemas and layouts: \<open>src/src/scan/Constant.cpp\<close> and
  \<open>src/src/record/RID.cpp\<close>, \<open>FieldInfo.cpp\<close>, \<open>Schema.cpp\<close>, \<open>Layout.cpp\<close>. The theory shows
  that comparison of constants of one kind is a linear order and that a layout gives every
  field its own bytes inside the slot.
\<close>

section \<open>Arithmetic on ints\<close>

text \<open>Signed overflow is undefined behaviour; \<open>cdiv\<close> is the C++ division, towards zero.\<close>

definition ck :: "int \<Rightarrow> int outcome" where
  "ck n = (if int32 n then Inr n else Inl Undef)"

definition cdiv :: "int \<Rightarrow> int \<Rightarrow> int outcome" where
  "cdiv a b = (if b = 0 then Inl Undef else ck (sgn a * sgn b * (\<bar>a\<bar> div \<bar>b\<bar>)))"

section \<open>Constants\<close>

text \<open>Both pointers may be null, and the two are independent.\<close>

record const =
  ival :: "int option"
  sval :: "string option"

definition const_null :: const where
  "const_null = \<lparr>ival = None, sval = None\<rparr>"

definition const_int :: "int \<Rightarrow> const" where
  "const_int i = \<lparr>ival = Some i, sval = None\<rparr>"

definition const_str :: "string \<Rightarrow> const" where
  "const_str s = \<lparr>ival = None, sval = Some s\<rparr>"

definition deref :: "'a option \<Rightarrow> 'a outcome" where
  "deref p = (case p of None \<Rightarrow> Inl Undef | Some x \<Rightarrow> Inr x)"

definition const_eq :: "const \<Rightarrow> const \<Rightarrow> bool outcome" where
  "const_eq lhs rhs =
     (case ival lhs of
        Some a \<Rightarrow> rbind (deref (ival rhs)) (\<lambda>b. Inr (a = b))
      | None \<Rightarrow> rbind (deref (sval lhs)) (\<lambda>a. rbind (deref (sval rhs)) (\<lambda>b. Inr (a = b))))"

definition const_ne :: "const \<Rightarrow> const \<Rightarrow> bool outcome" where
  "const_ne lhs rhs = rbind (const_eq lhs rhs) (\<lambda>b. Inr (\<not> b))"

definition const_lt :: "const \<Rightarrow> const \<Rightarrow> bool outcome" where
  "const_lt lhs rhs =
     (case ival lhs of
        Some a \<Rightarrow> rbind (deref (ival rhs)) (\<lambda>b. Inr (a < b))
      | None \<Rightarrow> rbind (deref (sval lhs)) (\<lambda>a. rbind (deref (sval rhs)) (\<lambda>b. Inr (a < b))))"

definition const_gt :: "const \<Rightarrow> const \<Rightarrow> bool outcome" where
  "const_gt lhs rhs =
     (case ival lhs of
        Some a \<Rightarrow> rbind (deref (ival rhs)) (\<lambda>b. Inr (a > b))
      | None \<Rightarrow> rbind (deref (sval lhs)) (\<lambda>a. rbind (deref (sval rhs)) (\<lambda>b. Inr (a > b))))"

definition const_le :: "const \<Rightarrow> const \<Rightarrow> bool outcome" where
  "const_le lhs rhs = rbind (const_gt lhs rhs) (\<lambda>b. Inr (\<not> b))"

definition const_ge :: "const \<Rightarrow> const \<Rightarrow> bool outcome" where
  "const_ge lhs rhs = rbind (const_lt lhs rhs) (\<lambda>b. Inr (\<not> b))"

text \<open>\<open>operator+=\<close> changes the int its left operand points to.\<close>

definition const_plus :: "const \<Rightarrow> const \<Rightarrow> const outcome" where
  "const_plus lhs rhs =
     (case ival lhs of
        Some a \<Rightarrow> rbind (deref (ival rhs)) (\<lambda>b. rbind (ck (a + b)) (\<lambda>c. Inr (lhs\<lparr>ival := Some c\<rparr>)))
      | None \<Rightarrow> Inr lhs)"

text \<open>\<open>operator=\<close> leaves a pointer alone when the other one's is null.\<close>

definition const_assign :: "const \<Rightarrow> const \<Rightarrow> const" where
  "const_assign c other =
     \<lparr>ival = (case ival other of Some i \<Rightarrow> Some i | None \<Rightarrow> ival c),
      sval = (case sval other of Some s \<Rightarrow> Some s | None \<Rightarrow> sval c)\<rparr>"

definition const_asInt :: "const \<Rightarrow> int outcome" where
  "const_asInt c = deref (ival c)"

definition const_asString :: "const \<Rightarrow> string outcome" where
  "const_asString c = deref (sval c)"

definition const_toString :: "const \<Rightarrow> string outcome" where
  "const_toString c = (case ival c of Some i \<Rightarrow> Inr (show_int i) | None \<Rightarrow> deref (sval c))"

definition const_isNull :: "const \<Rightarrow> bool" where
  "const_isNull c \<longleftrightarrow> ival c = None \<and> sval c = None"

section \<open>Record identifiers\<close>

record rid =
  rid_block :: int
  rid_slot :: int

definition rid_equals :: "rid \<Rightarrow> rid \<Rightarrow> bool" where
  "rid_equals a b \<longleftrightarrow> rid_block a = rid_block b \<and> rid_slot a = rid_slot b"

definition rid_toString :: "rid \<Rightarrow> string" where
  "rid_toString r = ''['' @ show_int (rid_block r) @ '', '' @ show_int (rid_slot r) @ '']''"

section \<open>Schemas\<close>

record field_info =
  fi_type :: int
  fi_length :: int

record schema =
  sch_fields :: "string list"
  sch_info :: "(string \<times> field_info) list"

definition INTEGER :: int where "INTEGER = 0"
definition VARCHAR :: int where "VARCHAR = 1"
definition BOOLEAN :: int where "BOOLEAN = 2"

definition sch_empty :: schema where
  "sch_empty = \<lparr>sch_fields = [], sch_info = []\<rparr>"

definition sch_addField :: "string \<Rightarrow> int \<Rightarrow> int \<Rightarrow> schema \<Rightarrow> schema" where
  "sch_addField f ty len sch =
     sch\<lparr>sch_fields := sch_fields sch @ [f], sch_info := om_put f \<lparr>fi_type = ty, fi_length = len\<rparr> (sch_info sch)\<rparr>"

definition sch_addIntField :: "string \<Rightarrow> schema \<Rightarrow> schema" where
  "sch_addIntField f = sch_addField f INTEGER 0"

definition sch_addStringField :: "string \<Rightarrow> int \<Rightarrow> schema \<Rightarrow> schema" where
  "sch_addStringField f len = sch_addField f VARCHAR len"

definition sch_addBoolField :: "string \<Rightarrow> schema \<Rightarrow> schema" where
  "sch_addBoolField f = sch_addField f BOOLEAN 0"

definition sch_hasField :: "string \<Rightarrow> schema \<Rightarrow> bool" where
  "sch_hasField f sch \<longleftrightarrow> map_of (sch_info sch) f \<noteq> None"

definition sch_fieldType :: "string \<Rightarrow> schema \<Rightarrow> int outcome" where
  "sch_fieldType f sch =
     (case map_of (sch_info sch) f of
        Some i \<Rightarrow> Inr (fi_type i)
      | None \<Rightarrow> Inl (Throw (''Field not found: '' @ f)))"

definition sch_fieldLength :: "string \<Rightarrow> schema \<Rightarrow> int outcome" where
  "sch_fieldLength f sch =
     (case map_of (sch_info sch) f of
        Some i \<Rightarrow> Inr (fi_length i)
      | None \<Rightarrow> Inl (Throw (''Field not found: '' @ f)))"

definition sch_add :: "string \<Rightarrow> schema \<Rightarrow> schema \<Rightarrow> schema outcome" where
  "sch_add f from sch =
     rbind (sch_fieldType f from) (\<lambda>ty.
     rbind (sch_fieldLength f from) (\<lambda>len. Inr (sch_addField f ty len sch)))"

fun sch_add_list :: "string list \<Rightarrow> schema \<Rightarrow> schema \<Rightarrow> schema outcome" where
  "sch_add_list [] from sch = Inr sch"
| "sch_add_list (f # fs) from sch = rbind (sch_add f from sch) (sch_add_list fs from)"

definition sch_addAll :: "schema \<Rightarrow> schema \<Rightarrow> schema outcome" where
  "sch_addAll from sch = sch_add_list (sch_fields from) from sch"

section \<open>Layouts\<close>

record layout =
  lay_schema :: schema
  lay_offsets :: "(string \<times> int) list"
  lay_slotSize :: int

definition lay_lengthInBytes :: "schema \<Rightarrow> string \<Rightarrow> int outcome" where
  "lay_lengthInBytes sch f =
     rbind (sch_fieldType f sch) (\<lambda>ty.
     if ty = INTEGER then Inr 4
     else if ty = BOOLEAN then Inr 4
     else if ty = VARCHAR then rbind (sch_fieldLength f sch) (\<lambda>n. Inr (maxLength n))
     else Inl (Throw (''Unknown field type: '' @ show_int ty)))"

fun lay_place :: "schema \<Rightarrow> string list \<Rightarrow> (string \<times> int) list \<Rightarrow> int \<Rightarrow> ((string \<times> int) list \<times> int) outcome" where
  "lay_place sch [] offs pos = Inr (offs, pos)"
| "lay_place sch (f # fs) offs pos =
     rbind (lay_lengthInBytes sch f) (\<lambda>n. lay_place sch fs (om_put f pos offs) (pos + n))"

definition lay_new :: "schema \<Rightarrow> layout outcome" where
  "lay_new sch =
     rbind (lay_place sch (sch_fields sch) [] 4) (\<lambda>(offs, pos).
     Inr \<lparr>lay_schema = sch, lay_offsets = offs, lay_slotSize = pos\<rparr>)"

definition lay_offset :: "string \<Rightarrow> layout \<Rightarrow> int outcome" where
  "lay_offset f l =
     (case map_of (lay_offsets l) f of
        Some n \<Rightarrow> Inr n
      | None \<Rightarrow> Inl (Throw (''Field not found: '' @ f)))"

section \<open>Values\<close>

text \<open>What a constant of one kind stands for.\<close>

datatype val = VInt int | VStr string

fun const_of :: "val \<Rightarrow> const" where
  "const_of (VInt i) = const_int i"
| "const_of (VStr s) = const_str s"

fun val_kind :: "val \<Rightarrow> int" where
  "val_kind (VInt i) = INTEGER"
| "val_kind (VStr s) = VARCHAR"

instantiation val :: linorder
begin

fun less_val :: "val \<Rightarrow> val \<Rightarrow> bool" where
  "less_val (VInt a) (VInt b) \<longleftrightarrow> a < b"
| "less_val (VInt a) (VStr b) \<longleftrightarrow> True"
| "less_val (VStr a) (VInt b) \<longleftrightarrow> False"
| "less_val (VStr a) (VStr b) \<longleftrightarrow> a < b"

definition less_eq_val :: "val \<Rightarrow> val \<Rightarrow> bool" where
  "less_eq_val a b \<longleftrightarrow> a < b \<or> a = b"

instance
proof
  fix x y z :: val
  show "x < y \<longleftrightarrow> x \<le> y \<and> \<not> y \<le> x"
    by (cases x; cases y) (auto simp: less_eq_val_def)
  show "x \<le> x"
    by (simp add: less_eq_val_def)
  show "x \<le> y \<Longrightarrow> y \<le> z \<Longrightarrow> x \<le> z"
    by (cases x; cases y; cases z) (auto simp: less_eq_val_def)
  show "x \<le> y \<Longrightarrow> y \<le> x \<Longrightarrow> x = y"
    by (cases x; cases y) (auto simp: less_eq_val_def)
  show "x \<le> y \<or> y \<le> x"
    by (cases x; cases y) (auto simp: less_eq_val_def)
qed

end

lemma const_cmp:
  assumes "val_kind a = val_kind b"
  shows "const_eq (const_of a) (const_of b) = Inr (a = b)" "const_lt (const_of a) (const_of b) = Inr (a < b)"
    "const_gt (const_of a) (const_of b) = Inr (b < a)" "const_ne (const_of a) (const_of b) = Inr (a \<noteq> b)"
    "const_le (const_of a) (const_of b) = Inr (a \<le> b)" "const_ge (const_of a) (const_of b) = Inr (b \<le> a)"
  using assms
  by (cases a; cases b; simp add: const_eq_def const_lt_def const_gt_def const_ne_def const_le_def const_ge_def
      const_int_def const_str_def deref_def INTEGER_def VARCHAR_def less_eq_val_def; auto)+

lemma const_of_simps [simp]:
  "const_assign const_null (const_of v) = const_of v" "\<not> const_isNull (const_of v)" "const_isNull const_null"
  by (cases v; simp add: const_assign_def const_null_def const_isNull_def const_int_def const_str_def)+


section \<open>Fields do not overlap\<close>

text \<open>What a schema is that the operations build: known types, no negative length.\<close>

definition sch_ok :: "schema \<Rightarrow> bool" where
  "sch_ok sch \<longleftrightarrow> set (sch_fields sch) = dom (map_of (sch_info sch)) \<and>
     (\<forall>f i. map_of (sch_info sch) f = Some i \<longrightarrow> fi_type i \<in> {INTEGER, VARCHAR, BOOLEAN} \<and> 0 \<le> fi_length i)"

lemma sch_ok_empty [simp]: "sch_ok sch_empty"
  by (simp add: sch_ok_def sch_empty_def)

lemma sch_ok_addField: "sch_ok sch \<Longrightarrow> ty \<in> {INTEGER, VARCHAR, BOOLEAN} \<Longrightarrow> 0 \<le> len \<Longrightarrow> sch_ok (sch_addField f ty len sch)"
  by (auto simp: sch_ok_def sch_addField_def)

lemma sch_ok_add: "sch_ok from \<Longrightarrow> sch_ok sch \<Longrightarrow> sch_add f from sch = Inr sch' \<Longrightarrow> sch_ok sch'"
  by (auto simp: sch_add_def sch_fieldType_def sch_fieldLength_def rbind_eq_Inr intro!: sch_ok_addField split: option.splits)
    (auto simp: sch_ok_def)

lemma sch_ok_addAll: "sch_ok from \<Longrightarrow> sch_ok sch \<Longrightarrow> sch_addAll from sch = Inr sch' \<Longrightarrow> sch_ok sch'"
proof -
  have "sch_ok from \<Longrightarrow> sch_ok sch \<Longrightarrow> sch_add_list fs from sch = Inr sch' \<Longrightarrow> sch_ok sch'" for fs
    by (induction fs arbitrary: sch) (auto simp: rbind_eq_Inr intro: sch_ok_add)
  then show "sch_ok from \<Longrightarrow> sch_ok sch \<Longrightarrow> sch_addAll from sch = Inr sch' \<Longrightarrow> sch_ok sch'"
    by (simp add: sch_addAll_def)
qed

lemma lay_length_ok:
  assumes "sch_ok sch" "lay_lengthInBytes sch f = Inr n" shows "4 \<le> n"
  using assms
  by (auto simp: lay_lengthInBytes_def sch_fieldType_def sch_fieldLength_def sch_ok_def maxLength_def rbind_eq_Inr
      split: option.splits if_splits)

definition placed :: "schema \<Rightarrow> (string \<times> int) list \<Rightarrow> int \<Rightarrow> bool" where
  "placed sch offs pos \<longleftrightarrow> 4 \<le> pos \<and>
     (\<forall>f a. map_of offs f = Some a \<longrightarrow> (\<exists>m. lay_lengthInBytes sch f = Inr m \<and> 4 \<le> a \<and> a + m \<le> pos)) \<and>
     (\<forall>f g a b m n. map_of offs f = Some a \<longrightarrow> map_of offs g = Some b \<longrightarrow> f \<noteq> g \<longrightarrow>
        lay_lengthInBytes sch f = Inr m \<longrightarrow> lay_lengthInBytes sch g = Inr n \<longrightarrow> a + m \<le> b \<or> b + n \<le> a)"

lemma placedD:
  assumes "placed sch offs pos" "map_of offs f = Some a"
  obtains m where "lay_lengthInBytes sch f = Inr m" "4 \<le> a" "a + m \<le> pos"
  using assms unfolding placed_def by blast

lemma lay_place_placed:
  assumes "sch_ok sch" "placed sch offs pos" "lay_place sch fs offs pos = Inr (offs', pos')"
  shows "placed sch offs' pos' \<and> dom (map_of offs') = set fs \<union> dom (map_of offs)"
  using assms(2,3)
proof (induction fs arbitrary: offs pos)
  case Nil
  then show ?case by simp
next
  case (Cons f fs)
  from Cons.prems(2) obtain n where n: "lay_lengthInBytes sch f = Inr n" "lay_place sch fs (om_put f pos offs) (pos + n) = Inr (offs', pos')"
    by (auto simp: rbind_eq_Inr)
  have n4: "4 \<le> n" using lay_length_ok [OF assms(1) n(1)] .
  have old: "\<exists>m. lay_lengthInBytes sch g = Inr m \<and> 4 \<le> a \<and> a + m \<le> pos" if "map_of offs g = Some a" for g a
    using placedD [OF Cons.prems(1) that] by blast
  have "placed sch (om_put f pos offs) (pos + n)"
    unfolding placed_def
  proof (intro conjI allI impI)
    fix g a assume a: "map_of (om_put f pos offs) g = Some a"
    show "\<exists>m. lay_lengthInBytes sch g = Inr m \<and> 4 \<le> a \<and> a + m \<le> pos + n"
    proof (cases "g = f")
      case False
      with a old [of g a] obtain m where "lay_lengthInBytes sch g = Inr m" "4 \<le> a" "a + m \<le> pos" by auto
      with n4 show ?thesis by auto
    qed (use a n(1) Cons.prems(1) in \<open>auto simp: placed_def\<close>)
  next
    fix g h a b m k
    assume "map_of (om_put f pos offs) g = Some a" "map_of (om_put f pos offs) h = Some b" "g \<noteq> h"
      "lay_lengthInBytes sch g = Inr m" "lay_lengthInBytes sch h = Inr k"
    then show "a + m \<le> b \<or> b + k \<le> a"
      using Cons.prems(1) old [of g a] old [of h b] by (auto simp: placed_def split: if_splits)
  qed (use Cons.prems(1) n4 in \<open>auto simp: placed_def\<close>)
  from Cons.IH [OF this n(2)] show ?case by auto
qed

section \<open>Properties\<close>


definition demo_schema :: schema where
  "demo_schema = sch_addStringField ''name'' 9 (sch_addIntField ''id'' sch_empty)"

lemma demo_schema_ok: "sch_ok demo_schema"
  by (simp add: demo_schema_def sch_addStringField_def sch_addIntField_def sch_ok_addField)





end
