(* ===== verification/Predicates.thy ===== *)
theory Predicates
  imports Values
begin

text \<open>
  Expressions, terms and predicates: \<open>src/src/scan/Expression.cpp\<close>, \<open>Term.cpp\<close> and
  \<open>Predicate.cpp\<close>. What they ask of a scan (\<open>getValue\<close>) or of a plan (\<open>distinctValues\<close>) is
  an argument. The theory shows that a predicate is satisfied by exactly the rows that
  satisfy all its terms and that the parts of a predicate that are pushed to the operands of a
  join lose no term.
\<close>

section \<open>Expressions\<close>

record expr =
  ex_value :: const
  ex_field :: string

definition ex_null :: expr where
  "ex_null = \<lparr>ex_value = const_null, ex_field = []\<rparr>"

definition ex_const :: "const \<Rightarrow> expr" where
  "ex_const c = \<lparr>ex_value = c, ex_field = []\<rparr>"

definition ex_name :: "string \<Rightarrow> expr" where
  "ex_name f = \<lparr>ex_value = const_null, ex_field = f\<rparr>"

definition ex_isFieldName :: "expr \<Rightarrow> bool" where
  "ex_isFieldName e \<longleftrightarrow> ex_field e \<noteq> []"

definition ex_evaluate :: "(string \<Rightarrow> ('s, const) cmd) \<Rightarrow> expr \<Rightarrow> ('s, const) cmd" where
  "ex_evaluate getValue e = (if const_isNull (ex_value e) then getValue (ex_field e) else ret (ex_value e))"

definition ex_appliesTo :: "schema \<Rightarrow> expr \<Rightarrow> bool" where
  "ex_appliesTo sch e = (if const_isNull (ex_value e) then sch_hasField (ex_field e) sch else True)"

definition ex_toString :: "expr \<Rightarrow> string outcome" where
  "ex_toString e = (if const_isNull (ex_value e) then Inr (ex_field e) else const_toString (ex_value e))"

section \<open>Terms\<close>

record sterm =
  lhs :: expr
  rhs :: expr

definition tm_isSatisfied :: "(string \<Rightarrow> ('s, const) cmd) \<Rightarrow> sterm \<Rightarrow> ('s, bool) cmd" where
  "tm_isSatisfied getValue t =
     bnd (ex_evaluate getValue (lhs t)) (\<lambda>l.
     bnd (ex_evaluate getValue (rhs t)) (\<lambda>r.
     lift (const_eq l r)))"

definition tm_appliesTo :: "schema \<Rightarrow> sterm \<Rightarrow> bool" where
  "tm_appliesTo sch t \<longleftrightarrow> ex_appliesTo sch (lhs t) \<and> ex_appliesTo sch (rhs t)"

definition INT_MAX :: int where "INT_MAX = 2 ^ 31 - 1"

definition tm_reductionFactor :: "(string \<Rightarrow> int outcome) \<Rightarrow> sterm \<Rightarrow> int outcome" where
  "tm_reductionFactor distinctValues t =
     (if ex_isFieldName (lhs t) \<and> ex_isFieldName (rhs t)
      then rbind (distinctValues (ex_field (lhs t))) (\<lambda>a.
           rbind (distinctValues (ex_field (rhs t))) (\<lambda>b. Inr (max a b)))
      else if ex_isFieldName (lhs t) then distinctValues (ex_field (lhs t))
      else if ex_isFieldName (rhs t) then distinctValues (ex_field (rhs t))
      else rbind (const_eq (ex_value (lhs t)) (ex_value (rhs t))) (\<lambda>e. Inr (if e then 1 else INT_MAX)))"

definition tm_equatesWithConstant :: "string \<Rightarrow> sterm \<Rightarrow> const" where
  "tm_equatesWithConstant f t =
     (if ex_isFieldName (lhs t) \<and> ex_field (lhs t) = f \<and> \<not> ex_isFieldName (rhs t) then ex_value (rhs t)
      else if ex_isFieldName (rhs t) \<and> ex_field (rhs t) = f \<and> \<not> ex_isFieldName (lhs t) then ex_value (lhs t)
      else const_null)"

definition tm_equatesWithField :: "string \<Rightarrow> sterm \<Rightarrow> string" where
  "tm_equatesWithField f t =
     (if ex_isFieldName (lhs t) \<and> ex_field (lhs t) = f \<and> ex_isFieldName (rhs t) then ex_field (rhs t)
      else if ex_isFieldName (rhs t) \<and> ex_field (rhs t) = f \<and> ex_isFieldName (lhs t) then ex_field (lhs t)
      else [])"

definition tm_toString :: "sterm \<Rightarrow> string outcome" where
  "tm_toString t = rbind (ex_toString (lhs t)) (\<lambda>l. rbind (ex_toString (rhs t)) (\<lambda>r. Inr (l @ ''='' @ r)))"

section \<open>Predicates\<close>

type_synonym pred = "sterm list"

definition pr_conjoinWith :: "pred \<Rightarrow> pred \<Rightarrow> pred" where
  "pr_conjoinWith other p = p @ other"

fun pr_isSatisfied :: "(string \<Rightarrow> ('s, const) cmd) \<Rightarrow> pred \<Rightarrow> ('s, bool) cmd" where
  "pr_isSatisfied getValue [] = ret True"
| "pr_isSatisfied getValue (t # ts) =
     bnd (tm_isSatisfied getValue t) (\<lambda>b. if \<not> b then ret False else pr_isSatisfied getValue ts)"

fun pr_factor :: "(string \<Rightarrow> int outcome) \<Rightarrow> pred \<Rightarrow> int \<Rightarrow> int outcome" where
  "pr_factor distinctValues [] factor = Inr factor"
| "pr_factor distinctValues (t # ts) factor =
     rbind (tm_reductionFactor distinctValues t) (\<lambda>n. rbind (ck (factor * n)) (pr_factor distinctValues ts))"

definition pr_reductionFactor :: "(string \<Rightarrow> int outcome) \<Rightarrow> pred \<Rightarrow> int outcome" where
  "pr_reductionFactor distinctValues p = pr_factor distinctValues p 1"

definition pr_selectSubPredicate :: "schema \<Rightarrow> pred \<Rightarrow> pred" where
  "pr_selectSubPredicate sch p = filter (tm_appliesTo sch) p"

definition pr_joinSubPredicate :: "schema \<Rightarrow> schema \<Rightarrow> pred \<Rightarrow> pred outcome" where
  "pr_joinSubPredicate sch1 sch2 p =
     rbind (sch_addAll sch1 sch_empty) (\<lambda>n.
     rbind (sch_addAll sch2 n) (\<lambda>n.
     Inr (filter (\<lambda>t. \<not> tm_appliesTo sch1 t \<and> \<not> tm_appliesTo sch2 t \<and> tm_appliesTo n t) p)))"

fun pr_equatesWithConstant :: "string \<Rightarrow> pred \<Rightarrow> const" where
  "pr_equatesWithConstant f [] = const_null"
| "pr_equatesWithConstant f (t # ts) =
     (let c = tm_equatesWithConstant f t in if \<not> const_isNull c then c else pr_equatesWithConstant f ts)"

fun pr_equatesWithField :: "string \<Rightarrow> pred \<Rightarrow> string" where
  "pr_equatesWithField f [] = []"
| "pr_equatesWithField f (t # ts) =
     (let g = tm_equatesWithField f t in if g \<noteq> [] then g else pr_equatesWithField f ts)"

fun pr_string :: "pred \<Rightarrow> nat \<Rightarrow> string \<Rightarrow> string outcome" where
  "pr_string [] cnt result = Inr result"
| "pr_string (t # ts) cnt result =
     rbind (tm_toString t) (\<lambda>s. pr_string ts (cnt + 1) (if cnt = 0 then result @ s else result @ '' and '' @ s))"

definition pr_toString :: "pred \<Rightarrow> string outcome" where
  "pr_toString p = pr_string p 0 []"

definition pr_isNull :: "pred \<Rightarrow> bool" where
  "pr_isNull p \<longleftrightarrow> p = []"

section \<open>Meaning\<close>

text \<open>
  A row gives every field a value. A term is typed for a row when its sides have values of one
  kind there; then \<open>isSatisfied\<close> decides equality.
\<close>

type_synonym row = "string \<Rightarrow> val option"

fun ex_val :: "row \<Rightarrow> expr \<Rightarrow> val option" where
  "ex_val r e = (if const_isNull (ex_value e) then r (ex_field e)
     else case ival (ex_value e) of Some i \<Rightarrow> if sval (ex_value e) = None then Some (VInt i) else None
       | None \<Rightarrow> map_option VStr (sval (ex_value e)))"

definition tm_typed :: "row \<Rightarrow> sterm \<Rightarrow> bool" where
  "tm_typed r t \<longleftrightarrow> (\<exists>a b. ex_val r (lhs t) = Some a \<and> ex_val r (rhs t) = Some b \<and> val_kind a = val_kind b)"

definition tm_holds :: "row \<Rightarrow> sterm \<Rightarrow> bool" where
  "tm_holds r t \<longleftrightarrow> ex_val r (lhs t) = ex_val r (rhs t)"

definition pr_holds :: "row \<Rightarrow> pred \<Rightarrow> bool" where
  "pr_holds r p \<longleftrightarrow> (\<forall>t \<in> set p. tm_holds r t)"

text \<open>\<open>getValue\<close> reads the row \<open>r\<close> and keeps the part of the state that \<open>I\<close> describes.\<close>

definition reads_row :: "('s \<Rightarrow> bool) \<Rightarrow> (string \<Rightarrow> ('s, const) cmd) \<Rightarrow> row \<Rightarrow> bool" where
  "reads_row I getValue r \<longleftrightarrow> (\<forall>f v s. r f = Some v \<longrightarrow> I s \<longrightarrow> (\<exists>s'. getValue f s = (Inr (const_of v), s') \<and> I s'))"

lemma ex_evaluate_row:
  assumes "reads_row I getValue r" "I s" "ex_val r e = Some v"
  shows "\<exists>s'. ex_evaluate getValue e s = (Inr (const_of v), s') \<and> I s'"
proof (cases "const_isNull (ex_value e)")
  case True
  with assms show ?thesis by (simp add: ex_evaluate_def reads_row_def)
next
  case False
  with assms(3) have "ex_value e = const_of v"
    by (cases "ex_value e") (auto simp: const_int_def const_str_def split: option.splits if_splits)
  with False assms(2) show ?thesis by (simp add: ex_evaluate_def cmd_simps)
qed

lemma tm_isSatisfied_row:
  assumes "reads_row I getValue r" "I s" "tm_typed r t"
  shows "\<exists>s'. tm_isSatisfied getValue t s = (Inr (tm_holds r t), s') \<and> I s'"
proof -
  obtain a b where ab: "ex_val r (lhs t) = Some a" "ex_val r (rhs t) = Some b" "val_kind a = val_kind b"
    using assms(3) by (auto simp: tm_typed_def)
  obtain s1 where s1: "ex_evaluate getValue (lhs t) s = (Inr (const_of a), s1)" "I s1"
    using ex_evaluate_row [OF assms(1,2) ab(1)] by blast
  obtain s2 where s2: "ex_evaluate getValue (rhs t) s1 = (Inr (const_of b), s2)" "I s2"
    using ex_evaluate_row [OF assms(1) s1(2) ab(2)] by blast
  show ?thesis
    using s1 s2 ab const_cmp(1) [OF ab(3)] by (intro exI [of _ s2]) (simp add: tm_isSatisfied_def cmd_simps tm_holds_def)
qed

lemma pr_isSatisfied_row:
  assumes "reads_row I getValue r" "I s" "\<forall>t \<in> set p. tm_typed r t"
  shows "\<exists>s'. pr_isSatisfied getValue p s = (Inr (pr_holds r p), s') \<and> I s'"
  using assms(2,3)
proof (induction p arbitrary: s)
  case Nil
  then show ?case by (simp add: cmd_simps pr_holds_def)
next
  case (Cons t p)
  obtain s1 where s1: "tm_isSatisfied getValue t s = (Inr (tm_holds r t), s1)" "I s1"
    using tm_isSatisfied_row [OF assms(1) Cons.prems(1)] Cons.prems(2) by auto
  from Cons.IH [OF s1(2)] Cons.prems(2) s1 show ?case
    by (cases "tm_holds r t") (auto simp: cmd_simps pr_holds_def)
qed

section \<open>Properties\<close>

text \<open>
  C21. A predicate decides: on a row that gives both sides of every term a value of the same kind,
  \<open>isSatisfied\<close> returns true exactly when every term's sides are equal; an empty predicate is
  satisfied.
\<close>

theorem predicate_decides:
  assumes "\<forall>t \<in> set p. tm_typed r t" and "\<forall>f v. r f = Some v \<longrightarrow> (\<forall>s. getValue f s = (Inr (const_of v), s))"
  shows "pr_isSatisfied getValue p s = (Inr (\<forall>t \<in> set p. ex_val r (lhs t) = ex_val r (rhs t)), s)"
proof -
  have "reads_row (\<lambda>s'. s' = s) getValue r"
    using assms(2) by (auto simp: reads_row_def)
  from pr_isSatisfied_row [OF this refl assms(1)] show ?thesis
    by (simp add: pr_holds_def tm_holds_def)
qed

definition demo_row :: row where
  "demo_row = [''a'' \<mapsto> VInt 3, ''b'' \<mapsto> VStr ''x'']"

definition demo_pred :: pred where
  "demo_pred = [\<lparr>lhs = ex_name ''a'', rhs = ex_const (const_int 3)\<rparr>, \<lparr>lhs = ex_name ''b'', rhs = ex_const (const_str ''y'')\<rparr>]"

theorem predicate_decides_witness:
  "pr_isSatisfied (\<lambda>f. lift (case demo_row f of Some v \<Rightarrow> Inr (const_of v) | None \<Rightarrow> Inl Undef)) demo_pred (0::int) = (Inr False, 0)"
proof -
  have "\<forall>t \<in> set demo_pred. tm_typed demo_row t" "\<not> (\<forall>t \<in> set demo_pred. ex_val demo_row (lhs t) = ex_val demo_row (rhs t))"
    by (simp_all add: demo_pred_def demo_row_def tm_typed_def ex_name_def ex_const_def const_int_def const_str_def const_isNull_def const_null_def)
  moreover have "\<forall>f v. demo_row f = Some v \<longrightarrow> (\<forall>s::int. lift (case demo_row f of Some v \<Rightarrow> Inr (const_of v) | None \<Rightarrow> Inl Undef) s =
      (Inr (const_of v), s))"
    by (simp add: lift_def)
  ultimately show ?thesis
    using predicate_decides [of demo_pred demo_row] by (simp only: simp_thms)
qed

lemma sch_hasField_add: "sch_add f from sch = Inr sch' \<Longrightarrow> sch_hasField g sch' \<longleftrightarrow> g = f \<or> sch_hasField g sch"
  by (auto simp: sch_add_def sch_addField_def sch_hasField_def rbind_eq_Inr split: if_splits)

lemma sch_hasField_addAll:
  "sch_addAll from sch = Inr sch' \<Longrightarrow> sch_hasField g sch' \<longleftrightarrow> g \<in> set (sch_fields from) \<or> sch_hasField g sch"
proof -
  have "sch_add_list fs from sch = Inr sch' \<Longrightarrow> sch_hasField g sch' \<longleftrightarrow> g \<in> set fs \<or> sch_hasField g sch" for fs
    by (induction fs arbitrary: sch) (auto simp: rbind_eq_Inr dest: sch_hasField_add)
  then show "sch_addAll from sch = Inr sch' \<Longrightarrow> sch_hasField g sch' \<longleftrightarrow> g \<in> set (sch_fields from) \<or> sch_hasField g sch"
    by (simp add: sch_addAll_def)
qed

lemma sch_add_list_ok: "set fs \<subseteq> dom (map_of (sch_info from)) \<Longrightarrow> \<exists>sch'. sch_add_list fs from sch = Inr sch'"
proof (induction fs arbitrary: sch)
  case (Cons f fs)
  then obtain i where "map_of (sch_info from) f = Some i" by auto
  with Cons show ?case
    by (simp add: sch_add_def sch_fieldType_def sch_fieldLength_def)
qed simp

lemma sch_addAll_ok: "sch_ok from \<Longrightarrow> \<exists>sch'. sch_addAll from sch = Inr sch'"
  using sch_add_list_ok [of "sch_fields from" "from" sch] by (auto simp: sch_addAll_def sch_ok_def)

lemma sch_ok_hasField: "sch_ok sch \<Longrightarrow> sch_hasField f sch \<longleftrightarrow> f \<in> set (sch_fields sch)"
  by (auto simp: sch_ok_def sch_hasField_def)

text \<open>
  C22. Splitting a predicate over the two sides of a join loses nothing: when every field of the
  predicate is in one of the two schemas, a row satisfies the predicate exactly when it satisfies
  the part for the left schema, the part for the right schema and the join part, and the join part
  holds only terms that need both.
\<close>

theorem predicate_pushdown_complete:
  assumes "sch_ok sch1" "sch_ok sch2"
    and "\<forall>t \<in> set p. \<forall>e \<in> {lhs t, rhs t}. const_isNull (ex_value e) \<longrightarrow> sch_hasField (ex_field e) sch1 \<or> sch_hasField (ex_field e) sch2"
  shows "\<exists>j. pr_joinSubPredicate sch1 sch2 p = Inr j \<and>
    (pr_holds r p \<longleftrightarrow> pr_holds r (pr_selectSubPredicate sch1 p) \<and> pr_holds r (pr_selectSubPredicate sch2 p) \<and> pr_holds r j) \<and>
    (\<forall>t \<in> set j. \<not> tm_appliesTo sch1 t \<and> \<not> tm_appliesTo sch2 t)"
proof -
  obtain n1 where n1: "sch_addAll sch1 sch_empty = Inr n1"
    using sch_addAll_ok [OF assms(1)] by blast
  obtain n where n: "sch_addAll sch2 n1 = Inr n"
    using sch_addAll_ok [OF assms(2)] by blast
  have "sch_hasField f n" if "sch_hasField f sch1 \<or> sch_hasField f sch2" for f
    using that sch_hasField_addAll [OF n1, of f] sch_hasField_addAll [OF n, of f] sch_ok_hasField [OF assms(1), of f]
      sch_ok_hasField [OF assms(2), of f] by blast
  then have "tm_appliesTo n t" if "t \<in> set p" for t
    using assms(3) that by (auto simp: tm_appliesTo_def ex_appliesTo_def)
  with n1 n show ?thesis
    by (auto simp: pr_joinSubPredicate_def pr_selectSubPredicate_def pr_holds_def)
qed

definition demo_schema2 :: schema where
  "demo_schema2 = sch_addIntField ''k'' sch_empty"

theorem predicate_pushdown_complete_witness:
  "\<exists>j. pr_joinSubPredicate demo_schema demo_schema2 [\<lparr>lhs = ex_name ''id'', rhs = ex_name ''k''\<rparr>] = Inr j \<and>
    (\<forall>t \<in> set j. \<not> tm_appliesTo demo_schema t \<and> \<not> tm_appliesTo demo_schema2 t)"
proof -
  have ok: "sch_ok demo_schema2"
    by (simp add: demo_schema2_def sch_addIntField_def sch_ok_addField)
  have "sch_hasField ''id'' demo_schema" "sch_hasField ''k'' demo_schema2"
    by code_simp+
  then have "\<forall>t \<in> set [\<lparr>lhs = ex_name ''id'', rhs = ex_name ''k''\<rparr>]. \<forall>e \<in> {lhs t, rhs t}. const_isNull (ex_value e) \<longrightarrow>
      sch_hasField (ex_field e) demo_schema \<or> sch_hasField (ex_field e) demo_schema2"
    by (simp add: ex_name_def)
  from predicate_pushdown_complete [OF demo_schema_ok ok this, of demo_row] show ?thesis by blast
qed

end
