(* ===== verification/Scans.thy ===== *)
theory Scans
  imports Predicates
begin

text \<open>
  \<open>src/src/scan/Scan.h\<close>, \<open>UpdateScan.h\<close>, \<open>SelectScan.cpp\<close>, \<open>ProjectScan.cpp\<close> and
  \<open>ProductScan.cpp\<close>. A class of scans is a record of its virtual functions; a scan that holds
  others calls theirs. What these functions promise to each other is the subject of ScanContract.
\<close>

section \<open>The interface\<close>

text \<open>
  \<open>'c\<close> is the state of the scan object and \<open>'s\<close> the state of the transaction underneath.
  \<open>op_update\<close> says whether the dynamic cast to \<open>UpdateScan\<close> succeeds.
\<close>

record ('s, 'c) scan_ops =
  op_beforeFirst :: "'c \<Rightarrow> ('s, 'c) cmd"
  op_next :: "'c \<Rightarrow> ('s, bool \<times> 'c) cmd"
  op_getInt :: "string \<Rightarrow> 'c \<Rightarrow> ('s, int) cmd"
  op_getBool :: "string \<Rightarrow> 'c \<Rightarrow> ('s, bool) cmd"
  op_getString :: "string \<Rightarrow> 'c \<Rightarrow> ('s, string) cmd"
  op_getValue :: "string \<Rightarrow> 'c \<Rightarrow> ('s, const) cmd"
  op_hasField :: "string \<Rightarrow> 'c \<Rightarrow> bool outcome"
  op_close :: "'c \<Rightarrow> ('s, unit) cmd"
  op_update :: "'c \<Rightarrow> bool"
  op_setInt :: "string \<Rightarrow> int \<Rightarrow> 'c \<Rightarrow> ('s, unit) cmd"
  op_setString :: "string \<Rightarrow> string \<Rightarrow> 'c \<Rightarrow> ('s, unit) cmd"
  op_setValue :: "string \<Rightarrow> const \<Rightarrow> 'c \<Rightarrow> ('s, unit) cmd"
  op_insert :: "'c \<Rightarrow> ('s, 'c) cmd"
  op_remove :: "'c \<Rightarrow> ('s, unit) cmd"
  op_moveToRid :: "rid \<Rightarrow> 'c \<Rightarrow> ('s, 'c) cmd"
  op_getRid :: "'c \<Rightarrow> ('s, rid) cmd"

section \<open>Select scans\<close>

datatype 'c sel_scan = SelectScan (sel_scan: 'c) (sel_pred: pred)

definition sel_beforeFirst :: "('s, 'c) scan_ops \<Rightarrow> 'c sel_scan \<Rightarrow> ('s, 'c sel_scan) cmd" where
  "sel_beforeFirst ops s = bnd (op_beforeFirst ops (sel_scan s)) (\<lambda>c. ret (SelectScan c (sel_pred s)))"

fun sel_next_loop :: "nat \<Rightarrow> ('s, 'c) scan_ops \<Rightarrow> pred \<Rightarrow> 'c \<Rightarrow> ('s, bool \<times> 'c) cmd" where
  "sel_next_loop 0 ops p c = raise OutOfFuel"
| "sel_next_loop (Suc fuel) ops p c =
     bnd (op_next ops c) (\<lambda>(more, c).
     if more
     then bnd (pr_isSatisfied (\<lambda>f. op_getValue ops f c) p) (\<lambda>b.
          if b then ret (True, c) else sel_next_loop fuel ops p c)
     else ret (False, c))"

definition sel_next :: "nat \<Rightarrow> ('s, 'c) scan_ops \<Rightarrow> 'c sel_scan \<Rightarrow> ('s, bool \<times> 'c sel_scan) cmd" where
  "sel_next fuel ops s = bnd (sel_next_loop fuel ops (sel_pred s) (sel_scan s)) (\<lambda>(b, c). ret (b, SelectScan c (sel_pred s)))"

definition sel_getInt :: "('s, 'c) scan_ops \<Rightarrow> string \<Rightarrow> 'c sel_scan \<Rightarrow> ('s, int) cmd" where
  "sel_getInt ops f s = op_getInt ops f (sel_scan s)"

definition sel_getBool :: "('s, 'c) scan_ops \<Rightarrow> string \<Rightarrow> 'c sel_scan \<Rightarrow> ('s, bool) cmd" where
  "sel_getBool ops f s = op_getBool ops f (sel_scan s)"

definition sel_getString :: "('s, 'c) scan_ops \<Rightarrow> string \<Rightarrow> 'c sel_scan \<Rightarrow> ('s, string) cmd" where
  "sel_getString ops f s = op_getString ops f (sel_scan s)"

definition sel_getValue :: "('s, 'c) scan_ops \<Rightarrow> string \<Rightarrow> 'c sel_scan \<Rightarrow> ('s, const) cmd" where
  "sel_getValue ops f s = op_getValue ops f (sel_scan s)"

definition sel_hasField :: "('s, 'c) scan_ops \<Rightarrow> string \<Rightarrow> 'c sel_scan \<Rightarrow> bool outcome" where
  "sel_hasField ops f s = op_hasField ops f (sel_scan s)"

definition sel_close :: "('s, 'c) scan_ops \<Rightarrow> 'c sel_scan \<Rightarrow> ('s, unit) cmd" where
  "sel_close ops s = op_close ops (sel_scan s)"

definition sel_setInt :: "('s, 'c) scan_ops \<Rightarrow> string \<Rightarrow> int \<Rightarrow> 'c sel_scan \<Rightarrow> ('s, unit) cmd" where
  "sel_setInt ops f v s =
     (if op_update ops (sel_scan s) then op_setInt ops f v (sel_scan s)
      else raise (Throw ''Cannot set value on a non-update scan''))"

definition sel_setString :: "('s, 'c) scan_ops \<Rightarrow> string \<Rightarrow> string \<Rightarrow> 'c sel_scan \<Rightarrow> ('s, unit) cmd" where
  "sel_setString ops f v s =
     (if op_update ops (sel_scan s) then op_setString ops f v (sel_scan s)
      else raise (Throw ''Cannot set value on a non-update scan''))"

definition sel_setValue :: "('s, 'c) scan_ops \<Rightarrow> string \<Rightarrow> const \<Rightarrow> 'c sel_scan \<Rightarrow> ('s, unit) cmd" where
  "sel_setValue ops f v s =
     (if op_update ops (sel_scan s) then op_setValue ops f v (sel_scan s)
      else raise (Throw ''Cannot set value on a non-update scan''))"

definition sel_insert :: "('s, 'c) scan_ops \<Rightarrow> 'c sel_scan \<Rightarrow> ('s, 'c sel_scan) cmd" where
  "sel_insert ops s =
     (if op_update ops (sel_scan s) then bnd (op_insert ops (sel_scan s)) (\<lambda>c. ret (SelectScan c (sel_pred s)))
      else raise (Throw ''Cannot insert on a non-update scan''))"

definition sel_remove :: "('s, 'c) scan_ops \<Rightarrow> 'c sel_scan \<Rightarrow> ('s, unit) cmd" where
  "sel_remove ops s =
     (if op_update ops (sel_scan s) then op_remove ops (sel_scan s)
      else raise (Throw ''Cannot remove on a non-update scan''))"

definition sel_getRid :: "('s, 'c) scan_ops \<Rightarrow> 'c sel_scan \<Rightarrow> ('s, rid) cmd" where
  "sel_getRid ops s =
     (if op_update ops (sel_scan s) then op_getRid ops (sel_scan s)
      else raise (Throw ''Cannot get RID on a non-update scan''))"

definition sel_moveToRid :: "('s, 'c) scan_ops \<Rightarrow> rid \<Rightarrow> 'c sel_scan \<Rightarrow> ('s, 'c sel_scan) cmd" where
  "sel_moveToRid ops r s =
     (if op_update ops (sel_scan s) then bnd (op_moveToRid ops r (sel_scan s)) (\<lambda>c. ret (SelectScan c (sel_pred s)))
      else raise (Throw ''Cannot move to RID on a non-update scan''))"

definition sel_ops :: "nat \<Rightarrow> ('s, 'c) scan_ops \<Rightarrow> ('s, 'c sel_scan) scan_ops" where
  "sel_ops fuel ops =
     \<lparr>op_beforeFirst = sel_beforeFirst ops, op_next = sel_next fuel ops, op_getInt = sel_getInt ops,
      op_getBool = sel_getBool ops, op_getString = sel_getString ops, op_getValue = sel_getValue ops,
      op_hasField = sel_hasField ops, op_close = sel_close ops, op_update = (\<lambda>_. True), op_setInt = sel_setInt ops,
      op_setString = sel_setString ops, op_setValue = sel_setValue ops, op_insert = sel_insert ops,
      op_remove = sel_remove ops, op_moveToRid = sel_moveToRid ops, op_getRid = sel_getRid ops\<rparr>"

section \<open>Scans that are no update scans\<close>

text \<open>The update functions are not called where the cast fails; a call there has no meaning.\<close>

definition read_ops ::
  "('c \<Rightarrow> ('s, 'c) cmd) \<Rightarrow> ('c \<Rightarrow> ('s, bool \<times> 'c) cmd) \<Rightarrow> (string \<Rightarrow> 'c \<Rightarrow> ('s, int) cmd) \<Rightarrow>
   (string \<Rightarrow> 'c \<Rightarrow> ('s, bool) cmd) \<Rightarrow> (string \<Rightarrow> 'c \<Rightarrow> ('s, string) cmd) \<Rightarrow> (string \<Rightarrow> 'c \<Rightarrow> ('s, const) cmd) \<Rightarrow>
   (string \<Rightarrow> 'c \<Rightarrow> bool outcome) \<Rightarrow> ('c \<Rightarrow> ('s, unit) cmd) \<Rightarrow> ('s, 'c) scan_ops" where
  "read_ops bf nx gi gb gs gv hf cl =
     \<lparr>op_beforeFirst = bf, op_next = nx, op_getInt = gi, op_getBool = gb, op_getString = gs, op_getValue = gv,
      op_hasField = hf, op_close = cl, op_update = (\<lambda>_. False), op_setInt = (\<lambda>_ _ _. raise Undef),
      op_setString = (\<lambda>_ _ _. raise Undef), op_setValue = (\<lambda>_ _ _. raise Undef), op_insert = (\<lambda>_. raise Undef),
      op_remove = (\<lambda>_. raise Undef), op_moveToRid = (\<lambda>_ _. raise Undef), op_getRid = (\<lambda>_. raise Undef)\<rparr>"

section \<open>Project scans\<close>

datatype 'c proj_scan = ProjectScan (proj_scan: 'c) (proj_fields: "string list")

definition proj_beforeFirst :: "('s, 'c) scan_ops \<Rightarrow> 'c proj_scan \<Rightarrow> ('s, 'c proj_scan) cmd" where
  "proj_beforeFirst ops s = bnd (op_beforeFirst ops (proj_scan s)) (\<lambda>c. ret (ProjectScan c (proj_fields s)))"

definition proj_next :: "('s, 'c) scan_ops \<Rightarrow> 'c proj_scan \<Rightarrow> ('s, bool \<times> 'c proj_scan) cmd" where
  "proj_next ops s = bnd (op_next ops (proj_scan s)) (\<lambda>(b, c). ret (b, ProjectScan c (proj_fields s)))"

definition proj_hasField :: "string \<Rightarrow> 'c proj_scan \<Rightarrow> bool outcome" where
  "proj_hasField f s = Inr (f \<in> set (proj_fields s))"

definition proj_get :: "(string \<Rightarrow> 'c \<Rightarrow> ('s, 'v) cmd) \<Rightarrow> string \<Rightarrow> 'c proj_scan \<Rightarrow> ('s, 'v) cmd" where
  "proj_get get f s =
     bnd (lift (proj_hasField f s)) (\<lambda>b.
     if b then get f (proj_scan s) else raise (Throw (''Field not found: '' @ f)))"

definition proj_getInt :: "('s, 'c) scan_ops \<Rightarrow> string \<Rightarrow> 'c proj_scan \<Rightarrow> ('s, int) cmd" where
  "proj_getInt ops = proj_get (op_getInt ops)"

definition proj_getBool :: "('s, 'c) scan_ops \<Rightarrow> string \<Rightarrow> 'c proj_scan \<Rightarrow> ('s, bool) cmd" where
  "proj_getBool ops = proj_get (op_getBool ops)"

definition proj_getString :: "('s, 'c) scan_ops \<Rightarrow> string \<Rightarrow> 'c proj_scan \<Rightarrow> ('s, string) cmd" where
  "proj_getString ops = proj_get (op_getString ops)"

definition proj_getValue :: "('s, 'c) scan_ops \<Rightarrow> string \<Rightarrow> 'c proj_scan \<Rightarrow> ('s, const) cmd" where
  "proj_getValue ops = proj_get (op_getValue ops)"

definition proj_close :: "('s, 'c) scan_ops \<Rightarrow> 'c proj_scan \<Rightarrow> ('s, unit) cmd" where
  "proj_close ops s = op_close ops (proj_scan s)"

definition proj_ops :: "('s, 'c) scan_ops \<Rightarrow> ('s, 'c proj_scan) scan_ops" where
  "proj_ops ops = read_ops (proj_beforeFirst ops) (proj_next ops) (proj_getInt ops) (proj_getBool ops)
     (proj_getString ops) (proj_getValue ops) proj_hasField (proj_close ops)"

section \<open>Product scans\<close>

datatype ('c, 'd) prod_scan = ProductScan (prod_scan1: 'c) (prod_scan2: 'd)

definition prod_new :: "('s, 'c) scan_ops \<Rightarrow> 'c \<Rightarrow> 'd \<Rightarrow> ('s, ('c, 'd) prod_scan) cmd" where
  "prod_new ops1 c d = bnd (op_next ops1 c) (\<lambda>(_, c). ret (ProductScan c d))"

definition prod_beforeFirst ::
  "('s, 'c) scan_ops \<Rightarrow> ('s, 'd) scan_ops \<Rightarrow> ('c, 'd) prod_scan \<Rightarrow> ('s, ('c, 'd) prod_scan) cmd" where
  "prod_beforeFirst ops1 ops2 s =
     bnd (op_beforeFirst ops1 (prod_scan1 s)) (\<lambda>c.
     bnd (op_next ops1 c) (\<lambda>(_, c).
     bnd (op_beforeFirst ops2 (prod_scan2 s)) (\<lambda>d. ret (ProductScan c d))))"

definition prod_next ::
  "('s, 'c) scan_ops \<Rightarrow> ('s, 'd) scan_ops \<Rightarrow> ('c, 'd) prod_scan \<Rightarrow> ('s, bool \<times> ('c, 'd) prod_scan) cmd" where
  "prod_next ops1 ops2 s =
     bnd (op_next ops2 (prod_scan2 s)) (\<lambda>(b, d).
     if b then ret (True, ProductScan (prod_scan1 s) d)
     else bnd (op_beforeFirst ops2 d) (\<lambda>d.
          bnd (op_next ops1 (prod_scan1 s)) (\<lambda>(b1, c).
          if b1 then bnd (op_next ops2 d) (\<lambda>(b2, d). ret (b2, ProductScan c d))
          else ret (False, ProductScan c d))))"

definition prod_get ::
  "('s, 'c) scan_ops \<Rightarrow> (string \<Rightarrow> 'c \<Rightarrow> ('s, 'v) cmd) \<Rightarrow> (string \<Rightarrow> 'd \<Rightarrow> ('s, 'v) cmd) \<Rightarrow> string \<Rightarrow>
   ('c, 'd) prod_scan \<Rightarrow> ('s, 'v) cmd" where
  "prod_get ops1 get1 get2 f s =
     bnd (lift (op_hasField ops1 f (prod_scan1 s))) (\<lambda>b.
     if b then get1 f (prod_scan1 s) else get2 f (prod_scan2 s))"

definition prod_getInt ::
  "('s, 'c) scan_ops \<Rightarrow> ('s, 'd) scan_ops \<Rightarrow> string \<Rightarrow> ('c, 'd) prod_scan \<Rightarrow> ('s, int) cmd" where
  "prod_getInt ops1 ops2 = prod_get ops1 (op_getInt ops1) (op_getInt ops2)"

definition prod_getBool ::
  "('s, 'c) scan_ops \<Rightarrow> ('s, 'd) scan_ops \<Rightarrow> string \<Rightarrow> ('c, 'd) prod_scan \<Rightarrow> ('s, bool) cmd" where
  "prod_getBool ops1 ops2 = prod_get ops1 (op_getBool ops1) (op_getBool ops2)"

definition prod_getString ::
  "('s, 'c) scan_ops \<Rightarrow> ('s, 'd) scan_ops \<Rightarrow> string \<Rightarrow> ('c, 'd) prod_scan \<Rightarrow> ('s, string) cmd" where
  "prod_getString ops1 ops2 = prod_get ops1 (op_getString ops1) (op_getString ops2)"

definition prod_getValue ::
  "('s, 'c) scan_ops \<Rightarrow> ('s, 'd) scan_ops \<Rightarrow> string \<Rightarrow> ('c, 'd) prod_scan \<Rightarrow> ('s, const) cmd" where
  "prod_getValue ops1 ops2 = prod_get ops1 (op_getValue ops1) (op_getValue ops2)"

text \<open>\<open>||\<close> asks the second scan only when the first does not have the field.\<close>

definition prod_hasField ::
  "('s, 'c) scan_ops \<Rightarrow> ('s, 'd) scan_ops \<Rightarrow> string \<Rightarrow> ('c, 'd) prod_scan \<Rightarrow> bool outcome" where
  "prod_hasField ops1 ops2 f s =
     rbind (op_hasField ops1 f (prod_scan1 s)) (\<lambda>b. if b then Inr True else op_hasField ops2 f (prod_scan2 s))"

definition prod_close :: "('s, 'c) scan_ops \<Rightarrow> ('s, 'd) scan_ops \<Rightarrow> ('c, 'd) prod_scan \<Rightarrow> ('s, unit) cmd" where
  "prod_close ops1 ops2 s = seq (op_close ops1 (prod_scan1 s)) (op_close ops2 (prod_scan2 s))"

definition prod_ops :: "('s, 'c) scan_ops \<Rightarrow> ('s, 'd) scan_ops \<Rightarrow> ('s, ('c, 'd) prod_scan) scan_ops" where
  "prod_ops ops1 ops2 = read_ops (prod_beforeFirst ops1 ops2) (prod_next ops1 ops2) (prod_getInt ops1 ops2)
     (prod_getBool ops1 ops2) (prod_getString ops1 ops2) (prod_getValue ops1 ops2) (prod_hasField ops1 ops2)
     (prod_close ops1 ops2)"

end
