(* ===== verification/Records.thy ===== *)
theory Records
  imports Transactions Scans
begin

text \<open>
  \<open>src/src/record/RecordPage.cpp\<close> and \<open>TableScan.cpp\<close>: a block as an array of slots with a
  flag each, and a file of such blocks as a table with a current record.
\<close>

section \<open>Record pages\<close>

record rpage =
  rp_blk :: block_id
  rp_layout :: layout

definition EMPTY :: int where "EMPTY = 0"
definition USED :: int where "USED = 1"

definition rp_new :: "block_id \<Rightarrow> layout \<Rightarrow> ('a tx_scheme, rpage) cmd" where
  "rp_new blk l = seq (tx_pin blk) (ret \<lparr>rp_blk = blk, rp_layout = l\<rparr>)"

definition rp_offset :: "int \<Rightarrow> rpage \<Rightarrow> int" where
  "rp_offset slot rp = slot * lay_slotSize (rp_layout rp)"

definition rp_isValidSlot :: "int \<Rightarrow> rpage \<Rightarrow> 'a tx_scheme \<Rightarrow> bool" where
  "rp_isValidSlot slot rp s \<longleftrightarrow> rp_offset (slot + 1) rp \<le> tx_blockSize s"

definition rp_fieldPos :: "int \<Rightarrow> string \<Rightarrow> rpage \<Rightarrow> ('a tx_scheme, int) cmd" where
  "rp_fieldPos slot f rp = bnd (lift (lay_offset f (rp_layout rp))) (\<lambda>o'. ret (rp_offset slot rp + o'))"

definition rp_getInt :: "int \<Rightarrow> string \<Rightarrow> rpage \<Rightarrow> ('a tx_scheme, int) cmd" where
  "rp_getInt slot f rp = bnd (rp_fieldPos slot f rp) (\<lambda>pos. tx_getInt (rp_blk rp) pos)"

definition rp_getString :: "int \<Rightarrow> string \<Rightarrow> rpage \<Rightarrow> ('a tx_scheme, string) cmd" where
  "rp_getString slot f rp = bnd (rp_fieldPos slot f rp) (\<lambda>pos. tx_getString (rp_blk rp) pos)"

definition rp_setInt :: "int \<Rightarrow> string \<Rightarrow> int \<Rightarrow> rpage \<Rightarrow> ('a tx_scheme, unit) cmd" where
  "rp_setInt slot f val rp = bnd (rp_fieldPos slot f rp) (\<lambda>pos. tx_setInt (rp_blk rp) pos val True)"

definition rp_setString :: "int \<Rightarrow> string \<Rightarrow> string \<Rightarrow> rpage \<Rightarrow> ('a tx_scheme, unit) cmd" where
  "rp_setString slot f val rp = bnd (rp_fieldPos slot f rp) (\<lambda>pos. tx_setString (rp_blk rp) pos val True)"

definition rp_setFlag :: "int \<Rightarrow> int \<Rightarrow> rpage \<Rightarrow> ('a tx_scheme, unit) cmd" where
  "rp_setFlag slot flag rp = tx_setInt (rp_blk rp) (rp_offset slot rp) flag True"

definition rp_remove :: "int \<Rightarrow> rpage \<Rightarrow> ('a tx_scheme, unit) cmd" where
  "rp_remove slot rp = rp_setFlag slot EMPTY rp"

fun rp_format_fields :: "int \<Rightarrow> string list \<Rightarrow> rpage \<Rightarrow> ('a tx_scheme, unit) cmd" where
  "rp_format_fields slot [] rp = ret ()"
| "rp_format_fields slot (f # fs) rp =
     bnd (rp_fieldPos slot f rp) (\<lambda>pos.
     bnd (lift (sch_fieldType f (lay_schema (rp_layout rp)))) (\<lambda>ty.
     seq (if ty = INTEGER \<or> ty = BOOLEAN then tx_setInt (rp_blk rp) pos 0 False
          else if ty = VARCHAR then tx_setString (rp_blk rp) pos [] False
          else ret ())
         (rp_format_fields slot fs rp)))"

text \<open>The flag is set with the default of \<open>okToLog\<close>, which is true.\<close>

fun rp_format_loop :: "nat \<Rightarrow> int \<Rightarrow> rpage \<Rightarrow> ('a tx_scheme, unit) cmd" where
  "rp_format_loop 0 slot rp = raise OutOfFuel"
| "rp_format_loop (Suc fuel) slot rp =
     bnd (gets (rp_isValidSlot slot rp)) (\<lambda>valid.
     if valid
     then seq (tx_setInt (rp_blk rp) (rp_offset slot rp) EMPTY True)
         (seq (rp_format_fields slot (sch_fields (lay_schema (rp_layout rp))) rp)
              (rp_format_loop fuel (slot + 1) rp))
     else ret ())"

definition rp_format :: "nat \<Rightarrow> rpage \<Rightarrow> ('a tx_scheme, unit) cmd" where
  "rp_format fuel rp = rp_format_loop fuel 0 rp"

fun rp_search_loop :: "nat \<Rightarrow> int \<Rightarrow> int \<Rightarrow> rpage \<Rightarrow> ('a tx_scheme, int) cmd" where
  "rp_search_loop 0 slot flag rp = raise OutOfFuel"
| "rp_search_loop (Suc fuel) slot flag rp =
     bnd (gets (rp_isValidSlot slot rp)) (\<lambda>valid.
     if valid
     then bnd (tx_getInt (rp_blk rp) (rp_offset slot rp)) (\<lambda>v.
          if v = flag then ret slot else rp_search_loop fuel (slot + 1) flag rp)
     else ret (- 1))"

definition rp_searchAfter :: "nat \<Rightarrow> int \<Rightarrow> int \<Rightarrow> rpage \<Rightarrow> ('a tx_scheme, int) cmd" where
  "rp_searchAfter fuel slot flag rp = rp_search_loop fuel (slot + 1) flag rp"

definition rp_nextAfter :: "nat \<Rightarrow> int \<Rightarrow> rpage \<Rightarrow> ('a tx_scheme, int) cmd" where
  "rp_nextAfter fuel slot rp = rp_searchAfter fuel slot USED rp"

definition rp_insertAfter :: "nat \<Rightarrow> int \<Rightarrow> rpage \<Rightarrow> ('a tx_scheme, int) cmd" where
  "rp_insertAfter fuel slot rp =
     bnd (rp_searchAfter fuel slot EMPTY rp) (\<lambda>newSlot.
     seq (if newSlot \<ge> 0 then rp_setFlag newSlot USED rp else ret ()) (ret newSlot))"

section \<open>Table scans\<close>

text \<open>\<open>_recordPage\<close> is null until the constructor has moved to a block.\<close>

record tscan =
  ts_layout :: layout
  ts_page :: "rpage option"
  ts_fileName :: string
  ts_slot :: int

definition ts_recordPage :: "tscan \<Rightarrow> ('a tx_scheme, rpage) cmd" where
  "ts_recordPage ts = lift (deref (ts_page ts))"

definition ts_close :: "tscan \<Rightarrow> ('a tx_scheme, unit) cmd" where
  "ts_close ts = (case ts_page ts of None \<Rightarrow> ret () | Some rp \<Rightarrow> tx_unpin (rp_blk rp))"

definition ts_moveTo :: "int \<Rightarrow> int \<Rightarrow> tscan \<Rightarrow> ('a tx_scheme, tscan) cmd" where
  "ts_moveTo blknum slot ts =
     seq (ts_close ts)
    (bnd (rp_new (BlockId (ts_fileName ts) blknum) (ts_layout ts)) (\<lambda>rp.
     ret (ts\<lparr>ts_page := Some rp, ts_slot := slot\<rparr>)))"

definition ts_moveToBlock :: "int \<Rightarrow> tscan \<Rightarrow> ('a tx_scheme, tscan) cmd" where
  "ts_moveToBlock blknum ts = ts_moveTo blknum (- 1) ts"

definition ts_moveToRid :: "rid \<Rightarrow> tscan \<Rightarrow> ('a tx_scheme, tscan) cmd" where
  "ts_moveToRid r ts = ts_moveTo (rid_block r) (rid_slot r) ts"

definition ts_moveToNewBlock :: "nat \<Rightarrow> tscan \<Rightarrow> ('a tx_scheme, tscan) cmd" where
  "ts_moveToNewBlock fuel ts =
     seq (ts_close ts)
    (bnd (tx_append (ts_fileName ts)) (\<lambda>blk.
     bnd (rp_new blk (ts_layout ts)) (\<lambda>rp.
     seq (rp_format fuel rp) (ret (ts\<lparr>ts_page := Some rp, ts_slot := - 1\<rparr>)))))"

definition ts_atEndOfBlock :: "tscan \<Rightarrow> ('a tx_scheme, bool) cmd" where
  "ts_atEndOfBlock ts =
     bnd (ts_recordPage ts) (\<lambda>rp.
     bnd (tx_size (ts_fileName ts)) (\<lambda>n. ret (number (rp_blk rp) = n - 1)))"

definition ts_new :: "nat \<Rightarrow> string \<Rightarrow> layout \<Rightarrow> ('a tx_scheme, tscan) cmd" where
  "ts_new fuel tblname l =
     (let ts = \<lparr>ts_layout = l, ts_page = None, ts_fileName = tblname @ ''.tbl'', ts_slot = 0\<rparr>
      in bnd (tx_size (ts_fileName ts)) (\<lambda>n.
         if n = 0 then ts_moveToNewBlock fuel ts else ts_moveToBlock 0 ts))"

definition ts_beforeFirst :: "tscan \<Rightarrow> ('a tx_scheme, tscan) cmd" where
  "ts_beforeFirst ts = ts_moveToBlock 0 ts"

definition ts_step :: "nat \<Rightarrow> tscan \<Rightarrow> ('a tx_scheme, tscan) cmd" where
  "ts_step fuel ts =
     bnd (ts_recordPage ts) (\<lambda>rp.
     bnd (rp_nextAfter fuel (ts_slot ts) rp) (\<lambda>slot. ret (ts\<lparr>ts_slot := slot\<rparr>)))"

text \<open>\<open>next\<close>, from the loop's test on; the fuel of the inner loops is \<open>k\<close>.\<close>

fun ts_next_loop :: "nat \<Rightarrow> nat \<Rightarrow> tscan \<Rightarrow> ('a tx_scheme, bool \<times> tscan) cmd" where
  "ts_next_loop 0 k ts = raise OutOfFuel"
| "ts_next_loop (Suc fuel) k ts =
     (if ts_slot ts < 0
      then bnd (ts_atEndOfBlock ts) (\<lambda>e.
           if e then ret (False, ts)
           else bnd (ts_recordPage ts) (\<lambda>rp.
                bnd (ts_moveToBlock (number (rp_blk rp) + 1) ts) (\<lambda>ts.
                bnd (ts_step k ts) (ts_next_loop fuel k))))
      else ret (True, ts))"

definition ts_next :: "nat \<Rightarrow> tscan \<Rightarrow> ('a tx_scheme, bool \<times> tscan) cmd" where
  "ts_next fuel ts = bnd (ts_step fuel ts) (ts_next_loop fuel fuel)"

definition ts_getInt :: "string \<Rightarrow> tscan \<Rightarrow> ('a tx_scheme, int) cmd" where
  "ts_getInt f ts = bnd (ts_recordPage ts) (rp_getInt (ts_slot ts) f)"

definition ts_getBool :: "string \<Rightarrow> tscan \<Rightarrow> ('a tx_scheme, bool) cmd" where
  "ts_getBool f ts = bnd (ts_getInt f ts) (\<lambda>v. ret (v \<noteq> 0))"

definition ts_getString :: "string \<Rightarrow> tscan \<Rightarrow> ('a tx_scheme, string) cmd" where
  "ts_getString f ts = bnd (ts_recordPage ts) (rp_getString (ts_slot ts) f)"

definition ts_getValue :: "string \<Rightarrow> tscan \<Rightarrow> ('a tx_scheme, const) cmd" where
  "ts_getValue f ts =
     bnd (lift (sch_fieldType f (lay_schema (ts_layout ts)))) (\<lambda>ty.
     if ty = INTEGER \<or> ty = BOOLEAN then bnd (ts_getInt f ts) (\<lambda>v. ret (const_int v))
     else bnd (ts_getString f ts) (\<lambda>v. ret (const_str v)))"

definition ts_hasField :: "string \<Rightarrow> tscan \<Rightarrow> bool" where
  "ts_hasField f ts = sch_hasField f (lay_schema (ts_layout ts))"

definition ts_setInt :: "string \<Rightarrow> int \<Rightarrow> tscan \<Rightarrow> ('a tx_scheme, unit) cmd" where
  "ts_setInt f v ts = bnd (ts_recordPage ts) (rp_setInt (ts_slot ts) f v)"

definition ts_setBool :: "string \<Rightarrow> bool \<Rightarrow> tscan \<Rightarrow> ('a tx_scheme, unit) cmd" where
  "ts_setBool f v ts = ts_setInt f (if v then 1 else 0) ts"

definition ts_setString :: "string \<Rightarrow> string \<Rightarrow> tscan \<Rightarrow> ('a tx_scheme, unit) cmd" where
  "ts_setString f v ts = bnd (ts_recordPage ts) (rp_setString (ts_slot ts) f v)"

definition ts_setValue :: "string \<Rightarrow> const \<Rightarrow> tscan \<Rightarrow> ('a tx_scheme, unit) cmd" where
  "ts_setValue f v ts =
     bnd (lift (sch_fieldType f (lay_schema (ts_layout ts)))) (\<lambda>ty.
     if ty = INTEGER \<or> ty = BOOLEAN then bnd (lift (const_asInt v)) (\<lambda>i. ts_setInt f i ts)
     else bnd (lift (const_asString v)) (\<lambda>x. ts_setString f x ts))"

definition ts_try_insert :: "nat \<Rightarrow> tscan \<Rightarrow> ('a tx_scheme, tscan) cmd" where
  "ts_try_insert fuel ts =
     bnd (ts_recordPage ts) (\<lambda>rp.
     bnd (rp_insertAfter fuel (ts_slot ts) rp) (\<lambda>slot. ret (ts\<lparr>ts_slot := slot\<rparr>)))"

fun ts_insert_loop :: "nat \<Rightarrow> nat \<Rightarrow> tscan \<Rightarrow> ('a tx_scheme, tscan) cmd" where
  "ts_insert_loop 0 k ts = raise OutOfFuel"
| "ts_insert_loop (Suc fuel) k ts =
     (if ts_slot ts < 0
      then bnd (ts_atEndOfBlock ts) (\<lambda>e.
           bnd (if e then ts_moveToNewBlock k ts
                else bnd (ts_recordPage ts) (\<lambda>rp. ts_moveToBlock (number (rp_blk rp) + 1) ts)) (\<lambda>ts.
           bnd (ts_try_insert k ts) (ts_insert_loop fuel k)))
      else ret ts)"

definition ts_insert :: "nat \<Rightarrow> tscan \<Rightarrow> ('a tx_scheme, tscan) cmd" where
  "ts_insert fuel ts = bnd (ts_try_insert fuel ts) (ts_insert_loop fuel fuel)"

definition ts_remove :: "tscan \<Rightarrow> ('a tx_scheme, unit) cmd" where
  "ts_remove ts = bnd (ts_recordPage ts) (rp_remove (ts_slot ts))"

definition ts_getRid :: "tscan \<Rightarrow> ('a tx_scheme, rid) cmd" where
  "ts_getRid ts = bnd (ts_recordPage ts) (\<lambda>rp. ret \<lparr>rid_block = number (rp_blk rp), rid_slot = ts_slot ts\<rparr>)"

text \<open>A table scan is an update scan.\<close>

definition ts_ops :: "nat \<Rightarrow> ('a tx_scheme, tscan) scan_ops" where
  "ts_ops fuel =
     \<lparr>op_beforeFirst = ts_beforeFirst, op_next = ts_next fuel, op_getInt = ts_getInt, op_getBool = ts_getBool,
      op_getString = ts_getString, op_getValue = ts_getValue, op_hasField = (\<lambda>f ts. Inr (ts_hasField f ts)),
      op_close = ts_close, op_update = (\<lambda>_. True), op_setInt = ts_setInt, op_setString = ts_setString,
      op_setValue = ts_setValue, op_insert = ts_insert fuel, op_remove = ts_remove, op_moveToRid = ts_moveToRid,
      op_getRid = ts_getRid\<rparr>"

end
