(* ===== verification/Materialize.thy ===== *)
theory Materialize
  imports Records
begin

text \<open>
  \<open>src/src/materialize\<close>: temporary tables, sorting into runs and merging them, merge join,
  aggregation functions and grouping. A scan that reads another one takes its class, a record of
  functions, as an argument.
\<close>

section \<open>Temporary tables\<close>

text \<open>The counter of table names is static.\<close>

record tmp = tx +
  nextTableNum :: int

record temp_table =
  tt_name :: string
  tt_layout :: layout

definition tt_new :: "schema \<Rightarrow> ('a tmp_scheme, temp_table) cmd" where
  "tt_new sch =
     seq (upd (\<lambda>s. s\<lparr>nextTableNum := nextTableNum s + 1\<rparr>))
    (bnd (gets nextTableNum) (\<lambda>n.
     bnd (lift (lay_new sch)) (\<lambda>l.
     ret \<lparr>tt_name = ''temp'' @ show_int n, tt_layout = l\<rparr>)))"

definition tt_open :: "nat \<Rightarrow> temp_table \<Rightarrow> ('a tx_scheme, tscan) cmd" where
  "tt_open fuel t = ts_new fuel (tt_name t) (tt_layout t)"

section \<open>Copying and comparing records\<close>

fun copy_fields :: "(string \<Rightarrow> ('a tx_scheme, const) cmd) \<Rightarrow> string list \<Rightarrow> tscan \<Rightarrow> ('a tx_scheme, unit) cmd" where
  "copy_fields getValue [] dest = ret ()"
| "copy_fields getValue (f # fs) dest =
     bnd (getValue f) (\<lambda>c. seq (ts_setValue f c dest) (copy_fields getValue fs dest))"

fun rc_compare ::
  "string list \<Rightarrow> (string \<Rightarrow> ('s, const) cmd) \<Rightarrow> (string \<Rightarrow> ('s, const) cmd) \<Rightarrow> ('s, int) cmd" where
  "rc_compare [] get1 get2 = ret 0"
| "rc_compare (f # fs) get1 get2 =
     bnd (get1 f) (\<lambda>c1.
     bnd (get2 f) (\<lambda>c2.
     bnd (lift (const_lt c1 c2)) (\<lambda>lt.
     if lt then ret (- 1)
     else bnd (lift (const_gt c1 c2)) (\<lambda>gt.
          if gt then ret 1 else rc_compare fs get1 get2))))"

text \<open>\<open>minIndex\<close> compares every scan with itself.\<close>

fun rc_minIndex_loop :: "string list \<Rightarrow> (string \<Rightarrow> ('s, const) cmd) list \<Rightarrow> int \<Rightarrow> int \<Rightarrow> ('s, int) cmd" where
  "rc_minIndex_loop flds [] i minIdx = ret minIdx"
| "rc_minIndex_loop flds (g # gs) i minIdx =
     bnd (rc_compare flds g g) (\<lambda>c. rc_minIndex_loop flds gs (i + 1) (if c > 0 then i else minIdx))"

definition rc_minIndex :: "string list \<Rightarrow> (string \<Rightarrow> ('s, const) cmd) list \<Rightarrow> ('s, int) cmd" where
  "rc_minIndex flds scans = rc_minIndex_loop flds scans 0 (- 1)"

section \<open>Sort scans\<close>

datatype which = First | Second

record sort_scan =
  so_s1 :: tscan
  so_s2 :: "tscan option"
  so_current :: "which option"
  so_fields :: "string list"
  so_hasMore1 :: bool
  so_hasMore2 :: bool
  so_saved :: "rid list"

definition so_new :: "nat \<Rightarrow> temp_table list \<Rightarrow> string list \<Rightarrow> ('a tx_scheme, sort_scan) cmd" where
  "so_new fuel runs flds =
     (case runs of
        [] \<Rightarrow> raise Undef
      | r1 # rs \<Rightarrow>
          bnd (tt_open fuel r1) (\<lambda>s1.
          bnd (ts_next fuel s1) (\<lambda>(m1, s1).
          let so = \<lparr>so_s1 = s1, so_s2 = None, so_current = None, so_fields = flds, so_hasMore1 = m1,
                    so_hasMore2 = False, so_saved = []\<rparr>
          in case rs of
               [] \<Rightarrow> ret so
             | r2 # _ \<Rightarrow>
                 bnd (tt_open fuel r2) (\<lambda>s2.
                 bnd (ts_next fuel s2) (\<lambda>(m2, s2). ret (so\<lparr>so_s2 := Some s2, so_hasMore2 := m2\<rparr>))))))"

definition so_beforeFirst :: "nat \<Rightarrow> sort_scan \<Rightarrow> ('a tx_scheme, sort_scan) cmd" where
  "so_beforeFirst fuel so =
     bnd (ts_beforeFirst (so_s1 so)) (\<lambda>s1.
     bnd (ts_next fuel s1) (\<lambda>(m1, s1).
     let so = so\<lparr>so_s1 := s1, so_hasMore1 := m1, so_current := None\<rparr>
     in case so_s2 so of
          None \<Rightarrow> ret so
        | Some s2 \<Rightarrow>
            bnd (ts_beforeFirst s2) (\<lambda>s2.
            bnd (ts_next fuel s2) (\<lambda>(m2, s2). ret (so\<lparr>so_s2 := Some s2, so_hasMore2 := m2\<rparr>)))))"

definition so_advance :: "nat \<Rightarrow> sort_scan \<Rightarrow> ('a tx_scheme, sort_scan) cmd" where
  "so_advance fuel so =
     (case so_current so of
        None \<Rightarrow> ret so
      | Some First \<Rightarrow>
          bnd (ts_next fuel (so_s1 so)) (\<lambda>(m1, s1). ret (so\<lparr>so_s1 := s1, so_hasMore1 := m1\<rparr>))
      | Some Second \<Rightarrow>
          bnd (lift (deref (so_s2 so))) (\<lambda>s2.
          bnd (ts_next fuel s2) (\<lambda>(m2, s2). ret (so\<lparr>so_s2 := Some s2, so_hasMore2 := m2\<rparr>))))"

definition so_next :: "nat \<Rightarrow> sort_scan \<Rightarrow> ('a tx_scheme, bool \<times> sort_scan) cmd" where
  "so_next fuel so =
     bnd (so_advance fuel so) (\<lambda>so.
     if \<not> so_hasMore1 so \<and> \<not> so_hasMore2 so then ret (False, so)
     else if so_hasMore1 so \<and> so_hasMore2 so
     then bnd (lift (deref (so_s2 so))) (\<lambda>s2.
          bnd (rc_compare (so_fields so) (\<lambda>f. ts_getValue f (so_s1 so)) (\<lambda>f. ts_getValue f s2)) (\<lambda>c.
          ret (True, so\<lparr>so_current := Some (if c < 0 then First else Second)\<rparr>)))
     else if so_hasMore1 so then ret (True, so\<lparr>so_current := Some First\<rparr>)
     else ret (True, so\<lparr>so_current := Some Second\<rparr>))"

definition so_close :: "sort_scan \<Rightarrow> ('a tx_scheme, unit) cmd" where
  "so_close so =
     seq (ts_close (so_s1 so)) (case so_s2 so of None \<Rightarrow> ret () | Some s2 \<Rightarrow> ts_close s2)"

definition so_currentScan :: "sort_scan \<Rightarrow> tscan outcome" where
  "so_currentScan so =
     (case so_current so of
        None \<Rightarrow> Inl Undef
      | Some First \<Rightarrow> Inr (so_s1 so)
      | Some Second \<Rightarrow> deref (so_s2 so))"

definition so_getValue :: "string \<Rightarrow> sort_scan \<Rightarrow> ('a tx_scheme, const) cmd" where
  "so_getValue f so = bnd (lift (so_currentScan so)) (ts_getValue f)"

definition so_getInt :: "string \<Rightarrow> sort_scan \<Rightarrow> ('a tx_scheme, int) cmd" where
  "so_getInt f so = bnd (lift (so_currentScan so)) (ts_getInt f)"

definition so_getBool :: "string \<Rightarrow> sort_scan \<Rightarrow> ('a tx_scheme, bool) cmd" where
  "so_getBool f so = bnd (lift (so_currentScan so)) (ts_getBool f)"

definition so_getString :: "string \<Rightarrow> sort_scan \<Rightarrow> ('a tx_scheme, string) cmd" where
  "so_getString f so = bnd (lift (so_currentScan so)) (ts_getString f)"

definition so_hasField :: "string \<Rightarrow> sort_scan \<Rightarrow> bool outcome" where
  "so_hasField f so = rbind (so_currentScan so) (\<lambda>ts. Inr (ts_hasField f ts))"

definition so_savePosition :: "sort_scan \<Rightarrow> ('a tx_scheme, sort_scan) cmd" where
  "so_savePosition so =
     bnd (ts_getRid (so_s1 so)) (\<lambda>r1.
     bnd (lift (deref (so_s2 so))) (\<lambda>s2.
     bnd (ts_getRid s2) (\<lambda>r2. ret (so\<lparr>so_saved := [r1, r2]\<rparr>))))"

definition so_restorePosition :: "sort_scan \<Rightarrow> ('a tx_scheme, sort_scan) cmd" where
  "so_restorePosition so =
     (case so_saved so of
        r1 # r2 # _ \<Rightarrow>
          bnd (ts_moveToRid r1 (so_s1 so)) (\<lambda>s1.
          bnd (lift (deref (so_s2 so))) (\<lambda>s2.
          bnd (ts_moveToRid r2 s2) (\<lambda>s2. ret (so\<lparr>so_s1 := s1, so_s2 := Some s2\<rparr>))))
      | _ \<Rightarrow> raise Undef)"

definition so_ops :: "nat \<Rightarrow> ('a tx_scheme, sort_scan) scan_ops" where
  "so_ops fuel = read_ops (so_beforeFirst fuel) (so_next fuel) so_getInt so_getBool so_getString so_getValue so_hasField so_close"

section \<open>Sorting\<close>

text \<open>\<open>copy\<close> inserts a record and moves the source on.\<close>

definition sp_copy ::
  "nat \<Rightarrow> ('a tx_scheme, 'c) scan_ops \<Rightarrow> schema \<Rightarrow> 'c \<Rightarrow> tscan \<Rightarrow> ('a tx_scheme, bool \<times> 'c \<times> tscan) cmd" where
  "sp_copy fuel ops sch src dest =
     bnd (ts_insert fuel dest) (\<lambda>dest.
     seq (copy_fields (\<lambda>f. op_getValue ops f src) (sch_fields sch) dest)
    (bnd (op_next ops src) (\<lambda>(b, src). ret (b, src, dest))))"

fun sp_split_loop ::
  "nat \<Rightarrow> nat \<Rightarrow> ('a tmp_scheme, 'c) scan_ops \<Rightarrow> string list \<Rightarrow> schema \<Rightarrow> 'c \<Rightarrow> temp_table list \<Rightarrow> tscan \<Rightarrow>
   ('a tmp_scheme, temp_table list \<times> 'c) cmd" where
  "sp_split_loop 0 k ops flds sch src temps cur = raise OutOfFuel"
| "sp_split_loop (Suc fuel) k ops flds sch src temps cur =
     bnd (sp_copy k ops sch src cur) (\<lambda>(more, src, cur).
     if more
     then bnd (rc_compare flds (\<lambda>f. op_getValue ops f src) (\<lambda>f. ts_getValue f cur)) (\<lambda>c.
          if c < 0
          then seq (ts_close cur)
              (bnd (tt_new sch) (\<lambda>t.
               bnd (tt_open k t) (\<lambda>cur. sp_split_loop fuel k ops flds sch src (temps @ [t]) cur)))
          else sp_split_loop fuel k ops flds sch src temps cur)
     else seq (ts_close cur) (ret (temps, src)))"

definition sp_splitIntoRuns ::
  "nat \<Rightarrow> ('a tmp_scheme, 'c) scan_ops \<Rightarrow> string list \<Rightarrow> schema \<Rightarrow> 'c \<Rightarrow> ('a tmp_scheme, temp_table list \<times> 'c) cmd" where
  "sp_splitIntoRuns fuel ops flds sch src =
     bnd (op_beforeFirst ops src) (\<lambda>src.
     bnd (op_next ops src) (\<lambda>(b, src).
     if \<not> b then ret ([], src)
     else bnd (tt_new sch) (\<lambda>t.
          bnd (tt_open fuel t) (\<lambda>cur. sp_split_loop fuel fuel ops flds sch src [t] cur))))"

fun sp_merge_loop ::
  "nat \<Rightarrow> nat \<Rightarrow> string list \<Rightarrow> schema \<Rightarrow> bool \<Rightarrow> bool \<Rightarrow> tscan \<Rightarrow> tscan \<Rightarrow> tscan \<Rightarrow>
   ('a tx_scheme, bool \<times> bool \<times> tscan \<times> tscan \<times> tscan) cmd" where
  "sp_merge_loop 0 k flds sch m1 m2 s1 s2 dest = raise OutOfFuel"
| "sp_merge_loop (Suc fuel) k flds sch m1 m2 s1 s2 dest =
     (if m1 \<and> m2
      then bnd (rc_compare flds (\<lambda>f. ts_getValue f s1) (\<lambda>f. ts_getValue f s2)) (\<lambda>c.
           if c < 0
           then bnd (sp_copy k (ts_ops k) sch s1 dest) (\<lambda>(m1, s1, dest). sp_merge_loop fuel k flds sch m1 m2 s1 s2 dest)
           else bnd (sp_copy k (ts_ops k) sch s2 dest) (\<lambda>(m2, s2, dest). sp_merge_loop fuel k flds sch m1 m2 s1 s2 dest))
      else ret (m1, m2, s1, s2, dest))"

fun sp_drain_loop ::
  "nat \<Rightarrow> nat \<Rightarrow> schema \<Rightarrow> bool \<Rightarrow> tscan \<Rightarrow> tscan \<Rightarrow> ('a tx_scheme, tscan \<times> tscan) cmd" where
  "sp_drain_loop 0 k sch m src dest = raise OutOfFuel"
| "sp_drain_loop (Suc fuel) k sch m src dest =
     (if m then bnd (sp_copy k (ts_ops k) sch src dest) (\<lambda>(m, src, dest). sp_drain_loop fuel k sch m src dest)
      else ret (src, dest))"

definition sp_mergeTwoRuns ::
  "nat \<Rightarrow> string list \<Rightarrow> schema \<Rightarrow> temp_table \<Rightarrow> temp_table \<Rightarrow> ('a tmp_scheme, temp_table) cmd" where
  "sp_mergeTwoRuns fuel flds sch run1 run2 =
     bnd (tt_open fuel run1) (\<lambda>s1.
     bnd (tt_open fuel run2) (\<lambda>s2.
     bnd (tt_new sch) (\<lambda>result.
     bnd (tt_open fuel result) (\<lambda>dest.
     bnd (ts_next fuel s1) (\<lambda>(m1, s1).
     bnd (ts_next fuel s2) (\<lambda>(m2, s2).
     bnd (sp_merge_loop fuel fuel flds sch m1 m2 s1 s2 dest) (\<lambda>(m1, m2, s1, s2, dest).
     bnd (if m1
          then bnd (sp_drain_loop fuel fuel sch m1 s1 dest) (\<lambda>(s1, dest). ret (s1, s2, dest))
          else bnd (sp_drain_loop fuel fuel sch m2 s2 dest) (\<lambda>(s2, dest). ret (s1, s2, dest))) (\<lambda>(s1, s2, dest).
     seq (ts_close s1) (seq (ts_close s2) (seq (ts_close dest) (ret result)))))))))))"

fun sp_doAMergeIteration ::
  "nat \<Rightarrow> string list \<Rightarrow> schema \<Rightarrow> temp_table list \<Rightarrow> ('a tmp_scheme, temp_table list) cmd" where
  "sp_doAMergeIteration fuel flds sch (r1 # r2 # rs) =
     bnd (sp_mergeTwoRuns fuel flds sch r1 r2) (\<lambda>r.
     bnd (sp_doAMergeIteration fuel flds sch rs) (\<lambda>rs. ret (r # rs)))"
| "sp_doAMergeIteration fuel flds sch runs = ret runs"

fun sp_merge_all :: "nat \<Rightarrow> nat \<Rightarrow> string list \<Rightarrow> schema \<Rightarrow> temp_table list \<Rightarrow> ('a tmp_scheme, temp_table list) cmd" where
  "sp_merge_all 0 k flds sch runs = raise OutOfFuel"
| "sp_merge_all (Suc fuel) k flds sch runs =
     (if length runs > 2
      then bnd (sp_doAMergeIteration k flds sch runs) (sp_merge_all fuel k flds sch)
      else ret runs)"

text \<open>\<open>SortPlan::open\<close>, from the opened source on.\<close>

definition sp_open ::
  "nat \<Rightarrow> ('a tmp_scheme, 'c) scan_ops \<Rightarrow> string list \<Rightarrow> schema \<Rightarrow> 'c \<Rightarrow> ('a tmp_scheme, sort_scan) cmd" where
  "sp_open fuel ops flds sch src =
     bnd (sp_splitIntoRuns fuel ops flds sch src) (\<lambda>(runs, src).
     seq (op_close ops src)
    (bnd (sp_merge_all fuel fuel flds sch runs) (\<lambda>runs. so_new fuel runs flds)))"

section \<open>Materializing\<close>

fun mp_copy_loop ::
  "nat \<Rightarrow> nat \<Rightarrow> ('a tx_scheme, 'c) scan_ops \<Rightarrow> string list \<Rightarrow> 'c \<Rightarrow> tscan \<Rightarrow> ('a tx_scheme, 'c \<times> tscan) cmd" where
  "mp_copy_loop 0 k ops flds src dest = raise OutOfFuel"
| "mp_copy_loop (Suc fuel) k ops flds src dest =
     bnd (op_next ops src) (\<lambda>(b, src).
     if b
     then bnd (ts_insert k dest) (\<lambda>dest.
          seq (copy_fields (\<lambda>f. op_getValue ops f src) flds dest) (mp_copy_loop fuel k ops flds src dest))
     else ret (src, dest))"

text \<open>\<open>MaterializePlan::open\<close>; the temporary table is made before the source is opened.\<close>

definition mp_open ::
  "nat \<Rightarrow> ('a tmp_scheme, 'c) scan_ops \<Rightarrow> schema \<Rightarrow> ('a tmp_scheme, 'c) cmd \<Rightarrow> ('a tmp_scheme, tscan) cmd" where
  "mp_open fuel ops sch open_src =
     bnd (tt_new sch) (\<lambda>temp.
     bnd open_src (\<lambda>src.
     bnd (tt_open fuel temp) (\<lambda>dest.
     bnd (mp_copy_loop fuel fuel ops (sch_fields sch) src dest) (\<lambda>(src, dest).
     seq (op_close ops src) (ts_beforeFirst dest)))))"

section \<open>Merge join\<close>

datatype 'c join_scan =
  MergeJoinScan (mj_s1: 'c) (mj_s2: sort_scan) (mj_fld1: string) (mj_fld2: string) (mj_joinValue: const)

definition mj_beforeFirst ::
  "nat \<Rightarrow> ('a tx_scheme, 'c) scan_ops \<Rightarrow> 'c join_scan \<Rightarrow> ('a tx_scheme, 'c join_scan) cmd" where
  "mj_beforeFirst fuel ops mj =
     bnd (op_beforeFirst ops (mj_s1 mj)) (\<lambda>s1.
     bnd (so_beforeFirst fuel (mj_s2 mj)) (\<lambda>s2.
     ret (MergeJoinScan s1 s2 (mj_fld1 mj) (mj_fld2 mj) (mj_joinValue mj))))"

definition mj_new ::
  "nat \<Rightarrow> ('a tx_scheme, 'c) scan_ops \<Rightarrow> 'c \<Rightarrow> sort_scan \<Rightarrow> string \<Rightarrow> string \<Rightarrow> ('a tx_scheme, 'c join_scan) cmd" where
  "mj_new fuel ops s1 s2 fld1 fld2 = mj_beforeFirst fuel ops (MergeJoinScan s1 s2 fld1 fld2 const_null)"

definition mj_close :: "('a tx_scheme, 'c) scan_ops \<Rightarrow> 'c join_scan \<Rightarrow> ('a tx_scheme, unit) cmd" where
  "mj_close ops mj = seq (op_close ops (mj_s1 mj)) (so_close (mj_s2 mj))"

fun mj_loop ::
  "nat \<Rightarrow> nat \<Rightarrow> ('a tx_scheme, 'c) scan_ops \<Rightarrow> bool \<Rightarrow> bool \<Rightarrow> 'c join_scan \<Rightarrow> ('a tx_scheme, bool \<times> 'c join_scan) cmd" where
  "mj_loop 0 k ops m1 m2 mj = raise OutOfFuel"
| "mj_loop (Suc fuel) k ops m1 m2 mj =
     (case mj of MergeJoinScan s1 s2 fld1 fld2 jv \<Rightarrow>
        if m1 \<and> m2
        then bnd (op_getValue ops fld1 s1) (\<lambda>v1.
             bnd (so_getValue fld2 s2) (\<lambda>v2.
             bnd (lift (const_lt v1 v2)) (\<lambda>lt.
             if lt then bnd (op_next ops s1) (\<lambda>(m1, s1). mj_loop fuel k ops m1 m2 (MergeJoinScan s1 s2 fld1 fld2 jv))
             else bnd (lift (const_gt v1 v2)) (\<lambda>gt.
                  if gt then bnd (so_next k s2) (\<lambda>(m2, s2). mj_loop fuel k ops m1 m2 (MergeJoinScan s1 s2 fld1 fld2 jv))
                  else bnd (so_savePosition s2) (\<lambda>s2.
                       bnd (so_getValue fld2 s2) (\<lambda>v.
                       ret (True, MergeJoinScan s1 s2 fld1 fld2 (const_assign jv v))))))))
        else ret (False, mj))"

text \<open>The first test of \<open>next\<close> asks for the join value when the second scan has ended.\<close>

definition mj_next ::
  "nat \<Rightarrow> ('a tx_scheme, 'c) scan_ops \<Rightarrow> 'c join_scan \<Rightarrow> ('a tx_scheme, bool \<times> 'c join_scan) cmd" where
  "mj_next fuel ops mj =
     (case mj of MergeJoinScan s1 s2 fld1 fld2 jv \<Rightarrow>
        bnd (so_next fuel s2) (\<lambda>(m2, s2).
        bnd (if \<not> m2 then bnd (so_getValue fld2 s2) (\<lambda>v. lift (const_eq v jv)) else ret False) (\<lambda>again.
        if again then ret (True, MergeJoinScan s1 s2 fld1 fld2 jv)
        else bnd (op_next ops s1) (\<lambda>(m1, s1).
             bnd (if m1 then bnd (op_getValue ops fld1 s1) (\<lambda>v. lift (const_eq v jv)) else ret False) (\<lambda>same.
             if same then bnd (so_restorePosition s2) (\<lambda>s2. ret (True, MergeJoinScan s1 s2 fld1 fld2 jv))
             else mj_loop fuel fuel ops m1 m2 (MergeJoinScan s1 s2 fld1 fld2 jv))))))"

definition mj_get ::
  "('a tx_scheme, 'c) scan_ops \<Rightarrow> (string \<Rightarrow> 'c \<Rightarrow> ('a tx_scheme, 'v) cmd) \<Rightarrow> (string \<Rightarrow> sort_scan \<Rightarrow> ('a tx_scheme, 'v) cmd) \<Rightarrow>
   string \<Rightarrow> 'c join_scan \<Rightarrow> ('a tx_scheme, 'v) cmd" where
  "mj_get ops get1 get2 f mj =
     bnd (lift (op_hasField ops f (mj_s1 mj))) (\<lambda>b. if b then get1 f (mj_s1 mj) else get2 f (mj_s2 mj))"

definition mj_getInt :: "('a tx_scheme, 'c) scan_ops \<Rightarrow> string \<Rightarrow> 'c join_scan \<Rightarrow> ('a tx_scheme, int) cmd" where
  "mj_getInt ops = mj_get ops (op_getInt ops) so_getInt"

definition mj_getBool :: "('a tx_scheme, 'c) scan_ops \<Rightarrow> string \<Rightarrow> 'c join_scan \<Rightarrow> ('a tx_scheme, bool) cmd" where
  "mj_getBool ops = mj_get ops (op_getBool ops) so_getBool"

definition mj_getString :: "('a tx_scheme, 'c) scan_ops \<Rightarrow> string \<Rightarrow> 'c join_scan \<Rightarrow> ('a tx_scheme, string) cmd" where
  "mj_getString ops = mj_get ops (op_getString ops) so_getString"

definition mj_getValue :: "('a tx_scheme, 'c) scan_ops \<Rightarrow> string \<Rightarrow> 'c join_scan \<Rightarrow> ('a tx_scheme, const) cmd" where
  "mj_getValue ops = mj_get ops (op_getValue ops) so_getValue"

definition mj_hasField :: "('a tx_scheme, 'c) scan_ops \<Rightarrow> string \<Rightarrow> 'c join_scan \<Rightarrow> bool outcome" where
  "mj_hasField ops f mj =
     rbind (op_hasField ops f (mj_s1 mj)) (\<lambda>b. if b then Inr True else so_hasField f (mj_s2 mj))"

definition mj_ops :: "nat \<Rightarrow> ('a tx_scheme, 'c) scan_ops \<Rightarrow> ('a tx_scheme, 'c join_scan) scan_ops" where
  "mj_ops fuel ops = read_ops (mj_beforeFirst fuel ops) (mj_next fuel ops) (mj_getInt ops) (mj_getBool ops)
     (mj_getString ops) (mj_getValue ops) (mj_hasField ops) (mj_close ops)"

section \<open>Aggregation and grouping\<close>

text \<open>Each function keeps its running value.\<close>

datatype agg = CountFn int | MaxFn string const | MinFn string const | SumFn string const

fun ag_processFirst :: "(string \<Rightarrow> ('s, const) cmd) \<Rightarrow> agg \<Rightarrow> ('s, agg) cmd" where
  "ag_processFirst get (CountFn n) = ret (CountFn 1)"
| "ag_processFirst get (MaxFn f v) = bnd (get f) (\<lambda>c. ret (MaxFn f (const_assign v c)))"
| "ag_processFirst get (MinFn f v) = bnd (get f) (\<lambda>c. ret (MinFn f (const_assign v c)))"
| "ag_processFirst get (SumFn f v) = bnd (get f) (\<lambda>c. ret (SumFn f (const_assign v c)))"

fun ag_processNext :: "(string \<Rightarrow> ('s, const) cmd) \<Rightarrow> agg \<Rightarrow> ('s, agg) cmd" where
  "ag_processNext get (CountFn n) = bnd (lift (ck (n + 1))) (\<lambda>n. ret (CountFn n))"
| "ag_processNext get (MaxFn f v) =
     bnd (get f) (\<lambda>c. bnd (lift (const_gt c v)) (\<lambda>gt. ret (MaxFn f (if gt then const_assign v c else v))))"
| "ag_processNext get (MinFn f v) =
     bnd (get f) (\<lambda>c. bnd (lift (const_lt c v)) (\<lambda>lt. ret (MinFn f (if lt then const_assign v c else v))))"
| "ag_processNext get (SumFn f v) =
     bnd (get f) (\<lambda>c. bnd (lift (const_plus v c)) (\<lambda>v. ret (SumFn f v)))"

fun ag_fieldName :: "agg \<Rightarrow> string" where
  "ag_fieldName (CountFn n) = ''count''"
| "ag_fieldName (MaxFn f v) = ''max'' @ f"
| "ag_fieldName (MinFn f v) = ''min'' @ f"
| "ag_fieldName (SumFn f v) = ''sum'' @ f"

fun ag_value :: "agg \<Rightarrow> const" where
  "ag_value (CountFn n) = const_int n"
| "ag_value (MaxFn f v) = v"
| "ag_value (MinFn f v) = v"
| "ag_value (SumFn f v) = v"

fun each_agg :: "(agg \<Rightarrow> ('s, agg) cmd) \<Rightarrow> agg list \<Rightarrow> ('s, agg list) cmd" where
  "each_agg m [] = ret []"
| "each_agg m (a # as) = bnd (m a) (\<lambda>a. bnd (each_agg m as) (\<lambda>as. ret (a # as)))"

type_synonym group_value = "(string \<times> const) list"

fun gv_read :: "(string \<Rightarrow> ('s, const) cmd) \<Rightarrow> string list \<Rightarrow> group_value \<Rightarrow> ('s, group_value) cmd" where
  "gv_read get [] vs = ret vs"
| "gv_read get (f # fs) vs =
     bnd (get f) (\<lambda>c.
     gv_read get fs (om_put f (const_assign (case map_of vs f of Some v \<Rightarrow> v | None \<Rightarrow> const_null) c) vs))"

definition gv_new :: "(string \<Rightarrow> ('s, const) cmd) \<Rightarrow> string list \<Rightarrow> ('s, group_value) cmd" where
  "gv_new get flds = gv_read get flds []"

fun gv_eq :: "group_value \<Rightarrow> group_value \<Rightarrow> bool outcome" where
  "gv_eq [] gv2 = Inr True"
| "gv_eq ((f, v) # gv1) gv2 =
     (case map_of gv2 f of
        None \<Rightarrow> Inr False
      | Some w \<Rightarrow> rbind (const_ne w v) (\<lambda>ne. if ne then Inr False else gv_eq gv1 gv2))"

definition gv_ne :: "group_value \<Rightarrow> group_value \<Rightarrow> bool outcome" where
  "gv_ne gv1 gv2 = rbind (gv_eq gv1 gv2) (\<lambda>b. Inr (\<not> b))"

definition gv_getValue :: "string \<Rightarrow> group_value \<Rightarrow> const outcome" where
  "gv_getValue f gv = (case map_of gv f of None \<Rightarrow> Inl (Throw ''map::at'') | Some c \<Rightarrow> Inr c)"

datatype 'c group_scan =
  GroupByScan (gb_src: 'c) (gb_groupFields: "string list") (gb_aggs: "agg list") (gb_current: "group_value option")
    (gb_moreGroups: bool)

definition gb_beforeFirst :: "('s, 'c) scan_ops \<Rightarrow> 'c group_scan \<Rightarrow> ('s, 'c group_scan) cmd" where
  "gb_beforeFirst ops g =
     bnd (op_beforeFirst ops (gb_src g)) (\<lambda>src.
     bnd (op_next ops src) (\<lambda>(m, src).
     ret (GroupByScan src (gb_groupFields g) (gb_aggs g) (gb_current g) m)))"

definition gb_new :: "('s, 'c) scan_ops \<Rightarrow> 'c \<Rightarrow> string list \<Rightarrow> agg list \<Rightarrow> ('s, 'c group_scan) cmd" where
  "gb_new ops src flds aggs = gb_beforeFirst ops (GroupByScan src flds aggs None False)"

fun gb_loop ::
  "nat \<Rightarrow> ('s, 'c) scan_ops \<Rightarrow> string list \<Rightarrow> group_value \<Rightarrow> agg list \<Rightarrow> 'c \<Rightarrow> ('s, bool \<times> agg list \<times> 'c) cmd" where
  "gb_loop 0 ops flds cur aggs src = raise OutOfFuel"
| "gb_loop (Suc fuel) ops flds cur aggs src =
     bnd (op_next ops src) (\<lambda>(m, src).
     if m
     then bnd (gv_new (\<lambda>f. op_getValue ops f src) flds) (\<lambda>gv.
          bnd (lift (gv_ne cur gv)) (\<lambda>ne.
          if ne then ret (True, aggs, src)
          else bnd (each_agg (ag_processNext (\<lambda>f. op_getValue ops f src)) aggs) (\<lambda>aggs.
               gb_loop fuel ops flds cur aggs src)))
     else ret (False, aggs, src))"

definition gb_next :: "nat \<Rightarrow> ('s, 'c) scan_ops \<Rightarrow> 'c group_scan \<Rightarrow> ('s, bool \<times> 'c group_scan) cmd" where
  "gb_next fuel ops g =
     (if \<not> gb_moreGroups g then ret (False, g)
      else bnd (each_agg (ag_processFirst (\<lambda>f. op_getValue ops f (gb_src g))) (gb_aggs g)) (\<lambda>aggs.
           bnd (gv_new (\<lambda>f. op_getValue ops f (gb_src g)) (gb_groupFields g)) (\<lambda>cur.
           bnd (gb_loop fuel ops (gb_groupFields g) cur aggs (gb_src g)) (\<lambda>(m, aggs, src).
           ret (True, GroupByScan src (gb_groupFields g) aggs (Some cur) m)))))"

definition gb_close :: "('s, 'c) scan_ops \<Rightarrow> 'c group_scan \<Rightarrow> ('s, unit) cmd" where
  "gb_close ops g = op_close ops (gb_src g)"

definition gb_value :: "string \<Rightarrow> 'c group_scan \<Rightarrow> const outcome" where
  "gb_value f g =
     (if f \<in> set (gb_groupFields g) then rbind (deref (gb_current g)) (gv_getValue f)
      else case find (\<lambda>a. ag_fieldName a = f) (gb_aggs g) of
             Some a \<Rightarrow> Inr (ag_value a)
           | None \<Rightarrow> Inl (Throw (''GroupByScan: unknown field '' @ [CHR 0x27] @ f @ [CHR 0x27])))"

definition gb_getValue :: "string \<Rightarrow> 'c group_scan \<Rightarrow> ('s, const) cmd" where
  "gb_getValue f g = lift (gb_value f g)"

definition gb_getInt :: "string \<Rightarrow> 'c group_scan \<Rightarrow> ('s, int) cmd" where
  "gb_getInt f g = lift (rbind (gb_value f g) const_asInt)"

definition gb_getBool :: "string \<Rightarrow> 'c group_scan \<Rightarrow> ('s, bool) cmd" where
  "gb_getBool f g = lift (rbind (gb_value f g) (\<lambda>c. rbind (const_asInt c) (\<lambda>n. Inr (n \<noteq> 0))))"

definition gb_getString :: "string \<Rightarrow> 'c group_scan \<Rightarrow> ('s, string) cmd" where
  "gb_getString f g = lift (rbind (gb_value f g) const_asString)"

definition gb_hasField :: "string \<Rightarrow> 'c group_scan \<Rightarrow> bool outcome" where
  "gb_hasField f g = Inr (f \<in> set (gb_groupFields g) \<or> (\<exists>a \<in> set (gb_aggs g). ag_fieldName a = f))"

definition gb_ops :: "nat \<Rightarrow> ('s, 'c) scan_ops \<Rightarrow> ('s, 'c group_scan) scan_ops" where
  "gb_ops fuel ops = read_ops (gb_beforeFirst ops) (gb_next fuel ops) gb_getInt gb_getBool gb_getString gb_getValue gb_hasField (gb_close ops)"

end
