(* ===== verification/BTree.thy ===== *)
theory BTree
  imports Records
begin

text \<open>
  \<open>src/src/indexing\<close>: B-tree pages, leaves, directory blocks and the index over them. A page
  object names its block; the records are in the transaction's buffers.
\<close>

section \<open>Pages\<close>

record bpage =
  bp_blk :: block_id
  bp_layout :: layout

definition bp_new :: "block_id \<Rightarrow> layout \<Rightarrow> ('a tx_scheme, bpage) cmd" where
  "bp_new blk l = seq (tx_pin blk) (ret \<lparr>bp_blk = blk, bp_layout = l\<rparr>)"

definition bp_close :: "bpage \<Rightarrow> ('a tx_scheme, bpage) cmd" where
  "bp_close p = seq (if \<not> blk_isNull (bp_blk p) then tx_unpin (bp_blk p) else ret ()) (ret (p\<lparr>bp_blk := null_blk\<rparr>))"

definition bp_slotPos :: "int \<Rightarrow> bpage \<Rightarrow> int" where
  "bp_slotPos slot p = 4 + 4 + slot * lay_slotSize (bp_layout p)"

definition bp_fldPos :: "int \<Rightarrow> string \<Rightarrow> bpage \<Rightarrow> ('a tx_scheme, int) cmd" where
  "bp_fldPos slot f p = bnd (lift (lay_offset f (bp_layout p))) (\<lambda>o'. ret (bp_slotPos slot p + o'))"

definition bp_getFlag :: "bpage \<Rightarrow> ('a tx_scheme, int) cmd" where
  "bp_getFlag p = tx_getInt (bp_blk p) 0"

definition bp_setFlag :: "int \<Rightarrow> bpage \<Rightarrow> ('a tx_scheme, unit) cmd" where
  "bp_setFlag val p = tx_setInt (bp_blk p) 0 val True"

definition bp_getNumRecs :: "bpage \<Rightarrow> ('a tx_scheme, int) cmd" where
  "bp_getNumRecs p = tx_getInt (bp_blk p) 4"

definition bp_setNumRecs :: "int \<Rightarrow> bpage \<Rightarrow> ('a tx_scheme, unit) cmd" where
  "bp_setNumRecs n p = tx_setInt (bp_blk p) 4 n True"

definition bp_getInt :: "int \<Rightarrow> string \<Rightarrow> bpage \<Rightarrow> ('a tx_scheme, int) cmd" where
  "bp_getInt slot f p = bnd (bp_fldPos slot f p) (\<lambda>pos. tx_getInt (bp_blk p) pos)"

definition bp_getString :: "int \<Rightarrow> string \<Rightarrow> bpage \<Rightarrow> ('a tx_scheme, string) cmd" where
  "bp_getString slot f p = bnd (bp_fldPos slot f p) (\<lambda>pos. tx_getString (bp_blk p) pos)"

definition bp_getValue :: "int \<Rightarrow> string \<Rightarrow> bpage \<Rightarrow> ('a tx_scheme, const) cmd" where
  "bp_getValue slot f p =
     bnd (lift (sch_fieldType f (lay_schema (bp_layout p)))) (\<lambda>ty.
     if ty = INTEGER then bnd (bp_getInt slot f p) (\<lambda>v. ret (const_int v))
     else if ty = VARCHAR then bnd (bp_getString slot f p) (\<lambda>v. ret (const_str v))
     else raise (Throw ''Unsupported field type in BTreePage''))"

definition bp_setInt :: "int \<Rightarrow> string \<Rightarrow> int \<Rightarrow> bpage \<Rightarrow> ('a tx_scheme, unit) cmd" where
  "bp_setInt slot f v p = bnd (bp_fldPos slot f p) (\<lambda>pos. tx_setInt (bp_blk p) pos v True)"

definition bp_setString :: "int \<Rightarrow> string \<Rightarrow> string \<Rightarrow> bpage \<Rightarrow> ('a tx_scheme, unit) cmd" where
  "bp_setString slot f v p = bnd (bp_fldPos slot f p) (\<lambda>pos. tx_setString (bp_blk p) pos v True)"

definition bp_setValue :: "int \<Rightarrow> string \<Rightarrow> const \<Rightarrow> bpage \<Rightarrow> ('a tx_scheme, unit) cmd" where
  "bp_setValue slot f v p =
     bnd (lift (sch_fieldType f (lay_schema (bp_layout p)))) (\<lambda>ty.
     if ty = INTEGER then bnd (lift (const_asInt v)) (\<lambda>i. bp_setInt slot f i p)
     else if ty = VARCHAR then bnd (lift (const_asString v)) (\<lambda>x. bp_setString slot f x p)
     else raise (Throw ''Unsupported field type in BTreePage''))"

definition bp_getDataVal :: "int \<Rightarrow> bpage \<Rightarrow> ('a tx_scheme, const) cmd" where
  "bp_getDataVal slot p = bp_getValue slot ''dataval'' p"

fun bp_find_loop :: "nat \<Rightarrow> int \<Rightarrow> const \<Rightarrow> bpage \<Rightarrow> ('a tx_scheme, int) cmd" where
  "bp_find_loop 0 slot key p = raise OutOfFuel"
| "bp_find_loop (Suc fuel) slot key p =
     bnd (bp_getNumRecs p) (\<lambda>n.
     if slot < n
     then bnd (bp_getDataVal slot p) (\<lambda>v.
          bnd (lift (const_lt v key)) (\<lambda>lt.
          if lt then bp_find_loop fuel (slot + 1) key p else ret (slot - 1)))
     else ret (slot - 1))"

definition bp_findSlotBefore :: "nat \<Rightarrow> const \<Rightarrow> bpage \<Rightarrow> ('a tx_scheme, int) cmd" where
  "bp_findSlotBefore fuel key p = bp_find_loop fuel 0 key p"

definition bp_isFull :: "bpage \<Rightarrow> ('a tx_scheme, bool) cmd" where
  "bp_isFull p = bnd (bp_getNumRecs p) (\<lambda>n. gets (\<lambda>s. bp_slotPos (n + 1) p \<ge> tx_blockSize s))"

fun bp_default_fields :: "block_id \<Rightarrow> int \<Rightarrow> string list \<Rightarrow> bpage \<Rightarrow> ('a tx_scheme, unit) cmd" where
  "bp_default_fields blk pos [] p = ret ()"
| "bp_default_fields blk pos (f # fs) p =
     bnd (lift (lay_offset f (bp_layout p))) (\<lambda>o'.
     bnd (lift (sch_fieldType f (lay_schema (bp_layout p)))) (\<lambda>ty.
     seq (if ty = INTEGER then tx_setInt blk (pos + o') 0 False else tx_setString blk (pos + o') [] False)
         (bp_default_fields blk pos fs p)))"

definition bp_makeDefaultRecord :: "block_id \<Rightarrow> int \<Rightarrow> bpage \<Rightarrow> ('a tx_scheme, unit) cmd" where
  "bp_makeDefaultRecord blk pos p = bp_default_fields blk pos (sch_fields (lay_schema (bp_layout p))) p"

fun bp_format_loop :: "nat \<Rightarrow> block_id \<Rightarrow> int \<Rightarrow> bpage \<Rightarrow> ('a tx_scheme, unit) cmd" where
  "bp_format_loop 0 blk pos p = raise OutOfFuel"
| "bp_format_loop (Suc fuel) blk pos p =
     bnd (gets (\<lambda>s. pos + lay_slotSize (bp_layout p) \<le> tx_blockSize s)) (\<lambda>more.
     if more
     then seq (bp_makeDefaultRecord blk pos p) (bp_format_loop fuel blk (pos + lay_slotSize (bp_layout p)) p)
     else ret ())"

definition bp_format :: "nat \<Rightarrow> block_id \<Rightarrow> int \<Rightarrow> bpage \<Rightarrow> ('a tx_scheme, unit) cmd" where
  "bp_format fuel blk flag p =
     seq (tx_setInt blk 0 flag False)
    (seq (tx_setInt blk 4 0 False) (bp_format_loop fuel blk (2 * 4) p))"

definition bp_appendNew :: "nat \<Rightarrow> int \<Rightarrow> bpage \<Rightarrow> ('a tx_scheme, block_id) cmd" where
  "bp_appendNew fuel flag p =
     bnd (tx_append (fileName (bp_blk p))) (\<lambda>newBlk.
     seq (tx_pin newBlk) (seq (bp_format fuel newBlk flag p) (ret newBlk)))"

fun bp_copy_fields :: "int \<Rightarrow> bpage \<Rightarrow> int \<Rightarrow> bpage \<Rightarrow> string list \<Rightarrow> ('a tx_scheme, unit) cmd" where
  "bp_copy_fields from p to dest [] = ret ()"
| "bp_copy_fields from p to dest (f # fs) =
     bnd (bp_getValue from f p) (\<lambda>v. seq (bp_setValue to f v dest) (bp_copy_fields from p to dest fs))"

definition bp_copyRecord :: "int \<Rightarrow> int \<Rightarrow> bpage \<Rightarrow> ('a tx_scheme, unit) cmd" where
  "bp_copyRecord from to p = bp_copy_fields from p to p (sch_fields (lay_schema (bp_layout p)))"

text \<open>The loop of \<open>insert\<close> from \<open>i\<close> down to \<open>slot + 1\<close>: \<open>n\<close> steps.\<close>

fun bp_shift_up :: "nat \<Rightarrow> int \<Rightarrow> bpage \<Rightarrow> ('a tx_scheme, unit) cmd" where
  "bp_shift_up 0 i p = ret ()"
| "bp_shift_up (Suc n) i p = seq (bp_copyRecord (i - 1) i p) (bp_shift_up n (i - 1) p)"

definition bp_insert :: "int \<Rightarrow> bpage \<Rightarrow> ('a tx_scheme, unit) cmd" where
  "bp_insert slot p =
     bnd (bp_getNumRecs p) (\<lambda>n.
     seq (bp_shift_up (nat (n - slot)) n p)
    (bnd (bp_getNumRecs p) (\<lambda>n. bp_setNumRecs (n + 1) p)))"

fun bp_remove_loop :: "nat \<Rightarrow> int \<Rightarrow> bpage \<Rightarrow> ('a tx_scheme, unit) cmd" where
  "bp_remove_loop 0 i p = raise OutOfFuel"
| "bp_remove_loop (Suc fuel) i p =
     bnd (bp_getNumRecs p) (\<lambda>n.
     if i < n then seq (bp_copyRecord i (i - 1) p) (bp_remove_loop fuel (i + 1) p) else ret ())"

definition bp_remove :: "nat \<Rightarrow> int \<Rightarrow> bpage \<Rightarrow> ('a tx_scheme, unit) cmd" where
  "bp_remove fuel slot p =
     seq (bp_remove_loop fuel (slot + 1) p)
    (bnd (bp_getNumRecs p) (\<lambda>n. bp_setNumRecs (n - 1) p))"

fun bp_transfer_loop :: "nat \<Rightarrow> nat \<Rightarrow> int \<Rightarrow> int \<Rightarrow> bpage \<Rightarrow> bpage \<Rightarrow> ('a tx_scheme, unit) cmd" where
  "bp_transfer_loop 0 k slot destSlot dest p = raise OutOfFuel"
| "bp_transfer_loop (Suc fuel) k slot destSlot dest p =
     bnd (bp_getNumRecs p) (\<lambda>n.
     if slot < n
     then seq (bp_insert destSlot dest)
         (seq (bp_copy_fields slot p destSlot dest (sch_fields (lay_schema (bp_layout p))))
         (seq (bp_remove k slot p)
              (bp_transfer_loop fuel k slot (destSlot + 1) dest p)))
     else ret ())"

definition bp_transferRecs :: "nat \<Rightarrow> int \<Rightarrow> bpage \<Rightarrow> bpage \<Rightarrow> ('a tx_scheme, unit) cmd" where
  "bp_transferRecs fuel slot dest p = bp_transfer_loop fuel fuel slot 0 dest p"

text \<open>The new block is pinned by \<open>appendNew\<close> and by the page object, and unpinned once.\<close>

definition bp_split :: "nat \<Rightarrow> int \<Rightarrow> int \<Rightarrow> bpage \<Rightarrow> ('a tx_scheme, block_id) cmd" where
  "bp_split fuel splitPos flag p =
     bnd (bp_appendNew fuel flag p) (\<lambda>newBlk.
     bnd (bp_new newBlk (bp_layout p)) (\<lambda>newPage.
     seq (bp_transferRecs fuel splitPos newPage p)
    (seq (bp_setFlag flag newPage)
    (bnd (bp_close newPage) (\<lambda>_. ret newBlk)))))"

definition bp_getChildNum :: "int \<Rightarrow> bpage \<Rightarrow> ('a tx_scheme, int) cmd" where
  "bp_getChildNum slot p = bp_getInt slot ''block'' p"

definition bp_insertDir :: "int \<Rightarrow> const \<Rightarrow> int \<Rightarrow> bpage \<Rightarrow> ('a tx_scheme, unit) cmd" where
  "bp_insertDir slot dataval blknum p =
     seq (bp_insert slot p)
    (seq (bp_setValue slot ''dataval'' dataval p) (bp_setInt slot ''block'' blknum p))"

definition bp_getDataRid :: "int \<Rightarrow> bpage \<Rightarrow> ('a tx_scheme, rid) cmd" where
  "bp_getDataRid slot p =
     bnd (bp_getInt slot ''block'' p) (\<lambda>b.
     bnd (bp_getInt slot ''id'' p) (\<lambda>i. ret \<lparr>rid_block = b, rid_slot = i\<rparr>))"

definition bp_insertLeaf :: "int \<Rightarrow> const \<Rightarrow> rid \<Rightarrow> bpage \<Rightarrow> ('a tx_scheme, unit) cmd" where
  "bp_insertLeaf slot dataval r p =
     seq (bp_insert slot p)
    (seq (bp_setValue slot ''dataval'' dataval p)
    (seq (bp_setInt slot ''block'' (rid_block r) p) (bp_setInt slot ''id'' (rid_slot r) p)))"

section \<open>Leaves\<close>

record dir_entry =
  de_dataVal :: const
  de_blockNum :: int

definition de_isNull :: "dir_entry \<Rightarrow> bool" where
  "de_isNull d \<longleftrightarrow> const_isNull (de_dataVal d)"

text \<open>The block number of a default entry is not initialized; it is read of other entries only.\<close>

definition de_null :: dir_entry where
  "de_null = \<lparr>de_dataVal = const_null, de_blockNum = 0\<rparr>"

record bleaf =
  lf_layout :: layout
  lf_key :: const
  lf_contents :: bpage
  lf_slot :: int
  lf_fileName :: string

definition lf_new :: "nat \<Rightarrow> block_id \<Rightarrow> layout \<Rightarrow> const \<Rightarrow> ('a tx_scheme, bleaf) cmd" where
  "lf_new fuel blk l key =
     bnd (bp_new blk l) (\<lambda>p.
     bnd (bp_findSlotBefore fuel key p) (\<lambda>slot.
     ret \<lparr>lf_layout = l, lf_key = key, lf_contents = p, lf_slot = slot, lf_fileName = fileName blk\<rparr>))"

definition lf_close :: "bleaf \<Rightarrow> ('a tx_scheme, bleaf) cmd" where
  "lf_close lf = bnd (bp_close (lf_contents lf)) (\<lambda>p. ret (lf\<lparr>lf_contents := p\<rparr>))"

definition lf_tryOverflow :: "bleaf \<Rightarrow> ('a tx_scheme, bool \<times> bleaf) cmd" where
  "lf_tryOverflow lf =
     bnd (bp_getDataVal 0 (lf_contents lf)) (\<lambda>firstKey.
     bnd (bp_getFlag (lf_contents lf)) (\<lambda>flag.
     bnd (lift (const_eq (lf_key lf) firstKey)) (\<lambda>eq.
     if \<not> eq \<or> flag < 0 then ret (False, lf)
     else bnd (bp_close (lf_contents lf)) (\<lambda>_.
          bnd (bp_new (BlockId (lf_fileName lf) flag) (lf_layout lf)) (\<lambda>p.
          ret (True, lf\<lparr>lf_contents := p, lf_slot := 0\<rparr>))))))"

definition lf_next :: "bleaf \<Rightarrow> ('a tx_scheme, bool \<times> bleaf) cmd" where
  "lf_next lf =
     (let lf = lf\<lparr>lf_slot := lf_slot lf + 1\<rparr>
      in bnd (bp_getNumRecs (lf_contents lf)) (\<lambda>n.
         if lf_slot lf \<ge> n then lf_tryOverflow lf
         else bnd (bp_getDataVal (lf_slot lf) (lf_contents lf)) (\<lambda>v.
              bnd (lift (const_eq v (lf_key lf))) (\<lambda>eq.
              if eq then ret (True, lf) else lf_tryOverflow lf))))"

definition lf_getDataRid :: "bleaf \<Rightarrow> ('a tx_scheme, rid) cmd" where
  "lf_getDataRid lf = bp_getDataRid (lf_slot lf) (lf_contents lf)"

fun lf_remove_loop :: "nat \<Rightarrow> nat \<Rightarrow> rid \<Rightarrow> bleaf \<Rightarrow> ('a tx_scheme, bleaf) cmd" where
  "lf_remove_loop 0 k r lf = raise OutOfFuel"
| "lf_remove_loop (Suc fuel) k r lf =
     bnd (lf_next lf) (\<lambda>(b, lf).
     if b
     then bnd (lf_getDataRid lf) (\<lambda>d.
          if rid_equals d r then seq (bp_remove k (lf_slot lf) (lf_contents lf)) (ret lf)
          else lf_remove_loop fuel k r lf)
     else ret lf)"

definition lf_remove :: "nat \<Rightarrow> rid \<Rightarrow> bleaf \<Rightarrow> ('a tx_scheme, bleaf) cmd" where
  "lf_remove fuel r lf = lf_remove_loop fuel fuel r lf"

fun lf_right :: "nat \<Rightarrow> const \<Rightarrow> int \<Rightarrow> bpage \<Rightarrow> ('a tx_scheme, int) cmd" where
  "lf_right 0 key pos p = raise OutOfFuel"
| "lf_right (Suc fuel) key pos p =
     bnd (bp_getDataVal pos p) (\<lambda>v.
     bnd (lift (const_eq v key)) (\<lambda>eq. if eq then lf_right fuel key (pos + 1) p else ret pos))"

fun lf_left :: "nat \<Rightarrow> const \<Rightarrow> int \<Rightarrow> bpage \<Rightarrow> ('a tx_scheme, int) cmd" where
  "lf_left 0 key pos p = raise OutOfFuel"
| "lf_left (Suc fuel) key pos p =
     bnd (bp_getDataVal (pos - 1) p) (\<lambda>v.
     bnd (lift (const_eq v key)) (\<lambda>eq. if eq then lf_left fuel key (pos - 1) p else ret pos))"

text \<open>\<open>insert\<close>, the case of a full page.\<close>

definition lf_split :: "nat \<Rightarrow> bleaf \<Rightarrow> ('a tx_scheme, dir_entry) cmd" where
  "lf_split fuel lf =
     (let p = lf_contents lf
      in bnd (bp_getDataVal 0 p) (\<lambda>firstKey.
         bnd (bp_getNumRecs p) (\<lambda>n.
         bnd (bp_getDataVal (n - 1) p) (\<lambda>lastKey.
         bnd (lift (const_eq lastKey firstKey)) (\<lambda>same.
         if same
         then bnd (bp_getFlag p) (\<lambda>flag.
              bnd (bp_split fuel 1 flag p) (\<lambda>newBlk.
              seq (bp_setFlag (number newBlk) p) (ret de_null)))
         else bnd (bp_getNumRecs p) (\<lambda>n.
              let splitPos = n div 2
              in bnd (bp_getDataVal splitPos p) (\<lambda>splitKey.
                 bnd (lift (const_eq splitKey firstKey)) (\<lambda>eq.
                 bnd (if eq
                      then bnd (lf_right fuel splitKey splitPos p) (\<lambda>pos.
                           bnd (bp_getDataVal pos p) (\<lambda>key. ret (pos, key)))
                      else bnd (lf_left fuel splitKey splitPos p) (\<lambda>pos. ret (pos, splitKey))) (\<lambda>(pos, key).
                 bnd (bp_split fuel pos (- 1) p) (\<lambda>newBlk.
                 ret \<lparr>de_dataVal = key, de_blockNum = number newBlk\<rparr>))))))))))"

definition lf_insert :: "nat \<Rightarrow> rid \<Rightarrow> bleaf \<Rightarrow> ('a tx_scheme, dir_entry \<times> bleaf) cmd" where
  "lf_insert fuel r lf =
     (let p = lf_contents lf
      in bnd (bp_getFlag p) (\<lambda>flag.
         bnd (if flag \<ge> 0 then bnd (bp_getDataVal 0 p) (\<lambda>v. lift (const_gt v (lf_key lf))) else ret False) (\<lambda>overflow.
         if overflow
         then bnd (bp_getDataVal 0 p) (\<lambda>firstVal.
              bnd (bp_getFlag p) (\<lambda>flag.
              bnd (bp_split fuel 0 flag p) (\<lambda>newBlk.
              seq (bp_setFlag (- 1) p)
             (seq (bp_insertLeaf 0 (lf_key lf) r p)
                  (ret (\<lparr>de_dataVal = firstVal, de_blockNum = number newBlk\<rparr>, lf\<lparr>lf_slot := 0\<rparr>))))))
         else let lf = lf\<lparr>lf_slot := lf_slot lf + 1\<rparr>
              in seq (bp_insertLeaf (lf_slot lf) (lf_key lf) r p)
                (bnd (bp_isFull p) (\<lambda>full.
                 if \<not> full then ret (de_null, lf)
                 else bnd (lf_split fuel lf) (\<lambda>d. ret (d, lf)))))))"

section \<open>Directory blocks\<close>

record bdir =
  dr_layout :: layout
  dr_contents :: bpage
  dr_fileName :: string

definition dr_new :: "block_id \<Rightarrow> layout \<Rightarrow> ('a tx_scheme, bdir) cmd" where
  "dr_new blk l = bnd (bp_new blk l) (\<lambda>p. ret \<lparr>dr_layout = l, dr_contents = p, dr_fileName = fileName blk\<rparr>)"

definition dr_close :: "bdir \<Rightarrow> ('a tx_scheme, bdir) cmd" where
  "dr_close d = bnd (bp_close (dr_contents d)) (\<lambda>p. ret (d\<lparr>dr_contents := p\<rparr>))"

definition dr_findChildBlock :: "nat \<Rightarrow> const \<Rightarrow> bdir \<Rightarrow> ('a tx_scheme, block_id) cmd" where
  "dr_findChildBlock fuel key d =
     bnd (bp_findSlotBefore fuel key (dr_contents d)) (\<lambda>slot.
     bnd (bp_getDataVal (slot + 1) (dr_contents d)) (\<lambda>v.
     bnd (lift (const_eq v key)) (\<lambda>eq.
     bnd (bp_getChildNum (if eq then slot + 1 else slot) (dr_contents d)) (\<lambda>n.
     ret (BlockId (dr_fileName d) n)))))"

fun dr_search_loop :: "nat \<Rightarrow> nat \<Rightarrow> const \<Rightarrow> block_id \<Rightarrow> bdir \<Rightarrow> ('a tx_scheme, int \<times> bdir) cmd" where
  "dr_search_loop 0 k key childBlk d = raise OutOfFuel"
| "dr_search_loop (Suc fuel) k key childBlk d =
     bnd (bp_getFlag (dr_contents d)) (\<lambda>flag.
     if flag > 0
     then bnd (bp_close (dr_contents d)) (\<lambda>_.
          bnd (bp_new childBlk (dr_layout d)) (\<lambda>p.
          let d = d\<lparr>dr_contents := p\<rparr>
          in bnd (dr_findChildBlock k key d) (\<lambda>childBlk. dr_search_loop fuel k key childBlk d)))
     else ret (number childBlk, d))"

definition dr_search :: "nat \<Rightarrow> const \<Rightarrow> bdir \<Rightarrow> ('a tx_scheme, int \<times> bdir) cmd" where
  "dr_search fuel key d = bnd (dr_findChildBlock fuel key d) (\<lambda>childBlk. dr_search_loop fuel fuel key childBlk d)"

definition dr_insertEntry :: "nat \<Rightarrow> dir_entry \<Rightarrow> bdir \<Rightarrow> ('a tx_scheme, dir_entry) cmd" where
  "dr_insertEntry fuel e d =
     (let p = dr_contents d
      in bnd (bp_findSlotBefore fuel (de_dataVal e) p) (\<lambda>slot.
         seq (bp_insertDir (1 + slot) (de_dataVal e) (de_blockNum e) p)
        (bnd (bp_isFull p) (\<lambda>full.
         if \<not> full then ret de_null
         else bnd (bp_getFlag p) (\<lambda>level.
              bnd (bp_getNumRecs p) (\<lambda>n.
              bnd (bp_getDataVal (n div 2) p) (\<lambda>splitVal.
              bnd (bp_split fuel (n div 2) level p) (\<lambda>newblk.
              ret \<lparr>de_dataVal = splitVal, de_blockNum = number newblk\<rparr>))))))))"

fun dr_insert :: "nat \<Rightarrow> nat \<Rightarrow> dir_entry \<Rightarrow> bdir \<Rightarrow> ('a tx_scheme, dir_entry) cmd" where
  "dr_insert 0 k e d = raise OutOfFuel"
| "dr_insert (Suc fuel) k e d =
     bnd (bp_getFlag (dr_contents d)) (\<lambda>flag.
     if flag = 0 then dr_insertEntry k e d
     else bnd (dr_findChildBlock k (de_dataVal e) d) (\<lambda>childBlk.
          bnd (dr_new childBlk (dr_layout d)) (\<lambda>child.
          bnd (dr_insert fuel k e child) (\<lambda>newEntry.
          bnd (dr_close child) (\<lambda>_.
          if \<not> de_isNull newEntry then dr_insertEntry k newEntry d else ret de_null)))))"

definition dr_makeNewRoot :: "nat \<Rightarrow> dir_entry \<Rightarrow> bdir \<Rightarrow> ('a tx_scheme, unit) cmd" where
  "dr_makeNewRoot fuel e d =
     (let p = dr_contents d
      in bnd (bp_getDataVal 0 p) (\<lambda>firstVal.
         bnd (bp_getFlag p) (\<lambda>level.
         bnd (bp_split fuel 0 level p) (\<lambda>newBlk.
         bnd (dr_insertEntry fuel \<lparr>de_dataVal = firstVal, de_blockNum = number newBlk\<rparr> d) (\<lambda>_.
         bnd (dr_insertEntry fuel e d) (\<lambda>_.
         bp_setFlag (level + 1) p))))))"

section \<open>The index\<close>

text \<open>
  Before the first search the leaf is a default object: its pointer to the transaction is not
  initialized, and closing it, whatever the pointer, does nothing.
\<close>

record bindex =
  bx_dirLayout :: layout
  bx_leafLayout :: layout
  bx_leafTable :: string
  bx_leaf :: "bleaf option"
  bx_rootBlk :: block_id

definition INT_MIN :: int where "INT_MIN = - (2 ^ 31)"

definition bx_new :: "nat \<Rightarrow> string \<Rightarrow> layout \<Rightarrow> ('a tx_scheme, bindex) cmd" where
  "bx_new fuel indexName leafLayout =
     (let leafTable = indexName @ ''leaf''; dirTable = indexName @ ''dir''; rootBlk = BlockId dirTable 0
      in bnd (tx_size leafTable) (\<lambda>n.
         seq (if n = 0
              then bnd (tx_append leafTable) (\<lambda>blk.
                   bnd (bp_new blk leafLayout) (\<lambda>node. bp_format fuel blk (- 1) node))
              else ret ())
        (bnd (lift (rbind (sch_add ''block'' (lay_schema leafLayout) sch_empty) (sch_add ''dataval'' (lay_schema leafLayout)))) (\<lambda>dirSchema.
         bnd (lift (lay_new dirSchema)) (\<lambda>dirLayout.
         bnd (tx_size dirTable) (\<lambda>n.
         seq (if n = 0
              then bnd (tx_append dirTable) (\<lambda>_.
                   bnd (bp_new rootBlk dirLayout) (\<lambda>node.
                   seq (bp_format fuel rootBlk 0 node)
                  (bnd (lift (sch_fieldType ''dataval'' dirSchema)) (\<lambda>ty.
                   let minVal = (if ty = INTEGER then const_int INT_MIN else const_str [])
                   in seq (bp_insertDir 0 minVal 0 node) (bnd (bp_close node) (\<lambda>_. ret ()))))))
              else ret ())
             (ret \<lparr>bx_dirLayout = dirLayout, bx_leafLayout = leafLayout, bx_leafTable = leafTable, bx_leaf = None, bx_rootBlk = rootBlk\<rparr>)))))))"

definition bx_close :: "bindex \<Rightarrow> ('a tx_scheme, bindex) cmd" where
  "bx_close x =
     (case bx_leaf x of
        None \<Rightarrow> ret x
      | Some lf \<Rightarrow> bnd (lf_close lf) (\<lambda>lf. ret (x\<lparr>bx_leaf := Some lf\<rparr>)))"

definition bx_beforeFirst :: "nat \<Rightarrow> const \<Rightarrow> bindex \<Rightarrow> ('a tx_scheme, bindex) cmd" where
  "bx_beforeFirst fuel key x =
     bnd (bx_close x) (\<lambda>x.
     bnd (dr_new (bx_rootBlk x) (bx_dirLayout x)) (\<lambda>root.
     bnd (dr_search fuel key root) (\<lambda>(blkNum, root).
     bnd (dr_close root) (\<lambda>_.
     bnd (lf_new fuel (BlockId (bx_leafTable x) blkNum) (bx_leafLayout x) key) (\<lambda>lf.
     ret (x\<lparr>bx_leaf := Some lf\<rparr>))))))"

definition bx_next :: "bindex \<Rightarrow> ('a tx_scheme, bool \<times> bindex) cmd" where
  "bx_next x =
     bnd (lift (deref (bx_leaf x))) (\<lambda>lf.
     bnd (lf_next lf) (\<lambda>(b, lf). ret (b, x\<lparr>bx_leaf := Some lf\<rparr>)))"

definition bx_getDataRid :: "bindex \<Rightarrow> ('a tx_scheme, rid) cmd" where
  "bx_getDataRid x = bnd (lift (deref (bx_leaf x))) lf_getDataRid"

definition bx_insert :: "nat \<Rightarrow> const \<Rightarrow> rid \<Rightarrow> bindex \<Rightarrow> ('a tx_scheme, bindex) cmd" where
  "bx_insert fuel dataval r x =
     bnd (bx_beforeFirst fuel dataval x) (\<lambda>x.
     bnd (lift (deref (bx_leaf x))) (\<lambda>lf.
     bnd (lf_insert fuel r lf) (\<lambda>(e, lf).
     bnd (lf_close lf) (\<lambda>lf.
     let x = x\<lparr>bx_leaf := Some lf\<rparr>
     in if de_isNull e then ret x
        else bnd (dr_new (bx_rootBlk x) (bx_dirLayout x)) (\<lambda>root.
             bnd (dr_insert fuel fuel e root) (\<lambda>newEntry.
             seq (if \<not> de_isNull newEntry then dr_makeNewRoot fuel newEntry root else ret ())
            (bnd (dr_close root) (\<lambda>_. ret x))))))))"

definition bx_remove :: "nat \<Rightarrow> const \<Rightarrow> rid \<Rightarrow> bindex \<Rightarrow> ('a tx_scheme, bindex) cmd" where
  "bx_remove fuel dataval r x =
     bnd (bx_beforeFirst fuel dataval x) (\<lambda>x.
     bnd (lift (deref (bx_leaf x))) (\<lambda>lf.
     bnd (lf_remove fuel r lf) (\<lambda>lf.
     bnd (lf_close lf) (\<lambda>lf. ret (x\<lparr>bx_leaf := Some lf\<rparr>)))))"

end
