(* ===== verification/Meta.thy ===== *)
theory Meta
  imports Materialize BTree
begin

text \<open>
  \<open>src/src/meta\<close>: the catalogs. Tables, fields, views and indexes are described by records of
  the tables \<open>tblcat\<close>, \<open>fldcat\<close>, \<open>viewcat\<close> and \<open>idxcat\<close>; statistics are counted by scanning.
\<close>

section \<open>Statistics\<close>

text \<open>The default object's numbers are not initialized.\<close>

record stat_info =
  si_numBlocks :: "int option"
  si_numRecords :: "int option"

definition si_default :: stat_info where
  "si_default = \<lparr>si_numBlocks = None, si_numRecords = None\<rparr>"

definition si_blocksAccessed :: "stat_info \<Rightarrow> int outcome" where
  "si_blocksAccessed si = deref (si_numBlocks si)"

definition si_recordsOutput :: "stat_info \<Rightarrow> int outcome" where
  "si_recordsOutput si = deref (si_numRecords si)"

definition si_distinctValues :: "string \<Rightarrow> stat_info \<Rightarrow> int outcome" where
  "si_distinctValues f si = rbind (deref (si_numRecords si)) (\<lambda>n. rbind (cdiv n 3) (\<lambda>m. ck (1 + m)))"

text \<open>The statistics manager is static: its map and its counter of calls.\<close>

record db = tmp +
  tableStats :: "(string \<times> stat_info) list"
  numCalls :: int

section \<open>Tables\<close>

definition MAX_NAME :: int where "MAX_NAME = 16"

record table_mgr =
  tm_tcatLayout :: layout
  tm_fcatLayout :: layout

definition tm_tcatSchema :: schema where
  "tm_tcatSchema = sch_addIntField ''slotsize'' (sch_addStringField ''tblname'' MAX_NAME sch_empty)"

definition tm_fcatSchema :: schema where
  "tm_fcatSchema =
     sch_addIntField ''offset'' (sch_addIntField ''length'' (sch_addIntField ''type''
       (sch_addStringField ''fldname'' MAX_NAME (sch_addStringField ''tblname'' MAX_NAME sch_empty))))"

fun tm_insertFields :: "nat \<Rightarrow> string \<Rightarrow> schema \<Rightarrow> layout \<Rightarrow> string list \<Rightarrow> tscan \<Rightarrow> ('a tx_scheme, tscan) cmd" where
  "tm_insertFields fuel tableName sch l [] fcat = ret fcat"
| "tm_insertFields fuel tableName sch l (f # fs) fcat =
     bnd (ts_insert fuel fcat) (\<lambda>fcat.
     seq (ts_setString ''tblname'' tableName fcat)
    (seq (ts_setString ''fldname'' f fcat)
    (bnd (lift (sch_fieldType f sch)) (\<lambda>ty.
     seq (ts_setInt ''type'' ty fcat)
    (bnd (lift (sch_fieldLength f sch)) (\<lambda>len.
     seq (ts_setInt ''length'' len fcat)
    (bnd (lift (lay_offset f l)) (\<lambda>o'.
     seq (ts_setInt ''offset'' o' fcat)
         (tm_insertFields fuel tableName sch l fs fcat)))))))))"

definition tm_createTable :: "nat \<Rightarrow> table_mgr \<Rightarrow> string \<Rightarrow> schema \<Rightarrow> ('a tx_scheme, unit) cmd" where
  "tm_createTable fuel tm tableName sch =
     bnd (lift (lay_new sch)) (\<lambda>l.
     bnd (ts_new fuel ''tblcat'' (tm_tcatLayout tm)) (\<lambda>tcat.
     bnd (ts_insert fuel tcat) (\<lambda>tcat.
     seq (ts_setString ''tblname'' tableName tcat)
    (seq (ts_setInt ''slotsize'' (lay_slotSize l) tcat)
    (seq (ts_close tcat)
    (bnd (ts_new fuel ''fldcat'' (tm_fcatLayout tm)) (\<lambda>fcat.
     bnd (tm_insertFields fuel tableName sch l (sch_fields sch) fcat) (\<lambda>fcat. ts_close fcat))))))))"

definition tm_new :: "nat \<Rightarrow> bool \<Rightarrow> ('a tx_scheme, table_mgr) cmd" where
  "tm_new fuel newDb =
     bnd (lift (lay_new tm_tcatSchema)) (\<lambda>tl.
     bnd (lift (lay_new tm_fcatSchema)) (\<lambda>fl.
     let tm = \<lparr>tm_tcatLayout = tl, tm_fcatLayout = fl\<rparr>
     in seq (if newDb
             then seq (tm_createTable fuel tm ''tblcat'' tm_tcatSchema) (tm_createTable fuel tm ''fldcat'' tm_fcatSchema)
             else ret ())
            (ret tm)))"

fun tm_findSize :: "nat \<Rightarrow> nat \<Rightarrow> string \<Rightarrow> tscan \<Rightarrow> ('a tx_scheme, int \<times> tscan) cmd" where
  "tm_findSize 0 k tableName tcat = raise OutOfFuel"
| "tm_findSize (Suc fuel) k tableName tcat =
     bnd (ts_next k tcat) (\<lambda>(b, tcat).
     if b
     then bnd (ts_getString ''tblname'' tcat) (\<lambda>n.
          if n = tableName then bnd (ts_getInt ''slotsize'' tcat) (\<lambda>size. ret (size, tcat))
          else tm_findSize fuel k tableName tcat)
     else ret (- 1, tcat))"

fun tm_findFields ::
  "nat \<Rightarrow> nat \<Rightarrow> string \<Rightarrow> schema \<Rightarrow> (string \<times> int) list \<Rightarrow> tscan \<Rightarrow> ('a tx_scheme, schema \<times> (string \<times> int) list \<times> tscan) cmd" where
  "tm_findFields 0 k tableName sch offs fcat = raise OutOfFuel"
| "tm_findFields (Suc fuel) k tableName sch offs fcat =
     bnd (ts_next k fcat) (\<lambda>(b, fcat).
     if b
     then bnd (ts_getString ''tblname'' fcat) (\<lambda>n.
          if n = tableName
          then bnd (ts_getString ''fldname'' fcat) (\<lambda>f.
               bnd (ts_getInt ''type'' fcat) (\<lambda>ty.
               bnd (ts_getInt ''length'' fcat) (\<lambda>len.
               bnd (ts_getInt ''offset'' fcat) (\<lambda>o'.
               tm_findFields fuel k tableName
                 (if ty = INTEGER then sch_addIntField f sch
                  else if ty = BOOLEAN then sch_addBoolField f sch
                  else if ty = VARCHAR then sch_addStringField f len sch
                  else sch)
                 (om_put f o' offs) fcat))))
          else tm_findFields fuel k tableName sch offs fcat)
     else ret (sch, offs, fcat))"

definition tm_getLayout :: "nat \<Rightarrow> table_mgr \<Rightarrow> string \<Rightarrow> ('a tx_scheme, layout) cmd" where
  "tm_getLayout fuel tm tableName =
     bnd (ts_new fuel ''tblcat'' (tm_tcatLayout tm)) (\<lambda>tcat.
     bnd (tm_findSize fuel fuel tableName tcat) (\<lambda>(size, tcat).
     seq (ts_close tcat)
    (bnd (ts_new fuel ''fldcat'' (tm_fcatLayout tm)) (\<lambda>fcat.
     bnd (tm_findFields fuel fuel tableName sch_empty [] fcat) (\<lambda>(sch, offs, fcat).
     seq (ts_close fcat) (ret \<lparr>lay_schema = sch, lay_offsets = offs, lay_slotSize = size\<rparr>))))))"

section \<open>Views\<close>

definition MAX_VIEW_DEF :: int where "MAX_VIEW_DEF = 100"

definition vm_new :: "nat \<Rightarrow> bool \<Rightarrow> table_mgr \<Rightarrow> ('a tx_scheme, unit) cmd" where
  "vm_new fuel newDb tm =
     (if newDb
      then tm_createTable fuel tm ''viewcat''
             (sch_addStringField ''viewdef'' MAX_VIEW_DEF (sch_addStringField ''viewname'' MAX_NAME sch_empty))
      else ret ())"

definition vm_createView :: "nat \<Rightarrow> table_mgr \<Rightarrow> string \<Rightarrow> string \<Rightarrow> ('a tx_scheme, unit) cmd" where
  "vm_createView fuel tm viewName vdef =
     bnd (tm_getLayout fuel tm ''viewcat'') (\<lambda>l.
     bnd (ts_new fuel ''viewcat'' l) (\<lambda>ts.
     bnd (ts_insert fuel ts) (\<lambda>ts.
     seq (ts_setString ''viewname'' viewName ts)
    (seq (ts_setString ''viewdef'' vdef ts) (ts_close ts)))))"

fun vm_find :: "nat \<Rightarrow> nat \<Rightarrow> string \<Rightarrow> tscan \<Rightarrow> ('a tx_scheme, string \<times> tscan) cmd" where
  "vm_find 0 k viewName ts = raise OutOfFuel"
| "vm_find (Suc fuel) k viewName ts =
     bnd (ts_next k ts) (\<lambda>(b, ts).
     if b
     then bnd (ts_getString ''viewname'' ts) (\<lambda>n.
          if n = viewName then bnd (ts_getString ''viewdef'' ts) (\<lambda>d. ret (d, ts)) else vm_find fuel k viewName ts)
     else ret ([], ts))"

definition vm_getViewDef :: "nat \<Rightarrow> table_mgr \<Rightarrow> string \<Rightarrow> ('a tx_scheme, string) cmd" where
  "vm_getViewDef fuel tm viewName =
     bnd (tm_getLayout fuel tm ''viewcat'') (\<lambda>l.
     bnd (ts_new fuel ''viewcat'' l) (\<lambda>ts.
     bnd (vm_find fuel fuel viewName ts) (\<lambda>(d, ts). seq (ts_close ts) (ret d))))"

section \<open>Counting\<close>

fun sm_count :: "nat \<Rightarrow> nat \<Rightarrow> int \<Rightarrow> int \<Rightarrow> tscan \<Rightarrow> ('a tx_scheme, stat_info \<times> tscan) cmd" where
  "sm_count 0 k numBlocks numRecords ts = raise OutOfFuel"
| "sm_count (Suc fuel) k numBlocks numRecords ts =
     bnd (ts_next k ts) (\<lambda>(b, ts).
     if b
     then bnd (ts_getRid ts) (\<lambda>r. sm_count fuel k (rid_block r + 1) (numRecords + 1) ts)
     else ret (\<lparr>si_numBlocks = Some numBlocks, si_numRecords = Some numRecords\<rparr>, ts))"

definition sm_calcTableStats :: "nat \<Rightarrow> string \<Rightarrow> layout \<Rightarrow> ('a tx_scheme, stat_info) cmd" where
  "sm_calcTableStats fuel tableName l =
     bnd (ts_new fuel tableName l) (\<lambda>ts.
     bnd (sm_count fuel fuel 0 0 ts) (\<lambda>(si, ts). seq (ts_close ts) (ret si)))"

fun sm_refresh_loop :: "nat \<Rightarrow> nat \<Rightarrow> table_mgr \<Rightarrow> tscan \<Rightarrow> ('a db_scheme, tscan) cmd" where
  "sm_refresh_loop 0 k tm ts = raise OutOfFuel"
| "sm_refresh_loop (Suc fuel) k tm ts =
     bnd (ts_next k ts) (\<lambda>(b, ts).
     if b
     then bnd (ts_getString ''tblname'' ts) (\<lambda>n.
          bnd (tm_getLayout k tm n) (\<lambda>l.
          bnd (sm_calcTableStats k n l) (\<lambda>si.
          seq (upd (\<lambda>s. s\<lparr>tableStats := om_put n si (tableStats s)\<rparr>))
              (sm_refresh_loop fuel k tm ts))))
     else ret ts)"

definition sm_refreshStatistics :: "nat \<Rightarrow> table_mgr \<Rightarrow> ('a db_scheme, unit) cmd" where
  "sm_refreshStatistics fuel tm =
     seq (upd (\<lambda>s. s\<lparr>tableStats := [], numCalls := 0\<rparr>))
    (bnd (tm_getLayout fuel tm ''tblcat'') (\<lambda>l.
     bnd (ts_new fuel ''tblcat'' l) (\<lambda>ts.
     bnd (sm_refresh_loop fuel fuel tm ts) (\<lambda>ts. ts_close ts))))"

text \<open>A table that the map does not have gets the default object; it is in the map from then on.\<close>

definition sm_getStatInfo :: "nat \<Rightarrow> table_mgr \<Rightarrow> string \<Rightarrow> layout \<Rightarrow> ('a db_scheme, stat_info) cmd" where
  "sm_getStatInfo fuel tm tableName l =
     seq (upd (\<lambda>s. s\<lparr>numCalls := numCalls s + 1\<rparr>))
    (bnd (gets numCalls) (\<lambda>n.
     seq (if n > 100 then sm_refreshStatistics fuel tm else ret ())
    (bnd (gets (\<lambda>s. map_of (tableStats s) tableName)) (\<lambda>it.
     if it \<noteq> None
     then bnd (sm_calcTableStats fuel tableName l) (\<lambda>si.
          seq (upd (\<lambda>s. s\<lparr>tableStats := om_put tableName si (tableStats s)\<rparr>)) (ret si))
     else seq (upd (\<lambda>s. s\<lparr>tableStats := om_put tableName si_default (tableStats s)\<rparr>)) (ret si_default)))))"

section \<open>Indexes\<close>

record index_info =
  ix_indexName :: string
  ix_fieldName :: string
  ix_schema :: schema
  ix_statInfo :: stat_info
  ix_layout :: layout

definition ix_createIndexLayout :: "string \<Rightarrow> schema \<Rightarrow> layout outcome" where
  "ix_createIndexLayout f sch =
     (let indexSchema = sch_addIntField ''id'' (sch_addIntField ''block'' sch_empty)
      in rbind (sch_fieldType f sch) (\<lambda>ty.
         rbind (if ty = INTEGER then Inr (sch_addIntField ''dataval'' indexSchema)
                else rbind (sch_fieldLength f sch) (\<lambda>n. Inr (sch_addStringField ''dataval'' n indexSchema))) lay_new))"

definition ix_new :: "string \<Rightarrow> string \<Rightarrow> schema \<Rightarrow> stat_info \<Rightarrow> index_info outcome" where
  "ix_new indexName f sch si =
     rbind (ix_createIndexLayout f sch) (\<lambda>l.
     Inr \<lparr>ix_indexName = indexName, ix_fieldName = f, ix_schema = sch, ix_statInfo = si, ix_layout = l\<rparr>)"

definition ix_open :: "nat \<Rightarrow> index_info \<Rightarrow> ('a tx_scheme, bindex) cmd" where
  "ix_open fuel ix = bx_new fuel (ix_indexName ix) (ix_layout ix)"

definition ix_recordsOutput :: "index_info \<Rightarrow> int outcome" where
  "ix_recordsOutput ix =
     rbind (si_recordsOutput (ix_statInfo ix)) (\<lambda>r.
     rbind (si_distinctValues (ix_fieldName ix) (ix_statInfo ix)) (cdiv r))"

definition ix_distinctValues :: "string \<Rightarrow> index_info \<Rightarrow> int outcome" where
  "ix_distinctValues f ix = (if ix_fieldName ix = f then Inr 1 else si_distinctValues f (ix_statInfo ix))"

definition ix_isNull :: "index_info \<Rightarrow> bool" where
  "ix_isNull ix \<longleftrightarrow> ix_indexName ix = [] \<or> ix_fieldName ix = []"

definition im_new :: "nat \<Rightarrow> bool \<Rightarrow> table_mgr \<Rightarrow> ('a tx_scheme, layout) cmd" where
  "im_new fuel newDb tm =
     seq (if newDb
          then tm_createTable fuel tm ''idxcat''
                 (sch_addStringField ''fieldname'' MAX_NAME (sch_addStringField ''tablename'' MAX_NAME
                   (sch_addStringField ''indexname'' MAX_NAME sch_empty)))
          else ret ())
         (tm_getLayout fuel tm ''idxcat'')"

definition im_createIndex :: "nat \<Rightarrow> layout \<Rightarrow> string \<Rightarrow> string \<Rightarrow> string \<Rightarrow> ('a tx_scheme, unit) cmd" where
  "im_createIndex fuel l indexName tableName f =
     bnd (ts_new fuel ''idxcat'' l) (\<lambda>ts.
     bnd (ts_insert fuel ts) (\<lambda>ts.
     seq (ts_setString ''indexname'' indexName ts)
    (seq (ts_setString ''tablename'' tableName ts)
    (seq (ts_setString ''fieldname'' f ts) (ts_close ts)))))"

fun im_find ::
  "nat \<Rightarrow> nat \<Rightarrow> table_mgr \<Rightarrow> string \<Rightarrow> (string \<times> index_info) list \<Rightarrow> tscan \<Rightarrow>
   ('a db_scheme, (string \<times> index_info) list \<times> tscan) cmd" where
  "im_find 0 k tm tableName m ts = raise OutOfFuel"
| "im_find (Suc fuel) k tm tableName m ts =
     bnd (ts_next k ts) (\<lambda>(b, ts).
     if b
     then bnd (ts_getString ''tablename'' ts) (\<lambda>n.
          if n = tableName
          then bnd (ts_getString ''indexname'' ts) (\<lambda>i.
               bnd (ts_getString ''fieldname'' ts) (\<lambda>f.
               bnd (tm_getLayout k tm tableName) (\<lambda>tl.
               bnd (sm_getStatInfo k tm tableName tl) (\<lambda>si.
               bnd (lift (ix_new i f (lay_schema tl) si)) (\<lambda>ix.
               im_find fuel k tm tableName (om_put f ix m) ts)))))
          else im_find fuel k tm tableName m ts)
     else ret (m, ts))"

definition im_getIndexInfo :: "nat \<Rightarrow> table_mgr \<Rightarrow> layout \<Rightarrow> string \<Rightarrow> ('a db_scheme, (string \<times> index_info) list) cmd" where
  "im_getIndexInfo fuel tm l tableName =
     bnd (ts_new fuel ''idxcat'' l) (\<lambda>ts.
     bnd (im_find fuel fuel tm tableName [] ts) (\<lambda>(m, ts). seq (ts_close ts) (ret m)))"

section \<open>The metadata manager\<close>

record meta_mgr =
  mm_tableMgr :: table_mgr
  mm_idxLayout :: layout

definition mm_new :: "nat \<Rightarrow> bool \<Rightarrow> ('a db_scheme, meta_mgr) cmd" where
  "mm_new fuel newDb =
     bnd (tm_new fuel newDb) (\<lambda>tm.
     seq (vm_new fuel newDb tm)
    (seq (sm_refreshStatistics fuel tm)
    (bnd (im_new fuel newDb tm) (\<lambda>l. ret \<lparr>mm_tableMgr = tm, mm_idxLayout = l\<rparr>))))"

definition mm_createTable :: "nat \<Rightarrow> meta_mgr \<Rightarrow> string \<Rightarrow> schema \<Rightarrow> ('a tx_scheme, unit) cmd" where
  "mm_createTable fuel mm = tm_createTable fuel (mm_tableMgr mm)"

definition mm_getLayout :: "nat \<Rightarrow> meta_mgr \<Rightarrow> string \<Rightarrow> ('a tx_scheme, layout) cmd" where
  "mm_getLayout fuel mm = tm_getLayout fuel (mm_tableMgr mm)"

definition mm_createView :: "nat \<Rightarrow> meta_mgr \<Rightarrow> string \<Rightarrow> string \<Rightarrow> ('a tx_scheme, unit) cmd" where
  "mm_createView fuel mm = vm_createView fuel (mm_tableMgr mm)"

definition mm_getViewDef :: "nat \<Rightarrow> meta_mgr \<Rightarrow> string \<Rightarrow> ('a tx_scheme, string) cmd" where
  "mm_getViewDef fuel mm = vm_getViewDef fuel (mm_tableMgr mm)"

definition mm_createIndex :: "nat \<Rightarrow> meta_mgr \<Rightarrow> string \<Rightarrow> string \<Rightarrow> string \<Rightarrow> ('a tx_scheme, unit) cmd" where
  "mm_createIndex fuel mm = im_createIndex fuel (mm_idxLayout mm)"

definition mm_getIndexInfo :: "nat \<Rightarrow> meta_mgr \<Rightarrow> string \<Rightarrow> ('a db_scheme, (string \<times> index_info) list) cmd" where
  "mm_getIndexInfo fuel mm = im_getIndexInfo fuel (mm_tableMgr mm) (mm_idxLayout mm)"

definition mm_getStatInfo :: "nat \<Rightarrow> meta_mgr \<Rightarrow> string \<Rightarrow> layout \<Rightarrow> ('a db_scheme, stat_info) cmd" where
  "mm_getStatInfo fuel mm = sm_getStatInfo fuel (mm_tableMgr mm)"

end
