(* ===== verification/Plans.thy ===== *)
theory Plans
  imports Meta
begin

text \<open>
  \<open>src/src/plan\<close> and the plan classes of \<open>src/src/materialize\<close>: a query plan is a tree; opening
  it makes a tree of scans. A call of a virtual function of a scan is a call through the
  table \<open>vt d\<close> of functions, where \<open>d\<close> bounds the depth of the tree.
\<close>

section \<open>Trees of scans\<close>

datatype scan =
    TableS tscan
  | SelectS "scan sel_scan"
  | ProjectS "scan proj_scan"
  | ProductS "(scan, scan) prod_scan"
  | SortS sort_scan
  | JoinS "scan join_scan"
  | GroupS "scan group_scan"

definition wrap :: "('c \<Rightarrow> scan) \<Rightarrow> ('s, 'c) cmd \<Rightarrow> ('s, scan) cmd" where
  "wrap C m = bnd m (\<lambda>c. ret (C c))"

definition wrap2 :: "('c \<Rightarrow> scan) \<Rightarrow> ('s, bool \<times> 'c) cmd \<Rightarrow> ('s, bool \<times> scan) cmd" where
  "wrap2 C m = bnd m (\<lambda>(b, c). ret (b, C c))"

type_synonym 'a vtable = "('a tx_scheme, scan) scan_ops"

definition vt_beforeFirst :: "nat \<Rightarrow> 'a vtable \<Rightarrow> scan \<Rightarrow> ('a tx_scheme, scan) cmd" where
  "vt_beforeFirst k v s =
     (case s of
        TableS x \<Rightarrow> wrap TableS (op_beforeFirst (ts_ops k) x)
      | SelectS x \<Rightarrow> wrap SelectS (op_beforeFirst (sel_ops k v) x)
      | ProjectS x \<Rightarrow> wrap ProjectS (op_beforeFirst (proj_ops v) x)
      | ProductS x \<Rightarrow> wrap ProductS (op_beforeFirst (prod_ops v v) x)
      | SortS x \<Rightarrow> wrap SortS (op_beforeFirst (so_ops k) x)
      | JoinS x \<Rightarrow> wrap JoinS (op_beforeFirst (mj_ops k v) x)
      | GroupS x \<Rightarrow> wrap GroupS (op_beforeFirst (gb_ops k v) x))"

definition vt_next :: "nat \<Rightarrow> 'a vtable \<Rightarrow> scan \<Rightarrow> ('a tx_scheme, bool \<times> scan) cmd" where
  "vt_next k v s =
     (case s of
        TableS x \<Rightarrow> wrap2 TableS (op_next (ts_ops k) x)
      | SelectS x \<Rightarrow> wrap2 SelectS (op_next (sel_ops k v) x)
      | ProjectS x \<Rightarrow> wrap2 ProjectS (op_next (proj_ops v) x)
      | ProductS x \<Rightarrow> wrap2 ProductS (op_next (prod_ops v v) x)
      | SortS x \<Rightarrow> wrap2 SortS (op_next (so_ops k) x)
      | JoinS x \<Rightarrow> wrap2 JoinS (op_next (mj_ops k v) x)
      | GroupS x \<Rightarrow> wrap2 GroupS (op_next (gb_ops k v) x))"

definition vt_getInt :: "nat \<Rightarrow> 'a vtable \<Rightarrow> string \<Rightarrow> scan \<Rightarrow> ('a tx_scheme, int) cmd" where
  "vt_getInt k v f s =
     (case s of
        TableS x \<Rightarrow> op_getInt (ts_ops k) f x
      | SelectS x \<Rightarrow> op_getInt (sel_ops k v) f x
      | ProjectS x \<Rightarrow> op_getInt (proj_ops v) f x
      | ProductS x \<Rightarrow> op_getInt (prod_ops v v) f x
      | SortS x \<Rightarrow> op_getInt (so_ops k) f x
      | JoinS x \<Rightarrow> op_getInt (mj_ops k v) f x
      | GroupS x \<Rightarrow> op_getInt (gb_ops k v) f x)"

definition vt_getBool :: "nat \<Rightarrow> 'a vtable \<Rightarrow> string \<Rightarrow> scan \<Rightarrow> ('a tx_scheme, bool) cmd" where
  "vt_getBool k v f s =
     (case s of
        TableS x \<Rightarrow> op_getBool (ts_ops k) f x
      | SelectS x \<Rightarrow> op_getBool (sel_ops k v) f x
      | ProjectS x \<Rightarrow> op_getBool (proj_ops v) f x
      | ProductS x \<Rightarrow> op_getBool (prod_ops v v) f x
      | SortS x \<Rightarrow> op_getBool (so_ops k) f x
      | JoinS x \<Rightarrow> op_getBool (mj_ops k v) f x
      | GroupS x \<Rightarrow> op_getBool (gb_ops k v) f x)"

definition vt_getString :: "nat \<Rightarrow> 'a vtable \<Rightarrow> string \<Rightarrow> scan \<Rightarrow> ('a tx_scheme, string) cmd" where
  "vt_getString k v f s =
     (case s of
        TableS x \<Rightarrow> op_getString (ts_ops k) f x
      | SelectS x \<Rightarrow> op_getString (sel_ops k v) f x
      | ProjectS x \<Rightarrow> op_getString (proj_ops v) f x
      | ProductS x \<Rightarrow> op_getString (prod_ops v v) f x
      | SortS x \<Rightarrow> op_getString (so_ops k) f x
      | JoinS x \<Rightarrow> op_getString (mj_ops k v) f x
      | GroupS x \<Rightarrow> op_getString (gb_ops k v) f x)"

definition vt_getValue :: "nat \<Rightarrow> 'a vtable \<Rightarrow> string \<Rightarrow> scan \<Rightarrow> ('a tx_scheme, const) cmd" where
  "vt_getValue k v f s =
     (case s of
        TableS x \<Rightarrow> op_getValue (ts_ops k) f x
      | SelectS x \<Rightarrow> op_getValue (sel_ops k v) f x
      | ProjectS x \<Rightarrow> op_getValue (proj_ops v) f x
      | ProductS x \<Rightarrow> op_getValue (prod_ops v v) f x
      | SortS x \<Rightarrow> op_getValue (so_ops k) f x
      | JoinS x \<Rightarrow> op_getValue (mj_ops k v) f x
      | GroupS x \<Rightarrow> op_getValue (gb_ops k v) f x)"

definition vt_hasField :: "nat \<Rightarrow> 'a vtable \<Rightarrow> string \<Rightarrow> scan \<Rightarrow> bool outcome" where
  "vt_hasField k v f s =
     (case s of
        TableS x \<Rightarrow> Inr (ts_hasField f x)
      | SelectS x \<Rightarrow> op_hasField (sel_ops k v) f x
      | ProjectS x \<Rightarrow> op_hasField (proj_ops v) f x
      | ProductS x \<Rightarrow> op_hasField (prod_ops v v) f x
      | SortS x \<Rightarrow> so_hasField f x
      | JoinS x \<Rightarrow> op_hasField (mj_ops k v) f x
      | GroupS x \<Rightarrow> gb_hasField f x)"

definition vt_close :: "nat \<Rightarrow> 'a vtable \<Rightarrow> scan \<Rightarrow> ('a tx_scheme, unit) cmd" where
  "vt_close k v s =
     (case s of
        TableS x \<Rightarrow> op_close (ts_ops k) x
      | SelectS x \<Rightarrow> op_close (sel_ops k v) x
      | ProjectS x \<Rightarrow> op_close (proj_ops v) x
      | ProductS x \<Rightarrow> op_close (prod_ops v v) x
      | SortS x \<Rightarrow> op_close (so_ops k) x
      | JoinS x \<Rightarrow> op_close (mj_ops k v) x
      | GroupS x \<Rightarrow> op_close (gb_ops k v) x)"

text \<open>Table scans and select scans are update scans.\<close>

definition vt_update :: "scan \<Rightarrow> bool" where
  "vt_update s = (case s of TableS x \<Rightarrow> True | SelectS x \<Rightarrow> True | _ \<Rightarrow> False)"

definition vt_setInt :: "nat \<Rightarrow> 'a vtable \<Rightarrow> string \<Rightarrow> int \<Rightarrow> scan \<Rightarrow> ('a tx_scheme, unit) cmd" where
  "vt_setInt k v f x s =
     (case s of TableS t \<Rightarrow> ts_setInt f x t | SelectS t \<Rightarrow> op_setInt (sel_ops k v) f x t | _ \<Rightarrow> raise Undef)"

definition vt_setString :: "nat \<Rightarrow> 'a vtable \<Rightarrow> string \<Rightarrow> string \<Rightarrow> scan \<Rightarrow> ('a tx_scheme, unit) cmd" where
  "vt_setString k v f x s =
     (case s of TableS t \<Rightarrow> ts_setString f x t | SelectS t \<Rightarrow> op_setString (sel_ops k v) f x t | _ \<Rightarrow> raise Undef)"

definition vt_setValue :: "nat \<Rightarrow> 'a vtable \<Rightarrow> string \<Rightarrow> const \<Rightarrow> scan \<Rightarrow> ('a tx_scheme, unit) cmd" where
  "vt_setValue k v f x s =
     (case s of TableS t \<Rightarrow> ts_setValue f x t | SelectS t \<Rightarrow> op_setValue (sel_ops k v) f x t | _ \<Rightarrow> raise Undef)"

definition vt_insert :: "nat \<Rightarrow> 'a vtable \<Rightarrow> scan \<Rightarrow> ('a tx_scheme, scan) cmd" where
  "vt_insert k v s =
     (case s of TableS t \<Rightarrow> wrap TableS (ts_insert k t) | SelectS t \<Rightarrow> wrap SelectS (op_insert (sel_ops k v) t) | _ \<Rightarrow> raise Undef)"

definition vt_remove :: "nat \<Rightarrow> 'a vtable \<Rightarrow> scan \<Rightarrow> ('a tx_scheme, unit) cmd" where
  "vt_remove k v s =
     (case s of TableS t \<Rightarrow> ts_remove t | SelectS t \<Rightarrow> op_remove (sel_ops k v) t | _ \<Rightarrow> raise Undef)"

definition vt_moveToRid :: "nat \<Rightarrow> 'a vtable \<Rightarrow> rid \<Rightarrow> scan \<Rightarrow> ('a tx_scheme, scan) cmd" where
  "vt_moveToRid k v r s =
     (case s of TableS t \<Rightarrow> wrap TableS (ts_moveToRid r t) | SelectS t \<Rightarrow> wrap SelectS (op_moveToRid (sel_ops k v) r t)
      | _ \<Rightarrow> raise Undef)"

definition vt_getRid :: "nat \<Rightarrow> 'a vtable \<Rightarrow> scan \<Rightarrow> ('a tx_scheme, rid) cmd" where
  "vt_getRid k v s =
     (case s of TableS t \<Rightarrow> ts_getRid t | SelectS t \<Rightarrow> op_getRid (sel_ops k v) t | _ \<Rightarrow> raise Undef)"

text \<open>A call deeper than the bound is no behaviour of the code.\<close>

definition vt_none :: "'a vtable" where
  "vt_none =
     \<lparr>op_beforeFirst = (\<lambda>_. raise OutOfFuel), op_next = (\<lambda>_. raise OutOfFuel), op_getInt = (\<lambda>_ _. raise OutOfFuel),
      op_getBool = (\<lambda>_ _. raise OutOfFuel), op_getString = (\<lambda>_ _. raise OutOfFuel), op_getValue = (\<lambda>_ _. raise OutOfFuel),
      op_hasField = (\<lambda>_ _. Inl OutOfFuel), op_close = (\<lambda>_. raise OutOfFuel), op_update = vt_update,
      op_setInt = (\<lambda>_ _ _. raise OutOfFuel), op_setString = (\<lambda>_ _ _. raise OutOfFuel),
      op_setValue = (\<lambda>_ _ _. raise OutOfFuel), op_insert = (\<lambda>_. raise OutOfFuel), op_remove = (\<lambda>_. raise OutOfFuel),
      op_moveToRid = (\<lambda>_ _. raise OutOfFuel), op_getRid = (\<lambda>_. raise OutOfFuel)\<rparr>"

primrec vt :: "nat \<Rightarrow> nat \<Rightarrow> 'a vtable" where
  "vt k 0 = vt_none"
| "vt k (Suc d) =
     \<lparr>op_beforeFirst = vt_beforeFirst k (vt k d), op_next = vt_next k (vt k d), op_getInt = vt_getInt k (vt k d),
      op_getBool = vt_getBool k (vt k d), op_getString = vt_getString k (vt k d), op_getValue = vt_getValue k (vt k d),
      op_hasField = vt_hasField k (vt k d), op_close = vt_close k (vt k d), op_update = vt_update,
      op_setInt = vt_setInt k (vt k d), op_setString = vt_setString k (vt k d), op_setValue = vt_setValue k (vt k d),
      op_insert = vt_insert k (vt k d), op_remove = vt_remove k (vt k d), op_moveToRid = vt_moveToRid k (vt k d),
      op_getRid = vt_getRid k (vt k d)\<rparr>"

section \<open>Trees of plans\<close>

text \<open>The schema that a constructor computes is kept in the node.\<close>

datatype plan =
    TablePlan string layout stat_info
  | SelectPlan plan pred
  | ProjectPlan plan schema
  | ProductPlan plan plan schema
  | MaterializePlan plan
  | SortPlan plan "string list" schema
  | GroupByPlan plan "string list" "agg list" schema
  | MergeJoinPlan plan plan string string schema

fun pl_schema :: "plan \<Rightarrow> schema" where
  "pl_schema (TablePlan n l si) = lay_schema l"
| "pl_schema (SelectPlan p pr) = pl_schema p"
| "pl_schema (ProjectPlan p sch) = sch"
| "pl_schema (ProductPlan p1 p2 sch) = sch"
| "pl_schema (MaterializePlan p) = pl_schema p"
| "pl_schema (SortPlan p flds sch) = sch"
| "pl_schema (GroupByPlan p flds aggs sch) = sch"
| "pl_schema (MergeJoinPlan p1 p2 f1 f2 sch) = sch"

definition table_plan :: "nat \<Rightarrow> meta_mgr \<Rightarrow> string \<Rightarrow> ('a db_scheme, plan) cmd" where
  "table_plan k mm n =
     bnd (mm_getLayout k mm n) (\<lambda>l.
     bnd (mm_getStatInfo k mm n l) (\<lambda>si. ret (TablePlan n l si)))"

definition project_plan :: "plan \<Rightarrow> string list \<Rightarrow> plan outcome" where
  "project_plan p flds = rbind (sch_add_list flds (pl_schema p) sch_empty) (\<lambda>sch. Inr (ProjectPlan p sch))"

definition product_plan :: "plan \<Rightarrow> plan \<Rightarrow> plan outcome" where
  "product_plan p1 p2 =
     rbind (sch_addAll (pl_schema p1) sch_empty) (\<lambda>sch.
     rbind (sch_addAll (pl_schema p2) sch) (\<lambda>sch. Inr (ProductPlan p1 p2 sch)))"

definition sort_plan :: "plan \<Rightarrow> string list \<Rightarrow> plan" where
  "sort_plan p flds = SortPlan p flds (pl_schema p)"

definition group_plan :: "plan \<Rightarrow> string list \<Rightarrow> agg list \<Rightarrow> plan outcome" where
  "group_plan p flds aggs =
     (let sp = sort_plan p flds
      in rbind (sch_add_list flds (pl_schema sp) sch_empty) (\<lambda>sch.
         Inr (GroupByPlan sp flds aggs (fold (\<lambda>a. sch_addIntField (ag_fieldName a)) aggs sch))))"

definition join_plan :: "plan \<Rightarrow> plan \<Rightarrow> string \<Rightarrow> string \<Rightarrow> plan outcome" where
  "join_plan p1 p2 f1 f2 =
     rbind (sch_addAll (pl_schema p1) sch_empty) (\<lambda>sch.
     rbind (sch_addAll (pl_schema p2) sch) (\<lambda>sch.
     Inr (MergeJoinPlan (sort_plan p1 [f1]) (sort_plan p2 [f2]) f1 f2 sch)))"

section \<open>Estimates\<close>

text \<open>The loop of \<open>recordsOutput\<close> over the group fields.\<close>

fun num_groups :: "(string \<Rightarrow> int outcome) \<Rightarrow> string list \<Rightarrow> int \<Rightarrow> int outcome" where
  "num_groups dv [] n = Inr n"
| "num_groups dv (f # fs) n = rbind (dv f) (\<lambda>m. rbind (ck (n * m)) (num_groups dv fs))"

fun pl_distinctValues :: "plan \<Rightarrow> string \<Rightarrow> int outcome" where
  "pl_distinctValues (TablePlan n l si) f = si_distinctValues f si"
| "pl_distinctValues (SelectPlan p pr) f =
     (if \<not> const_isNull (pr_equatesWithConstant f pr) then Inr 1
      else let g = pr_equatesWithField f pr
           in if g \<noteq> []
              then rbind (pl_distinctValues p g) (\<lambda>a. rbind (pl_distinctValues p g) (\<lambda>b. Inr (min a b)))
              else pl_distinctValues p f)"
| "pl_distinctValues (ProjectPlan p sch) f = pl_distinctValues p f"
| "pl_distinctValues (ProductPlan p1 p2 sch) f =
     (if sch_hasField f (pl_schema p1) then pl_distinctValues p1 f else pl_distinctValues p2 f)"
| "pl_distinctValues (MaterializePlan p) f = pl_distinctValues p f"
| "pl_distinctValues (SortPlan p flds sch) f = pl_distinctValues p f"
| "pl_distinctValues (GroupByPlan p flds aggs sch) f =
     (if sch_hasField f (pl_schema p) then pl_distinctValues p f else num_groups (pl_distinctValues p) flds 1)"
| "pl_distinctValues (MergeJoinPlan p1 p2 f1 f2 sch) f =
     (if sch_hasField f (pl_schema p1) then pl_distinctValues p1 f else pl_distinctValues p2 f)"

fun pl_recordsOutput :: "plan \<Rightarrow> int outcome" where
  "pl_recordsOutput (TablePlan n l si) = si_recordsOutput si"
| "pl_recordsOutput (SelectPlan p pr) =
     rbind (pl_recordsOutput p) (\<lambda>r. rbind (pr_reductionFactor (pl_distinctValues p) pr) (cdiv r))"
| "pl_recordsOutput (ProjectPlan p sch) = pl_recordsOutput p"
| "pl_recordsOutput (ProductPlan p1 p2 sch) =
     rbind (pl_recordsOutput p1) (\<lambda>a. rbind (pl_recordsOutput p2) (\<lambda>b. ck (a * b)))"
| "pl_recordsOutput (MaterializePlan p) = pl_recordsOutput p"
| "pl_recordsOutput (SortPlan p flds sch) = pl_recordsOutput p"
| "pl_recordsOutput (GroupByPlan p flds aggs sch) = num_groups (pl_distinctValues p) flds 1"
| "pl_recordsOutput (MergeJoinPlan p1 p2 f1 f2 sch) =
     rbind (pl_distinctValues p1 f1) (\<lambda>a. rbind (pl_distinctValues p2 f2) (\<lambda>b.
     rbind (pl_recordsOutput p1) (\<lambda>r1. rbind (pl_recordsOutput p2) (\<lambda>r2.
     rbind (ck (r1 * r2)) (\<lambda>r. cdiv r (max a b))))))"

text \<open>
  \<open>MaterializePlan::blocksAccessed\<close> divides in double arithmetic and rounds up; the model rounds
  the exact quotient. A sort plan asks a materialize plan.
\<close>

definition mp_blocks :: "int \<Rightarrow> schema \<Rightarrow> int \<Rightarrow> int outcome" where
  "mp_blocks bs sch r =
     rbind (lay_new sch) (\<lambda>l. if lay_slotSize l = 0 then Inl Undef else ck (- ((- (r * lay_slotSize l)) div bs)))"

fun pl_blocksAccessed :: "int \<Rightarrow> plan \<Rightarrow> int outcome" where
  "pl_blocksAccessed bs (TablePlan n l si) = si_blocksAccessed si"
| "pl_blocksAccessed bs (SelectPlan p pr) = pl_blocksAccessed bs p"
| "pl_blocksAccessed bs (ProjectPlan p sch) = pl_blocksAccessed bs p"
| "pl_blocksAccessed bs (ProductPlan p1 p2 sch) =
     rbind (pl_blocksAccessed bs p1) (\<lambda>a. rbind (pl_recordsOutput p1) (\<lambda>r. rbind (pl_blocksAccessed bs p2) (\<lambda>b.
     rbind (ck (r * b)) (\<lambda>rb. ck (a + rb)))))"
| "pl_blocksAccessed bs (MaterializePlan p) = rbind (pl_recordsOutput p) (mp_blocks bs (pl_schema p))"
| "pl_blocksAccessed bs (SortPlan p flds sch) = rbind (pl_recordsOutput p) (mp_blocks bs (pl_schema p))"
| "pl_blocksAccessed bs (GroupByPlan p flds aggs sch) = pl_blocksAccessed bs p"
| "pl_blocksAccessed bs (MergeJoinPlan p1 p2 f1 f2 sch) =
     rbind (pl_blocksAccessed bs p1) (\<lambda>a. rbind (pl_blocksAccessed bs p2) (\<lambda>b. ck (a + b)))"

section \<open>Opening a plan\<close>

text \<open>\<open>k\<close> is the fuel of every loop and \<open>d\<close> the bound on the depth of scan trees.\<close>

fun pl_open :: "nat \<Rightarrow> nat \<Rightarrow> plan \<Rightarrow> ('a tmp_scheme, scan) cmd" where
  "pl_open k d (TablePlan n l si) = wrap TableS (ts_new k n l)"
| "pl_open k d (SelectPlan p pr) = wrap (\<lambda>s. SelectS (SelectScan s pr)) (pl_open k d p)"
| "pl_open k d (ProjectPlan p sch) = wrap (\<lambda>s. ProjectS (ProjectScan s (sch_fields sch))) (pl_open k d p)"
| "pl_open k d (ProductPlan p1 p2 sch) =
     bnd (pl_open k d p1) (\<lambda>s1.
     bnd (pl_open k d p2) (\<lambda>s2. wrap ProductS (prod_new (vt k d) s1 s2)))"
| "pl_open k d (MaterializePlan p) = wrap TableS (mp_open k (vt k d) (pl_schema p) (pl_open k d p))"
| "pl_open k d (SortPlan p flds sch) =
     bnd (pl_open k d p) (\<lambda>src. wrap SortS (sp_open k (vt k d) flds sch src))"
| "pl_open k d (GroupByPlan p flds aggs sch) =
     bnd (pl_open k d p) (\<lambda>src. wrap GroupS (gb_new (vt k d) src flds aggs))"
| "pl_open k d (MergeJoinPlan p1 p2 f1 f2 sch) =
     bnd (pl_open k d p1) (\<lambda>s1.
     bnd (pl_open k d p2) (\<lambda>s2.
     case s2 of SortS so \<Rightarrow> wrap JoinS (mj_new k (vt k d) s1 so f1 f2) | _ \<Rightarrow> raise Undef))"

end
