(* ===== verification/Parsing.thy ===== *)
theory Parsing
  imports Predicates
begin

text \<open>
  \<open>src/src/parse\<close>: the tokenizer's token classes, the lexer, the statement objects and the
  recursive-descent parser. How a string is cut into tokens is Boost's
  \<open>char_separator\<close>, an argument of the definitions; the parser's state is the list of the
  tokens that are left.
\<close>

section \<open>Token classes (StreamTokenizer, Word)\<close>

text \<open>\<open>isdigit\<close>, \<open>isalnum\<close> and \<open>to_lower_copy\<close> in the C locale.\<close>

definition is_digit :: "char \<Rightarrow> bool" where
  "is_digit c \<longleftrightarrow> CHR ''0'' \<le> c \<and> c \<le> CHR ''9''"

definition is_alnum :: "char \<Rightarrow> bool" where
  "is_alnum c \<longleftrightarrow> is_digit c \<or> CHR ''A'' \<le> c \<and> c \<le> CHR ''Z'' \<or> CHR ''a'' \<le> c \<and> c \<le> CHR ''z''"

definition lower_char :: "char \<Rightarrow> char" where
  "lower_char c = (if CHR ''A'' \<le> c \<and> c \<le> CHR ''Z'' then char_of (of_char c + 32 :: nat) else c)"

definition to_lower :: "string \<Rightarrow> string" where
  "to_lower = map lower_char"

definition QUOTE :: char where
  "QUOTE = CHR 0x27"

type_synonym toks = "string list"

definition tk_ttype :: "toks \<Rightarrow> string" where
  "tk_ttype ts =
     (case ts of
        [] \<Rightarrow> ''EOF''
      | t # _ \<Rightarrow>
          if \<forall>c \<in> set t. is_digit c then ''NUMBER''
          else if \<forall>c \<in> set t. is_alnum c then ''WORD''
          else if hd t = QUOTE then [QUOTE]
          else to_lower t)"

definition tk_sval :: "toks \<Rightarrow> string outcome" where
  "tk_sval ts = (case ts of [] \<Rightarrow> Inl Undef | t # _ \<Rightarrow> Inr (to_lower t))"

text \<open>
  \<open>std::stod\<close> of a token of digits, and the conversion of the double to an int: it throws when
  the number rounds to no double, and the conversion is undefined beyond an int.
\<close>

definition digits_val :: "string \<Rightarrow> int" where
  "digits_val t = foldl (\<lambda>n c. 10 * n + (int (of_char c) - 48)) 0 t"

definition tk_nval :: "toks \<Rightarrow> int outcome" where
  "tk_nval ts =
     (case ts of
        [] \<Rightarrow> Inl Undef
      | t # _ \<Rightarrow>
          if t = [] \<or> 2 ^ 1024 - 2 ^ 970 \<le> digits_val t then Inl (Throw (''Invalid number format: '' @ t))
          else ck (digits_val t))"

definition tk_nextToken :: "toks \<Rightarrow> toks" where
  "tk_nextToken ts = tl ts"

section \<open>Lexer\<close>

definition keyword_list :: "string list" where
  "keyword_list = [''select'', ''from'', ''where'', ''and'', ''insert'', ''into'', ''values'', ''delete'', ''update'', ''set'',
     ''create'', ''table'', ''varchar'', ''int'', ''bool'', ''true'', ''false'', ''view'', ''as'', ''index'', ''on'']"

text \<open>The first character of an empty string is the terminating zero.\<close>

definition first_char :: "string \<Rightarrow> char" where
  "first_char t = (case t of [] \<Rightarrow> CHR 0x00 | c # _ \<Rightarrow> c)"

definition lx_matchDelimiter :: "char \<Rightarrow> toks \<Rightarrow> bool" where
  "lx_matchDelimiter d ts \<longleftrightarrow> d = first_char (tk_ttype ts)"

definition lx_matchInteger :: "toks \<Rightarrow> bool" where
  "lx_matchInteger ts \<longleftrightarrow> tk_ttype ts = ''NUMBER''"

definition lx_matchString :: "toks \<Rightarrow> bool" where
  "lx_matchString ts \<longleftrightarrow> first_char (tk_ttype ts) = QUOTE"

definition lx_matchKeyword :: "string \<Rightarrow> toks \<Rightarrow> bool" where
  "lx_matchKeyword k ts \<longleftrightarrow> tk_ttype ts = ''WORD'' \<and> tk_sval ts = Inr k"

definition lx_matchIdentifier :: "toks \<Rightarrow> bool" where
  "lx_matchIdentifier ts \<longleftrightarrow> tk_ttype ts = ''WORD'' \<and> (\<exists>k. tk_sval ts = Inr k \<and> k \<notin> set keyword_list)"

lemma lx_matchIdentifier_code [code]:
  "lx_matchIdentifier ts \<longleftrightarrow> tk_ttype ts = ''WORD'' \<and> (case tk_sval ts of Inr k \<Rightarrow> k \<notin> set keyword_list | Inl _ \<Rightarrow> False)"
  by (auto simp: lx_matchIdentifier_def split: sum.splits)

definition unquote :: "string \<Rightarrow> string" where
  "unquote s = (if length s \<ge> 2 \<and> hd s = QUOTE \<and> last s = QUOTE then take (length s - 2) (drop 1 s) else s)"

text \<open>
  The message of \<open>eatDelimiter\<close> adds a char to a string literal: a pointer past its end, which is
  undefined behaviour for every delimiter.
\<close>

definition lx_eatDelimiter :: "char \<Rightarrow> (toks, unit) cmd" where
  "lx_eatDelimiter d = bnd (gets (lx_matchDelimiter d)) (\<lambda>m. if \<not> m then raise Undef else upd tk_nextToken)"

definition lx_eatInteger :: "(toks, int) cmd" where
  "lx_eatInteger =
     bnd (gets lx_matchInteger) (\<lambda>m.
     if \<not> m then raise (Throw ''Expected integer'')
     else bnd (gets tk_nval) (\<lambda>r. bnd (lift r) (\<lambda>v. seq (upd tk_nextToken) (ret v))))"

definition lx_eatString :: "(toks, string) cmd" where
  "lx_eatString =
     bnd (gets lx_matchString) (\<lambda>m.
     if \<not> m then raise (Throw ''Expected string'')
     else bnd (gets tk_sval) (\<lambda>r. bnd (lift r) (\<lambda>v. seq (upd tk_nextToken) (ret (unquote v)))))"

definition lx_eatKeyword :: "string \<Rightarrow> (toks, unit) cmd" where
  "lx_eatKeyword k =
     bnd (gets (lx_matchKeyword k)) (\<lambda>m.
     if \<not> m then raise (Throw (''Expected keyword: '' @ k)) else upd tk_nextToken)"

definition lx_eatIdentifier :: "(toks, string) cmd" where
  "lx_eatIdentifier =
     bnd (gets lx_matchIdentifier) (\<lambda>m.
     if \<not> m then raise (Throw ''Expected identifier'')
     else bnd (gets tk_sval) (\<lambda>r. bnd (lift r) (\<lambda>v. seq (upd tk_nextToken) (ret v))))"

section \<open>Statements\<close>

datatype query_data = QueryData
  (qd_fields: "string list") (qd_tables: "string list") (qd_pred: pred) (qd_groupFields: "string list")
  (qd_sortFields: "string list") (qd_queryTables: "query_data list")

text \<open>\<open>std::set\<close> iterates in order; \<open>set_put\<close> inserts.\<close>

fun set_put :: "'a::linorder \<Rightarrow> 'a list \<Rightarrow> 'a list" where
  "set_put x [] = [x]"
| "set_put x (y # ys) = (if x < y then x # y # ys else if x = y then y # ys else y # set_put x ys)"

definition qd_addQueryData :: "query_data \<Rightarrow> query_data \<Rightarrow> query_data" where
  "qd_addQueryData q qd =
     QueryData (qd_fields qd) (qd_tables qd) (qd_pred qd) (qd_groupFields qd) (qd_sortFields qd) (qd_queryTables qd @ [q])"

record table_data =
  td_tableNames :: "string list"
  td_queryData :: "query_data list"

definition td_empty :: table_data where
  "td_empty = \<lparr>td_tableNames = [], td_queryData = []\<rparr>"

definition td_addTableName :: "string \<Rightarrow> table_data \<Rightarrow> table_data" where
  "td_addTableName n td = td\<lparr>td_tableNames := set_put n (td_tableNames td)\<rparr>"

definition td_addQueryData :: "query_data \<Rightarrow> table_data \<Rightarrow> table_data" where
  "td_addQueryData q td = td\<lparr>td_queryData := td_queryData td @ [q]\<rparr>"

record delete_data =
  dd_tableName :: string
  dd_pred :: pred

record insert_data =
  id_tableName :: string
  id_fields :: "string list"
  id_values :: "const list"

record modify_data =
  md_tableName :: string
  md_targetField :: string
  md_newValue :: expr
  md_pred :: pred

record create_table_data =
  ct_tableName :: string
  ct_schema :: schema

record create_view_data =
  cv_viewName :: string
  cv_query :: query_data

record create_index_data =
  ci_indexName :: string
  ci_tableName :: string
  ci_fieldName :: string

datatype stmt = Insert insert_data | Delete delete_data | Modify modify_data | CreateTable create_table_data
  | CreateView create_view_data | CreateIndex create_index_data

text \<open>
  \<open>toString\<close> of a query, used as the text of a view. \<open>Word::SELECT + Word::SPACE\<close> adds strings;
  \<open>Word::COMMA + Word::SPACE\<close> a char and a string.
\<close>

definition drop_last2 :: "string \<Rightarrow> string" where
  "drop_last2 s = take (length s - 2) s"

definition qd_list :: "string list \<Rightarrow> string" where
  "qd_list fs = concat (map (\<lambda>f. f @ '', '') fs)"

fun qd_toString :: "query_data \<Rightarrow> string outcome" and qd_subqueries :: "query_data list \<Rightarrow> string \<Rightarrow> string outcome" where
  "qd_toString (QueryData flds tables p groups sorts qs) =
     (let result = drop_last2 (''select '' @ qd_list flds) @ '' from '' @ qd_list tables
      in rbind (qd_subqueries qs result) (\<lambda>result.
         rbind (pr_toString p) (\<lambda>predicateStr.
         let result = drop_last2 result;
             result = (if predicateStr \<noteq> [] then result @ '' where '' @ predicateStr else result);
             result = (if groups \<noteq> [] then drop_last2 (result @ '' group by '' @ qd_list groups) else result)
         in Inr (if sorts \<noteq> [] then drop_last2 (result @ '' order by '' @ qd_list sorts) else result))))"
| "qd_subqueries [] result = Inr result"
| "qd_subqueries (q # qs) result =
     rbind (qd_toString q) (\<lambda>s. qd_subqueries qs (result @ ''( '' @ s @ '' ), ''))"


section \<open>Parser\<close>

definition ps_fieldName :: "(toks, string) cmd" where
  "ps_fieldName = lx_eatIdentifier"

definition ps_constant :: "(toks, const) cmd" where
  "ps_constant =
     bnd (gets (\<lambda>ts. (lx_matchKeyword ''true'' ts, lx_matchKeyword ''false'' ts, lx_matchString ts))) (\<lambda>(t, f, s).
     if t then seq (lx_eatKeyword ''true'') (ret (const_int 1))
     else if f then seq (lx_eatKeyword ''false'') (ret (const_int 0))
     else if s then bnd lx_eatString (\<lambda>v. ret (const_str v))
     else bnd lx_eatInteger (\<lambda>v. ret (const_int v)))"

definition ps_expression :: "(toks, expr) cmd" where
  "ps_expression =
     bnd (gets lx_matchIdentifier) (\<lambda>i.
     if i then bnd ps_fieldName (\<lambda>f. ret (ex_name f))
     else bnd ps_constant (\<lambda>c. ret (ex_const c)))"

definition ps_term :: "(toks, sterm) cmd" where
  "ps_term =
     bnd ps_expression (\<lambda>l.
     seq (lx_eatDelimiter CHR ''='')
    (bnd ps_expression (\<lambda>r. ret \<lparr>lhs = l, rhs = r\<rparr>)))"

fun ps_predicate :: "nat \<Rightarrow> (toks, pred) cmd" where
  "ps_predicate 0 = raise OutOfFuel"
| "ps_predicate (Suc fuel) =
     bnd ps_term (\<lambda>t.
     bnd (gets (lx_matchKeyword ''and'')) (\<lambda>a.
     if a then seq (lx_eatKeyword ''and'') (bnd (ps_predicate fuel) (\<lambda>p. ret (pr_conjoinWith p [t])))
     else ret [t]))"

text \<open>\<open>selectList\<close>, \<open>fieldList\<close> and \<open>constantList\<close> differ in the item only.\<close>

fun ps_list :: "nat \<Rightarrow> (toks, 'a) cmd \<Rightarrow> (toks, 'a list) cmd" where
  "ps_list 0 item = raise OutOfFuel"
| "ps_list (Suc fuel) item =
     bnd item (\<lambda>x.
     bnd (gets (lx_matchDelimiter CHR '','')) (\<lambda>c.
     if c then seq (lx_eatDelimiter CHR '','') (bnd (ps_list fuel item) (\<lambda>xs. ret (x # xs)))
     else ret [x]))"

definition ps_selectList :: "nat \<Rightarrow> (toks, string list) cmd" where
  "ps_selectList fuel = ps_list fuel ps_fieldName"

definition ps_fieldList :: "nat \<Rightarrow> (toks, string list) cmd" where
  "ps_fieldList fuel = ps_list fuel ps_fieldName"

definition ps_constantList :: "nat \<Rightarrow> (toks, const list) cmd" where
  "ps_constantList fuel = ps_list fuel ps_constant"

text \<open>A lone \<open>group\<close> or \<open>order\<close> is eaten and forgotten.\<close>

definition ps_byList :: "nat \<Rightarrow> string \<Rightarrow> (toks, string list) cmd" where
  "ps_byList fuel k =
     bnd (gets (lx_matchKeyword k)) (\<lambda>m.
     if m
     then seq (lx_eatKeyword k)
         (bnd (gets (lx_matchKeyword ''by'')) (\<lambda>b.
          if b then seq (lx_eatKeyword ''by'') (ps_fieldList fuel) else ret []))
     else ret [])"

definition ps_groupFieldList :: "nat \<Rightarrow> (toks, string list) cmd" where
  "ps_groupFieldList fuel = ps_byList fuel ''group''"

definition ps_sortFieldList :: "nat \<Rightarrow> (toks, string list) cmd" where
  "ps_sortFieldList fuel = ps_byList fuel ''order''"

definition ps_where :: "nat \<Rightarrow> (toks, pred) cmd" where
  "ps_where fuel =
     bnd (gets (lx_matchKeyword ''where'')) (\<lambda>w.
     if w then seq (lx_eatKeyword ''where'') (ps_predicate fuel) else ret [])"

fun ps_query :: "nat \<Rightarrow> (toks, query_data) cmd"
  and ps_tableItem :: "nat \<Rightarrow> table_data \<Rightarrow> (toks, table_data) cmd"
  and ps_tableLoop :: "nat \<Rightarrow> table_data \<Rightarrow> (toks, table_data) cmd" where
  "ps_query 0 = raise OutOfFuel"
| "ps_query (Suc fuel) =
     seq (lx_eatKeyword ''select'')
    (bnd (ps_selectList fuel) (\<lambda>flds.
     seq (lx_eatKeyword ''from'')
    (bnd (bnd (ps_tableItem fuel td_empty) (ps_tableLoop fuel)) (\<lambda>td.
     bnd (ps_where fuel) (\<lambda>p.
     bnd (ps_groupFieldList fuel) (\<lambda>g.
     bnd (ps_sortFieldList fuel) (\<lambda>s.
     ret (fold qd_addQueryData (td_queryData td) (QueryData flds (td_tableNames td) p g s [])))))))))"
| "ps_tableItem 0 td = raise OutOfFuel"
| "ps_tableItem (Suc fuel) td =
     bnd (gets (lx_matchDelimiter CHR ''('')) (\<lambda>p.
     if p
     then seq (lx_eatDelimiter CHR ''('')
         (bnd (ps_query fuel) (\<lambda>q.
          seq (lx_eatDelimiter CHR '')'') (ret (td_addQueryData q td))))
     else bnd lx_eatIdentifier (\<lambda>n. ret (td_addTableName n td)))"
| "ps_tableLoop 0 td = raise OutOfFuel"
| "ps_tableLoop (Suc fuel) td =
     bnd (gets (lx_matchDelimiter CHR '','')) (\<lambda>c.
     if c
     then seq (lx_eatDelimiter CHR '','') (bnd (ps_tableItem fuel td) (ps_tableLoop fuel))
     else ret td)"

definition ps_tableList :: "nat \<Rightarrow> (toks, table_data) cmd" where
  "ps_tableList fuel = bnd (ps_tableItem fuel td_empty) (ps_tableLoop fuel)"

definition ps_remove :: "nat \<Rightarrow> (toks, delete_data) cmd" where
  "ps_remove fuel =
     seq (lx_eatKeyword ''delete'')
    (seq (lx_eatKeyword ''from'')
    (bnd lx_eatIdentifier (\<lambda>t.
     bnd (ps_where fuel) (\<lambda>p. ret \<lparr>dd_tableName = t, dd_pred = p\<rparr>))))"

definition ps_insert :: "nat \<Rightarrow> (toks, insert_data) cmd" where
  "ps_insert fuel =
     seq (lx_eatKeyword ''insert'')
    (seq (lx_eatKeyword ''into'')
    (bnd lx_eatIdentifier (\<lambda>t.
     seq (lx_eatDelimiter CHR ''('')
    (bnd (ps_fieldList fuel) (\<lambda>fs.
     seq (lx_eatDelimiter CHR '')'')
    (seq (lx_eatKeyword ''values'')
    (seq (lx_eatDelimiter CHR ''('')
    (bnd (ps_constantList fuel) (\<lambda>vs.
     seq (lx_eatDelimiter CHR '')'')
         (ret \<lparr>id_tableName = t, id_fields = fs, id_values = vs\<rparr>))))))))))"

text \<open>The new value is never read: it stays the null expression.\<close>

definition ps_modify :: "nat \<Rightarrow> (toks, modify_data) cmd" where
  "ps_modify fuel =
     seq (lx_eatKeyword ''update'')
    (bnd lx_eatIdentifier (\<lambda>t.
     seq (lx_eatKeyword ''set'')
    (bnd ps_fieldName (\<lambda>f.
     seq (lx_eatDelimiter CHR ''='')
    (bnd (ps_where fuel) (\<lambda>p.
     ret \<lparr>md_tableName = t, md_targetField = f, md_newValue = ex_null, md_pred = p\<rparr>))))))"

definition ps_fieldType :: "string \<Rightarrow> (toks, schema) cmd" where
  "ps_fieldType f =
     bnd (gets (\<lambda>ts. (lx_matchKeyword ''int'' ts, lx_matchKeyword ''bool'' ts))) (\<lambda>(i, b).
     if i then seq (lx_eatKeyword ''int'') (ret (sch_addIntField f sch_empty))
     else if b then seq (lx_eatKeyword ''bool'') (ret (sch_addBoolField f sch_empty))
     else seq (lx_eatKeyword ''varchar'')
         (seq (lx_eatDelimiter CHR ''('')
         (bnd lx_eatInteger (\<lambda>n.
          seq (lx_eatDelimiter CHR '')'') (ret (sch_addStringField f n sch_empty))))))"

definition ps_fieldDefinition :: "(toks, schema) cmd" where
  "ps_fieldDefinition = bnd ps_fieldName ps_fieldType"

fun ps_fieldDefinitionList :: "nat \<Rightarrow> (toks, schema) cmd" where
  "ps_fieldDefinitionList 0 = raise OutOfFuel"
| "ps_fieldDefinitionList (Suc fuel) =
     bnd ps_fieldDefinition (\<lambda>sch.
     bnd (gets (lx_matchDelimiter CHR '','')) (\<lambda>c.
     if c
     then seq (lx_eatDelimiter CHR '','')
         (bnd (ps_fieldDefinitionList fuel) (\<lambda>next. lift (sch_addAll next sch)))
     else ret sch))"

definition ps_createTable :: "nat \<Rightarrow> (toks, create_table_data) cmd" where
  "ps_createTable fuel =
     seq (lx_eatKeyword ''table'')
    (bnd lx_eatIdentifier (\<lambda>t.
     seq (lx_eatDelimiter CHR ''('')
    (bnd (ps_fieldDefinitionList fuel) (\<lambda>sch.
     seq (lx_eatDelimiter CHR '')'') (ret \<lparr>ct_tableName = t, ct_schema = sch\<rparr>)))))"

definition ps_createView :: "nat \<Rightarrow> (toks, create_view_data) cmd" where
  "ps_createView fuel =
     seq (lx_eatKeyword ''view'')
    (bnd lx_eatIdentifier (\<lambda>v.
     seq (lx_eatKeyword ''as'')
    (bnd (ps_query fuel) (\<lambda>q. ret \<lparr>cv_viewName = v, cv_query = q\<rparr>))))"

definition ps_createIndex :: "(toks, create_index_data) cmd" where
  "ps_createIndex =
     seq (lx_eatKeyword ''index'')
    (bnd lx_eatIdentifier (\<lambda>i.
     seq (lx_eatKeyword ''on'')
    (bnd lx_eatIdentifier (\<lambda>t.
     seq (lx_eatDelimiter CHR ''('')
    (bnd ps_fieldName (\<lambda>f.
     seq (lx_eatDelimiter CHR '')'') (ret \<lparr>ci_indexName = i, ci_tableName = t, ci_fieldName = f\<rparr>)))))))"

definition ps_create :: "nat \<Rightarrow> (toks, stmt) cmd" where
  "ps_create fuel =
     seq (lx_eatKeyword ''create'')
    (bnd (gets (\<lambda>ts. (lx_matchKeyword ''table'' ts, lx_matchKeyword ''view'' ts))) (\<lambda>(t, v).
     if t then bnd (ps_createTable fuel) (\<lambda>d. ret (CreateTable d))
     else if v then bnd (ps_createView fuel) (\<lambda>d. ret (CreateView d))
     else bnd ps_createIndex (\<lambda>d. ret (CreateIndex d))))"

definition ps_updateCmd :: "nat \<Rightarrow> (toks, stmt) cmd" where
  "ps_updateCmd fuel =
     bnd (gets (\<lambda>ts. (lx_matchKeyword ''insert'' ts, lx_matchKeyword ''delete'' ts, lx_matchKeyword ''update'' ts))) (\<lambda>(i, d, u).
     if i then bnd (ps_insert fuel) (\<lambda>x. ret (Insert x))
     else if d then bnd (ps_remove fuel) (\<lambda>x. ret (Delete x))
     else if u then bnd (ps_modify fuel) (\<lambda>x. ret (Modify x))
     else ps_create fuel)"

text \<open>The fuel is one more than the number of tokens.\<close>

definition parse_query :: "(string \<Rightarrow> string list) \<Rightarrow> string \<Rightarrow> query_data outcome" where
  "parse_query tokenize s = fst (ps_query (length (tokenize s) + 1) (tokenize s))"

definition parse_update :: "(string \<Rightarrow> string list) \<Rightarrow> string \<Rightarrow> stmt outcome" where
  "parse_update tokenize s = fst (ps_updateCmd (length (tokenize s) + 1) (tokenize s))"

end
