(* ===== verification/Planning.thy ===== *)
theory Planning
  imports Plans Parsing
begin

text \<open>
  The planners: \<open>src/src/plan/BasicQueryPlanner.cpp\<close>, \<open>BasicUpdatePlanner.cpp\<close>,
  \<open>Planner.cpp\<close> and \<open>src/src/indexing/IndexUpdatePlanner.cpp\<close>. The tokenizer is an argument.
  \<open>k\<close> is the fuel of the loops and \<open>d\<close> the bound on the depth of scan trees.
\<close>

section \<open>Queries\<close>

definition field_aggs :: "schema \<Rightarrow> string \<Rightarrow> agg list outcome" where
  "field_aggs sch f =
     rbind (sch_fieldType f sch) (\<lambda>ty.
     Inr ([MaxFn f const_null, MinFn f const_null] @ (if ty = INTEGER then [SumFn f const_null] else [])))"

fun fields_aggs :: "schema \<Rightarrow> string list \<Rightarrow> agg list outcome" where
  "fields_aggs sch [] = Inr []"
| "fields_aggs sch (f # fs) = rbind (field_aggs sch f) (\<lambda>a. rbind (fields_aggs sch fs) (\<lambda>as. Inr (a @ as)))"

fun product_all :: "plan \<Rightarrow> plan list \<Rightarrow> plan outcome" where
  "product_all p [] = Inr p"
| "product_all p (q # qs) = rbind (product_plan p q) (\<lambda>p. product_all p qs)"

text \<open>
  \<open>_aggFns\<close> is a field of the planner: the plan of a view or of a subquery clears it and leaves
  its own functions in it. The list is passed along; the planner's fuel bounds the nesting of
  views and subqueries.
\<close>

fun qp_createPlan ::
    "(string \<Rightarrow> string list) \<Rightarrow> nat \<Rightarrow> nat \<Rightarrow> meta_mgr \<Rightarrow> query_data \<Rightarrow> ('a db_scheme, plan \<times> agg list) cmd"
  and qp_tables ::
    "(string \<Rightarrow> string list) \<Rightarrow> nat \<Rightarrow> nat \<Rightarrow> meta_mgr \<Rightarrow> query_data \<Rightarrow> string list \<Rightarrow> agg list \<Rightarrow>
     ('a db_scheme, plan list \<times> agg list) cmd"
  and qp_subqueries ::
    "(string \<Rightarrow> string list) \<Rightarrow> nat \<Rightarrow> nat \<Rightarrow> meta_mgr \<Rightarrow> query_data list \<Rightarrow> agg list \<Rightarrow>
     ('a db_scheme, plan list \<times> agg list) cmd" where
  "qp_createPlan tok 0 k mm data = raise OutOfFuel"
| "qp_createPlan tok (Suc fuel) k mm data =
     bnd (qp_tables tok fuel k mm data (qd_tables data) []) (\<lambda>(plans1, aggs).
     bnd (qp_subqueries tok fuel k mm (qd_queryTables data) aggs) (\<lambda>(plans2, aggs).
     case plans1 @ plans2 of
       [] \<Rightarrow> raise Undef
     | p0 # ps \<Rightarrow>
         bnd (lift (product_all p0 ps)) (\<lambda>p.
         let p = SelectPlan p (qd_pred data);
             grouped = qd_groupFields data \<noteq> [];
             aggs = (if grouped then aggs @ [CountFn 0] else aggs)
         in bnd (lift (if grouped then group_plan p (qd_groupFields data) aggs else Inr p)) (\<lambda>p.
            bnd (lift (project_plan p (qd_fields data))) (\<lambda>p.
            ret (if qd_sortFields data \<noteq> [] then sort_plan p (qd_sortFields data) else p, aggs))))))"
| "qp_tables tok 0 k mm data ts aggs = raise OutOfFuel"
| "qp_tables tok (Suc fuel) k mm data [] aggs = ret ([], aggs)"
| "qp_tables tok (Suc fuel) k mm data (t # ts) aggs =
     bnd (mm_getViewDef k mm t) (\<lambda>viewDef.
     bnd (mm_getLayout k mm t) (\<lambda>l.
     bnd (if viewDef \<noteq> []
          then bnd (lift (parse_query tok viewDef)) (qp_createPlan tok fuel k mm)
          else bnd (table_plan k mm t) (\<lambda>p.
               if qd_groupFields data = [] then ret (p, aggs)
               else bnd (lift (fields_aggs (lay_schema l) (sch_fields (lay_schema l)))) (\<lambda>as. ret (p, aggs @ as)))) (\<lambda>(p, aggs).
     bnd (qp_tables tok fuel k mm data ts aggs) (\<lambda>(ps, aggs). ret (p # ps, aggs)))))"
| "qp_subqueries tok 0 k mm qs aggs = raise OutOfFuel"
| "qp_subqueries tok (Suc fuel) k mm [] aggs = ret ([], aggs)"
| "qp_subqueries tok (Suc fuel) k mm (q # qs) aggs =
     bnd (qp_createPlan tok fuel k mm q) (\<lambda>(p, aggs).
     bnd (qp_subqueries tok fuel k mm qs aggs) (\<lambda>(ps, aggs). ret (MaterializePlan p # ps, aggs)))"

section \<open>Updates\<close>

definition update_plan :: "nat \<Rightarrow> nat \<Rightarrow> meta_mgr \<Rightarrow> string \<Rightarrow> pred \<Rightarrow> ('a db_scheme, plan) cmd" where
  "update_plan k d mm tableName p = bnd (table_plan k mm tableName) (\<lambda>t. ret (SelectPlan t p))"

fun bp_delete_loop :: "nat \<Rightarrow> 'a vtable \<Rightarrow> int \<Rightarrow> scan \<Rightarrow> ('a tx_scheme, int \<times> scan) cmd" where
  "bp_delete_loop 0 v cnt s = raise OutOfFuel"
| "bp_delete_loop (Suc fuel) v cnt s =
     bnd (op_next v s) (\<lambda>(b, s).
     if b then seq (op_remove v s) (bp_delete_loop fuel v (cnt + 1) s) else ret (cnt, s))"

text \<open>From the plan on, which is all that \<open>executeDelete\<close> does after the catalog has been read.\<close>

definition bup_delete :: "nat \<Rightarrow> nat \<Rightarrow> plan \<Rightarrow> ('a tmp_scheme, int) cmd" where
  "bup_delete k d p =
     bnd (pl_open k d p) (\<lambda>s.
     bnd (bp_delete_loop k (vt k d) 0 s) (\<lambda>(cnt, s).
     seq (op_close (vt k d) s) (ret cnt)))"

definition bup_executeDelete :: "nat \<Rightarrow> nat \<Rightarrow> meta_mgr \<Rightarrow> delete_data \<Rightarrow> ('a db_scheme, int) cmd" where
  "bup_executeDelete k d mm data = bnd (update_plan k d mm (dd_tableName data) (dd_pred data)) (bup_delete k d)"

fun bp_modify_loop :: "nat \<Rightarrow> 'a vtable \<Rightarrow> expr \<Rightarrow> string \<Rightarrow> int \<Rightarrow> scan \<Rightarrow> ('a tx_scheme, int \<times> scan) cmd" where
  "bp_modify_loop 0 v newValue target cnt s = raise OutOfFuel"
| "bp_modify_loop (Suc fuel) v newValue target cnt s =
     bnd (op_next v s) (\<lambda>(b, s).
     if b
     then bnd (ex_evaluate (\<lambda>f. op_getValue v f s) newValue) (\<lambda>value.
          seq (op_setValue v target value s) (bp_modify_loop fuel v newValue target (cnt + 1) s))
     else ret (cnt, s))"

definition bup_modify :: "nat \<Rightarrow> nat \<Rightarrow> expr \<Rightarrow> string \<Rightarrow> plan \<Rightarrow> ('a tmp_scheme, int) cmd" where
  "bup_modify k d newValue target p =
     bnd (pl_open k d p) (\<lambda>s.
     bnd (bp_modify_loop k (vt k d) newValue target 0 s) (\<lambda>(cnt, s).
     seq (op_close (vt k d) s) (ret cnt)))"

definition bup_executeModify :: "nat \<Rightarrow> nat \<Rightarrow> meta_mgr \<Rightarrow> modify_data \<Rightarrow> ('a db_scheme, int) cmd" where
  "bup_executeModify k d mm data =
     bnd (update_plan k d mm (md_tableName data) (md_pred data)) (bup_modify k d (md_newValue data) (md_targetField data))"

text \<open>\<open>values[i]\<close> reads past the end when there are fewer values than fields.\<close>

fun insert_values :: "'a vtable \<Rightarrow> scan \<Rightarrow> string list \<Rightarrow> const list \<Rightarrow> ('a tx_scheme, unit) cmd" where
  "insert_values v s [] vals = ret ()"
| "insert_values v s (f # fs) [] = raise Undef"
| "insert_values v s (f # fs) (c # cs) = seq (op_setValue v f c s) (insert_values v s fs cs)"

definition bup_insert :: "nat \<Rightarrow> nat \<Rightarrow> string list \<Rightarrow> const list \<Rightarrow> plan \<Rightarrow> ('a tmp_scheme, int) cmd" where
  "bup_insert k d fs vs p =
     bnd (pl_open k d p) (\<lambda>s.
     bnd (op_insert (vt k d) s) (\<lambda>s.
     seq (insert_values (vt k d) s fs vs)
    (seq (op_close (vt k d) s) (ret 1))))"

definition bup_executeInsert :: "nat \<Rightarrow> nat \<Rightarrow> meta_mgr \<Rightarrow> insert_data \<Rightarrow> ('a db_scheme, int) cmd" where
  "bup_executeInsert k d mm data = bnd (table_plan k mm (id_tableName data)) (bup_insert k d (id_fields data) (id_values data))"

definition up_executeCreateTable :: "nat \<Rightarrow> meta_mgr \<Rightarrow> create_table_data \<Rightarrow> ('a db_scheme, int) cmd" where
  "up_executeCreateTable k mm data = seq (mm_createTable k mm (ct_tableName data) (ct_schema data)) (ret 0)"

definition up_executeCreateView :: "nat \<Rightarrow> meta_mgr \<Rightarrow> create_view_data \<Rightarrow> ('a db_scheme, int) cmd" where
  "up_executeCreateView k mm data =
     bnd (lift (qd_toString (cv_query data))) (\<lambda>vdef. seq (mm_createView k mm (cv_viewName data) vdef) (ret 0))"

definition up_executeCreateIndex :: "nat \<Rightarrow> meta_mgr \<Rightarrow> create_index_data \<Rightarrow> ('a db_scheme, int) cmd" where
  "up_executeCreateIndex k mm data = seq (mm_createIndex k mm (ci_indexName data) (ci_tableName data) (ci_fieldName data)) (ret 0)"

section \<open>Updates that keep the indexes\<close>

fun iup_remove_all :: "nat \<Rightarrow> 'a vtable \<Rightarrow> scan \<Rightarrow> rid \<Rightarrow> (string \<times> index_info) list \<Rightarrow> ('a tx_scheme, unit) cmd" where
  "iup_remove_all k v s r [] = ret ()"
| "iup_remove_all k v s r ((f, ix) # ixs) =
     bnd (op_getValue v f s) (\<lambda>value.
     bnd (ix_open k ix) (\<lambda>idx.
     bnd (bx_remove k value r idx) (\<lambda>idx.
     bnd (bx_close idx) (\<lambda>_. iup_remove_all k v s r ixs))))"

fun iup_delete_loop ::
  "nat \<Rightarrow> nat \<Rightarrow> 'a vtable \<Rightarrow> (string \<times> index_info) list \<Rightarrow> int \<Rightarrow> scan \<Rightarrow> ('a tx_scheme, int \<times> scan) cmd" where
  "iup_delete_loop 0 k v ixs cnt s = raise OutOfFuel"
| "iup_delete_loop (Suc fuel) k v ixs cnt s =
     bnd (op_next v s) (\<lambda>(b, s).
     if b
     then bnd (op_getRid v s) (\<lambda>r.
          seq (iup_remove_all k v s r ixs)
         (seq (op_remove v s) (iup_delete_loop fuel k v ixs (cnt + 1) s)))
     else ret (cnt, s))"

definition iup_delete :: "nat \<Rightarrow> nat \<Rightarrow> (string \<times> index_info) list \<Rightarrow> plan \<Rightarrow> ('a tmp_scheme, int) cmd" where
  "iup_delete k d ixs p =
     bnd (pl_open k d p) (\<lambda>s.
     bnd (iup_delete_loop k k (vt k d) ixs 0 s) (\<lambda>(cnt, s).
     seq (op_close (vt k d) s) (ret cnt)))"

definition iup_executeDelete :: "nat \<Rightarrow> nat \<Rightarrow> meta_mgr \<Rightarrow> delete_data \<Rightarrow> ('a db_scheme, int) cmd" where
  "iup_executeDelete k d mm data =
     bnd (update_plan k d mm (dd_tableName data) (dd_pred data)) (\<lambda>p.
     bnd (mm_getIndexInfo k mm (dd_tableName data)) (\<lambda>ixs. iup_delete k d ixs p))"

fun iup_modify_loop ::
  "nat \<Rightarrow> nat \<Rightarrow> 'a vtable \<Rightarrow> expr \<Rightarrow> string \<Rightarrow> bindex option \<Rightarrow> int \<Rightarrow> scan \<Rightarrow>
   ('a tx_scheme, int \<times> bindex option \<times> scan) cmd" where
  "iup_modify_loop 0 k v newValue target idx cnt s = raise OutOfFuel"
| "iup_modify_loop (Suc fuel) k v newValue target idx cnt s =
     bnd (op_next v s) (\<lambda>(b, s).
     if b
     then bnd (ex_evaluate (\<lambda>f. op_getValue v f s) newValue) (\<lambda>new.
          bnd (op_getValue v target s) (\<lambda>old.
          seq (op_setValue v target new s)
         (bnd (case idx of
                 None \<Rightarrow> ret None
               | Some x \<Rightarrow>
                   bnd (op_getRid v s) (\<lambda>r.
                   bnd (bx_remove k old r x) (\<lambda>x.
                   bnd (bx_insert k new r x) (\<lambda>x. ret (Some x))))) (\<lambda>idx.
          iup_modify_loop fuel k v newValue target idx (cnt + 1) s))))
     else ret (cnt, idx, s))"

definition iup_modify :: "nat \<Rightarrow> nat \<Rightarrow> expr \<Rightarrow> string \<Rightarrow> bindex option \<Rightarrow> plan \<Rightarrow> ('a tmp_scheme, int) cmd" where
  "iup_modify k d newValue target idx p =
     bnd (pl_open k d p) (\<lambda>s.
     bnd (iup_modify_loop k k (vt k d) newValue target idx 0 s) (\<lambda>(cnt, idx, s).
     seq (case idx of None \<Rightarrow> ret () | Some x \<Rightarrow> bnd (bx_close x) (\<lambda>_. ret ()))
    (seq (op_close (vt k d) s) (ret cnt))))"

definition iup_executeModify :: "nat \<Rightarrow> nat \<Rightarrow> meta_mgr \<Rightarrow> modify_data \<Rightarrow> ('a db_scheme, int) cmd" where
  "iup_executeModify k d mm data =
     bnd (update_plan k d mm (md_tableName data) (md_pred data)) (\<lambda>p.
     bnd (mm_getIndexInfo k mm (md_tableName data)) (\<lambda>ixs.
     bnd (case map_of ixs (md_targetField data) of
            None \<Rightarrow> ret None
          | Some ix \<Rightarrow> if ix_isNull ix then ret None else bnd (ix_open k ix) (\<lambda>x. ret (Some x))) (\<lambda>idx.
     iup_modify k d (md_newValue data) (md_targetField data) idx p)))"

fun iup_insert_values ::
  "nat \<Rightarrow> 'a vtable \<Rightarrow> scan \<Rightarrow> rid \<Rightarrow> (string \<times> index_info) list \<Rightarrow> string list \<Rightarrow> const list \<Rightarrow> ('a tx_scheme, unit) cmd" where
  "iup_insert_values k v s r ixs [] vals = ret ()"
| "iup_insert_values k v s r ixs (f # fs) [] = raise Undef"
| "iup_insert_values k v s r ixs (f # fs) (c # cs) =
     seq (op_setValue v f c s)
    (seq (case map_of ixs f of
            None \<Rightarrow> ret ()
          | Some ix \<Rightarrow>
              if ix_isNull ix then ret ()
              else bnd (ix_open k ix) (\<lambda>idx. bnd (bx_insert k c r idx) (\<lambda>idx. bnd (bx_close idx) (\<lambda>_. ret ()))))
         (iup_insert_values k v s r ixs fs cs))"

definition iup_executeInsert :: "nat \<Rightarrow> nat \<Rightarrow> meta_mgr \<Rightarrow> insert_data \<Rightarrow> ('a db_scheme, int) cmd" where
  "iup_executeInsert k d mm data =
     bnd (table_plan k mm (id_tableName data)) (\<lambda>p.
     bnd (pl_open k d p) (\<lambda>s.
     bnd (op_insert (vt k d) s) (\<lambda>s.
     bnd (op_getRid (vt k d) s) (\<lambda>r.
     bnd (mm_getIndexInfo k mm (id_tableName data)) (\<lambda>ixs.
     seq (iup_insert_values k (vt k d) s r ixs (id_fields data) (id_values data))
    (seq (op_close (vt k d) s) (ret 1)))))))"

section \<open>The planner\<close>

text \<open>Printing the query costs nothing but can throw, like \<open>toString\<close>.\<close>

definition pn_createQueryPlan :: "(string \<Rightarrow> string list) \<Rightarrow> nat \<Rightarrow> meta_mgr \<Rightarrow> string \<Rightarrow> ('a db_scheme, plan) cmd" where
  "pn_createQueryPlan tok k mm query =
     bnd (lift (parse_query tok query)) (\<lambda>data.
     bnd (lift (qd_toString data)) (\<lambda>_.
     bnd (qp_createPlan tok k k mm data) (\<lambda>(p, aggs). ret p)))"

text \<open>The database is set up with the update planner that keeps the indexes.\<close>

definition pn_executeUpdate :: "(string \<Rightarrow> string list) \<Rightarrow> nat \<Rightarrow> nat \<Rightarrow> meta_mgr \<Rightarrow> string \<Rightarrow> ('a db_scheme, int) cmd" where
  "pn_executeUpdate tok k d mm update =
     bnd (lift (parse_update tok update)) (\<lambda>st.
     case st of
       Insert x \<Rightarrow> iup_executeInsert k d mm x
     | Delete x \<Rightarrow> iup_executeDelete k d mm x
     | Modify x \<Rightarrow> iup_executeModify k d mm x
     | CreateTable x \<Rightarrow> up_executeCreateTable k mm x
     | CreateView x \<Rightarrow> up_executeCreateView k mm x
     | CreateIndex x \<Rightarrow> up_executeCreateIndex k mm x)"

end
