(* ===== verification/Interface.thy ===== *)
theory Interface
  imports Planning
begin

text \<open>
  \<open>src/src/interface\<close> and \<open>src/src/app\<close>: the database object, connections, statements and result
  sets, and the command loop. \<open>tok\<close> is the tokenizer, \<open>k\<close> the fuel of the loops and \<open>d\<close> the
  bound on the depth of scan trees.
\<close>

section \<open>Exceptions that are caught\<close>

text \<open>
  \<open>try { m } catch (const std::exception& e) { h e.what() }\<close>; an exit and undefined behaviour
  are not caught.
\<close>

definition try_catch :: "('s, 'a) cmd \<Rightarrow> (string \<Rightarrow> ('s, 'a) cmd) \<Rightarrow> ('s, 'a) cmd" where
  "try_catch m h s = (case m s of (Inl (Throw e), s') \<Rightarrow> h e s' | r \<Rightarrow> r)"

definition rethrow :: "string \<Rightarrow> ('s, 'a) cmd \<Rightarrow> ('s, 'a) cmd" where
  "rethrow msg m = try_catch m (\<lambda>e. raise (Throw (msg @ e)))"

section \<open>The database\<close>

definition LOGFILE :: string where "LOGFILE = ''sampledb.log''"

text \<open>
  The constructor. \<open>dir\<close> is the content of the directory, if it exists; the static counters of
  transactions and temporary tables start at zero.
\<close>

definition db_managers :: "(string \<Rightarrow> bytes option) option \<Rightarrow> int \<Rightarrow> int \<Rightarrow> unit outcome \<times> db" where
  "db_managers dir bs nb =
     (case lm_init LOGFILE (fm_init dir bs) of
        (r, s) \<Rightarrow> (r, tmp.extend (tx.extend (tx_init (bm_init nb s)) (tmp.fields 0)) (db.fields [] 0)))"

definition db_setup :: "nat \<Rightarrow> ('a db_scheme, meta_mgr) cmd" where
  "db_setup k =
     seq tx_new
    (bnd (gets isNew) (\<lambda>newDb.
     seq (if newDb then ret () else tx_recover k)
    (bnd (mm_new k newDb) (\<lambda>mm.
     seq tx_commit (ret mm)))))"

definition db_new :: "nat \<Rightarrow> (string \<Rightarrow> bytes option) option \<Rightarrow> int \<Rightarrow> int \<Rightarrow> meta_mgr outcome \<times> db" where
  "db_new k dir bs nb =
     (case db_managers dir bs nb of
        (Inl e, s) \<Rightarrow> (Inl e, s)
      | (Inr _, s) \<Rightarrow> db_setup k s)"

definition db_newTransaction :: "('a tx_scheme, unit) cmd" where
  "db_newTransaction = tx_new"

section \<open>Connections\<close>

text \<open>
  The transaction of a connection is the current one of the state. The old transaction object
  is destroyed when the new one takes its place.
\<close>

definition cn_commit :: "('a tx_scheme, unit) cmd" where
  "cn_commit = rethrow ''Failed to commit transaction: '' (seq tx_commit db_newTransaction)"

definition cn_rollback :: "nat \<Rightarrow> ('a tx_scheme, unit) cmd" where
  "cn_rollback k = rethrow ''Failed to rollback transaction: '' (seq (tx_rollback k) db_newTransaction)"

definition cn_close :: "('a tx_scheme, unit) cmd" where
  "cn_close = rethrow ''Failed to close connection: '' cn_commit"

definition dr_connect :: "nat \<Rightarrow> (string \<Rightarrow> bytes option) option \<Rightarrow> meta_mgr outcome \<times> db" where
  "dr_connect k dir =
     (case db_new k dir 400 8 of
        (Inl e, s) \<Rightarrow> (Inl e, s)
      | (Inr mm, s) \<Rightarrow> seq db_newTransaction (ret mm) s)"

section \<open>Metadata of results\<close>

definition md_columnCount :: "schema \<Rightarrow> int" where
  "md_columnCount sch = int (length (sch_fields sch))"

text \<open>\<open>at\<close> throws for an index outside the vector; its message is the library's own.\<close>

definition md_columnName :: "schema \<Rightarrow> int \<Rightarrow> string outcome" where
  "md_columnName sch column =
     (if 1 \<le> column \<and> column \<le> int (length (sch_fields sch)) then Inr (sch_fields sch ! nat (column - 1))
      else Inl (Throw ''Failed to get column name: vector::at''))"

definition add_message :: "string \<Rightarrow> 'a outcome \<Rightarrow> 'a outcome" where
  "add_message msg r = (case r of Inl (Throw e) \<Rightarrow> Inl (Throw (msg @ e)) | _ \<Rightarrow> r)"

definition md_columnType :: "schema \<Rightarrow> int \<Rightarrow> int outcome" where
  "md_columnType sch column =
     add_message ''Failed to get column type: '' (rbind (md_columnName sch column) (\<lambda>f. sch_fieldType f sch))"

text \<open>The comparison with the length of the name is unsigned.\<close>

definition md_columnDisplaySize :: "schema \<Rightarrow> int \<Rightarrow> int outcome" where
  "md_columnDisplaySize sch column =
     add_message ''Failed to get column display size: ''
      (rbind (md_columnName sch column) (\<lambda>f.
       rbind (sch_fieldType f sch) (\<lambda>ty.
       rbind (if ty = INTEGER then Inr 6 else if ty = BOOLEAN then Inr 5 else sch_fieldLength f sch) (\<lambda>n.
       if int (length f) > n mod 2 ^ 64 then Inr (int (length f) + 1) else ck (n + 1)))))"

section \<open>Result sets\<close>

text \<open>
  A scan refers to the transaction it was opened in. Once the connection has replaced that
  transaction, the reference dangles: using the scan is undefined.
\<close>

record result_set =
  rs_scan :: scan
  rs_schema :: schema
  rs_tx :: int

definition rs_new :: "nat \<Rightarrow> nat \<Rightarrow> plan \<Rightarrow> ('a tmp_scheme, result_set) cmd" where
  "rs_new k d p =
     bnd (pl_open k d p) (\<lambda>s.
     bnd (gets txNum) (\<lambda>t. ret \<lparr>rs_scan = s, rs_schema = pl_schema p, rs_tx = t\<rparr>))"

definition live :: "result_set \<Rightarrow> ('a tx_scheme, unit) cmd" where
  "live rs = bnd (gets txNum) (\<lambda>t. if t = rs_tx rs then ret () else raise Undef)"

text \<open>The exceptions of the handlers are built but not thrown.\<close>

definition rs_next :: "nat \<Rightarrow> nat \<Rightarrow> result_set \<Rightarrow> ('a tx_scheme, bool \<times> result_set) cmd" where
  "rs_next k d rs =
     try_catch
      (seq (live rs) (bnd (op_next (vt k d) (rs_scan rs)) (\<lambda>(b, s). ret (b, rs\<lparr>rs_scan := s\<rparr>))))
      (\<lambda>e. seq (cn_rollback k) (ret (False, rs)))"

definition rs_get :: "nat \<Rightarrow> 'b \<Rightarrow> result_set \<Rightarrow> ('a tx_scheme, 'b) cmd \<Rightarrow> ('a tx_scheme, 'b) cmd" where
  "rs_get k dflt rs m = try_catch (seq (live rs) m) (\<lambda>e. seq (cn_rollback k) (ret dflt))"

text \<open>The lower-case name is left in the caller's variable too.\<close>

definition rs_getInt :: "nat \<Rightarrow> nat \<Rightarrow> string \<Rightarrow> result_set \<Rightarrow> ('a tx_scheme, int) cmd" where
  "rs_getInt k d f rs = rs_get k (- 1) rs (op_getInt (vt k d) (to_lower f) (rs_scan rs))"

definition rs_getBool :: "nat \<Rightarrow> nat \<Rightarrow> string \<Rightarrow> result_set \<Rightarrow> ('a tx_scheme, bool) cmd" where
  "rs_getBool k d f rs = rs_get k False rs (op_getBool (vt k d) (to_lower f) (rs_scan rs))"

definition rs_getString :: "nat \<Rightarrow> nat \<Rightarrow> string \<Rightarrow> result_set \<Rightarrow> ('a tx_scheme, string) cmd" where
  "rs_getString k d f rs = rs_get k [] rs (op_getString (vt k d) (to_lower f) (rs_scan rs))"

definition rs_close :: "nat \<Rightarrow> nat \<Rightarrow> result_set \<Rightarrow> ('a tx_scheme, unit) cmd" where
  "rs_close k d rs =
     (let m = seq (live rs) (seq (op_close (vt k d) (rs_scan rs)) cn_commit)
      in try_catch m (\<lambda>e. m))"

section \<open>Statements\<close>

definition st_executeQuery ::
  "(string \<Rightarrow> string list) \<Rightarrow> nat \<Rightarrow> nat \<Rightarrow> meta_mgr \<Rightarrow> string \<Rightarrow> ('a db_scheme, result_set) cmd" where
  "st_executeQuery tok k d mm query =
     try_catch (bnd (pn_createQueryPlan tok k mm query) (rs_new k d))
      (\<lambda>e. seq (cn_rollback k) (raise (Throw (''Failed to execute query: '' @ e))))"

definition st_executeUpdate ::
  "(string \<Rightarrow> string list) \<Rightarrow> nat \<Rightarrow> nat \<Rightarrow> meta_mgr \<Rightarrow> string \<Rightarrow> ('a db_scheme, int) cmd" where
  "st_executeUpdate tok k d mm cmd =
     try_catch (bnd (pn_executeUpdate tok k d mm cmd) (\<lambda>n. seq cn_commit (ret n)))
      (\<lambda>e. seq (cn_rollback k) (ret 0))"

section \<open>The command loop\<close>

text \<open>What the program prints: pieces of standard output, and lines of standard error.\<close>

datatype piece = Out string | Err string

record shell = db +
  printed :: "piece list"

definition say :: "string \<Rightarrow> (shell, unit) cmd" where
  "say x = upd (\<lambda>s. s\<lparr>printed := printed s @ [Out x]\<rparr>)"

definition is_blank :: "char \<Rightarrow> bool" where
  "is_blank c \<longleftrightarrow> c \<in> {CHR '' '', CHR 0x09, CHR 0x0D, CHR 0x0A}"

definition trim :: "string \<Rightarrow> string" where
  "trim s = rev (dropWhile is_blank (rev (dropWhile is_blank s)))"

text \<open>\<open>setw(n)\<close> with \<open>std::left\<close> and \<open>std::right\<close>.\<close>

definition pad_left :: "int \<Rightarrow> string \<Rightarrow> string" where
  "pad_left n s = s @ replicate (nat n - length s) (CHR '' '')"

definition pad_right :: "int \<Rightarrow> string \<Rightarrow> string" where
  "pad_right n s = replicate (nat n - length s) (CHR '' '') @ s"

fun columns :: "schema \<Rightarrow> int \<Rightarrow> nat \<Rightarrow> (string \<times> int \<times> int) list outcome" where
  "columns sch i 0 = Inr []"
| "columns sch i (Suc n) =
     rbind (md_columnName sch i) (\<lambda>f.
     rbind (md_columnType sch i) (\<lambda>ty.
     rbind (md_columnDisplaySize sch i) (\<lambda>w.
     rbind (columns sch (i + 1) n) (\<lambda>cs. Inr ((f, ty, w) # cs)))))"

definition sep_line :: "(string \<times> int \<times> int) list \<Rightarrow> string" where
  "sep_line cs = ''+'' @ concat (map (\<lambda>(f, ty, w). replicate (nat (w + 2)) (CHR ''-'') @ ''+'') cs) @ [CHR 0x0A]"

definition header_line :: "(string \<times> int \<times> int) list \<Rightarrow> string" where
  "header_line cs = ''|'' @ concat (map (\<lambda>(f, ty, w). '' '' @ pad_left w f @ '' |'') cs) @ [CHR 0x0A]"

text \<open>What a row has printed before an exception stays printed.\<close>

fun print_row :: "nat \<Rightarrow> nat \<Rightarrow> result_set \<Rightarrow> (string \<times> int \<times> int) list \<Rightarrow> (shell, unit) cmd" where
  "print_row k d rs [] = ret ()"
| "print_row k d rs ((f, ty, w) # cs) =
     bnd (if ty = INTEGER then bnd (rs_getInt k d f rs) (\<lambda>n. ret (pad_right w (show_int n)))
          else if ty = BOOLEAN then bnd (rs_getBool k d f rs) (\<lambda>b. ret (pad_left w (if b then ''true'' else ''false'')))
          else bnd (rs_getString k d f rs) (\<lambda>x. ret (pad_left w x))) (\<lambda>cell.
     seq (say ('' '' @ cell @ '' |'')) (print_row k d rs cs))"

fun print_rows ::
  "nat \<Rightarrow> nat \<Rightarrow> nat \<Rightarrow> (string \<times> int \<times> int) list \<Rightarrow> int \<Rightarrow> result_set \<Rightarrow> (shell, int \<times> result_set) cmd" where
  "print_rows 0 k d cs rowCount rs = raise OutOfFuel"
| "print_rows (Suc fuel) k d cs rowCount rs =
     bnd (rs_next k d rs) (\<lambda>(b, rs).
     if b
     then seq (say ''|'') (seq (print_row k d rs cs) (seq (say [CHR 0x0A])
          (print_rows fuel k d cs (rowCount + 1) rs)))
     else ret (rowCount, rs))"

definition printResultSet :: "nat \<Rightarrow> nat \<Rightarrow> result_set \<Rightarrow> (shell, result_set) cmd" where
  "printResultSet k d rs =
     bnd (lift (columns (rs_schema rs) 1 (nat (md_columnCount (rs_schema rs))))) (\<lambda>cs.
     seq (say (sep_line cs)) (seq (say (header_line cs)) (seq (say (sep_line cs))
    (bnd (print_rows k k d cs 0 rs) (\<lambda>(n, rs).
     seq (say (sep_line cs)) (seq (say (show_int n @ '' row(s)'' @ [CHR 0x0A])) (ret rs)))))))"

definition run_sql :: "(string \<Rightarrow> string list) \<Rightarrow> nat \<Rightarrow> nat \<Rightarrow> meta_mgr \<Rightarrow> string \<Rightarrow> (shell, unit) cmd" where
  "run_sql tok k d mm sql =
     try_catch
      (let lowerSql = to_lower sql
       in if take 6 lowerSql = ''select''
          then bnd (st_executeQuery tok k d mm sql) (\<lambda>rs.
               bnd (printResultSet k d rs) (\<lambda>rs. rs_close k d rs))
          else bnd (st_executeUpdate tok k d mm sql) (\<lambda>affected.
               if takeWhile (\<lambda>c. c \<noteq> CHR '' '') lowerSql = ''create'' then say (''OK'' @ [CHR 0x0A])
               else say (show_int affected @ '' row(s) affected'' @ [CHR 0x0A])))
      (\<lambda>e. upd (\<lambda>s. s\<lparr>printed := printed s @ [Err (''Error: '' @ e)]\<rparr>))"

text \<open>
  One line of input: either the loop ends, or the buffer it leaves and the statement it
  completes.
\<close>

datatype input = Quit | Buffer string | Execute string

definition read_line :: "string \<Rightarrow> string \<Rightarrow> input" where
  "read_line buf line =
     (let trimmedLine = trim line in
      if buf = [] \<and> to_lower trimmedLine \<in> {''exit'', ''quit'', [CHR 0x5C, CHR ''q'']} then Quit
      else if trimmedLine = [] then Buffer buf
      else let buf = buf @ (if buf = [] then [] else '' '') @ line;
               trimmedBuf = trim buf
           in if last trimmedBuf \<noteq> CHR '';'' then Buffer buf
              else let sql = trim (butlast trimmedBuf)
                   in if sql = [] then Buffer [] else Execute sql)"

fun main_loop :: "(string \<Rightarrow> string list) \<Rightarrow> nat \<Rightarrow> nat \<Rightarrow> meta_mgr \<Rightarrow> string \<Rightarrow> string list \<Rightarrow> (shell, unit) cmd" where
  "main_loop tok k d mm buf [] = seq (say (if buf = [] then ''sampledb> '' else ''       -> '')) (say [CHR 0x0A])"
| "main_loop tok k d mm buf (line # lines) =
     seq (say (if buf = [] then ''sampledb> '' else ''       -> ''))
     (case read_line buf line of
        Quit \<Rightarrow> ret ()
      | Buffer buf \<Rightarrow> main_loop tok k d mm buf lines
      | Execute sql \<Rightarrow> seq (run_sql tok k d mm sql) (main_loop tok k d mm [] lines))"

definition main_session :: "(string \<Rightarrow> string list) \<Rightarrow> nat \<Rightarrow> nat \<Rightarrow> meta_mgr \<Rightarrow> string list \<Rightarrow> (shell, unit) cmd" where
  "main_session tok k d mm lines =
     seq (main_loop tok k d mm [] lines) (seq cn_close (say (''Bye'' @ [CHR 0x0A])))"

end
