(* ===== verification/Memory.thy ===== *)
theory Memory
  imports Recovery
begin

text \<open>
  A transaction as a memory of blocks. \<open>ready s M\<close> describes a transaction that runs alone and
  has the blocks \<open>M\<close> pinned; \<open>alike s s'\<close> says that two states show the same contents and the
  same file lengths. The operations of a transaction are restated over these two: what a read
  returns, what a write changes, and that everything else stays as it was.
\<close>

section \<open>File lengths\<close>

text \<open>Every cached block lies within its file, so writing it back does not make the file longer.\<close>

definition pool_in :: "'a bm_scheme \<Rightarrow> bool" where
  "pool_in s \<longleftrightarrow> (\<forall>i < length (pool s). data_blk s (buf_blk (pool s ! i)) \<longrightarrow>
     number (buf_blk (pool s ! i)) < fm_length (fileName (buf_blk (pool s ! i))) s)"

lemma fm_length_getFile [simp]: "fm_length m (fm_getFile n s) = fm_length m s"
  by (simp add: fm_length_eq)

lemma fm_length_read: "fm_length m (snd (fm_read blk p s)) = fm_length m s"
  by (auto simp: fm_read_def Let_def fm_length_def fm_getFile_def split: option.split)

lemma fm_length_cong:
  fixes s :: "'a fm_scheme" and s' :: "'b fm_scheme"
  shows "files s' = files s \<Longrightarrow> blocksize s' = blocksize s \<Longrightarrow> fm_length m s' = fm_length m s"
  by (simp add: fm_length_eq file_bytes_def)

lemma fm_length_upd_buf [simp]:
  "fm_length m (upd_buf i f s) = fm_length m s" "fm_length m (s\<lparr>numAvailable := k\<rparr>) = fm_length m s"
  by (rule fm_length_cong; simp add: upd_buf_def)+

lemma flush_length:
  assumes "bm_log s base rs dur" "i < length (pool s)" "pool_in s" "n \<noteq> logFileName s"
  shows "fm_length n (snd (buf_flush i s)) = fm_length n s"
proof (cases "0 \<le> buf_txnum (pool s ! i)")
  case False
  then show ?thesis by (simp add: buf_flush_def cmd_simps)
next
  case True
  let ?b = "pool s ! i"
  have inv: "bm_inv s" and log: "log_state s base rs dur"
    using assms(1) by (auto simp: bm_log_def)
  have ok: "buf_ok s ?b" and d: "data_blk s (buf_blk ?b)"
    using bm_invD [OF inv assms(2)] True by (auto simp: buf_ok_def)
  then have "buf_lsn ?b \<le> latestLsn s" by (simp add: buf_ok_def)
  from log_state_flush [OF log this] obtain s1 dur1 where
    s1: "lm_flush (buf_lsn ?b) s = (Inr (), s1)" "log_state s1 base rs dur1" "log_frame s s1" by blast
  have fi: "fm_inv s1" using log_state_fm_inv [OF s1(2)] .
  have len: "fm_length m s1 = fm_length m s" if "m \<noteq> logFileName s" for m
    using s1(3) that by (simp add: log_frame_def fm_length_eq)
  have bs: "int (length (buf_page ?b)) = blocksize s1"
    using ok s1(3) by (simp add: buf_ok_def log_frame_def)
  have "snd (buf_flush i s) = upd_buf i (\<lambda>b. b\<lparr>buf_txnum := - 1\<rparr>) (store_block (buf_blk ?b) (buf_page ?b) s1)"
    using True s1(1) fi bs d by (simp add: buf_flush_def cmd_simps fm_write_store data_blk_def)
  moreover have "number (buf_blk ?b) < fm_length (fileName (buf_blk ?b)) s"
    using assms(2,3) d by (simp add: pool_in_def)
  ultimately show ?thesis
    using len [OF assms(4)] len [of "fileName (buf_blk ?b)"] fm_length_store [OF fi bs] d by (auto simp: data_blk_def)
qed

lemma assign_length:
  assumes "bm_log s base rs dur" "i < length (pool s)" "pool_in s" "n \<noteq> logFileName s"
  shows "fm_length n (snd (buf_assignToBlock i blk s)) = fm_length n s"
proof -
  obtain s1 where s1: "buf_flush i s = (Inr (), s1)"
    using buf_flush_spec [OF assms(1,2)] by blast
  have "fm_length n (snd (bnd (fm_read blk p) (\<lambda>p'. upd (upd_buf i (f p'))) s2)) = fm_length n s2" for p f and s2 :: "'a bm_scheme"
    using fm_length_read [of n blk p s2] by (auto simp: bnd_def upd_def split: prod.split sum.split)
  with s1 flush_length [OF assms] show ?thesis
    by (simp add: buf_assignToBlock_def cmd_simps)
qed

lemma tryToPin_length:
  assumes "bm_log s base rs dur" "pool_in s" "n \<noteq> logFileName s"
  shows "fm_length n (snd (bm_tryToPin blk s)) = fm_length n s"
proof -
  have p: "fm_length n (snd (bm_pin_at i s1)) = fm_length n s1" for i and s1 :: "'a bm_scheme"
    by (simp add: bm_pin_at_def cmd_simps)
  show ?thesis
  proof (cases "bm_findExistingBuffer blk s")
    case (Some i)
    then show ?thesis by (simp add: bm_tryToPin_def cmd_simps p)
  next
    case None
    show ?thesis
    proof (cases "bm_chooseUnpinnedBuffer s")
      case no: None
      with None show ?thesis by (simp add: bm_tryToPin_def cmd_simps)
    next
      case (Some i)
      then have "i < length (pool s)"
        using find_buf_Some by (auto simp: bm_chooseUnpinnedBuffer_def)
      from assign_length [OF assms(1) this assms(2,3), of blk] None Some show ?thesis
        by (auto simp: bm_tryToPin_def cmd_simps seq_def bnd_def p split: prod.split sum.split)
    qed
  qed
qed


section \<open>A transaction that runs alone\<close>

text \<open>
  \<open>exact_pins\<close>: the pins of the pool are those of this transaction. The pool has at least as
  many buffers as there are pins.
\<close>

definition exact_pins :: "'a tx_scheme \<Rightarrow> bool" where
  "exact_pins s \<longleftrightarrow> (\<forall>i < length (pool s). buf_pins (pool s ! i) = int (count (mset (pinned s)) (buf_blk (pool s ! i))))"

definition ready :: "'a tx_scheme \<Rightarrow> block_id multiset \<Rightarrow> bool" where
  "ready s M \<longleftrightarrow> (\<exists>base rs dur. tx_ok s base rs dur) \<and> solo (conc s) \<and> exact_pins s \<and> pool_in s \<and>
     mset (pinned s) = M \<and> size M \<le> length (pool s) \<and> 0 \<le> latestLsn s \<and> 0 \<le> txNum s"

definition alike :: "'a tx_scheme \<Rightarrow> 'a tx_scheme \<Rightarrow> bool" where
  "alike s s' \<longleftrightarrow> blocksize s' = blocksize s \<and> logFileName s' = logFileName s \<and> length (pool s') = length (pool s) \<and>
     txNum s' = txNum s \<and> tx.more s' = tx.more s \<and>
     (\<forall>b. data_blk s b \<longrightarrow> view s' b = view s b) \<and> (\<forall>n. n \<noteq> logFileName s \<longrightarrow> fm_length n s' = fm_length n s)"

lemma alike_refl [simp]: "alike s s"
  by (simp add: alike_def)

lemma alike_data_blk: "alike s s' \<Longrightarrow> data_blk s' = data_blk s"
  by (simp add: alike_def data_blk_def fun_eq_iff)

lemma alike_trans [trans]: "alike s s' \<Longrightarrow> alike s' s'' \<Longrightarrow> alike s s''"
  using alike_data_blk [of s s'] by (simp add: alike_def)

lemma alike_sym: "alike s s' \<Longrightarrow> alike s' s"
  using alike_data_blk [of s s'] by (simp add: alike_def)

lemma readyD:
  assumes "ready s M"
  shows "solo (conc s)" "exact_pins s" "pool_in s" "mset (pinned s) = M" "size M \<le> length (pool s)" "bm_inv s" "bl_ok s"
    "0 \<le> latestLsn s" "0 \<le> txNum s"
  using assms by (auto simp: ready_def tx_ok_def bm_log_def)

lemma ready_tx_ok: "ready s M \<Longrightarrow> \<exists>base rs dur. tx_ok s base rs dur"
  by (simp add: ready_def)

lemma ready_pinned: "ready s M \<Longrightarrow> b \<in># M \<Longrightarrow> b \<in> set (pinned s)"
  by (metis readyD(4) set_mset_mset)

lemma ready_bounds: "ready s M \<Longrightarrow> blocksize s < 2 ^ 31" "ready s M \<Longrightarrow> 4 \<le> blocksize s"
  by (auto simp: ready_def tx_ok_def bm_log_def dest: log_state_bounds)

lemma ready_view_length:
  assumes "ready s M" "data_blk s b"
  shows "int (length (view s b)) = blocksize s"
  using assms view_length unfolding ready_def by blast

lemma ready_conc:
  assumes "ready s M" "solo c"
  shows "ready (s\<lparr>conc := c\<rparr>) M" "alike s (s\<lparr>conc := c\<rparr>)"
proof -
  obtain base rs dur where "tx_ok s base rs dur"
    using ready_tx_ok [OF assms(1)] by blast
  then have ok: "\<exists>base rs dur. tx_ok (s\<lparr>conc := c\<rparr>) base rs dur"
    by (intro exI) simp
  have len: "fm_length n (s\<lparr>conc := c\<rparr>) = fm_length n s" for n
    by (rule fm_length_cong) simp_all
  show "ready (s\<lparr>conc := c\<rparr>) M"
    unfolding ready_def using readyD [OF assms(1)] assms(2) len
    by (intro conjI ok) (simp_all add: exact_pins_def pool_in_def)
  show "alike s (s\<lparr>conc := c\<rparr>)"
    using len by (simp add: alike_def)
qed

section \<open>Reads\<close>

lemma ready_getInt:
  assumes "ready s M" "blk \<in># M"
  shows "\<exists>s'. tx_getInt blk off s = (getInt (view s blk) off, s') \<and> ready s' M \<and> alike s s'"
proof -
  obtain base rs dur where ok: "tx_ok s base rs dur"
    using assms(1) ready_tx_ok by blast
  note sl = solo_sLock [OF readyD(1) [OF assms(1)], of blk]
  show ?thesis
    using tx_getInt_eq [OF ok ready_pinned [OF assms] sl(1)] ready_conc [OF assms(1) sl(2)] by auto
qed

lemma ready_getString:
  assumes "ready s M" "blk \<in># M"
  shows "\<exists>s'. tx_getString blk off s = (getString (view s blk) off, s') \<and> ready s' M \<and> alike s s'"
proof -
  obtain base rs dur where ok: "tx_ok s base rs dur"
    using assms(1) ready_tx_ok by blast
  note sl = solo_sLock [OF readyD(1) [OF assms(1)], of blk]
  obtain i where i: "map_of (buffers s) blk = Some i"
    using bl_ok_buffer [OF readyD(7) [OF assms(1)] ready_pinned [OF assms]] by blast
  have "tx_getString blk off s = (getString (view s blk) off, s\<lparr>conc := snd (cm_sLock blk [] (conc s))\<rparr>)"
    using i sl(1) view_pinned(1) [OF ok i]
    by (simp add: tx_getString_def on_conc_eq cmd_simps bl_getBuffer_def page_at_def)
  with ready_conc [OF assms(1) sl(2)] show ?thesis by auto
qed

lemma ready_size:
  assumes "ready s M"
  shows "\<exists>s'. tx_size fn s = (Inr (fm_length fn s), s') \<and> ready s' M \<and> alike s s'"
proof -
  note sl = solo_sLock [OF readyD(1) [OF assms], of "BlockId fn (- 1)"]
  let ?s = "s\<lparr>conc := snd (cm_sLock (BlockId fn (- 1)) [] (conc s))\<rparr>"
  have "fm_length fn ?s = fm_length fn s"
    by (rule fm_length_cong) simp_all
  then have "tx_size fn s = (Inr (fm_length fn s), ?s)"
    using sl(1) by (simp add: tx_size_def on_conc_eq cmd_simps)
  with ready_conc [OF assms sl(2)] show ?thesis by auto
qed

section \<open>Pinning\<close>

text \<open>With fewer pins than buffers, a buffer is free or holds the block.\<close>

lemma free_buffer:
  assumes "ready s M" "size M < length (pool s)"
  shows "0 < numAvailable s"
proof (rule ccontr)
  assume "\<not> 0 < numAvailable s"
  then have "filter (\<lambda>b. \<not> buf_isPinned b) (pool s) = []"
    using readyD(6) [OF assms(1)] by (simp add: bm_inv_def unpinned_count_def)
  then have all: "0 < buf_pins (pool s ! i)" if "i < length (pool s)" for i
    using that by (auto simp: filter_empty_conv buf_isPinned_def)
  let ?bs = "map buf_blk (pool s)"
  have mem: "buf_blk (pool s ! i) \<in># M" if "i < length (pool s)" for i
    using all [OF that] readyD(2,4) [OF assms(1)] that unfolding exact_pins_def by (metis count_greater_zero_iff of_nat_0_less_iff)
  have null: "buf_blk (pool s ! i) \<noteq> null_blk" if "i < length (pool s)" for i
    using bm_invD [OF readyD(6) [OF assms(1)] that] all [OF that] by (auto simp: buf_ok_def)
  have "distinct ?bs"
    using readyD(6) [OF assms(1)] null by (auto simp: bm_inv_def no_dup_def distinct_conv_nth)
  moreover have "set ?bs \<subseteq> set_mset M"
    using mem by (auto simp: in_set_conv_nth)
  ultimately have "length (pool s) \<le> card (set_mset M)"
    by (metis card_mono distinct_card finite_set_mset length_map)
  also have "card (set_mset M) \<le> size M"
    by (metis assms(1) card_length readyD(4) set_mset_mset size_mset)
  finally show False using assms(2) by simp
qed

lemma ready_pin:
  assumes "ready s M" "size M < length (pool s)" "data_blk s blk" "number blk < fm_length (fileName blk) s"
  shows "\<exists>s'. tx_pin blk s = (Inr (), s') \<and> ready s' (add_mset blk M) \<and> alike s s'"
proof -
  obtain base rs dur where ok: "tx_ok s base rs dur"
    using assms(1) ready_tx_ok by blast
  then have log: "bm_log s base rs dur" by (simp add: tx_ok_def)
  note free = free_buffer [OF assms(1,2)]
  from bm_tryToPin_spec [OF log assms(3)] free obtain i s1 dur1 where
    t: "bm_tryToPin blk s = (Inr (Some i), s1)" "bm_log s1 base rs dur1" "prefix dur dur1" "bm_frame (dlsn base dur1) s s1"
      "pinned_at s s1 blk i" by (auto split: option.splits)
  let ?s = "s1\<lparr>buffers := om_put blk i (buffers s1), pinned := pinned s1 @ [blk]\<rparr>"
  have eq: "tx_pin blk s = (Inr (), ?s)"
    using t(1) by (simp add: tx_pin_def bl_pin_def bm_pin_no_wait cmd_simps)
  from tx_pin_spec [OF ok assms(3)] free eq obtain dur' j where
    s': "tx_ok ?s base rs dur'" "tx_frame (dlsn base dur') s ?s" "conc ?s = conc s" "pinned ?s = pinned s @ [blk]"
      "pinned_at s ?s blk j" by auto
  have len: "fm_length n ?s = fm_length n s" if "n \<noteq> logFileName s" for n
    using tryToPin_length [OF log readyD(3) [OF assms(1)] that, of blk] t(1) fm_length_cong [of ?s s1 n] by simp
  have lp: "length (pool ?s) = length (pool s)" and db: "data_blk ?s = data_blk s"
    using s'(2) tx_frame_data_blk [OF s'(2)] by (auto simp: tx_frame_def bm_core_def)
  have pin: "pool_in ?s"
    unfolding pool_in_def
  proof (intro allI impI)
    fix k assume k: "k < length (pool ?s)" and d: "data_blk ?s (buf_blk (pool ?s ! k))"
    have "number (buf_blk (pool ?s ! k)) < fm_length (fileName (buf_blk (pool ?s ! k))) s"
    proof (cases "k = j")
      case True
      with s'(5) assms(4) show ?thesis by (simp add: pinned_at_def)
    next
      case False
      then have "pool ?s ! k = pool s ! k"
        using s'(5) k lp by (simp add: pinned_at_def)
      with readyD(3) [OF assms(1)] k lp d db show ?thesis by (simp add: pool_in_def)
    qed
    moreover have "data_blk s (buf_blk (pool ?s ! k))"
      using d db by simp
    then have "fileName (buf_blk (pool ?s ! k)) \<noteq> logFileName s"
      by (simp add: data_blk_def)
    ultimately show "number (buf_blk (pool ?s ! k)) < fm_length (fileName (buf_blk (pool ?s ! k))) ?s"
      using len by simp
  qed
  have exact: "exact_pins ?s"
    unfolding exact_pins_def
  proof (intro allI impI)
    fix k assume k: "k < length (pool ?s)"
    have ex: "buf_pins (pool s ! k) = int (count (mset (pinned s)) (buf_blk (pool s ! k)))"
      using readyD(2) [OF assms(1)] k lp by (simp add: exact_pins_def)
    have nd: "no_dup (pool ?s)"
      using s'(1) by (simp add: tx_ok_def bm_log_def bm_inv_def)
    show "buf_pins (pool ?s ! k) = int (count (mset (pinned ?s)) (buf_blk (pool ?s ! k)))"
    proof (cases "k = j")
      case False
      then have p: "pool ?s ! k = pool s ! k" and "buf_blk (pool ?s ! j) = blk" "j < length (pool ?s)"
        using s'(5) k lp by (auto simp: pinned_at_def)
      then have "buf_blk (pool ?s ! k) \<noteq> blk"
        using nd k False assms(3) unfolding no_dup_def by (metis null_not_data)
      with p ex s'(4) show ?thesis by simp
    next
      case True
      have b: "buf_blk (pool ?s ! j) = blk"
        using s'(5) by (simp add: pinned_at_def)
      show ?thesis
      proof (cases "buf_isPinned (pool s ! j)")
        case p: True
        then have "pool ?s ! j = buf_pin (pool s ! j)"
          using s'(5) by (simp add: pinned_at_def)
        with ex b True s'(4) show ?thesis by (simp add: buf_pin_def)
      next
        case False
        have "blk \<notin> set (pinned s)"
        proof
          assume "blk \<in> set (pinned s)"
          then obtain m where m: "m < length (pool s)" "buf_blk (pool s ! m) = blk" "buf_isPinned (pool s ! m)"
            using bl_ok_buffer [OF readyD(7) [OF assms(1)]] by blast
          then have "m \<noteq> j" using False by auto
          then have "buf_blk (pool ?s ! m) = blk"
            using s'(5) m by (simp add: pinned_at_def)
          with \<open>m \<noteq> j\<close> m(1) b True k lp nd assms(3) show False
            unfolding no_dup_def by (metis null_not_data)
        qed
        then have "count (mset (pinned s)) blk = 0"
          by (simp add: count_eq_zero_iff)
        with False s'(4,5) b True show ?thesis by (simp add: pinned_at_def del: count_mset_0_iff)
      qed
    qed
  qed
  have "alike s ?s"
    using s'(2) lp len tx_more_eq [of s1 s] t(4) unfolding alike_def tx_frame_def bm_core_def bm_frame_def by simp
  moreover have "ready ?s (add_mset blk M)"
    unfolding ready_def using s'(1-4) exact pin readyD [OF assms(1)] assms(2) lp by (auto simp: tx_frame_def bm_core_def)
  ultimately show ?thesis
    using eq by blast
qed

lemma ready_unpin:
  assumes "ready s M" "blk \<in># M"
  shows "\<exists>s'. tx_unpin blk s = (Inr (), s') \<and> ready s' (M - {#blk#}) \<and> alike s s'"
proof -
  obtain base rs dur where ok: "tx_ok s base rs dur"
    using assms(1) ready_tx_ok by blast
  note mem = ready_pinned [OF assms]
  obtain i where i: "map_of (buffers s) blk = Some i" "i < length (pool s)" "buf_blk (pool s ! i) = blk" "data_blk s blk"
    using bl_ok_buffer [OF readyD(7) [OF assms(1)] mem] by blast
  from bm_unpin_spec [of s base rs dur i] ok i(2) bl_ok_buffer [OF readyD(7) [OF assms(1)] mem] i(1) obtain s1 where
    s1: "bm_unpin i s = (Inr (), s1)" by (auto simp: tx_ok_def)
  from tx_unpin_spec [OF ok mem i(1)] obtain s' where
    s': "tx_unpin blk s = (Inr (), s')" "tx_ok s' base rs dur" "tx_frame (dlsn base dur) s s'" "conc s' = conc s"
      "pinned s' = remove1 blk (pinned s)" "pool s' = (pool s)[i := buf_unpin (pool s ! i)]" by blast
  have f: "files s' = files s" "blocksize s' = blocksize s" "tx.more s' = tx.more s"
    using s'(1) i(1)
    by (auto simp: tx_unpin_def bl_unpin_def bm_unpin_def upd_buf_def seq_def bnd_def gets_def upd_def ret_def split: if_splits)
  have len: "fm_length n s' = fm_length n s" for n
    using f by (intro fm_length_cong) simp_all
  have db: "data_blk s' = data_blk s"
    using tx_frame_data_blk [OF s'(3)] .
  have blks: "buf_blk (pool s' ! j) = buf_blk (pool s ! j)" for j
    using i(2) by (cases "j = i") (simp_all add: s'(6) buf_unpin_def)
  have "exact_pins s'"
    unfolding exact_pins_def
  proof (intro allI impI)
    fix j assume j: "j < length (pool s')"
    have ex: "buf_pins (pool s ! j) = int (count (mset (pinned s)) (buf_blk (pool s ! j)))"
      using readyD(2) [OF assms(1)] j s'(6) by (simp add: exact_pins_def)
    show "buf_pins (pool s' ! j) = int (count (mset (pinned s')) (buf_blk (pool s' ! j)))"
    proof (cases "j = i")
      case True
      have "0 < count (mset (pinned s)) blk" using mem by simp
      with True ex i(2,3) show ?thesis by (simp add: s'(5,6) buf_unpin_def)
    next
      case False
      have "no_dup (pool s)"
        using readyD(6) [OF assms(1)] by (simp add: bm_inv_def)
      then have "buf_blk (pool s ! j) \<noteq> blk"
        using False i j s'(6) unfolding no_dup_def by (metis length_list_update null_not_data)
      with False ex show ?thesis by (simp add: s'(5,6))
    qed
  qed
  moreover have "pool_in s'"
    using readyD(3) [OF assms(1)] len db s'(6) unfolding pool_in_def blks by simp
  ultimately have "ready s' (M - {#blk#})"
    unfolding ready_def using s'(2-6) readyD [OF assms(1)] size_Diff1_le [of M blk] by (auto simp: tx_frame_def bm_core_def)
  moreover have "alike s s'"
    using s'(3) len f(3) by (simp add: alike_def tx_frame_def bm_core_def)
  ultimately show ?thesis
    using s'(1) by blast
qed


section \<open>A transaction on a database at rest\<close>

text \<open>The further components of a state do not matter.\<close>

lemma extend_simps:
  fixes s :: tx
  shows "file_bytes n (tx.extend s m) = file_bytes n s" "fm_length n (tx.extend s m) = fm_length n s"
    "disk_block (tx.extend s m) = disk_block s" "data_blk (tx.extend s m) = data_blk s" "fm_inv (tx.extend s m) = fm_inv s"
  by (simp_all add: fun_eq_iff disk_block_def data_blk_def file_bytes_def fm_length_def fm_inv_def tx.defs split: option.split)

lemma extend_invs:
  fixes s :: tx
  shows "log_rep (tx.extend s m) = log_rep s" "buf_ok (tx.extend s m) = buf_ok s" "bl_ok (tx.extend s m) = bl_ok s"
    "exact_pins (tx.extend s m) = exact_pins s" "pool_in (tx.extend s m) = pool_in s"
  unfolding fun_eq_iff log_rep_def buf_ok_def bl_ok_def exact_pins_def pool_in_def extend_simps
  by (simp_all add: tx.defs)

lemma ready_extend:
  fixes s :: tx
  shows "ready (tx.extend s m) M = ready s M"
  unfolding ready_def tx_ok_def bm_log_def log_state_def bm_inv_def extend_invs by (simp add: tx.defs)

lemma ready_new:
  assumes "history h" "nextTxNum h + 1 < 2 ^ 31" "tx_new h = (Inr (), s)" "pinned s = []" "exact_pins s" "pool_in s"
  shows "ready s {#}"
proof -
  obtain base rs recs where rest: "at_rest h base rs recs"
    using history_at_rest [OF assms(1)] by blast
  from run_active [OF rest assms(2,3), of "[]" s] obtain us dur where
    a: "active (view h) (rs @ [start_rec (txNum s)]) us s base dur" "solo (conc s)"
    by (auto simp: cmd_simps)
  have "0 \<le> latestLsn s"
    using activeD(1,9) [OF a(1)] by (auto simp: tx_ok_def bm_log_def log_state_def)
  with activeD(1,5) [OF a(1)] a(2) assms(4-6) show ?thesis
    by (auto simp: ready_def)
qed

end
