(* ===== verification/ScanContract.thy ===== *)
theory ScanContract
  imports Scans "HOL-Library.Multiset"
begin

text \<open>
  What a scan promises, as a locale over its functions. A scan stands for a list of rows and a
  position in it; \<open>next\<close> moves the position, the getters read the current row. Several scans
  share a transaction: \<open>G s M\<close> says that the state is sound and the resources \<open>M\<close> (pins of
  blocks) are held, \<open>own c\<close> is the part that the scan holds, and \<open>like s s'\<close> that nothing
  which scans depend on has changed. Selection, projection and product keep the promise.
\<close>

section \<open>The promise\<close>

locale memory =
  fixes like :: "'s \<Rightarrow> 's \<Rightarrow> bool"
  assumes like_refl: "like s s"
    and like_trans: "like s s' \<Longrightarrow> like s' s'' \<Longrightarrow> like s s''"
begin

lemma like_trans3: "like s s' \<Longrightarrow> like s' s'' \<Longrightarrow> like s'' t \<Longrightarrow> like s t"
  using like_trans by blast

end

text \<open>
  The position \<open>Some k\<close> is reached after \<open>k\<close> rows; \<open>None\<close> is the position after \<open>next\<close> has
  returned false, where only \<open>beforeFirst\<close> and \<open>close\<close> are promised.
\<close>

locale cursor = memory like
  for like :: "'s \<Rightarrow> 's \<Rightarrow> bool" +
  fixes ops :: "('s, 'c) scan_ops" and G :: "'s \<Rightarrow> 'r multiset \<Rightarrow> bool" and own :: "'c \<Rightarrow> 'r multiset"
    and rep :: "'s \<Rightarrow> 'c \<Rightarrow> string set \<Rightarrow> row list \<Rightarrow> nat option \<Rightarrow> bool"
  assumes stable: "rep s c F rows p \<Longrightarrow> like s s' \<Longrightarrow> rep s' c F rows p"
    and rows_dom: "rep s c F rows p \<Longrightarrow> r \<in> set rows \<Longrightarrow> dom r = F"
    and within: "rep s c F rows (Some k) \<Longrightarrow> k \<le> length rows"
    and next_row: "rep s c F rows (Some k) \<Longrightarrow> G s (own c + M) \<Longrightarrow>
      \<exists>s' c'. op_next ops c s = (Inr (k < length rows, c'), s') \<and> G s' (own c' + M) \<and> like s s' \<and>
        rep s' c' F rows (if k < length rows then Some (Suc k) else None)"
    and const_value: "rep s c F rows (Some (Suc k)) \<Longrightarrow> G s (own c + M) \<Longrightarrow> (rows ! k) f = Some v \<Longrightarrow>
      \<exists>s'. op_getValue ops f c s = (Inr (const_of v), s') \<and> G s' (own c + M) \<and> like s s'"

text \<open>A scan can also start again, read the fields at their types, and be closed.\<close>

locale scan = cursor like ops G own rep
  for like :: "'s \<Rightarrow> 's \<Rightarrow> bool" and ops :: "('s, 'c) scan_ops" and G :: "'s \<Rightarrow> 'r multiset \<Rightarrow> bool"
    and own :: "'c \<Rightarrow> 'r multiset" and rep :: "'s \<Rightarrow> 'c \<Rightarrow> string set \<Rightarrow> row list \<Rightarrow> nat option \<Rightarrow> bool" +
  assumes restart: "rep s c F rows p \<Longrightarrow> G s (own c + M) \<Longrightarrow>
      \<exists>s' c'. op_beforeFirst ops c s = (Inr c', s') \<and> G s' (own c' + M) \<and> like s s' \<and> rep s' c' F rows (Some 0)"
    and int_value: "rep s c F rows (Some (Suc k)) \<Longrightarrow> G s (own c + M) \<Longrightarrow> (rows ! k) f = Some (VInt i) \<Longrightarrow>
      \<exists>s'. op_getInt ops f c s = (Inr i, s') \<and> G s' (own c + M) \<and> like s s'"
    and bool_value: "rep s c F rows (Some (Suc k)) \<Longrightarrow> G s (own c + M) \<Longrightarrow> (rows ! k) f = Some (VInt i) \<Longrightarrow>
      \<exists>s'. op_getBool ops f c s = (Inr (i \<noteq> 0), s') \<and> G s' (own c + M) \<and> like s s'"
    and string_value: "rep s c F rows (Some (Suc k)) \<Longrightarrow> G s (own c + M) \<Longrightarrow> (rows ! k) f = Some (VStr x) \<Longrightarrow>
      \<exists>s'. op_getString ops f c s = (Inr x, s') \<and> G s' (own c + M) \<and> like s s'"
    and has_field: "rep s c F rows p \<Longrightarrow> op_hasField ops f c = Inr (f \<in> F)"
    and closes: "rep s c F rows p \<Longrightarrow> G s (own c + M) \<Longrightarrow>
      \<exists>s'. op_close ops c s = (Inr (), s') \<and> G s' M \<and> like s s'"

text \<open>What a client sees that asks for the values of some fields row by row.\<close>

fun get_values :: "('s, 'c) scan_ops \<Rightarrow> string list \<Rightarrow> 'c \<Rightarrow> ('s, const list) cmd" where
  "get_values ops [] c = ret []"
| "get_values ops (f # fs) c = bnd (op_getValue ops f c) (\<lambda>v. bnd (get_values ops fs c) (\<lambda>vs. ret (v # vs)))"

fun fetch :: "nat \<Rightarrow> ('s, 'c) scan_ops \<Rightarrow> string list \<Rightarrow> 'c \<Rightarrow> ('s, const list list \<times> 'c) cmd" where
  "fetch 0 ops fs c = raise OutOfFuel"
| "fetch (Suc fuel) ops fs c =
     bnd (op_next ops c) (\<lambda>(b, c).
     if b then bnd (get_values ops fs c) (\<lambda>vs. bnd (fetch fuel ops fs c) (\<lambda>(vss, c). ret (vs # vss, c)))
     else ret ([], c))"

definition row_values :: "string list \<Rightarrow> row \<Rightarrow> const list" where
  "row_values fs r = map (\<lambda>f. const_of (the (r f))) fs"

context cursor
begin

lemma current_row: "rep s c F rows (Some (Suc k)) \<Longrightarrow> f \<in> F \<Longrightarrow> \<exists>v. (rows ! k) f = Some v"
  using within rows_dom by (metis Suc_le_eq domD nth_mem)

lemma reads_current:
  assumes "rep s0 c F rows (Some (Suc k))"
  shows "reads_row (\<lambda>s. like s0 s \<and> G s (own c + M)) (\<lambda>f. op_getValue ops f c) (rows ! k)"
  unfolding reads_row_def
proof (intro allI impI)
  fix f v s assume r: "(rows ! k) f = Some v" and s: "like s0 s \<and> G s (own c + M)"
  then obtain s' where "op_getValue ops f c s = (Inr (const_of v), s')" "G s' (own c + M)" "like s s'"
    using const_value [OF stable [OF assms]] by blast
  with s show "\<exists>s'. op_getValue ops f c s = (Inr (const_of v), s') \<and> like s0 s' \<and> G s' (own c + M)"
    using like_trans by blast
qed

lemma get_values_row:
  assumes "rep s c F rows (Some (Suc k))" "G s (own c + M)" "set fs \<subseteq> F"
  shows "\<exists>s'. get_values ops fs c s = (Inr (row_values fs (rows ! k)), s') \<and> G s' (own c + M) \<and> like s s'"
  using assms
proof (induction fs arbitrary: s)
  case Nil
  then show ?case by (simp add: cmd_simps row_values_def like_refl)
next
  case (Cons f fs)
  obtain v where v: "(rows ! k) f = Some v"
    using current_row [OF Cons.prems(1)] Cons.prems(3) by auto
  from const_value [OF Cons.prems(1,2) v] obtain s1 where
    s1: "op_getValue ops f c s = (Inr (const_of v), s1)" "G s1 (own c + M)" "like s s1" by blast
  from Cons.IH [OF stable [OF Cons.prems(1) s1(3)] s1(2)] Cons.prems(3) obtain s2 where
    "get_values ops fs c s1 = (Inr (row_values fs (rows ! k)), s2)" "G s2 (own c + M)" "like s1 s2" by auto
  with s1 v show ?case
    using like_trans by (auto simp: cmd_simps row_values_def)
qed

text \<open>A client that fetches to the end sees the rest of the rows.\<close>

lemma fetch_rest:
  assumes "rep s c F rows (Some k)" "G s (own c + M)" "set fs \<subseteq> F" "length rows - k < fuel"
  shows "\<exists>s' c'. fetch fuel ops fs c s = (Inr (map (row_values fs) (drop k rows), c'), s') \<and>
    G s' (own c' + M) \<and> like s s' \<and> rep s' c' F rows None"
  using assms
proof (induction fuel arbitrary: s c k)
  case 0
  then show ?case by simp
next
  case (Suc fuel)
  from next_row [OF Suc.prems(1,2)] obtain s1 c1 where
    s1: "op_next ops c s = (Inr (k < length rows, c1), s1)" "G s1 (own c1 + M)" "like s s1"
      "rep s1 c1 F rows (if k < length rows then Some (Suc k) else None)" by blast
  show ?case
  proof (cases "k < length rows")
    case False
    with s1 show ?thesis by (auto simp: cmd_simps)
  next
    case True
    with s1(4) have r1: "rep s1 c1 F rows (Some (Suc k))" by simp
    from get_values_row [OF r1 s1(2) Suc.prems(3)] obtain s2 where
      s2: "get_values ops fs c1 s1 = (Inr (row_values fs (rows ! k)), s2)" "G s2 (own c1 + M)" "like s1 s2" by blast
    have "length rows - Suc k < fuel"
      using Suc.prems(4) True by arith
    from Suc.IH [OF stable [OF r1 s2(3)] s2(2) Suc.prems(3) this] obtain s3 c3 where
      s3: "fetch fuel ops fs c1 s2 = (Inr (map (row_values fs) (drop (Suc k) rows), c3), s3)" "G s3 (own c3 + M)"
        "like s2 s3" "rep s3 c3 F rows None" by blast
    have "fetch (Suc fuel) ops fs c s = (Inr (map (row_values fs) (drop k rows), c3), s3)"
      using s1(1) s2(1) s3(1) True by (simp add: cmd_simps flip: Cons_nth_drop_Suc)
    with s3(2,4) like_trans3 [OF s1(3) s2(3) s3(3)] show ?thesis by blast
  qed
qed

end


section \<open>Selection\<close>

definition sel_own :: "('c \<Rightarrow> 'r multiset) \<Rightarrow> 'c sel_scan \<Rightarrow> 'r multiset" where
  "sel_own own c = own (sel_scan c)"

text \<open>The predicate must be typed for every row; the fuel exceeds the number of rows.\<close>

definition sel_rep ::
  "nat \<Rightarrow> ('s \<Rightarrow> 'c \<Rightarrow> string set \<Rightarrow> row list \<Rightarrow> nat option \<Rightarrow> bool) \<Rightarrow> 's \<Rightarrow> 'c sel_scan \<Rightarrow> string set \<Rightarrow> row list \<Rightarrow>
   nat option \<Rightarrow> bool" where
  "sel_rep k rep s c F rows p \<longleftrightarrow> (\<exists>rows0 p0. rep s (sel_scan c) F rows0 p0 \<and> length rows0 < k \<and>
     (\<forall>r \<in> set rows0. \<forall>t \<in> set (sel_pred c). tm_typed r t) \<and> rows = filter (\<lambda>r. pr_holds r (sel_pred c)) rows0 \<and>
     (case p of None \<Rightarrow> True | Some j \<Rightarrow> \<exists>i. p0 = Some i \<and> j = length (filter (\<lambda>r. pr_holds r (sel_pred c)) (take i rows0)) \<and>
        (0 < j \<longrightarrow> 0 < i \<and> pr_holds (rows0 ! (i - 1)) (sel_pred c))))"

lemma filter_nth_take:
  assumes "i < length xs" "P (xs ! i)"
  shows "filter P xs ! length (filter P (take i xs)) = xs ! i"
proof -
  have "filter P xs = filter P (take i xs) @ xs ! i # filter P (drop (Suc i) xs)"
    using id_take_nth_drop [OF assms(1)] assms(2) by (metis filter.simps(2) filter_append)
  then show ?thesis by simp
qed

context cursor
begin

lemma select_next_loop:
  assumes "rep s c F rows (Some i)" "G s (own c + M)" "\<forall>r \<in> set rows. \<forall>t \<in> set pr. tm_typed r t" "length rows - i < fuel"
  shows "\<exists>s' c' b p. sel_next_loop fuel ops pr c s = (Inr (b, c'), s') \<and> G s' (own c' + M) \<and> like s s' \<and> rep s' c' F rows p \<and>
    (if b then \<exists>i'. p = Some (Suc i') \<and> i \<le> i' \<and> i' < length rows \<and> pr_holds (rows ! i') pr \<and>
       filter (\<lambda>r. pr_holds r pr) (take i' rows) = filter (\<lambda>r. pr_holds r pr) (take i rows)
     else p = None \<and> filter (\<lambda>r. pr_holds r pr) (drop i rows) = [])"
  using assms(1,2,4)
proof (induction fuel arbitrary: s c i)
  case 0
  then show ?case by simp
next
  case (Suc fuel)
  from next_row [OF Suc.prems(1,2)] obtain s1 c1 where
    s1: "op_next ops c s = (Inr (i < length rows, c1), s1)" "G s1 (own c1 + M)" "like s s1"
      "rep s1 c1 F rows (if i < length rows then Some (Suc i) else None)" by blast
  show ?case
  proof (cases "i < length rows")
    case False
    with s1 show ?thesis
      by (intro exI [of _ s1] exI [of _ c1] exI [of _ False] exI [of _ None]) (simp add: cmd_simps)
  next
    case True
    with s1(4) have r1: "rep s1 c1 F rows (Some (Suc i))" by simp
    have typed: "\<forall>t \<in> set pr. tm_typed (rows ! i) t"
      using assms(3) True by simp
    from pr_isSatisfied_row [OF reads_current [OF r1] _ typed, of s1 M] s1(2) like_refl obtain s2 where
      s2: "pr_isSatisfied (\<lambda>f. op_getValue ops f c1) pr s1 = (Inr (pr_holds (rows ! i) pr), s2)" "like s1 s2"
        "G s2 (own c1 + M)" by blast
    note r2 = stable [OF r1 s2(2)]
    have l2: "like s s2"
      using like_trans [OF s1(3) s2(2)] .
    show ?thesis
    proof (cases "pr_holds (rows ! i) pr")
      case h: True
      then have "sel_next_loop (Suc fuel) ops pr c s = (Inr (True, c1), s2)"
        using s1(1) s2(1) True by (simp add: cmd_simps)
      with s2(3) l2 r2 True h show ?thesis
        by (intro exI [of _ s2] exI [of _ c1] exI [of _ True] exI [of _ "Some (Suc i)"]) auto
    next
      case h: False
      have "length rows - Suc i < fuel"
        using Suc.prems(3) True by arith
      from Suc.IH [OF r2 s2(3) this] obtain s3 c3 b p where
        s3: "sel_next_loop fuel ops pr c1 s2 = (Inr (b, c3), s3)" "G s3 (own c3 + M)" "like s2 s3" "rep s3 c3 F rows p"
          "if b then \<exists>i'. p = Some (Suc i') \<and> Suc i \<le> i' \<and> i' < length rows \<and> pr_holds (rows ! i') pr \<and>
             filter (\<lambda>r. pr_holds r pr) (take i' rows) = filter (\<lambda>r. pr_holds r pr) (take (Suc i) rows)
           else p = None \<and> filter (\<lambda>r. pr_holds r pr) (drop (Suc i) rows) = []" by blast
      have "sel_next_loop (Suc fuel) ops pr c s = (Inr (b, c3), s3)"
        using s1(1) s2(1) s3(1) True h by (simp add: cmd_simps)
      moreover have "filter (\<lambda>r. pr_holds r pr) (take (Suc i) rows) = filter (\<lambda>r. pr_holds r pr) (take i rows)"
        using h True by (simp add: take_Suc_conv_app_nth)
      moreover have "filter (\<lambda>r. pr_holds r pr) (drop i rows) = filter (\<lambda>r. pr_holds r pr) (drop (Suc i) rows)"
        using h True by (simp flip: Cons_nth_drop_Suc)
      ultimately show ?thesis
        using s3(2,4,5) like_trans [OF l2 s3(3)]
        by (intro exI [of _ s3] exI [of _ c3] exI [of _ b] exI [of _ p]) (auto split: if_splits)
    qed
  qed
qed

lemma select_current:
  assumes "sel_rep k rep s c F rows (Some (Suc j))"
  obtains rows0 i where "rep s (sel_scan c) F rows0 (Some (Suc i))" "rows0 ! i = rows ! j"
proof -
  obtain rows0 i where i: "rep s (sel_scan c) F rows0 (Some i)" "rows = filter (\<lambda>r. pr_holds r (sel_pred c)) rows0"
    "Suc j = length (filter (\<lambda>r. pr_holds r (sel_pred c)) (take i rows0))" "0 < i" "pr_holds (rows0 ! (i - 1)) (sel_pred c)"
    using assms by (auto simp: sel_rep_def)
  then obtain i' where i': "i = Suc i'" by (cases i) auto
  then have l: "i' < length rows0"
    using within [OF i(1)] by simp
  then have "j = length (filter (\<lambda>r. pr_holds r (sel_pred c)) (take i' rows0))"
    using i i' by (simp add: take_Suc_conv_app_nth)
  with filter_nth_take [of i' rows0] l i i' that [of rows0 i'] show ?thesis by simp
qed

end

context scan
begin

theorem select_scan: "scan like (sel_ops k ops) G (sel_own own) (sel_rep k rep)"
proof (unfold_locales, goal_cases)
  case (1 s c F rows p s')
  then show ?case unfolding sel_rep_def using stable by blast
next
  case (2 s c F rows p r)
  then obtain rows0 p0 where "rep s (sel_scan c) F rows0 p0" "r \<in> set rows0"
    by (auto simp: sel_rep_def)
  then show ?case by (rule rows_dom)
next
  case (3 s c F rows j)
  then obtain rows0 i where "rows = filter (\<lambda>r. pr_holds r (sel_pred c)) rows0"
    "j = length (filter (\<lambda>r. pr_holds r (sel_pred c)) (take i rows0))"
    by (auto simp: sel_rep_def)
  then show ?case
    by (metis append_take_drop_id filter_append le_add1 length_append)
next
  case (4 s c F rows j M)
  let ?H = "\<lambda>r. pr_holds r (sel_pred c)"
  obtain rows0 i where i: "rep s (sel_scan c) F rows0 (Some i)" "length rows0 < k"
    "\<forall>r \<in> set rows0. \<forall>t \<in> set (sel_pred c). tm_typed r t" "rows = filter ?H rows0" "j = length (filter ?H (take i rows0))"
    using 4(1) by (auto simp: sel_rep_def)
  have g: "G s (own (sel_scan c) + M)" and fuel: "length rows0 - i < k"
    using 4(2) i(2) by (simp_all add: sel_own_def)
  from select_next_loop [OF i(1) g i(3) fuel] obtain s' c' b p where
    s': "sel_next_loop k ops (sel_pred c) (sel_scan c) s = (Inr (b, c'), s')" "G s' (own c' + M)" "like s s'"
      "rep s' c' F rows0 p"
      "if b then \<exists>i'. p = Some (Suc i') \<and> i \<le> i' \<and> i' < length rows0 \<and> ?H (rows0 ! i') \<and>
         filter ?H (take i' rows0) = filter ?H (take i rows0)
       else p = None \<and> filter ?H (drop i rows0) = []" by blast
  have split: "rows = filter ?H (take i rows0) @ filter ?H (drop i rows0)"
    unfolding i(4) by (metis append_take_drop_id filter_append)
  have b: "b \<longleftrightarrow> j < length rows"
  proof (cases b)
    case False
    with s'(5) split i(5) show ?thesis by simp
  next
    case True
    with s'(5) obtain i' where i': "i' < length rows0" "?H (rows0 ! i')" "filter ?H (take i' rows0) = filter ?H (take i rows0)"
      by auto
    have "rows = filter ?H (take i' rows0) @ rows0 ! i' # filter ?H (drop (Suc i') rows0)"
      unfolding i(4) using id_take_nth_drop [OF i'(1)] i'(2) by (metis filter.simps(2) filter_append)
    with i'(3) i(5) True show ?thesis by simp
  qed
  have "sel_rep k rep s' (SelectScan c' (sel_pred c)) F rows (if b then Some (Suc j) else None)"
    unfolding sel_rep_def using s'(4,5) i(2-5)
    by (intro exI [of _ rows0] exI [of _ p]) (auto simp: take_Suc_conv_app_nth split: if_splits)
  moreover have "op_next (sel_ops k ops) c s = (Inr (b, SelectScan c' (sel_pred c)), s')"
    using s'(1) by (simp add: sel_ops_def sel_next_def cmd_simps)
  ultimately show ?case
    using s'(2,3) b by (intro exI [of _ s'] exI [of _ "SelectScan c' (sel_pred c)"]) (simp add: sel_own_def)
next
  case (5 s c F rows j M f v)
  from select_current [OF 5(1)] const_value [of s "sel_scan c" F _ _ M f v] 5(2,3) show ?case
    by (metis (no_types, lifting) scan_ops.select_convs(6) sel_getValue_def sel_ops_def sel_own_def)
next
  case (6 s c F rows p M)
  then obtain rows0 p0 where r: "rep s (sel_scan c) F rows0 p0" "length rows0 < k"
    "\<forall>r \<in> set rows0. \<forall>t \<in> set (sel_pred c). tm_typed r t" "rows = filter (\<lambda>r. pr_holds r (sel_pred c)) rows0"
    by (auto simp: sel_rep_def)
  from restart [OF r(1), of M] 6(2) obtain s' c' where
    s': "op_beforeFirst ops (sel_scan c) s = (Inr c', s')" "G s' (own c' + M)" "like s s'" "rep s' c' F rows0 (Some 0)"
    by (auto simp: sel_own_def)
  have "sel_rep k rep s' (SelectScan c' (sel_pred c)) F rows (Some 0)"
    unfolding sel_rep_def using s'(4) r(2-4) by (intro exI [of _ rows0] exI [of _ "Some 0"]) simp
  with s'(1-3) show ?case
    by (intro exI [of _ s'] exI [of _ "SelectScan c' (sel_pred c)"])
      (simp add: sel_ops_def sel_beforeFirst_def cmd_simps sel_own_def)
next
  case (7 s c F rows j M f v)
  from select_current [OF 7(1)] int_value [of s "sel_scan c" F _ _ M f v] 7(2,3) show ?case
    by (metis (no_types, lifting) scan_ops.select_convs(3) sel_getInt_def sel_ops_def sel_own_def)
next
  case (8 s c F rows j M f v)
  from select_current [OF 8(1)] bool_value [of s "sel_scan c" F _ _ M f v] 8(2,3) show ?case
    by (metis (no_types, lifting) scan_ops.select_convs(4) sel_getBool_def sel_ops_def sel_own_def)
next
  case (9 s c F rows j M f v)
  from select_current [OF 9(1)] string_value [of s "sel_scan c" F _ _ M f v] 9(2,3) show ?case
    by (metis (no_types, lifting) scan_ops.select_convs(5) sel_getString_def sel_ops_def sel_own_def)
next
  case (10 s c F rows p f)
  then obtain rows0 p0 where "rep s (sel_scan c) F rows0 p0"
    by (auto simp: sel_rep_def)
  from has_field [OF this] show ?case
    by (simp add: sel_ops_def sel_hasField_def)
next
  case (11 s c F rows p M)
  then obtain rows0 p0 where "rep s (sel_scan c) F rows0 p0"
    by (auto simp: sel_rep_def)
  from closes [OF this, of M] 11(2) show ?case
    by (simp add: sel_ops_def sel_close_def sel_own_def)
qed

end


section \<open>Projection\<close>

definition proj_own :: "('c \<Rightarrow> 'r multiset) \<Rightarrow> 'c proj_scan \<Rightarrow> 'r multiset" where
  "proj_own own c = own (proj_scan c)"

definition proj_rep ::
  "('s \<Rightarrow> 'c \<Rightarrow> string set \<Rightarrow> row list \<Rightarrow> nat option \<Rightarrow> bool) \<Rightarrow> 's \<Rightarrow> 'c proj_scan \<Rightarrow> string set \<Rightarrow> row list \<Rightarrow>
   nat option \<Rightarrow> bool" where
  "proj_rep rep s c F rows p \<longleftrightarrow> (\<exists>F0 rows0. rep s (proj_scan c) F0 rows0 p \<and> set (proj_fields c) \<subseteq> F0 \<and>
     F = set (proj_fields c) \<and> rows = map (\<lambda>r. r |` F) rows0)"

context scan
begin

lemma project_get:
  assumes "proj_rep rep s c F rows (Some (Suc k))" "(rows ! k) f = Some v" "G s (own (proj_scan c) + M)"
    and "\<And>F rows. rep s (proj_scan c) F rows (Some (Suc k)) \<Longrightarrow> (rows ! k) f = Some v \<Longrightarrow>
      \<exists>s'. get f (proj_scan c) s = (Inr x, s') \<and> G s' (own (proj_scan c) + M) \<and> like s s'"
  shows "\<exists>s'. proj_get get f c s = (Inr x, s') \<and> G s' (proj_own own c + M) \<and> like s s'"
proof -
  obtain F0 rows0 where r: "rep s (proj_scan c) F0 rows0 (Some (Suc k))" "F = set (proj_fields c)" "rows = map (\<lambda>r. r |` F) rows0"
    using assms(1) by (auto simp: proj_rep_def)
  have "k < length rows0"
    using within [OF r(1)] by simp
  with assms(2) r have f: "f \<in> F" "(rows0 ! k) f = Some v"
    by (auto simp: restrict_map_def split: if_splits)
  with assms(4) [OF r(1)] r(2) show ?thesis
    by (auto simp: proj_get_def proj_hasField_def proj_own_def cmd_simps)
qed

theorem project_scan: "scan like (proj_ops ops) G (proj_own own) (proj_rep rep)"
proof (unfold_locales, goal_cases)
  case (1 s c F rows p s')
  then show ?case unfolding proj_rep_def using stable by blast
next
  case (2 s c F rows p r)
  then obtain F0 rows0 r0 where "rep s (proj_scan c) F0 rows0 p" "r0 \<in> set rows0" "F \<subseteq> F0" "r = r0 |` F"
    by (auto simp: proj_rep_def)
  with rows_dom [of s "proj_scan c" F0 rows0 p r0] show ?case by auto
next
  case (3 s c F rows k)
  then show ?case unfolding proj_rep_def using within by auto
next
  case (4 s c F rows k M)
  then obtain F0 rows0 where r: "rep s (proj_scan c) F0 rows0 (Some k)" "set (proj_fields c) \<subseteq> F0" "F = set (proj_fields c)"
    "rows = map (\<lambda>r. r |` F) rows0"
    by (auto simp: proj_rep_def)
  have g: "G s (own (proj_scan c) + M)"
    using 4(2) by (simp add: proj_own_def)
  from next_row [OF r(1) g] obtain s' c' where
    s': "op_next ops (proj_scan c) s = (Inr (k < length rows0, c'), s')" "G s' (own c' + M)" "like s s'"
      "rep s' c' F0 rows0 (if k < length rows0 then Some (Suc k) else None)" by blast
  have "proj_rep rep s' (ProjectScan c' (proj_fields c)) F rows (if k < length rows then Some (Suc k) else None)"
    unfolding proj_rep_def using s'(4) r(2-4) by (intro exI [of _ F0] exI [of _ rows0]) simp
  with s'(1-3) r(4) show ?case
    by (intro exI [of _ s'] exI [of _ "ProjectScan c' (proj_fields c)"])
      (simp add: proj_ops_def read_ops_def proj_next_def cmd_simps proj_own_def)
next
  case (5 s c F rows k M f v)
  then have g: "G s (own (proj_scan c) + M)"
    by (simp add: proj_own_def)
  from project_get [OF 5(1,3) g, of "op_getValue ops" "const_of v"] const_value [OF _ g] show ?case
    by (simp add: proj_ops_def read_ops_def proj_getValue_def)
next
  case (6 s c F rows p M)
  then obtain F0 rows0 where r: "rep s (proj_scan c) F0 rows0 p" "set (proj_fields c) \<subseteq> F0" "F = set (proj_fields c)"
    "rows = map (\<lambda>r. r |` F) rows0"
    by (auto simp: proj_rep_def)
  have g: "G s (own (proj_scan c) + M)"
    using 6(2) by (simp add: proj_own_def)
  from restart [OF r(1) g] obtain s' c' where
    s': "op_beforeFirst ops (proj_scan c) s = (Inr c', s')" "G s' (own c' + M)" "like s s'" "rep s' c' F0 rows0 (Some 0)"
    by blast
  have "proj_rep rep s' (ProjectScan c' (proj_fields c)) F rows (Some 0)"
    unfolding proj_rep_def using s'(4) r(2-4) by (intro exI [of _ F0] exI [of _ rows0]) simp
  with s'(1-3) show ?case
    by (intro exI [of _ s'] exI [of _ "ProjectScan c' (proj_fields c)"])
      (simp add: proj_ops_def read_ops_def proj_beforeFirst_def cmd_simps proj_own_def)
next
  case (7 s c F rows k M f v)
  then have g: "G s (own (proj_scan c) + M)"
    by (simp add: proj_own_def)
  from project_get [OF 7(1,3) g, of "op_getInt ops" "v"] int_value [OF _ g] show ?case
    by (simp add: proj_ops_def read_ops_def proj_getInt_def)
next
  case (8 s c F rows k M f v)
  then have g: "G s (own (proj_scan c) + M)"
    by (simp add: proj_own_def)
  from project_get [OF 8(1,3) g, of "op_getBool ops" "v \<noteq> 0"] bool_value [OF _ g] show ?case
    by (simp add: proj_ops_def read_ops_def proj_getBool_def)
next
  case (9 s c F rows k M f v)
  then have g: "G s (own (proj_scan c) + M)"
    by (simp add: proj_own_def)
  from project_get [OF 9(1,3) g, of "op_getString ops" "v"] string_value [OF _ g] show ?case
    by (simp add: proj_ops_def read_ops_def proj_getString_def)
next
  case (10 s c F rows p f)
  then show ?case
    by (auto simp: proj_rep_def proj_ops_def read_ops_def proj_hasField_def)
next
  case (11 s c F rows p M)
  then obtain F0 rows0 where "rep s (proj_scan c) F0 rows0 p"
    by (auto simp: proj_rep_def)
  from closes [OF this, of M] 11(2) show ?case
    by (simp add: proj_ops_def read_ops_def proj_close_def proj_own_def)
qed

end


section \<open>Product\<close>

definition prod_rows :: "row list \<Rightarrow> row list \<Rightarrow> row list" where
  "prod_rows rows1 rows2 = concat (map (\<lambda>r1. map (\<lambda>r2. r2 ++ r1) rows2) rows1)"

lemma length_prod_rows [simp]: "length (prod_rows rows1 rows2) = length rows1 * length rows2"
  by (induction rows1) (simp_all add: prod_rows_def)

lemma nth_prod_rows:
  "i < length rows1 \<Longrightarrow> j < length rows2 \<Longrightarrow> prod_rows rows1 rows2 ! (i * length rows2 + j) = (rows2 ! j) ++ (rows1 ! i)"
proof (induction rows1 arbitrary: i)
  case (Cons r rows1)
  then show ?case
    by (cases i) (simp_all add: prod_rows_def nth_append add.assoc)
qed simp

lemma prod_rows_dom:
  "r \<in> set (prod_rows rows1 rows2) \<Longrightarrow> (\<And>r. r \<in> set rows1 \<Longrightarrow> dom r = F1) \<Longrightarrow> (\<And>r. r \<in> set rows2 \<Longrightarrow> dom r = F2) \<Longrightarrow>
    dom r = F1 \<union> F2"
proof -
  assume "r \<in> set (prod_rows rows1 rows2)" and d: "\<And>r. r \<in> set rows1 \<Longrightarrow> dom r = F1" "\<And>r. r \<in> set rows2 \<Longrightarrow> dom r = F2"
  then obtain r1 r2 where "r1 \<in> set rows1" "r2 \<in> set rows2" "r = r2 ++ r1"
    by (auto simp: prod_rows_def)
  with d show ?thesis by simp
qed

definition prod_own :: "('c \<Rightarrow> 'r multiset) \<Rightarrow> ('d \<Rightarrow> 'r multiset) \<Rightarrow> ('c, 'd) prod_scan \<Rightarrow> 'r multiset" where
  "prod_own own1 own2 c = own1 (prod_scan1 c) + own2 (prod_scan2 c)"

text \<open>The first scan is one row ahead; the promise needs it to have a row.\<close>

definition prod_rep ::
  "('s \<Rightarrow> 'c \<Rightarrow> string set \<Rightarrow> row list \<Rightarrow> nat option \<Rightarrow> bool) \<Rightarrow>
   ('s \<Rightarrow> 'd \<Rightarrow> string set \<Rightarrow> row list \<Rightarrow> nat option \<Rightarrow> bool) \<Rightarrow> 's \<Rightarrow> ('c, 'd) prod_scan \<Rightarrow> string set \<Rightarrow> row list \<Rightarrow>
   nat option \<Rightarrow> bool" where
  "prod_rep rep1 rep2 s c F rows p \<longleftrightarrow> (\<exists>F1 F2 rows1 rows2 p1 p2.
     rep1 s (prod_scan1 c) F1 rows1 p1 \<and> rep2 s (prod_scan2 c) F2 rows2 p2 \<and> F = F1 \<union> F2 \<and> rows1 \<noteq> [] \<and>
     rows = prod_rows rows1 rows2 \<and>
     (case p of None \<Rightarrow> True | Some k \<Rightarrow> \<exists>i j. p1 = Some (Suc i) \<and> p2 = Some j \<and> k = i * length rows2 + j \<and> (j = 0 \<longrightarrow> i = 0)))"

lemma prod_repI:
  assumes "rep1 s c F1 rows1 p1" "rep2 s d F2 rows2 p2" "rows1 \<noteq> []"
    "case p of None \<Rightarrow> True | Some k \<Rightarrow> \<exists>i j. p1 = Some (Suc i) \<and> p2 = Some j \<and> k = i * length rows2 + j \<and> (j = 0 \<longrightarrow> i = 0)"
  shows "prod_rep rep1 rep2 s (ProductScan c d) (F1 \<union> F2) (prod_rows rows1 rows2) p"
  unfolding prod_rep_def using assms
  by (intro exI [of _ F1] exI [of _ F2] exI [of _ rows1] exI [of _ rows2] exI [of _ p1] exI [of _ p2]) simp

locale two_scans = one: scan like ops1 G own1 rep1 + two: scan like ops2 G own2 rep2
  for like :: "'s \<Rightarrow> 's \<Rightarrow> bool" and G :: "'s \<Rightarrow> 'r multiset \<Rightarrow> bool"
    and ops1 :: "('s, 'c) scan_ops" and own1 :: "'c \<Rightarrow> 'r multiset"
    and rep1 :: "'s \<Rightarrow> 'c \<Rightarrow> string set \<Rightarrow> row list \<Rightarrow> nat option \<Rightarrow> bool"
    and ops2 :: "('s, 'd) scan_ops" and own2 :: "'d \<Rightarrow> 'r multiset"
    and rep2 :: "'s \<Rightarrow> 'd \<Rightarrow> string set \<Rightarrow> row list \<Rightarrow> nat option \<Rightarrow> bool"
begin

lemma prod_repD:
  assumes "prod_rep rep1 rep2 s c F rows p"
  obtains F1 F2 rows1 rows2 p1 p2 where "rep1 s (prod_scan1 c) F1 rows1 p1" "rep2 s (prod_scan2 c) F2 rows2 p2"
    "F = F1 \<union> F2" "rows1 \<noteq> []" "rows = prod_rows rows1 rows2"
    "\<And>k. p = Some k \<Longrightarrow> \<exists>i j. p1 = Some (Suc i) \<and> p2 = Some j \<and> k = i * length rows2 + j \<and> (j = 0 \<longrightarrow> i = 0)"
proof -
  obtain F1 F2 rows1 rows2 p1 p2 where *: "rep1 s (prod_scan1 c) F1 rows1 p1" "rep2 s (prod_scan2 c) F2 rows2 p2"
    "F = F1 \<union> F2" "rows1 \<noteq> []" "rows = prod_rows rows1 rows2"
    "case p of None \<Rightarrow> True | Some k \<Rightarrow> \<exists>i j. p1 = Some (Suc i) \<and> p2 = Some j \<and> k = i * length rows2 + j \<and> (j = 0 \<longrightarrow> i = 0)"
    using assms unfolding prod_rep_def by blast
  show thesis
    by (rule that [OF *(1-5)]) (use *(6) in simp)
qed

lemma prod_repD_Some:
  assumes "prod_rep rep1 rep2 s c F rows (Some k)"
  obtains F1 F2 rows1 rows2 i j where "rep1 s (prod_scan1 c) F1 rows1 (Some (Suc i))" "rep2 s (prod_scan2 c) F2 rows2 (Some j)"
    "F = F1 \<union> F2" "rows1 \<noteq> []" "rows = prod_rows rows1 rows2" "k = i * length rows2 + j" "j = 0 \<longrightarrow> i = 0"
proof (rule prod_repD [OF assms])
  fix F1 F2 rows1 rows2 p1 p2
  assume r: "rep1 s (prod_scan1 c) F1 rows1 p1" "rep2 s (prod_scan2 c) F2 rows2 p2"
    "F = F1 \<union> F2" "rows1 \<noteq> []" "rows = prod_rows rows1 rows2"
    and p: "\<And>k'. Some k = Some k' \<Longrightarrow> \<exists>i j. p1 = Some (Suc i) \<and> p2 = Some j \<and> k' = i * length rows2 + j \<and> (j = 0 \<longrightarrow> i = 0)"
  from p [OF refl] obtain i j where ij: "p1 = Some (Suc i)" "p2 = Some j" "k = i * length rows2 + j" "j = 0 \<longrightarrow> i = 0"
    by blast
  show thesis
    by (rule that [OF r(1) [unfolded ij(1)] r(2) [unfolded ij(2)] r(3-5) ij(3,4)])
qed

lemma product_next:
  assumes r1: "rep1 s c F1 rows1 (Some (Suc i))" and r2: "rep2 s d F2 rows2 (Some j)" and j: "j = 0 \<longrightarrow> i = 0"
    and g: "G s (own1 c + own2 d + M)" and ne: "rows1 \<noteq> []"
  defines "k \<equiv> i * length rows2 + j" and "n \<equiv> length rows1 * length rows2"
  shows "\<exists>s' c'. prod_next ops1 ops2 (ProductScan c d) s = (Inr (k < n, c'), s') \<and> G s' (prod_own own1 own2 c' + M) \<and>
    like s s' \<and> prod_rep rep1 rep2 s' c' (F1 \<union> F2) (prod_rows rows1 rows2) (if k < n then Some (Suc k) else None)"
proof -
  have i: "i < length rows1" and jl: "j \<le> length rows2"
    using one.within [OF r1] two.within [OF r2] by simp_all
  have "G s (own2 d + (own1 c + M))"
    using g by (simp add: ac_simps)
  from two.next_row [OF r2 this] obtain s1 d1 where
    s1: "op_next ops2 d s = (Inr (j < length rows2, d1), s1)" "G s1 (own2 d1 + (own1 c + M))" "like s s1"
      "rep2 s1 d1 F2 rows2 (if j < length rows2 then Some (Suc j) else None)" by blast
  note r1' = one.stable [OF r1 s1(3)]
  show ?thesis
  proof (cases "j < length rows2")
    case True
    have "(i + 1) * length rows2 \<le> n"
      unfolding n_def using i by (intro mult_le_mono1) simp
    then have k: "k < n"
      using True by (simp add: k_def)
    have "prod_rep rep1 rep2 s1 (ProductScan c d1) (F1 \<union> F2) (prod_rows rows1 rows2) (Some (Suc k))"
      using r1' s1(4) True ne by (intro prod_repI [where ?p1.0 = "Some (Suc i)" and ?p2.0 = "Some (Suc j)"]) (simp_all add: k_def)
    moreover have "prod_next ops1 ops2 (ProductScan c d) s = (Inr (True, ProductScan c d1), s1)"
      using s1(1) True by (simp add: prod_next_def cmd_simps)
    ultimately show ?thesis
      using s1(2,3) k by (intro exI [of _ s1] exI [of _ "ProductScan c d1"]) (simp add: prod_own_def ac_simps)
  next
    case False
    then have jn: "j = length rows2" using jl by simp
    have k: "k = Suc i * length rows2"
      by (simp add: k_def jn)
    from s1(4) False have "rep2 s1 d1 F2 rows2 None" by simp
    from two.restart [OF this s1(2)] obtain s2 d2 where
      s2: "op_beforeFirst ops2 d1 s1 = (Inr d2, s2)" "G s2 (own2 d2 + (own1 c + M))" "like s1 s2" "rep2 s2 d2 F2 rows2 (Some 0)"
      by blast
    have "G s2 (own1 c + (own2 d2 + M))"
      using s2(2) by (simp add: ac_simps)
    from one.next_row [OF one.stable [OF r1' s2(3)] this] obtain s3 c3 where
      s3: "op_next ops1 c s2 = (Inr (Suc i < length rows1, c3), s3)" "G s3 (own1 c3 + (own2 d2 + M))" "like s2 s3"
        "rep1 s3 c3 F1 rows1 (if Suc i < length rows1 then Some (Suc (Suc i)) else None)" by blast
    have l3: "like s s3"
      using one.like_trans3 [OF s1(3) s2(3) s3(3)] .
    note r2' = two.stable [OF s2(4) s3(3)]
    show ?thesis
    proof (cases "Suc i < length rows1")
      case False
      then have "length rows1 = Suc i" using i by simp
      then have kn: "\<not> k < n" by (simp add: k n_def)
      have "prod_rep rep1 rep2 s3 (ProductScan c3 d2) (F1 \<union> F2) (prod_rows rows1 rows2) None"
        using s3(4) False r2' ne by (intro prod_repI) simp_all
      moreover have "prod_next ops1 ops2 (ProductScan c d) s = (Inr (False, ProductScan c3 d2), s3)"
        using s1(1) s2(1) s3(1) jn False by (simp add: prod_next_def cmd_simps)
      ultimately show ?thesis
        using s3(2) l3 kn by (intro exI [of _ s3] exI [of _ "ProductScan c3 d2"]) (simp add: prod_own_def ac_simps)
    next
      case True
      have "G s3 (own2 d2 + (own1 c3 + M))"
        using s3(2) by (simp add: ac_simps)
      from two.next_row [OF r2' this] obtain s4 d4 where
        s4: "op_next ops2 d2 s3 = (Inr (0 < length rows2, d4), s4)" "G s4 (own2 d4 + (own1 c3 + M))" "like s3 s4"
          "rep2 s4 d4 F2 rows2 (if 0 < length rows2 then Some (Suc 0) else None)" by blast
      have kn: "k < n \<longleftrightarrow> 0 < length rows2"
        unfolding k n_def using True by (simp only: mult_less_cancel2) simp
      have r1'': "rep1 s4 c3 F1 rows1 (Some (Suc (Suc i)))"
        using one.stable [OF s3(4) s4(3)] True by simp
      have "prod_rep rep1 rep2 s4 (ProductScan c3 d4) (F1 \<union> F2) (prod_rows rows1 rows2) (if k < n then Some (Suc k) else None)"
        using r1'' s4(4) ne kn by (intro prod_repI [where ?p1.0 = "Some (Suc (Suc i))"]) (auto simp: k)
      moreover have "prod_next ops1 ops2 (ProductScan c d) s = (Inr (0 < length rows2, ProductScan c3 d4), s4)"
        using s1(1) s2(1) s3(1) s4(1) jn True by (simp add: prod_next_def cmd_simps)
      ultimately show ?thesis
        using s4(2) one.like_trans [OF l3 s4(3)] kn
        by (intro exI [of _ s4] exI [of _ "ProductScan c3 d4"]) (simp add: prod_own_def ac_simps)
    qed
  qed
qed

end


context two_scans
begin

lemma first_row:
  assumes "rep1 s c F1 rows1 (Some 0)" "rows1 \<noteq> []" "G s (own1 c + M)"
  shows "\<exists>s' c'. op_next ops1 c s = (Inr (True, c'), s') \<and> G s' (own1 c' + M) \<and> like s s' \<and> rep1 s' c' F1 rows1 (Some (Suc 0))"
  using one.next_row [OF assms(1,3)] assms(2) by simp

text \<open>The constructor, on scans that are at their start.\<close>

lemma product_new:
  assumes "rep1 s c F1 rows1 (Some 0)" "rep2 s d F2 rows2 (Some 0)" "rows1 \<noteq> []" "G s (own1 c + own2 d + M)"
  shows "\<exists>s' c'. prod_new ops1 c d s = (Inr c', s') \<and> G s' (prod_own own1 own2 c' + M) \<and> like s s' \<and>
    prod_rep rep1 rep2 s' c' (F1 \<union> F2) (prod_rows rows1 rows2) (Some 0)"
proof -
  have "G s (own1 c + (own2 d + M))"
    using assms(4) by (simp add: ac_simps)
  from first_row [OF assms(1,3) this] obtain s1 c1 where
    s1: "op_next ops1 c s = (Inr (True, c1), s1)" "G s1 (own1 c1 + (own2 d + M))" "like s s1" "rep1 s1 c1 F1 rows1 (Some (Suc 0))"
    by blast
  have "prod_rep rep1 rep2 s1 (ProductScan c1 d) (F1 \<union> F2) (prod_rows rows1 rows2) (Some 0)"
    using s1(4) two.stable [OF assms(2) s1(3)] assms(3) by (intro prod_repI) auto
  with s1(1-3) show ?thesis
    by (intro exI [of _ s1] exI [of _ "ProductScan c1 d"]) (simp add: prod_new_def cmd_simps prod_own_def ac_simps)
qed

lemma product_restart:
  assumes "prod_rep rep1 rep2 s c F rows p" "G s (prod_own own1 own2 c + M)"
  shows "\<exists>s' c'. prod_beforeFirst ops1 ops2 c s = (Inr c', s') \<and> G s' (prod_own own1 own2 c' + M) \<and> like s s' \<and>
    prod_rep rep1 rep2 s' c' F rows (Some 0)"
proof -
  obtain F1 F2 rows1 rows2 p1 p2 where r: "rep1 s (prod_scan1 c) F1 rows1 p1" "rep2 s (prod_scan2 c) F2 rows2 p2"
    "F = F1 \<union> F2" "rows1 \<noteq> []" "rows = prod_rows rows1 rows2"
    using prod_repD [OF assms(1)] by metis
  have "G s (own1 (prod_scan1 c) + (own2 (prod_scan2 c) + M))"
    using assms(2) by (simp add: prod_own_def ac_simps)
  from one.restart [OF r(1) this] obtain s1 c1 where
    s1: "op_beforeFirst ops1 (prod_scan1 c) s = (Inr c1, s1)" "G s1 (own1 c1 + (own2 (prod_scan2 c) + M))" "like s s1"
      "rep1 s1 c1 F1 rows1 (Some 0)" by blast
  from first_row [OF s1(4) r(4) s1(2)] obtain s2 c2 where
    s2: "op_next ops1 c1 s1 = (Inr (True, c2), s2)" "G s2 (own1 c2 + (own2 (prod_scan2 c) + M))" "like s1 s2"
      "rep1 s2 c2 F1 rows1 (Some (Suc 0))" by blast
  have "G s2 (own2 (prod_scan2 c) + (own1 c2 + M))"
    using s2(2) by (simp add: ac_simps)
  from two.restart [OF two.stable [OF r(2) one.like_trans [OF s1(3) s2(3)]] this] obtain s3 d3 where
    s3: "op_beforeFirst ops2 (prod_scan2 c) s2 = (Inr d3, s3)" "G s3 (own2 d3 + (own1 c2 + M))" "like s2 s3"
      "rep2 s3 d3 F2 rows2 (Some 0)" by blast
  have "prod_rep rep1 rep2 s3 (ProductScan c2 d3) F rows (Some 0)"
    unfolding r(3,5) using one.stable [OF s2(4) s3(3)] s3(4) r(4) by (intro prod_repI) auto
  with s1(1) s2(1) s3(1,2) one.like_trans3 [OF s1(3) s2(3) s3(3)] show ?thesis
    by (intro exI [of _ s3] exI [of _ "ProductScan c2 d3"])
      (simp add: prod_beforeFirst_def cmd_simps prod_own_def ac_simps)
qed

lemma product_get:
  assumes "prod_rep rep1 rep2 s c F rows (Some (Suc k))" "(rows ! k) f = Some v" "G s (prod_own own1 own2 c + M)"
    and "\<And>F rows k M. rep1 s (prod_scan1 c) F rows (Some (Suc k)) \<Longrightarrow> G s (own1 (prod_scan1 c) + M) \<Longrightarrow> (rows ! k) f = Some v \<Longrightarrow>
      \<exists>s'. get1 f (prod_scan1 c) s = (Inr x, s') \<and> G s' (own1 (prod_scan1 c) + M) \<and> like s s'"
    and "\<And>F rows k M. rep2 s (prod_scan2 c) F rows (Some (Suc k)) \<Longrightarrow> G s (own2 (prod_scan2 c) + M) \<Longrightarrow> (rows ! k) f = Some v \<Longrightarrow>
      \<exists>s'. get2 f (prod_scan2 c) s = (Inr x, s') \<and> G s' (own2 (prod_scan2 c) + M) \<and> like s s'"
  shows "\<exists>s'. prod_get ops1 get1 get2 f c s = (Inr x, s') \<and> G s' (prod_own own1 own2 c + M) \<and> like s s'"
proof -
  obtain F1 F2 rows1 rows2 i j' where r: "rep1 s (prod_scan1 c) F1 rows1 (Some (Suc i))"
    "rep2 s (prod_scan2 c) F2 rows2 (Some j')" "rows = prod_rows rows1 rows2" "Suc k = i * length rows2 + j'" "j' = 0 \<longrightarrow> i = 0"
    using prod_repD_Some [OF assms(1)] by metis
  then obtain j where j: "j' = Suc j" "k = i * length rows2 + j" by (cases j') auto
  note r1 = r(1) and r2 = r(2) [unfolded j(1)]
  have ib: "i < length rows1" and jb: "j < length rows2"
    using one.within [OF r1] two.within [OF r2] by simp_all
  have row: "rows ! k = (rows2 ! j) ++ (rows1 ! i)"
    using nth_prod_rows [OF ib jb] by (simp add: r(3) j(2))
  have d1: "dom (rows1 ! i) = F1"
    using one.rows_dom [OF r1] ib by simp
  have h: "op_hasField ops1 f (prod_scan1 c) = Inr (f \<in> F1)"
    using one.has_field [OF r1] .
  show ?thesis
  proof (cases "f \<in> F1")
    case True
    then have v: "(rows1 ! i) f = Some v"
      using assms(2) d1 row by (auto simp: map_add_dom_app_simps)
    have "G s (own1 (prod_scan1 c) + (own2 (prod_scan2 c) + M))"
      using assms(3) by (simp add: prod_own_def ac_simps)
    from assms(4) [OF r1 this v] h True show ?thesis
      by (auto simp: prod_get_def cmd_simps prod_own_def ac_simps)
  next
    case False
    then have v: "(rows2 ! j) f = Some v"
      using assms(2) d1 row by (auto simp: map_add_dom_app_simps)
    have "G s (own2 (prod_scan2 c) + (own1 (prod_scan1 c) + M))"
      using assms(3) by (simp add: prod_own_def ac_simps)
    from assms(5) [OF r2 this v] h False show ?thesis
      by (auto simp: prod_get_def cmd_simps prod_own_def ac_simps)
  qed
qed

theorem product_scan: "scan like (prod_ops ops1 ops2) G (prod_own own1 own2) (prod_rep rep1 rep2)"
proof (unfold_locales, goal_cases)
  case (1 s c F rows p s')
  then show ?case
    unfolding prod_rep_def using one.stable two.stable by blast
next
  case (2 s c F rows p r)
  from prod_repD [OF 2(1)] obtain F1 F2 rows1 rows2 p1 p2 where r: "rep1 s (prod_scan1 c) F1 rows1 p1"
    "rep2 s (prod_scan2 c) F2 rows2 p2" "F = F1 \<union> F2" "rows = prod_rows rows1 rows2" by metis
  from prod_rows_dom [OF 2(2) [unfolded r(4)] one.rows_dom [OF r(1)] two.rows_dom [OF r(2)]] show ?case
    by (simp add: r(3))
next
  case (3 s c F rows k)
  obtain F1 F2 rows1 rows2 i j where r: "rep1 s (prod_scan1 c) F1 rows1 (Some (Suc i))"
    "rep2 s (prod_scan2 c) F2 rows2 (Some j)" "rows = prod_rows rows1 rows2" "k = i * length rows2 + j"
    using prod_repD_Some [OF 3] by metis
  then have "Suc i \<le> length rows1" "j \<le> length rows2"
    using one.within r(1) two.within r(2) by auto
  then have "i * length rows2 + j \<le> Suc i * length rows2" "Suc i * length rows2 \<le> length rows1 * length rows2"
    by (simp, intro mult_le_mono1)
  then show ?case
    unfolding r(3,4) length_prod_rows by (rule order_trans)
next
  case (4 s c F rows k M)
  obtain F1 F2 rows1 rows2 i j where r: "rep1 s (prod_scan1 c) F1 rows1 (Some (Suc i))"
    "rep2 s (prod_scan2 c) F2 rows2 (Some j)" "F = F1 \<union> F2" "rows1 \<noteq> []" "rows = prod_rows rows1 rows2"
    "k = i * length rows2 + j" "j = 0 \<longrightarrow> i = 0"
    by (rule prod_repD_Some [OF 4(1)])
  have eq: "op_next (prod_ops ops1 ops2) = prod_next ops1 ops2"
    by (simp add: prod_ops_def read_ops_def)
  have g: "G s (own1 (prod_scan1 c) + own2 (prod_scan2 c) + M)"
    using 4(2) by (simp only: prod_own_def)
  show ?case
    unfolding eq r(3,5,6) length_prod_rows
    by (rule product_next [OF r(1,2,7) g r(4), unfolded prod_scan.collapse])
next
  case (5 s c F rows k M f v)
  from product_get [OF 5(1,3,2), of "op_getValue ops1" "const_of v" "op_getValue ops2"] one.const_value two.const_value show ?case
    by (simp add: prod_ops_def read_ops_def prod_getValue_def)
next
  case (6 s c F rows p M)
  then show ?case
    using product_restart by (simp add: prod_ops_def read_ops_def)
next
  case (7 s c F rows k M f v)
  from product_get [OF 7(1,3,2), of "op_getInt ops1" v "op_getInt ops2"] one.int_value two.int_value show ?case
    by (simp add: prod_ops_def read_ops_def prod_getInt_def)
next
  case (8 s c F rows k M f v)
  from product_get [OF 8(1,3,2), of "op_getBool ops1" "v \<noteq> 0" "op_getBool ops2"] one.bool_value two.bool_value show ?case
    by (simp add: prod_ops_def read_ops_def prod_getBool_def)
next
  case (9 s c F rows k M f v)
  from product_get [OF 9(1,3,2), of "op_getString ops1" v "op_getString ops2"] one.string_value two.string_value show ?case
    by (simp add: prod_ops_def read_ops_def prod_getString_def)
next
  case (10 s c F rows p f)
  from prod_repD [OF 10] obtain F1 F2 rows1 rows2 p1 p2 where "rep1 s (prod_scan1 c) F1 rows1 p1"
    "rep2 s (prod_scan2 c) F2 rows2 p2" "F = F1 \<union> F2" by metis
  then show ?case
    using one.has_field two.has_field by (simp add: prod_ops_def read_ops_def prod_hasField_def)
next
  case (11 s c F rows p M)
  from prod_repD [OF 11(1)] obtain F1 F2 rows1 rows2 p1 p2 where r: "rep1 s (prod_scan1 c) F1 rows1 p1"
    "rep2 s (prod_scan2 c) F2 rows2 p2" by metis
  have "G s (own1 (prod_scan1 c) + (own2 (prod_scan2 c) + M))"
    using 11(2) by (simp add: prod_own_def ac_simps)
  from one.closes [OF r(1) this] obtain s1 where
    s1: "op_close ops1 (prod_scan1 c) s = (Inr (), s1)" "G s1 (own2 (prod_scan2 c) + M)" "like s s1" by blast
  from two.closes [OF two.stable [OF r(2) s1(3)] s1(2)] s1 one.like_trans show ?case
    by (auto simp: prod_ops_def read_ops_def prod_close_def cmd_simps)
qed

end

end
