(* ===== verification/TableReads.thy ===== *)
theory TableReads
  imports Records Memory ScanContract
begin

text \<open>
  What a table scan reads: the rows of a file are the used slots of its blocks in order. A table
  scan keeps the promise of scans for them.
\<close>

section \<open>The rows of a table\<close>

definition num_slots :: "int \<Rightarrow> layout \<Rightarrow> nat" where
  "num_slots bs l = nat (bs div lay_slotSize l)"

definition has_flag :: "int \<Rightarrow> layout \<Rightarrow> bytes \<Rightarrow> nat \<Rightarrow> bool" where
  "has_flag fl l p i \<longleftrightarrow> getInt p (int i * lay_slotSize l) = Inr fl"

definition slots_with :: "int \<Rightarrow> int \<Rightarrow> layout \<Rightarrow> bytes \<Rightarrow> nat \<Rightarrow> nat list" where
  "slots_with fl bs l p i = filter (has_flag fl l p) [i..<num_slots bs l]"

definition lay_fields :: "layout \<Rightarrow> string set" where
  "lay_fields l = dom (map_of (sch_info (lay_schema l)))"

text \<open>The row in slot \<open>i\<close> of a page.\<close>

definition page_row :: "layout \<Rightarrow> bytes \<Rightarrow> nat \<Rightarrow> row" where
  "page_row l p i f =
     (case (sch_fieldType f (lay_schema l), lay_offset f l) of
        (Inr ty, Inr off) \<Rightarrow>
          if ty = INTEGER \<or> ty = BOOLEAN
          then (case getInt p (int i * lay_slotSize l + off) of Inr v \<Rightarrow> Some (VInt v) | Inl _ \<Rightarrow> None)
          else (case getString p (int i * lay_slotSize l + off) of Inr x \<Rightarrow> Some (VStr x) | Inl _ \<Rightarrow> None)
      | _ \<Rightarrow> None)"

definition page_rows :: "int \<Rightarrow> layout \<Rightarrow> bytes \<Rightarrow> nat \<Rightarrow> row list" where
  "page_rows bs l p i = map (page_row l p) (slots_with USED bs l p i)"

definition file_page :: "'a bm_scheme \<Rightarrow> string \<Rightarrow> nat \<Rightarrow> bytes" where
  "file_page s fn b = view s (BlockId fn (int b))"

definition file_blocks :: "'a bm_scheme \<Rightarrow> string \<Rightarrow> nat" where
  "file_blocks s fn = nat (fm_length fn s)"

definition rows_from :: "'a bm_scheme \<Rightarrow> layout \<Rightarrow> string \<Rightarrow> nat \<Rightarrow> row list" where
  "rows_from s l fn b = concat (map (\<lambda>b. page_rows (blocksize s) l (file_page s fn b) 0) [b..<file_blocks s fn])"

definition table_rows :: "'a bm_scheme \<Rightarrow> layout \<Rightarrow> string \<Rightarrow> row list" where
  "table_rows s l fn = rows_from s l fn 0"

text \<open>A readable table: not the log, not empty, every field of a used slot can be decoded.\<close>

definition table_ok :: "'a bm_scheme \<Rightarrow> layout \<Rightarrow> string \<Rightarrow> bool" where
  "table_ok s l fn \<longleftrightarrow> fn \<noteq> logFileName s \<and> fn \<noteq> [] \<and> 4 \<le> lay_slotSize l \<and> 0 < file_blocks s fn \<and>
     (\<forall>b < file_blocks s fn. \<forall>i \<in> set (slots_with USED (blocksize s) l (file_page s fn b) 0).
        dom (page_row l (file_page s fn b) i) = lay_fields l)"

text \<open>A readable table, as a computation.\<close>

definition table_ok_at :: "'a bm_scheme \<Rightarrow> layout \<Rightarrow> string \<Rightarrow> nat \<Rightarrow> bool" where
  "table_ok_at s l fn b \<longleftrightarrow> list_all (\<lambda>i. list_all (\<lambda>f. page_row l (file_page s fn b) i f \<noteq> None) (map fst (sch_info (lay_schema l))))
     (slots_with USED (blocksize s) l (file_page s fn b) 0)"

lemma page_row_dom:
  assumes "\<forall>f \<in> set (map fst (sch_info (lay_schema l))). page_row l p i f \<noteq> None"
  shows "dom (page_row l p i) = lay_fields l"
proof -
  have "map_of (sch_info (lay_schema l)) f \<noteq> None" if "page_row l p i f = Some v" for f v
    using that by (auto simp: page_row_def sch_fieldType_def split: sum.splits option.splits)
  with assms show ?thesis
    by (auto simp: lay_fields_def dom_map_of_conv_image_fst) (metis map_of_SomeD fst_conv image_eqI not_Some_eq)
qed

lemma table_ok_code [code]:
  "table_ok s l fn \<longleftrightarrow> fn \<noteq> logFileName s \<and> fn \<noteq> [] \<and> 4 \<le> lay_slotSize l \<and> 0 < file_blocks s fn \<and>
     list_all (table_ok_at s l fn) [0..<file_blocks s fn]"
proof -
  have "dom (page_row l p i) = lay_fields l \<longleftrightarrow> list_all (\<lambda>f. page_row l p i f \<noteq> None) (map fst (sch_info (lay_schema l)))" for p i
    using page_row_dom [of l p i] by (auto simp: list_all_iff lay_fields_def dom_map_of_conv_image_fst)
  then show ?thesis
    by (simp add: table_ok_def table_ok_at_def list_all_iff Ball_def)
qed

lemma num_slots_less:
  assumes "0 < lay_slotSize l" "0 \<le> bs"
  shows "(int i + 1) * lay_slotSize l \<le> bs \<longleftrightarrow> i < num_slots bs l"
proof -
  let ?c = "lay_slotSize l"
  have "(int i + 1) * ?c \<le> bs \<longleftrightarrow> int i + 1 \<le> bs div ?c"
  proof
    assume "(int i + 1) * ?c \<le> bs"
    then show "int i + 1 \<le> bs div ?c"
      using zdiv_mono1 [of _ bs ?c] assms(1) by fastforce
  next
    assume "int i + 1 \<le> bs div ?c"
    then have "(int i + 1) * ?c \<le> bs div ?c * ?c"
      using assms(1) by (intro mult_right_mono) auto
    also have "\<dots> \<le> bs"
      using assms(1) div_mult_mod_eq [of bs ?c] pos_mod_sign [of ?c bs] by linarith
    finally show "(int i + 1) * ?c \<le> bs" .
  qed
  then show ?thesis
    using assms by (auto simp: num_slots_def)
qed

lemma slots_with_Suc:
  "i < num_slots bs l \<Longrightarrow> slots_with fl bs l p i = (if has_flag fl l p i then i # slots_with fl bs l p (Suc i) else slots_with fl bs l p (Suc i))"
  by (simp add: slots_with_def upt_conv_Cons)

lemma slots_with_end: "num_slots bs l \<le> i \<Longrightarrow> slots_with fl bs l p i = []"
  by (simp add: slots_with_def)

lemma set_slots_with: "i \<in> set (slots_with fl bs l p j) \<longleftrightarrow> j \<le> i \<and> i < num_slots bs l \<and> has_flag fl l p i"
  by (auto simp: slots_with_def)

lemma slots_with_first:
  "slots_with fl bs l p i = j # js \<Longrightarrow> js = slots_with fl bs l p (Suc j) \<and> i \<le> j"
proof (induction "num_slots bs l - i" arbitrary: i)
  case 0
  then show ?case by (simp add: slots_with_end)
next
  case (Suc n)
  have "i < num_slots bs l" and n: "n = num_slots bs l - Suc i"
    using Suc.hyps(2) by simp_all
  with Suc.prems Suc.hyps(1) [OF n] show ?case
    by (auto simp: slots_with_Suc split: if_splits)
qed

lemma rows_from_step:
  "b < file_blocks s fn \<Longrightarrow> rows_from s l fn b = page_rows (blocksize s) l (file_page s fn b) 0 @ rows_from s l fn (Suc b)"
  by (simp add: rows_from_def upt_conv_Cons)

lemma rows_from_end: "file_blocks s fn \<le> b \<Longrightarrow> rows_from s l fn b = []"
  by (simp add: rows_from_def)

text \<open>Alike states have the same tables.\<close>

lemma alike_table:
  assumes "alike s s'" "fn \<noteq> logFileName s" "fn \<noteq> []"
  shows "file_blocks s' fn = file_blocks s fn" "file_page s' fn b = file_page s fn b" "rows_from s' l fn b = rows_from s l fn b"
    "table_rows s' l fn = table_rows s l fn" "table_ok s' l fn = table_ok s l fn" "blocksize s' = blocksize s"
proof -
  show fb: "file_blocks s' fn = file_blocks s fn" and bs: "blocksize s' = blocksize s"
    using assms by (simp_all add: file_blocks_def alike_def)
  have "view s' (BlockId fn (int b)) = view s (BlockId fn (int b))" for b
    using assms unfolding alike_def by (simp add: data_blk_def)
  then show fp: "file_page s' fn b = file_page s fn b" for b
    by (simp add: file_page_def)
  show rf: "rows_from s' l fn b = rows_from s l fn b" for b
    by (simp add: rows_from_def fb bs fp)
  show "table_rows s' l fn = table_rows s l fn"
    by (simp add: table_rows_def rf)
  show "table_ok s' l fn = table_ok s l fn"
    using assms(1) by (simp add: table_ok_def fb bs fp alike_def)
qed

section \<open>Searching a page\<close>

lemma search_loop:
  assumes "ready s M" "rp_blk rp \<in># M" "data_blk s (rp_blk rp)" "4 \<le> lay_slotSize (rp_layout rp)"
    "num_slots (blocksize s) (rp_layout rp) - i < fuel"
  shows "\<exists>s'. rp_search_loop fuel (int i) fl rp s =
      (Inr (case slots_with fl (blocksize s) (rp_layout rp) (view s (rp_blk rp)) i of [] \<Rightarrow> - 1 | j # _ \<Rightarrow> int j), s') \<and>
    ready s' M \<and> alike s s'"
  using assms(1,3,5)
proof (induction fuel arbitrary: s i)
  case 0
  then show ?case by simp
next
  case (Suc fuel)
  let ?l = "rp_layout rp" and ?b = "rp_blk rp"
  have bs: "0 \<le> blocksize s" "blocksize s < 2 ^ 31"
    using ready_bounds [OF Suc.prems(1)] by simp_all
  have valid: "rp_isValidSlot (int i) rp s \<longleftrightarrow> i < num_slots (blocksize s) ?l"
    using num_slots_less [of ?l "blocksize s" i] assms(4) bs by (simp add: rp_isValidSlot_def rp_offset_def tx_blockSize_def)
  show ?case
  proof (cases "i < num_slots (blocksize s) ?l")
    case False
    with valid Suc.prems(1) show ?thesis
      by (intro exI [of _ s]) (simp add: cmd_simps slots_with_end)
  next
    case True
    from ready_getInt [OF Suc.prems(1) assms(2)] obtain s1 where
      s1: "tx_getInt ?b (rp_offset (int i) rp) s = (getInt (view s ?b) (int i * lay_slotSize ?l), s1)" "ready s1 M" "alike s s1"
      by (auto simp: rp_offset_def)
    have "(int i + 1) * lay_slotSize ?l \<le> blocksize s"
      using num_slots_less [of ?l "blocksize s" i] True assms(4) bs by simp
    then have "int i * lay_slotSize ?l + 4 \<le> int (length (view s ?b))"
      using assms(4) ready_view_length [OF Suc.prems(1,2)] by (simp add: algebra_simps)
    then obtain v where v: "getInt (view s ?b) (int i * lay_slotSize ?l) = Inr v"
      using getInt_view [of "int i * lay_slotSize ?l" "view s ?b"] assms(4) ready_view_length [OF Suc.prems(1,2)] bs by auto
    then have flag: "has_flag fl ?l (view s ?b) i \<longleftrightarrow> v = fl"
      by (simp add: has_flag_def)
    show ?thesis
    proof (cases "v = fl")
      case t: True
      with s1 v flag valid True show ?thesis
        by (intro exI [of _ s1]) (simp add: cmd_simps slots_with_Suc)
    next
      case f: False
      have same: "view s1 ?b = view s ?b" "blocksize s1 = blocksize s" "data_blk s1 ?b"
        using s1(3) Suc.prems(2) alike_data_blk [OF s1(3)] by (simp_all add: alike_def)
      have "num_slots (blocksize s1) ?l - Suc i < fuel"
        using Suc.prems(3) True same(2) by simp
      from Suc.IH [OF s1(2) same(3) this] obtain s2 where
        s2: "rp_search_loop fuel (int (Suc i)) fl rp s1 =
          (Inr (case slots_with fl (blocksize s) ?l (view s ?b) (Suc i) of [] \<Rightarrow> - 1 | j # _ \<Rightarrow> int j), s2)" "ready s2 M" "alike s1 s2"
        unfolding same by blast
      have "rp_search_loop (Suc fuel) (int i) fl rp s =
          (Inr (case slots_with fl (blocksize s) ?l (view s ?b) i of [] \<Rightarrow> - 1 | j # _ \<Rightarrow> int j), s2)"
        using s1(1) s2(1) v f flag valid True by (simp add: cmd_simps slots_with_Suc add.commute)
      with s2(2) alike_trans [OF s1(3) s2(3)] show ?thesis by blast
    qed
  qed
qed


section \<open>Moving a table scan\<close>

definition ts_own :: "tscan \<Rightarrow> block_id multiset" where
  "ts_own ts = (case ts_page ts of None \<Rightarrow> {#} | Some rp \<Rightarrow> {#rp_blk rp#})"

definition on_block :: "layout \<Rightarrow> string \<Rightarrow> nat \<Rightarrow> tscan \<Rightarrow> bool" where
  "on_block l fn b ts \<longleftrightarrow> ts_layout ts = l \<and> ts_fileName ts = fn \<and>
     ts_page ts = Some \<lparr>rp_blk = BlockId fn (int b), rp_layout = l\<rparr>"

lemma on_block_own: "on_block l fn b ts \<Longrightarrow> ts_own ts = {#BlockId fn (int b)#}"
  by (simp add: on_block_def ts_own_def)

lemma table_data_blk: "table_ok s l fn \<Longrightarrow> data_blk s (BlockId fn (int b))"
  by (simp add: table_ok_def data_blk_def)

lemma block_length: "b < file_blocks s fn \<Longrightarrow> int b < fm_length fn s"
  by (simp add: file_blocks_def)

lemma ts_step_ok:
  assumes "table_ok s l fn" "on_block l fn b ts" "- 1 \<le> ts_slot ts" "ready s (ts_own ts + M)" "num_slots (blocksize s) l < k"
  shows "\<exists>s'. ts_step k ts s = (Inr (ts\<lparr>ts_slot :=
      case slots_with USED (blocksize s) l (file_page s fn b) (nat (ts_slot ts + 1)) of [] \<Rightarrow> - 1 | j # _ \<Rightarrow> int j\<rparr>), s') \<and>
    ready s' (ts_own ts + M) \<and> alike s s'"
proof -
  let ?rp = "\<lparr>rp_blk = BlockId fn (int b), rp_layout = l\<rparr>"
  have mem: "rp_blk ?rp \<in># ts_own ts + M" and d: "data_blk s (rp_blk ?rp)" and sz: "4 \<le> lay_slotSize (rp_layout ?rp)"
    and fuel: "num_slots (blocksize s) (rp_layout ?rp) - nat (ts_slot ts + 1) < k"
    using assms(1,5) table_data_blk [OF assms(1)] by (simp_all add: on_block_own [OF assms(2)] table_ok_def)
  have "int (nat (ts_slot ts + 1)) = ts_slot ts + 1"
    using assms(3) by simp
  from search_loop [OF assms(4) mem d sz fuel, of USED, unfolded this] assms(2) show ?thesis
    by (auto simp: ts_step_def ts_recordPage_def on_block_def deref_def rp_nextAfter_def rp_searchAfter_def cmd_simps file_page_def)
qed

lemma ts_close_ok:
  assumes "ready s (ts_own ts + M)"
  shows "\<exists>s'. ts_close ts s = (Inr (), s') \<and> ready s' M \<and> alike s s'"
proof (cases "ts_page ts")
  case None
  with assms show ?thesis
    by (intro exI [of _ s]) (simp add: ts_close_def ts_own_def cmd_simps)
next
  case (Some rp)
  then have "ts_own ts + M = add_mset (rp_blk rp) M"
    by (simp add: ts_own_def)
  with ready_unpin [OF assms, of "rp_blk rp"] Some show ?thesis
    by (simp add: ts_close_def)
qed

text \<open>A scan without a page may take one more pin; otherwise the pin of its page becomes free.\<close>

lemma ts_moveTo_ok:
  assumes "table_ok s (ts_layout ts) (ts_fileName ts)" "ready s (ts_own ts + M)" "size M < length (pool s)"
    "b < file_blocks s (ts_fileName ts)"
  shows "\<exists>s'. ts_moveTo (int b) slot ts s =
      (Inr (ts\<lparr>ts_page := Some \<lparr>rp_blk = BlockId (ts_fileName ts) (int b), rp_layout = ts_layout ts\<rparr>, ts_slot := slot\<rparr>), s') \<and>
    ready s' (add_mset (BlockId (ts_fileName ts) (int b)) M) \<and> alike s s'"
proof -
  let ?fn = "ts_fileName ts" and ?b = "BlockId (ts_fileName ts) (int b)"
  from ts_close_ok [OF assms(2)] obtain s1 where s1: "ts_close ts s = (Inr (), s1)" "ready s1 M" "alike s s1" by blast
  have fn: "?fn \<noteq> logFileName s" "?fn \<noteq> []"
    using assms(1) by (simp_all add: table_ok_def)
  have "data_blk s1 ?b"
    using table_data_blk [OF assms(1)] alike_data_blk [OF s1(3)] by simp
  moreover have "number ?b < fm_length (fileName ?b) s1"
    using block_length [OF assms(4)] s1(3) fn by (simp add: alike_def)
  moreover have "size M < length (pool s1)"
    using assms(3) s1(3) by (simp add: alike_def)
  ultimately obtain s2 where s2: "tx_pin ?b s1 = (Inr (), s2)" "ready s2 (add_mset ?b M)" "alike s1 s2"
    using ready_pin [OF s1(2)] by blast
  have "ts_moveTo (int b) slot ts s = (Inr (ts\<lparr>ts_page := Some \<lparr>rp_blk = ?b, rp_layout = ts_layout ts\<rparr>, ts_slot := slot\<rparr>), s2)"
    using s1(1) s2(1) by (simp add: ts_moveTo_def rp_new_def cmd_simps)
  with s2(2) alike_trans [OF s1(3) s2(3)] show ?thesis by blast
qed

lemma ts_end_ok:
  assumes "table_ok s l fn" "on_block l fn b ts" "ready s M" "b < file_blocks s fn"
  shows "\<exists>s'. ts_atEndOfBlock ts s = (Inr (Suc b = file_blocks s fn), s') \<and> ready s' M \<and> alike s s'"
proof -
  have "int b = fm_length fn s - 1 \<longleftrightarrow> Suc b = file_blocks s fn"
    using assms(4) by (auto simp: file_blocks_def)
  with ready_size [OF assms(3), of fn] assms(2) show ?thesis
    by (auto simp: ts_atEndOfBlock_def ts_recordPage_def on_block_def deref_def cmd_simps)
qed

text \<open>Where a scan lands that has \<open>rest\<close> before it.\<close>

definition lands :: "'a tx_scheme \<Rightarrow> layout \<Rightarrow> string \<Rightarrow> row list \<Rightarrow> bool \<Rightarrow> tscan \<Rightarrow> bool" where
  "lands s l fn rest found ts \<longleftrightarrow> (\<exists>b. on_block l fn b ts \<and> b < file_blocks s fn \<and>
     (case rest of [] \<Rightarrow> \<not> found
      | r # rest' \<Rightarrow> found \<and> 0 \<le> ts_slot ts \<and> nat (ts_slot ts) \<in> set (slots_with USED (blocksize s) l (file_page s fn b) 0) \<and>
          r = page_row l (file_page s fn b) (nat (ts_slot ts)) \<and>
          rest' = page_rows (blocksize s) l (file_page s fn b) (nat (ts_slot ts + 1)) @ rows_from s l fn (Suc b)))"

lemma lands_alike:
  assumes "alike s s'" "fn \<noteq> logFileName s" "fn \<noteq> []"
  shows "lands s' l fn rest found ts = lands s l fn rest found ts"
  unfolding lands_def alike_table [OF assms] ..

lemma ts_next_from:
  assumes "table_ok s l fn" "on_block l fn b ts" "- 1 \<le> ts_slot ts" "ready s (ts_own ts + M)"
    "b < file_blocks s fn" "num_slots (blocksize s) l < k" "file_blocks s fn - b < fuel"
  shows "\<exists>s' ts' found. bnd (ts_step k ts) (ts_next_loop fuel k) s = (Inr (found, ts'), s') \<and> ready s' (ts_own ts' + M) \<and> alike s s' \<and>
    lands s l fn (page_rows (blocksize s) l (file_page s fn b) (nat (ts_slot ts + 1)) @ rows_from s l fn (Suc b)) found ts'"
  using assms(1-5,6,7)
proof (induction fuel arbitrary: s ts b)
  case 0
  then show ?case by simp
next
  case (Suc fuel)
  let ?sl = "slots_with USED (blocksize s) l (file_page s fn b) (nat (ts_slot ts + 1))"
  let ?ts = "ts\<lparr>ts_slot := case ?sl of [] \<Rightarrow> - 1 | j # _ \<Rightarrow> int j\<rparr>"
  from ts_step_ok [OF Suc.prems(1-4,6)] obtain s1 where
    s1: "ts_step k ts s = (Inr ?ts, s1)" "ready s1 (ts_own ts + M)" "alike s s1" by blast
  have ob: "on_block l fn b ?ts" and own: "ts_own ?ts = ts_own ts"
    using Suc.prems(2) by (simp_all add: on_block_def ts_own_def)
  have fn: "fn \<noteq> logFileName s" "fn \<noteq> []"
    using Suc.prems(1) by (simp_all add: table_ok_def)
  note at1 = alike_table [OF s1(3) fn]
  show ?case
  proof (cases ?sl)
    case (Cons j js)
    then have "js = slots_with USED (blocksize s) l (file_page s fn b) (Suc j)"
      using slots_with_first by metis
    moreover have "j \<in> set ?sl"
      by (simp add: Cons)
    then have "j \<in> set (slots_with USED (blocksize s) l (file_page s fn b) 0)"
      by (simp add: set_slots_with)
    ultimately have "lands s l fn (page_rows (blocksize s) l (file_page s fn b) (nat (ts_slot ts + 1)) @ rows_from s l fn (Suc b)) True ?ts"
      unfolding lands_def using ob Suc.prems(5) Cons
      by (intro exI [of _ b]) (simp add: page_rows_def nat_add_distrib)
    moreover have "bnd (ts_step k ts) (ts_next_loop (Suc fuel) k) s = (Inr (True, ?ts), s1)"
      using s1(1) Cons by (simp add: cmd_simps)
    ultimately show ?thesis
      using s1(2,3) own by metis
  next
    case Nil
    then have rest: "page_rows (blocksize s) l (file_page s fn b) (nat (ts_slot ts + 1)) = []" and slot: "ts_slot ?ts = - 1"
      by (simp_all add: page_rows_def)
    have t1: "table_ok s1 l fn" and b1: "b < file_blocks s1 fn"
      using Suc.prems(1,5) at1 by simp_all
    from ts_end_ok [OF t1 ob s1(2) b1] obtain s2 where
      s2: "ts_atEndOfBlock ?ts s1 = (Inr (Suc b = file_blocks s fn), s2)" "ready s2 (ts_own ts + M)" "alike s1 s2"
      unfolding at1 by blast
    have fn1: "fn \<noteq> logFileName s1"
      using fn s1(3) by (simp add: alike_def)
    note at2 = alike_table [OF s2(3) fn1 fn(2), unfolded at1] and l2 = alike_trans [OF s1(3) s2(3)]
    show ?thesis
    proof (cases "Suc b = file_blocks s fn")
      case True
      have "lands s l fn (page_rows (blocksize s) l (file_page s fn b) (nat (ts_slot ts + 1)) @ rows_from s l fn (Suc b)) False ?ts"
        unfolding lands_def using ob Suc.prems(5) rest rows_from_end [of s fn "Suc b" l] True by (intro exI [of _ b]) simp
      moreover have "bnd (ts_step k ts) (ts_next_loop (Suc fuel) k) s = (Inr (False, ?ts), s2)"
        using s1(1) s2(1) slot True by (simp add: cmd_simps)
      ultimately show ?thesis
        using s2(2) l2 own by metis
    next
      case False
      then have b': "Suc b < file_blocks s fn" using Suc.prems(5) by simp
      have lf: "ts_layout ?ts = l" "ts_fileName ?ts = fn"
        using ob by (simp_all add: on_block_def)
      have "size M < length (pool s2)"
        using readyD(5) [OF s2(2)] on_block_own [OF Suc.prems(2)] by simp
      from ts_moveTo_ok [of s2 ?ts M "Suc b" "- 1", unfolded lf own, OF _ s2(2) this] at2 Suc.prems(1) b' obtain s3 where
        s3: "ts_moveTo (int (Suc b)) (- 1) ?ts s2 =
            (Inr (?ts\<lparr>ts_page := Some \<lparr>rp_blk = BlockId fn (int (Suc b)), rp_layout = l\<rparr>, ts_slot := - 1\<rparr>), s3)"
          "ready s3 (add_mset (BlockId fn (int (Suc b))) M)" "alike s2 s3" by auto
      let ?ts3 = "?ts\<lparr>ts_page := Some \<lparr>rp_blk = BlockId fn (int (Suc b)), rp_layout = l\<rparr>, ts_slot := - 1\<rparr>"
      have fn2: "fn \<noteq> logFileName s2"
        using fn l2 by (simp add: alike_def)
      note at3 = alike_table [OF s3(3) fn2 fn(2), unfolded at2] and l3 = alike_trans [OF l2 s3(3)]
      have ob3: "on_block l fn (Suc b) ?ts3"
        using lf by (simp add: on_block_def)
      have r3: "ready s3 (ts_own ?ts3 + M)"
        unfolding on_block_own [OF ob3] using s3(2) by simp
      have t3: "table_ok s3 l fn"
        using at3 Suc.prems(1) by simp
      have fuel: "file_blocks s fn - Suc b < fuel"
        using Suc.prems(5,7) by simp
      from Suc.IH [OF t3 ob3 _ r3, unfolded at3, OF _ b' Suc.prems(6) fuel] obtain s4 ts4 found where
        s4: "bnd (ts_step k ?ts3) (ts_next_loop fuel k) s3 = (Inr (found, ts4), s4)" "ready s4 (ts_own ts4 + M)" "alike s3 s4"
          "lands s3 l fn (page_rows (blocksize s) l (file_page s fn (Suc b)) 0 @ rows_from s l fn (Suc (Suc b))) found ts4"
        by auto
      have "bnd (ts_step k ts) (ts_next_loop (Suc fuel) k) s = (Inr (found, ts4), s4)"
        using s1(1) s2(1) s3(1) s4(1) slot False ob
        by (simp add: cmd_simps ts_recordPage_def on_block_def deref_def ts_moveToBlock_def add.commute)
      moreover have "lands s l fn (page_rows (blocksize s) l (file_page s fn b) (nat (ts_slot ts + 1)) @ rows_from s l fn (Suc b)) found ts4"
        using s4(4) lands_alike [OF l3 fn] rest rows_from_step [OF b', of l] by simp
      ultimately show ?thesis
        using s4(2) alike_trans [OF l3 s4(3)] by blast
    qed
  qed
qed


section \<open>A table scan keeps the promise of scans\<close>

text \<open>The fuel of the loops exceeds the number of blocks and the number of slots of a block.\<close>

definition ts_rest :: "nat \<Rightarrow> layout \<Rightarrow> string \<Rightarrow> 'a tx_scheme \<Rightarrow> tscan \<Rightarrow> string set \<Rightarrow> row list \<Rightarrow> nat option \<Rightarrow> bool" where
  "ts_rest k l fn s ts F rows p \<longleftrightarrow>
     table_ok s l fn \<and> F = lay_fields l \<and> (\<forall>r \<in> set rows. dom r = F) \<and> file_blocks s fn < k \<and> num_slots (blocksize s) l < k \<and>
     (\<exists>b. on_block l fn b ts \<and> b < file_blocks s fn \<and>
        (case p of None \<Rightarrow> True
         | Some j \<Rightarrow> j \<le> length rows \<and> - 1 \<le> ts_slot ts \<and>
             drop j rows = page_rows (blocksize s) l (file_page s fn b) (nat (ts_slot ts + 1)) @ rows_from s l fn (Suc b) \<and>
             (0 < j \<longrightarrow> 0 \<le> ts_slot ts \<and> nat (ts_slot ts) \<in> set (slots_with USED (blocksize s) l (file_page s fn b) 0) \<and>
               rows ! (j - 1) = page_row l (file_page s fn b) (nat (ts_slot ts)))))"

text \<open>The rows that a scan has yet to see may be a part of the table; of a whole scan they are the table.\<close>

definition ts_rep :: "nat \<Rightarrow> 'a tx_scheme \<Rightarrow> tscan \<Rightarrow> string set \<Rightarrow> row list \<Rightarrow> nat option \<Rightarrow> bool" where
  "ts_rep k s ts F rows p \<longleftrightarrow>
     ts_rest k (ts_layout ts) (ts_fileName ts) s ts F rows p \<and> rows = table_rows s (ts_layout ts) (ts_fileName ts)"

lemma ts_restD:
  assumes "ts_rest k l fn s ts F rows p"
  obtains b where "table_ok s l fn" "F = lay_fields l" "\<forall>r \<in> set rows. dom r = F" "file_blocks s fn < k"
    "num_slots (blocksize s) l < k" "on_block l fn b ts" "b < file_blocks s fn"
    "\<And>j. p = Some j \<Longrightarrow> j \<le> length rows \<and> - 1 \<le> ts_slot ts \<and>
       drop j rows = page_rows (blocksize s) l (file_page s fn b) (nat (ts_slot ts + 1)) @ rows_from s l fn (Suc b) \<and>
       (0 < j \<longrightarrow> 0 \<le> ts_slot ts \<and> nat (ts_slot ts) \<in> set (slots_with USED (blocksize s) l (file_page s fn b) 0) \<and>
               rows ! (j - 1) = page_row l (file_page s fn b) (nat (ts_slot ts)))"
  using assms unfolding ts_rest_def by (cases p) auto

lemma ts_restI:
  assumes "table_ok s l fn" "on_block l fn b ts" "b < file_blocks s fn" "file_blocks s fn < k" "num_slots (blocksize s) l < k"
    "\<forall>r \<in> set rows. dom r = lay_fields l"
    "case p of None \<Rightarrow> True
     | Some j \<Rightarrow> j \<le> length rows \<and> - 1 \<le> ts_slot ts \<and>
         drop j rows = page_rows (blocksize s) l (file_page s fn b) (nat (ts_slot ts + 1)) @ rows_from s l fn (Suc b) \<and>
         (0 < j \<longrightarrow> 0 \<le> ts_slot ts \<and> nat (ts_slot ts) \<in> set (slots_with USED (blocksize s) l (file_page s fn b) 0) \<and>
               rows ! (j - 1) = page_row l (file_page s fn b) (nat (ts_slot ts)))"
  shows "ts_rest k l fn s ts (lay_fields l) rows p"
  using assms unfolding ts_rest_def by blast

lemma ts_rep_rest: "ts_rep k s ts F rows p \<Longrightarrow> ts_rest k (ts_layout ts) (ts_fileName ts) s ts F rows p"
  unfolding ts_rep_def by blast

lemma ts_rest_scan: "ts_rest k l fn s ts F rows p \<Longrightarrow> ts_layout ts = l \<and> ts_fileName ts = fn"
  by (auto simp: on_block_def elim!: ts_restD)

lemma ts_rest_rep: "ts_rest k l fn s ts F rows p \<Longrightarrow> rows = table_rows s l fn \<Longrightarrow> ts_rep k s ts F rows p"
  using ts_rest_scan [of k l fn s ts F rows p] unfolding ts_rep_def by blast

lemma table_rows_dom:
  assumes "table_ok s l fn" "r \<in> set (table_rows s l fn)"
  shows "dom r = lay_fields l"
proof -
  obtain b where "b < file_blocks s fn" "r \<in> set (page_rows (blocksize s) l (file_page s fn b) 0)"
    using assms(2) by (auto simp: table_rows_def rows_from_def)
  with assms(1) show ?thesis
    by (auto simp: table_ok_def page_rows_def)
qed

lemma ts_rest_alike:
  assumes "ts_rest k l fn s ts F rows p" "alike s s'"
  shows "ts_rest k l fn s' ts F rows p" "table_rows s' l fn = table_rows s l fn"
proof -
  have fn: "fn \<noteq> logFileName s" "fn \<noteq> []"
    using assms(1) by (auto simp: ts_rest_def table_ok_def)
  have "ts_rest k l fn s' ts F rows p = ts_rest k l fn s ts F rows p"
    unfolding ts_rest_def alike_table [OF assms(2) fn] by simp
  with assms(1) show "ts_rest k l fn s' ts F rows p" by simp
  show "table_rows s' l fn = table_rows s l fn"
    by (rule alike_table(4) [OF assms(2) fn])
qed

lemma ts_rep_alike:
  assumes "ts_rep k s ts F rows p" "alike s s'"
  shows "ts_rep k s' ts F rows p"
  using assms(1) ts_rest_alike [OF ts_rep_rest [OF assms(1)] assms(2)] by (simp add: ts_rep_def)

lemma ts_at_start:
  assumes "table_ok s l fn" "on_block l fn 0 ts" "ts_slot ts = - 1" "file_blocks s fn < k" "num_slots (blocksize s) l < k"
  shows "ts_rest k l fn s ts (lay_fields l) (table_rows s l fn) (Some 0)"
proof -
  have "0 < file_blocks s fn"
    using assms(1) by (simp add: table_ok_def)
  with assms rows_from_step [OF this, of l] table_rows_dom [OF assms(1)] show ?thesis
    by (intro ts_restI [where b = 0]) (simp_all add: table_rows_def)
qed

lemma ts_next_ok:
  assumes "ts_rest k l fn s ts F rows (Some j)" "ready s (ts_own ts + M)"
  shows "\<exists>s' ts'. ts_next k ts s = (Inr (j < length rows, ts'), s') \<and> ready s' (ts_own ts' + M) \<and> alike s s' \<and>
    ts_rest k l fn s' ts' F rows (if j < length rows then Some (Suc j) else None)"
proof -
  obtain b where r: "table_ok s l fn" "F = lay_fields l" "\<forall>r \<in> set rows. dom r = F" "file_blocks s fn < k"
    "num_slots (blocksize s) l < k" "on_block l fn b ts" "b < file_blocks s fn"
    and p: "j \<le> length rows" "- 1 \<le> ts_slot ts"
      "drop j rows = page_rows (blocksize s) l (file_page s fn b) (nat (ts_slot ts + 1)) @ rows_from s l fn (Suc b)"
    by (rule ts_restD [OF assms(1)]) auto
  have fuel: "file_blocks s fn - b < k"
    using r(4) by simp
  from ts_next_from [OF r(1,6) p(2) assms(2) r(7,5) fuel] obtain s1 ts1 found where
    s1: "ts_next k ts s = (Inr (found, ts1), s1)" "ready s1 (ts_own ts1 + M)" "alike s s1" "lands s l fn (drop j rows) found ts1"
    unfolding p(3) ts_next_def by blast
  obtain b1 where b1: "on_block l fn b1 ts1" "b1 < file_blocks s fn"
    "case drop j rows of [] \<Rightarrow> \<not> found
      | r # rest' \<Rightarrow> found \<and> 0 \<le> ts_slot ts1 \<and>
          nat (ts_slot ts1) \<in> set (slots_with USED (blocksize s) l (file_page s fn b1) 0) \<and> r = page_row l (file_page s fn b1) (nat (ts_slot ts1)) \<and>
          rest' = page_rows (blocksize s) l (file_page s fn b1) (nat (ts_slot ts1 + 1)) @ rows_from s l fn (Suc b1)"
    using s1(4) by (auto simp: lands_def)
  note d = r(3) [unfolded r(2)]
  have "ts_rest k l fn s ts1 F rows (if j < length rows then Some (Suc j) else None)"
  proof (cases "j < length rows")
    case False
    with b1(1,2) d show ?thesis
      unfolding r(2) by (intro ts_restI [OF r(1) b1(1,2) r(4,5)]) simp_all
  next
    case True
    then have "drop j rows = rows ! j # drop (Suc j) rows"
      by (simp add: Cons_nth_drop_Suc)
    with b1(3) True d show ?thesis
      unfolding r(2) by (intro ts_restI [OF r(1) b1(1,2) r(4,5)]) simp_all
  qed
  moreover have "found = (drop j rows \<noteq> [])"
    using b1(3) by (cases "drop j rows") simp_all
  then have "found = (j < length rows)"
    by (simp add: not_le)
  ultimately show ?thesis
    using s1(1-3) ts_rest_alike(1) [OF _ s1(3)] by blast
qed

lemma ts_restart_ok:
  assumes "ts_rest k l fn s ts F rows p" "ready s (ts_own ts + M)"
  shows "\<exists>s' ts'. ts_beforeFirst ts s = (Inr ts', s') \<and> ready s' (ts_own ts' + M) \<and> alike s s' \<and>
    ts_rest k l fn s' ts' F (table_rows s l fn) (Some 0)"
proof -
  obtain b where r: "table_ok s l fn" "F = lay_fields l" "file_blocks s fn < k"
    "num_slots (blocksize s) l < k" "on_block l fn b ts" "b < file_blocks s fn"
    by (rule ts_restD [OF assms(1)])
  have ts: "ts_layout ts = l" "ts_fileName ts = fn"
    using r(5) by (simp_all add: on_block_def)
  have "size M < length (pool s)"
    using readyD(5) [OF assms(2)] on_block_own [OF r(5)] by simp
  from ts_moveTo_ok [of s ts M 0 "- 1", unfolded ts, OF r(1) assms(2) this] r(6) obtain s' where
    s': "ts_moveTo 0 (- 1) ts s = (Inr (ts\<lparr>ts_page := Some \<lparr>rp_blk = BlockId fn 0, rp_layout = l\<rparr>, ts_slot := - 1\<rparr>), s')"
      "ready s' (add_mset (BlockId fn 0) M)" "alike s s'" by auto
  let ?ts = "ts\<lparr>ts_page := Some \<lparr>rp_blk = BlockId fn 0, rp_layout = l\<rparr>, ts_slot := - 1\<rparr>"
  have "ts_rest k l fn s ?ts F (table_rows s l fn) (Some 0)"
    unfolding r(2) by (rule ts_at_start [OF r(1) _ _ r(3,4)]) (simp_all add: on_block_def ts)
  with s' ts_rest_alike(1) [OF _ s'(3)] show ?thesis
    by (auto simp: ts_beforeFirst_def ts_moveToBlock_def ts_own_def)
qed

text \<open>Reading a field of the current row.\<close>

lemma ts_current:
  assumes "ts_rest k l fn s ts F rows (Some (Suc j))" "(rows ! j) f = Some v" "ready s (ts_own ts + M)"
  obtains b ty off where "ts_page ts = Some \<lparr>rp_blk = BlockId fn (int b), rp_layout = l\<rparr>"
    "BlockId fn (int b) \<in># ts_own ts + M" "sch_fieldType f (lay_schema l) = Inr ty"
    "lay_offset f l = Inr off" "ty = INTEGER \<or> ty = BOOLEAN \<longleftrightarrow> (\<exists>i. v = VInt i)"
    "\<And>i. v = VInt i \<Longrightarrow> getInt (file_page s fn b) (ts_slot ts * lay_slotSize l + off) = Inr i"
    "\<And>x. v = VStr x \<Longrightarrow> getString (file_page s fn b) (ts_slot ts * lay_slotSize l + off) = Inr x"
proof -
  obtain b where ob: "on_block l fn b ts" and slot: "0 \<le> ts_slot ts" and row: "rows ! j = page_row l (file_page s fn b) (nat (ts_slot ts))"
    by (rule ts_restD [OF assms(1)]) auto
  have i: "int (nat (ts_slot ts)) = ts_slot ts"
    using slot by simp
  have "page_row l (file_page s fn b) (nat (ts_slot ts)) f = Some v"
    using assms(2) row by simp
  then obtain ty off where t: "sch_fieldType f (lay_schema l) = Inr ty" "lay_offset f l = Inr off"
    "if ty = INTEGER \<or> ty = BOOLEAN
     then \<exists>i. v = VInt i \<and> getInt (file_page s fn b) (ts_slot ts * lay_slotSize l + off) = Inr i
     else \<exists>x. v = VStr x \<and> getString (file_page s fn b) (ts_slot ts * lay_slotSize l + off) = Inr x"
    unfolding page_row_def i by (auto split: sum.splits if_splits)
  have "ts_page ts = Some \<lparr>rp_blk = BlockId fn (int b), rp_layout = l\<rparr>" "BlockId fn (int b) \<in># ts_own ts + M"
    using ob on_block_own [OF ob] by (simp_all add: on_block_def)
  then show thesis
    by (rule that [OF _ _ t(1,2)]) (use t(3) in \<open>auto split: if_splits\<close>)
qed

lemma ts_getInt_ok:
  assumes "ts_rest k l fn s ts F rows (Some (Suc j))" "ready s (ts_own ts + M)" "(rows ! j) f = Some (VInt i)"
  shows "\<exists>s'. ts_getInt f ts s = (Inr i, s') \<and> ready s' (ts_own ts + M) \<and> alike s s'"
proof -
  obtain b ty off where c: "ts_page ts = Some \<lparr>rp_blk = BlockId fn (int b), rp_layout = l\<rparr>"
    "BlockId fn (int b) \<in># ts_own ts + M" "lay_offset f l = Inr off"
    "getInt (file_page s fn b) (ts_slot ts * lay_slotSize l + off) = Inr i"
    by (rule ts_current [OF assms(1,3,2)]) auto
  from ready_getInt [OF assms(2) c(2), of "ts_slot ts * lay_slotSize l + off"] obtain s' where
    "tx_getInt (BlockId fn (int b)) (ts_slot ts * lay_slotSize l + off) s = (Inr i, s')"
    "ready s' (ts_own ts + M)" "alike s s'"
    using c(4) unfolding file_page_def by force
  with c(1,3) show ?thesis
    by (intro exI [of _ s'])
      (simp add: ts_getInt_def ts_recordPage_def deref_def rp_getInt_def rp_fieldPos_def rp_offset_def cmd_simps)
qed

lemma ts_getString_ok:
  assumes "ts_rest k l fn s ts F rows (Some (Suc j))" "ready s (ts_own ts + M)" "(rows ! j) f = Some (VStr x)"
  shows "\<exists>s'. ts_getString f ts s = (Inr x, s') \<and> ready s' (ts_own ts + M) \<and> alike s s'"
proof -
  obtain b ty off where c: "ts_page ts = Some \<lparr>rp_blk = BlockId fn (int b), rp_layout = l\<rparr>"
    "BlockId fn (int b) \<in># ts_own ts + M" "lay_offset f l = Inr off"
    "getString (file_page s fn b) (ts_slot ts * lay_slotSize l + off) = Inr x"
    by (rule ts_current [OF assms(1,3,2)]) auto
  from ready_getString [OF assms(2) c(2), of "ts_slot ts * lay_slotSize l + off"] obtain s' where
    "tx_getString (BlockId fn (int b)) (ts_slot ts * lay_slotSize l + off) s = (Inr x, s')"
    "ready s' (ts_own ts + M)" "alike s s'"
    using c(4) unfolding file_page_def by force
  with c(1,3) show ?thesis
    by (intro exI [of _ s'])
      (simp add: ts_getString_def ts_recordPage_def deref_def rp_getString_def rp_fieldPos_def rp_offset_def cmd_simps)
qed

lemma ts_getValue_ok:
  assumes "ts_rest k l fn s ts F rows (Some (Suc j))" "ready s (ts_own ts + M)" "(rows ! j) f = Some v"
  shows "\<exists>s'. ts_getValue f ts s = (Inr (const_of v), s') \<and> ready s' (ts_own ts + M) \<and> alike s s'"
proof -
  obtain ty where ty: "sch_fieldType f (lay_schema l) = Inr ty" "ty = INTEGER \<or> ty = BOOLEAN \<longleftrightarrow> (\<exists>i. v = VInt i)"
    by (rule ts_current [OF assms(1,3,2)])
  show ?thesis
  proof (cases v)
    case (VInt i)
    from ts_getInt_ok [OF assms(1,2)] assms(3) VInt obtain s' where
      "ts_getInt f ts s = (Inr i, s')" "ready s' (ts_own ts + M)" "alike s s'" by blast
    with ty VInt show ?thesis
      by (intro exI [of _ s']) (simp add: ts_getValue_def ts_rest_scan [OF assms(1)] cmd_simps)
  next
    case (VStr x)
    from ts_getString_ok [OF assms(1,2)] assms(3) VStr obtain s' where
      "ts_getString f ts s = (Inr x, s')" "ready s' (ts_own ts + M)" "alike s s'" by blast
    with ty VStr show ?thesis
      by (intro exI [of _ s']) (simp add: ts_getValue_def ts_rest_scan [OF assms(1)] cmd_simps)
  qed
qed

interpretation tables: memory alike
  by unfold_locales (rule alike_refl, erule (1) alike_trans)

interpretation rest: cursor alike "ts_ops k" ready ts_own "ts_rest k l fn" for k l fn
proof (unfold_locales, goal_cases)
  case (1 s c F rows p s')
  then show ?case by (rule ts_rest_alike(1))
next
  case (2 s c F rows p r)
  have "\<forall>r \<in> set rows. dom r = F"
    by (rule ts_restD [OF 2(1)])
  with 2(2) show ?case by simp
next
  case (3 s c F rows j)
  then show ?case by (auto elim!: ts_restD)
next
  case (4 s c F rows j M)
  from ts_next_ok [OF 4] show ?case by (simp add: ts_ops_def)
next
  case (5 s c F rows j M f v)
  from ts_getValue_ok [OF 5] show ?case by (simp add: ts_ops_def)
qed

interpretation ts: scan alike "ts_ops k" ready ts_own "ts_rep k" for k
proof (unfold_locales, goal_cases)
  case (1 s c F rows p s')
  then show ?case by (rule ts_rep_alike)
next
  case (2 s c F rows p r)
  then show ?case using rest.rows_dom ts_rep_rest by blast
next
  case (3 s c F rows j)
  then show ?case using rest.within ts_rep_rest by blast
next
  case (4 s c F rows j M)
  have t: "rows = table_rows s (ts_layout c) (ts_fileName c)"
    using 4(1) by (simp add: ts_rep_def)
  from rest.next_row [OF ts_rep_rest [OF 4(1)] 4(2)] obtain s' c' where
    s': "op_next (ts_ops k) c s = (Inr (j < length rows, c'), s')" "ready s' (ts_own c' + M)" "alike s s'"
      "ts_rest k (ts_layout c) (ts_fileName c) s' c' F rows (if j < length rows then Some (Suc j) else None)" by blast
  from ts_rest_rep [OF s'(4)] ts_rest_alike(2) [OF ts_rep_rest [OF 4(1)] s'(3)] t s'(1-3) show ?case by auto
next
  case (5 s c F rows j M f v)
  from rest.const_value [OF ts_rep_rest [OF 5(1)] 5(2,3)] show ?case .
next
  case (6 s c F rows p M)
  have t: "rows = table_rows s (ts_layout c) (ts_fileName c)"
    using 6(1) by (simp add: ts_rep_def)
  from ts_restart_ok [OF ts_rep_rest [OF 6(1)] 6(2)] obtain s' c' where
    s': "ts_beforeFirst c s = (Inr c', s')" "ready s' (ts_own c' + M)" "alike s s'"
      "ts_rest k (ts_layout c) (ts_fileName c) s' c' F rows (Some 0)" unfolding t by blast
  from ts_rest_rep [OF s'(4)] ts_rest_alike(2) [OF ts_rep_rest [OF 6(1)] s'(3)] t s'(1-3) show ?case
    by (auto simp: ts_ops_def)
next
  case (7 s c F rows j M f v)
  from ts_getInt_ok [OF ts_rep_rest [OF 7(1)] 7(2,3)] show ?case by (simp add: ts_ops_def)
next
  case (8 s c F rows j M f v)
  from ts_getInt_ok [OF ts_rep_rest [OF 8(1)] 8(2,3)] obtain s' where
    "ts_getInt f c s = (Inr v, s')" "ready s' (ts_own c + M)" "alike s s'" by blast
  then show ?case by (intro exI [of _ s']) (simp add: ts_ops_def ts_getBool_def cmd_simps)
next
  case (9 s c F rows j M f v)
  from ts_getString_ok [OF ts_rep_rest [OF 9(1)] 9(2,3)] show ?case by (simp add: ts_ops_def)
next
  case (10 s c F rows p f)
  then show ?case
    by (auto dest!: ts_rep_rest elim!: ts_restD simp: ts_ops_def ts_hasField_def sch_hasField_def lay_fields_def)
next
  case (11 s c F rows p M)
  then show ?case using ts_close_ok by (simp add: ts_ops_def)
qed

end
