(* ===== verification/Algebra.thy ===== *)
theory Algebra
  imports Plans TableReads
begin

text \<open>
  Query plans over tables, selections, projections and products compute the relational algebra:
  opening a plan and fetching to the end yields the rows of the plan. Trees of scans keep the
  promise of scans because every kind of node does.
\<close>

section \<open>Trees of scans keep the promise\<close>

text \<open>The promise at one scan, to collect it node by node.\<close>

definition keeps_promise ::
  "('s \<Rightarrow> 's \<Rightarrow> bool) \<Rightarrow> ('s, 'c) scan_ops \<Rightarrow> ('s \<Rightarrow> 'r multiset \<Rightarrow> bool) \<Rightarrow> ('c \<Rightarrow> 'r multiset) \<Rightarrow>
   ('s \<Rightarrow> 'c \<Rightarrow> string set \<Rightarrow> row list \<Rightarrow> nat option \<Rightarrow> bool) \<Rightarrow> 'c \<Rightarrow> bool" where
  "keeps_promise like ops G own rep c \<longleftrightarrow>
     (\<forall>s F rows p s'. rep s c F rows p \<longrightarrow> like s s' \<longrightarrow> rep s' c F rows p) \<and>
     (\<forall>s F rows p r. rep s c F rows p \<longrightarrow> r \<in> set rows \<longrightarrow> dom r = F) \<and>
     (\<forall>s F rows k. rep s c F rows (Some k) \<longrightarrow> k \<le> length rows) \<and>
     (\<forall>s F rows k M. rep s c F rows (Some k) \<longrightarrow> G s (own c + M) \<longrightarrow>
        (\<exists>s' c'. op_next ops c s = (Inr (k < length rows, c'), s') \<and> G s' (own c' + M) \<and> like s s' \<and>
          rep s' c' F rows (if k < length rows then Some (Suc k) else None))) \<and>
     (\<forall>s F rows k M f v. rep s c F rows (Some (Suc k)) \<longrightarrow> G s (own c + M) \<longrightarrow> (rows ! k) f = Some v \<longrightarrow>
        (\<exists>s'. op_getValue ops f c s = (Inr (const_of v), s') \<and> G s' (own c + M) \<and> like s s')) \<and>
     (\<forall>s F rows p M. rep s c F rows p \<longrightarrow> G s (own c + M) \<longrightarrow>
        (\<exists>s' c'. op_beforeFirst ops c s = (Inr c', s') \<and> G s' (own c' + M) \<and> like s s' \<and> rep s' c' F rows (Some 0))) \<and>
     (\<forall>s F rows k M f i. rep s c F rows (Some (Suc k)) \<longrightarrow> G s (own c + M) \<longrightarrow> (rows ! k) f = Some (VInt i) \<longrightarrow>
        (\<exists>s'. op_getInt ops f c s = (Inr i, s') \<and> G s' (own c + M) \<and> like s s')) \<and>
     (\<forall>s F rows k M f i. rep s c F rows (Some (Suc k)) \<longrightarrow> G s (own c + M) \<longrightarrow> (rows ! k) f = Some (VInt i) \<longrightarrow>
        (\<exists>s'. op_getBool ops f c s = (Inr (i \<noteq> 0), s') \<and> G s' (own c + M) \<and> like s s')) \<and>
     (\<forall>s F rows k M f x. rep s c F rows (Some (Suc k)) \<longrightarrow> G s (own c + M) \<longrightarrow> (rows ! k) f = Some (VStr x) \<longrightarrow>
        (\<exists>s'. op_getString ops f c s = (Inr x, s') \<and> G s' (own c + M) \<and> like s s')) \<and>
     (\<forall>s F rows p f. rep s c F rows p \<longrightarrow> op_hasField ops f c = Inr (f \<in> F)) \<and>
     (\<forall>s F rows p M. rep s c F rows p \<longrightarrow> G s (own c + M) \<longrightarrow>
        (\<exists>s'. op_close ops c s = (Inr (), s') \<and> G s' M \<and> like s s'))"

lemma scan_keeps_promise:
  assumes "memory like" "\<And>c. keeps_promise like ops G own rep c"
  shows "scan like ops G own rep"
proof -
  note k = assms(2) [unfolded keeps_promise_def]
  show ?thesis
  proof (rule scan.intro [OF cursor.intro [OF assms(1) cursor_axioms.intro] scan_axioms.intro], goal_cases)
    case 1
    then show ?case by (rule k [THEN conjunct1, rule_format])
  next
    case 2
    then show ?case by (rule k [THEN conjunct2, THEN conjunct1, rule_format])
  next
    case 3
    then show ?case by (rule k [THEN conjunct2, THEN conjunct2, THEN conjunct1, rule_format])
  next
    case 4
    then show ?case by (rule k [THEN conjunct2, THEN conjunct2, THEN conjunct2, THEN conjunct1, rule_format])
  next
    case 5
    then show ?case by (rule k [THEN conjunct2, THEN conjunct2, THEN conjunct2, THEN conjunct2, THEN conjunct1, rule_format])
  next
    case 6
    then show ?case by (rule k [THEN conjunct2, THEN conjunct2, THEN conjunct2, THEN conjunct2, THEN conjunct2, THEN conjunct1, rule_format])
  next
    case 7
    then show ?case by (rule k [THEN conjunct2, THEN conjunct2, THEN conjunct2, THEN conjunct2, THEN conjunct2, THEN conjunct2, THEN conjunct1, rule_format])
  next
    case 8
    then show ?case by (rule k [THEN conjunct2, THEN conjunct2, THEN conjunct2, THEN conjunct2, THEN conjunct2, THEN conjunct2, THEN conjunct2, THEN conjunct1, rule_format])
  next
    case 9
    then show ?case by (rule k [THEN conjunct2, THEN conjunct2, THEN conjunct2, THEN conjunct2, THEN conjunct2, THEN conjunct2, THEN conjunct2, THEN conjunct2, THEN conjunct1, rule_format])
  next
    case 10
    then show ?case by (rule k [THEN conjunct2, THEN conjunct2, THEN conjunct2, THEN conjunct2, THEN conjunct2, THEN conjunct2, THEN conjunct2, THEN conjunct2, THEN conjunct2, THEN conjunct1, rule_format])
  next
    case 11
    then show ?case by (rule k [THEN conjunct2, THEN conjunct2, THEN conjunct2, THEN conjunct2, THEN conjunct2, THEN conjunct2, THEN conjunct2, THEN conjunct2, THEN conjunct2, THEN conjunct2, rule_format])
  qed
qed

lemma keeps_promise_none: "(\<And>s F rows p. \<not> rep s c F rows p) \<Longrightarrow> keeps_promise like ops G own rep c"
  by (simp add: keeps_promise_def)

text \<open>A node \<open>C x\<close> of a tree whose calls go to the functions of \<open>x\<close>.\<close>

definition forwards ::
  "('s, scan) scan_ops \<Rightarrow> (scan \<Rightarrow> 'r multiset) \<Rightarrow> ('s \<Rightarrow> scan \<Rightarrow> string set \<Rightarrow> row list \<Rightarrow> nat option \<Rightarrow> bool) \<Rightarrow>
   ('c \<Rightarrow> scan) \<Rightarrow> ('s, 'c) scan_ops \<Rightarrow> ('c \<Rightarrow> 'r multiset) \<Rightarrow> ('s \<Rightarrow> 'c \<Rightarrow> string set \<Rightarrow> row list \<Rightarrow> nat option \<Rightarrow> bool) \<Rightarrow> bool" where
  "forwards ops own rep C ops' own' rep' \<longleftrightarrow> (\<forall>x.
     op_beforeFirst ops (C x) = wrap C (op_beforeFirst ops' x) \<and> op_next ops (C x) = wrap2 C (op_next ops' x) \<and>
     (\<forall>f. op_getInt ops f (C x) = op_getInt ops' f x) \<and> (\<forall>f. op_getBool ops f (C x) = op_getBool ops' f x) \<and>
     (\<forall>f. op_getString ops f (C x) = op_getString ops' f x) \<and> (\<forall>f. op_getValue ops f (C x) = op_getValue ops' f x) \<and>
     (\<forall>f. op_hasField ops f (C x) = op_hasField ops' f x) \<and> op_close ops (C x) = op_close ops' x \<and>
     own (C x) = own' x \<and> (\<forall>s. rep s (C x) = rep' s x))"

lemma forwards_promise:
  assumes "scan like ops' G own' rep'" "forwards ops own rep C ops' own' rep'"
  shows "keeps_promise like ops G own rep (C x)"
proof -
  note fw' = assms(2) [unfolded forwards_def, rule_format] and fw = assms(2) [unfolded forwards_def, rule_format, of x]
  show ?thesis
    unfolding keeps_promise_def
  proof (intro conjI allI impI, goal_cases)
    case (1 s F rows p s')
    with cursor.stable [OF scan.axioms(1) [OF assms(1)]] fw show ?case by metis
  next
    case (2 s F rows p r)
    with cursor.rows_dom [OF scan.axioms(1) [OF assms(1)]] fw show ?case by metis
  next
    case (3 s F rows k)
    with cursor.within [OF scan.axioms(1) [OF assms(1)]] fw show ?case by metis
  next
    case (4 s F rows k M)
    then have "rep' s x F rows (Some k)" "G s (own' x + M)"
      using fw by metis+
    from cursor.next_row [OF scan.axioms(1) [OF assms(1)] this] obtain s' x' where
      "op_next ops' x s = (Inr (k < length rows, x'), s')" "G s' (own' x' + M)" "like s s'"
        "rep' s' x' F rows (if k < length rows then Some (Suc k) else None)" by blast
    with fw fw' [of x'] show ?case
      by (intro exI [of _ s'] exI [of _ "C x'"]) (simp add: wrap2_def cmd_simps)
  next
    case (5 s F rows k M f v)
    with cursor.const_value [OF scan.axioms(1) [OF assms(1)]] fw show ?case by metis
  next
    case (6 s F rows p M)
    then have "rep' s x F rows p" "G s (own' x + M)"
      using fw by metis+
    from scan.restart [OF assms(1) this] obtain s' x' where
      "op_beforeFirst ops' x s = (Inr x', s')" "G s' (own' x' + M)" "like s s'" "rep' s' x' F rows (Some 0)" by blast
    with fw fw' [of x'] show ?case
      by (intro exI [of _ s'] exI [of _ "C x'"]) (simp add: wrap_def cmd_simps)
  next
    case (7 s F rows k M f i)
    with scan.int_value [OF assms(1)] fw show ?case by metis
  next
    case (8 s F rows k M f i)
    with scan.bool_value [OF assms(1)] fw show ?case by metis
  next
    case (9 s F rows k M f y)
    with scan.string_value [OF assms(1)] fw show ?case by metis
  next
    case (10 s F rows p f)
    with scan.has_field [OF assms(1)] fw show ?case by metis
  next
    case (11 s F rows p M)
    with scan.closes [OF assms(1)] fw show ?case by metis
  qed
qed

text \<open>
  The scan of a plan has the shape of the plan; only the plans of the relational algebra stand
  for rows here.
\<close>

fun pl_depth :: "plan \<Rightarrow> nat" where
  "pl_depth (TablePlan n l si) = 1"
| "pl_depth (SelectPlan p pr) = Suc (pl_depth p)"
| "pl_depth (ProjectPlan p sch) = Suc (pl_depth p)"
| "pl_depth (ProductPlan p1 p2 sch) = Suc (max (pl_depth p1) (pl_depth p2))"
| "pl_depth p = 1"

fun tree_own :: "plan \<Rightarrow> scan \<Rightarrow> block_id multiset" where
  "tree_own (TablePlan n l si) (TableS x) = ts_own x"
| "tree_own (SelectPlan p pr) (SelectS x) = sel_own (tree_own p) x"
| "tree_own (ProjectPlan p sch) (ProjectS x) = proj_own (tree_own p) x"
| "tree_own (ProductPlan p1 p2 sch) (ProductS x) = prod_own (tree_own p1) (tree_own p2) x"
| "tree_own p c = {#}"

fun tree_rep :: "nat \<Rightarrow> plan \<Rightarrow> 'a tx_scheme \<Rightarrow> scan \<Rightarrow> string set \<Rightarrow> row list \<Rightarrow> nat option \<Rightarrow> bool" where
  "tree_rep k (TablePlan n l si) s (TableS x) = ts_rep k s x"
| "tree_rep k (SelectPlan p pr) s (SelectS x) = sel_rep k (tree_rep k p) s x"
| "tree_rep k (ProjectPlan p sch) s (ProjectS x) = proj_rep (tree_rep k p) s x"
| "tree_rep k (ProductPlan p1 p2 sch) s (ProductS x) = prod_rep (tree_rep k p1) (tree_rep k p2) s x"
| "tree_rep k p s c = (\<lambda>_ _ _. False)"

lemmas vt_fun_defs = vt_beforeFirst_def vt_next_def vt_getInt_def vt_getBool_def vt_getString_def vt_getValue_def
  vt_hasField_def vt_close_def

lemma ts_op_hasField [simp]: "op_hasField (ts_ops k) f x = Inr (ts_hasField f x)"
  by (simp add: ts_ops_def)

text \<open>A promise kept by the nodes of one kind, where no other scan has the shape.\<close>

lemma shape_scan:
  assumes "scan alike ops' G own' rep'" "forwards ops own rep C ops' own' rep'"
    "\<And>c s F rows p. rep s c F rows p \<Longrightarrow> \<exists>x. c = C x"
  shows "scan alike ops G own rep"
proof (rule scan_keeps_promise [OF tables.memory_axioms])
  fix c
  show "keeps_promise alike ops G own rep c"
    using forwards_promise [OF assms(1,2)] assms(3) keeps_promise_none by (metis (no_types))
qed

lemma tree_rep_shape:
  "tree_rep k (TablePlan n l si) s c F rows p \<Longrightarrow> \<exists>x. c = TableS x"
  "tree_rep k (SelectPlan p1 pr) s c F rows p \<Longrightarrow> \<exists>x. c = SelectS x"
  "tree_rep k (ProjectPlan p1 sch) s c F rows p \<Longrightarrow> \<exists>x. c = ProjectS x"
  "tree_rep k (ProductPlan p1 p2 sch) s c F rows p \<Longrightarrow> \<exists>x. c = ProductS x"
  by (cases c; simp)+

theorem tree_scan: "pl_depth p \<le> d \<Longrightarrow> scan alike (vt k d :: 'a vtable) ready (tree_own p) (tree_rep k p)"
proof (induction p arbitrary: d)
  case (TablePlan n l si)
  then obtain e where d: "d = Suc e" by (cases d) auto
  show ?case
    by (rule shape_scan [OF ts.scan_axioms [of k], where C = TableS]) (auto simp: d forwards_def vt_fun_defs dest: tree_rep_shape)
next
  case (SelectPlan p pr)
  then obtain e where d: "d = Suc e" by (cases d) auto
  with SelectPlan have "scan alike (vt k e :: 'a vtable) ready (tree_own p) (tree_rep k p)" by simp
  from scan.select_scan [OF this, of k] show ?case
    by (rule shape_scan [where C = SelectS]) (auto simp: d forwards_def vt_fun_defs dest: tree_rep_shape)
next
  case (ProjectPlan p sch)
  then obtain e where d: "d = Suc e" by (cases d) auto
  with ProjectPlan have "scan alike (vt k e :: 'a vtable) ready (tree_own p) (tree_rep k p)" by simp
  from scan.project_scan [OF this] show ?case
    by (rule shape_scan [where C = ProjectS]) (auto simp: d forwards_def vt_fun_defs dest: tree_rep_shape)
next
  case (ProductPlan p1 p2 sch)
  then obtain e where d: "d = Suc e" by (cases d) auto
  with ProductPlan have "scan alike (vt k e :: 'a vtable) ready (tree_own p1) (tree_rep k p1)"
    "scan alike (vt k e :: 'a vtable) ready (tree_own p2) (tree_rep k p2)" by simp_all
  from two_scans.product_scan [OF two_scans.intro [OF this]] show ?case
    by (rule shape_scan [where C = ProductS]) (auto simp: d forwards_def vt_fun_defs dest: tree_rep_shape)
qed (rule scan_keeps_promise [OF tables.memory_axioms], simp add: keeps_promise_none)+

interpretation tree: scan alike "vt k (pl_depth p + e)" ready "tree_own p" "tree_rep k p" for k p e
  by (rule tree_scan) simp


section \<open>The rows of a plan\<close>

definition table_file :: "string \<Rightarrow> string" where
  "table_file n = n @ ''.tbl''"

fun pl_rows :: "'a bm_scheme \<Rightarrow> plan \<Rightarrow> row list" where
  "pl_rows s (TablePlan n l si) = table_rows s l (table_file n)"
| "pl_rows s (SelectPlan p pr) = filter (\<lambda>r. pr_holds r pr) (pl_rows s p)"
| "pl_rows s (ProjectPlan p sch) = map (\<lambda>r. r |` set (sch_fields sch)) (pl_rows s p)"
| "pl_rows s (ProductPlan p1 p2 sch) = prod_rows (pl_rows s p1) (pl_rows s p2)"
| "pl_rows s p = []"

fun pl_attrs :: "plan \<Rightarrow> string set" where
  "pl_attrs (TablePlan n l si) = lay_fields l"
| "pl_attrs (SelectPlan p pr) = pl_attrs p"
| "pl_attrs (ProjectPlan p sch) = set (sch_fields sch)"
| "pl_attrs (ProductPlan p1 p2 sch) = pl_attrs p1 \<union> pl_attrs p2"
| "pl_attrs p = {}"

text \<open>
  A plan of the relational algebra over readable tables: typed predicates, projections onto
  fields that exist, a left operand of a product that is not empty, and loops within the fuel.
\<close>

fun pl_ok :: "nat \<Rightarrow> 'a bm_scheme \<Rightarrow> plan \<Rightarrow> bool" where
  "pl_ok k s (TablePlan n l si) \<longleftrightarrow> table_ok s l (table_file n) \<and> file_blocks s (table_file n) < k \<and> num_slots (blocksize s) l < k"
| "pl_ok k s (SelectPlan p pr) \<longleftrightarrow> pl_ok k s p \<and> length (pl_rows s p) < k \<and> (\<forall>r \<in> set (pl_rows s p). \<forall>t \<in> set pr. tm_typed r t)"
| "pl_ok k s (ProjectPlan p sch) \<longleftrightarrow> pl_ok k s p \<and> set (sch_fields sch) \<subseteq> pl_attrs p"
| "pl_ok k s (ProductPlan p1 p2 sch) \<longleftrightarrow> pl_ok k s p1 \<and> pl_ok k s p2 \<and> pl_rows s p1 \<noteq> []"
| "pl_ok k s p \<longleftrightarrow> False"

fun pl_tables :: "plan \<Rightarrow> nat" where
  "pl_tables (TablePlan n l si) = 1"
| "pl_tables (SelectPlan p pr) = pl_tables p"
| "pl_tables (ProjectPlan p sch) = pl_tables p"
| "pl_tables (ProductPlan p1 p2 sch) = pl_tables p1 + pl_tables p2"
| "pl_tables p = 0"

lemma tree_own_tables: "size (tree_own p c) \<le> pl_tables p"
proof (induction p c rule: tree_own.induct)
  case (1 n l si x)
  then show ?case by (simp add: ts_own_def split: option.split)
qed (simp_all add: sel_own_def proj_own_def prod_own_def add_mono)

lemma alike_plan:
  assumes "alike s s'" "pl_ok k s p"
  shows "pl_rows s' p = pl_rows s p \<and> pl_ok k s' p"
  using assms(2)
proof (induction p)
  case (TablePlan n l si)
  then have "table_file n \<noteq> logFileName s" "table_file n \<noteq> []"
    by (simp_all add: table_ok_def)
  from TablePlan alike_table [OF assms(1) this] show ?case by simp
qed simp_all

text \<open>Opening a table.\<close>

lemma ts_new_ok:
  assumes "pl_ok k s (TablePlan n l si)" "ready s M" "size M < length (pool s)"
  shows "\<exists>s' ts. ts_new k n l s = (Inr ts, s') \<and> ready s' (ts_own ts + M) \<and> alike s s' \<and>
    ts_rep k s' ts (lay_fields l) (table_rows s l (table_file n)) (Some 0) \<and> on_block l (table_file n) 0 ts \<and> ts_slot ts = - 1"
proof -
  let ?fn = "table_file n"
  let ?ts = "\<lparr>ts_layout = l, ts_page = None, ts_fileName = ?fn, ts_slot = 0\<rparr>"
  let ?ts' = "\<lparr>ts_layout = l, ts_page = Some \<lparr>rp_blk = BlockId ?fn 0, rp_layout = l\<rparr>, ts_fileName = ?fn, ts_slot = - 1\<rparr>"
  have t: "table_ok s l ?fn" "file_blocks s ?fn < k" "num_slots (blocksize s) l < k"
    using assms(1) by simp_all
  then have fn: "?fn \<noteq> logFileName s" "?fn \<noteq> []" "0 < file_blocks s ?fn"
    by (simp_all add: table_ok_def)
  then have len: "fm_length ?fn s \<noteq> 0"
    by (simp add: file_blocks_def)
  from ready_size [OF assms(2)] obtain s1 where
    s1: "tx_size ?fn s = (Inr (fm_length ?fn s), s1)" "ready s1 M" "alike s s1" by blast
  note at1 = alike_table [OF s1(3) fn(1,2)]
  have "table_ok s1 (ts_layout ?ts) (ts_fileName ?ts)" "ready s1 (ts_own ?ts + M)" "size M < length (pool s1)"
    "0 < file_blocks s1 (ts_fileName ?ts)"
    using t(1) fn(3) s1(2,3) assms(3) by (simp_all add: at1 ts_own_def alike_def)
  from ts_moveTo_ok [OF this, of "- 1"] obtain s2 where
    s2: "ts_moveTo 0 (- 1) ?ts s1 = (Inr ?ts', s2)" "ready s2 (add_mset (BlockId ?fn 0) M)" "alike s1 s2" by auto
  have l: "alike s s2"
    using alike_trans [OF s1(3) s2(3)] .
  note at2 = alike_table [OF l fn(1,2)]
  have "ts_rep k s2 ?ts' (lay_fields l) (table_rows s2 l ?fn) (Some 0)"
    by (rule ts_rest_rep [OF ts_at_start]) (use t in \<open>simp_all add: at2 on_block_def\<close>)
  then have "ts_rep k s2 ?ts' (lay_fields l) (table_rows s l ?fn) (Some 0)"
    unfolding at2 .
  moreover have "ts_new k n l s = (Inr ?ts', s2)"
    using s1(1) s2(1) len by (simp add: ts_new_def Let_def cmd_simps table_file_def ts_moveToBlock_def)
  ultimately show ?thesis
    using s2(2) l by (intro exI [of _ s2] exI [of _ ?ts']) (simp add: ts_own_def on_block_def)
qed


text \<open>Opening a plan: the scan stands for the rows of the plan, at the start.\<close>

lemma pl_open_ok:
  fixes s :: "'a tmp_scheme"
  assumes "pl_ok k s p" "pl_depth p \<le> d" "ready s M" "size M + pl_tables p \<le> length (pool s)"
  shows "\<exists>s' c. pl_open k d p s = (Inr c, s') \<and> ready s' (tree_own p c + M) \<and> alike s s' \<and>
    tree_rep k p s' c (pl_attrs p) (pl_rows s p) (Some 0)"
  using assms
proof (induction p arbitrary: s M)
  case (TablePlan n l si)
  have "size M < length (pool s)"
    using TablePlan.prems(4) by simp
  from ts_new_ok [OF TablePlan.prems(1,3) this] obtain s' ts where
    "ts_new k n l s = (Inr ts, s')" "ready s' (ts_own ts + M)" "alike s s'"
    "ts_rep k s' ts (lay_fields l) (table_rows s l (table_file n)) (Some 0)" by blast
  then show ?case
    by (intro exI [of _ s'] exI [of _ "TableS ts"]) (simp add: wrap_def cmd_simps)
next
  case (SelectPlan p pr)
  then have ok: "pl_ok k s p" "pl_depth p \<le> d" "size M + pl_tables p \<le> length (pool s)"
    "length (pl_rows s p) < k" "\<forall>r \<in> set (pl_rows s p). \<forall>t \<in> set pr. tm_typed r t" by simp_all
  from SelectPlan.IH [OF ok(1,2) SelectPlan.prems(3) ok(3)] obtain s' c where
    s': "pl_open k d p s = (Inr c, s')" "ready s' (tree_own p c + M)" "alike s s'"
      "tree_rep k p s' c (pl_attrs p) (pl_rows s p) (Some 0)" by blast
  have "sel_rep k (tree_rep k p) s' (SelectScan c pr) (pl_attrs p) (filter (\<lambda>r. pr_holds r pr) (pl_rows s p)) (Some 0)"
    unfolding sel_rep_def using s'(4) ok(4,5) by (intro exI [of _ "pl_rows s p"] exI [of _ "Some 0"]) simp
  with s'(1-3) show ?case
    by (intro exI [of _ s'] exI [of _ "SelectS (SelectScan c pr)"]) (simp add: wrap_def cmd_simps sel_own_def)
next
  case (ProjectPlan p sch)
  then have ok: "pl_ok k s p" "pl_depth p \<le> d" "size M + pl_tables p \<le> length (pool s)" "set (sch_fields sch) \<subseteq> pl_attrs p"
    by simp_all
  from ProjectPlan.IH [OF ok(1,2) ProjectPlan.prems(3) ok(3)] obtain s' c where
    s': "pl_open k d p s = (Inr c, s')" "ready s' (tree_own p c + M)" "alike s s'"
      "tree_rep k p s' c (pl_attrs p) (pl_rows s p) (Some 0)" by blast
  have "proj_rep (tree_rep k p) s' (ProjectScan c (sch_fields sch)) (set (sch_fields sch))
      (map (\<lambda>r. r |` set (sch_fields sch)) (pl_rows s p)) (Some 0)"
    unfolding proj_rep_def using s'(4) ok(4) by (intro exI [of _ "pl_attrs p"] exI [of _ "pl_rows s p"]) simp
  with s'(1-3) show ?case
    by (intro exI [of _ s'] exI [of _ "ProjectS (ProjectScan c (sch_fields sch))"]) (simp add: wrap_def cmd_simps proj_own_def)
next
  case (ProductPlan p1 p2 sch)
  then have ok: "pl_ok k s p1" "pl_ok k s p2" "pl_rows s p1 \<noteq> []" "pl_depth p1 \<le> d" "pl_depth p2 \<le> d"
    "size M + pl_tables p1 \<le> length (pool s)" by simp_all
  from ProductPlan.IH(1) [OF ok(1,4) ProductPlan.prems(3) ok(6)] obtain s1 c1 where
    s1: "pl_open k d p1 s = (Inr c1, s1)" "ready s1 (tree_own p1 c1 + M)" "alike s s1"
      "tree_rep k p1 s1 c1 (pl_attrs p1) (pl_rows s p1) (Some 0)" by blast
  note at1 = alike_plan [OF s1(3) ok(2)]
  have "size (tree_own p1 c1 + M) + pl_tables p2 \<le> length (pool s1)"
    using s1(3) ProductPlan.prems(4) tree_own_tables [of p1 c1] by (simp add: alike_def)
  from ProductPlan.IH(2) [OF conjunct2 [OF at1] ok(5) s1(2) this] obtain s2 c2 where
    s2: "pl_open k d p2 s1 = (Inr c2, s2)" "ready s2 (tree_own p2 c2 + (tree_own p1 c1 + M))" "alike s1 s2"
      "tree_rep k p2 s2 c2 (pl_attrs p2) (pl_rows s p2) (Some 0)" unfolding conjunct1 [OF at1] by blast
  note two = two_scans.intro [OF tree_scan [OF ok(4)] tree_scan [OF ok(5)]]
  have "tree_rep k p1 s2 c1 (pl_attrs p1) (pl_rows s p1) (Some 0)"
    by (rule cursor.stable [OF scan.axioms(1) [OF tree_scan [OF ok(4)]] s1(4) s2(3)])
  moreover have "ready s2 (tree_own p1 c1 + tree_own p2 c2 + M)"
    using s2(2) by (simp add: ac_simps)
  ultimately obtain s3 c where
    s3: "prod_new (vt k d) c1 c2 s2 = (Inr c, s3)" "ready s3 (prod_own (tree_own p1) (tree_own p2) c + M)" "alike s2 s3"
      "prod_rep (tree_rep k p1) (tree_rep k p2) s3 c (pl_attrs p1 \<union> pl_attrs p2) (prod_rows (pl_rows s p1) (pl_rows s p2)) (Some 0)"
    using two_scans.product_new [OF two _ s2(4) ok(3)] by blast
  moreover have "alike s s3"
    using tables.like_trans3 [OF s1(3) s2(3) s3(3)] .
  ultimately show ?case
    using s1(1) s2(1) by (intro exI [of _ s3] exI [of _ "ProductS c"]) (simp add: wrap_def cmd_simps)
qed simp_all

text \<open>Opening a plan and asking for the values of some fields until there is no next row.\<close>

definition pl_run :: "nat \<Rightarrow> nat \<Rightarrow> plan \<Rightarrow> string list \<Rightarrow> ('a tmp_scheme, const list list) cmd" where
  "pl_run k d p fs = bnd (pl_open k d p) (\<lambda>c. bnd (fetch k (vt k d) fs c) (\<lambda>(vss, c). seq (op_close (vt k d) c) (ret vss)))"

lemma pl_run_ok:
  assumes "pl_ok k s p" "pl_depth p \<le> d" "ready s M" "size M + pl_tables p \<le> length (pool s)"
    "set fs \<subseteq> pl_attrs p" "length (pl_rows s p) < k"
  shows "\<exists>s'. pl_run k d p fs s = (Inr (map (row_values fs) (pl_rows s p)), s') \<and> ready s' M \<and> alike s s'"
proof -
  note sc = tree_scan [OF assms(2)]
  from pl_open_ok [OF assms(1-4)] obtain s1 c where
    s1: "pl_open k d p s = (Inr c, s1)" "ready s1 (tree_own p c + M)" "alike s s1"
      "tree_rep k p s1 c (pl_attrs p) (pl_rows s p) (Some 0)" by blast
  have "length (pl_rows s p) - 0 < k"
    using assms(6) by simp
  from cursor.fetch_rest [OF scan.axioms(1) [OF sc] s1(4,2) assms(5) this] obtain s2 c' where
    s2: "fetch k (vt k d) fs c s1 = (Inr (map (row_values fs) (pl_rows s p), c'), s2)" "ready s2 (tree_own p c' + M)" "alike s1 s2"
      "tree_rep k p s2 c' (pl_attrs p) (pl_rows s p) None" by auto
  from scan.closes [OF sc s2(4,2)] obtain s3 where
    s3: "op_close (vt k d) c' s2 = (Inr (), s3)" "ready s3 M" "alike s2 s3" by blast
  have "pl_run k d p fs s = (Inr (map (row_values fs) (pl_rows s p)), s3)"
    using s1(1) s2(1) s3(1) by (simp add: pl_run_def cmd_simps)
  with s3(2) tables.like_trans3 [OF s1(3) s2(3) s3(3)] show ?thesis by blast
qed


section \<open>Properties\<close>


text \<open>
  C24. A product whose left operand is empty is not empty: when the right operand has a row, opening
  the plan and calling \<open>next\<close> once returns true, for a pair whose left half is no row.
\<close>

theorem product_of_empty_left_has_rows:
  assumes "ready s M" "size M + pl_tables p1 + pl_tables p2 \<le> length (pool s)" "pl_ok k s p1" "pl_ok k s p2"
    and "pl_depth p1 < d" "pl_depth p2 < d" "pl_rows s p1 = []" "pl_rows s p2 \<noteq> []"
  shows "\<exists>s' c. bnd (pl_open k d (ProductPlan p1 p2 sch)) (op_next (vt k d)) s = (Inr (True, c), s')"
proof -
  obtain e where d: "d = Suc e" "pl_depth p1 \<le> d" "pl_depth p2 \<le> d" "pl_depth p2 \<le> e"
    using assms(5,6) by (cases d) auto
  have "size M + pl_tables p1 \<le> length (pool s)"
    using assms(2) by simp
  from pl_open_ok [OF assms(3) d(2) assms(1) this] obtain s1 c1 where
    s1: "pl_open k d p1 s = (Inr c1, s1)" "ready s1 (tree_own p1 c1 + M)" "alike s s1"
      "tree_rep k p1 s1 c1 (pl_attrs p1) (pl_rows s p1) (Some 0)" by blast
  note at1 = alike_plan [OF s1(3) assms(4)]
  have "size (tree_own p1 c1 + M) + pl_tables p2 \<le> length (pool s1)"
    using s1(3) assms(2) tree_own_tables [of p1 c1] by (simp add: alike_def)
  from pl_open_ok [OF conjunct2 [OF at1] d(3) s1(2) this] obtain s2 c2 where
    s2: "pl_open k d p2 s1 = (Inr c2, s2)" "ready s2 (tree_own p2 c2 + (tree_own p1 c1 + M))" "alike s1 s2"
      "tree_rep k p2 s2 c2 (pl_attrs p2) (pl_rows s p2) (Some 0)" unfolding conjunct1 [OF at1] by blast
  have "tree_rep k p1 s2 c1 (pl_attrs p1) (pl_rows s p1) (Some 0)" "ready s2 (tree_own p1 c1 + (tree_own p2 c2 + M))"
    using cursor.stable [OF scan.axioms(1) [OF tree_scan [OF d(2)]] s1(4) s2(3)] s2(2) by (simp_all add: ac_simps)
  from cursor.next_row [OF scan.axioms(1) [OF tree_scan [OF d(2)]] this] assms(7) obtain s3 c1' where
    s3: "op_next (vt k d) c1 s2 = (Inr (False, c1'), s3)" "ready s3 (tree_own p1 c1' + (tree_own p2 c2 + M))" "alike s2 s3"
    by auto
  have "tree_rep k p2 s3 c2 (pl_attrs p2) (pl_rows s p2) (Some 0)" "ready s3 (tree_own p2 c2 + (tree_own p1 c1' + M))"
    using cursor.stable [OF scan.axioms(1) [OF tree_scan [OF d(3)]] s2(4) s3(3)] s3(2) by (simp_all add: ac_simps)
  from cursor.next_row [OF scan.axioms(1) [OF tree_scan [OF d(4)]] this] assms(8) obtain s4 c2' where
    "op_next (vt k e) c2 s3 = (Inr (True, c2'), s4)" by auto
  then show ?thesis
    using s1(1) s2(1) s3(1) unfolding d(1)
    by (intro exI [of _ s4] exI [of _ "ProductS (ProductScan c1' c2')"])
      (simp add: cmd_simps wrap_def wrap2_def prod_new_def vt_next_def prod_ops_def read_ops_def prod_next_def)
qed

definition demo_layout :: layout where
  "demo_layout = (case lay_new (sch_addIntField ''n'' (sch_addIntField ''id'' sch_empty)) of Inr l \<Rightarrow> l)"

definition demo_insert :: "tx_op list" where
  "demo_insert = (let b = BlockId ''t.tbl'' 0
     in [OpPin b, OpSetInt b 0 1, OpSetInt b 4 7, OpSetInt b 12 1, OpSetInt b 20 9])"

definition demo_rest :: tx where
  "demo_rest = snd (seq tx_new (seq (ops_run demo_insert) tx_commit) demo_hist)"

lemma demo_rest: "history demo_rest" "nextTxNum demo_rest + 1 < 2 ^ 31"
proof -
  let ?s1 = "snd (tx_new demo_hist)"
  let ?s2 = "snd (ops_run demo_insert ?s1)"
  have "fst (ops_run demo_insert ?s1) = Inr ()" by code_simp
  then have ops: "ops_run demo_insert ?s1 = (Inr (), ?s2)" by (simp add: prod_eq_iff)
  have "fst (tx_commit ?s2) = Inr ()" by code_simp
  then have commit: "tx_commit ?s2 = (Inr (), snd (tx_commit ?s2))" by (simp add: prod_eq_iff)
  have "\<forall>x \<in> set demo_insert. blk_fits (blocksize demo_hist) (logFileName demo_hist) (op_blk x)"
    by (simp add: demo_run(5,6) demo_insert_def blk_fits_def Let_def)
  from history.committed [OF demo_hist demo_run(4,1) ops this commit]
  show "history demo_rest"
    using demo_run(1) ops by (simp add: demo_rest_def cmd_simps)
qed code_simp

definition demo_tmp :: tmp where
  "demo_tmp = tx.extend (snd (tx_new demo_rest)) (tmp.fields 0)"

definition start_ok :: "tx \<Rightarrow> bool" where
  "start_ok s \<longleftrightarrow> pinned s = [] \<and> exact_pins s \<and> pool_in s"

lemma demo_ready: "ready demo_tmp {#}"
proof -
  have "case tx_new demo_rest of (r, s) \<Rightarrow> r = Inr () \<and> start_ok s" by code_simp
  then have "tx_new demo_rest = (Inr (), snd (tx_new demo_rest))" "start_ok (snd (tx_new demo_rest))"
    by (auto split: prod.splits)
  with ready_new [OF demo_rest] show ?thesis
    unfolding demo_tmp_def ready_extend start_ok_def by blast
qed

definition demo_table :: plan where
  "demo_table = TablePlan ''t'' demo_layout \<lparr>si_numBlocks = Some 1, si_numRecords = Some 2\<rparr>"

definition demo_query :: plan where
  "demo_query =
     ProductPlan demo_table
       (ProjectPlan (SelectPlan demo_table [\<lparr>lhs = ex_name ''n'', rhs = ex_const (const_int 9)\<rparr>]) (sch_addIntField ''n'' sch_empty))
       (sch_addIntField ''id'' sch_empty)"

lemma tm_typed_code [code]:
  "tm_typed r t = (case ex_val r (lhs t) of None \<Rightarrow> False
     | Some a \<Rightarrow> (case ex_val r (rhs t) of None \<Rightarrow> False | Some b \<Rightarrow> val_kind a = val_kind b))"
  by (auto simp: tm_typed_def split: option.split)

lemma lay_fields_code [code]: "lay_fields l = set (map fst (sch_info (lay_schema l)))"
  by (simp add: lay_fields_def dom_map_of_conv_image_fst)

definition run_ok :: "nat \<Rightarrow> nat \<Rightarrow> plan \<Rightarrow> string list \<Rightarrow> const list list \<Rightarrow> tmp \<Rightarrow> bool" where
  "run_ok k d p fs vss s \<longleftrightarrow> pl_ok k s p \<and> pl_depth p \<le> d \<and> list_all (\<lambda>f. f \<in> pl_attrs p) fs \<and> length (pl_rows s p) < k \<and>
     pl_tables p \<le> length (pool s) \<and> map (row_values fs) (pl_rows s p) = vss"



definition demo_empty :: plan where
  "demo_empty = SelectPlan demo_table [\<lparr>lhs = ex_name ''n'', rhs = ex_const (const_int 4)\<rparr>]"

definition operands_ok :: "nat \<Rightarrow> nat \<Rightarrow> plan \<Rightarrow> plan \<Rightarrow> tmp \<Rightarrow> bool" where
  "operands_ok k d p1 p2 s \<longleftrightarrow> pl_tables p1 + pl_tables p2 \<le> length (pool s) \<and> pl_ok k s p1 \<and> pl_ok k s p2 \<and> pl_depth p1 \<le> d \<and>
     pl_depth p2 \<le> d \<and> pl_rows s p1 = [] \<and> pl_rows s p2 \<noteq> []"

theorem product_of_empty_left_has_rows_witness:
  "\<exists>s' c. bnd (pl_open 8 4 (ProductPlan demo_empty demo_table sch_empty)) (op_next (vt 8 4)) demo_tmp = (Inr (True, c), s')"
proof -
  have "operands_ok 8 3 demo_empty demo_table demo_tmp" by code_simp
  then show ?thesis
    by (intro product_of_empty_left_has_rows [OF demo_ready]) (auto simp: operands_ok_def)
qed

end
