(* ===== verification/TablePages.thy ===== *)
theory TablePages
  imports TableReads
begin

text \<open>
  A block of a table as an array of slots with typed rows: what one write of a field or of a flag
  changes, and that it changes nothing else. The layout keeps the fields apart.
\<close>

section \<open>Typed rows\<close>

definition lay_ok :: "layout \<Rightarrow> bool" where
  "lay_ok l \<longleftrightarrow> sch_ok (lay_schema l) \<and> placed (lay_schema l) (lay_offsets l) (lay_slotSize l) \<and>
     dom (map_of (lay_offsets l)) = lay_fields l"

lemma lay_new_ok: "sch_ok sch \<Longrightarrow> lay_new sch = Inr l \<Longrightarrow> lay_ok l"
proof -
  assume sch: "sch_ok sch" and "lay_new sch = Inr l"
  then obtain offs pos where l: "lay_place sch (sch_fields sch) [] 4 = Inr (offs, pos)"
      "l = \<lparr>lay_schema = sch, lay_offsets = offs, lay_slotSize = pos\<rparr>"
    by (auto simp: lay_new_def rbind_eq_Inr)
  have "placed sch [] 4"
    by (simp add: placed_def)
  from lay_place_placed [OF sch this l(1)] show "lay_ok l"
    using sch by (simp add: l(2) lay_ok_def lay_fields_def sch_ok_def)
qed

text \<open>The value has the type of the field, and a string has at most the declared length.\<close>

definition field_val :: "layout \<Rightarrow> string \<Rightarrow> val \<Rightarrow> bool" where
  "field_val l f v \<longleftrightarrow> (case map_of (sch_info (lay_schema l)) f of None \<Rightarrow> False
     | Some fi \<Rightarrow> (case v of VInt i \<Rightarrow> (fi_type fi = INTEGER \<or> fi_type fi = BOOLEAN) \<and> int32 i
        | VStr x \<Rightarrow> fi_type fi = VARCHAR \<and> int (length x) \<le> fi_length fi))"

definition row_typed :: "layout \<Rightarrow> row \<Rightarrow> bool" where
  "row_typed l r \<longleftrightarrow> dom r = lay_fields l \<and> (\<forall>f v. r f = Some v \<longrightarrow> field_val l f v)"

fun val_bytes :: "val \<Rightarrow> bytes" where
  "val_bytes (VInt i) = int_bytes i"
| "val_bytes (VStr x) = str_bytes x"

lemma field_val_field: "field_val l f v \<Longrightarrow> f \<in> lay_fields l"
  by (auto simp: field_val_def lay_fields_def split: option.splits)

lemma row_typed_upd: "row_typed l r \<Longrightarrow> field_val l f v \<Longrightarrow> row_typed l (r(f \<mapsto> v))"
  using field_val_field [of l f v] by (auto simp: row_typed_def)

text \<open>Where a field lies in a slot.\<close>

lemma field_place:
  assumes "lay_ok l" "f \<in> lay_fields l"
  obtains off m fi where "lay_offset f l = Inr off" "lay_lengthInBytes (lay_schema l) f = Inr m" "4 \<le> off"
    "off + m \<le> lay_slotSize l" "map_of (sch_info (lay_schema l)) f = Some fi" "sch_fieldType f (lay_schema l) = Inr (fi_type fi)"
    "fi_type fi \<in> {INTEGER, VARCHAR, BOOLEAN}" "0 \<le> fi_length fi"
proof -
  obtain off where off: "map_of (lay_offsets l) f = Some off"
    using assms by (auto simp: lay_ok_def)
  from assms(1) placedD [OF _ off] obtain m where
    m: "lay_lengthInBytes (lay_schema l) f = Inr m" "4 \<le> off" "off + m \<le> lay_slotSize l"
    by (auto simp: lay_ok_def)
  obtain fi where "map_of (sch_info (lay_schema l)) f = Some fi"
    using assms(2) by (auto simp: lay_fields_def)
  with that off m assms(1) show thesis
    by (auto simp: lay_offset_def sch_fieldType_def lay_ok_def sch_ok_def)
qed

lemma field_val_length:
  assumes "field_val l f v" "lay_lengthInBytes (lay_schema l) f = Inr m"
  shows "int (length (val_bytes v)) \<le> m"
  using assms
  by (auto simp: field_val_def lay_lengthInBytes_def sch_fieldType_def sch_fieldLength_def maxLength_def INTEGER_def BOOLEAN_def
      VARCHAR_def split: option.splits val.splits)

text \<open>Two pieces of memory without a common byte.\<close>

definition apart :: "int \<Rightarrow> int \<Rightarrow> int \<Rightarrow> int \<Rightarrow> bool" where
  "apart a n b m \<longleftrightarrow> a + n \<le> b \<or> b + m \<le> a"

lemma slots_apart:
  assumes "i \<noteq> j" "0 \<le> c" "0 \<le> a" "a + n \<le> c" "0 \<le> b" "b + m \<le> c"
  shows "apart (int i * c + a) n (int j * c + b) m"
proof -
  have "int i * c + c \<le> int j * c \<or> int j * c + c \<le> int i * c"
  proof (cases "i < j")
    case True
    then have "(int i + 1) * c \<le> int j * c"
      using assms(2) by (intro mult_right_mono) simp_all
    then show ?thesis by (simp add: algebra_simps)
  next
    case False
    then have "(int j + 1) * c \<le> int i * c"
      using assms(1,2) by (intro mult_right_mono) simp_all
    then show ?thesis by (simp add: algebra_simps)
  qed
  then show ?thesis
    using assms by (auto simp: apart_def)
qed


section \<open>Values in a page\<close>

definition val_at :: "bytes \<Rightarrow> int \<Rightarrow> val \<Rightarrow> bool" where
  "val_at p a v \<longleftrightarrow> 0 \<le> a \<and> a + int (length (val_bytes v)) \<le> int (length p) \<and> slice (nat a) (length (val_bytes v)) p = val_bytes v"

lemma val_at_other:
  assumes "val_at p a v" "0 \<le> b" "b + int (length xs) \<le> int (length p)" "apart b (int (length xs)) a (int (length (val_bytes v)))"
  shows "val_at (overwrite (nat b) xs p) a v"
proof -
  have "nat a + length (val_bytes v) \<le> nat b \<or> nat b + length xs \<le> nat a"
    using assms by (auto simp: val_at_def apart_def)
  with assms show ?thesis
    by (simp add: val_at_def slice_overwrite_disjoint)
qed

lemma val_at_same:
  assumes "0 \<le> a" "a + int (length (val_bytes v)) \<le> int (length p)"
  shows "val_at (overwrite (nat a) (val_bytes v) p) a v"
  using assms by (simp add: val_at_def)

lemma getInt_val_at:
  assumes "0 \<le> a" "a + 4 \<le> int (length p)" "int (length p) < 2 ^ 31" "int32 i"
  shows "getInt p a = Inr i \<longleftrightarrow> val_at p a (VInt i)"
proof
  assume "getInt p a = Inr i"
  then have "i = bytes_int (slice (nat a) 4 p)"
    using getInt_view [of a p] assms by simp
  then have "slice (nat a) 4 p = int_bytes i"
    using bytes_int_range(2) [of "slice (nat a) 4 p"] assms by (simp add: length_slice)
  with assms show "val_at p a (VInt i)"
    by (simp add: val_at_def)
next
  assume "val_at p a (VInt i)"
  with assms int_field.get_eq [of i a p] show "getInt p a = Inr i"
    by (simp add: val_at_def)
qed

lemma getString_val_at:
  assumes "0 \<le> a" "a + 4 \<le> int (length p)" "int (length p) < 2 ^ 31"
  shows "getString p a = Inr x \<longleftrightarrow> val_at p a (VStr x)"
proof
  assume g: "getString p a = Inr x"
  let ?n = "bytes_int (slice (nat a) 4 p)"
  have n: "getInt p a = Inr ?n"
    using getInt_view [of a p] assms by simp
  then have x: "0 \<le> ?n" "a + 4 + ?n \<le> int (length p)" "x = slice (nat (a + 4)) (nat ?n) p"
    using g by (auto simp: getString_def getBytes_def split: if_splits)
  then have l: "int (length x) = ?n"
    using assms(1) by (simp add: length_slice nat_add_distrib)
  have n': "nat ?n = length x"
    using l by simp
  have x': "slice (nat a + 4) (length x) p = x"
    using x(3) assms(1) unfolding n' by (simp add: nat_add_distrib)
  have "slice (nat a) (4 + length x) p = slice (nat a) 4 p @ slice (nat a + 4) (length x) p"
    by (simp add: slice_def take_add add.commute [of "nat a" 4])
  also have "\<dots> = str_bytes x"
    using bytes_int_range(2) [of "slice (nat a) 4 p"] assms(1,2) x' l by (simp add: length_slice str_bytes_def)
  finally show "val_at p a (VStr x)"
    using assms(1) x(2) l by (simp add: val_at_def)
next
  assume "val_at p a (VStr x)"
  with assms str_field.get_eq [of x a p] show "getString p a = Inr x"
    by (simp add: val_at_def)
qed

section \<open>Slots of a page\<close>

text \<open>The bytes of a slot lie in the page.\<close>

lemma lay_size: "lay_ok l \<Longrightarrow> 4 \<le> lay_slotSize l"
  by (simp add: lay_ok_def placed_def)

lemma slot_within:
  assumes "lay_ok l" "i < num_slots bs l" "0 \<le> bs" "a + n \<le> lay_slotSize l"
  shows "int i * lay_slotSize l + a + n \<le> bs"
proof -
  have "(int i + 1) * lay_slotSize l \<le> bs"
    using num_slots_less [of l bs i] lay_size [OF assms(1)] assms(2,3) by simp
  with assms(4) show ?thesis by (simp add: algebra_simps)
qed

lemma page_row_val_at:
  assumes "lay_ok l" "i < num_slots bs l" "int (length p) = bs" "bs < 2 ^ 31" "field_val l f v" "lay_offset f l = Inr off"
  shows "page_row l p i f = Some v \<longleftrightarrow> val_at p (int i * lay_slotSize l + off) v"
proof -
  let ?a = "int i * lay_slotSize l + off"
  obtain m fi where f: "lay_lengthInBytes (lay_schema l) f = Inr m" "4 \<le> off" "off + m \<le> lay_slotSize l"
      "map_of (sch_info (lay_schema l)) f = Some fi" "sch_fieldType f (lay_schema l) = Inr (fi_type fi)"
    using field_place [OF assms(1) field_val_field [OF assms(5)]] assms(6) by (metis sum.inject(2))
  have m: "4 \<le> m"
    using lay_length_ok [OF _ f(1)] assms(1) by (simp add: lay_ok_def)
  have a: "0 \<le> ?a" "?a + 4 \<le> int (length p)"
    using slot_within [OF assms(1,2), of off 4] f(2,3) m lay_size [OF assms(1)] assms(3) by simp_all
  show ?thesis
  proof (cases v)
    case (VInt n)
    with assms(5) f(4) have "fi_type fi = INTEGER \<or> fi_type fi = BOOLEAN" "int32 n"
      by (simp_all add: field_val_def)
    with VInt f(5) assms(3,4,6) getInt_val_at [OF a, of n] show ?thesis
      by (auto simp: page_row_def split: sum.splits)
  next
    case (VStr x)
    with assms(5) f(4) have "\<not> (fi_type fi = INTEGER \<or> fi_type fi = BOOLEAN)"
      by (simp add: field_val_def INTEGER_def BOOLEAN_def VARCHAR_def)
    with VStr f(5) assms(3,4,6) getString_val_at [OF a, of x] show ?thesis
      by (auto simp: page_row_def split: sum.splits)
  qed
qed

lemma has_flag_val_at:
  assumes "lay_ok l" "i < num_slots bs l" "int (length p) = bs" "bs < 2 ^ 31" "int32 fl"
  shows "has_flag fl l p i \<longleftrightarrow> val_at p (int i * lay_slotSize l) (VInt fl)"
proof -
  have "0 \<le> int i * lay_slotSize l" "int i * lay_slotSize l + 4 \<le> int (length p)"
    using slot_within [OF assms(1,2), of 0 4] lay_size [OF assms(1)] assms(3) by simp_all
  from getInt_val_at [OF this _ assms(5)] assms(3,4) show ?thesis
    by (simp add: has_flag_def)
qed


lemma getInt_other:
  assumes "0 \<le> a" "a + 4 \<le> int (length p)" "int (length p) < 2 ^ 31" "0 \<le> b" "b + int (length xs) \<le> int (length p)"
    "apart b (int (length xs)) a 4"
  shows "getInt (overwrite (nat b) xs p) a = getInt p a"
proof -
  have "nat a + 4 \<le> nat b \<or> nat b + length xs \<le> nat a"
    using assms by (auto simp: apart_def)
  with assms show ?thesis
    using getInt_view [of a p] getInt_view [of a "overwrite (nat b) xs p"] by (simp add: slice_overwrite_disjoint)
qed

lemma page_row_field: "page_row l p i f = Some v \<Longrightarrow> f \<in> lay_fields l"
  by (auto simp: page_row_def sch_fieldType_def lay_fields_def split: sum.splits option.splits)

text \<open>A page of a table: every slot is used or empty and holds a typed row.\<close>

definition slot_wf :: "layout \<Rightarrow> bytes \<Rightarrow> nat \<Rightarrow> bool" where
  "slot_wf l p i \<longleftrightarrow> (has_flag EMPTY l p i \<or> has_flag USED l p i) \<and> row_typed l (page_row l p i)"

definition page_wf :: "int \<Rightarrow> layout \<Rightarrow> bytes \<Rightarrow> bool" where
  "page_wf bs l p \<longleftrightarrow> int (length p) = bs \<and> (\<forall>i < num_slots bs l. slot_wf l p i)"

text \<open>A write that misses the values and the flags of a slot leaves the slot alone.\<close>

lemma row_other:
  assumes "lay_ok l" "j < num_slots bs l" "int (length p) = bs" "bs < 2 ^ 31" "row_typed l (page_row l p j)"
    "0 \<le> b" "b + int (length xs) \<le> bs"
    "\<And>w off. page_row l p j g = Some w \<Longrightarrow> field_val l g w \<Longrightarrow> lay_offset g l = Inr off \<Longrightarrow>
      apart b (int (length xs)) (int j * lay_slotSize l + off) (int (length (val_bytes w)))"
  shows "page_row l (overwrite (nat b) xs p) j g = page_row l p j g"
proof (cases "page_row l p j g")
  case None
  then have "g \<notin> lay_fields l"
    using assms(5) by (auto simp: row_typed_def)
  then have "page_row l (overwrite (nat b) xs p) j g = None"
    using page_row_field [of l _ j g] by fastforce
  with None show ?thesis by simp
next
  case (Some w)
  then have w: "field_val l g w"
    using assms(5) by (auto simp: row_typed_def)
  obtain off where off: "lay_offset g l = Inr off"
    using field_place [OF assms(1) field_val_field [OF w]] by metis
  let ?p = "overwrite (nat b) xs p"
  have len: "int (length ?p) = bs"
    using assms(3,6,7) by simp
  have "val_at p (int j * lay_slotSize l + off) w"
    using page_row_val_at [OF assms(1-4) w off] Some by simp
  then have "val_at ?p (int j * lay_slotSize l + off) w"
    by (rule val_at_other) (use assms(3,6,7) assms(8) [OF Some w off] in simp_all)
  then show ?thesis
    using page_row_val_at [OF assms(1,2) len assms(4) w off] Some by simp
qed

lemma flag_other:
  assumes "lay_ok l" "j < num_slots bs l" "int (length p) = bs" "bs < 2 ^ 31" "0 \<le> b" "b + int (length xs) \<le> bs"
    "apart b (int (length xs)) (int j * lay_slotSize l) 4"
  shows "has_flag fl l (overwrite (nat b) xs p) j = has_flag fl l p j"
proof -
  have "0 \<le> int j * lay_slotSize l" "int j * lay_slotSize l + 4 \<le> int (length p)"
    using slot_within [OF assms(1,2), of 0 4] lay_size [OF assms(1)] assms(3) by simp_all
  with getInt_other [OF this] assms show ?thesis
    by (simp add: has_flag_def)
qed

text \<open>Writing a field changes that field of that slot.\<close>

lemma fields_apart:
  assumes "lay_ok l" "field_val l f v" "field_val l g w" "lay_offset f l = Inr a" "lay_offset g l = Inr b" "i \<noteq> j \<or> f \<noteq> g"
  shows "apart (int i * lay_slotSize l + a) (int (length (val_bytes v))) (int j * lay_slotSize l + b) (int (length (val_bytes w)))"
proof -
  obtain m where m: "lay_lengthInBytes (lay_schema l) f = Inr m" "4 \<le> a" "a + m \<le> lay_slotSize l"
    using field_place [OF assms(1) field_val_field [OF assms(2)]] assms(4) by (metis sum.inject(2))
  obtain n where n: "lay_lengthInBytes (lay_schema l) g = Inr n" "4 \<le> b" "b + n \<le> lay_slotSize l"
    using field_place [OF assms(1) field_val_field [OF assms(3)]] assms(5) by (metis sum.inject(2))
  note len = field_val_length [OF assms(2) m(1)] field_val_length [OF assms(3) n(1)]
  show ?thesis
  proof (cases "i = j")
    case False
    then show ?thesis
      by (rule slots_apart) (use m n len lay_size [OF assms(1)] in linarith)+
  next
    case True
    have "map_of (lay_offsets l) f = Some a" "map_of (lay_offsets l) g = Some b"
      using assms(4,5) by (auto simp: lay_offset_def split: option.splits)
    then have "a + m \<le> b \<or> b + n \<le> a"
      using assms(1,6) True m(1) n(1) unfolding lay_ok_def placed_def by blast
    with len True show ?thesis
      by (auto simp: apart_def)
  qed
qed

lemma flag_apart:
  assumes "lay_ok l" "field_val l f v" "lay_offset f l = Inr a"
  shows "apart (int i * lay_slotSize l + a) (int (length (val_bytes v))) (int j * lay_slotSize l) 4"
    "apart (int j * lay_slotSize l) 4 (int i * lay_slotSize l + a) (int (length (val_bytes v)))"
proof -
  obtain m where m: "lay_lengthInBytes (lay_schema l) f = Inr m" "4 \<le> a" "a + m \<le> lay_slotSize l"
    using field_place [OF assms(1) field_val_field [OF assms(2)]] assms(3) by (metis sum.inject(2))
  note len = field_val_length [OF assms(2) m(1)]
  show "apart (int i * lay_slotSize l + a) (int (length (val_bytes v))) (int j * lay_slotSize l) 4"
  proof (cases "i = j")
    case True
    with m show ?thesis by (simp add: apart_def)
  next
    case False
    from slots_apart [OF this, of "lay_slotSize l" a "int (length (val_bytes v))" 0 4] m len lay_size [OF assms(1)] show ?thesis
      by simp
  qed
  then show "apart (int j * lay_slotSize l) 4 (int i * lay_slotSize l + a) (int (length (val_bytes v)))"
    by (auto simp: apart_def)
qed


section \<open>Writing a field or a flag\<close>

lemma page_length: "page_wf bs l p \<Longrightarrow> int (length p) = bs"
  by (simp add: page_wf_def)

lemma slot_typed: "page_wf bs l p \<Longrightarrow> j < num_slots bs l \<Longrightarrow> row_typed l (page_row l p j)"
  by (simp add: page_wf_def slot_wf_def)

lemma field_within:
  assumes lay: "lay_ok l" and i: "i < num_slots bs l" "0 \<le> bs" and f: "field_val l f v" "lay_offset f l = Inr off"
  shows "0 \<le> int i * lay_slotSize l + off" "int i * lay_slotSize l + off + int (length (val_bytes v)) \<le> bs" "4 \<le> off"
proof -
  obtain m where m: "lay_lengthInBytes (lay_schema l) f = Inr m" "4 \<le> off" "off + m \<le> lay_slotSize l"
    using field_place [OF lay field_val_field [OF f(1)]] f(2) by (metis sum.inject(2))
  with slot_within [OF lay i, of off "int (length (val_bytes v))"] field_val_length [OF f(1) m(1)]
  show "int i * lay_slotSize l + off + int (length (val_bytes v)) \<le> bs" by simp
  from m show "4 \<le> off" by simp
  with lay_size [OF lay] show "0 \<le> int i * lay_slotSize l + off" by simp
qed

lemma put_field:
  assumes lay: "lay_ok l" and wf: "page_wf bs l p" and small: "bs < 2 ^ 31" and i: "i < num_slots bs l"
    and f: "field_val l f v" "lay_offset f l = Inr off"
  defines "p' \<equiv> overwrite (nat (int i * lay_slotSize l + off)) (val_bytes v) p"
  shows "j < num_slots bs l \<Longrightarrow> page_row l p' j = (if j = i then (page_row l p i)(f \<mapsto> v) else page_row l p j)"
    "j < num_slots bs l \<Longrightarrow> has_flag fl l p' j = has_flag fl l p j" "page_wf bs l p'"
proof -
  let ?a = "int i * lay_slotSize l + off"
  have bs: "0 \<le> bs"
    using page_length [OF wf] by simp
  note a = field_within [OF lay i bs f]
  have len': "int (length p') = bs"
    using a page_length [OF wf] by (simp add: p'_def)
  show row: "page_row l p' j = (if j = i then (page_row l p i)(f \<mapsto> v) else page_row l p j)" if j: "j < num_slots bs l" for j
  proof
    fix g
    show "page_row l p' j g = (if j = i then (page_row l p i)(f \<mapsto> v) else page_row l p j) g"
    proof (cases "j = i \<and> g = f")
      case True
      have "val_at p' ?a v"
        unfolding p'_def using a page_length [OF wf] by (intro val_at_same) simp_all
      with page_row_val_at [OF lay i len' small f] True show ?thesis by simp
    next
      case False
      have "page_row l p' j g = page_row l p j g"
        unfolding p'_def
        by (rule row_other [OF lay j page_length [OF wf] small slot_typed [OF wf j] a(1,2)])
          (use fields_apart [OF lay f(1) _ f(2)] False in auto)
      with False show ?thesis by auto
    qed
  qed
  show flag: "has_flag fl l p' j = has_flag fl l p j" if j: "j < num_slots bs l" for j fl
    unfolding p'_def by (rule flag_other [OF lay j page_length [OF wf] small a(1,2) flag_apart(1) [OF lay f]])
  show "page_wf bs l p'"
    using wf len' row flag row_typed_upd [OF slot_typed [OF wf i] f(1)] unfolding page_wf_def slot_wf_def by auto
qed

lemma put_flag:
  assumes lay: "lay_ok l" and wf: "page_wf bs l p" and small: "bs < 2 ^ 31" and i: "i < num_slots bs l"
    and fl: "fl = EMPTY \<or> fl = USED"
  defines "p' \<equiv> overwrite (nat (int i * lay_slotSize l)) (int_bytes fl) p"
  shows "j < num_slots bs l \<Longrightarrow> page_row l p' j = page_row l p j"
    "j < num_slots bs l \<Longrightarrow> has_flag g l p' j = (if j = i then g = fl else has_flag g l p j)" "page_wf bs l p'"
proof -
  let ?a = "int i * lay_slotSize l"
  have a: "0 \<le> ?a" "?a + int (length (int_bytes fl)) \<le> bs"
    using slot_within [OF lay i, of 0 4] lay_size [OF lay] page_length [OF wf] by simp_all
  have len': "int (length p') = bs"
    using a page_length [OF wf] by (simp add: p'_def)
  show row: "page_row l p' j = page_row l p j" if j: "j < num_slots bs l" for j
  proof
    fix g
    show "page_row l p' j g = page_row l p j g"
      unfolding p'_def
      by (rule row_other [OF lay j page_length [OF wf] small slot_typed [OF wf j] a])
        (use flag_apart(2) [OF lay] in auto)
  qed
  have fl32: "int32 fl"
    using fl by (auto simp: int32_def EMPTY_def USED_def)
  have "getInt p' ?a = Inr fl"
    unfolding p'_def using int_field.get_overwrite [OF fl32 a(1), of p] a(2) page_length [OF wf] small by simp
  then have here: "has_flag g l p' i \<longleftrightarrow> g = fl" for g
    by (auto simp: has_flag_def)
  show flag: "has_flag g l p' j = (if j = i then g = fl else has_flag g l p j)" if j: "j < num_slots bs l" for j g
  proof (cases "j = i")
    case False
    then have "i \<noteq> j" by simp
    from slots_apart [OF this, of "lay_slotSize l" 0 4 0 4] lay_size [OF lay]
    have "apart ?a (int (length (int_bytes fl))) (int j * lay_slotSize l) 4" by simp
    from flag_other [OF lay j page_length [OF wf] small a this] False show ?thesis
      by (simp add: p'_def)
  qed (simp add: here)
  show "page_wf bs l p'"
    using wf len' row flag fl unfolding page_wf_def slot_wf_def by auto
qed

text \<open>A page of zero bytes is an array of empty slots.\<close>

lemma zero_val:
  assumes "0 \<le> a" "a + 4 \<le> n"
  shows "val_at (page_new n) a (VInt 0)" "val_at (page_new n) a (VStr [])"
proof -
  have z: "int_bytes 0 = replicate 4 zero_byte"
    using int_bytes_digits [of zero_byte zero_byte zero_byte zero_byte 0] by (simp add: zero_byte_def eval_nat_numeral)
  have "slice (nat a) 4 (page_new n) = replicate 4 zero_byte"
    using assms by (simp add: slice_def page_new_def min_def)
  with z show "val_at (page_new n) a (VInt 0)" "val_at (page_new n) a (VStr [])"
    using assms by (simp_all add: val_at_def str_bytes_def)
qed

definition zero_row :: "layout \<Rightarrow> row" where
  "zero_row l f = (case map_of (sch_info (lay_schema l)) f of None \<Rightarrow> None
     | Some fi \<Rightarrow> Some (if fi_type fi = VARCHAR then VStr [] else VInt 0))"

lemma page_wf_new:
  assumes "lay_ok l" "0 \<le> bs" "bs < 2 ^ 31"
  shows "page_wf bs l (page_new bs)" "j < num_slots bs l \<Longrightarrow> has_flag fl l (page_new bs) j \<longleftrightarrow> fl = EMPTY"
    "j < num_slots bs l \<Longrightarrow> page_row l (page_new bs) j = zero_row l"
proof -
  have len: "int (length (page_new bs)) = bs"
    using assms(2) by simp
  show flag: "has_flag fl l (page_new bs) j \<longleftrightarrow> fl = EMPTY" if j: "j < num_slots bs l" for j fl
  proof -
    have "0 \<le> int j * lay_slotSize l" "int j * lay_slotSize l + 4 \<le> bs"
      using slot_within [OF assms(1) j assms(2), of 0 4] lay_size [OF assms(1)] by simp_all
    then have "getInt (page_new bs) (int j * lay_slotSize l) = Inr 0"
      using getInt_val_at [of "int j * lay_slotSize l" "page_new bs" 0] zero_val(1) len assms(3) by (simp add: int32_def)
    then show ?thesis
      by (auto simp: has_flag_def EMPTY_def)
  qed
  have typed: "row_typed l (zero_row l)"
    using assms(1)
    by (auto simp: row_typed_def zero_row_def lay_fields_def field_val_def lay_ok_def sch_ok_def int32_def split: option.splits if_splits)
  show row: "page_row l (page_new bs) j = zero_row l" if j: "j < num_slots bs l" for j
  proof
    fix f
    show "page_row l (page_new bs) j f = zero_row l f"
    proof (cases "f \<in> lay_fields l")
      case False
      with page_row_field [of l "page_new bs" j f] show ?thesis
        by (cases "page_row l (page_new bs) j f") (auto simp: zero_row_def lay_fields_def split: option.split)
    next
      case True
      then obtain v where v: "zero_row l f = Some v"
        by (auto simp: zero_row_def lay_fields_def)
      have f: "field_val l f v"
        using typed v by (simp add: row_typed_def)
      obtain off m where off: "lay_offset f l = Inr off" "lay_lengthInBytes (lay_schema l) f = Inr m" "4 \<le> off"
          "off + m \<le> lay_slotSize l"
        using field_place [OF assms(1) True] by metis
      have "4 \<le> m"
        using lay_length_ok [OF _ off(2)] assms(1) by (simp add: lay_ok_def)
      then have a: "0 \<le> int j * lay_slotSize l + off" "int j * lay_slotSize l + off + 4 \<le> bs"
        using slot_within [OF assms(1) j assms(2), of off 4] off(3,4) lay_size [OF assms(1)] by simp_all
      have "v = VInt 0 \<or> v = VStr []"
        using v by (auto simp: zero_row_def split: option.splits if_splits)
      with zero_val [OF a] have "val_at (page_new bs) (int j * lay_slotSize l + off) v" by auto
      with page_row_val_at [OF assms(1) j len assms(3) f off(1)] v show ?thesis by simp
    qed
  qed
  show "page_wf bs l (page_new bs)"
    using len flag row typed unfolding page_wf_def slot_wf_def by simp
qed

end
