(* ===== verification/MemoryWrites.thy ===== *)
theory MemoryWrites
  imports Memory
begin

text \<open>
  What the writes of a transaction do to it as a memory: one block gets a new page, all other
  blocks, the lengths of the files and the pins stay as they were.
\<close>

section \<open>Writing a page\<close>

definition written :: "'a tx_scheme \<Rightarrow> 'a tx_scheme \<Rightarrow> block_id \<Rightarrow> bytes \<Rightarrow> bool" where
  "written s s' blk p \<longleftrightarrow> blocksize s' = blocksize s \<and> logFileName s' = logFileName s \<and> length (pool s') = length (pool s) \<and>
     txNum s' = txNum s \<and> tx.more s' = tx.more s \<and> (\<forall>b. data_blk s b \<longrightarrow> view s' b = (if b = blk then p else view s b)) \<and>
     (\<forall>n. n \<noteq> logFileName s \<longrightarrow> fm_length n s' = fm_length n s)"

lemma written_data_blk: "written s s' blk p \<Longrightarrow> data_blk s' = data_blk s"
  by (simp add: written_def data_blk_def fun_eq_iff)

lemma written_alike: "written s s' blk p \<Longrightarrow> p = view s blk \<Longrightarrow> alike s s'"
  by (simp add: written_def alike_def)

lemma alike_written: "alike s s' \<Longrightarrow> written s' s'' blk p \<Longrightarrow> written s s'' blk p"
  using alike_data_blk [of s s'] by (simp add: written_def alike_def)

lemma written_alike_trans: "written s s' blk p \<Longrightarrow> alike s' s'' \<Longrightarrow> written s s'' blk p"
  using written_data_blk [of s s' blk p] by (simp add: written_def alike_def)

lemma written_trans: "written s s' blk p \<Longrightarrow> written s' s'' blk p' \<Longrightarrow> written s s'' blk p'"
  using written_data_blk [of s s' blk p] by (simp add: written_def)

lemma written_view: "written s s' blk p \<Longrightarrow> data_blk s blk \<Longrightarrow> view s' blk = p"
  by (simp add: written_def)

lemma ready_bufferD:
  assumes "ready s M" "blk \<in># M"
  obtains i where "map_of (buffers s) blk = Some i" "i < length (pool s)" "buf_blk (pool s ! i) = blk" "data_blk s blk"
    "buf_page (pool s ! i) = view s blk"
proof -
  obtain base rs dur where ok: "tx_ok s base rs dur"
    using assms(1) ready_tx_ok by blast
  obtain i where i: "map_of (buffers s) blk = Some i"
    using bl_ok_buffer [OF readyD(7) [OF assms(1)] ready_pinned [OF assms]] by blast
  from view_pinned [OF ok i] that [OF i] show thesis by blast
qed

text \<open>Appending a log record changes no block.\<close>

lemma ready_log:
  assumes "ready s M" "int (length r) + 8 \<le> blocksize s"
  shows "\<exists>s'. lm_append r s = (Inr (latestLsn s + 1), s') \<and> ready s' M \<and> alike s s' \<and> latestLsn s' = latestLsn s + 1 \<and>
    pool s' = pool s \<and> buffers s' = buffers s"
proof -
  obtain base rs dur where ok: "tx_ok s base rs dur"
    using assms(1) ready_tx_ok by blast
  from tx_log_append [OF ok assms(2)] obtain s' dur' where
    s': "lm_append r s = (Inr (latestLsn s + 1), s')" "tx_ok s' base (rs @ [r]) dur'" "latestLsn s' = latestLsn s + 1" "log_frame s s'"
    by blast
  note f = log_frame_bm [OF s'(4)]
  note m = tx_more_eq [OF f(3)]
  have fields: "blocksize s' = blocksize s" "logFileName s' = logFileName s" "pool s' = pool s"
    and bytes: "\<And>n. n \<noteq> logFileName s \<Longrightarrow> file_bytes n s' = file_bytes n s"
    using s'(4) f(1) by (simp_all add: log_frame_def)
  have len: "fm_length n s' = fm_length n s" if "n \<noteq> logFileName s" for n
    using bytes [OF that] fields(1) by (simp add: fm_length_eq)
  have db: "data_blk s' = data_blk s"
    using fields by (simp add: data_blk_def fun_eq_iff)
  have v: "view s' b = view s b" if "data_blk s b" for b
    using bytes [of "fileName b"] that fields
    by (simp add: view_def bm_findExistingBuffer_def disk_block_def data_blk_def split: option.split)
  have "pool_in s'"
    using readyD(3) [OF assms(1)] len unfolding pool_in_def db fields by (simp add: data_blk_def)
  then have "ready s' M"
    unfolding ready_def using s'(2,3) readyD [OF assms(1)] m fields by (auto simp: exact_pins_def)
  moreover have "alike s s'"
    using fields len v m by (simp add: alike_def)
  ultimately show ?thesis
    using s'(1,3) fields(3) m(5) by blast
qed

lemma ready_modify:
  assumes "ready s M" "map_of (buffers s) blk = Some i" "int (length p) = blocksize s"
    "lsn \<le> latestLsn s" "lsn < 0 \<or> buf_lsn (pool s ! i) \<le> lsn"
  shows "ready (bm_modify i p (txNum s) lsn s) M" "written s (bm_modify i p (txNum s) lsn s) blk p"
proof -
  let ?s = "bm_modify i p (txNum s) lsn s"
  obtain base rs dur where ok: "tx_ok s base rs dur"
    using assms(1) ready_tx_ok by blast
  note m = modify_spec [OF ok assms(2,3) readyD(9) [OF assms(1)] assms(4,5)]
  note t = tx_more_eq [OF m(6)]
  have len: "fm_length n ?s = fm_length n s" for n
    by (rule fm_length_cong) (simp_all add: bm_modify_def upd_buf_def)
  have db: "data_blk ?s = data_blk s"
    using m(9,10) by (simp add: data_blk_def fun_eq_iff)
  show "ready ?s M"
    unfolding ready_def using readyD [OF assms(1)] m(1,7,11,13,14) t len
    by (auto simp: exact_pins_def pool_in_def db)
  show "written s ?s blk p"
    using m(2,9-11) t len by (simp add: written_def)
qed

lemma ready_buf_lsn:
  assumes "ready s M" "i < length (pool s)"
  shows "buf_lsn (pool s ! i) \<le> latestLsn s"
  using bm_invD [OF readyD(6) [OF assms(1)] assms(2)] by (simp add: buf_ok_def)

text \<open>\<open>xLock\<close> in a transaction that runs alone.\<close>

lemma ready_xLock:
  assumes "ready s M"
  shows "\<exists>c. on_conc (cm_xLock blk [] []) s = (Inr (), s\<lparr>conc := c\<rparr>) \<and> ready (s\<lparr>conc := c\<rparr>) M \<and> alike s (s\<lparr>conc := c\<rparr>)"
  using solo_xLock [OF readyD(1) [OF assms], of blk] ready_conc [OF assms] by (auto simp: on_conc_eq)

text \<open>A logged or unlogged write: \<open>logging\<close> is what \<open>RecoveryMgr\<close> does.\<close>

lemma ready_write:
  assumes "ready s M" "blk \<in># M" "int (length p) = blocksize s"
    and put: "put (view s blk) = Inr p"
    and log: "\<And>s1 i. alike s s1 \<Longrightarrow> ready s1 M \<Longrightarrow> buf_page (pool s1 ! i) = view s blk \<Longrightarrow> buf_blk (pool s1 ! i) = blk \<Longrightarrow>
      (\<exists>r. logging i s1 = lm_append r s1 \<and> int (length r) + 8 \<le> blocksize s) \<or> logging i s1 = (Inr (- 1), s1)"
  shows "\<exists>s'. seq (on_conc (cm_xLock blk [] []))
    (bnd (bl_getBuffer blk) (\<lambda>i.
     bnd (logging i) (\<lambda>lsn.
     bnd (page_at i) (\<lambda>p.
     bnd (lift (put p)) (\<lambda>p'.
     seq (upd (upd_buf i (\<lambda>b. b\<lparr>buf_page := p'\<rparr>)))
         (upd (\<lambda>s. upd_buf i (buf_setModified (txNum s) lsn) s))))))) s = (Inr (), s') \<and> ready s' M \<and> written s s' blk p"
proof -
  from ready_xLock [OF assms(1), of blk] obtain c where
    c: "on_conc (cm_xLock blk [] []) s = (Inr (), s\<lparr>conc := c\<rparr>)" "ready (s\<lparr>conc := c\<rparr>) M" "alike s (s\<lparr>conc := c\<rparr>)" by blast
  let ?s = "s\<lparr>conc := c\<rparr>"
  obtain i where i: "map_of (buffers ?s) blk = Some i" "i < length (pool ?s)" "buf_blk (pool ?s ! i) = blk" "data_blk ?s blk"
    "buf_page (pool ?s ! i) = view ?s blk"
    by (rule ready_bufferD [OF c(2) assms(2)])
  have pg: "buf_page (pool ?s ! i) = view s blk"
    using i(5) by simp
  obtain s1 lsn where s1: "logging i ?s = (Inr lsn, s1)" "ready s1 M" "alike ?s s1" "pool s1 = pool ?s" "buffers s1 = buffers ?s"
    "lsn \<le> latestLsn s1" "lsn < 0 \<or> buf_lsn (pool s1 ! i) \<le> lsn"
  proof -
    consider r where "logging i ?s = lm_append r ?s" "int (length r) + 8 \<le> blocksize ?s" | "logging i ?s = (Inr (- 1), ?s)"
      using log [OF c(3,2) pg i(3)] by auto
    then show thesis
    proof cases
      case 1
      from ready_log [OF c(2) 1(2)] obtain s1 where
        s1: "lm_append r ?s = (Inr (latestLsn ?s + 1), s1)" "ready s1 M" "alike ?s s1" "latestLsn s1 = latestLsn ?s + 1"
          "pool s1 = pool ?s" "buffers s1 = buffers ?s" by blast
      have "buf_lsn (pool s1 ! i) \<le> latestLsn ?s"
        using ready_buf_lsn [OF c(2) i(2)] s1(5) by simp
      with s1 1(1) that show thesis by simp
    next
      case 2
      with readyD(8) [OF c(2)] c(2) that show thesis by simp
    qed
  qed
  have i1: "map_of (buffers s1) blk = Some i" "i < length (pool s1)" "buf_page (pool s1 ! i) = view s blk"
    using i(1,2) pg s1(4,5) by simp_all
  have a1: "alike s s1"
    using alike_trans [OF c(3) s1(3)] .
  then have "int (length p) = blocksize s1"
    using assms(3) by (simp add: alike_def)
  note m = ready_modify [OF s1(2) i1(1) this s1(6,7)]
  have "seq (upd (upd_buf i (\<lambda>b. b\<lparr>buf_page := p\<rparr>))) (upd (\<lambda>s. upd_buf i (buf_setModified (txNum s) lsn) s)) s1 =
      (Inr (), bm_modify i p (txNum s1) lsn s1)"
    by (rule upd_twice [OF i1(2)])
  with c(1) i(1) s1(1) i1(3) put m alike_written [OF a1] show ?thesis
    by (simp add: cmd_simps bl_getBuffer_def page_at_def)
qed


section \<open>Writing a value\<close>

theorem ready_setInt:
  assumes "ready s M" "blk \<in># M" "0 \<le> off" "off + 4 \<le> blocksize s"
    and "okToLog \<Longrightarrow> int (length (fileName blk)) + 32 \<le> blocksize s"
  shows "\<exists>s'. tx_setInt blk off v okToLog s = (Inr (), s') \<and> ready s' M \<and>
    written s s' blk (overwrite (nat off) (int_bytes v) (view s blk))"
proof -
  note bs = ready_bounds(1) [OF assms(1)]
  obtain i where "data_blk s blk"
    by (rule ready_bufferD [OF assms(1,2)])
  then have len: "int (length (view s blk)) = blocksize s"
    by (rule ready_view_length [OF assms(1)])
  let ?old = "bytes_int (slice (nat off) 4 (view s blk))"
  show ?thesis
    unfolding tx_setInt_def
  proof (rule ready_write [OF assms(1,2)])
    show "int (length (overwrite (nat off) (int_bytes v) (view s blk))) = blocksize s"
      using len assms(3,4) by (simp add: overwrite_def)
    show "setInt (view s blk) off v = Inr (overwrite (nat off) (int_bytes v) (view s blk))"
      using int_field.put_eq [of off v "view s blk"] len assms(3,4) bs by simp
    fix s1 i assume s1: "alike s s1" "buf_page (pool s1 ! i) = view s blk" "buf_blk (pool s1 ! i) = blk"
    show "(\<exists>r. (if okToLog then rm_setInt i off v else ret (- 1)) s1 = lm_append r s1 \<and> int (length r) + 8 \<le> blocksize s) \<or>
      (if okToLog then rm_setInt i off v else ret (- 1)) s1 = (Inr (- 1), s1)"
    proof (cases okToLog)
      case True
      let ?r = "upd_rec (txNum s1) (blk, off, ?old)"
      have "getInt (view s blk) off = Inr ?old"
        using getInt_view [of off "view s blk"] len assms(3,4) bs by simp
      moreover have "setInt_bytes (txNum s1) blk off ?old = Inr ?r"
        using setInt_bytes_eq [of blk "txNum s1" off ?old] assms(5) [OF True] bs by (simp add: upd_rec_def)
      ultimately have "rm_setInt i off v s1 = lm_append ?r s1"
        using s1 by (simp add: rm_setInt_def cmd_simps page_at_def)
      then show ?thesis
        using True assms(5) [OF True] length_upd_rec [of "txNum s1" blk off ?old]
        by (intro disjI1 exI [of _ ?r]) simp
    qed (simp add: cmd_simps)
  qed
qed

text \<open>The old string must be readable and its record, which has room for it twice, fit in a block.\<close>

theorem ready_setString:
  assumes "ready s M" "blk \<in># M" "0 \<le> off" "off + 4 + int (length v) \<le> blocksize s"
    and "okToLog \<Longrightarrow> \<exists>old. getString (view s blk) off = Inr old \<and> int (length (fileName blk)) + 2 * int (length old) + 32 \<le> blocksize s"
  shows "\<exists>s'. tx_setString blk off v okToLog s = (Inr (), s') \<and> ready s' M \<and>
    written s s' blk (overwrite (nat off) (str_bytes v) (view s blk))"
proof -
  note bs = ready_bounds(1) [OF assms(1)]
  obtain i where "data_blk s blk"
    by (rule ready_bufferD [OF assms(1,2)])
  then have len: "int (length (view s blk)) = blocksize s"
    by (rule ready_view_length [OF assms(1)])
  show ?thesis
    unfolding tx_setString_def
  proof (rule ready_write [OF assms(1,2)])
    show "int (length (overwrite (nat off) (str_bytes v) (view s blk))) = blocksize s"
      using len assms(3,4) by (simp add: overwrite_def)
    show "setString (view s blk) off v = Inr (overwrite (nat off) (str_bytes v) (view s blk))"
      using str_field.put_eq [of off v "view s blk"] len assms(3,4) bs by simp
    fix s1 i assume s1: "alike s s1" "buf_page (pool s1 ! i) = view s blk" "buf_blk (pool s1 ! i) = blk"
    show "(\<exists>r. (if okToLog then rm_setString i off v else ret (- 1)) s1 = lm_append r s1 \<and> int (length r) + 8 \<le> blocksize s) \<or>
      (if okToLog then rm_setString i off v else ret (- 1)) s1 = (Inr (- 1), s1)"
    proof (cases okToLog)
      case True
      then obtain old where old: "getString (view s blk) off = Inr old"
        "int (length (fileName blk)) + 2 * int (length old) + 32 \<le> blocksize s"
        using assms(5) by blast
      let ?r = "(((((int_bytes 5 @ int_bytes (txNum s1)) @ str_bytes (fileName blk)) @ int_bytes (number blk)) @ int_bytes off) @
        zeros (length old)) @ str_bytes old"
      have "setString_bytes (txNum s1) blk off old = Inr ?r"
        using setString_bytes_eq [of blk old "txNum s1" off] old(2) bs by simp
      then have "rm_setString i off v s1 = lm_append ?r s1"
        using s1 old(1) by (simp add: rm_setString_def cmd_simps page_at_def)
      then show ?thesis
        using True old(2) by (intro disjI1 exI [of _ ?r]) simp
    qed (simp add: cmd_simps)
  qed
qed


section \<open>Appending a block\<close>

definition appended :: "'a tx_scheme \<Rightarrow> 'a tx_scheme \<Rightarrow> string \<Rightarrow> bool" where
  "appended s s' fn \<longleftrightarrow> blocksize s' = blocksize s \<and> logFileName s' = logFileName s \<and> length (pool s') = length (pool s) \<and>
     txNum s' = txNum s \<and> tx.more s' = tx.more s \<and>
     (\<forall>b. data_blk s b \<longrightarrow> view s' b = (if b = BlockId fn (fm_length fn s) then page_new (blocksize s) else view s b)) \<and>
     (\<forall>n. n \<noteq> logFileName s \<longrightarrow> fm_length n s' = fm_length n s + (if n = fn then 1 else 0))"

lemma alike_appended: "alike s s' \<Longrightarrow> appended s' s'' fn \<Longrightarrow> fn \<noteq> logFileName s \<Longrightarrow> appended s s'' fn"
  using alike_data_blk [of s s'] by (simp add: appended_def alike_def)

lemma store_append:
  assumes "ready s M" "fn \<noteq> logFileName s" "fn \<noteq> []"
  defines "s' \<equiv> store_block (BlockId fn (fm_length fn s)) (page_new (blocksize s)) s"
  shows "ready s' M" "appended s s' fn"
proof -
  let ?b = "BlockId fn (fm_length fn s)" and ?p = "page_new (blocksize s)"
  obtain base rs dur where ok: "tx_ok s base rs dur"
    using assms(1) ready_tx_ok by blast
  then have inv: "bm_inv s" and log: "log_state s base rs dur" and bl: "bl_ok s"
    by (simp_all add: tx_ok_def bm_log_def)
  note fi = log_state_fm_inv [OF log]
  have lp: "int (length ?p) = blocksize s" and n0: "0 \<le> number ?b"
    using ready_bounds(2) [OF assms(1)] fm_length_nonneg [OF fi] by simp_all
  have more: "bm.more s' = bm.more s"
    by (simp add: s'_def)
  note m = tx_more_eq [OF more]
  have same: "pool s' = pool s" "numAvailable s' = numAvailable s" "blocksize s' = blocksize s" "logFileName s' = logFileName s"
    "latestLsn s' = latestLsn s" "data_blk s' = data_blk s"
    by (simp_all add: s'_def fun_eq_iff data_blk_def)
  have len: "fm_length m s' = fm_length m s + (if m = fn then 1 else 0)" for m
    using fm_length_store [OF fi lp n0] fm_length_nonneg [OF fi] by (simp add: s'_def)
  have disk: "disk_block s' b = (if b = ?b then ?p else disk_block s b)" if "data_blk s b" for b
    using disk_block_store [OF fi lp n0, of b] that by (simp add: s'_def data_blk_def)
  have db: "data_blk s ?b"
    using assms(2,3) n0 by (simp add: data_blk_def)
  have new: "buf_blk (pool s ! i) \<noteq> ?b" if i: "i < length (pool s)" for i
  proof
    assume "buf_blk (pool s ! i) = ?b"
    with readyD(3) [OF assms(1)] i db show False
      unfolding pool_in_def by (metis block_id.sel less_irrefl)
  qed
  have "buf_ok s' (pool s ! i)" if "i < length (pool s)" for i
    using bm_invD [OF inv that] new [OF that] disk by (auto simp: buf_ok_def same)
  then have "bm_inv s'"
    using inv by (simp add: bm_inv_def same)
  moreover have "log_state s' base rs dur"
    unfolding s'_def by (rule log_state_store [OF log _ lp n0]) (use assms(2) in simp)
  moreover have "bl_ok s'"
    using bl by (simp add: bl_ok_def same m)
  ultimately have "tx_ok s' base rs dur"
    by (simp add: tx_ok_def bm_log_def)
  moreover have "pool_in s'"
    using readyD(3) [OF assms(1)] by (fastforce simp: pool_in_def same len)
  ultimately show "ready s' M"
    unfolding ready_def using readyD [OF assms(1)] by (auto simp: exact_pins_def same m)
  have "view s' b = (if b = ?b then ?p else view s b)" if b: "data_blk s b" for b
  proof (cases "b = ?b")
    case True
    with view_uncached(2) [of s' b] new disk [OF b] show ?thesis
      by (simp add: same)
  next
    case False
    with disk [OF b] show ?thesis
      by (simp add: view_def bm_findExistingBuffer_def same split: option.split)
  qed
  then show "appended s s' fn"
    using len by (simp add: appended_def same m)
qed

theorem ready_append:
  assumes "ready s M" "fn \<noteq> logFileName s" "fn \<noteq> []"
  shows "\<exists>s'. tx_append fn s = (Inr (BlockId fn (fm_length fn s)), s') \<and> ready s' M \<and> appended s s' fn"
proof -
  from ready_xLock [OF assms(1)] obtain c where
    c: "on_conc (cm_xLock (BlockId fn (- 1)) [] []) s = (Inr (), s\<lparr>conc := c\<rparr>)" "ready (s\<lparr>conc := c\<rparr>) M" "alike s (s\<lparr>conc := c\<rparr>)"
    by blast
  let ?s = "s\<lparr>conc := c\<rparr>"
  have fi: "fm_inv ?s"
    using ready_tx_ok [OF c(2)] by (auto simp: tx_ok_def bm_log_def dest: log_state_fm_inv)
  have len: "fm_length fn ?s = fm_length fn s"
    by (rule fm_length_cong) simp_all
  have fn: "fn \<noteq> logFileName ?s"
    using assms(2) by simp
  from store_append [OF c(2) fn assms(3)] fm_append_store [OF fi, of fn] c(1) alike_appended [OF c(3) _ assms(2)] show ?thesis
    unfolding len by (auto simp: tx_append_def cmd_simps)
qed

end
