(* ===== verification/TableWrites.thy ===== *)
theory TableWrites
  imports TablePages MemoryWrites "HOL-Library.Sublist"
begin

text \<open>
  What the updates of a table scan do to the rows of the table: setting a field changes the
  current row, removing takes exactly the current row out, inserting takes the first empty slot
  or appends a block.
\<close>

section \<open>Other files\<close>

text \<open>Everything but one file shows what it showed.\<close>

definition changed :: "'a tx_scheme \<Rightarrow> 'a tx_scheme \<Rightarrow> string \<Rightarrow> bool" where
  "changed s s' fn \<longleftrightarrow> blocksize s' = blocksize s \<and> logFileName s' = logFileName s \<and> length (pool s') = length (pool s) \<and>
     txNum s' = txNum s \<and> tx.more s' = tx.more s \<and>
     (\<forall>b. data_blk s b \<longrightarrow> fileName b \<noteq> fn \<longrightarrow> view s' b = view s b) \<and>
     (\<forall>n. n \<noteq> logFileName s \<longrightarrow> n \<noteq> fn \<longrightarrow> fm_length n s' = fm_length n s)"

lemma changed_trans [trans]: "changed s s' fn \<Longrightarrow> changed s' s'' fn \<Longrightarrow> changed s s'' fn"
  by (auto simp: changed_def data_blk_def)

lemma alike_changed: "alike s s' \<Longrightarrow> changed s s' fn"
  by (simp add: changed_def alike_def)

lemma written_changed: "written s s' (BlockId fn b) p \<Longrightarrow> changed s s' fn"
  by (auto simp: changed_def written_def)

lemma appended_changed:
  assumes "appended s s' fn"
  shows "changed s s' fn"
proof -
  have "view s' b = view s b" if "data_blk s b" "fileName b \<noteq> fn" for b
    using assms that unfolding appended_def by (metis block_id.sel(1))
  with assms show ?thesis
    by (simp add: changed_def appended_def)
qed


section \<open>Tables that can be updated\<close>

definition table_wf :: "'a bm_scheme \<Rightarrow> layout \<Rightarrow> string \<Rightarrow> bool" where
  "table_wf s l fn \<longleftrightarrow> lay_ok l \<and> fn \<noteq> logFileName s \<and> fn \<noteq> [] \<and> 0 < file_blocks s fn \<and>
     (\<forall>b < file_blocks s fn. page_wf (blocksize s) l (file_page s fn b))"

lemma table_wf_ok:
  assumes "table_wf s l fn"
  shows "table_ok s l fn"
proof -
  have "dom (page_row l (file_page s fn b) i) = lay_fields l"
    if "b < file_blocks s fn" "i \<in> set (slots_with USED (blocksize s) l (file_page s fn b) 0)" for b i
  proof -
    have "page_wf (blocksize s) l (file_page s fn b)" "i < num_slots (blocksize s) l"
      using assms that by (auto simp: table_wf_def set_slots_with)
    from slot_typed [OF this] show ?thesis by (simp add: row_typed_def)
  qed
  with assms lay_size [of l] show ?thesis
    by (auto simp: table_wf_def table_ok_def)
qed

lemma table_wf_alike: "alike s s' \<Longrightarrow> table_wf s l fn \<Longrightarrow> table_wf s' l fn"
  using alike_table [of s s' fn] by (auto simp: table_wf_def alike_def)

text \<open>The slots of a file, and the rows before and after a slot.\<close>

definition slot_used :: "'a bm_scheme \<Rightarrow> layout \<Rightarrow> string \<Rightarrow> nat \<Rightarrow> nat \<Rightarrow> bool" where
  "slot_used s l fn b i \<longleftrightarrow> has_flag USED l (file_page s fn b) i"

definition slot_row :: "'a bm_scheme \<Rightarrow> layout \<Rightarrow> string \<Rightarrow> nat \<Rightarrow> nat \<Rightarrow> row" where
  "slot_row s l fn b i = page_row l (file_page s fn b) i"

definition rows_before :: "'a bm_scheme \<Rightarrow> layout \<Rightarrow> string \<Rightarrow> nat \<Rightarrow> nat \<Rightarrow> row list" where
  "rows_before s l fn b i = concat (map (\<lambda>b. page_rows (blocksize s) l (file_page s fn b) 0) [0..<b]) @
     map (slot_row s l fn b) (filter (slot_used s l fn b) [0..<i])"

definition rows_after :: "'a bm_scheme \<Rightarrow> layout \<Rightarrow> string \<Rightarrow> nat \<Rightarrow> nat \<Rightarrow> row list" where
  "rows_after s l fn b i = page_rows (blocksize s) l (file_page s fn b) i @ rows_from s l fn (Suc b)"

lemma rows_after_Suc:
  "i < num_slots (blocksize s) l \<Longrightarrow> rows_after s l fn b i =
     (if slot_used s l fn b i then slot_row s l fn b i # rows_after s l fn b (Suc i) else rows_after s l fn b (Suc i))"
  by (simp add: rows_after_def page_rows_def slots_with_Suc slot_used_def slot_row_def)

lemma rows_before_Suc:
  "rows_before s l fn b (Suc i) = (if slot_used s l fn b i then rows_before s l fn b i @ [slot_row s l fn b i] else rows_before s l fn b i)"
  by (simp add: rows_before_def)

lemma table_rows_split:
  assumes "b < file_blocks s fn" "i \<le> num_slots (blocksize s) l"
  shows "table_rows s l fn = rows_before s l fn b i @ rows_after s l fn b i"
proof -
  let ?n = "num_slots (blocksize s) l" and ?r = "\<lambda>b. page_rows (blocksize s) l (file_page s fn b) 0"
  have "[0..<file_blocks s fn] = [0..<b] @ b # [Suc b..<file_blocks s fn]"
    using assms(1) upt_conv_Cons [of b "file_blocks s fn"] upt_add_eq_append [of 0 b "file_blocks s fn - b"] by simp
  then have "table_rows s l fn = concat (map ?r [0..<b]) @ ?r b @ rows_from s l fn (Suc b)"
    by (simp add: table_rows_def rows_from_def)
  moreover have "[0..<?n] = [0..<i] @ [i..<?n]"
    using assms(2) upt_add_eq_append [of 0 i "?n - i"] by simp
  then have "?r b = map (slot_row s l fn b) (filter (slot_used s l fn b) [0..<i]) @ page_rows (blocksize s) l (file_page s fn b) i"
    by (simp add: page_rows_def slots_with_def slot_row_def [abs_def] slot_used_def [abs_def])
  ultimately show ?thesis
    by (simp add: rows_before_def rows_after_def)
qed

lemma rows_before_mono:
  assumes "i \<le> j"
  shows "prefix (rows_before s l fn b i) (rows_before s l fn b j)"
proof -
  have "[0..<j] = [0..<i] @ [i..<j]"
    using assms upt_add_eq_append [of 0 i "j - i"] by simp
  then show ?thesis
    by (simp add: rows_before_def)
qed

lemma rows_before_next: "rows_before s l fn (Suc b) 0 = rows_before s l fn b (num_slots (blocksize s) l)"
  by (simp add: rows_before_def page_rows_def slots_with_def slot_used_def [abs_def] slot_row_def [abs_def])

text \<open>
  A step that changes one slot: afterwards it is used or not and holds a row; every other slot of
  the table, and all other files, are as before.
\<close>

definition slot_set :: "'a tx_scheme \<Rightarrow> 'a tx_scheme \<Rightarrow> layout \<Rightarrow> string \<Rightarrow> nat \<Rightarrow> nat \<Rightarrow> bool \<Rightarrow> row \<Rightarrow> bool" where
  "slot_set s s' l fn b i u r \<longleftrightarrow> changed s s' fn \<and> table_wf s' l fn \<and> file_blocks s' fn = file_blocks s fn \<and>
     rows_before s' l fn b i = rows_before s l fn b i \<and> rows_after s' l fn b (Suc i) = rows_after s l fn b (Suc i) \<and>
     slot_used s' l fn b i = u \<and> slot_row s' l fn b i = r"

lemma slot_set_trans: "slot_set s s' l fn b i u r \<Longrightarrow> slot_set s' s'' l fn b i u' r' \<Longrightarrow> slot_set s s'' l fn b i u' r'"
  by (auto simp: slot_set_def intro: changed_trans)

lemma alike_slot:
  assumes "alike s s'" "table_wf s l fn"
  shows "slot_set s s' l fn b i (slot_used s l fn b i) (slot_row s l fn b i)"
proof -
  have fn: "fn \<noteq> logFileName s" "fn \<noteq> []"
    using assms(2) by (simp_all add: table_wf_def)
  note a = alike_table [OF assms(1) fn]
  show ?thesis
    using alike_changed [OF assms(1)] table_wf_alike [OF assms]
    by (simp add: slot_set_def rows_before_def rows_after_def slot_used_def [abs_def] slot_row_def [abs_def] a)
qed

text \<open>A written page that differs in one slot.\<close>

lemma written_slot:
  assumes "table_wf s l fn" "written s s' (BlockId fn (int b)) p" "b < file_blocks s fn" "i < num_slots (blocksize s) l"
    "page_wf (blocksize s) l p"
    "\<And>j. j < num_slots (blocksize s) l \<Longrightarrow> j \<noteq> i \<Longrightarrow> has_flag USED l p j = slot_used s l fn b j"
    "\<And>j. j < num_slots (blocksize s) l \<Longrightarrow> j \<noteq> i \<Longrightarrow> page_row l p j = slot_row s l fn b j"
  shows "slot_set s s' l fn b i (has_flag USED l p i) (page_row l p i)"
proof -
  let ?n = "num_slots (blocksize s) l"
  have fn: "fn \<noteq> logFileName s" "fn \<noteq> []" and bs: "blocksize s' = blocksize s"
    using assms(1,2) by (simp_all add: table_wf_def written_def)
  have page: "file_page s' fn c = (if c = b then p else file_page s fn c)" for c
    using assms(2) fn by (simp add: file_page_def written_def data_blk_def)
  have blocks: "file_blocks s' fn = file_blocks s fn"
    using assms(2) fn by (simp add: file_blocks_def written_def)
  have wf: "table_wf s' l fn"
    using assms(1,2,5) by (auto simp: table_wf_def blocks bs page written_def)
  have "map (\<lambda>c. page_rows (blocksize s') l (file_page s' fn c) 0) [0..<b] = map (\<lambda>c. page_rows (blocksize s) l (file_page s fn c) 0) [0..<b]"
    by (rule map_cong [OF refl]) (simp add: page bs)
  moreover have "filter (slot_used s' l fn b) [0..<i] = filter (slot_used s l fn b) [0..<i]"
    using assms(4,6) by (intro filter_cong refl) (simp add: slot_used_def page)
  moreover have "map (slot_row s' l fn b) (filter (slot_used s l fn b) [0..<i]) = map (slot_row s l fn b) (filter (slot_used s l fn b) [0..<i])"
    using assms(4,7) by (intro map_cong refl) (auto simp: slot_row_def page)
  ultimately have before: "rows_before s' l fn b i = rows_before s l fn b i"
    unfolding rows_before_def by (simp only:)
  have "slots_with USED (blocksize s) l p (Suc i) = slots_with USED (blocksize s) l (file_page s fn b) (Suc i)"
    using assms(6) unfolding slots_with_def by (intro filter_cong refl) (simp add: slot_used_def)
  moreover have "map (page_row l p) (slots_with USED (blocksize s) l (file_page s fn b) (Suc i)) =
      map (page_row l (file_page s fn b)) (slots_with USED (blocksize s) l (file_page s fn b) (Suc i))"
    using assms(7) by (intro map_cong refl) (auto simp: set_slots_with slot_row_def)
  moreover have "rows_from s' l fn (Suc b) = rows_from s l fn (Suc b)"
    unfolding rows_from_def blocks bs by (intro arg_cong [where f = concat] map_cong refl) (simp add: page)
  ultimately have after: "rows_after s' l fn b (Suc i) = rows_after s l fn b (Suc i)"
    by (simp add: rows_after_def page_rows_def page bs)
  show ?thesis
    using written_changed [OF assms(2)] wf blocks before after by (simp add: slot_set_def slot_used_def slot_row_def page)
qed



section \<open>Setting a field of the current row\<close>

text \<open>What the records of a table's log entries need of a block.\<close>

definition loggable :: "int \<Rightarrow> layout \<Rightarrow> string \<Rightarrow> bool" where
  "loggable bs l fn \<longleftrightarrow> int (length fn) + 32 \<le> bs \<and>
     (\<forall>f fi. map_of (sch_info (lay_schema l)) f = Some fi \<longrightarrow> fi_type fi = VARCHAR \<longrightarrow> int (length fn) + 2 * fi_length fi + 32 \<le> bs)"

text \<open>The same as a computation.\<close>

definition log_check :: "int \<Rightarrow> layout \<Rightarrow> string \<Rightarrow> bool" where
  "log_check bs l fn \<longleftrightarrow> int (length fn) + 32 \<le> bs \<and>
     list_all (\<lambda>(f, fi). fi_type fi = VARCHAR \<longrightarrow> int (length fn) + 2 * fi_length fi + 32 \<le> bs) (sch_info (lay_schema l))"

lemma log_check: "log_check bs l fn \<Longrightarrow> loggable bs l fn"
  by (auto simp: log_check_def loggable_def list_all_iff dest: map_of_SomeD)

text \<open>The scan stands on slot \<open>i\<close> of block \<open>b\<close>.\<close>

definition at_slot :: "'a tx_scheme \<Rightarrow> layout \<Rightarrow> string \<Rightarrow> nat \<Rightarrow> nat \<Rightarrow> tscan \<Rightarrow> bool" where
  "at_slot s l fn b i ts \<longleftrightarrow> on_block l fn b ts \<and> ts_slot ts = int i \<and> b < file_blocks s fn \<and> i < num_slots (blocksize s) l"

lemma at_slot_own: "at_slot s l fn b i ts \<Longrightarrow> ts_own ts = {#BlockId fn (int b)#}"
  using on_block_own [of l fn b ts] by (simp add: at_slot_def)

lemma at_slot_set: "at_slot s l fn b i ts \<Longrightarrow> slot_set s s' l fn b j u r \<Longrightarrow> at_slot s' l fn b i ts"
  by (simp add: at_slot_def slot_set_def changed_def)

lemma at_slot_page:
  assumes "at_slot s l fn b i ts" "table_wf s l fn" "ready s (ts_own ts + M)"
  shows "ts_page ts = Some \<lparr>rp_blk = BlockId fn (int b), rp_layout = l\<rparr>" "BlockId fn (int b) \<in># ts_own ts + M"
    "page_wf (blocksize s) l (file_page s fn b)" "view s (BlockId fn (int b)) = file_page s fn b"
    "i < num_slots (blocksize s) l" "b < file_blocks s fn" "lay_ok l" "blocksize s < 2 ^ 31" "ts_layout ts = l" "ts_slot ts = int i"
  using assms ready_bounds(1) [OF assms(3)] on_block_own [of l fn b ts]
  by (auto simp: at_slot_def on_block_def table_wf_def file_page_def)

lemma table_put_field:
  assumes "at_slot s l fn b i ts" "table_wf s l fn" "ready s (ts_own ts + M)" "field_val l f v" "lay_offset f l = Inr off"
    "written s s' (BlockId fn (int b)) (overwrite (nat (int i * lay_slotSize l + off)) (val_bytes v) (file_page s fn b))"
  shows "slot_set s s' l fn b i (slot_used s l fn b i) ((slot_row s l fn b i)(f \<mapsto> v))"
proof -
  note c = at_slot_page [OF assms(1-3)]
  note p = put_field [OF c(7,3,8,5) assms(4,5)]
  let ?p = "overwrite (nat (int i * lay_slotSize l + off)) (val_bytes v) (file_page s fn b)"
  have "slot_set s s' l fn b i (has_flag USED l ?p i) (page_row l ?p i)"
    by (rule written_slot [OF assms(2,6) c(6,5) p(3)]) (simp_all add: p(1,2) slot_used_def slot_row_def)
  then show ?thesis
    using p(1,2) [OF c(5)] by (simp add: slot_used_def slot_row_def)
qed

lemma ts_setInt_ok:
  assumes "at_slot s l fn b i ts" "table_wf s l fn" "ready s (ts_own ts + M)" "loggable (blocksize s) l fn" "field_val l f (VInt v)"
  shows "\<exists>s'. ts_setInt f v ts s = (Inr (), s') \<and> ready s' (ts_own ts + M) \<and>
    slot_set s s' l fn b i (slot_used s l fn b i) ((slot_row s l fn b i)(f \<mapsto> VInt v))"
proof -
  note c = at_slot_page [OF assms(1-3)]
  obtain off where off: "lay_offset f l = Inr off"
    using field_place [OF c(7) field_val_field [OF assms(5)]] by metis
  have "0 \<le> blocksize s"
    using page_length [OF c(3)] by simp
  note w = field_within [OF c(7,5) this assms(5) off]
  have "int i * lay_slotSize l + off + 4 \<le> blocksize s" "True \<Longrightarrow> int (length (fileName (BlockId fn (int b)))) + 32 \<le> blocksize s"
    using w(2) assms(4) by (simp_all add: loggable_def)
  from ready_setInt [OF assms(3) c(2) w(1) this, where v = v, unfolded c(4)] obtain s' where
    s': "tx_setInt (BlockId fn (int b)) (int i * lay_slotSize l + off) v True s = (Inr (), s')" "ready s' (ts_own ts + M)"
      "written s s' (BlockId fn (int b)) (overwrite (nat (int i * lay_slotSize l + off)) (val_bytes (VInt v)) (file_page s fn b))"
    by auto
  from s'(1,2) table_put_field [OF assms(1-3,5) off s'(3)] c(1,10) off show ?thesis
    by (intro exI [of _ s'])
      (simp add: ts_setInt_def ts_recordPage_def deref_def rp_setInt_def rp_fieldPos_def rp_offset_def cmd_simps)
qed

text \<open>The log record of a string field fits, whatever typed string the field holds.\<close>

lemma string_loggable:
  assumes "at_slot s l fn b i ts" "table_wf s l fn" "ready s (ts_own ts + M)" "loggable (blocksize s) l fn"
    and "map_of (sch_info (lay_schema l)) f = Some fi" "fi_type fi = VARCHAR" "lay_offset f l = Inr off"
  shows "\<exists>old. getString (view s (BlockId fn (int b))) (int i * lay_slotSize l + off) = Inr old \<and>
    int (length (fileName (BlockId fn (int b)))) + 2 * int (length old) + 32 \<le> blocksize s"
proof -
  note c = at_slot_page [OF assms(1-3)]
  have row: "row_typed l (page_row l (file_page s fn b) i)"
    by (rule slot_typed [OF c(3,5)])
  then have "f \<in> dom (page_row l (file_page s fn b) i)"
    using assms(5) by (auto simp: row_typed_def lay_fields_def)
  then obtain x where x1: "page_row l (file_page s fn b) i f = Some x" by blast
  with row have x: "page_row l (file_page s fn b) i f = Some x" "field_val l f x"
    by (simp_all add: row_typed_def)
  then obtain old where old: "x = VStr old" "int (length old) \<le> fi_length fi"
    using assms(5,6) by (cases x) (auto simp: field_val_def INTEGER_def BOOLEAN_def VARCHAR_def)
  have len: "int (length (file_page s fn b)) = blocksize s"
    by (rule page_length [OF c(3)])
  have "val_at (file_page s fn b) (int i * lay_slotSize l + off) (VStr old)"
    using page_row_val_at [OF c(7,5) len c(8) x(2) assms(7)] x(1) old(1) by simp
  then have "getString (file_page s fn b) (int i * lay_slotSize l + off) = Inr old"
    using getString_val_at [of "int i * lay_slotSize l + off" "file_page s fn b" old] len c(8) by (simp add: val_at_def)
  moreover have "int (length fn) + 2 * int (length old) + 32 \<le> blocksize s"
    using assms(4-6) old(2) unfolding loggable_def by fastforce
  ultimately show ?thesis
    by (simp add: c(4))
qed

lemma ts_setString_ok:
  assumes "at_slot s l fn b i ts" "table_wf s l fn" "ready s (ts_own ts + M)" "loggable (blocksize s) l fn" "field_val l f (VStr v)"
  shows "\<exists>s'. ts_setString f v ts s = (Inr (), s') \<and> ready s' (ts_own ts + M) \<and>
    slot_set s s' l fn b i (slot_used s l fn b i) ((slot_row s l fn b i)(f \<mapsto> VStr v))"
proof -
  note c = at_slot_page [OF assms(1-3)]
  obtain off where off: "lay_offset f l = Inr off"
    using field_place [OF c(7) field_val_field [OF assms(5)]] by metis
  have "0 \<le> blocksize s"
    using page_length [OF c(3)] by simp
  note w = field_within [OF c(7,5) this assms(5) off]
  obtain fi where fi: "map_of (sch_info (lay_schema l)) f = Some fi" "fi_type fi = VARCHAR"
    using assms(5) by (auto simp: field_val_def split: option.splits)
  have "int i * lay_slotSize l + off + 4 + int (length v) \<le> blocksize s"
    using w(2) by simp
  from ready_setString [OF assms(3) c(2) w(1) this string_loggable [OF assms(1-4) fi off], of True, unfolded c(4)] obtain s' where
    s': "tx_setString (BlockId fn (int b)) (int i * lay_slotSize l + off) v True s = (Inr (), s')" "ready s' (ts_own ts + M)"
      "written s s' (BlockId fn (int b)) (overwrite (nat (int i * lay_slotSize l + off)) (val_bytes (VStr v)) (file_page s fn b))"
    by auto
  from s'(1,2) table_put_field [OF assms(1-3,5) off s'(3)] c(1,10) off show ?thesis
    by (intro exI [of _ s'])
      (simp add: ts_setString_def ts_recordPage_def deref_def rp_setString_def rp_fieldPos_def rp_offset_def cmd_simps)
qed

lemma ts_setValue_ok:
  assumes "at_slot s l fn b i ts" "table_wf s l fn" "ready s (ts_own ts + M)" "loggable (blocksize s) l fn" "field_val l f v"
  shows "\<exists>s'. ts_setValue f (const_of v) ts s = (Inr (), s') \<and> ready s' (ts_own ts + M) \<and>
    slot_set s s' l fn b i (slot_used s l fn b i) ((slot_row s l fn b i)(f \<mapsto> v))"
proof -
  obtain fi where fi: "map_of (sch_info (lay_schema l)) f = Some fi"
    "case v of VInt n \<Rightarrow> fi_type fi = INTEGER \<or> fi_type fi = BOOLEAN | VStr x \<Rightarrow> fi_type fi = VARCHAR"
    using assms(5) by (auto simp: field_val_def split: option.splits val.splits)
  note c = at_slot_page [OF assms(1-3)]
  show ?thesis
  proof (cases v)
    case (VInt n)
    with ts_setInt_ok [OF assms(1-4), of f n] assms(5) fi c(9) show ?thesis
      by (auto simp: ts_setValue_def sch_fieldType_def cmd_simps const_asInt_def const_int_def deref_def)
  next
    case (VStr x)
    with ts_setString_ok [OF assms(1-4), of f x] assms(5) fi c(9) show ?thesis
      by (auto simp: ts_setValue_def sch_fieldType_def cmd_simps const_asString_def const_str_def deref_def
          INTEGER_def BOOLEAN_def VARCHAR_def)
  qed
qed

section \<open>Setting the flag of a slot\<close>

lemma rp_setFlag_ok:
  assumes "at_slot s l fn b i ts" "table_wf s l fn" "ready s (ts_own ts + M)" "loggable (blocksize s) l fn" "fl = EMPTY \<or> fl = USED"
  shows "\<exists>s'. rp_setFlag (int i) fl \<lparr>rp_blk = BlockId fn (int b), rp_layout = l\<rparr> s = (Inr (), s') \<and> ready s' (ts_own ts + M) \<and>
    slot_set s s' l fn b i (fl = USED) (slot_row s l fn b i)"
proof -
  note c = at_slot_page [OF assms(1-3)]
  let ?a = "int i * lay_slotSize l" and ?p = "overwrite (nat (int i * lay_slotSize l)) (int_bytes fl) (file_page s fn b)"
  have "0 \<le> blocksize s"
    using page_length [OF c(3)] by simp
  then have "0 \<le> ?a" "?a + 4 \<le> blocksize s" "True \<Longrightarrow> int (length (fileName (BlockId fn (int b)))) + 32 \<le> blocksize s"
    using slot_within [OF c(7,5), of 0 4] lay_size [OF c(7)] assms(4) by (simp_all add: loggable_def)
  from ready_setInt [OF assms(3) c(2) this, where v = fl, unfolded c(4)] obtain s' where
    s': "tx_setInt (BlockId fn (int b)) ?a fl True s = (Inr (), s')" "ready s' (ts_own ts + M)" "written s s' (BlockId fn (int b)) ?p"
    by auto
  note p = put_flag [OF c(7,3,8,5) assms(5)]
  have "slot_set s s' l fn b i (has_flag USED l ?p i) (page_row l ?p i)"
    by (rule written_slot [OF assms(2) s'(3) c(6,5) p(3)]) (simp_all add: p(1,2) slot_used_def slot_row_def)
  then have "slot_set s s' l fn b i (fl = USED) (slot_row s l fn b i)"
    using p(1,2) [OF c(5)] by (simp add: slot_row_def eq_commute [of USED])
  with s'(1,2) show ?thesis
    by (auto simp: rp_setFlag_def rp_offset_def)
qed

theorem ts_remove_ok:
  assumes "at_slot s l fn b i ts" "table_wf s l fn" "ready s (ts_own ts + M)" "loggable (blocksize s) l fn"
  shows "\<exists>s'. ts_remove ts s = (Inr (), s') \<and> ready s' (ts_own ts + M) \<and> slot_set s s' l fn b i False (slot_row s l fn b i)"
proof -
  note c = at_slot_page [OF assms(1-3)]
  from rp_setFlag_ok [OF assms, of EMPTY] obtain s' where
    "rp_setFlag (int i) EMPTY \<lparr>rp_blk = BlockId fn (int b), rp_layout = l\<rparr> s = (Inr (), s')" "ready s' (ts_own ts + M)"
    "slot_set s s' l fn b i False (slot_row s l fn b i)" by (auto simp: EMPTY_def USED_def)
  with c(1,10) show ?thesis
    by (auto simp: ts_remove_def ts_recordPage_def deref_def rp_remove_def cmd_simps)
qed


section \<open>Formatting a new block\<close>

lemma int_bytes_0: "int_bytes 0 = replicate 4 zero_byte"
  using int_bytes_digits [of zero_byte zero_byte zero_byte zero_byte 0] by (simp add: zero_byte_def eval_nat_numeral)

lemma overwrite_new:
  assumes "0 \<le> a" "a + 4 \<le> n"
  shows "overwrite (nat a) (int_bytes 0) (page_new n) = page_new n"
proof -
  have "nat n = nat a + (4 + (nat n - (nat a + 4)))"
    using assms by arith
  then have "page_new n = replicate (nat a) zero_byte @ replicate 4 zero_byte @ replicate (nat n - (nat a + 4)) zero_byte"
    by (metis page_new_def replicate_add)
  then show ?thesis
    by (simp add: overwrite_def int_bytes_0)
qed

lemma zero_int:
  assumes "ready s M" "blk \<in># M" "view s blk = page_new (blocksize s)" "0 \<le> off" "off + 4 \<le> blocksize s"
    "int (length (fileName blk)) + 32 \<le> blocksize s"
  shows "\<exists>s'. tx_setInt blk off 0 okToLog s = (Inr (), s') \<and> ready s' M \<and> alike s s'"
  using ready_setInt [OF assms(1,2,4,5), of okToLog 0] assms(6) written_alike overwrite_new [OF assms(4,5)] assms(3) by metis

lemma zero_string:
  assumes "ready s M" "blk \<in># M" "view s blk = page_new (blocksize s)" "0 \<le> off" "off + 4 \<le> blocksize s"
  shows "\<exists>s'. tx_setString blk off [] False s = (Inr (), s') \<and> ready s' M \<and> alike s s'"
proof -
  have "off + 4 + int (length ([] :: string)) \<le> blocksize s"
    using assms(5) by simp
  from ready_setString [OF assms(1,2,4) this, of False] obtain s' where
    "tx_setString blk off [] False s = (Inr (), s')" "ready s' M" "written s s' blk (overwrite (nat off) (str_bytes []) (view s blk))"
    by auto
  moreover have "overwrite (nat off) (str_bytes []) (view s blk) = view s blk"
    using overwrite_new [OF assms(4,5)] assms(3) by (simp add: str_bytes_def)
  ultimately show ?thesis
    using written_alike by blast
qed

lemma alike_new_page:
  assumes "alike s s'" "data_blk s blk" "view s blk = page_new (blocksize s)"
  shows "view s' blk = page_new (blocksize s')" "data_blk s' blk" "blocksize s' = blocksize s"
  using assms alike_data_blk [OF assms(1)] by (simp_all add: alike_def)

lemma format_fields:
  assumes "ready s M" "blk \<in># M" "data_blk s blk" "view s blk = page_new (blocksize s)" "lay_ok l" "i < num_slots (blocksize s) l"
    "int (length (fileName blk)) + 32 \<le> blocksize s" "set fs \<subseteq> lay_fields l"
  shows "\<exists>s'. rp_format_fields (int i) fs \<lparr>rp_blk = blk, rp_layout = l\<rparr> s = (Inr (), s') \<and> ready s' M \<and> alike s s'"
  using assms(1,3,4,6,7,8)
proof (induction fs arbitrary: s)
  case Nil
  then show ?case by (simp add: cmd_simps)
next
  case (Cons f fs)
  let ?rp = "\<lparr>rp_blk = blk, rp_layout = l\<rparr>"
  have fin: "f \<in> lay_fields l"
    using Cons.prems(6) by simp
  obtain off m fi where f: "lay_offset f l = Inr off" "lay_lengthInBytes (lay_schema l) f = Inr m" "4 \<le> off"
      "off + m \<le> lay_slotSize l" "map_of (sch_info (lay_schema l)) f = Some fi" "sch_fieldType f (lay_schema l) = Inr (fi_type fi)"
      "fi_type fi \<in> {INTEGER, VARCHAR, BOOLEAN}" "0 \<le> fi_length fi"
    by (rule field_place [OF assms(5) fin])
  have "4 \<le> m"
    using lay_length_ok [OF _ f(2)] assms(5) by (simp add: lay_ok_def)
  then have a: "0 \<le> int i * lay_slotSize l + off" "int i * lay_slotSize l + off + 4 \<le> blocksize s"
    using slot_within [OF assms(5) Cons.prems(4), of off 4] f(3,4) lay_size [OF assms(5)] ready_bounds(2) [OF Cons.prems(1)]
    by simp_all
  have "\<exists>s1. (if fi_type fi = INTEGER \<or> fi_type fi = BOOLEAN then tx_setInt blk (int i * lay_slotSize l + off) 0 False
      else if fi_type fi = VARCHAR then tx_setString blk (int i * lay_slotSize l + off) [] False else ret ()) s = (Inr (), s1) \<and>
    ready s1 M \<and> alike s s1"
  proof (cases "fi_type fi = VARCHAR")
    case True
    with zero_string [OF Cons.prems(1) assms(2) Cons.prems(3) a] show ?thesis
      by (simp add: VARCHAR_def INTEGER_def BOOLEAN_def)
  next
    case False
    with zero_int [OF Cons.prems(1) assms(2) Cons.prems(3) a Cons.prems(5), of False] f(7) show ?thesis by auto
  qed
  then obtain s1 where s1: "(if fi_type fi = INTEGER \<or> fi_type fi = BOOLEAN then tx_setInt blk (int i * lay_slotSize l + off) 0 False
      else if fi_type fi = VARCHAR then tx_setString blk (int i * lay_slotSize l + off) [] False else ret ()) s = (Inr (), s1)"
    "ready s1 M" "alike s s1" by blast
  note n = alike_new_page [OF s1(3) Cons.prems(2,3)]
  from Cons.IH [OF s1(2) n(2,1), unfolded n(3)] Cons.prems(4-6) obtain s2 where
    s2: "rp_format_fields (int i) fs ?rp s1 = (Inr (), s2)" "ready s2 M" "alike s1 s2" by auto
  have "rp_format_fields (int i) (f # fs) ?rp s = (Inr (), s2)"
    using s1(1) s2(1) f(1,6) by (simp add: rp_fieldPos_def rp_offset_def cmd_simps cong: if_cong split del: if_split)
  with s2(2) alike_trans [OF s1(3) s2(3)] show ?case by blast
qed

lemma format_loop:
  assumes "ready s M" "blk \<in># M" "data_blk s blk" "view s blk = page_new (blocksize s)" "lay_ok l"
    "int (length (fileName blk)) + 32 \<le> blocksize s" "num_slots (blocksize s) l - i < fuel"
  shows "\<exists>s'. rp_format_loop fuel (int i) \<lparr>rp_blk = blk, rp_layout = l\<rparr> s = (Inr (), s') \<and> ready s' M \<and> alike s s'"
  using assms(1,3,4,6,7)
proof (induction fuel arbitrary: s i)
  case 0
  then show ?case by simp
next
  case (Suc fuel)
  let ?rp = "\<lparr>rp_blk = blk, rp_layout = l\<rparr>"
  note bs = ready_bounds(2) [OF Suc.prems(1)]
  have valid: "rp_isValidSlot (int i) ?rp s \<longleftrightarrow> i < num_slots (blocksize s) l"
    using num_slots_less [of l "blocksize s" i] lay_size [OF assms(5)] bs by (simp add: rp_isValidSlot_def rp_offset_def tx_blockSize_def)
  show ?case
  proof (cases "i < num_slots (blocksize s) l")
    case False
    with valid Suc.prems(1) show ?thesis
      by (intro exI [of _ s]) (simp add: cmd_simps)
  next
    case True
    have a: "0 \<le> int i * lay_slotSize l" "int i * lay_slotSize l + 4 \<le> blocksize s"
      using slot_within [OF assms(5) True, of 0 4] lay_size [OF assms(5)] bs by simp_all
    from zero_int [OF Suc.prems(1) assms(2) Suc.prems(3) a Suc.prems(4), of True] obtain s1 where
      s1: "tx_setInt blk (int i * lay_slotSize l) 0 True s = (Inr (), s1)" "ready s1 M" "alike s s1" by blast
    note n1 = alike_new_page [OF s1(3) Suc.prems(2,3)]
    have "set (sch_fields (lay_schema l)) \<subseteq> lay_fields l"
      using assms(5) by (simp add: lay_ok_def sch_ok_def lay_fields_def)
    from format_fields [OF s1(2) assms(2) n1(2,1) assms(5), unfolded n1(3), OF True Suc.prems(4) this] obtain s2 where
      s2: "rp_format_fields (int i) (sch_fields (lay_schema l)) ?rp s1 = (Inr (), s2)" "ready s2 M" "alike s1 s2" by blast
    note n2 = alike_new_page [OF s2(3) n1(2,1), unfolded n1(3)]
    have "num_slots (blocksize s2) l - Suc i < fuel"
      using Suc.prems(5) True n2(3) by simp
    from Suc.IH [OF s2(2) n2(2,1) _ this] Suc.prems(4) n2(3) obtain s3 where
      s3: "rp_format_loop fuel (int (Suc i)) ?rp s2 = (Inr (), s3)" "ready s3 M" "alike s2 s3" by auto
    have "rp_format_loop (Suc fuel) (int i) ?rp s = (Inr (), s3)"
      using s1(1) s2(1) s3(1) valid True by (simp add: cmd_simps rp_offset_def EMPTY_def add.commute)
    with s3(2) tables.like_trans3 [OF s1(3) s2(3) s3(3)] show ?thesis by blast
  qed
qed


section \<open>Inserting a record\<close>

lemma appended_table:
  assumes "appended s s' fn" "table_wf s l fn" "ready s M"
  shows "table_wf s' l fn" "file_blocks s' fn = Suc (file_blocks s fn)" "table_rows s' l fn = table_rows s l fn"
    "file_page s' fn c = (if c = file_blocks s fn then page_new (blocksize s) else file_page s fn c)" "blocksize s' = blocksize s"
proof -
  have fn: "fn \<noteq> logFileName s" "fn \<noteq> []" and bs: "0 \<le> blocksize s" "blocksize s < 2 ^ 31"
    using assms(2) ready_bounds [OF assms(3)] by (simp_all add: table_wf_def)
  have "0 < file_blocks s fn"
    using assms(2) by (simp add: table_wf_def)
  then have len: "fm_length fn s = int (file_blocks s fn)" "0 \<le> fm_length fn s"
    by (simp_all add: file_blocks_def)
  show page: "file_page s' fn c = (if c = file_blocks s fn then page_new (blocksize s) else file_page s fn c)" for c
    using assms(1) fn by (simp add: file_page_def appended_def data_blk_def len)
  show blocks: "file_blocks s' fn = Suc (file_blocks s fn)"
    using assms(1) fn len(2) by (simp add: file_blocks_def appended_def nat_add_distrib)
  show b: "blocksize s' = blocksize s"
    using assms(1) by (simp add: appended_def)
  have lf: "logFileName s' = logFileName s"
    using assms(1) by (simp add: appended_def)
  have lay: "lay_ok l"
    using assms(2) by (simp add: table_wf_def)
  note new = page_wf_new [OF lay bs]
  show "table_wf s' l fn"
    unfolding table_wf_def blocks page b lf using lay fn assms(2) new(1) by (auto simp: table_wf_def less_Suc_eq)
  have "slots_with USED (blocksize s) l (page_new (blocksize s)) 0 = []"
    using new(2) by (auto simp: slots_with_def filter_empty_conv EMPTY_def USED_def)
  then have "page_rows (blocksize s) l (page_new (blocksize s)) 0 = []"
    by (simp add: page_rows_def)
  moreover have e: "map (\<lambda>c. page_rows (blocksize s) l (file_page s' fn c) 0) [0..<file_blocks s fn] =
      map (\<lambda>c. page_rows (blocksize s) l (file_page s fn c) 0) [0..<file_blocks s fn]"
    by (rule map_cong [OF refl]) (simp add: page)
  ultimately show "table_rows s' l fn = table_rows s l fn"
    by (simp add: table_rows_def rows_from_def blocks page [of "file_blocks s fn"] b e del: map_eq_conv)
qed

text \<open>The first empty slot of the block from the current one on, if there is one, becomes used.\<close>

lemma ts_try_insert_ok:
  assumes "table_wf s l fn" "on_block l fn b ts" "b < file_blocks s fn" "- 1 \<le> ts_slot ts" "ready s (ts_own ts + M)"
    "loggable (blocksize s) l fn" "num_slots (blocksize s) l < k"
  shows "\<exists>s' ts'. ts_try_insert k ts s = (Inr ts', s') \<and> ready s' (ts_own ts + M) \<and>
    (case slots_with EMPTY (blocksize s) l (file_page s fn b) (nat (ts_slot ts + 1)) of
       [] \<Rightarrow> ts' = ts\<lparr>ts_slot := - 1\<rparr> \<and> alike s s'
     | j # _ \<Rightarrow> at_slot s' l fn b j ts' \<and> \<not> slot_used s l fn b j \<and> slot_set s s' l fn b j True (slot_row s l fn b j))"
proof -
  let ?rp = "\<lparr>rp_blk = BlockId fn (int b), rp_layout = l\<rparr>" and ?i = "nat (ts_slot ts + 1)"
  let ?sl = "slots_with EMPTY (blocksize s) l (file_page s fn b) ?i"
  note ok = table_wf_ok [OF assms(1)]
  have mem: "rp_blk ?rp \<in># ts_own ts + M" and d: "data_blk s (rp_blk ?rp)" and sz: "4 \<le> lay_slotSize (rp_layout ?rp)"
    and fuel: "num_slots (blocksize s) (rp_layout ?rp) - ?i < k"
    using ok assms(7) table_data_blk [OF ok] by (simp_all add: on_block_own [OF assms(2)] table_ok_def)
  have i: "int ?i = ts_slot ts + 1"
    using assms(4) by simp
  from search_loop [OF assms(5) mem d sz fuel, of EMPTY, unfolded i] obtain s1 where
    s1: "rp_search_loop k (ts_slot ts + 1) EMPTY ?rp s = (Inr (case ?sl of [] \<Rightarrow> - 1 | j # _ \<Rightarrow> int j), s1)"
      "ready s1 (ts_own ts + M)" "alike s s1" by (auto simp: file_page_def)
  have pg: "ts_page ts = Some ?rp"
    using assms(2) by (simp add: on_block_def)
  show ?thesis
  proof (cases ?sl)
    case Nil
    with s1 pg show ?thesis
      by (intro exI [of _ s1] exI [of _ "ts\<lparr>ts_slot := - 1\<rparr>"])
        (simp add: ts_try_insert_def ts_recordPage_def deref_def rp_insertAfter_def rp_searchAfter_def cmd_simps)
  next
    case (Cons j js)
    let ?ts = "ts\<lparr>ts_slot := int j\<rparr>"
    have "j \<in> set ?sl"
      by (simp add: Cons)
    then have j: "j < num_slots (blocksize s) l" "has_flag EMPTY l (file_page s fn b) j"
      by (simp_all add: set_slots_with)
    have own: "ts_own ?ts = ts_own ts"
      by (simp add: ts_own_def)
    note as = alike_slot [OF s1(3) assms(1), of b j] and w1 = table_wf_alike [OF s1(3) assms(1)]
    have "at_slot s l fn b j ?ts"
      using assms(2,3) j(1) by (simp add: at_slot_def on_block_def)
    note at1 = at_slot_set [OF this as]
    have log1: "loggable (blocksize s1) l fn"
      using assms(6) s1(3) by (simp add: alike_def)
    from rp_setFlag_ok [OF at1 w1, unfolded own, OF s1(2) log1, of USED] obtain s2 where
      s2: "rp_setFlag (int j) USED ?rp s1 = (Inr (), s2)" "ready s2 (ts_own ts + M)" "slot_set s1 s2 l fn b j True (slot_row s1 l fn b j)"
      by auto
    have "slot_row s1 l fn b j = slot_row s l fn b j"
      using as by (simp add: slot_set_def)
    then have set2: "slot_set s s2 l fn b j True (slot_row s l fn b j)"
      using slot_set_trans [OF as s2(3)] by simp
    have "\<not> slot_used s l fn b j"
      using j(2) by (auto simp: slot_used_def has_flag_def EMPTY_def USED_def)
    moreover have "ts_try_insert k ts s = (Inr ?ts, s2)"
      using s1(1) s2(1) pg Cons
      by (simp add: ts_try_insert_def ts_recordPage_def deref_def rp_insertAfter_def rp_searchAfter_def cmd_simps)
    ultimately show ?thesis
      using s2(2) set2 at_slot_set [OF at1 s2(3)] Cons by (intro exI [of _ s2] exI [of _ ?ts]) simp
  qed
qed

text \<open>A block behind the last one, all its slots empty.\<close>

lemma ts_moveToNewBlock_ok:
  assumes "table_wf s l fn" "on_block l fn b ts" "ready s (ts_own ts + M)" "loggable (blocksize s) l fn" "num_slots (blocksize s) l < k"
  shows "\<exists>s' ts'. ts_moveToNewBlock k ts s = (Inr ts', s') \<and> ready s' (ts_own ts' + M) \<and> on_block l fn (file_blocks s fn) ts' \<and>
    ts_slot ts' = - 1 \<and> (\<exists>s1 s2. alike s s1 \<and> ready s1 M \<and> appended s1 s2 fn \<and> alike s2 s')"
proof -
  have fn: "fn \<noteq> logFileName s" "fn \<noteq> []" and lay: "lay_ok l" and ts: "ts_layout ts = l" "ts_fileName ts = fn"
    using assms(1,2) by (simp_all add: table_wf_def on_block_def)
  from ts_close_ok [OF assms(3)] obtain s1 where s1: "ts_close ts s = (Inr (), s1)" "ready s1 M" "alike s s1" by blast
  note a1 = alike_table [OF s1(3) fn] and w1 = table_wf_alike [OF s1(3) assms(1)]
  have fn1: "fn \<noteq> logFileName s1"
    using w1 by (simp add: table_wf_def)
  from ready_append [OF s1(2) fn1 fn(2)] obtain s2 where
    s2: "tx_append fn s1 = (Inr (BlockId fn (fm_length fn s1)), s2)" "ready s2 M" "appended s1 s2 fn" by blast
  note t2 = appended_table [OF s2(3) w1 s1(2)]
  have fs: "0 < file_blocks s fn" "file_blocks s1 fn = file_blocks s fn"
    using w1 a1(1) by (simp_all add: table_wf_def)
  then have len: "fm_length fn s1 = int (file_blocks s fn)"
    by (simp add: file_blocks_def)
  let ?b = "BlockId fn (int (file_blocks s fn))"
  have fn2: "fn \<noteq> logFileName s2"
    using t2(1) by (simp add: table_wf_def)
  have db: "data_blk s2 ?b"
    using fn2 fn(2) by (simp add: data_blk_def)
  have "size M < length (pool s2)"
    using readyD(5) [OF assms(3)] on_block_own [OF assms(2)] s1(3) s2(3) by (simp add: alike_def appended_def)
  moreover have "number ?b < fm_length (fileName ?b) s2"
    using block_length [of "file_blocks s fn" s2 fn] t2(2) fs(2) by simp
  ultimately obtain s3 where s3: "tx_pin ?b s2 = (Inr (), s3)" "ready s3 (add_mset ?b M)" "alike s2 s3"
    using ready_pin [OF s2(2) _ db] by blast
  have "view s2 ?b = page_new (blocksize s2)"
    using t2(4) [of "file_blocks s fn"] fs(2) t2(5) by (simp add: file_page_def)
  note n3 = alike_new_page [OF s3(3) db this]
  have bs3: "blocksize s3 = blocksize s"
    using n3(3) t2(5) a1(6) by simp
  have "?b \<in># add_mset ?b M" "int (length (fileName ?b)) + 32 \<le> blocksize s3" "num_slots (blocksize s3) l - 0 < k"
    using assms(4,5) by (simp_all add: bs3 loggable_def)
  from format_loop [OF s3(2) this(1) n3(2,1) lay this(2,3)] obtain s4 where
    s4: "rp_format_loop k 0 \<lparr>rp_blk = ?b, rp_layout = l\<rparr> s3 = (Inr (), s4)" "ready s4 (add_mset ?b M)" "alike s3 s4" by auto
  let ?ts = "ts\<lparr>ts_page := Some \<lparr>rp_blk = ?b, rp_layout = l\<rparr>, ts_slot := - 1\<rparr>"
  have "ts_moveToNewBlock k ts s = (Inr ?ts, s4)"
    using s1(1) s2(1) s3(1) s4(1) by (simp add: ts_moveToNewBlock_def ts len rp_new_def rp_format_def cmd_simps)
  with s4(2) alike_trans [OF s3(3) s4(3)] s1(2,3) s2(3) ts show ?thesis
    by (intro exI [of _ s4] exI [of _ ?ts]) (auto simp: ts_own_def on_block_def)
qed


text \<open>
  One slot is used now that was not, or is in a new block; the other rows are the old rows in
  their order. The row in the slot is what was left there.
\<close>

definition inserted :: "'a tx_scheme \<Rightarrow> 'a tx_scheme \<Rightarrow> layout \<Rightarrow> string \<Rightarrow> nat \<Rightarrow> nat \<Rightarrow> bool" where
  "inserted s s' l fn b i \<longleftrightarrow> changed s s' fn \<and> table_wf s' l fn \<and> slot_used s' l fn b i \<and> file_blocks s' fn \<le> Suc (file_blocks s fn) \<and>
     rows_before s' l fn b i @ rows_after s' l fn b (Suc i) = table_rows s l fn \<and>
     (if b < file_blocks s fn then \<not> slot_used s l fn b i \<and> slot_row s' l fn b i = slot_row s l fn b i
      else slot_row s' l fn b i = zero_row l)"

lemma slot_inserted:
  assumes "slot_set s s' l fn b j True (slot_row s l fn b j)" "\<not> slot_used s l fn b j" "b < file_blocks s fn" "j < num_slots (blocksize s) l"
  shows "inserted s s' l fn b j"
  using assms table_rows_split [of b s fn j l] by (simp add: inserted_def slot_set_def rows_after_Suc)

lemma alike_inserted:
  assumes "alike s s1" "table_wf s l fn" "inserted s1 s2 l fn b i"
  shows "inserted s s2 l fn b i"
proof -
  have fn: "fn \<noteq> logFileName s" "fn \<noteq> []"
    using assms(2) by (simp_all add: table_wf_def)
  note a = alike_table [OF assms(1) fn]
  have "slot_used s1 l fn b i = slot_used s l fn b i" "slot_row s1 l fn b i = slot_row s l fn b i"
    by (simp_all add: slot_used_def slot_row_def a)
  then show ?thesis
    using assms(3) changed_trans [OF alike_changed [OF assms(1)]] by (cases "b < file_blocks s fn") (simp_all add: inserted_def a)
qed

lemma new_block_inserted:
  assumes "alike s s1" "appended s1 s2 fn" "alike s2 s3" "table_wf s l fn" "ready s1 M"
  shows "table_wf s3 l fn" "file_blocks s3 fn = Suc (file_blocks s fn)" "blocksize s3 = blocksize s"
    "file_page s3 fn (file_blocks s fn) = page_new (blocksize s)"
    "inserted s3 s' l fn (file_blocks s fn) i \<Longrightarrow> file_blocks s' fn = file_blocks s3 fn \<Longrightarrow> i < num_slots (blocksize s) l \<Longrightarrow>
     inserted s s' l fn (file_blocks s fn) i"
    "rows_before s3 l fn (file_blocks s fn) 0 = rows_before s l fn (file_blocks s fn) 0"
proof -
  have fn: "fn \<noteq> logFileName s" "fn \<noteq> []"
    using assms(4) by (simp_all add: table_wf_def)
  note a1 = alike_table [OF assms(1) fn] and w1 = table_wf_alike [OF assms(1,4)]
  note t2 = appended_table [OF assms(2) w1 assms(5), unfolded a1]
  have fn2: "fn \<noteq> logFileName s2"
    using t2(1) by (simp add: table_wf_def)
  note a3 = alike_table [OF assms(3) fn2 fn(2), unfolded t2]
  show "table_wf s3 l fn"
    by (rule table_wf_alike [OF assms(3) t2(1)])
  show "file_blocks s3 fn = Suc (file_blocks s fn)" "blocksize s3 = blocksize s"
    by (rule a3)+
  show p: "file_page s3 fn (file_blocks s fn) = page_new (blocksize s)"
    by (simp add: a3)
  have "map (\<lambda>c. page_rows (blocksize s3) l (file_page s3 fn c) 0) [0..<file_blocks s fn] =
      map (\<lambda>c. page_rows (blocksize s) l (file_page s fn c) 0) [0..<file_blocks s fn]"
    by (rule map_cong [OF refl]) (simp add: a3)
  then show "rows_before s3 l fn (file_blocks s fn) 0 = rows_before s l fn (file_blocks s fn) 0"
    unfolding rows_before_def by (simp only: upt_0 filter.simps list.map)
  assume ins: "inserted s3 s' l fn (file_blocks s fn) i" and fb: "file_blocks s' fn = file_blocks s3 fn" and i: "i < num_slots (blocksize s) l"
  have "0 \<le> blocksize s" "blocksize s < 2 ^ 31"
    using ready_bounds [OF assms(5)] a1(6) by simp_all
  moreover have "lay_ok l"
    using assms(4) by (simp add: table_wf_def)
  ultimately have "slot_row s3 l fn (file_blocks s fn) i = zero_row l"
    using page_wf_new(3) [of l "blocksize s" i] i by (simp add: slot_row_def p)
  moreover have "changed s s3 fn"
    using changed_trans [OF alike_changed [OF assms(1)] changed_trans [OF appended_changed [OF assms(2)] alike_changed [OF assms(3)]]] .
  moreover have "file_blocks s' fn \<le> Suc (file_blocks s fn)"
    using fb by (simp add: a3)
  ultimately show "inserted s s' l fn (file_blocks s fn) i"
    using ins changed_trans [of s s3 fn s'] by (simp add: inserted_def a3 t2(3))
qed


text \<open>An empty slot in the rest of the block is used.\<close>

lemma ts_insert_here:
  assumes "table_wf s l fn" "on_block l fn b ts" "b < file_blocks s fn" "- 1 \<le> ts_slot ts" "ready s (ts_own ts + M)"
    "loggable (blocksize s) l fn" "num_slots (blocksize s) l < k"
    "slots_with EMPTY (blocksize s) l (file_page s fn b) (nat (ts_slot ts + 1)) = j # js"
  shows "\<exists>s' ts'. bnd (ts_try_insert k ts) (ts_insert_loop (Suc fuel) k) s = (Inr ts', s') \<and> ready s' (ts_own ts' + M) \<and>
    at_slot s' l fn b j ts' \<and> inserted s s' l fn b j \<and> file_blocks s' fn = file_blocks s fn \<and>
    prefix (rows_before s l fn b (nat (ts_slot ts + 1))) (rows_before s' l fn b j)"
proof -
  from ts_try_insert_ok [OF assms(1-7)] obtain s1 ts1 where
    s1: "ts_try_insert k ts s = (Inr ts1, s1)" "ready s1 (ts_own ts + M)" and
    c: "at_slot s1 l fn b j ts1" "\<not> slot_used s l fn b j" "slot_set s s1 l fn b j True (slot_row s l fn b j)"
    unfolding assms(8) by auto
  have "j \<in> set (slots_with EMPTY (blocksize s) l (file_page s fn b) (nat (ts_slot ts + 1)))"
    by (simp add: assms(8))
  then have j: "j < num_slots (blocksize s) l" "nat (ts_slot ts + 1) \<le> j"
    by (simp_all add: set_slots_with)
  note ins = slot_inserted [OF c(3,2) assms(3) j(1)]
  have "prefix (rows_before s l fn b (nat (ts_slot ts + 1))) (rows_before s1 l fn b j)"
    using rows_before_mono [OF j(2)] c(3) by (simp add: slot_set_def)
  moreover have "ts_own ts1 = ts_own ts"
    by (simp add: at_slot_own [OF c(1)] on_block_own [OF assms(2)])
  moreover have "bnd (ts_try_insert k ts) (ts_insert_loop (Suc fuel) k) s = (Inr ts1, s1)"
    using s1(1) c(1) by (simp add: cmd_simps at_slot_def)
  moreover have "file_blocks s1 fn = file_blocks s fn"
    using c(3) by (simp add: slot_set_def)
  ultimately show ?thesis
    using s1(2) c(1) ins by metis
qed

text \<open>
  One iteration of the loop of insert: without an empty slot in the rest of the block it goes on at
  the start of the next block, which it appends behind the last one.
\<close>

lemma ts_insert_step:
  assumes "table_wf s l fn" "on_block l fn b ts" "b < file_blocks s fn" "- 1 \<le> ts_slot ts" "ready s (ts_own ts + M)"
    "loggable (blocksize s) l fn" "num_slots (blocksize s) l < k"
    "slots_with EMPTY (blocksize s) l (file_page s fn b) (nat (ts_slot ts + 1)) = []"
  shows "\<exists>s' ts'. bnd (ts_try_insert k ts) (ts_insert_loop (Suc fuel) k) s = bnd (ts_try_insert k ts') (ts_insert_loop fuel k) s' \<and>
    ready s' (ts_own ts' + M) \<and> on_block l fn (Suc b) ts' \<and> ts_slot ts' = - 1 \<and>
    (if Suc b = file_blocks s fn then \<exists>s1 s2. alike s s1 \<and> ready s1 M \<and> appended s1 s2 fn \<and> alike s2 s' else alike s s')"
proof -
  from ts_try_insert_ok [OF assms(1-7)] obtain s1 ts1 where
    s1: "ts_try_insert k ts s = (Inr ts1, s1)" "ready s1 (ts_own ts + M)" and ts1: "ts1 = ts\<lparr>ts_slot := - 1\<rparr>" and l1: "alike s s1"
    unfolding assms(8) by auto
  have ob: "on_block l fn b ts1" and own: "ts_own ts1 = ts_own ts" and neg: "ts_slot ts1 < 0"
    using assms(2) by (simp_all add: ts1 on_block_def ts_own_def)
  have fn: "fn \<noteq> logFileName s" "fn \<noteq> []"
    using assms(1) by (simp_all add: table_wf_def)
  note at1 = alike_table [OF l1 fn] and w1 = table_wf_alike [OF l1 assms(1)]
  have b1: "b < file_blocks s1 fn"
    using assms(3) at1 by simp
  from ts_end_ok [OF table_wf_ok [OF w1] ob s1(2) b1] obtain s2 where
    s2: "ts_atEndOfBlock ts1 s1 = (Inr (Suc b = file_blocks s fn), s2)" "ready s2 (ts_own ts1 + M)" "alike s1 s2"
    unfolding at1 own by blast
  note l2 = alike_trans [OF l1 s2(3)]
  note at2 = alike_table [OF l2 fn] and w2 = table_wf_alike [OF l2 assms(1)]
  show ?thesis
  proof (cases "Suc b = file_blocks s fn")
    case True
    have log2: "loggable (blocksize s2) l fn" and k2: "num_slots (blocksize s2) l < k"
      using assms(6,7) at2 by simp_all
    from ts_moveToNewBlock_ok [OF w2 ob s2(2) log2 k2] obtain s3 ts3 t1 t2 where
      s3: "ts_moveToNewBlock k ts1 s2 = (Inr ts3, s3)" "ready s3 (ts_own ts3 + M)" "on_block l fn (Suc b) ts3" "ts_slot ts3 = - 1"
        "alike s2 t1" "ready t1 M" "appended t1 t2 fn" "alike t2 s3" unfolding at2 True by blast
    have "bnd (ts_try_insert k ts) (ts_insert_loop (Suc fuel) k) s = bnd (ts_try_insert k ts3) (ts_insert_loop fuel k) s3"
      using s1(1) s2(1) s3(1) neg True by (simp add: cmd_simps)
    with s3(2-4,6-8) alike_trans [OF l2 s3(5)] True show ?thesis by auto
  next
    case False
    then have b': "Suc b < file_blocks s fn" using assms(3) by simp
    have lf: "ts_layout ts1 = l" "ts_fileName ts1 = fn"
      using ob by (simp_all add: on_block_def)
    have "size M < length (pool s2)"
      using readyD(5) [OF s2(2)] on_block_own [OF ob] by simp
    from ts_moveTo_ok [of s2 ts1 M "Suc b" "- 1", unfolded lf, OF table_wf_ok [OF w2] s2(2) this] b' at2 obtain s3 where
      s3: "ts_moveTo (int (Suc b)) (- 1) ts1 s2 =
          (Inr (ts1\<lparr>ts_page := Some \<lparr>rp_blk = BlockId fn (int (Suc b)), rp_layout = l\<rparr>, ts_slot := - 1\<rparr>), s3)"
        "ready s3 (add_mset (BlockId fn (int (Suc b))) M)" "alike s2 s3" by auto
    let ?ts3 = "ts1\<lparr>ts_page := Some \<lparr>rp_blk = BlockId fn (int (Suc b)), rp_layout = l\<rparr>, ts_slot := - 1\<rparr>"
    have ob3: "on_block l fn (Suc b) ?ts3"
      using lf by (simp add: on_block_def)
    have "bnd (ts_try_insert k ts) (ts_insert_loop (Suc fuel) k) s = bnd (ts_try_insert k ?ts3) (ts_insert_loop fuel k) s3"
      using s1(1) s2(1) s3(1) neg False ob
      by (simp add: cmd_simps ts_recordPage_def on_block_def deref_def ts_moveToBlock_def add.commute)
    with s3(2) on_block_own [OF ob3] ob3 alike_trans [OF l2 s3(3)] False show ?thesis
      by (intro exI [of _ s3] exI [of _ ?ts3]) simp
  qed
qed

lemma ts_insert_from:
  assumes "table_wf s l fn" "on_block l fn b ts" "b < file_blocks s fn" "- 1 \<le> ts_slot ts" "ready s (ts_own ts + M)"
    "loggable (blocksize s) l fn" "0 < num_slots (blocksize s) l" "num_slots (blocksize s) l < k" "file_blocks s fn - b < fuel"
  shows "\<exists>s' ts' b' i. bnd (ts_try_insert k ts) (ts_insert_loop fuel k) s = (Inr ts', s') \<and> ready s' (ts_own ts' + M) \<and>
    at_slot s' l fn b' i ts' \<and> inserted s s' l fn b' i \<and>
    (ts_slot ts < int (num_slots (blocksize s) l) \<longrightarrow>
      prefix (rows_before s l fn b (nat (ts_slot ts + 1))) (rows_before s' l fn b' i))"
  using assms
proof (induction fuel arbitrary: s ts b)
  case 0
  then show ?case by simp
next
  case (Suc fuel)
  show ?case
  proof (cases "slots_with EMPTY (blocksize s) l (file_page s fn b) (nat (ts_slot ts + 1))")
    case (Cons j js)
    from ts_insert_here [OF Suc.prems(1-6,8) Cons, of fuel] show ?thesis by blast
  next
    case Nil
    from ts_insert_step [OF Suc.prems(1-6,8) Nil, of fuel] obtain s1 ts1 where
      s1: "bnd (ts_try_insert k ts) (ts_insert_loop (Suc fuel) k) s = bnd (ts_try_insert k ts1) (ts_insert_loop fuel k) s1"
        "ready s1 (ts_own ts1 + M)" "on_block l fn (Suc b) ts1" "ts_slot ts1 = - 1"
        "if Suc b = file_blocks s fn then \<exists>t1 t2. alike s t1 \<and> ready t1 M \<and> appended t1 t2 fn \<and> alike t2 s1 else alike s s1"
      by blast
    have f: "fuel \<noteq> 0" and slot1: "- 1 \<le> ts_slot ts1" and start: "nat (ts_slot ts1 + 1) = 0"
      using Suc.prems(3,9) s1(4) by simp_all
    have pre: "prefix (rows_before s l fn b (nat (ts_slot ts + 1))) (rows_before s l fn (Suc b) 0)"
      if "ts_slot ts < int (num_slots (blocksize s) l)"
      using rows_before_mono [of "nat (ts_slot ts + 1)" "num_slots (blocksize s) l" s l fn b] that by (simp add: rows_before_next)
    show ?thesis
    proof (cases "Suc b = file_blocks s fn")
      case True
      with s1(5) obtain t1 t2 where t: "alike s t1" "ready t1 M" "appended t1 t2 fn" "alike t2 s1" by auto
      note new = new_block_inserted [OF t(1,3,4) Suc.prems(1) t(2), folded True]
      have "0 \<le> blocksize s" "blocksize s < 2 ^ 31" "lay_ok l"
        using ready_bounds [OF Suc.prems(5)] Suc.prems(1) by (simp_all add: table_wf_def)
      then have "has_flag EMPTY l (file_page s1 fn (Suc b)) 0"
        using page_wf_new(2) [of l "blocksize s" 0] Suc.prems(7) new(4) by simp
      then obtain js where sl: "slots_with EMPTY (blocksize s1) l (file_page s1 fn (Suc b)) (nat (ts_slot ts1 + 1)) = 0 # js"
        using slots_with_Suc [of 0 "blocksize s1" l EMPTY "file_page s1 fn (Suc b)"] Suc.prems(7) s1(4) new(3) by simp
      obtain f' where f': "fuel = Suc f'"
        using f not0_implies_Suc by blast
      have n1: "Suc b < file_blocks s1 fn" and log1: "loggable (blocksize s1) l fn" and k1: "num_slots (blocksize s1) l < k"
        using Suc.prems(6,8) new(2,3) by simp_all
      from ts_insert_here [OF new(1) s1(3) n1 slot1 s1(2) log1 k1 sl, of f', folded f'] obtain s2 ts2 where
        s2: "bnd (ts_try_insert k ts1) (ts_insert_loop fuel k) s1 = (Inr ts2, s2)" "ready s2 (ts_own ts2 + M)"
          "at_slot s2 l fn (Suc b) 0 ts2" "inserted s1 s2 l fn (Suc b) 0" "file_blocks s2 fn = file_blocks s1 fn"
          "prefix (rows_before s1 l fn (Suc b) (nat (ts_slot ts1 + 1))) (rows_before s2 l fn (Suc b) 0)" by blast
      have "prefix (rows_before s l fn b (nat (ts_slot ts + 1))) (rows_before s2 l fn (Suc b) 0)"
        if "ts_slot ts < int (num_slots (blocksize s) l)"
        using prefix_order.trans [OF pre [OF that]] s2(6) new(6) by (simp add: start)
      with new(5) [OF s2(4,5) Suc.prems(7)] s1(1) s2(1-3) show ?thesis by (auto simp del: ts_insert_loop.simps)
    next
      case False
      then have l1: "alike s s1" and b': "Suc b < file_blocks s fn"
        using s1(5) Suc.prems(3) by simp_all
      have fn: "fn \<noteq> logFileName s" "fn \<noteq> []"
        using Suc.prems(1) by (simp_all add: table_wf_def)
      note at1 = alike_table [OF l1 fn] and w1 = table_wf_alike [OF l1 Suc.prems(1)]
      have fuel: "file_blocks s fn - Suc b < fuel"
        using Suc.prems(3,9) by simp
      from Suc.IH [OF w1 s1(3) _ slot1 s1(2), unfolded at1, OF b' Suc.prems(6-8) fuel] obtain s2 ts2 b2 i where
        s2: "bnd (ts_try_insert k ts1) (ts_insert_loop fuel k) s1 = (Inr ts2, s2)" "ready s2 (ts_own ts2 + M)"
          "at_slot s2 l fn b2 i ts2" "inserted s1 s2 l fn b2 i"
          "prefix (rows_before s1 l fn (Suc b) 0) (rows_before s2 l fn b2 i)" by (auto simp: s1(4))
      have "rows_before s1 l fn (Suc b) 0 = rows_before s l fn (Suc b) 0"
        by (simp add: rows_before_def at1)
      then have "prefix (rows_before s l fn b (nat (ts_slot ts + 1))) (rows_before s2 l fn b2 i)"
        if "ts_slot ts < int (num_slots (blocksize s) l)"
        using prefix_order.trans [OF pre [OF that]] s2(5) by simp
      with alike_inserted [OF l1 Suc.prems(1) s2(4)] s1(1) s2(1-3) show ?thesis by (auto simp del: ts_insert_loop.simps)
    qed
  qed
qed

text \<open>Inserting from the current slot on.\<close>

theorem ts_insert_onward:
  assumes "table_wf s l fn" "on_block l fn b ts" "b < file_blocks s fn" "- 1 \<le> ts_slot ts" "ready s (ts_own ts + M)"
    "loggable (blocksize s) l fn" "0 < num_slots (blocksize s) l" "num_slots (blocksize s) l < k" "file_blocks s fn < k"
  shows "\<exists>s' ts' b' i. ts_insert k ts s = (Inr ts', s') \<and> ready s' (ts_own ts' + M) \<and> at_slot s' l fn b' i ts' \<and> inserted s s' l fn b' i \<and>
    (ts_slot ts < int (num_slots (blocksize s) l) \<longrightarrow>
      prefix (rows_before s l fn b (nat (ts_slot ts + 1))) (rows_before s' l fn b' i))"
  unfolding ts_insert_def by (rule ts_insert_from [OF assms(1-8)]) (use assms(9) in simp)

theorem ts_insert_ok:
  assumes "table_wf s l fn" "on_block l fn b ts" "b < file_blocks s fn" "- 1 \<le> ts_slot ts" "ready s (ts_own ts + M)"
    "loggable (blocksize s) l fn" "0 < num_slots (blocksize s) l" "num_slots (blocksize s) l < k" "file_blocks s fn < k"
  shows "\<exists>s' ts' b' i. ts_insert k ts s = (Inr ts', s') \<and> ready s' (ts_own ts' + M) \<and> at_slot s' l fn b' i ts' \<and> inserted s s' l fn b' i"
  using ts_insert_onward [OF assms] by blast


text \<open>No slot fits into a block: every iteration reaches a new block, and from the last one on appends one.\<close>

lemma ts_insert_diverges:
  assumes "table_wf s l fn" "on_block l fn b ts" "b < file_blocks s fn" "- 1 \<le> ts_slot ts" "ready s (ts_own ts + M)"
    "loggable (blocksize s) l fn" "num_slots (blocksize s) l = 0" "0 < k"
  shows "\<exists>s'. bnd (ts_try_insert k ts) (ts_insert_loop fuel k) s = (Inl OutOfFuel, s') \<and>
    file_blocks s' fn = max (file_blocks s fn) (Suc b + fuel)"
  using assms
proof (induction fuel arbitrary: s ts b)
  case (0 s ts b)
  note p = 0
  have fn: "fn \<noteq> logFileName s" "fn \<noteq> []" and none: "slots_with EMPTY (blocksize s) l (file_page s fn b) (nat (ts_slot ts + 1)) = []"
    using p(1,7) by (simp_all add: table_wf_def slots_with_def)
  from ts_try_insert_ok [OF p(1-6), of k, unfolded none] p(7,8) obtain s1 ts1 where
    "ts_try_insert k ts s = (Inr ts1, s1)" "alike s s1" by auto
  with alike_table(1) [OF this(2) fn] p(3) show ?case
    by (intro exI [of _ s1]) (simp add: cmd_simps)
next
  case (Suc fuel)
  have none: "slots_with EMPTY (blocksize s) l (file_page s fn b) (nat (ts_slot ts + 1)) = []" and k: "num_slots (blocksize s) l < k"
    using Suc.prems(7,8) by (simp_all add: slots_with_def)
  from ts_insert_step [OF Suc.prems(1-6) k none, of fuel] obtain s1 ts1 where
    s1: "bnd (ts_try_insert k ts) (ts_insert_loop (Suc fuel) k) s = bnd (ts_try_insert k ts1) (ts_insert_loop fuel k) s1"
      "ready s1 (ts_own ts1 + M)" "on_block l fn (Suc b) ts1" "ts_slot ts1 = - 1"
      "if Suc b = file_blocks s fn then \<exists>t1 t2. alike s t1 \<and> ready t1 M \<and> appended t1 t2 fn \<and> alike t2 s1 else alike s s1"
    by blast
  have "table_wf s1 l fn \<and> blocksize s1 = blocksize s \<and> Suc b < file_blocks s1 fn \<and>
    max (file_blocks s1 fn) (Suc (Suc b) + fuel) = max (file_blocks s fn) (Suc b + Suc fuel)"
  proof (cases "Suc b = file_blocks s fn")
    case True
    with s1(5) obtain t1 t2 where t: "alike s t1" "ready t1 M" "appended t1 t2 fn" "alike t2 s1" by auto
    from new_block_inserted(1-3) [OF t(1,3,4) Suc.prems(1) t(2)] True show ?thesis by simp
  next
    case False
    then have "alike s s1"
      using s1(5) by simp
    with table_wf_alike [OF this Suc.prems(1)] alike_table [OF this] Suc.prems(1,3) False show ?thesis
      by (auto simp: table_wf_def)
  qed
  then have w: "table_wf s1 l fn" "blocksize s1 = blocksize s" "Suc b < file_blocks s1 fn"
    and m: "max (file_blocks s1 fn) (Suc (Suc b) + fuel) = max (file_blocks s fn) (Suc b + Suc fuel)" by simp_all
  have slot1: "- 1 \<le> ts_slot ts1"
    by (simp add: s1(4))
  from Suc.IH [OF w(1) s1(3) w(3) slot1 s1(2), unfolded w(2), OF Suc.prems(6-8)] show ?case
    unfolding s1(1) m .
qed

end
