(* ===== verification/Updates.thy ===== *)
theory Updates
  imports Planning Algebra TableWrites
begin

text \<open>
  What the statements that change a table do to its rows: a delete takes out the rows that
  satisfy its condition, a modification changes one field of them, an insert adds a row.
\<close>

section \<open>The scan of a table through the virtual calls\<close>

fun tab_own :: "scan \<Rightarrow> block_id multiset" where
  "tab_own (TableS ts) = ts_own ts"
| "tab_own c = {#}"

definition tab_rest ::
  "nat \<Rightarrow> layout \<Rightarrow> string \<Rightarrow> 'a tx_scheme \<Rightarrow> scan \<Rightarrow> string set \<Rightarrow> row list \<Rightarrow> nat option \<Rightarrow> bool" where
  "tab_rest k l fn s c F rows p \<longleftrightarrow> (\<exists>ts. c = TableS ts \<and> ts_rest k l fn s ts F rows p)"

interpretation tab: cursor alike "vt k (Suc d)" ready tab_own "tab_rest k l fn" for k d l fn
proof (unfold_locales, goal_cases)
  case (1 s c F rows p s')
  then show ?case unfolding tab_rest_def using rest.stable by blast
next
  case (2 s c F rows p r)
  then show ?case unfolding tab_rest_def using rest.rows_dom by blast
next
  case (3 s c F rows j)
  then show ?case unfolding tab_rest_def using rest.within by blast
next
  case (4 s c F rows j M)
  then obtain ts where ts: "c = TableS ts" "ts_rest k l fn s ts F rows (Some j)" "ready s (ts_own ts + M)"
    by (auto simp: tab_rest_def)
  from rest.next_row [OF ts(2,3)] obtain s' ts' where
    "op_next (ts_ops k) ts s = (Inr (j < length rows, ts'), s')" "ready s' (ts_own ts' + M)" "alike s s'"
      "ts_rest k l fn s' ts' F rows (if j < length rows then Some (Suc j) else None)" by blast
  then show ?case
    by (intro exI [of _ s'] exI [of _ "TableS ts'"]) (simp add: ts(1) tab_rest_def vt_next_def wrap2_def cmd_simps ts_ops_def)
next
  case (5 s c F rows j M f v)
  then obtain ts where ts: "c = TableS ts" "ts_rest k l fn s ts F rows (Some (Suc j))" "ready s (ts_own ts + M)"
    by (auto simp: tab_rest_def)
  from rest.const_value [OF ts(2,3) 5(3)] show ?case
    by (simp add: ts(1) vt_getValue_def ts_ops_def)
qed

text \<open>
  A selection over a table that has seen the rows \<open>pre\<close> and has the rows \<open>rest\<close> before it.
\<close>

definition sel_at :: "nat \<Rightarrow> layout \<Rightarrow> string \<Rightarrow> pred \<Rightarrow> 'a tx_scheme \<Rightarrow> tscan \<Rightarrow> row list \<Rightarrow> row list \<Rightarrow> bool" where
  "sel_at k l fn pr s ts pre rest \<longleftrightarrow> ts_rest k l fn s ts (lay_fields l) rest (Some 0) \<and> table_wf s l fn \<and>
     table_rows s l fn = pre @ rest \<and> (\<forall>r \<in> set rest. \<forall>t \<in> set pr. tm_typed r t) \<and> length rest < k"

definition sel_tab :: "pred \<Rightarrow> tscan \<Rightarrow> scan" where
  "sel_tab pr ts = SelectS (SelectScan (TableS ts) pr)"

text \<open>On a row of the table.\<close>

definition on_row :: "'a tx_scheme \<Rightarrow> layout \<Rightarrow> string \<Rightarrow> nat \<Rightarrow> nat \<Rightarrow> tscan \<Rightarrow> row list \<Rightarrow> row \<Rightarrow> row list \<Rightarrow> bool" where
  "on_row s l fn b i ts pre r post \<longleftrightarrow> at_slot s l fn b i ts \<and> table_wf s l fn \<and> slot_used s l fn b i \<and> slot_row s l fn b i = r \<and>
     rows_before s l fn b i = pre \<and> rows_after s l fn b (Suc i) = post"

lemma rest_on_row:
  assumes "ts_rest k l fn s ts F rows (Some (Suc j))" "table_wf s l fn" "table_rows s l fn = pre @ rows"
  obtains b i where "on_row s l fn b i ts (pre @ take j rows) (rows ! j) (drop (Suc j) rows)"
proof -
  obtain b where b: "on_block l fn b ts" "b < file_blocks s fn"
    and p: "Suc j \<le> length rows" "0 \<le> ts_slot ts" "nat (ts_slot ts) \<in> set (slots_with USED (blocksize s) l (file_page s fn b) 0)"
      "rows ! j = page_row l (file_page s fn b) (nat (ts_slot ts))"
      "drop (Suc j) rows = page_rows (blocksize s) l (file_page s fn b) (nat (ts_slot ts + 1)) @ rows_from s l fn (Suc b)"
    by (rule ts_restD [OF assms(1)]) auto
  obtain i where i: "ts_slot ts = int i"
    using p(2) nonneg_int_cases by blast
  have used: "i < num_slots (blocksize s) l" "slot_used s l fn b i"
    using p(3) by (simp_all add: i set_slots_with slot_used_def)
  have row: "slot_row s l fn b i = rows ! j"
    using p(4) by (simp add: i slot_row_def)
  have after: "rows_after s l fn b (Suc i) = drop (Suc j) rows"
    using p(5) by (simp add: i rows_after_def nat_add_distrib)
  have "rows = take j rows @ rows ! j # drop (Suc j) rows"
    using p(1) by (simp add: id_take_nth_drop)
  then have "pre @ take j rows @ rows ! j # drop (Suc j) rows = rows_before s l fn b i @ rows ! j # drop (Suc j) rows"
    using table_rows_split [OF b(2) less_imp_le [OF used(1)]] assms(3) used rows_after_Suc [OF used(1)] row after by simp
  then have "rows_before s l fn b i = pre @ take j rows"
    by simp
  with that b i used row after assms(2) show thesis
    by (simp add: on_row_def at_slot_def)
qed

text \<open>From a row, the scan goes on with the rows after it, whatever the row has become.\<close>

lemma row_resume:
  assumes "on_row s l fn b i ts pre r post" "slot_set s s' l fn b i u r'" "file_blocks s fn < k" "num_slots (blocksize s) l < k"
  shows "ts_rest k l fn s' ts (lay_fields l) post (Some 0)" "table_rows s' l fn = pre @ (if u then [r'] else []) @ post"
    "table_wf s' l fn"
proof -
  have s': "table_wf s' l fn" "blocksize s' = blocksize s" "file_blocks s' fn = file_blocks s fn"
    "rows_before s' l fn b i = pre" "rows_after s' l fn b (Suc i) = post" "slot_used s' l fn b i = u" "slot_row s' l fn b i = r'"
    using assms(1,2) by (simp_all add: on_row_def slot_set_def changed_def)
  have at: "on_block l fn b ts" "ts_slot ts = int i" "b < file_blocks s' fn" "i < num_slots (blocksize s') l"
    using assms(1) by (simp_all add: on_row_def at_slot_def s')
  show "table_wf s' l fn"
    by (rule s'(1))
  show rows: "table_rows s' l fn = pre @ (if u then [r'] else []) @ post"
    using table_rows_split [OF at(3) less_imp_le [OF at(4)]] rows_after_Suc [OF at(4)] s' by simp
  have "\<forall>r \<in> set post. dom r = lay_fields l"
    using table_rows_dom [OF table_wf_ok [OF s'(1)]] by (auto simp: rows)
  moreover have "post = page_rows (blocksize s') l (file_page s' fn b) (nat (ts_slot ts + 1)) @ rows_from s' l fn (Suc b)"
    using s'(5) at(2) by (simp add: rows_after_def nat_add_distrib)
  ultimately show "ts_rest k l fn s' ts (lay_fields l) post (Some 0)"
    using assms(3,4) s'(2,3) at by (intro ts_restI [OF table_wf_ok [OF s'(1)] at(1,3)]) simp_all
qed

lemma sel_at_next:
  assumes "sel_at k l fn pr s ts pre rest" "ready s (ts_own ts + M)"
  shows "\<exists>s' ts' found. op_next (vt k (Suc (Suc d))) (sel_tab pr ts) s = (Inr (found, sel_tab pr ts'), s') \<and>
    ready s' (ts_own ts' + M) \<and> alike s s' \<and>
    (if found then \<exists>skip r rest' b i. rest = skip @ r # rest' \<and> filter (\<lambda>r. pr_holds r pr) skip = [] \<and> pr_holds r pr \<and>
       on_row s' l fn b i ts' (pre @ skip) r rest' \<and> ts_rest k l fn s' ts' (lay_fields l) rest (Some (Suc (length skip)))
     else filter (\<lambda>r. pr_holds r pr) rest = [])"
proof -
  let ?P = "\<lambda>r. pr_holds r pr"
  have a: "tab_rest k l fn s (TableS ts) (lay_fields l) rest (Some 0)" "table_wf s l fn" "table_rows s l fn = pre @ rest"
    "\<forall>r \<in> set rest. \<forall>t \<in> set pr. tm_typed r t" "length rest - 0 < k"
    using assms(1) by (simp_all add: sel_at_def tab_rest_def)
  have "ready s (tab_own (TableS ts) + M)"
    using assms(2) by simp
  from tab.select_next_loop [OF a(1) this a(4,5), of d] obtain s' c' found p where
    s': "sel_next_loop k (vt k (Suc d)) pr (TableS ts) s = (Inr (found, c'), s')" "ready s' (tab_own c' + M)" "alike s s'"
      "tab_rest k l fn s' c' (lay_fields l) rest p"
      "if found then \<exists>j. p = Some (Suc j) \<and> 0 \<le> j \<and> j < length rest \<and> ?P (rest ! j) \<and>
         filter ?P (take j rest) = filter ?P (take 0 rest)
       else p = None \<and> filter ?P (drop 0 rest) = []" by blast
  obtain ts' where ts': "c' = TableS ts'" "ts_rest k l fn s' ts' (lay_fields l) rest p"
    using s'(4) by (auto simp: tab_rest_def)
  have eq: "op_next (vt k (Suc (Suc d))) (sel_tab pr ts) s = (Inr (found, sel_tab pr ts'), s')"
    using s'(1) ts'(1) by (simp add: sel_tab_def vt_next_def wrap2_def cmd_simps sel_ops_def sel_next_def)
  have "if found then \<exists>skip r rest' b i. rest = skip @ r # rest' \<and> filter ?P skip = [] \<and> ?P r \<and>
       on_row s' l fn b i ts' (pre @ skip) r rest' \<and> ts_rest k l fn s' ts' (lay_fields l) rest (Some (Suc (length skip)))
     else filter ?P rest = []"
  proof (cases found)
    case False
    with s'(5) show ?thesis by simp
  next
    case True
    with s'(5) obtain j where j: "p = Some (Suc j)" "j < length rest" "?P (rest ! j)" "filter ?P (take j rest) = []"
      by auto
    have wf: "table_wf s' l fn"
      by (rule table_wf_alike [OF s'(3) a(2)])
    have "table_rows s' l fn = pre @ rest"
      using alike_table(4) [OF s'(3)] a(2,3) by (simp add: table_wf_def)
    from rest_on_row [OF ts'(2) [unfolded j(1)] wf this] obtain b i where
      "on_row s' l fn b i ts' (pre @ take j rest) (rest ! j) (drop (Suc j) rest)" .
    moreover have "rest = take j rest @ rest ! j # drop (Suc j) rest" "length (take j rest) = j"
      using j(2) id_take_nth_drop [OF j(2)] by simp_all
    ultimately have "\<exists>skip r rest' b i. rest = skip @ r # rest' \<and> filter ?P skip = [] \<and> ?P r \<and>
        on_row s' l fn b i ts' (pre @ skip) r rest' \<and> ts_rest k l fn s' ts' (lay_fields l) rest (Some (Suc (length skip)))"
      using j(3,4) ts'(2) unfolding j(1) by metis
    with True show ?thesis by simp
  qed
  with eq s'(2,3) ts'(1) show ?thesis
    by (intro exI [of _ s'] exI [of _ ts'] exI [of _ found]) simp
qed


lemma sel_tab_ops:
  "op_remove (vt k (Suc (Suc d))) (sel_tab pr ts) = ts_remove ts" "op_getRid (vt k (Suc (Suc d))) (sel_tab pr ts) = ts_getRid ts"
  "op_setValue (vt k (Suc (Suc d))) f v (sel_tab pr ts) = ts_setValue f v ts"
  "op_getValue (vt k (Suc (Suc d))) f (sel_tab pr ts) = ts_getValue f ts"
  "op_close (vt k (Suc (Suc d))) (sel_tab pr ts) = ts_close ts"
  by (simp_all add: sel_tab_def vt_remove_def vt_getRid_def vt_setValue_def vt_getValue_def vt_close_def vt_update_def sel_ops_def
      sel_remove_def sel_getRid_def sel_setValue_def sel_getValue_def sel_close_def ts_ops_def)

lemma row_getRid:
  assumes "at_slot s l fn b i ts"
  shows "ts_getRid ts s = (Inr \<lparr>rid_block = int b, rid_slot = int i\<rparr>, s)"
  using assms by (simp add: at_slot_def on_block_def ts_getRid_def ts_recordPage_def deref_def cmd_simps)

lemma sel_at_fuel: "sel_at k l fn pr s ts pre rest \<Longrightarrow> file_blocks s fn < k \<and> num_slots (blocksize s) l < k"
  by (auto simp: sel_at_def ts_rest_def)

text \<open>After a change of the current row the selection has one row more behind it, or the same if it was removed.\<close>

lemma sel_at_resume:
  assumes "sel_at k l fn pr s ts pre (skip @ r # rest)" "alike s s1" "on_row s1 l fn b i ts1 (pre @ skip) r rest"
    "slot_set s1 s2 l fn b i u r'"
  shows "sel_at k l fn pr s2 ts1 (pre @ skip @ (if u then [r'] else [])) rest" "changed s s2 fn" "blocksize s2 = blocksize s"
proof -
  have fn: "fn \<noteq> logFileName s" "fn \<noteq> []"
    using assms(1) by (simp_all add: sel_at_def table_wf_def)
  note a1 = alike_table [OF assms(2) fn]
  have "file_blocks s1 fn < k" "num_slots (blocksize s1) l < k"
    using sel_at_fuel [OF assms(1)] by (simp_all add: a1)
  from row_resume [OF assms(3,4) this] assms(1) show "sel_at k l fn pr s2 ts1 (pre @ skip @ (if u then [r'] else [])) rest"
    by (simp add: sel_at_def)
  show ch: "changed s s2 fn"
    using changed_trans [OF alike_changed [OF assms(2)]] assms(4) by (simp add: slot_set_def)
  show "blocksize s2 = blocksize s"
    using ch by (simp add: changed_def)
qed

lemma sel_at_end:
  assumes "sel_at k l fn pr s ts pre rest" "alike s s1"
  shows "changed s s1 fn" "table_wf s1 l fn" "table_rows s1 l fn = pre @ rest"
  using assms alike_table(4) [OF assms(2), of fn l] table_wf_alike [OF assms(2), of l fn] alike_changed [OF assms(2)]
  by (simp_all add: sel_at_def table_wf_def)

section \<open>Deletion\<close>

lemma delete_loop:
  assumes "sel_at k l fn pr s ts pre rest" "ready s (ts_own ts + M)" "loggable (blocksize s) l fn" "length rest < fuel"
  shows "\<exists>s' ts'. bp_delete_loop fuel (vt k (Suc (Suc d))) cnt (sel_tab pr ts) s =
      (Inr (cnt + int (length (filter (\<lambda>r. pr_holds r pr) rest)), sel_tab pr ts'), s') \<and>
    iup_delete_loop fuel k (vt k (Suc (Suc d))) [] cnt (sel_tab pr ts) s =
      (Inr (cnt + int (length (filter (\<lambda>r. pr_holds r pr) rest)), sel_tab pr ts'), s') \<and>
    ready s' (ts_own ts' + M) \<and> changed s s' fn \<and> table_wf s' l fn \<and>
    table_rows s' l fn = pre @ filter (\<lambda>r. \<not> pr_holds r pr) rest"
  using assms
proof (induction fuel arbitrary: s ts pre rest cnt)
  case 0
  then show ?case by simp
next
  case (Suc fuel)
  let ?P = "\<lambda>r. pr_holds r pr" and ?v = "vt k (Suc (Suc d))"
  from sel_at_next [OF Suc.prems(1,2), of d] obtain s1 ts1 found where
    s1: "op_next ?v (sel_tab pr ts) s = (Inr (found, sel_tab pr ts1), s1)" "ready s1 (ts_own ts1 + M)" "alike s s1"
      "if found then \<exists>skip r rest' b i. rest = skip @ r # rest' \<and> filter ?P skip = [] \<and> ?P r \<and>
         on_row s1 l fn b i ts1 (pre @ skip) r rest' \<and> ts_rest k l fn s1 ts1 (lay_fields l) rest (Some (Suc (length skip)))
       else filter ?P rest = []" by blast
  show ?case
  proof (cases found)
    case False
    with s1(4) have "filter ?P rest = []" "filter (\<lambda>r. \<not> ?P r) rest = rest"
      by (auto simp: filter_empty_conv)
    with False s1(1,2) sel_at_end [OF Suc.prems(1) s1(3)] show ?thesis
      by (intro exI [of _ s1] exI [of _ ts1]) (simp add: cmd_simps del: vt.simps)
  next
    case True
    with s1(4) obtain skip r rest' b i where r: "rest = skip @ r # rest'" "filter ?P skip = []" "?P r"
      "on_row s1 l fn b i ts1 (pre @ skip) r rest'" by auto
    have at1: "at_slot s1 l fn b i ts1" and w1: "table_wf s1 l fn"
      using r(4) by (simp_all add: on_row_def)
    have log1: "loggable (blocksize s1) l fn"
      using Suc.prems(3) s1(3) by (simp add: alike_def)
    from ts_remove_ok [OF at1 w1 s1(2) log1] obtain s2 where
      s2: "ts_remove ts1 s1 = (Inr (), s2)" "ready s2 (ts_own ts1 + M)" "slot_set s1 s2 l fn b i False (slot_row s1 l fn b i)" by blast
    note go = sel_at_resume [OF Suc.prems(1) [unfolded r(1)] s1(3) r(4) s2(3), simplified]
    have log2: "loggable (blocksize s2) l fn" and fuel: "length rest' < fuel"
      using Suc.prems(3,4) go(3) r(1) by simp_all
    from Suc.IH [OF go(1) s2(2) log2 fuel, of "cnt + 1"] obtain s3 ts3 where
      s3: "bp_delete_loop fuel ?v (cnt + 1) (sel_tab pr ts1) s2 = (Inr (cnt + 1 + int (length (filter ?P rest')), sel_tab pr ts3), s3)"
        "iup_delete_loop fuel k ?v [] (cnt + 1) (sel_tab pr ts1) s2 = (Inr (cnt + 1 + int (length (filter ?P rest')), sel_tab pr ts3), s3)"
        "ready s3 (ts_own ts3 + M)" "changed s2 s3 fn" "table_wf s3 l fn"
        "table_rows s3 l fn = (pre @ skip) @ filter (\<lambda>r. \<not> ?P r) rest'" by blast
    have skip: "filter (\<lambda>r. \<not> ?P r) skip = skip"
      using r(2) by (auto simp: filter_empty_conv)
    have n: "cnt + int (length (filter ?P rest)) = cnt + 1 + int (length (filter ?P rest'))"
      using r(1-3) by simp
    have "bp_delete_loop (Suc fuel) ?v cnt (sel_tab pr ts) s = (Inr (cnt + int (length (filter ?P rest)), sel_tab pr ts3), s3)"
      using s1(1) s2(1) s3(1) True by (simp add: n cmd_simps sel_tab_ops del: vt.simps)
    moreover have "iup_delete_loop (Suc fuel) k ?v [] cnt (sel_tab pr ts) s = (Inr (cnt + int (length (filter ?P rest)), sel_tab pr ts3), s3)"
      using s1(1) s2(1) s3(2) True by (simp add: n cmd_simps sel_tab_ops row_getRid [OF at1] del: vt.simps)
    moreover have "table_rows s3 l fn = pre @ filter (\<lambda>r. \<not> ?P r) rest"
      using s3(6) skip r(1,3) by simp
    ultimately show ?thesis
      using s3(3,5) changed_trans [OF go(2) s3(4)] by blast
  qed
qed

text \<open>Opening the selection over a table.\<close>

lemma open_selection:
  fixes s :: "'a tmp_scheme"
  assumes "ready s M" "size M < length (pool s)" "table_wf s l (table_file n)" "file_blocks s (table_file n) < k"
    "num_slots (blocksize s) l < k" "length (table_rows s l (table_file n)) < k"
    "\<forall>r \<in> set (table_rows s l (table_file n)). \<forall>t \<in> set pr. tm_typed r t"
  shows "\<exists>s' ts. pl_open k d (SelectPlan (TablePlan n l si) pr) s = (Inr (sel_tab pr ts), s') \<and> ready s' (ts_own ts + M) \<and>
    alike s s' \<and> sel_at k l (table_file n) pr s' ts [] (table_rows s l (table_file n))"
proof -
  have "pl_ok k s (TablePlan n l si)"
    using table_wf_ok [OF assms(3)] assms(4,5) by simp
  from ts_new_ok [OF this assms(1,2)] obtain s' ts where
    s': "ts_new k n l s = (Inr ts, s')" "ready s' (ts_own ts + M)" "alike s s'" "on_block l (table_file n) 0 ts" "ts_slot ts = - 1"
    by blast
  have fn: "table_file n \<noteq> logFileName s" "table_file n \<noteq> []"
    using assms(3) by (simp_all add: table_wf_def)
  note a = alike_table [OF s'(3) fn] and wf = table_wf_alike [OF s'(3) assms(3)]
  have "ts_rest k l (table_file n) s' ts (lay_fields l) (table_rows s' l (table_file n)) (Some 0)"
    by (rule ts_at_start [OF table_wf_ok [OF wf] s'(4,5)]) (simp_all add: a assms(4,5))
  with wf assms(6,7) have "sel_at k l (table_file n) pr s' ts [] (table_rows s l (table_file n))"
    by (simp add: sel_at_def a)
  with s'(1-3) show ?thesis
    by (intro exI [of _ s'] exI [of _ ts]) (simp add: wrap_def cmd_simps sel_tab_def)
qed


section \<open>Modification\<close>

lemma on_row_alike:
  assumes "on_row s l fn b i ts pre r post" "alike s s'"
  shows "on_row s' l fn b i ts pre r post"
proof -
  have wf: "table_wf s l fn"
    using assms(1) by (simp add: on_row_def)
  note a = alike_slot [OF assms(2) wf, of b i]
  show ?thesis
    using assms(1) a at_slot_set [OF _ a] by (simp add: on_row_def slot_set_def)
qed

text \<open>Reading the new value and the old one at a row.\<close>

lemma row_evaluate:
  assumes "ts_rest k l fn s ts F rows (Some (Suc j))" "ready s (ts_own ts + M)" "ex_val (rows ! j) e = Some v"
  shows "\<exists>s'. ex_evaluate (\<lambda>f. ts_getValue f ts) e s = (Inr (const_of v), s') \<and> ready s' (ts_own ts + M) \<and> alike s s'"
proof -
  have op: "op_getValue (ts_ops k) = ts_getValue"
    by (simp add: ts_ops_def)
  from ex_evaluate_row [OF rest.reads_current [OF assms(1), of M] _ assms(3), of s] assms(2) show ?thesis
    unfolding op by auto
qed

definition modified :: "pred \<Rightarrow> string \<Rightarrow> expr \<Rightarrow> row \<Rightarrow> row" where
  "modified pr f e r = (if pr_holds r pr then r(f \<mapsto> the (ex_val r e)) else r)"

lemma modify_loop:
  assumes "sel_at k l fn pr s ts pre rest" "ready s (ts_own ts + M)" "loggable (blocksize s) l fn" "length rest < fuel"
    "\<forall>r \<in> set rest. pr_holds r pr \<longrightarrow> (\<exists>v. ex_val r e = Some v \<and> field_val l f v)"
  shows "\<exists>s' ts'. iup_modify_loop fuel k (vt k (Suc (Suc d))) e f None cnt (sel_tab pr ts) s =
      (Inr (cnt + int (length (filter (\<lambda>r. pr_holds r pr) rest)), None, sel_tab pr ts'), s') \<and>
    ready s' (ts_own ts' + M) \<and> changed s s' fn \<and> table_wf s' l fn \<and> table_rows s' l fn = pre @ map (modified pr f e) rest"
  using assms
proof (induction fuel arbitrary: s ts pre rest cnt)
  case 0
  then show ?case by simp
next
  case (Suc fuel)
  let ?P = "\<lambda>r. pr_holds r pr" and ?v = "vt k (Suc (Suc d))"
  from sel_at_next [OF Suc.prems(1,2), of d] obtain s1 ts1 found where
    s1: "op_next ?v (sel_tab pr ts) s = (Inr (found, sel_tab pr ts1), s1)" "ready s1 (ts_own ts1 + M)" "alike s s1"
      "if found then \<exists>skip r rest' b i. rest = skip @ r # rest' \<and> filter ?P skip = [] \<and> ?P r \<and>
         on_row s1 l fn b i ts1 (pre @ skip) r rest' \<and> ts_rest k l fn s1 ts1 (lay_fields l) rest (Some (Suc (length skip)))
       else filter ?P rest = []" by blast
  show ?case
  proof (cases found)
    case False
    with s1(4) have "filter ?P rest = []" "map (modified pr f e) rest = rest"
      by (auto simp: filter_empty_conv modified_def intro: map_idI)
    with False s1(1,2) sel_at_end [OF Suc.prems(1) s1(3)] show ?thesis
      by (intro exI [of _ s1] exI [of _ ts1]) (simp add: cmd_simps del: vt.simps)
  next
    case True
    with s1(4) obtain skip r rest' b i where r: "rest = skip @ r # rest'" "filter ?P skip = []" "?P r"
      "on_row s1 l fn b i ts1 (pre @ skip) r rest'" "ts_rest k l fn s1 ts1 (lay_fields l) rest (Some (Suc (length skip)))" by auto
    have nth: "rest ! length skip = r"
      by (simp add: r(1))
    obtain v where v: "ex_val r e = Some v" "field_val l f v"
      using Suc.prems(5) r(1,3) by auto
    from row_evaluate [OF r(5) s1(2), of e v] v(1) obtain s2 where
      s2: "ex_evaluate (\<lambda>f. ts_getValue f ts1) e s1 = (Inr (const_of v), s2)" "ready s2 (ts_own ts1 + M)" "alike s1 s2"
      unfolding nth by blast
    note rest2 = ts_rest_alike(1) [OF r(5) s2(3)]
    obtain w where w: "(rest ! length skip) f = Some w"
      using rest.current_row [OF rest2] field_val_field [OF v(2)] by blast
    from ts_getValue_ok [OF rest2 s2(2) w] obtain s3 where
      s3: "ts_getValue f ts1 s2 = (Inr (const_of w), s3)" "ready s3 (ts_own ts1 + M)" "alike s2 s3" by blast
    note l3 = alike_trans [OF s2(3) s3(3)]
    note row3 = on_row_alike [OF r(4) l3] and m3 = alike_trans [OF s1(3) l3]
    have at3: "at_slot s3 l fn b i ts1" and w3: "table_wf s3 l fn" and used3: "slot_used s3 l fn b i" "slot_row s3 l fn b i = r"
      using row3 by (simp_all add: on_row_def)
    have log3: "loggable (blocksize s3) l fn"
      using Suc.prems(3) m3 by (simp add: alike_def)
    from ts_setValue_ok [OF at3 w3 s3(2) log3 v(2)] obtain s4 where
      s4: "ts_setValue f (const_of v) ts1 s3 = (Inr (), s4)" "ready s4 (ts_own ts1 + M)" "slot_set s3 s4 l fn b i True (r(f \<mapsto> v))"
      unfolding used3 using used3(1) by auto
    note go = sel_at_resume [OF Suc.prems(1) [unfolded r(1)] m3 row3 s4(3), simplified]
    have log4: "loggable (blocksize s4) l fn" and fuel: "length rest' < fuel"
      and vals: "\<forall>r \<in> set rest'. pr_holds r pr \<longrightarrow> (\<exists>v. ex_val r e = Some v \<and> field_val l f v)"
      using Suc.prems(3-5) go(3) r(1) by simp_all
    from Suc.IH [OF go(1) s4(2) log4 fuel vals, of "cnt + 1"] obtain s5 ts5 where
      s5: "iup_modify_loop fuel k ?v e f None (cnt + 1) (sel_tab pr ts1) s4 =
          (Inr (cnt + 1 + int (length (filter ?P rest')), None, sel_tab pr ts5), s5)"
        "ready s5 (ts_own ts5 + M)" "changed s4 s5 fn" "table_wf s5 l fn"
        "table_rows s5 l fn = (pre @ skip @ [r(f \<mapsto> v)]) @ map (modified pr f e) rest'" by blast
    have skip: "map (modified pr f e) skip = skip"
      using r(2) by (auto simp: filter_empty_conv modified_def intro: map_idI)
    have n: "cnt + int (length (filter ?P rest)) = cnt + 1 + int (length (filter ?P rest'))"
      using r(1-3) by simp
    have "iup_modify_loop (Suc fuel) k ?v e f None cnt (sel_tab pr ts) s =
        (Inr (cnt + int (length (filter ?P rest)), None, sel_tab pr ts5), s5)"
      using s1(1) s2(1) s3(1) s4(1) s5(1) True by (simp add: n cmd_simps sel_tab_ops del: vt.simps)
    moreover have "table_rows s5 l fn = pre @ map (modified pr f e) rest"
      using s5(5) skip r(1,3) v(1) by (simp add: modified_def)
    ultimately show ?thesis
      using s5(2,4) changed_trans [OF go(2) s5(3)] by blast
  qed
qed

section \<open>Statements\<close>

text \<open>A table that can be changed, and the fuel that its loops need.\<close>

definition updatable :: "nat \<Rightarrow> layout \<Rightarrow> string \<Rightarrow> 'a bm_scheme \<Rightarrow> bool" where
  "updatable k l n s \<longleftrightarrow> table_wf s l (table_file n) \<and> loggable (blocksize s) l (table_file n) \<and>
     file_blocks s (table_file n) < k \<and> num_slots (blocksize s) l < k \<and> length (table_rows s l (table_file n)) < k"

lemma open_updatable:
  fixes s :: "'a tmp_scheme"
  assumes "ready s M" "size M < length (pool s)" "updatable k l n s"
    "\<forall>r \<in> set (table_rows s l (table_file n)). \<forall>t \<in> set pr. tm_typed r t"
  shows "\<exists>s' ts. pl_open k d (SelectPlan (TablePlan n l si) pr) s = (Inr (sel_tab pr ts), s') \<and> ready s' (ts_own ts + M) \<and>
    changed s s' (table_file n) \<and> sel_at k l (table_file n) pr s' ts [] (table_rows s l (table_file n)) \<and>
    loggable (blocksize s') l (table_file n)"
proof -
  have "table_wf s l (table_file n)" "file_blocks s (table_file n) < k" "num_slots (blocksize s) l < k"
    "length (table_rows s l (table_file n)) < k" "loggable (blocksize s) l (table_file n)"
    using assms(3) by (simp_all add: updatable_def)
  then obtain s' ts where
    s': "pl_open k d (SelectPlan (TablePlan n l si) pr) s = (Inr (sel_tab pr ts), s')" "ready s' (ts_own ts + M)" "alike s s'"
      "sel_at k l (table_file n) pr s' ts [] (table_rows s l (table_file n))" "loggable (blocksize s) l (table_file n)"
    using open_selection [OF assms(1,2) _ _ _ _ assms(4), of k d si] by blast
  then show ?thesis
    using alike_changed [OF s'(3)] by (intro exI [of _ s'] exI [of _ ts]) (simp add: alike_def)
qed

lemma delete_ok:
  fixes s :: "'a tmp_scheme"
  assumes "ready s M" "size M < length (pool s)" "updatable k l n s" "2 \<le> d"
    and "\<forall>r \<in> set (table_rows s l (table_file n)). \<forall>t \<in> set pr. tm_typed r t"
  shows "\<exists>s'. bup_delete k d (SelectPlan (TablePlan n l si) pr) s =
      (Inr (int (length (filter (\<lambda>r. pr_holds r pr) (table_rows s l (table_file n))))), s') \<and>
    iup_delete k d [] (SelectPlan (TablePlan n l si) pr) s = bup_delete k d (SelectPlan (TablePlan n l si) pr) s \<and>
    ready s' M \<and> changed s s' (table_file n) \<and> table_wf s' l (table_file n) \<and>
    table_rows s' l (table_file n) = filter (\<lambda>r. \<not> pr_holds r pr) (table_rows s l (table_file n))"
proof -
  let ?fn = "table_file n" and ?rows = "table_rows s l (table_file n)"
  obtain e where d: "d = Suc (Suc e)"
    using assms(4) by (metis le_Suc_ex add_2_eq_Suc)
  from open_updatable [OF assms(1-3,5), of d si] obtain s1 ts1 where
    s1: "pl_open k d (SelectPlan (TablePlan n l si) pr) s = (Inr (sel_tab pr ts1), s1)" "ready s1 (ts_own ts1 + M)"
      "changed s s1 ?fn" "sel_at k l ?fn pr s1 ts1 [] ?rows" "loggable (blocksize s1) l ?fn" by blast
  have "length ?rows < k"
    using assms(3) by (simp add: updatable_def)
  from delete_loop [OF s1(4,2,5) this, of e 0] obtain s2 ts2 where
    s2: "bp_delete_loop k (vt k d) 0 (sel_tab pr ts1) s1 = (Inr (int (length (filter (\<lambda>r. pr_holds r pr) ?rows)), sel_tab pr ts2), s2)"
      "iup_delete_loop k k (vt k d) [] 0 (sel_tab pr ts1) s1 = (Inr (int (length (filter (\<lambda>r. pr_holds r pr) ?rows)), sel_tab pr ts2), s2)"
      "ready s2 (ts_own ts2 + M)" "changed s1 s2 ?fn" "table_wf s2 l ?fn"
      "table_rows s2 l ?fn = filter (\<lambda>r. \<not> pr_holds r pr) ?rows" unfolding d by auto
  from ts_close_ok [OF s2(3)] obtain s3 where s3: "ts_close ts2 s2 = (Inr (), s3)" "ready s3 M" "alike s2 s3" by blast
  have "table_wf s3 l ?fn"
    by (rule table_wf_alike [OF s3(3) s2(5)])
  moreover have "table_rows s3 l ?fn = table_rows s2 l ?fn"
    using alike_table(4) [OF s3(3)] s2(5) by (simp add: table_wf_def)
  ultimately show ?thesis
    using s1(1) s2(1,2,6) s3(1,2) changed_trans [OF changed_trans [OF s1(3) s2(4)] alike_changed [OF s3(3)]]
    by (intro exI [of _ s3])
      (simp add: bup_delete_def iup_delete_def cmd_simps sel_tab_ops [of k e, folded d] del: vt.simps pl_open.simps)
qed

lemma modify_ok:
  fixes s :: "'a tmp_scheme"
  assumes "ready s M" "size M < length (pool s)" "updatable k l n s" "2 \<le> d"
    and "\<forall>r \<in> set (table_rows s l (table_file n)). \<forall>t \<in> set pr. tm_typed r t"
    and "\<forall>r \<in> set (table_rows s l (table_file n)). pr_holds r pr \<longrightarrow> (\<exists>v. ex_val r e = Some v \<and> field_val l f v)"
  shows "\<exists>s'. iup_modify k d e f None (SelectPlan (TablePlan n l si) pr) s =
      (Inr (int (length (filter (\<lambda>r. pr_holds r pr) (table_rows s l (table_file n))))), s') \<and>
    ready s' M \<and> changed s s' (table_file n) \<and> table_wf s' l (table_file n) \<and>
    table_rows s' l (table_file n) =
      map (\<lambda>r. if pr_holds r pr then r(f \<mapsto> the (ex_val r e)) else r) (table_rows s l (table_file n))"
proof -
  let ?fn = "table_file n" and ?rows = "table_rows s l (table_file n)"
  obtain d' where d: "d = Suc (Suc d')"
    using assms(4) by (metis le_Suc_ex add_2_eq_Suc)
  from open_updatable [OF assms(1-3,5), of d si] obtain s1 ts1 where
    s1: "pl_open k d (SelectPlan (TablePlan n l si) pr) s = (Inr (sel_tab pr ts1), s1)" "ready s1 (ts_own ts1 + M)"
      "changed s s1 ?fn" "sel_at k l ?fn pr s1 ts1 [] ?rows" "loggable (blocksize s1) l ?fn" by blast
  have "length ?rows < k"
    using assms(3) by (simp add: updatable_def)
  from modify_loop [OF s1(4,2,5) this assms(6), of d' 0] obtain s2 ts2 where
    s2: "iup_modify_loop k k (vt k d) e f None 0 (sel_tab pr ts1) s1 =
        (Inr (int (length (filter (\<lambda>r. pr_holds r pr) ?rows)), None, sel_tab pr ts2), s2)"
      "ready s2 (ts_own ts2 + M)" "changed s1 s2 ?fn" "table_wf s2 l ?fn" "table_rows s2 l ?fn = map (modified pr f e) ?rows"
    unfolding d by auto
  from ts_close_ok [OF s2(2)] obtain s3 where s3: "ts_close ts2 s2 = (Inr (), s3)" "ready s3 M" "alike s2 s3" by blast
  have "table_wf s3 l ?fn"
    by (rule table_wf_alike [OF s3(3) s2(4)])
  moreover have "table_rows s3 l ?fn = table_rows s2 l ?fn"
    using alike_table(4) [OF s3(3)] s2(4) by (simp add: table_wf_def)
  ultimately show ?thesis
    using s1(1) s2(1,5) s3(1,2) changed_trans [OF changed_trans [OF s1(3) s2(3)] alike_changed [OF s3(3)]]
    by (intro exI [of _ s3])
      (simp add: iup_modify_def cmd_simps sel_tab_ops [of k d', folded d] modified_def [abs_def] del: vt.simps pl_open.simps)
qed

section \<open>Insertion\<close>

lemma tab_ops:
  "op_setValue (vt k (Suc d)) f v (TableS ts) = ts_setValue f v ts" "op_insert (vt k (Suc d)) (TableS ts) = wrap TableS (ts_insert k ts)"
  "op_close (vt k (Suc d)) (TableS ts) = ts_close ts"
  by (simp_all add: vt_setValue_def vt_insert_def vt_close_def ts_ops_def)

lemma insert_values_ok:
  assumes "at_slot s l fn b i ts" "table_wf s l fn" "ready s (ts_own ts + M)" "loggable (blocksize s) l fn"
    "list_all2 (field_val l) fs vs"
  shows "\<exists>s'. insert_values (vt k (Suc d)) (TableS ts) fs (map const_of vs) s = (Inr (), s') \<and> ready s' (ts_own ts + M) \<and>
    slot_set s s' l fn b i (slot_used s l fn b i) ((slot_row s l fn b i)(fs [\<mapsto>] vs))"
  using assms(5,1-4)
proof (induction fs vs arbitrary: s rule: list_all2_induct)
  case Nil
  with alike_slot [OF alike_refl Nil(2), of b i] show ?case
    by (simp add: cmd_simps)
next
  case (Cons f fs v vs)
  from ts_setValue_ok [OF Cons.prems Cons.hyps(1)] obtain s1 where
    s1: "ts_setValue f (const_of v) ts s = (Inr (), s1)" "ready s1 (ts_own ts + M)"
      "slot_set s s1 l fn b i (slot_used s l fn b i) ((slot_row s l fn b i)(f \<mapsto> v))" by blast
  have s1': "table_wf s1 l fn" "loggable (blocksize s1) l fn" "slot_used s1 l fn b i = slot_used s l fn b i"
    "slot_row s1 l fn b i = (slot_row s l fn b i)(f \<mapsto> v)"
    using s1(3) Cons.prems(4) by (simp_all add: slot_set_def changed_def)
  from Cons.IH [OF at_slot_set [OF Cons.prems(1) s1(3)] s1'(1) s1(2) s1'(2), unfolded s1'(3,4)] obtain s2 where
    s2: "insert_values (vt k (Suc d)) (TableS ts) fs (map const_of vs) s1 = (Inr (), s2)" "ready s2 (ts_own ts + M)"
      "slot_set s1 s2 l fn b i (slot_used s l fn b i) ((slot_row s l fn b i)(f \<mapsto> v, fs [\<mapsto>] vs))" by blast
  with s1(1) s2(1,2) slot_set_trans [OF s1(3) s2(3)] show ?case
    by (intro exI [of _ s2]) (simp add: cmd_simps tab_ops del: vt.simps)
qed

text \<open>A free slot of the table and what a record that was removed has left in it, or a slot of a new block.\<close>

definition free_slot :: "'a bm_scheme \<Rightarrow> layout \<Rightarrow> string \<Rightarrow> row \<Rightarrow> bool" where
  "free_slot s l fn r \<longleftrightarrow> r = zero_row l \<or>
     (\<exists>b < file_blocks s fn. \<exists>i < num_slots (blocksize s) l. \<not> slot_used s l fn b i \<and> slot_row s l fn b i = r)"

lemma bup_insert_ok:
  fixes s :: "'a tmp_scheme"
  assumes "ready s M" "size M < length (pool s)" "updatable k l n s" "0 < num_slots (blocksize s) l" "0 < d"
    and "list_all2 (field_val l) fs vs"
  shows "\<exists>s' pre post r. bup_insert k d fs (map const_of vs) (TablePlan n l si) s = (Inr 1, s') \<and> ready s' M \<and>
    changed s s' (table_file n) \<and> table_wf s' l (table_file n) \<and> free_slot s l (table_file n) r \<and> dom r = lay_fields l \<and>
    table_rows s l (table_file n) = pre @ post \<and> table_rows s' l (table_file n) = pre @ [r(fs [\<mapsto>] vs)] @ post"
proof -
  let ?fn = "table_file n"
  obtain e where d: "d = Suc e"
    using assms(5) by (cases d) auto
  have u: "table_wf s l ?fn" "loggable (blocksize s) l ?fn" "file_blocks s ?fn < k" "num_slots (blocksize s) l < k"
    using assms(3) by (simp_all add: updatable_def)
  have "pl_ok k s (TablePlan n l si)"
    using table_wf_ok [OF u(1)] u(3,4) by simp
  from ts_new_ok [OF this assms(1,2)] obtain s1 ts where
    s1: "ts_new k n l s = (Inr ts, s1)" "ready s1 (ts_own ts + M)" "alike s s1" "on_block l ?fn 0 ts" "ts_slot ts = - 1" by blast
  have fn: "?fn \<noteq> logFileName s" "?fn \<noteq> []"
    using u(1) by (simp_all add: table_wf_def)
  note a1 = alike_table [OF s1(3) fn] and w1 = table_wf_alike [OF s1(3) u(1)]
  have i1: "0 < file_blocks s1 ?fn" "- 1 \<le> ts_slot ts" "loggable (blocksize s1) l ?fn" "0 < num_slots (blocksize s1) l"
    "num_slots (blocksize s1) l < k" "file_blocks s1 ?fn < k"
    using w1 u assms(4) s1(5) by (simp_all add: a1 table_wf_def)
  from ts_insert_ok [OF w1 s1(4) i1(1,2) s1(2) i1(3-6)] obtain s2 ts2 b i where
    s2: "ts_insert k ts s1 = (Inr ts2, s2)" "ready s2 (ts_own ts2 + M)" "at_slot s2 l ?fn b i ts2" "inserted s1 s2 l ?fn b i" by blast
  note ins = alike_inserted [OF s1(3) u(1) s2(4), unfolded inserted_def]
  have w2: "table_wf s2 l ?fn" and log2: "loggable (blocksize s2) l ?fn" and bs2: "blocksize s2 = blocksize s"
    using ins u(2) by (auto simp: changed_def)
  let ?r = "slot_row s2 l ?fn b i"
  from insert_values_ok [OF s2(3) w2 s2(2) log2 assms(6), of k e] obtain s3 where
    s3: "insert_values (vt k d) (TableS ts2) fs (map const_of vs) s2 = (Inr (), s3)" "ready s3 (ts_own ts2 + M)"
      "slot_set s2 s3 l ?fn b i True (?r(fs [\<mapsto>] vs))" unfolding d using ins by auto
  from ts_close_ok [OF s3(2)] obtain s4 where s4: "ts_close ts2 s3 = (Inr (), s4)" "ready s4 M" "alike s3 s4" by blast
  have bi: "i < num_slots (blocksize s) l" "b < file_blocks s2 ?fn"
    using s2(3) by (simp_all add: at_slot_def bs2)
  have w3: "table_wf s3 l ?fn"
    using s3(3) by (simp add: slot_set_def)
  have "table_rows s4 l ?fn = table_rows s3 l ?fn"
    using alike_table(4) [OF s4(3)] w3 by (simp add: table_wf_def)
  also have "\<dots> = rows_before s2 l ?fn b i @ [?r(fs [\<mapsto>] vs)] @ rows_after s2 l ?fn b (Suc i)"
  proof -
    have s3': "file_blocks s3 ?fn = file_blocks s2 ?fn" "blocksize s3 = blocksize s" "slot_used s3 l ?fn b i"
      "slot_row s3 l ?fn b i = ?r(fs [\<mapsto>] vs)" "rows_before s3 l ?fn b i = rows_before s2 l ?fn b i"
      "rows_after s3 l ?fn b (Suc i) = rows_after s2 l ?fn b (Suc i)"
      using s3(3) bs2 by (simp_all add: slot_set_def changed_def)
    with table_rows_split [of b s3 ?fn i l] rows_after_Suc [of i s3 l ?fn b] bi show ?thesis by simp
  qed
  finally have rows: "table_rows s4 l ?fn = rows_before s2 l ?fn b i @ [?r(fs [\<mapsto>] vs)] @ rows_after s2 l ?fn b (Suc i)" .
  have "page_wf (blocksize s2) l (file_page s2 ?fn b)"
    using w2 bi(2) by (simp add: table_wf_def)
  then have "dom ?r = lay_fields l"
    using slot_typed [of "blocksize s2" l "file_page s2 ?fn b" i] bi(1) by (simp add: slot_row_def row_typed_def bs2)
  moreover have "free_slot s l ?fn ?r"
    using ins bi(1) by (auto simp: free_slot_def split: if_splits)
  moreover have "table_wf s4 l ?fn"
    by (rule table_wf_alike [OF s4(3) w3])
  moreover have "changed s s4 ?fn"
    using changed_trans [OF changed_trans [of s s2 ?fn s3] alike_changed [OF s4(3)]] ins s3(3) by (simp add: slot_set_def)
  moreover have "bup_insert k d fs (map const_of vs) (TablePlan n l si) s = (Inr 1, s4)"
    using s1(1) s2(1) s3(1) s4(1) by (simp add: bup_insert_def d wrap_def cmd_simps tab_ops del: vt.simps)
  moreover have "table_rows s l ?fn = rows_before s2 l ?fn b i @ rows_after s2 l ?fn b (Suc i)"
    using ins by simp
  ultimately show ?thesis
    using s4(2) rows by (intro exI [of _ s4] exI [of _ "rows_before s2 l ?fn b i"] exI [of _ "rows_after s2 l ?fn b (Suc i)"] exI [of _ ?r] conjI)
qed

lemma map_upds_all:
  assumes "dom r = set fs" "length fs = length vs"
  shows "r(fs [\<mapsto>] vs) = Map.empty(fs [\<mapsto>] vs)"
proof -
  have "dom (map_of (rev (zip fs vs))) = set fs"
    using assms(2) by (simp add: dom_map_of_conv_image_fst flip: set_map)
  then show ?thesis
    using assms(1) by (auto simp: map_upds_def map_add_def fun_eq_iff split: option.split)
qed

section \<open>Properties\<close>

text \<open>
  C28. A delete statement removes exactly the records that satisfy its condition: the scan loop of either
  update planner, the one for tables with indexes when the table has none, returns their number and
  leaves the other records in their order; other files and the pins are as before.
\<close>

theorem delete_removes_selected:
  fixes s :: "'a tmp_scheme"
  assumes "ready s M" "size M < length (pool s)" "updatable k l n s" "2 \<le> d"
    and "\<forall>r \<in> set (table_rows s l (table_file n)). \<forall>t \<in> set pr. tm_typed r t"
  shows "\<exists>s'. bup_delete k d (SelectPlan (TablePlan n l si) pr) s =
      (Inr (int (length (filter (\<lambda>r. pr_holds r pr) (table_rows s l (table_file n))))), s') \<and>
    iup_delete k d [] (SelectPlan (TablePlan n l si) pr) s = bup_delete k d (SelectPlan (TablePlan n l si) pr) s \<and>
    ready s' M \<and> changed s s' (table_file n) \<and>
    table_rows s' l (table_file n) = filter (\<lambda>r. \<not> pr_holds r pr) (table_rows s l (table_file n))"
  using delete_ok [OF assms, of si] by blast





section \<open>Examples\<close>

text \<open>A table that can be changed, as a computation.\<close>

definition row_check :: "layout \<Rightarrow> bytes \<Rightarrow> nat \<Rightarrow> bool" where
  "row_check l p i \<longleftrightarrow> (has_flag EMPTY l p i \<or> has_flag USED l p i) \<and>
     list_all (\<lambda>f. case page_row l p i f of None \<Rightarrow> False | Some v \<Rightarrow> field_val l f v) (map fst (sch_info (lay_schema l)))"

definition page_check :: "int \<Rightarrow> layout \<Rightarrow> bytes \<Rightarrow> bool" where
  "page_check bs l p \<longleftrightarrow> int (length p) = bs \<and> list_all (row_check l p) [0..<num_slots bs l]"

definition update_check :: "nat \<Rightarrow> layout \<Rightarrow> string \<Rightarrow> 'a bm_scheme \<Rightarrow> bool" where
  "update_check k l n s \<longleftrightarrow> (let fn = table_file n; bs = blocksize s in
     fn \<noteq> logFileName s \<and> 0 < file_blocks s fn \<and> list_all (\<lambda>b. page_check bs l (file_page s fn b)) [0..<file_blocks s fn] \<and>
     log_check bs l fn \<and> file_blocks s fn < k \<and> num_slots bs l < k \<and> length (table_rows s l fn) < k)"

lemma row_check_wf: "row_check l p i \<Longrightarrow> slot_wf l p i"
proof -
  assume r: "row_check l p i"
  have "dom (page_row l p i) = lay_fields l"
    by (rule page_row_dom) (use r in \<open>auto simp: row_check_def list_all_iff split: option.splits\<close>)
  moreover have "field_val l f v" if "page_row l p i f = Some v" for f v
    using r that page_row_field [OF that] by (fastforce simp: row_check_def list_all_iff lay_fields_def dom_map_of_conv_image_fst)
  ultimately show "slot_wf l p i"
    using r by (simp add: slot_wf_def row_typed_def row_check_def)
qed

lemma update_check:
  assumes "lay_ok l" "update_check k l n s"
  shows "updatable k l n s"
proof -
  have "page_wf (blocksize s) l p" if "page_check (blocksize s) l p" for p
    using that row_check_wf by (auto simp: page_check_def page_wf_def list_all_iff)
  then show ?thesis
    using assms log_check by (auto simp: update_check_def updatable_def table_wf_def list_all_iff Let_def table_file_def)
qed

lemma demo_lay_ok: "lay_ok demo_layout"
proof -
  let ?sch = "sch_addIntField ''n'' (sch_addIntField ''id'' sch_empty)"
  have "sch_ok ?sch"
    by (simp add: sch_addIntField_def sch_ok_addField)
  moreover have "\<not> isl (lay_new ?sch)" by code_simp
  then have "lay_new ?sch = Inr demo_layout"
    by (auto simp: demo_layout_def split: sum.splits)
  ultimately show ?thesis
    by (rule lay_new_ok)
qed

definition demo_nine :: pred where
  "demo_nine = [\<lparr>lhs = ex_name ''n'', rhs = ex_const (const_int 9)\<rparr>]"

definition demo_updates :: "tmp \<Rightarrow> bool" where
  "demo_updates s \<longleftrightarrow> update_check 8 demo_layout ''t'' s \<and> 0 < length (pool s) \<and> 0 < num_slots (blocksize s) demo_layout \<and>
     list_all (\<lambda>r. list_all (tm_typed r) demo_nine) (table_rows s demo_layout (table_file ''t'')) \<and>
     map (\<lambda>r. map r [''id'', ''n'']) (table_rows s demo_layout (table_file ''t'')) =
       [[Some (VInt 7), Some (VInt 0)], [Some (VInt 0), Some (VInt 9)]]"

lemma demo_updates: "demo_updates demo_tmp" by code_simp


lemma demo_rows:
  obtains r1 r2 where "table_rows demo_tmp demo_layout (table_file ''t'') = [r1, r2]" "r1 ''id'' = Some (VInt 7)"
    "r1 ''n'' = Some (VInt 0)" "r2 ''id'' = Some (VInt 0)" "r2 ''n'' = Some (VInt 9)" "pr_holds r2 demo_nine" "\<not> pr_holds r1 demo_nine"
proof -
  have "map (\<lambda>r. map r [''id'', ''n'']) (table_rows demo_tmp demo_layout (table_file ''t'')) =
      [[Some (VInt 7), Some (VInt 0)], [Some (VInt 0), Some (VInt 9)]]"
    using demo_updates by (simp only: demo_updates_def)
  then obtain r1 r2 where r: "table_rows demo_tmp demo_layout (table_file ''t'') = [r1, r2]"
    "r1 ''id'' = Some (VInt 7)" "r1 ''n'' = Some (VInt 0)" "r2 ''id'' = Some (VInt 0)" "r2 ''n'' = Some (VInt 9)"
    by (auto simp: map_eq_Cons_conv)
  with that show thesis
    by (simp add: demo_nine_def pr_holds_def tm_holds_def ex_name_def ex_const_def const_null_def const_int_def const_isNull_def)
qed

lemma demo_ready_updates:
  "ready demo_tmp {#}" "size {#} < length (pool demo_tmp)" "updatable 8 demo_layout ''t'' demo_tmp" "(2::nat) \<le> 2"
  "\<forall>r \<in> set (table_rows demo_tmp demo_layout (table_file ''t'')). \<forall>t \<in> set demo_nine. tm_typed r t"
  "0 < num_slots (blocksize demo_tmp) demo_layout"
  using demo_updates demo_ready update_check [OF demo_lay_ok, of 8 "''t''" demo_tmp] by (simp_all add: demo_updates_def list_all_iff)

theorem delete_removes_selected_witness:
  "\<exists>s'. bup_delete 8 2 (SelectPlan demo_table demo_nine) demo_tmp = (Inr 1, s') \<and> ready s' {#} \<and>
    map (\<lambda>r. (r ''id'', r ''n'')) (table_rows s' demo_layout (table_file ''t'')) = [(Some (VInt 7), Some (VInt 0))]"
proof -
  obtain r1 r2 where r: "table_rows demo_tmp demo_layout (table_file ''t'') = [r1, r2]" "r1 ''id'' = Some (VInt 7)"
    "r1 ''n'' = Some (VInt 0)" "r2 ''id'' = Some (VInt 0)" "r2 ''n'' = Some (VInt 9)" "pr_holds r2 demo_nine" "\<not> pr_holds r1 demo_nine"
    by (rule demo_rows)
  from delete_removes_selected [OF demo_ready_updates(1-5)] obtain s' where
    "bup_delete 8 2 (SelectPlan demo_table demo_nine) demo_tmp = (Inr 1, s')" "ready s' {#}"
    "table_rows s' demo_layout (table_file ''t'') = [r1]"
    unfolding demo_table_def using r by auto
  with r(2,3) show ?thesis by auto
qed





section \<open>Types, bounds and progress\<close>

text \<open>Every record has the fields of the schema, of their types, and no string longer than declared.\<close>

definition table_typed :: "'a bm_scheme \<Rightarrow> layout \<Rightarrow> string \<Rightarrow> bool" where
  "table_typed s l fn \<longleftrightarrow> (\<forall>r \<in> set (table_rows s l fn). row_typed l r)"

lemma table_wf_typed: "table_wf s l fn \<Longrightarrow> table_typed s l fn"
  by (fastforce simp: table_typed_def table_rows_def rows_from_def page_rows_def table_wf_def set_slots_with intro: slot_typed)


text \<open>
  C33. A string longer than its field is not rejected: it is written over what follows, and the int field
  behind it then reads four bytes of the string.
\<close>

theorem long_string_overruns_field:
  assumes "at_slot s l fn b i ts" "table_wf s l fn" "ready s (ts_own ts + M)"
    and "lay_offset f l = Inr off" "map_of (sch_info (lay_schema l)) f = Some fi" "fi_type fi = VARCHAR" "fi_length fi + 4 \<le> int (length x)"
    and "lay_offset g l = Inr (off + 4 + fi_length fi)" "sch_fieldType g (lay_schema l) = Inr INTEGER"
    and "int i * lay_slotSize l + off + 4 + int (length x) \<le> blocksize s" "loggable (blocksize s) l fn"
  shows "\<exists>s'. ts_setString f x ts s = (Inr (), s') \<and>
    slot_row s' l fn b i g = Some (VInt (bytes_int (slice (nat (fi_length fi)) 4 x)))"
proof -
  note c = at_slot_page [OF assms(1-3)]
  have fin: "f \<in> lay_fields l"
    using assms(5) by (auto simp: lay_fields_def)
  have len0: "0 \<le> fi_length fi"
    using c(7) assms(5) by (auto simp: lay_ok_def sch_ok_def)
  have "field_val l f (VStr [])"
    using assms(5,6) len0 by (simp add: field_val_def)
  have "0 \<le> blocksize s"
    using page_length [OF c(3)] by simp
  note w = field_within [OF c(7,5) this \<open>field_val l f (VStr [])\<close> assms(4)]
  let ?a = "int i * lay_slotSize l + off" and ?n = "nat (fi_length fi)" and ?b = "BlockId fn (int b)"
  let ?p = "overwrite (nat ?a) (str_bytes x) (file_page s fn b)"
  from ready_setString [OF assms(3) c(2) w(1) assms(10) string_loggable [OF assms(1-3,11,5,6,4)], of True, unfolded c(4)] obtain s' where
    s': "tx_setString ?b ?a x True s = (Inr (), s')" "written s s' ?b ?p" by auto
  have page: "file_page s' fn b = ?p"
    using s'(2) assms(2) by (simp add: file_page_def written_def data_blk_def table_wf_def)
  have len: "int (length ?p) = blocksize s"
    using page_length [OF c(3)] w(1) assms(10) by simp
  have "slice (nat ?a + (4 + ?n)) 4 ?p = slice ?n 4 x"
    using page_length [OF c(3)] w(1) assms(7,10) len0 by (simp add: slice_def overwrite_def str_bytes_def)
  moreover have "nat (?a + 4 + fi_length fi) = nat ?a + (4 + ?n)"
    using w(1) len0 by simp
  moreover have "getInt ?p (?a + 4 + fi_length fi) = Inr (bytes_int (slice (nat (?a + 4 + fi_length fi)) 4 ?p))"
    using getInt_view [of "?a + 4 + fi_length fi" ?p] w(1) len0 len assms(7,10) c(8) by simp
  ultimately have "slot_row s' l fn b i g = Some (VInt (bytes_int (slice ?n 4 x)))"
    using assms(8,9) by (simp add: slot_row_def page page_row_def add.assoc)
  moreover have "ts_setString f x ts s = (Inr (), s')"
    using s'(1) c(1,10) assms(4)
    by (simp add: ts_setString_def ts_recordPage_def deref_def rp_setString_def rp_fieldPos_def rp_offset_def cmd_simps)
  ultimately show ?thesis by blast
qed



text \<open>A second view of the example's file: an integer, a string field of length 0 and another integer.\<close>

definition wide_layout :: layout where
  "wide_layout = (case lay_new (sch_addIntField ''w'' (sch_addStringField ''s'' 0 (sch_addIntField ''a'' sch_empty))) of Inr l \<Rightarrow> l)"

lemma wide_lay_ok: "lay_ok wide_layout"
proof -
  let ?sch = "sch_addIntField ''w'' (sch_addStringField ''s'' 0 (sch_addIntField ''a'' sch_empty))"
  have "sch_ok ?sch"
    by (simp add: sch_addIntField_def sch_addStringField_def sch_ok_addField)
  moreover have "\<not> isl (lay_new ?sch)" by code_simp
  then have "lay_new ?sch = Inr wide_layout"
    by (auto simp: wide_layout_def split: sum.splits)
  ultimately show ?thesis
    by (rule lay_new_ok)
qed

definition wide_check :: "tmp \<Rightarrow> bool" where
  "wide_check s \<longleftrightarrow> update_check 8 wide_layout ''t'' s \<and> 0 < length (pool s) \<and> 0 < num_slots (blocksize s) wide_layout \<and>
     lay_offset ''s'' wide_layout = Inr 8 \<and> lay_offset ''w'' wide_layout = Inr 12 \<and> 16 \<le> blocksize s \<and>
     map_of (sch_info (lay_schema wide_layout)) ''s'' = Some \<lparr>fi_type = VARCHAR, fi_length = 0\<rparr> \<and>
     sch_fieldType ''w'' (lay_schema wide_layout) = Inr INTEGER"

lemma wide_check: "wide_check demo_tmp" by code_simp

theorem long_string_overruns_field_witness:
  "\<exists>ts (s :: tmp) s'. ready s (ts_own ts) \<and> ts_setString ''s'' ''abcd'' ts s = (Inr (), s') \<and>
    slot_row s' wide_layout (table_file ''t'') 0 0 ''w'' = Some (VInt (bytes_int ''abcd''))"
proof -
  note w = wide_check [unfolded wide_check_def]
  have u: "updatable 8 wide_layout ''t'' demo_tmp"
    using w by (intro update_check wide_lay_ok) simp
  then have "pl_ok 8 demo_tmp (TablePlan ''t'' wide_layout \<lparr>si_numBlocks = Some 1, si_numRecords = Some 2\<rparr>)"
    by (simp add: updatable_def table_wf_ok)
  from ts_new_ok [OF this demo_ready] w obtain s ts where
    ts: "ready s (ts_own ts)" "alike demo_tmp s" "on_block wide_layout (table_file ''t'') 0 ts"
    by (auto simp: add_0_right)
  let ?ts = "ts\<lparr>ts_slot := 0\<rparr>"
  have "file_blocks s (table_file ''t'') = file_blocks demo_tmp (table_file ''t'')"
    using u by (intro alike_table(1) [OF ts(2)]) (simp_all add: updatable_def table_wf_def table_file_def)
  moreover have "0 < file_blocks demo_tmp (table_file ''t'')" "blocksize s = blocksize demo_tmp"
    using w ts(2) by (simp_all add: update_check_def Let_def alike_def)
  ultimately have "at_slot s wide_layout (table_file ''t'') 0 0 ?ts" "table_wf s wide_layout (table_file ''t'')"
      "loggable (blocksize s) wide_layout (table_file ''t'')" "blocksize s = blocksize demo_tmp" "ready s (ts_own ?ts + {#})"
    using u w ts table_wf_alike [OF ts(2)] by (simp_all add: at_slot_def on_block_def updatable_def ts_own_def)
  from long_string_overruns_field [OF this(1,2,5), of "''s''" 8 "\<lparr>fi_type = VARCHAR, fi_length = 0\<rparr>" "''abcd''" "''w''"] this w obtain s' where
    "ts_setString ''s'' ''abcd'' ?ts s = (Inr (), s')"
    "slot_row s' wide_layout (table_file ''t'') 0 0 ''w'' = Some (VInt (bytes_int (slice 0 4 ''abcd'')))"
    by auto
  moreover have "slice 0 4 ''abcd'' = ''abcd''" "ready s (ts_own ?ts)"
    using \<open>ready s (ts_own ?ts + {#})\<close> by (simp_all add: slice_def)
  ultimately have "ready s (ts_own ?ts) \<and> ts_setString ''s'' ''abcd'' ?ts s = (Inr (), s') \<and>
    slot_row s' wide_layout (table_file ''t'') 0 0 ''w'' = Some (VInt (bytes_int ''abcd''))"
    by (simp only:)
  then show ?thesis by (intro exI)
qed


text \<open>
  C34. The loop of insert ends if and only if a slot fits into a block. Otherwise it never does: with fuel
  for any number of iterations it uses all of it, and every iteration behind the last block of the file
  appends a block. No operation compares the slot size with the block size.
\<close>

theorem insert_ends_iff_slot_fits:
  assumes "table_wf s l fn" "on_block l fn b ts" "b < file_blocks s fn" "- 1 \<le> ts_slot ts" "ready s (ts_own ts + M)"
    "loggable (blocksize s) l fn"
  shows "((\<exists>k ts' s'. ts_insert k ts s = (Inr ts', s')) \<longleftrightarrow> lay_slotSize l \<le> blocksize s) \<and>
    (blocksize s < lay_slotSize l \<longrightarrow> (\<forall>k. 0 < k \<longrightarrow>
      (\<exists>s'. ts_insert k ts s = (Inl OutOfFuel, s') \<and> file_blocks s' fn = max (file_blocks s fn) (Suc b + k))))"
proof (cases "lay_slotSize l \<le> blocksize s")
  case True
  have "0 < lay_slotSize l"
    using assms(1) lay_size [of l] by (simp add: table_wf_def)
  then have "0 < num_slots (blocksize s) l"
    using True by (simp add: num_slots_def pos_imp_zdiv_pos_iff)
  from ts_insert_ok [OF assms this, of "Suc (num_slots (blocksize s) l + file_blocks s fn)"] True show ?thesis by auto
next
  case False
  then have n: "num_slots (blocksize s) l = 0"
    using ready_bounds [OF assms(5)] by (simp add: num_slots_def)
  have "\<exists>s'. ts_insert k ts s = (Inl OutOfFuel, s') \<and> file_blocks s' fn = max (file_blocks s fn) (Suc b + k)" if "0 < k" for k
    unfolding ts_insert_def by (rule ts_insert_diverges [OF assms n that])
  moreover have "ts_insert 0 ts s \<noteq> (Inr ts', s')" for ts' s'
    using assms(2) by (simp add: ts_insert_def ts_try_insert_def ts_recordPage_def deref_def on_block_def rp_insertAfter_def rp_searchAfter_def cmd_simps)
  then have "ts_insert k ts s \<noteq> (Inr ts', s')" for k ts' s'
    using calculation [of k] by (cases "k = 0") auto
  ultimately show ?thesis
    using False by auto
qed

text \<open>A third view of the example's file: a slot that is longer than its block of 64 bytes.\<close>

definition huge_schema :: schema where
  "huge_schema = sch_addStringField ''d'' 12 (sch_addStringField ''c'' 12
     (sch_addStringField ''b'' 12 (sch_addStringField ''a'' 12 sch_empty)))"

definition huge_layout :: layout where
  "huge_layout = (case lay_new huge_schema of Inr l \<Rightarrow> l)"

lemma huge_lay_ok: "lay_ok huge_layout"
proof -
  have "sch_ok huge_schema"
    by (simp add: huge_schema_def sch_addStringField_def sch_ok_addField)
  moreover have "\<not> isl (lay_new huge_schema)" by code_simp
  then have "lay_new huge_schema = Inr huge_layout"
    by (auto simp: huge_layout_def split: sum.splits)
  ultimately show ?thesis
    by (rule lay_new_ok)
qed

definition huge_check :: "tmp \<Rightarrow> bool" where
  "huge_check s \<longleftrightarrow> blocksize s = 64 \<and> 0 < length (pool s) \<and> logFileName s = ''log'' \<and>
     file_blocks s (table_file ''t'') = 1 \<and> length (file_page s (table_file ''t'') 0) = 64"

lemma huge_check: "huge_check demo_tmp" by code_simp

lemma huge_loggable: "lay_slotSize huge_layout = 68" "log_check 64 huge_layout (table_file ''t'')" by code_simp+

lemma huge_updatable: "updatable 8 huge_layout ''t'' demo_tmp"
proof -
  note c = huge_check [unfolded huge_check_def]
  have n: "num_slots (blocksize demo_tmp) huge_layout = 0"
    using c huge_loggable(1) by (simp add: num_slots_def)
  then have "table_rows demo_tmp huge_layout (table_file ''t'') = []"
    by (simp add: table_rows_def rows_from_def page_rows_def slots_with_def)
  moreover have "table_wf demo_tmp huge_layout (table_file ''t'')"
    using c n huge_lay_ok by (simp add: table_wf_def page_wf_def table_file_def)
  ultimately show ?thesis
    using c n log_check [OF huge_loggable(2)] by (simp add: updatable_def)
qed

theorem insert_ends_iff_slot_fits_witness:
  "\<exists>ts (s :: tmp) s'. ready s (ts_own ts) \<and> file_blocks s (table_file ''t'') = 1 \<and>
    ts_insert 1000 ts s = (Inl OutOfFuel, s') \<and> file_blocks s' (table_file ''t'') = 1001"
proof -
  note c = huge_check [unfolded huge_check_def]
  note u = huge_updatable
  then have "pl_ok 8 demo_tmp (TablePlan ''t'' huge_layout \<lparr>si_numBlocks = Some 1, si_numRecords = Some 2\<rparr>)"
    by (simp add: updatable_def table_wf_ok)
  from ts_new_ok [OF this demo_ready] c obtain s ts where
    ts: "ready s (ts_own ts + {#})" "alike demo_tmp s" "on_block huge_layout (table_file ''t'') 0 ts" "ts_slot ts = - 1"
    by auto
  have one: "file_blocks s (table_file ''t'') = 1"
    using u c alike_table(1) [OF ts(2), of "table_file ''t''"] by (simp add: updatable_def table_wf_def table_file_def)
  have "table_wf s huge_layout (table_file ''t'')" "loggable (blocksize s) huge_layout (table_file ''t'')"
    and small: "blocksize s < lay_slotSize huge_layout" "(0::nat) < 1000"
    using u ts(2) table_wf_alike [OF ts(2)] c huge_loggable(1) by (simp_all add: updatable_def alike_def)
  from insert_ends_iff_slot_fits [OF this(1) ts(3) _ _ ts(1) this(2)] one ts(4)
  have "blocksize s < lay_slotSize huge_layout \<longrightarrow> (\<forall>k. 0 < k \<longrightarrow> (\<exists>s'. ts_insert k ts s = (Inl OutOfFuel, s') \<and>
      file_blocks s' (table_file ''t'') = max (file_blocks s (table_file ''t'')) (Suc 0 + k)))" by simp
  from this [rule_format, OF small] obtain s' where
    "ts_insert 1000 ts s = (Inl OutOfFuel, s')" "file_blocks s' (table_file ''t'') = 1001"
    using one by auto
  with ts(1) one have "ready s (ts_own ts) \<and> file_blocks s (table_file ''t'') = 1 \<and>
    ts_insert 1000 ts s = (Inl OutOfFuel, s') \<and> file_blocks s' (table_file ''t'') = 1001" by simp
  then show ?thesis by (intro exI)
qed

end
