(* ===== verification/Catalog.thy ===== *)
theory Catalog
  imports Updates
begin

text \<open>
  The table catalog as data: what \<open>TableMgr::getLayout\<close> computes from the records of \<open>tblcat\<close> and
  \<open>fldcat\<close>, and that it finds again what \<open>TableMgr::createTable\<close> has written there.
\<close>

section \<open>Reading\<close>

text \<open>The fields of a row at their types, and the rows of one table.\<close>

definition int_at :: "row \<Rightarrow> string \<Rightarrow> int" where
  "int_at r f = (case r f of Some (VInt i) \<Rightarrow> i | _ \<Rightarrow> 0)"

definition str_at :: "row \<Rightarrow> string \<Rightarrow> string" where
  "str_at r f = (case r f of Some (VStr x) \<Rightarrow> x | _ \<Rightarrow> [])"

definition of_table :: "string \<Rightarrow> row \<Rightarrow> bool" where
  "of_table t r \<longleftrightarrow> r ''tblname'' = Some (VStr t)"

definition cat_size :: "string \<Rightarrow> row list \<Rightarrow> int" where
  "cat_size t rows = (case filter (of_table t) rows of [] \<Rightarrow> - 1 | r # _ \<Rightarrow> int_at r ''slotsize'')"

definition cat_add :: "row \<Rightarrow> schema \<Rightarrow> schema" where
  "cat_add r sch = (let f = str_at r ''fldname'' in
     if int_at r ''type'' = INTEGER then sch_addIntField f sch
     else if int_at r ''type'' = BOOLEAN then sch_addBoolField f sch
     else if int_at r ''type'' = VARCHAR then sch_addStringField f (int_at r ''length'') sch
     else sch)"

definition cat_schema :: "row list \<Rightarrow> schema \<Rightarrow> schema" where
  "cat_schema rows sch = fold cat_add rows sch"

definition cat_offsets :: "row list \<Rightarrow> (string \<times> int) list \<Rightarrow> (string \<times> int) list" where
  "cat_offsets rows offs = fold (\<lambda>r. om_put (str_at r ''fldname'') (int_at r ''offset'')) rows offs"

definition cat_layout :: "string \<Rightarrow> row list \<Rightarrow> row list \<Rightarrow> layout" where
  "cat_layout t trows frows = \<lparr>lay_schema = cat_schema (filter (of_table t) frows) sch_empty,
     lay_offsets = cat_offsets (filter (of_table t) frows) [], lay_slotSize = cat_size t trows\<rparr>"

text \<open>The rows of the two catalog tables have the fields of their schemas.\<close>

definition has_ints :: "string list \<Rightarrow> row \<Rightarrow> bool" where
  "has_ints fs r \<longleftrightarrow> (\<forall>f \<in> set fs. r f = Some (VInt (int_at r f)))"

definition has_strs :: "string list \<Rightarrow> row \<Rightarrow> bool" where
  "has_strs fs r \<longleftrightarrow> (\<forall>f \<in> set fs. r f = Some (VStr (str_at r f)))"

lemma tm_findSize_ok:
  assumes "ts_rest k l fn s ts F rows (Some j)" "ready s (ts_own ts + M)" "length rows - j < fuel"
    and "\<forall>r \<in> set rows. has_strs [''tblname''] r \<and> has_ints [''slotsize''] r"
  shows "\<exists>s' ts'. tm_findSize fuel k t ts s = (Inr (cat_size t (drop j rows), ts'), s') \<and> ready s' (ts_own ts' + M) \<and> alike s s'"
  using assms(1-3)
proof (induction fuel arbitrary: s ts j)
  case 0
  then show ?case by simp
next
  case (Suc fuel)
  from ts_next_ok [OF Suc.prems(1,2)] obtain s1 ts1 where
    s1: "ts_next k ts s = (Inr (j < length rows, ts1), s1)" "ready s1 (ts_own ts1 + M)" "alike s s1"
      "ts_rest k l fn s1 ts1 F rows (if j < length rows then Some (Suc j) else None)" by blast
  show ?case
  proof (cases "j < length rows")
    case False
    with s1 show ?thesis
      by (intro exI [of _ s1] exI [of _ ts1]) (simp add: cmd_simps cat_size_def)
  next
    case True
    let ?r = "rows ! j"
    have rest: "ts_rest k l fn s1 ts1 F rows (Some (Suc j))"
      using s1(4) True by simp
    have r: "?r ''tblname'' = Some (VStr (str_at ?r ''tblname''))" "?r ''slotsize'' = Some (VInt (int_at ?r ''slotsize''))"
      using assms(4) True by (simp_all add: has_strs_def has_ints_def)
    from ts_getString_ok [OF rest s1(2) r(1)] obtain s2 where
      s2: "ts_getString ''tblname'' ts1 s1 = (Inr (str_at ?r ''tblname''), s2)" "ready s2 (ts_own ts1 + M)" "alike s1 s2" by blast
    note l2 = alike_trans [OF s1(3) s2(3)] and rest2 = ts_rest_alike(1) [OF rest s2(3)]
    have d: "drop j rows = ?r # drop (Suc j) rows"
      using True by (simp add: Cons_nth_drop_Suc)
    show ?thesis
    proof (cases "str_at ?r ''tblname'' = t")
      case True
      from ts_getInt_ok [OF rest2 s2(2) r(2)] obtain s3 where
        s3: "ts_getInt ''slotsize'' ts1 s2 = (Inr (int_at ?r ''slotsize''), s3)" "ready s3 (ts_own ts1 + M)" "alike s2 s3" by blast
      have "cat_size t (drop j rows) = int_at ?r ''slotsize''"
        using True r(1) by (simp add: d cat_size_def of_table_def)
      with True s1(1) s2(1) s3 alike_trans [OF l2 s3(3)] \<open>j < length rows\<close> show ?thesis
        by (intro exI [of _ s3] exI [of _ ts1]) (simp add: cmd_simps)
    next
      case False
      have "length rows - Suc j < fuel"
        using Suc.prems(3) True by simp
      from Suc.IH [OF rest2 s2(2) this] obtain s3 ts3 where
        s3: "tm_findSize fuel k t ts1 s2 = (Inr (cat_size t (drop (Suc j) rows), ts3), s3)" "ready s3 (ts_own ts3 + M)" "alike s2 s3" by blast
      have "cat_size t (drop j rows) = cat_size t (drop (Suc j) rows)"
        using False r(1) by (simp add: d cat_size_def of_table_def)
      with False s1(1) s2(1) s3 alike_trans [OF l2 s3(3)] True show ?thesis
        by (intro exI [of _ s3] exI [of _ ts3]) (simp add: cmd_simps)
    qed
  qed
qed

lemma tm_findFields_ok:
  assumes "ts_rest k l fn s ts F rows (Some j)" "ready s (ts_own ts + M)" "length rows - j < fuel"
    and "\<forall>r \<in> set rows. has_strs [''tblname'', ''fldname''] r \<and> has_ints [''type'', ''length'', ''offset''] r"
  shows "\<exists>s' ts'. tm_findFields fuel k t sch offs ts s =
      (Inr (cat_schema (filter (of_table t) (drop j rows)) sch, cat_offsets (filter (of_table t) (drop j rows)) offs, ts'), s') \<and>
    ready s' (ts_own ts' + M) \<and> alike s s'"
  using assms(1-3)
proof (induction fuel arbitrary: s ts j sch offs)
  case 0
  then show ?case by simp
next
  case (Suc fuel)
  from ts_next_ok [OF Suc.prems(1,2)] obtain s1 ts1 where
    s1: "ts_next k ts s = (Inr (j < length rows, ts1), s1)" "ready s1 (ts_own ts1 + M)" "alike s s1"
      "ts_rest k l fn s1 ts1 F rows (if j < length rows then Some (Suc j) else None)" by blast
  show ?case
  proof (cases "j < length rows")
    case False
    with s1 show ?thesis
      by (intro exI [of _ s1] exI [of _ ts1]) (simp add: cmd_simps cat_schema_def cat_offsets_def)
  next
    case True
    let ?r = "rows ! j"
    have rest: "ts_rest k l fn s1 ts1 F rows (Some (Suc j))"
      using s1(4) True by simp
    have r: "?r ''tblname'' = Some (VStr (str_at ?r ''tblname''))" "?r ''fldname'' = Some (VStr (str_at ?r ''fldname''))"
      "?r ''type'' = Some (VInt (int_at ?r ''type''))" "?r ''length'' = Some (VInt (int_at ?r ''length''))"
      "?r ''offset'' = Some (VInt (int_at ?r ''offset''))"
      using assms(4) True by (simp_all add: has_strs_def has_ints_def)
    from ts_getString_ok [OF rest s1(2) r(1)] obtain s2 where
      s2: "ts_getString ''tblname'' ts1 s1 = (Inr (str_at ?r ''tblname''), s2)" "ready s2 (ts_own ts1 + M)" "alike s1 s2" by blast
    note l2 = alike_trans [OF s1(3) s2(3)] and rest2 = ts_rest_alike(1) [OF rest s2(3)]
    have d: "drop j rows = ?r # drop (Suc j) rows"
      using True by (simp add: Cons_nth_drop_Suc)
    have fuel: "length rows - Suc j < fuel"
      using Suc.prems(3) True by simp
    show ?thesis
    proof (cases "str_at ?r ''tblname'' = t")
      case eq: True
      from ts_getString_ok [OF rest2 s2(2) r(2)] obtain s3 where
        s3: "ts_getString ''fldname'' ts1 s2 = (Inr (str_at ?r ''fldname''), s3)" "ready s3 (ts_own ts1 + M)" "alike s2 s3" by blast
      note rest3 = ts_rest_alike(1) [OF rest2 s3(3)]
      from ts_getInt_ok [OF rest3 s3(2) r(3)] obtain s4 where
        s4: "ts_getInt ''type'' ts1 s3 = (Inr (int_at ?r ''type''), s4)" "ready s4 (ts_own ts1 + M)" "alike s3 s4" by blast
      note rest4 = ts_rest_alike(1) [OF rest3 s4(3)]
      from ts_getInt_ok [OF rest4 s4(2) r(4)] obtain s5 where
        s5: "ts_getInt ''length'' ts1 s4 = (Inr (int_at ?r ''length''), s5)" "ready s5 (ts_own ts1 + M)" "alike s4 s5" by blast
      note rest5 = ts_rest_alike(1) [OF rest4 s5(3)]
      from ts_getInt_ok [OF rest5 s5(2) r(5)] obtain s6 where
        s6: "ts_getInt ''offset'' ts1 s5 = (Inr (int_at ?r ''offset''), s6)" "ready s6 (ts_own ts1 + M)" "alike s5 s6" by blast
      note rest6 = ts_rest_alike(1) [OF rest5 s6(3)]
      note l6 = alike_trans [OF alike_trans [OF alike_trans [OF alike_trans [OF l2 s3(3)] s4(3)] s5(3)] s6(3)]
      from Suc.IH [OF rest6 s6(2) fuel, of "cat_add ?r sch" "om_put (str_at ?r ''fldname'') (int_at ?r ''offset'') offs"] obtain s7 ts7 where
        s7: "tm_findFields fuel k t (cat_add ?r sch) (om_put (str_at ?r ''fldname'') (int_at ?r ''offset'') offs) ts1 s6 =
            (Inr (cat_schema (filter (of_table t) (drop (Suc j) rows)) (cat_add ?r sch),
              cat_offsets (filter (of_table t) (drop (Suc j) rows)) (om_put (str_at ?r ''fldname'') (int_at ?r ''offset'') offs), ts7), s7)"
          "ready s7 (ts_own ts7 + M)" "alike s6 s7" by blast
      have "filter (of_table t) (drop j rows) = ?r # filter (of_table t) (drop (Suc j) rows)"
        using eq r(1) by (simp add: d of_table_def)
      with eq s1(1) s2(1) s3(1) s4(1) s5(1) s6(1) s7 alike_trans [OF l6 s7(3)] True show ?thesis
        by (intro exI [of _ s7] exI [of _ ts7]) (simp add: cmd_simps cat_schema_def cat_offsets_def cat_add_def Let_def)
    next
      case False
      from Suc.IH [OF rest2 s2(2) fuel] obtain s3 ts3 where
        s3: "tm_findFields fuel k t sch offs ts1 s2 =
            (Inr (cat_schema (filter (of_table t) (drop (Suc j) rows)) sch, cat_offsets (filter (of_table t) (drop (Suc j) rows)) offs, ts3), s3)"
          "ready s3 (ts_own ts3 + M)" "alike s2 s3" by blast
      have "filter (of_table t) (drop j rows) = filter (of_table t) (drop (Suc j) rows)"
        using False r(1) by (simp add: d of_table_def)
      with False s1(1) s2(1) s3 alike_trans [OF l2 s3(3)] True show ?thesis
        by (intro exI [of _ s3] exI [of _ ts3]) (simp add: cmd_simps)
    qed
  qed
qed

section \<open>The catalog tables\<close>

abbreviation tcat_file :: string where "tcat_file \<equiv> table_file ''tblcat''"
abbreviation fcat_file :: string where "fcat_file \<equiv> table_file ''fldcat''"

definition tcat_rows :: "table_mgr \<Rightarrow> 'a tx_scheme \<Rightarrow> row list" where
  "tcat_rows tm s = table_rows s (tm_tcatLayout tm) tcat_file"

definition fcat_rows :: "table_mgr \<Rightarrow> 'a tx_scheme \<Rightarrow> row list" where
  "fcat_rows tm s = table_rows s (tm_fcatLayout tm) fcat_file"

text \<open>The manager has the layouts of the catalog tables, and the tables can be read and written.\<close>

definition cat_ok :: "nat \<Rightarrow> table_mgr \<Rightarrow> 'a tx_scheme \<Rightarrow> bool" where
  "cat_ok k tm s \<longleftrightarrow> lay_new tm_tcatSchema = Inr (tm_tcatLayout tm) \<and> lay_new tm_fcatSchema = Inr (tm_fcatLayout tm) \<and>
     updatable k (tm_tcatLayout tm) ''tblcat'' s \<and> updatable k (tm_fcatLayout tm) ''fldcat'' s"

lemma lay_new_schema: "lay_new sch = Inr l \<Longrightarrow> lay_schema l = sch"
  by (auto simp: lay_new_def rbind_eq_Inr)

lemma row_typed_int:
  assumes "row_typed l r" "map_of (sch_info (lay_schema l)) f = Some fi" "fi_type fi = INTEGER"
  shows "r f = Some (VInt (int_at r f))"
proof -
  have "f \<in> dom r"
    using assms(1,2) by (auto simp: row_typed_def lay_fields_def)
  then obtain v where v: "r f = Some v" by blast
  then have "field_val l f v"
    using assms(1) by (simp add: row_typed_def)
  with v assms(2,3) show ?thesis
    by (cases v) (simp_all add: field_val_def int_at_def INTEGER_def VARCHAR_def)
qed

lemma row_typed_str:
  assumes "row_typed l r" "map_of (sch_info (lay_schema l)) f = Some fi" "fi_type fi = VARCHAR"
  shows "r f = Some (VStr (str_at r f))"
proof -
  have "f \<in> dom r"
    using assms(1,2) by (auto simp: row_typed_def lay_fields_def)
  then obtain v where v: "r f = Some v" by blast
  then have "field_val l f v"
    using assms(1) by (simp add: row_typed_def)
  with v assms(2,3) show ?thesis
    by (cases v) (simp_all add: field_val_def str_at_def INTEGER_def BOOLEAN_def VARCHAR_def)
qed

lemma tcat_info: "map_of (sch_info tm_tcatSchema) =
  [''slotsize'' \<mapsto> \<lparr>fi_type = INTEGER, fi_length = 0\<rparr>, ''tblname'' \<mapsto> \<lparr>fi_type = VARCHAR, fi_length = MAX_NAME\<rparr>]"
  by (simp add: tm_tcatSchema_def sch_addIntField_def sch_addStringField_def sch_addField_def sch_empty_def fun_eq_iff)

lemma fcat_info: "map_of (sch_info tm_fcatSchema) =
  [''tblname'' \<mapsto> \<lparr>fi_type = VARCHAR, fi_length = MAX_NAME\<rparr>, ''fldname'' \<mapsto> \<lparr>fi_type = VARCHAR, fi_length = MAX_NAME\<rparr>,
   ''type'' \<mapsto> \<lparr>fi_type = INTEGER, fi_length = 0\<rparr>, ''length'' \<mapsto> \<lparr>fi_type = INTEGER, fi_length = 0\<rparr>,
   ''offset'' \<mapsto> \<lparr>fi_type = INTEGER, fi_length = 0\<rparr>]"
  by (simp add: tm_fcatSchema_def sch_addIntField_def sch_addStringField_def sch_addField_def sch_empty_def fun_eq_iff)

lemma cat_typed:
  assumes "cat_ok k tm s"
  shows "\<forall>r \<in> set (tcat_rows tm s). has_strs [''tblname''] r \<and> has_ints [''slotsize''] r"
    "\<forall>r \<in> set (fcat_rows tm s). has_strs [''tblname'', ''fldname''] r \<and> has_ints [''type'', ''length'', ''offset''] r"
proof -
  have sch: "lay_schema (tm_tcatLayout tm) = tm_tcatSchema" "lay_schema (tm_fcatLayout tm) = tm_fcatSchema"
    using assms lay_new_schema by (auto simp: cat_ok_def)
  have "table_typed s (tm_tcatLayout tm) tcat_file" "table_typed s (tm_fcatLayout tm) fcat_file"
    using assms table_wf_typed by (auto simp: cat_ok_def updatable_def)
  then have t: "\<forall>r \<in> set (tcat_rows tm s). row_typed (tm_tcatLayout tm) r" "\<forall>r \<in> set (fcat_rows tm s). row_typed (tm_fcatLayout tm) r"
    by (simp_all add: table_typed_def tcat_rows_def fcat_rows_def)
  show "\<forall>r \<in> set (tcat_rows tm s). has_strs [''tblname''] r \<and> has_ints [''slotsize''] r"
    using t(1) row_typed_int [of "tm_tcatLayout tm"] row_typed_str [of "tm_tcatLayout tm"]
    by (simp add: has_strs_def has_ints_def sch tcat_info)
  show "\<forall>r \<in> set (fcat_rows tm s). has_strs [''tblname'', ''fldname''] r \<and> has_ints [''type'', ''length'', ''offset''] r"
    using t(2) row_typed_int [of "tm_fcatLayout tm"] row_typed_str [of "tm_fcatLayout tm"]
    by (simp add: has_strs_def has_ints_def sch fcat_info)
qed

lemma updatable_alike: "alike s s' \<Longrightarrow> updatable k l n s \<Longrightarrow> updatable k l n s'"
  using alike_table [of s s' "table_file n"] table_wf_alike [of s s' l "table_file n"] by (auto simp: updatable_def table_wf_def)

lemma cat_ok_alike: "alike s s' \<Longrightarrow> cat_ok k tm s \<Longrightarrow> cat_ok k tm s'"
  using updatable_alike by (auto simp: cat_ok_def)

lemma updatable_rows_alike: "alike s s' \<Longrightarrow> updatable k l n s \<Longrightarrow> table_rows s' l (table_file n) = table_rows s l (table_file n)"
  using alike_table(4) [of s s' "table_file n"] by (simp add: updatable_def table_wf_def)

lemma open_table:
  assumes "updatable k l n s" "ready s M" "size M < length (pool s)"
  shows "\<exists>s' ts. ts_new k n l s = (Inr ts, s') \<and> ready s' (ts_own ts + M) \<and> alike s s' \<and> on_block l (table_file n) 0 ts \<and>
    ts_slot ts = - 1 \<and> ts_rest k l (table_file n) s' ts (lay_fields l) (table_rows s l (table_file n)) (Some 0)"
proof -
  have u: "table_ok s l (table_file n)" "file_blocks s (table_file n) < k" "num_slots (blocksize s) l < k"
    using assms(1) by (simp_all add: updatable_def table_wf_ok)
  then have "pl_ok k s (TablePlan n l si_default)"
    by simp
  from ts_new_ok [OF this assms(2,3)] obtain s1 ts where
    s1: "ts_new k n l s = (Inr ts, s1)" "ready s1 (ts_own ts + M)" "alike s s1" "on_block l (table_file n) 0 ts" "ts_slot ts = - 1" by blast
  with ts_rest_alike(1) [OF ts_at_start [OF u(1) s1(4,5) u(2,3)] s1(3)] show ?thesis by blast
qed

lemma tm_getLayout_ok:
  assumes "cat_ok k tm s" "ready s M" "size M < length (pool s)"
  shows "\<exists>s'. tm_getLayout k tm t s = (Inr (cat_layout t (tcat_rows tm s) (fcat_rows tm s)), s') \<and> ready s' M \<and> alike s s'"
proof -
  have u: "updatable k (tm_tcatLayout tm) ''tblcat'' s" "updatable k (tm_fcatLayout tm) ''fldcat'' s"
    using assms(1) by (simp_all add: cat_ok_def)
  have len: "length (tcat_rows tm s) < k" "length (fcat_rows tm s) < k"
    using u by (simp_all add: updatable_def tcat_rows_def fcat_rows_def)
  note typed = cat_typed [OF assms(1)]
  from open_table [OF u(1) assms(2,3)] obtain s1 ts where
    s1: "ts_new k ''tblcat'' (tm_tcatLayout tm) s = (Inr ts, s1)" "ready s1 (ts_own ts + M)" "alike s s1"
      "ts_rest k (tm_tcatLayout tm) tcat_file s1 ts (lay_fields (tm_tcatLayout tm)) (tcat_rows tm s) (Some 0)"
    unfolding tcat_rows_def by blast
  have "length (tcat_rows tm s) - 0 < k"
    using len by simp
  from tm_findSize_ok [OF s1(4,2) this typed(1), of t] obtain s2 ts2 where
    s2: "tm_findSize k k t ts s1 = (Inr (cat_size t (tcat_rows tm s), ts2), s2)" "ready s2 (ts_own ts2 + M)" "alike s1 s2" by auto
  from ts_close_ok [OF s2(2)] obtain s3 where s3: "ts_close ts2 s2 = (Inr (), s3)" "ready s3 M" "alike s2 s3" by blast
  note l3 = alike_trans [OF alike_trans [OF s1(3) s2(3)] s3(3)]
  have "size M < length (pool s3)"
    using assms(3) l3 by (simp add: alike_def)
  from open_table [OF updatable_alike [OF l3 u(2)] s3(2) this] obtain s4 fs where
    s4: "ts_new k ''fldcat'' (tm_fcatLayout tm) s3 = (Inr fs, s4)" "ready s4 (ts_own fs + M)" "alike s3 s4"
      "ts_rest k (tm_fcatLayout tm) fcat_file s4 fs (lay_fields (tm_fcatLayout tm)) (fcat_rows tm s) (Some 0)"
    unfolding fcat_rows_def updatable_rows_alike [OF l3 u(2)] by blast
  have "length (fcat_rows tm s) - 0 < k"
    using len by simp
  from tm_findFields_ok [OF s4(4,2) this typed(2), of t sch_empty "[]"] obtain s5 fs2 where
    s5: "tm_findFields k k t sch_empty [] fs s4 = (Inr (cat_schema (filter (of_table t) (fcat_rows tm s)) sch_empty,
        cat_offsets (filter (of_table t) (fcat_rows tm s)) [], fs2), s5)" "ready s5 (ts_own fs2 + M)" "alike s4 s5" by auto
  from ts_close_ok [OF s5(2)] obtain s6 where s6: "ts_close fs2 s5 = (Inr (), s6)" "ready s6 M" "alike s5 s6" by blast
  from s1(1) s2(1) s3(1) s4(1) s5(1) s6(1,2) alike_trans [OF alike_trans [OF alike_trans [OF l3 s4(3)] s5(3)] s6(3)] show ?thesis
    by (intro exI [of _ s6]) (simp add: tm_getLayout_def cmd_simps cat_layout_def)
qed

section \<open>Adding records\<close>

text \<open>Setting some fields of the current record.\<close>

fun set_vals :: "(string \<times> val) list \<Rightarrow> tscan \<Rightarrow> ('a tx_scheme, unit) cmd" where
  "set_vals [] ts = ret ()"
| "set_vals ((f, v) # fvs) ts = seq (case v of VInt i \<Rightarrow> ts_setInt f i ts | VStr x \<Rightarrow> ts_setString f x ts) (set_vals fvs ts)"

lemma set_vals_ok:
  assumes "at_slot s l fn b i ts" "table_wf s l fn" "ready s (ts_own ts + M)" "loggable (blocksize s) l fn"
    "list_all (\<lambda>(f, v). field_val l f v) fvs"
  shows "\<exists>s'. set_vals fvs ts s = (Inr (), s') \<and> ready s' (ts_own ts + M) \<and>
    slot_set s s' l fn b i (slot_used s l fn b i) ((slot_row s l fn b i)(map fst fvs [\<mapsto>] map snd fvs))"
  using assms
proof (induction fvs arbitrary: s)
  case Nil
  with alike_slot [OF alike_refl Nil(2), of b i] show ?case
    by (simp add: cmd_simps)
next
  case (Cons fv fvs)
  obtain f v where fv: "fv = (f, v)" by fastforce
  have "\<exists>s1. (case v of VInt i \<Rightarrow> ts_setInt f i ts | VStr x \<Rightarrow> ts_setString f x ts) s = (Inr (), s1) \<and> ready s1 (ts_own ts + M) \<and>
    slot_set s s1 l fn b i (slot_used s l fn b i) ((slot_row s l fn b i)(f \<mapsto> v))"
    using ts_setInt_ok [OF Cons.prems(1-4)] ts_setString_ok [OF Cons.prems(1-4)] Cons.prems(5) by (cases v) (auto simp: fv)
  then obtain s1 where
    s1: "(case v of VInt i \<Rightarrow> ts_setInt f i ts | VStr x \<Rightarrow> ts_setString f x ts) s = (Inr (), s1)" "ready s1 (ts_own ts + M)"
      "slot_set s s1 l fn b i (slot_used s l fn b i) ((slot_row s l fn b i)(f \<mapsto> v))" by blast
  have s1': "table_wf s1 l fn" "loggable (blocksize s1) l fn" "slot_used s1 l fn b i = slot_used s l fn b i"
    "slot_row s1 l fn b i = (slot_row s l fn b i)(f \<mapsto> v)"
    using s1(3) Cons.prems(4) by (simp_all add: slot_set_def changed_def)
  have "list_all (\<lambda>(f, v). field_val l f v) fvs"
    using Cons.prems(5) by simp
  from Cons.IH [OF at_slot_set [OF Cons.prems(1) s1(3)] s1'(1) s1(2) s1'(2) this, unfolded s1'(3,4)] obtain s2 where
    s2: "set_vals fvs ts s1 = (Inr (), s2)" "ready s2 (ts_own ts + M)"
      "slot_set s1 s2 l fn b i (slot_used s l fn b i) ((slot_row s l fn b i)(f \<mapsto> v, map fst fvs [\<mapsto>] map snd fvs))" by blast
  with s1(1) slot_set_trans [OF s1(3) s2(3)] show ?case
    by (intro exI [of _ s2]) (simp add: fv cmd_simps)
qed

text \<open>
  A new record of a table scan lies behind the slots that the scan has passed; \<open>mid\<close> are the records
  that it passes on the way to the free slot.
\<close>

lemma add_record:
  assumes "table_wf s l fn" "on_block l fn b ts" "b < file_blocks s fn" "- 1 \<le> ts_slot ts" "ready s (ts_own ts + M)"
    "loggable (blocksize s) l fn" "ts_slot ts < int (num_slots (blocksize s) l)" "num_slots (blocksize s) l < k" "file_blocks s fn < k"
    "0 < num_slots (blocksize s) l"
    "list_all (\<lambda>(f, v). field_val l f v) fvs" "set (map fst fvs) = lay_fields l"
  shows "\<exists>s1 s' ts' b' i' mid. ts_insert k ts s = (Inr ts', s1) \<and> set_vals fvs ts' s1 = (Inr (), s') \<and> ready s' (ts_own ts' + M) \<and>
    at_slot s' l fn b' i' ts' \<and> table_wf s' l fn \<and> changed s s' fn \<and> file_blocks s' fn \<le> Suc (file_blocks s fn) \<and>
    rows_before s' l fn b' (Suc i') = rows_before s l fn b (nat (ts_slot ts + 1)) @ mid @ [Map.empty(map fst fvs [\<mapsto>] map snd fvs)] \<and>
    rows_after s l fn b (nat (ts_slot ts + 1)) = mid @ rows_after s' l fn b' (Suc i')"
proof -
  let ?i = "nat (ts_slot ts + 1)" and ?n = "num_slots (blocksize s) l"
  from ts_insert_onward [OF assms(1-6,10,8,9)] assms(7) obtain s1 ts1 b1 i1 where
    s1: "ts_insert k ts s = (Inr ts1, s1)" "ready s1 (ts_own ts1 + M)" "at_slot s1 l fn b1 i1 ts1" "inserted s s1 l fn b1 i1"
      "prefix (rows_before s l fn b ?i) (rows_before s1 l fn b1 i1)" by blast
  note ins = s1(4) [unfolded inserted_def]
  have w1: "table_wf s1 l fn" and log1: "loggable (blocksize s1) l fn" and bs1: "blocksize s1 = blocksize s"
    using ins assms(6) by (auto simp: changed_def)
  let ?r = "slot_row s1 l fn b1 i1" and ?new = "Map.empty(map fst fvs [\<mapsto>] map snd fvs)"
  have "page_wf (blocksize s1) l (file_page s1 fn b1)" "i1 < num_slots (blocksize s1) l"
    using w1 s1(3) by (simp_all add: table_wf_def at_slot_def)
  then have "dom ?r = lay_fields l"
    using slot_typed by (simp add: slot_row_def row_typed_def)
  then have new: "?r(map fst fvs [\<mapsto>] map snd fvs) = ?new"
    using assms(12) by (intro map_upds_all) simp_all
  from set_vals_ok [OF s1(3) w1 s1(2) log1 assms(11), unfolded new] obtain s2 where
    s2: "set_vals fvs ts1 s1 = (Inr (), s2)" "ready s2 (ts_own ts1 + M)" "slot_set s1 s2 l fn b1 i1 True ?new" using ins by auto
  obtain mid where mid: "rows_before s1 l fn b1 i1 = rows_before s l fn b ?i @ mid"
    using s1(5) by (auto simp: prefix_def)
  have before: "rows_before s2 l fn b1 (Suc i1) = rows_before s l fn b ?i @ mid @ [?new]"
    using s2(3) mid by (simp add: rows_before_Suc slot_set_def)
  have "?i \<le> ?n"
    using assms(7) by simp
  from table_rows_split [OF assms(3) this] ins mid s2(3) have after: "rows_after s l fn b ?i = mid @ rows_after s2 l fn b1 (Suc i1)"
    by (simp add: slot_set_def)
  have "changed s s2 fn" "table_wf s2 l fn" "file_blocks s2 fn \<le> Suc (file_blocks s fn)"
    using changed_trans [of s s1 fn s2] ins s2(3) by (simp_all add: slot_set_def)
  with s1(1) s2(1,2) at_slot_set [OF s1(3) s2(3)] before after show ?thesis by blast
qed

lemma bnd_laws: "bnd (bnd m f) g = bnd m (\<lambda>x. bnd (f x) g)" "bnd (ret x) f = f x" "bnd (lift (Inr x)) f = f x"
  by (simp_all add: fun_eq_iff bnd_def ret_def lift_def split: prod.split sum.split)

text \<open>The record of a field in \<open>fldcat\<close>.\<close>

definition fld_vals :: "string \<Rightarrow> layout \<Rightarrow> string \<Rightarrow> (string \<times> val) list" where
  "fld_vals t l f = (let fi = the (map_of (sch_info (lay_schema l)) f) in
     [(''tblname'', VStr t), (''fldname'', VStr f), (''type'', VInt (fi_type fi)), (''length'', VInt (fi_length fi)),
      (''offset'', VInt (the (map_of (lay_offsets l) f)))])"

definition row_of :: "(string \<times> val) list \<Rightarrow> row" where
  "row_of fvs = Map.empty(map fst fvs [\<mapsto>] map snd fvs)"

lemma tm_insertFields_Cons:
  assumes "map_of (sch_info (lay_schema l)) f = Some fi" "map_of (lay_offsets l) f = Some off"
    and "ts_insert k ts s = (Inr ts1, s1)" "set_vals (fld_vals t l f) ts1 s1 = (Inr (), s2)"
  shows "tm_insertFields k t (lay_schema l) l (f # fs) ts s = tm_insertFields k t (lay_schema l) l fs ts1 s2"
proof -
  have "tm_insertFields k t (lay_schema l) l (f # fs) ts s =
      bnd (ts_insert k ts) (\<lambda>ts. seq (set_vals (fld_vals t l f) ts) (tm_insertFields k t (lay_schema l) l fs ts)) s"
    using assms(1,2) by (simp add: fld_vals_def Let_def sch_fieldType_def sch_fieldLength_def lay_offset_def seq_def bnd_laws)
  then show ?thesis
    using assms(3,4) by (simp add: cmd_simps del: tm_insertFields.simps)
qed

lemma shuffles_skip: "zs \<in> shuffles xs ys \<Longrightarrow> ms @ zs \<in> shuffles xs (ms @ ys)"
  by (induction ms) (auto intro: Cons_in_shuffles_rightI)

lemma tm_insertFields_ok:
  assumes "table_wf s fl fn" "on_block fl fn b ts" "b < file_blocks s fn" "- 1 \<le> ts_slot ts" "ready s (ts_own ts + M)"
    "loggable (blocksize s) fl fn" "ts_slot ts < int (num_slots (blocksize s) fl)" "num_slots (blocksize s) fl < k"
    "file_blocks s fn + length fs \<le> k"
    "list_all (\<lambda>f. f \<in> dom (map_of (sch_info (lay_schema l))) \<inter> dom (map_of (lay_offsets l))) fs"
    "list_all (\<lambda>f. list_all (\<lambda>(g, v). field_val fl g v) (fld_vals t l f)) fs" "0 < num_slots (blocksize s) fl"
    "lay_fields fl = {''tblname'', ''fldname'', ''type'', ''length'', ''offset''}"
  shows "\<exists>s' ts' R. tm_insertFields k t (lay_schema l) l fs ts s = (Inr ts', s') \<and> ready s' (ts_own ts' + M) \<and>
    table_wf s' fl fn \<and> changed s s' fn \<and> file_blocks s' fn \<le> file_blocks s fn + length fs \<and>
    table_rows s' fl fn = rows_before s fl fn b (nat (ts_slot ts + 1)) @ R \<and>
    R \<in> shuffles (map (\<lambda>f. row_of (fld_vals t l f)) fs) (rows_after s fl fn b (nat (ts_slot ts + 1)))"
  using assms(1-12)
proof (induction fs arbitrary: s ts b)
  case Nil
  have "nat (ts_slot ts + 1) \<le> num_slots (blocksize s) fl"
    using Nil.prems(7) by simp
  from table_rows_split [OF Nil.prems(3) this] Nil.prems show ?case
    by (intro exI [of _ s] exI [of _ ts]) (simp add: cmd_simps alike_changed)
next
  case (Cons f fs)
  obtain fi off where f: "map_of (sch_info (lay_schema l)) f = Some fi" "map_of (lay_offsets l) f = Some off"
    using Cons.prems(10) by auto
  note n = Cons.prems(12)
  have fb: "file_blocks s fn < k"
    using Cons.prems(9) by simp
  have vals: "list_all (\<lambda>(g, v). field_val fl g v) (fld_vals t l f)" and fs: "set (map fst (fld_vals t l f)) = lay_fields fl"
    using Cons.prems(11) assms(13) by (simp_all add: fld_vals_def Let_def)
  from add_record [OF Cons.prems(1-8) fb n vals fs] obtain s1 s2 ts2 b2 i2 mid where
    s2: "ts_insert k ts s = (Inr ts2, s1)" "set_vals (fld_vals t l f) ts2 s1 = (Inr (), s2)" "ready s2 (ts_own ts2 + M)"
      "at_slot s2 fl fn b2 i2 ts2" "table_wf s2 fl fn" "changed s s2 fn" "file_blocks s2 fn \<le> Suc (file_blocks s fn)"
      "rows_before s2 fl fn b2 (Suc i2) = rows_before s fl fn b (nat (ts_slot ts + 1)) @ mid @ [row_of (fld_vals t l f)]"
      "rows_after s fl fn b (nat (ts_slot ts + 1)) = mid @ rows_after s2 fl fn b2 (Suc i2)"
    unfolding row_of_def by blast
  note at = s2(4) [unfolded at_slot_def]
  have bs: "blocksize s2 = blocksize s" and i2: "nat (ts_slot ts2 + 1) = Suc i2"
    using s2(6) at by (simp_all add: changed_def nat_add_distrib)
  have p: "on_block fl fn b2 ts2" "b2 < file_blocks s2 fn" "- 1 \<le> ts_slot ts2" "loggable (blocksize s2) fl fn"
    "ts_slot ts2 < int (num_slots (blocksize s2) fl)" "num_slots (blocksize s2) fl < k" "file_blocks s2 fn + length fs \<le> k"
    "list_all (\<lambda>f. f \<in> dom (map_of (sch_info (lay_schema l))) \<inter> dom (map_of (lay_offsets l))) fs"
    "list_all (\<lambda>f. list_all (\<lambda>(g, v). field_val fl g v) (fld_vals t l f)) fs" "0 < num_slots (blocksize s2) fl"
    using at Cons.prems(6,8-12) s2(7) bs by simp_all
  from Cons.IH [OF s2(5) p(1-3) s2(3) p(4-10), unfolded i2] obtain s3 ts3 R where
    s3: "tm_insertFields k t (lay_schema l) l fs ts2 s2 = (Inr ts3, s3)" "ready s3 (ts_own ts3 + M)" "table_wf s3 fl fn"
      "changed s2 s3 fn" "file_blocks s3 fn \<le> file_blocks s2 fn + length fs" "table_rows s3 fl fn = rows_before s2 fl fn b2 (Suc i2) @ R"
      "R \<in> shuffles (map (\<lambda>f. row_of (fld_vals t l f)) fs) (rows_after s2 fl fn b2 (Suc i2))" by blast
  let ?R = "mid @ row_of (fld_vals t l f) # R"
  have "?R \<in> shuffles (map (\<lambda>f. row_of (fld_vals t l f)) (f # fs)) (rows_after s fl fn b (nat (ts_slot ts + 1)))"
    unfolding s2(9) by (rule shuffles_skip) (simp add: Cons_in_shuffles_leftI s3(7))
  moreover have "table_rows s3 fl fn = rows_before s fl fn b (nat (ts_slot ts + 1)) @ ?R"
    using s3(6) by (simp add: s2(8))
  moreover have "tm_insertFields k t (lay_schema l) l (f # fs) ts s = (Inr ts3, s3)"
    using tm_insertFields_Cons [OF f s2(1,2)] s3(1) by simp
  ultimately show ?case
    using s3(2,3,5) changed_trans [OF s2(6) s3(4)] s2(7) by (intro exI [of _ s3] exI [of _ ts3] exI [of _ ?R]) simp
qed

section \<open>The description of a table\<close>

text \<open>Two ordered maps with the same entries are the same list.\<close>

lemma om_eqI:
  assumes "om_ok a" "om_ok b" "map_of a = map_of b"
  shows "a = b"
proof -
  have "set (map fst a) = set (map fst b)"
    using assms(3) by (metis dom_map_of_conv_image_fst list.set_map)
  then have keys: "map fst a = map fst b"
    using assms(1,2) by (intro strict_sorted_equal) (simp_all add: om_ok_def)
  have "m = map (\<lambda>k. (k, the (map_of m k))) (map fst m)" if "om_ok m" for m :: "('a \<times> 'b) list"
  proof (rule nth_equalityI)
    fix i assume i: "i < length m"
    have "map_of m (fst (m ! i)) = Some (snd (m ! i))"
      using om_ok_distinct [OF that] nth_mem [OF i] by (intro map_of_is_SomeI) simp_all
    with i show "m ! i = map (\<lambda>k. (k, the (map_of m k))) (map fst m) ! i"
      by (simp add: prod_eq_iff)
  qed simp
  with assms keys show ?thesis by metis
qed

lemma fold_om_put: "map_of (fold (\<lambda>f. om_put f (the (m f))) fs base) = (\<lambda>x. if x \<in> set fs then Some (the (m x)) else map_of base x)"
  by (induction fs arbitrary: base) (auto simp: fun_eq_iff)

lemma om_ok_fold: "om_ok base \<Longrightarrow> om_ok (fold (\<lambda>f. om_put f (g f)) fs base)"
  by (induction fs arbitrary: base) (simp_all add: om_ok_put)

lemma om_rebuild:
  assumes "om_ok m" "dom (map_of m) = set fs"
  shows "fold (\<lambda>f. om_put f (the (map_of m f))) fs [] = m"
proof (rule om_eqI)
  show "map_of (fold (\<lambda>f. om_put f (the (map_of m f))) fs []) = map_of m"
  proof
    fix x
    have "x \<in> set fs \<longleftrightarrow> map_of m x \<noteq> None"
      using assms(2) by (simp flip: assms(2) add: domIff)
    then show "map_of (fold (\<lambda>f. om_put f (the (map_of m f))) fs []) x = map_of m x"
      by (cases "map_of m x") (simp_all add: fold_om_put)
  qed
qed (simp_all add: assms(1) om_ok_fold)

lemma lay_place_om_ok: "lay_place sch fs offs pos = Inr (offs', pos') \<Longrightarrow> om_ok offs \<Longrightarrow> om_ok offs'"
  by (induction fs arbitrary: offs pos) (auto simp: rbind_eq_Inr om_ok_put)

text \<open>The schemas of statements: only string fields have a length, and the map is ordered.\<close>

definition sch_plain :: "schema \<Rightarrow> bool" where
  "sch_plain sch \<longleftrightarrow> sch_ok sch \<and> om_ok (sch_info sch) \<and>
     (\<forall>f fi. map_of (sch_info sch) f = Some fi \<longrightarrow> fi_type fi \<noteq> VARCHAR \<longrightarrow> fi_length fi = 0)"

lemma sch_plain_empty [simp]: "sch_plain sch_empty"
  by (simp add: sch_plain_def) (simp add: sch_empty_def)

lemma sch_plain_add:
  "sch_plain sch \<Longrightarrow> sch_plain (sch_addIntField f sch)" "sch_plain sch \<Longrightarrow> sch_plain (sch_addBoolField f sch)"
  "sch_plain sch \<Longrightarrow> 0 \<le> n \<Longrightarrow> sch_plain (sch_addStringField f n sch)"
  by (auto simp: sch_plain_def sch_addIntField_def sch_addBoolField_def sch_addStringField_def sch_ok_addField)
    (auto simp: sch_addField_def om_ok_put split: if_splits)

lemma row_of_fld:
  assumes "map_of (sch_info (lay_schema l)) f = Some fi"
  shows "of_table t' (row_of (fld_vals t l f)) \<longleftrightarrow> t' = t" "str_at (row_of (fld_vals t l f)) ''fldname'' = f"
    "int_at (row_of (fld_vals t l f)) ''type'' = fi_type fi" "int_at (row_of (fld_vals t l f)) ''length'' = fi_length fi"
    "int_at (row_of (fld_vals t l f)) ''offset'' = the (map_of (lay_offsets l) f)"
  using assms by (auto simp: row_of_def fld_vals_def Let_def of_table_def str_at_def int_at_def)

text \<open>From the records of a table's fields its schema and its offsets come back.\<close>

lemma cat_fields_back:
  assumes "sch_plain sch" "lay_new sch = Inr l"
  shows "cat_schema (map (\<lambda>f. row_of (fld_vals t l f)) (sch_fields sch)) sch_empty = sch"
    "cat_offsets (map (\<lambda>f. row_of (fld_vals t l f)) (sch_fields sch)) [] = lay_offsets l"
proof -
  have sch: "lay_schema l = sch"
    by (rule lay_new_schema [OF assms(2)])
  have ok: "sch_ok sch"
    using assms(1) by (simp add: sch_plain_def)
  then have dom: "set (sch_fields sch) = dom (map_of (sch_info sch))"
    by (simp add: sch_ok_def)
  let ?i = "\<lambda>f. the (map_of (sch_info sch) f)" and ?row = "\<lambda>f. row_of (fld_vals t l f)"
  have add: "cat_add (?row f) = sch_addField f (fi_type (?i f)) (fi_length (?i f))" if "f \<in> set (sch_fields sch)" for f
  proof -
    from that have "f \<in> dom (map_of (sch_info sch))"
      unfolding dom .
    then obtain fi where fi: "map_of (sch_info sch) f = Some fi"
      by blast
    then have "fi_type fi \<in> {INTEGER, VARCHAR, BOOLEAN}" "fi_type fi \<noteq> VARCHAR \<longrightarrow> fi_length fi = 0"
      using assms(1) ok by (auto simp: sch_plain_def sch_ok_def)
    with fi row_of_fld [of l f fi t] show ?thesis
      by (auto simp: cat_add_def sch fun_eq_iff sch_addIntField_def sch_addBoolField_def sch_addStringField_def INTEGER_def BOOLEAN_def VARCHAR_def)
  qed
  have eta: "\<lparr>fi_type = fi_type x, fi_length = fi_length x\<rparr> = x" for x
    by (cases x) simp
  have "fold (\<lambda>f. sch_addField f (fi_type (?i f)) (fi_length (?i f))) fs base =
      \<lparr>sch_fields = sch_fields base @ fs, sch_info = fold (\<lambda>f. om_put f (?i f)) fs (sch_info base)\<rparr>" for fs base
    by (induction fs arbitrary: base) (simp_all add: sch_addField_def eta)
  moreover have "cat_schema (map ?row (sch_fields sch)) sch_empty =
      fold (\<lambda>f. sch_addField f (fi_type (?i f)) (fi_length (?i f))) (sch_fields sch) sch_empty"
    unfolding cat_schema_def fold_map comp_def using add by (intro fold_cong refl) simp
  ultimately show "cat_schema (map ?row (sch_fields sch)) sch_empty = sch"
    using om_rebuild [of "sch_info sch" "sch_fields sch"] assms(1) dom by (simp add: sch_plain_def sch_empty_def)
  have "lay_ok l" "om_ok (lay_offsets l)"
    using lay_new_ok [OF ok assms(2)] assms(2) lay_place_om_ok [of sch "sch_fields sch" "[]"] by (auto simp: lay_new_def rbind_eq_Inr)
  moreover have "cat_offsets (map ?row (sch_fields sch)) [] = fold (\<lambda>f. om_put f (the (map_of (lay_offsets l) f))) (sch_fields sch) []"
    unfolding cat_offsets_def fold_map comp_def
  proof (intro fold_cong refl)
    fix f assume "f \<in> set (sch_fields sch)"
    then have "f \<in> dom (map_of (sch_info (lay_schema l)))"
      unfolding sch dom .
    then obtain fi where "map_of (sch_info (lay_schema l)) f = Some fi"
      by blast
    from row_of_fld [OF this, of t] show "om_put (str_at (?row f) ''fldname'') (int_at (?row f) ''offset'') =
        om_put f (the (map_of (lay_offsets l) f))" by simp
  qed
  ultimately show "cat_offsets (map ?row (sch_fields sch)) [] = lay_offsets l"
    using om_rebuild [of "lay_offsets l" "sch_fields sch"] dom sch by (simp add: lay_ok_def lay_fields_def)
qed

text \<open>The values of the catalog records are of the types of their fields.\<close>

definition names_fit :: "string \<Rightarrow> schema \<Rightarrow> bool" where
  "names_fit t sch \<longleftrightarrow> int (length t) \<le> MAX_NAME \<and> (\<forall>f \<in> set (sch_fields sch). int (length f) \<le> MAX_NAME)"

lemma fld_vals_typed:
  assumes "sch_plain sch" "lay_new sch = Inr l" "lay_slotSize l < 2 ^ 31" "names_fit t sch" "lay_new tm_fcatSchema = Inr fl" "f \<in> set (sch_fields sch)"
  shows "list_all (\<lambda>(g, v). field_val fl g v) (fld_vals t l f)" "f \<in> dom (map_of (sch_info (lay_schema l))) \<inter> dom (map_of (lay_offsets l))"
proof -
  have sch: "lay_schema l = sch" "lay_schema fl = tm_fcatSchema"
    using lay_new_schema assms(2,5) by blast+
  have ok: "sch_ok sch"
    using assms(1) by (simp add: sch_plain_def)
  note lok = lay_new_ok [OF ok assms(2)]
  have f: "f \<in> lay_fields l"
    using assms(6) ok by (auto simp: lay_fields_def sch sch_ok_def)
  then show "f \<in> dom (map_of (sch_info (lay_schema l))) \<inter> dom (map_of (lay_offsets l))"
    using lok by (simp add: lay_ok_def lay_fields_def)
  obtain off m fi where fi: "lay_offset f l = Inr off" "lay_lengthInBytes (lay_schema l) f = Inr m" "4 \<le> off"
    "off + m \<le> lay_slotSize l" "map_of (sch_info (lay_schema l)) f = Some fi" "fi_type fi \<in> {INTEGER, VARCHAR, BOOLEAN}" "0 \<le> fi_length fi"
    by (rule field_place [OF lok f])
  have off: "map_of (lay_offsets l) f = Some off"
    using fi(1) by (simp add: lay_offset_def split: option.splits)
  have "fi_length fi \<le> m" "0 \<le> m"
    using fi(2,5-7) assms(1)
    by (auto simp: lay_lengthInBytes_def sch_fieldType_def sch_fieldLength_def maxLength_def sch sch_plain_def INTEGER_def BOOLEAN_def VARCHAR_def)
  then have "int32 (fi_length fi)" "int32 off" "int32 (fi_type fi)"
    using fi(3,4,6,7) assms(3) by (auto simp: int32_def INTEGER_def BOOLEAN_def VARCHAR_def)
  then show "list_all (\<lambda>(g, v). field_val fl g v) (fld_vals t l f)"
    using assms(4,6) fi(5) by (simp add: fld_vals_def Let_def field_val_def sch fcat_info off names_fit_def)
qed

section \<open>Creating a table\<close>

lemma changed_table:
  assumes "changed s s' g" "fn \<noteq> g" "fn \<noteq> logFileName s" "fn \<noteq> []"
  shows "file_blocks s' fn = file_blocks s fn" "file_page s' fn b = file_page s fn b" "table_rows s' l fn = table_rows s l fn"
    "blocksize s' = blocksize s" "table_wf s l fn \<Longrightarrow> table_wf s' l fn"
proof -
  show fb: "file_blocks s' fn = file_blocks s fn" and bs: "blocksize s' = blocksize s"
    using assms by (simp_all add: file_blocks_def changed_def)
  have "view s' (BlockId fn (int b)) = view s (BlockId fn (int b))" for b
    using assms unfolding changed_def by (simp add: data_blk_def)
  then show fp: "file_page s' fn b = file_page s fn b" for b
    by (simp add: file_page_def)
  show "table_rows s' l fn = table_rows s l fn"
    by (simp add: table_rows_def rows_from_def fb bs fp)
  show "table_wf s l fn \<Longrightarrow> table_wf s' l fn"
    using assms(1) by (auto simp: table_wf_def fb bs fp changed_def)
qed

lemma updatable_changed:
  assumes "changed s s' g" "updatable k l n s" "table_file n \<noteq> g"
  shows "updatable k l n s'" "table_rows s' l (table_file n) = table_rows s l (table_file n)"
proof -
  have fn: "table_file n \<noteq> logFileName s" "table_file n \<noteq> []"
    using assms(2) by (simp_all add: updatable_def table_wf_def)
  note c = changed_table [OF assms(1,3) fn]
  show "updatable k l n s'" "table_rows s' l (table_file n) = table_rows s l (table_file n)"
    using assms(2) c by (simp_all add: updatable_def)
qed

text \<open>The catalogs have space for a table with \<open>n\<close> fields within the bounds of the loops.\<close>

definition cat_room :: "nat \<Rightarrow> nat \<Rightarrow> table_mgr \<Rightarrow> 'a tx_scheme \<Rightarrow> bool" where
  "cat_room k n tm s \<longleftrightarrow> cat_ok k tm s \<and> 0 < num_slots (blocksize s) (tm_tcatLayout tm) \<and> 0 < num_slots (blocksize s) (tm_fcatLayout tm) \<and>
     file_blocks s tcat_file + 1 < k \<and> length (tcat_rows tm s) + 1 < k \<and>
     file_blocks s fcat_file + n < k \<and> length (fcat_rows tm s) + n < k"

definition tbl_vals :: "string \<Rightarrow> int \<Rightarrow> (string \<times> val) list" where
  "tbl_vals t n = [(''tblname'', VStr t), (''slotsize'', VInt n)]"

text \<open>Opening a table, adding records behind each other, and closing it.\<close>

lemma create_tcat:
  assumes "cat_ok k tm s" "ready s M" "size M < length (pool s)" "0 < num_slots (blocksize s) (tm_tcatLayout tm)"
    "file_blocks s tcat_file + 1 < k" "length (tcat_rows tm s) + 1 < k" "int (length t) \<le> MAX_NAME" "int32 n"
  shows "\<exists>s1 s2 s3 s' ts ts'. ts_new k ''tblcat'' (tm_tcatLayout tm) s = (Inr ts, s1) \<and> ts_insert k ts s1 = (Inr ts', s2) \<and>
    set_vals (tbl_vals t n) ts' s2 = (Inr (), s3) \<and> ts_close ts' s3 = (Inr (), s') \<and> ready s' M \<and> changed s s' tcat_file \<and>
    updatable k (tm_tcatLayout tm) ''tblcat'' s' \<and> tcat_rows tm s' \<in> shuffles [row_of (tbl_vals t n)] (tcat_rows tm s)"
proof -
  let ?l = "tm_tcatLayout tm"
  have u: "updatable k ?l ''tblcat'' s" and sch: "lay_schema ?l = tm_tcatSchema"
    using assms(1) lay_new_schema by (auto simp: cat_ok_def)
  from open_table [OF u assms(2,3)] obtain s1 ts where
    s1: "ts_new k ''tblcat'' ?l s = (Inr ts, s1)" "ready s1 (ts_own ts + M)" "alike s s1" "on_block ?l tcat_file 0 ts" "ts_slot ts = - 1" by blast
  note u1 = updatable_alike [OF s1(3) u] and r1 = updatable_rows_alike [OF s1(3) u]
  have fb: "file_blocks s1 tcat_file = file_blocks s tcat_file"
    using alike_table(1) [OF s1(3), of tcat_file] u by (simp add: updatable_def table_wf_def)
  have p: "table_wf s1 ?l tcat_file" "0 < file_blocks s1 tcat_file" "- 1 \<le> ts_slot ts" "loggable (blocksize s1) ?l tcat_file"
    "ts_slot ts < int (num_slots (blocksize s1) ?l)" "num_slots (blocksize s1) ?l < k" "file_blocks s1 tcat_file < k"
    "0 < num_slots (blocksize s1) ?l"
    using u1 s1(3,5) assms(4) by (simp_all add: updatable_def table_wf_def alike_def)
  have vals: "list_all (\<lambda>(f, v). field_val ?l f v) (tbl_vals t n)" "set (map fst (tbl_vals t n)) = lay_fields ?l"
    using assms(7,8) by (auto simp: tbl_vals_def field_val_def lay_fields_def sch tcat_info)
  from add_record [OF p(1) s1(4) p(2,3) s1(2) p(4-8) vals] obtain s2 s3 ts' b i mid where
    s3: "ts_insert k ts s1 = (Inr ts', s2)" "set_vals (tbl_vals t n) ts' s2 = (Inr (), s3)" "ready s3 (ts_own ts' + M)"
      "at_slot s3 ?l tcat_file b i ts'" "table_wf s3 ?l tcat_file" "changed s1 s3 tcat_file"
      "file_blocks s3 tcat_file \<le> Suc (file_blocks s1 tcat_file)"
      "rows_before s3 ?l tcat_file b (Suc i) = rows_before s1 ?l tcat_file 0 0 @ mid @ [row_of (tbl_vals t n)]"
      "rows_after s1 ?l tcat_file 0 0 = mid @ rows_after s3 ?l tcat_file b (Suc i)"
    unfolding row_of_def by (auto simp: s1(5))
  from ts_close_ok [OF s3(3)] obtain s4 where s4: "ts_close ts' s3 = (Inr (), s4)" "ready s4 M" "alike s3 s4" by blast
  have rows1: "table_rows s1 ?l tcat_file = mid @ rows_after s3 ?l tcat_file b (Suc i)"
    using table_rows_split [of 0 s1 tcat_file 0 ?l] p(2) s3(9) by (simp add: rows_before_def)
  have "table_rows s3 ?l tcat_file = mid @ row_of (tbl_vals t n) # rows_after s3 ?l tcat_file b (Suc i)"
    using table_rows_split [of b s3 tcat_file "Suc i" ?l] s3(4,8) by (simp add: at_slot_def rows_before_def)
  then have rows3: "table_rows s3 ?l tcat_file \<in> shuffles [row_of (tbl_vals t n)] (table_rows s1 ?l tcat_file)"
    unfolding rows1 by (simp only:) (intro shuffles_skip Cons_in_shuffles_leftI, simp)
  have "blocksize s3 = blocksize s1"
    using s3(6) by (simp add: changed_def)
  then have "updatable k ?l ''tblcat'' s3"
    using s3(5,7) p(4,6) assms(5,6) fb length_shuffles [OF rows3] r1 by (simp add: updatable_def tcat_rows_def)
  with s1(1) s3(1,2) s4 changed_trans [OF changed_trans [OF alike_changed [OF s1(3)] s3(6)] alike_changed [OF s4(3)]] rows3
    updatable_alike [OF s4(3)] updatable_rows_alike [OF s4(3)] r1 show ?thesis
    unfolding tcat_rows_def by metis
qed

lemma create_fcat:
  assumes "cat_ok k tm s" "ready s M" "size M < length (pool s)" "0 < num_slots (blocksize s) (tm_fcatLayout tm)"
    "file_blocks s fcat_file + length (sch_fields sch) < k" "length (fcat_rows tm s) + length (sch_fields sch) < k"
    "sch_plain sch" "lay_new sch = Inr l" "lay_slotSize l < 2 ^ 31" "names_fit t sch"
  shows "\<exists>s1 s2 s' ts ts'. ts_new k ''fldcat'' (tm_fcatLayout tm) s = (Inr ts, s1) \<and>
    tm_insertFields k t sch l (sch_fields sch) ts s1 = (Inr ts', s2) \<and> ts_close ts' s2 = (Inr (), s') \<and> ready s' M \<and>
    changed s s' fcat_file \<and> updatable k (tm_fcatLayout tm) ''fldcat'' s' \<and>
    fcat_rows tm s' \<in> shuffles (map (\<lambda>f. row_of (fld_vals t l f)) (sch_fields sch)) (fcat_rows tm s)"
proof -
  let ?l = "tm_fcatLayout tm" and ?fs = "sch_fields sch"
  have u: "updatable k ?l ''fldcat'' s" and new: "lay_new tm_fcatSchema = Inr ?l"
    using assms(1) by (auto simp: cat_ok_def)
  have sch: "lay_schema ?l = tm_fcatSchema" "lay_schema l = sch"
    using new assms(8) lay_new_schema by blast+
  from open_table [OF u assms(2,3)] obtain s1 ts where
    s1: "ts_new k ''fldcat'' ?l s = (Inr ts, s1)" "ready s1 (ts_own ts + M)" "alike s s1" "on_block ?l fcat_file 0 ts" "ts_slot ts = - 1" by blast
  note u1 = updatable_alike [OF s1(3) u] and r1 = updatable_rows_alike [OF s1(3) u]
  have fb: "file_blocks s1 fcat_file = file_blocks s fcat_file"
    using alike_table(1) [OF s1(3), of fcat_file] u by (simp add: updatable_def table_wf_def)
  have p: "table_wf s1 ?l fcat_file" "0 < file_blocks s1 fcat_file" "- 1 \<le> ts_slot ts" "loggable (blocksize s1) ?l fcat_file"
    "ts_slot ts < int (num_slots (blocksize s1) ?l)" "num_slots (blocksize s1) ?l < k" "file_blocks s1 fcat_file + length ?fs \<le> k"
    "0 < num_slots (blocksize s1) ?l"
    using u1 s1(3,5) assms(4,5) fb by (simp_all add: updatable_def table_wf_def alike_def)
  note typed = fld_vals_typed [OF assms(7-10) new]
  have q: "list_all (\<lambda>f. f \<in> dom (map_of (sch_info (lay_schema l))) \<inter> dom (map_of (lay_offsets l))) ?fs"
    "list_all (\<lambda>f. list_all (\<lambda>(g, v). field_val ?l g v) (fld_vals t l f)) ?fs"
    using typed by (simp_all only: list_all_iff) blast+
  have "lay_fields ?l = {''tblname'', ''fldname'', ''type'', ''length'', ''offset''}"
    by (auto simp: lay_fields_def sch fcat_info)
  from tm_insertFields_ok [OF p(1) s1(4) p(2,3) s1(2) p(4-7) q p(8) this] obtain s2 ts' R where
    s2: "tm_insertFields k t sch l ?fs ts s1 = (Inr ts', s2)" "ready s2 (ts_own ts' + M)" "table_wf s2 ?l fcat_file"
      "changed s1 s2 fcat_file" "file_blocks s2 fcat_file \<le> file_blocks s1 fcat_file + length ?fs"
      "table_rows s2 ?l fcat_file = rows_before s1 ?l fcat_file 0 0 @ R"
      "R \<in> shuffles (map (\<lambda>f. row_of (fld_vals t l f)) ?fs) (rows_after s1 ?l fcat_file 0 0)"
    by (auto simp: s1(5) sch)
  from ts_close_ok [OF s2(2)] obtain s3 where s3: "ts_close ts' s2 = (Inr (), s3)" "ready s3 M" "alike s2 s3" by blast
  have rows2: "table_rows s2 ?l fcat_file \<in> shuffles (map (\<lambda>f. row_of (fld_vals t l f)) ?fs) (table_rows s1 ?l fcat_file)"
    using table_rows_split [of 0 s1 fcat_file 0 ?l] p(2) s2(6,7) by (simp add: rows_before_def)
  have "blocksize s2 = blocksize s1"
    using s2(4) by (simp add: changed_def)
  then have "updatable k ?l ''fldcat'' s2"
    using s2(3,5) p(4,6) assms(5,6) fb length_shuffles [OF rows2] r1 by (simp add: updatable_def fcat_rows_def)
  with s1(1) s2(1) s3 changed_trans [OF changed_trans [OF alike_changed [OF s1(3)] s2(4)] alike_changed [OF s3(3)]] rows2
    updatable_alike [OF s3(3)] updatable_rows_alike [OF s3(3)] r1 show ?thesis
    unfolding fcat_rows_def by metis
qed

lemma tcat_fcat_file: "tcat_file \<noteq> fcat_file" "fcat_file \<noteq> tcat_file"
  by (simp_all add: table_file_def)

lemma tm_createTable_ok:
  assumes "cat_room k (length (sch_fields sch)) tm s" "ready s M" "size M < length (pool s)"
    "sch_plain sch" "lay_new sch = Inr l" "lay_slotSize l < 2 ^ 31" "names_fit t sch"
  shows "\<exists>s1 s'. tm_createTable k tm t sch s = (Inr (), s') \<and> ready s' M \<and> changed s s1 tcat_file \<and> changed s1 s' fcat_file \<and>
    cat_ok k tm s' \<and> tcat_rows tm s' \<in> shuffles [row_of (tbl_vals t (lay_slotSize l))] (tcat_rows tm s) \<and>
    fcat_rows tm s' \<in> shuffles (map (\<lambda>f. row_of (fld_vals t l f)) (sch_fields sch)) (fcat_rows tm s)"
proof -
  have r: "cat_ok k tm s" "0 < num_slots (blocksize s) (tm_tcatLayout tm)" "file_blocks s tcat_file + 1 < k"
    "length (tcat_rows tm s) + 1 < k" "0 < num_slots (blocksize s) (tm_fcatLayout tm)"
    "file_blocks s fcat_file + length (sch_fields sch) < k" "length (fcat_rows tm s) + length (sch_fields sch) < k"
    using assms(1) by (simp_all add: cat_room_def)
  have u: "updatable k (tm_fcatLayout tm) ''fldcat'' s"
    using r(1) by (simp add: cat_ok_def)
  have "lay_ok l"
    using lay_new_ok [OF _ assms(5)] assms(4) by (simp add: sch_plain_def)
  then have "int32 (lay_slotSize l)"
    using lay_size [of l] assms(6) by (simp add: int32_def)
  moreover have "int (length t) \<le> MAX_NAME"
    using assms(7) by (simp add: names_fit_def)
  ultimately obtain s1 s2 s3 s4 ts ts' where
    s4: "ts_new k ''tblcat'' (tm_tcatLayout tm) s = (Inr ts, s1)" "ts_insert k ts s1 = (Inr ts', s2)"
      "set_vals (tbl_vals t (lay_slotSize l)) ts' s2 = (Inr (), s3)" "ts_close ts' s3 = (Inr (), s4)" "ready s4 M" "changed s s4 tcat_file"
      "updatable k (tm_tcatLayout tm) ''tblcat'' s4" "tcat_rows tm s4 \<in> shuffles [row_of (tbl_vals t (lay_slotSize l))] (tcat_rows tm s)"
    using create_tcat [OF r(1) assms(2,3) r(2-4)] by blast
  note u4 = updatable_changed [OF s4(6) u tcat_fcat_file(2)]
  have fn: "fcat_file \<noteq> logFileName s" "fcat_file \<noteq> []"
    using u by (simp_all add: updatable_def table_wf_def)
  note c4 = changed_table [OF s4(6) tcat_fcat_file(2) fn]
  have ok4: "cat_ok k tm s4" "size M < length (pool s4)" "fcat_rows tm s4 = fcat_rows tm s"
    using r(1) s4(6,7) u4 assms(3) by (simp_all add: cat_ok_def changed_def fcat_rows_def)
  have r4: "0 < num_slots (blocksize s4) (tm_fcatLayout tm)" "file_blocks s4 fcat_file + length (sch_fields sch) < k"
    "length (fcat_rows tm s4) + length (sch_fields sch) < k"
    using r(5-7) c4(1,4) ok4(3) by simp_all
  from create_fcat [OF ok4(1) s4(5) ok4(2) r4 assms(4-7), unfolded ok4(3)] obtain s5 s6 s7 fs fs' where
    s7: "ts_new k ''fldcat'' (tm_fcatLayout tm) s4 = (Inr fs, s5)" "tm_insertFields k t sch l (sch_fields sch) fs s5 = (Inr fs', s6)"
      "ts_close fs' s6 = (Inr (), s7)" "ready s7 M" "changed s4 s7 fcat_file" "updatable k (tm_fcatLayout tm) ''fldcat'' s7"
      "fcat_rows tm s7 \<in> shuffles (map (\<lambda>f. row_of (fld_vals t l f)) (sch_fields sch)) (fcat_rows tm s)"
    by blast
  note u7 = updatable_changed [OF s7(5) s4(7) tcat_fcat_file(1)]
  have "tm_createTable k tm t sch s =
      seq (set_vals (tbl_vals t (lay_slotSize l)) ts') (seq (ts_close ts')
        (bnd (ts_new k ''fldcat'' (tm_fcatLayout tm)) (\<lambda>fcat. bnd (tm_insertFields k t sch l (sch_fields sch) fcat) ts_close))) s2"
    using s4(1,2) by (simp add: tm_createTable_def assms(5) cmd_simps tbl_vals_def seq_def bnd_laws)
  also have "\<dots> = (Inr (), s7)"
    using s4(3,4) s7(1-3) by (simp add: cmd_simps)
  finally have "tm_createTable k tm t sch s = (Inr (), s7)" .
  moreover have "cat_ok k tm s7"
    using r(1) s7(6) u7(1) by (simp add: cat_ok_def)
  moreover have "tcat_rows tm s7 = tcat_rows tm s4"
    using u7(2) by (simp add: tcat_rows_def)
  ultimately show ?thesis
    using s4(6,8) s7(4,5,7) by metis
qed

lemma filter_shuffle:
  assumes "zs \<in> shuffles xs ys"
  shows "filter P zs \<in> shuffles (filter P xs) (filter P ys)"
  using assms filter_shuffles [of P xs ys] by blast

lemma row_of_tbl: "of_table t' (row_of (tbl_vals t n)) \<longleftrightarrow> t' = t" "int_at (row_of (tbl_vals t n)) ''slotsize'' = n"
  by (auto simp: row_of_def tbl_vals_def of_table_def int_at_def)

text \<open>What \<open>createTable\<close> adds to the catalog describes the new table, and the other tables as before.\<close>

lemma created_layout:
  assumes "tcat' \<in> shuffles [row_of (tbl_vals t (lay_slotSize l))] tcat"
    "fcat' \<in> shuffles (map (\<lambda>f. row_of (fld_vals t l f)) (sch_fields sch)) fcat"
    "\<forall>r \<in> set tcat \<union> set fcat. \<not> of_table t r" "sch_plain sch" "lay_new sch = Inr l"
  shows "cat_layout t' tcat' fcat' = (if t' = t then l else cat_layout t' tcat fcat)"
    "t' \<noteq> t \<Longrightarrow> \<forall>r \<in> set tcat \<union> set fcat. \<not> of_table t' r \<Longrightarrow> \<forall>r \<in> set tcat' \<union> set fcat'. \<not> of_table t' r"
proof -
  have sch: "lay_schema l = sch" "\<forall>f \<in> set (sch_fields sch). \<exists>fi. map_of (sch_info (lay_schema l)) f = Some fi"
    using lay_new_schema [OF assms(5)] assms(4) by (auto simp: sch_plain_def sch_ok_def)
  have "of_table t' (row_of (fld_vals t l f)) \<longleftrightarrow> t' = t" if "f \<in> set (sch_fields sch)" for f
    using row_of_fld(1) sch(2) that by blast
  then have "filter (of_table t') (map (\<lambda>f. row_of (fld_vals t l f)) (sch_fields sch)) =
      (if t' = t then map (\<lambda>f. row_of (fld_vals t l f)) (sch_fields sch) else [])"
    by (auto simp: filter_map filter_empty_conv filter_id_conv)
  then have rows: "filter (of_table t') tcat' = (if t' = t then [row_of (tbl_vals t (lay_slotSize l))] else filter (of_table t') tcat)"
    "filter (of_table t') fcat' = (if t' = t then map (\<lambda>f. row_of (fld_vals t l f)) (sch_fields sch) else filter (of_table t') fcat)"
    using filter_shuffle [OF assms(1), of "of_table t'"] filter_shuffle [OF assms(2), of "of_table t'"] assms(3)
    by (auto simp: row_of_tbl filter_empty_conv shuffles_commutes [of _ "[]"] split: if_splits)
  then show "cat_layout t' tcat' fcat' = (if t' = t then l else cat_layout t' tcat fcat)"
    using cat_fields_back [OF assms(4,5), of t] sch(1) by (simp add: cat_layout_def cat_size_def row_of_tbl)
  assume "t' \<noteq> t" "\<forall>r \<in> set tcat \<union> set fcat. \<not> of_table t' r"
  then have "filter (of_table t') tcat' = []" "filter (of_table t') fcat' = []"
    using rows by (simp_all add: filter_empty_conv)
  then show "\<forall>r \<in> set tcat' \<union> set fcat'. \<not> of_table t' r"
    by (auto simp: filter_empty_conv)
qed

text \<open>
  C35. The catalog gives back what was put in: after a table has been created, its layout as the catalog
  describes it is the layout that was computed from its schema, with the fields in their order, their
  types, lengths and offsets and the slot size; the layouts of all other tables stay, and only the two
  files of the catalog change. The names have to be new and to fit.
\<close>

theorem catalog_roundtrip:
  assumes "cat_room k (length (sch_fields sch)) tm s" "ready s M" "size M < length (pool s)"
    "sch_plain sch" "lay_new sch = Inr l" "lay_slotSize l < 2 ^ 31" "names_fit t sch"
    "\<forall>r \<in> set (tcat_rows tm s) \<union> set (fcat_rows tm s). \<not> of_table t r"
  shows "\<exists>s1 s' s''. tm_createTable k tm t sch s = (Inr (), s') \<and> ready s' M \<and> changed s s1 tcat_file \<and> changed s1 s' fcat_file \<and>
    tm_getLayout k tm t s' = (Inr l, s'') \<and> ready s'' M \<and> alike s' s'' \<and>
    (\<forall>t'. t' \<noteq> t \<longrightarrow> fst (tm_getLayout k tm t' s') = fst (tm_getLayout k tm t' s))"
proof -
  from tm_createTable_ok [OF assms(1-7)] obtain s1 s' where
    s': "tm_createTable k tm t sch s = (Inr (), s')" "ready s' M" "changed s s1 tcat_file" "changed s1 s' fcat_file" "cat_ok k tm s'"
      "tcat_rows tm s' \<in> shuffles [row_of (tbl_vals t (lay_slotSize l))] (tcat_rows tm s)"
      "fcat_rows tm s' \<in> shuffles (map (\<lambda>f. row_of (fld_vals t l f)) (sch_fields sch)) (fcat_rows tm s)" by blast
  have ok: "cat_ok k tm s" and pool: "size M < length (pool s')"
    using assms(1,3) s'(3,4) by (simp_all add: cat_room_def changed_def)
  note lay = created_layout(1) [OF s'(6,7) assms(8,4,5)]
  from tm_getLayout_ok [OF s'(5,2) pool, of t] lay [of t] obtain s'' where
    s'': "tm_getLayout k tm t s' = (Inr l, s'')" "ready s'' M" "alike s' s''" by auto
  have "fst (tm_getLayout k tm t' s') = fst (tm_getLayout k tm t' s)" if "t' \<noteq> t" for t'
    using tm_getLayout_ok [OF s'(5,2) pool, of t'] tm_getLayout_ok [OF ok assms(2,3), of t'] lay [of t'] that by auto
  with s'(1-4) s'' show ?thesis by blast
qed

section \<open>Example\<close>

text \<open>A new database with blocks of 256 bytes, and files of one block of zeros in it.\<close>

definition fresh_hist :: tx where
  "fresh_hist = tx_init (bm_init 4 (snd (lm_init ''log'' (fm_init None 256))))"

definition fresh_db :: db where
  "fresh_db = tmp.extend (tx.extend (snd (tx_new fresh_hist)) (tmp.fields 0)) (db.fields [] 0)"

definition fresh_check :: "db \<Rightarrow> bool" where
  "fresh_check s \<longleftrightarrow> blocksize s = 256 \<and> logFileName s = ''log'' \<and> length (pool s) = 4 \<and> numCalls s = 0 \<and>
     list_all (\<lambda>n. fm_length n s = 0) [''tblcat.tbl'', ''fldcat.tbl'', ''viewcat.tbl'', ''t.tbl'']"

lemma fresh_check: "fresh_check fresh_db" by code_simp

lemma fresh_ready: "ready fresh_db {#}"
proof -
  have "fst (lm_init ''log'' (fm_init None 256)) = Inr ()" by code_simp
  then have "lm_init ''log'' (fm_init None 256) = (Inr (), snd (lm_init ''log'' (fm_init None 256)))"
    by (simp add: prod_eq_iff)
  from history.fresh [OF this] have hist: "history fresh_hist"
    by (simp add: fresh_hist_def is_temp_def)
  have "case tx_new fresh_hist of (r, s) \<Rightarrow> r = Inr () \<and> start_ok s" "nextTxNum fresh_hist + 1 < 2 ^ 31" by code_simp+
  then have new: "tx_new fresh_hist = (Inr (), snd (tx_new fresh_hist))" "start_ok (snd (tx_new fresh_hist))" "nextTxNum fresh_hist + 1 < 2 ^ 31"
    by (auto split: prod.splits)
  have "fresh_db = tx.extend (snd (tx_new fresh_hist)) (tx.more fresh_db)"
    by (simp add: fresh_db_def tmp.defs tx.defs)
  then have "ready fresh_db {#} = ready (snd (tx_new fresh_hist)) {#}"
    using ready_extend by metis
  then show ?thesis
    using ready_new [OF hist new(3,1)] new(2) by (simp add: start_ok_def)
qed

lemma with_files:
  assumes "distinct ns" "\<forall>n \<in> set ns. n \<noteq> logFileName s \<and> n \<noteq> [] \<and> fm_length n s = 0" "ready s {#}"
  shows "\<exists>s'. ready s' {#} \<and> blocksize s' = blocksize s \<and> logFileName s' = logFileName s \<and> length (pool s') = length (pool s) \<and>
    tx.more s' = tx.more s \<and> (\<forall>n \<in> set ns. file_blocks s' n = 1 \<and> file_page s' n 0 = page_new (blocksize s)) \<and>
    (\<forall>n b. n \<notin> set ns \<longrightarrow> n \<noteq> logFileName s \<longrightarrow> n \<noteq> [] \<longrightarrow> file_blocks s' n = file_blocks s n \<and> file_page s' n b = file_page s n b)"
  using assms
proof (induction ns arbitrary: s)
  case (Cons n ns)
  have n: "n \<noteq> logFileName s" "n \<noteq> []" "fm_length n s = 0"
    using Cons.prems(2) by simp_all
  from ready_append [OF Cons.prems(3) n(1,2)] obtain s1 where s1: "ready s1 {#}" "appended s s1 n" by blast
  have "fm_length g s1 = fm_length g s + (if g = n then 1 else 0)" "file_page s1 g b = (if g = n \<and> b = 0 then page_new (blocksize s) else file_page s g b)"
    if "g \<noteq> logFileName s" "g \<noteq> []" for g b
    using s1(2) that n(3) by (simp_all add: appended_def file_page_def data_blk_def)
  note a = this and eq = s1(2) [unfolded appended_def]
  have "\<forall>m \<in> set ns. m \<noteq> logFileName s1 \<and> m \<noteq> [] \<and> fm_length m s1 = 0"
    using Cons.prems(1,2) a eq by auto
  from Cons.IH [OF _ this s1(1)] Cons.prems(1) obtain s' where
    s': "ready s' {#}" "blocksize s' = blocksize s" "logFileName s' = logFileName s" "length (pool s') = length (pool s)" "tx.more s' = tx.more s"
      "\<forall>n \<in> set ns. file_blocks s' n = 1 \<and> file_page s' n 0 = page_new (blocksize s)"
      "\<forall>n b. n \<notin> set ns \<longrightarrow> n \<noteq> logFileName s \<longrightarrow> n \<noteq> [] \<longrightarrow> file_blocks s' n = file_blocks s1 n \<and> file_page s' n b = file_page s1 n b"
    using eq by auto
  then have "file_blocks s' n = 1" "file_page s' n 0 = page_new (blocksize s)"
    using Cons.prems(1) n a [OF n(1,2)] by (simp_all add: file_blocks_def)
  moreover have "file_blocks s' m = file_blocks s m \<and> file_page s' m b = file_page s m b"
    if "m \<notin> set (n # ns)" "m \<noteq> logFileName s" "m \<noteq> []" for m b
    using s'(7) that a [OF that(2,3)] by (simp add: file_blocks_def)
  ultimately show ?case
    using s'(1-6) by (intro exI [of _ s']) auto
qed (use assms in auto)

text \<open>A table in a file of zeros is empty.\<close>

lemma empty_updatable:
  assumes "lay_ok l" "table_file n \<noteq> logFileName s" "file_blocks s (table_file n) = 1" "file_page s (table_file n) 0 = page_new (blocksize s)"
    "0 \<le> blocksize s" "blocksize s < 2 ^ 31" "log_check (blocksize s) l (table_file n)" "1 < k" "num_slots (blocksize s) l < k"
  shows "updatable k l n s" "table_rows s l (table_file n) = []"
proof -
  note w = page_wf_new [OF assms(1,5,6)]
  have "table_wf s l (table_file n)"
    using assms(1-4) w(1) by (simp add: table_wf_def table_file_def)
  moreover have "slots_with USED (blocksize s) l (page_new (blocksize s)) 0 = []"
    using w(2) by (auto simp: slots_with_def filter_empty_conv EMPTY_def USED_def)
  then show "table_rows s l (table_file n) = []"
    using assms(3,4) by (simp add: table_rows_def rows_from_def page_rows_def)
  ultimately show "updatable k l n s"
    using assms(3,8,9) log_check [OF assms(7)] by (simp add: updatable_def)
qed

definition catdb_mgr :: table_mgr where
  "catdb_mgr = (case (lay_new tm_tcatSchema, lay_new tm_fcatSchema) of (Inr a, Inr b) \<Rightarrow> \<lparr>tm_tcatLayout = a, tm_fcatLayout = b\<rparr>)"

definition people :: schema where
  "people = sch_addStringField ''name'' 9 (sch_addIntField ''id'' sch_empty)"

definition people_layout :: layout where
  "people_layout = (case lay_new people of Inr l \<Rightarrow> l)"

lemma new_layouts:
  "lay_new tm_tcatSchema = Inr (tm_tcatLayout catdb_mgr)" "lay_new tm_fcatSchema = Inr (tm_fcatLayout catdb_mgr)"
  "lay_new people = Inr people_layout"
proof -
  have "\<not> isl (lay_new tm_tcatSchema)" "\<not> isl (lay_new tm_fcatSchema)" "\<not> isl (lay_new people)" by code_simp+
  then show "lay_new tm_tcatSchema = Inr (tm_tcatLayout catdb_mgr)" "lay_new tm_fcatSchema = Inr (tm_fcatLayout catdb_mgr)"
    "lay_new people = Inr people_layout"
    by (auto simp: catdb_mgr_def people_layout_def isl_def split: sum.splits)
qed

lemma catdb_layouts:
  "lay_ok (tm_tcatLayout catdb_mgr)" "lay_ok (tm_fcatLayout catdb_mgr)" "lay_ok people_layout"
  "log_check 256 (tm_tcatLayout catdb_mgr) tcat_file" "log_check 256 (tm_fcatLayout catdb_mgr) fcat_file"
  "log_check 256 people_layout (table_file ''t'')"
  "num_slots 256 (tm_tcatLayout catdb_mgr) = 9" "num_slots 256 (tm_fcatLayout catdb_mgr) = 4" "num_slots 256 people_layout = 12"
proof -
  have "sch_ok tm_tcatSchema" "sch_ok tm_fcatSchema" "sch_ok people"
    by (simp_all add: tm_tcatSchema_def tm_fcatSchema_def people_def sch_addIntField_def sch_addStringField_def sch_ok_addField MAX_NAME_def)
  then show "lay_ok (tm_tcatLayout catdb_mgr)" "lay_ok (tm_fcatLayout catdb_mgr)" "lay_ok people_layout"
    using lay_new_ok new_layouts by blast+
qed code_simp+

text \<open>An empty catalog.\<close>

lemma empty_catalog:
  assumes "blocksize s = 256" "logFileName s = ''log''"
    "\<forall>n \<in> {tcat_file, fcat_file}. file_blocks s n = 1 \<and> file_page s n 0 = page_new 256"
  shows "cat_room 16 2 catdb_mgr s" "tcat_rows catdb_mgr s = []" "fcat_rows catdb_mgr s = []"
proof -
  have p: "table_file ''tblcat'' \<noteq> logFileName s" "table_file ''fldcat'' \<noteq> logFileName s" "0 \<le> blocksize s" "blocksize s < 2 ^ 31"
    "(1::nat) < 16" "file_blocks s tcat_file = 1" "file_blocks s fcat_file = 1" "file_page s tcat_file 0 = page_new (blocksize s)"
    "file_page s fcat_file 0 = page_new (blocksize s)"
    using assms by (simp_all add: table_file_def)
  have n: "num_slots (blocksize s) (tm_tcatLayout catdb_mgr) = 9" "num_slots (blocksize s) (tm_fcatLayout catdb_mgr) = 4"
    using assms(1) catdb_layouts(7,8) by simp_all
  note tc = empty_updatable [OF catdb_layouts(1) p(1,6,8,3,4) _ p(5), unfolded assms(1) catdb_layouts(7), OF catdb_layouts(4)]
  note fc = empty_updatable [OF catdb_layouts(2) p(2,7,9,3,4) _ p(5), unfolded assms(1) catdb_layouts(8), OF catdb_layouts(5)]
  show r: "tcat_rows catdb_mgr s = []" "fcat_rows catdb_mgr s = []"
    using tc(2) fc(2) by (simp_all add: tcat_rows_def fcat_rows_def)
  have "updatable 16 (tm_tcatLayout catdb_mgr) ''tblcat'' s" "updatable 16 (tm_fcatLayout catdb_mgr) ''fldcat'' s"
    using tc(1) fc(1) by simp_all
  then show "cat_room 16 2 catdb_mgr s"
    using n p(6,7) r new_layouts(1,2) by (simp add: cat_room_def cat_ok_def)
qed

lemma people_plain: "sch_plain people" "length (sch_fields people) = 2" "lay_slotSize people_layout < 2 ^ 31"
proof -
  show "sch_plain people"
    by (simp add: people_def sch_plain_add)
qed code_simp+

theorem catalog_roundtrip_witness:
  "\<exists>(s :: db) s' s''. tm_createTable 16 catdb_mgr ''people'' people s = (Inr (), s') \<and> ready s' {#} \<and>
    tm_getLayout 16 catdb_mgr ''people'' s' = (Inr people_layout, s'')"
proof -
  note c = fresh_check [unfolded fresh_check_def]
  have files: "\<forall>n \<in> set [tcat_file, fcat_file]. n \<noteq> logFileName fresh_db \<and> n \<noteq> [] \<and> fm_length n fresh_db = 0"
    using c by (simp add: table_file_def)
  have "distinct [tcat_file, fcat_file]"
    using tcat_fcat_file by simp
  from with_files [OF this files fresh_ready] obtain s :: db where
    s: "ready s {#}" "blocksize s = 256" "logFileName s = ''log''" "length (pool s) = 4"
      "\<forall>n \<in> {tcat_file, fcat_file}. file_blocks s n = 1 \<and> file_page s n 0 = page_new 256"
    using c by auto
  note e = empty_catalog [OF s(2,3,5)]
  have room: "cat_room 16 (length (sch_fields people)) catdb_mgr s" and pool: "size {#} < length (pool s)"
    using e(1) s(4) by (simp_all add: people_plain)
  have fit: "names_fit ''people'' people" by code_simp
  have new: "\<forall>r \<in> set (tcat_rows catdb_mgr s) \<union> set (fcat_rows catdb_mgr s). \<not> of_table ''people'' r"
    by (simp add: e)
  from catalog_roundtrip [OF room s(1) pool people_plain(1) new_layouts(3) people_plain(3) fit new] show ?thesis by blast
qed

end
