(* ===== verification/Selects.thy ===== *)
theory Selects
  imports Catalog
begin

text \<open>
  Select statements over tables of the catalog: the planner looks the tables up, builds the plan of
  their product, the selection and the projection, and running it computes the relational algebra.
\<close>

section \<open>The statistics beside the data\<close>

text \<open>The statistics lie in the same state; they change nothing of the data.\<close>

definition stored :: "'a tx_scheme \<Rightarrow> tx" where
  "stored s = tx.truncate s"

lemma stored_extend: "s = tx.extend (stored s) (tx.more s)"
  by (cases s) (simp add: stored_def tx.defs)

lemma stored_view [simp]: "view (stored s) = view s" "fm_length n (stored s) = fm_length n s"
  "data_blk (stored s) = data_blk s" "blocksize (stored s) = blocksize s" "logFileName (stored s) = logFileName s" "pool (stored s) = pool s"
  "txNum (stored s) = txNum s"
proof -
  note e = extend_simps [where s = "stored s" and m = "tx.more s", folded stored_extend]
  show b: "blocksize (stored s) = blocksize s" "logFileName (stored s) = logFileName s" "pool (stored s) = pool s" "txNum (stored s) = txNum s"
    by (simp_all add: stored_def tx.defs)
  show "view (stored s) = view s"
    by (simp add: view_def fun_eq_iff bm_findExistingBuffer_def b e split: option.split)
  show "fm_length n (stored s) = fm_length n s" "data_blk (stored s) = data_blk s"
    by (simp_all add: e)
qed

lemma stored_tables [simp]:
  "file_blocks (stored s) fn = file_blocks s fn" "file_page (stored s) fn b = file_page s fn b"
  "table_rows (stored s) l fn = table_rows s l fn" "table_wf (stored s) l fn = table_wf s l fn" "table_ok (stored s) l fn = table_ok s l fn"
  "updatable k l n (stored s) = updatable k l n s" "ready (stored s) M = ready s M"
proof -
  show a: "file_blocks (stored s) fn = file_blocks s fn" "file_page (stored s) fn b = file_page s fn b" for fn b
    by (simp_all add: file_blocks_def file_page_def)
  show r: "table_rows (stored s) l fn = table_rows s l fn"
    "table_wf (stored s) l fn = table_wf s l fn" "table_ok (stored s) l fn = table_ok s l fn" for l fn
    by (simp_all add: table_rows_def rows_from_def table_wf_def table_ok_def a)
  show "updatable k l n (stored s) = updatable k l n s"
    by (simp add: updatable_def a r)
  show "ready (stored s) M = ready s M"
    using ready_extend [of "stored s" "tx.more s" M, folded stored_extend] by simp
qed

definition db_like :: "'a tx_scheme \<Rightarrow> 'b tx_scheme \<Rightarrow> bool" where
  "db_like s s' \<longleftrightarrow> alike (stored s) (stored s')"

lemma db_like_refl [simp]: "db_like s s"
  by (simp add: db_like_def)

lemma db_like_trans: "db_like s s' \<Longrightarrow> db_like s' s'' \<Longrightarrow> db_like s s''"
  unfolding db_like_def by (rule alike_trans)

lemma alike_db: "alike s s' \<Longrightarrow> db_like s s'"
  by (simp add: db_like_def alike_def)

lemma db_like_pool: "db_like s s' \<Longrightarrow> length (pool s') = length (pool s)"
  by (simp add: db_like_def alike_def)

lemma db_like_updatable:
  assumes "db_like s s'" "updatable k l n s"
  shows "updatable k l n s'" "table_rows s' l (table_file n) = table_rows s l (table_file n)"
  using updatable_alike [OF assms(1) [unfolded db_like_def], of k l n] updatable_rows_alike [OF assms(1) [unfolded db_like_def], of k l n] assms(2)
  by simp_all

lemma stored_stats [simp]: "stored (s\<lparr>tableStats := m\<rparr>) = stored s" "stored (s\<lparr>numCalls := n\<rparr>) = stored s"
  by (simp_all add: stored_def tx.defs)

lemma alike_stats: "alike s s' \<Longrightarrow> numCalls s' = numCalls s \<and> tableStats s' = tableStats s"
  by (cases s; cases s') (simp add: alike_def)

section \<open>Statistics of a table\<close>

lemma sm_count_ok:
  assumes "ts_rest k l fn s ts F rows (Some j)" "ready s (ts_own ts + M)" "length rows - j < fuel" "0 \<le> nb" "nb \<le> int (file_blocks s fn)"
  shows "\<exists>s' ts' nb'. sm_count fuel k nb nr ts s =
      (Inr (\<lparr>si_numBlocks = Some nb', si_numRecords = Some (nr + int (length rows - j))\<rparr>, ts'), s') \<and>
    ready s' (ts_own ts' + M) \<and> alike s s' \<and> 0 \<le> nb' \<and> nb' \<le> int (file_blocks s fn)"
  using assms
proof (induction fuel arbitrary: s ts j nb nr)
  case 0
  then show ?case by simp
next
  case (Suc fuel)
  from ts_next_ok [OF Suc.prems(1,2)] obtain s1 ts1 where
    s1: "ts_next k ts s = (Inr (j < length rows, ts1), s1)" "ready s1 (ts_own ts1 + M)" "alike s s1"
      "ts_rest k l fn s1 ts1 F rows (if j < length rows then Some (Suc j) else None)" by blast
  show ?case
  proof (cases "j < length rows")
    case False
    with s1 Suc.prems(4,5) show ?thesis
      by (intro exI [of _ s1] exI [of _ ts1] exI [of _ nb]) (simp add: cmd_simps)
  next
    case True
    have rest: "ts_rest k l fn s1 ts1 F rows (Some (Suc j))"
      using s1(4) True by simp
    have fn: "fn \<noteq> logFileName s" "fn \<noteq> []"
      using Suc.prems(1) by (simp_all add: ts_rest_def table_ok_def)
    note a1 = alike_table(1) [OF s1(3) fn]
    obtain b where b: "on_block l fn b ts1" "b < file_blocks s1 fn"
      using rest by (auto simp: ts_rest_def)
    then have rid: "ts_getRid ts1 s1 = (Inr \<lparr>rid_block = int b, rid_slot = ts_slot ts1\<rparr>, s1)"
      by (simp add: ts_getRid_def ts_recordPage_def on_block_def deref_def cmd_simps)
    have "length rows - Suc j < fuel" "0 \<le> int b + 1" "int b + 1 \<le> int (file_blocks s1 fn)"
      using Suc.prems(3) True b(2) by simp_all
    from Suc.IH [OF rest s1(2) this, of "nr + 1"] obtain s2 ts2 nb2 where
      s2: "sm_count fuel k (int b + 1) (nr + 1) ts1 s1 =
          (Inr (\<lparr>si_numBlocks = Some nb2, si_numRecords = Some (nr + 1 + int (length rows - Suc j))\<rparr>, ts2), s2)"
        "ready s2 (ts_own ts2 + M)" "alike s1 s2" "0 \<le> nb2" "nb2 \<le> int (file_blocks s1 fn)" by blast
    have "nr + 1 + int (length rows - Suc j) = nr + int (length rows - j)"
      using True by simp
    with s1(1) s2 rid alike_trans [OF s1(3) s2(3)] a1 True show ?thesis
      by (intro exI [of _ s2] exI [of _ ts2] exI [of _ nb2]) (simp add: cmd_simps)
  qed
qed

lemma sm_calcTableStats_ok:
  fixes s :: "'a tmp_scheme"
  assumes "updatable k l n s" "ready s M" "size M < length (pool s)"
  shows "\<exists>s' nb. sm_calcTableStats k n l s =
      (Inr \<lparr>si_numBlocks = Some nb, si_numRecords = Some (int (length (table_rows s l (table_file n))))\<rparr>, s') \<and>
    ready s' M \<and> alike s s' \<and> 0 \<le> nb \<and> nb \<le> int (file_blocks s (table_file n))"
proof -
  have len: "length (table_rows s l (table_file n)) - 0 < k"
    using assms(1) by (simp add: updatable_def)
  from open_table [OF assms] obtain s1 ts where
    s1: "ts_new k n l s = (Inr ts, s1)" "ready s1 (ts_own ts + M)" "alike s s1"
      "ts_rest k l (table_file n) s1 ts (lay_fields l) (table_rows s l (table_file n)) (Some 0)" by blast
  have "file_blocks s1 (table_file n) = file_blocks s (table_file n)"
    using alike_table(1) [OF s1(3)] assms(1) by (simp add: updatable_def table_wf_def)
  with sm_count_ok [OF s1(4,2) len, of 0 0] obtain s2 ts2 nb where
    s2: "sm_count k k 0 0 ts s1 =
        (Inr (\<lparr>si_numBlocks = Some nb, si_numRecords = Some (int (length (table_rows s l (table_file n))))\<rparr>, ts2), s2)"
      "ready s2 (ts_own ts2 + M)" "alike s1 s2" "0 \<le> nb" "nb \<le> int (file_blocks s (table_file n))" by auto
  from ts_close_ok [OF s2(2)] obtain s3 where s3: "ts_close ts2 s2 = (Inr (), s3)" "ready s3 M" "alike s2 s3" by blast
  from s1(1) s2(1,4,5) s3(1,2) alike_trans [OF alike_trans [OF s1(3) s2(3)] s3(3)] show ?thesis
    by (intro exI [of _ s3] exI [of _ nb]) (simp add: sm_calcTableStats_def cmd_simps)
qed

lemma sm_getStatInfo_ok:
  fixes s :: "'a db_scheme"
  assumes "updatable k l n s" "ready s M" "size M < length (pool s)" "numCalls s < 100"
  shows "\<exists>s' si. sm_getStatInfo k tm n l s = (Inr si, s') \<and> ready s' M \<and> db_like s s' \<and> numCalls s' = numCalls s + 1 \<and>
    map_of (tableStats s') n \<noteq> None \<and>
    (if map_of (tableStats s) n = None then si = si_default else si_numRecords si = Some (int (length (table_rows s l (table_file n)))))"
proof -
  let ?s = "s\<lparr>numCalls := numCalls s + 1\<rparr>"
  have st: "stored ?s = stored s" by simp
  have s: "updatable k l n ?s" "ready ?s M" "size M < length (pool ?s)"
    using assms(1-3) stored_tables(6,7) [where s = ?s] stored_tables(6,7) [where s = s] st by simp_all
  have rows: "table_rows ?s l (table_file n) = table_rows s l (table_file n)"
    using stored_tables(3) [where s = ?s] stored_tables(3) [where s = s] st by simp
  show ?thesis
  proof (cases "map_of (tableStats s) n")
    case None
    let ?t = "?s\<lparr>tableStats := om_put n si_default (tableStats ?s)\<rparr>"
    have "ready ?t M" "db_like s ?t"
      using s(2) stored_tables(7) [where s = ?t and M = M] stored_tables(7) [where s = ?s and M = M] by (simp_all add: db_like_def)
    with None assms(4) show ?thesis
      by (intro exI [of _ ?t] exI [of _ si_default]) (simp add: sm_getStatInfo_def cmd_simps)
  next
    case (Some old)
    from sm_calcTableStats_ok [OF s] obtain s1 nb where
      s1: "sm_calcTableStats k n l ?s = (Inr \<lparr>si_numBlocks = Some nb, si_numRecords = Some (int (length (table_rows s l (table_file n))))\<rparr>, s1)"
        "ready s1 M" "alike ?s s1" unfolding rows by blast
    let ?si = "\<lparr>si_numBlocks = Some nb, si_numRecords = Some (int (length (table_rows s l (table_file n))))\<rparr>"
    let ?t = "s1\<lparr>tableStats := om_put n ?si (tableStats s1)\<rparr>"
    have "ready ?t M" "db_like s ?t" "numCalls s1 = numCalls s + 1"
      using s1(2) stored_tables(7) [where s = ?t and M = M] stored_tables(7) [where s = s1 and M = M] alike_db [OF s1(3)] alike_stats [OF s1(3)]
      by (simp_all add: db_like_def)
    with Some s1(1) assms(4) show ?thesis
      by (intro exI [of _ ?t] exI [of _ ?si]) (simp add: sm_getStatInfo_def cmd_simps)
  qed
qed



section \<open>Tables and views of a query\<close>

text \<open>The layout of a table, as the catalog describes it.\<close>

definition layout_in :: "table_mgr \<Rightarrow> 'a tx_scheme \<Rightarrow> string \<Rightarrow> layout" where
  "layout_in tm s t = cat_layout t (tcat_rows tm s) (fcat_rows tm s)"

text \<open>
  A database whose catalog tables can be read; a base table can be read with the layout that the
  catalog has of it and is not the name of a view.
\<close>

definition db_ok :: "nat \<Rightarrow> table_mgr \<Rightarrow> 'a tx_scheme \<Rightarrow> bool" where
  "db_ok k tm s \<longleftrightarrow> cat_ok k tm s \<and> updatable k (layout_in tm s ''viewcat'') ''viewcat'' s \<and>
     (\<exists>fi. map_of (sch_info (lay_schema (layout_in tm s ''viewcat''))) ''viewname'' = Some fi \<and> fi_type fi = VARCHAR)"

definition view_rows :: "table_mgr \<Rightarrow> 'a tx_scheme \<Rightarrow> row list" where
  "view_rows tm s = table_rows s (layout_in tm s ''viewcat'') (table_file ''viewcat'')"

definition base_table :: "nat \<Rightarrow> table_mgr \<Rightarrow> 'a tx_scheme \<Rightarrow> string \<Rightarrow> bool" where
  "base_table k tm s t \<longleftrightarrow> updatable k (layout_in tm s t) t s \<and> (\<forall>r \<in> set (view_rows tm s). r ''viewname'' \<noteq> Some (VStr t))"

definition rows_in :: "table_mgr \<Rightarrow> 'a tx_scheme \<Rightarrow> string \<Rightarrow> row list" where
  "rows_in tm s t = table_rows s (layout_in tm s t) (table_file t)"

lemma db_like_catalog:
  assumes "db_like s s'" "db_ok k tm s"
  shows "db_ok k tm s'" "layout_in tm s' t = layout_in tm s t" "view_rows tm s' = view_rows tm s"
    "base_table k tm s t \<Longrightarrow> base_table k tm s' t" "base_table k tm s t \<Longrightarrow> rows_in tm s' t = rows_in tm s t"
proof -
  have u: "updatable k (tm_tcatLayout tm) ''tblcat'' s" "updatable k (tm_fcatLayout tm) ''fldcat'' s"
    "updatable k (layout_in tm s ''viewcat'') ''viewcat'' s"
    using assms(2) by (simp_all add: db_ok_def cat_ok_def)
  have cat: "tcat_rows tm s' = tcat_rows tm s" "fcat_rows tm s' = fcat_rows tm s"
    using db_like_updatable(2) [OF assms(1) u(1)] db_like_updatable(2) [OF assms(1) u(2)] by (simp_all add: tcat_rows_def fcat_rows_def)
  then show lay: "layout_in tm s' t = layout_in tm s t" for t
    by (simp add: layout_in_def)
  show views: "view_rows tm s' = view_rows tm s"
    using db_like_updatable(2) [OF assms(1) u(3)] by (simp add: view_rows_def lay)
  show "db_ok k tm s'"
    using assms(2) db_like_updatable(1) [OF assms(1)] by (auto simp: db_ok_def cat_ok_def lay)
  show "base_table k tm s t \<Longrightarrow> base_table k tm s' t" "base_table k tm s t \<Longrightarrow> rows_in tm s' t = rows_in tm s t"
    using db_like_updatable [OF assms(1)] by (auto simp: base_table_def rows_in_def lay views)
qed

lemma vm_find_ok:
  assumes "ts_rest k l fn s ts F rows (Some j)" "ready s (ts_own ts + M)" "length rows - j < fuel"
    and "\<forall>r \<in> set rows. r ''viewname'' = Some (VStr (str_at r ''viewname'')) \<and> r ''viewname'' \<noteq> Some (VStr t)"
  shows "\<exists>s' ts'. vm_find fuel k t ts s = (Inr ([], ts'), s') \<and> ready s' (ts_own ts' + M) \<and> alike s s'"
  using assms(1-3)
proof (induction fuel arbitrary: s ts j)
  case 0
  then show ?case by simp
next
  case (Suc fuel)
  from ts_next_ok [OF Suc.prems(1,2)] obtain s1 ts1 where
    s1: "ts_next k ts s = (Inr (j < length rows, ts1), s1)" "ready s1 (ts_own ts1 + M)" "alike s s1"
      "ts_rest k l fn s1 ts1 F rows (if j < length rows then Some (Suc j) else None)" by blast
  show ?case
  proof (cases "j < length rows")
    case False
    with s1 show ?thesis
      by (intro exI [of _ s1] exI [of _ ts1]) (simp add: cmd_simps)
  next
    case True
    let ?r = "rows ! j"
    have rest: "ts_rest k l fn s1 ts1 F rows (Some (Suc j))"
      using s1(4) True by simp
    have "?r \<in> set rows"
      using True by simp
    with assms(4) have r: "?r ''viewname'' = Some (VStr (str_at ?r ''viewname''))" "str_at ?r ''viewname'' \<noteq> t"
      by fastforce+
    from ts_getString_ok [OF rest s1(2) r(1)] obtain s2 where
      s2: "ts_getString ''viewname'' ts1 s1 = (Inr (str_at ?r ''viewname''), s2)" "ready s2 (ts_own ts1 + M)" "alike s1 s2" by blast
    have "length rows - Suc j < fuel"
      using Suc.prems(3) True by simp
    from Suc.IH [OF ts_rest_alike(1) [OF rest s2(3)] s2(2) this] obtain s3 ts3 where
      s3: "vm_find fuel k t ts1 s2 = (Inr ([], ts3), s3)" "ready s3 (ts_own ts3 + M)" "alike s2 s3" by blast
    with s1(1) s2(1) r(2) alike_trans [OF alike_trans [OF s1(3) s2(3)] s3(3)] True show ?thesis
      by (intro exI [of _ s3] exI [of _ ts3]) (simp add: cmd_simps)
  qed
qed

lemma vm_getViewDef_ok:
  assumes "db_ok k tm s" "base_table k tm s t" "ready s M" "size M < length (pool s)"
  shows "\<exists>s'. vm_getViewDef k tm t s = (Inr [], s') \<and> ready s' M \<and> alike s s'"
proof -
  let ?l = "layout_in tm s ''viewcat''"
  obtain fi where d: "cat_ok k tm s" "updatable k ?l ''viewcat'' s" "map_of (sch_info (lay_schema ?l)) ''viewname'' = Some fi" "fi_type fi = VARCHAR"
    using assms(1) by (auto simp: db_ok_def)
  from tm_getLayout_ok [OF d(1) assms(3,4), of "''viewcat''"] obtain s1 where
    s1: "tm_getLayout k tm ''viewcat'' s = (Inr ?l, s1)" "ready s1 M" "alike s s1" unfolding layout_in_def by blast
  have pool: "size M < length (pool s1)"
    using assms(4) s1(3) by (simp add: alike_def)
  from open_table [OF updatable_alike [OF s1(3) d(2)] s1(2) pool] obtain s2 ts where
    s2: "ts_new k ''viewcat'' ?l s1 = (Inr ts, s2)" "ready s2 (ts_own ts + M)" "alike s1 s2"
      "ts_rest k ?l (table_file ''viewcat'') s2 ts (lay_fields ?l) (view_rows tm s) (Some 0)"
    unfolding view_rows_def updatable_rows_alike [OF s1(3) d(2)] by blast
  have "table_typed s ?l (table_file ''viewcat'')"
    using d(2) table_wf_typed by (auto simp: updatable_def)
  then have "\<forall>r \<in> set (view_rows tm s). r ''viewname'' = Some (VStr (str_at r ''viewname''))"
    using row_typed_str [OF _ d(3,4)] unfolding table_typed_def view_rows_def by blast
  then have "\<forall>r \<in> set (view_rows tm s). r ''viewname'' = Some (VStr (str_at r ''viewname'')) \<and> r ''viewname'' \<noteq> Some (VStr t)"
    using assms(2) unfolding base_table_def by blast
  note rows = this
  have "length (view_rows tm s) - 0 < k"
    using d(2) by (simp add: updatable_def view_rows_def)
  from vm_find_ok [OF s2(4,2) this rows] obtain s3 ts3 where
    s3: "vm_find k k t ts s2 = (Inr ([], ts3), s3)" "ready s3 (ts_own ts3 + M)" "alike s2 s3" by blast
  from ts_close_ok [OF s3(2)] obtain s4 where s4: "ts_close ts3 s3 = (Inr (), s4)" "ready s4 M" "alike s3 s4" by blast
  from s1(1) s2(1) s3(1) s4(1,2) alike_trans [OF alike_trans [OF alike_trans [OF s1(3) s2(3)] s3(3)] s4(3)] show ?thesis
    by (intro exI [of _ s4]) (simp add: vm_getViewDef_def cmd_simps)
qed

lemma table_plan_ok:
  fixes s :: "'a db_scheme"
  assumes "db_ok k (mm_tableMgr mm) s" "base_table k (mm_tableMgr mm) s t" "ready s M" "size M < length (pool s)" "numCalls s < 100"
  shows "\<exists>s' si. table_plan k mm t s = (Inr (TablePlan t (layout_in (mm_tableMgr mm) s t) si), s') \<and> ready s' M \<and> db_like s s' \<and>
    numCalls s' = numCalls s + 1"
proof -
  have cat: "cat_ok k (mm_tableMgr mm) s"
    using assms(1) by (simp add: db_ok_def)
  from tm_getLayout_ok [OF cat assms(3,4), of t] obtain s1 where
    s1: "tm_getLayout k (mm_tableMgr mm) t s = (Inr (layout_in (mm_tableMgr mm) s t), s1)" "ready s1 M" "alike s s1"
    unfolding layout_in_def by blast
  have u: "updatable k (layout_in (mm_tableMgr mm) s t) t s1" "size M < length (pool s1)" "numCalls s1 < 100"
    using updatable_alike [OF s1(3)] assms(2,4,5) s1(3) alike_stats [OF s1(3)] by (simp_all add: base_table_def alike_def)
  from sm_getStatInfo_ok [OF u(1) s1(2) u(2,3)] obtain s2 si where
    s2: "sm_getStatInfo k (mm_tableMgr mm) t (layout_in (mm_tableMgr mm) s t) s1 = (Inr si, s2)" "ready s2 M" "db_like s1 s2"
      "numCalls s2 = numCalls s1 + 1" by blast
  from s1(1) s2 db_like_trans [OF alike_db [OF s1(3)] s2(3)] alike_stats [OF s1(3)] show ?thesis
    by (intro exI [of _ s2] exI [of _ si]) (simp add: table_plan_def mm_getLayout_def mm_getStatInfo_def cmd_simps)
qed

section \<open>The plan of a query\<close>

definition plans_of :: "table_mgr \<Rightarrow> 'a tx_scheme \<Rightarrow> string list \<Rightarrow> plan list \<Rightarrow> bool" where
  "plans_of tm s ts ps \<longleftrightarrow> list_all2 (\<lambda>t p. \<exists>si. p = TablePlan t (layout_in tm s t) si) ts ps"

lemma qp_tables_ok:
  fixes s :: "'a db_scheme"
  assumes "db_ok k (mm_tableMgr mm) s" "\<forall>t \<in> set ts. base_table k (mm_tableMgr mm) s t" "ready s M" "size M < length (pool s)"
    "numCalls s + int (length ts) \<le> 100" "length ts < fuel" "qd_groupFields data = []"
  shows "\<exists>s' ps. qp_tables tok fuel k mm data ts aggs s = (Inr (ps, aggs), s') \<and> plans_of (mm_tableMgr mm) s ts ps \<and> ready s' M \<and>
    db_like s s'"
  using assms(1-6)
proof (induction ts arbitrary: s fuel)
  case Nil
  then obtain n where "fuel = Suc n" by (cases fuel) auto
  with Nil show ?case
    by (intro exI [of _ s]) (simp add: cmd_simps plans_of_def)
next
  case (Cons t ts)
  let ?tm = "mm_tableMgr mm"
  obtain n where n: "fuel = Suc n" "length ts < n"
    using Cons.prems(6) by (cases fuel) auto
  have t: "base_table k ?tm s t" and cat: "cat_ok k ?tm s"
    using Cons.prems(1,2) by (simp_all add: db_ok_def)
  from vm_getViewDef_ok [OF Cons.prems(1) t Cons.prems(3,4)] obtain s1 where
    s1: "vm_getViewDef k ?tm t s = (Inr [], s1)" "ready s1 M" "alike s s1" by blast
  have pool1: "size M < length (pool s1)"
    using Cons.prems(4) s1(3) by (simp add: alike_def)
  from tm_getLayout_ok [OF cat_ok_alike [OF s1(3) cat] s1(2) pool1, of t] obtain l s2 where
    s2: "tm_getLayout k ?tm t s1 = (Inr l, s2)" "ready s2 M" "alike s1 s2" by blast
  note l2 = alike_trans [OF s1(3) s2(3)]
  note d2 = db_like_catalog [OF alike_db [OF l2] Cons.prems(1)]
  have pool2: "size M < length (pool s2)" "numCalls s2 < 100"
    using Cons.prems(4,5) l2 alike_stats [OF l2] by (simp_all add: alike_def)
  from table_plan_ok [OF d2(1) d2(4) [OF t] s2(2) pool2] obtain s3 si where
    s3: "table_plan k mm t s2 = (Inr (TablePlan t (layout_in ?tm s t) si), s3)" "ready s3 M" "db_like s2 s3" "numCalls s3 = numCalls s + 1"
    using d2(2) alike_stats [OF l2] by auto
  note l3 = db_like_trans [OF alike_db [OF l2] s3(3)]
  note d3 = db_like_catalog [OF l3 Cons.prems(1)]
  have ts: "\<forall>t \<in> set ts. base_table k ?tm s3 t" "size M < length (pool s3)" "numCalls s3 + int (length ts) \<le> 100"
    using Cons.prems(2,4,5) d3(4) db_like_pool [OF l3] s3(4) by simp_all
  from Cons.IH [OF d3(1) ts(1) s3(2) ts(2,3) n(2)] obtain s4 ps where
    s4: "qp_tables tok n k mm data ts aggs s3 = (Inr (ps, aggs), s4)" "plans_of ?tm s3 ts ps" "ready s4 M" "db_like s3 s4" by blast
  have "qp_tables tok fuel k mm data (t # ts) aggs s = (Inr (TablePlan t (layout_in ?tm s t) si # ps, aggs), s4)"
    using s1(1) s2(1) s3(1) s4(1) assms(7) by (simp add: n(1) mm_getViewDef_def mm_getLayout_def cmd_simps)
  moreover have "plans_of ?tm s (t # ts) (TablePlan t (layout_in ?tm s t) si # ps)"
    using s4(2) d3(2) by (simp add: plans_of_def)
  ultimately show ?case
    using s4(3) db_like_trans [OF l3 s4(4)] by blast
qed

text \<open>The schema that a plan computes has the fields of its rows.\<close>

definition schema_fits :: "plan \<Rightarrow> bool" where
  "schema_fits p \<longleftrightarrow> sch_ok (pl_schema p) \<and> set (sch_fields (pl_schema p)) = pl_attrs p"

lemma sch_add_fields_ok:
  assumes "sch_ok from" "set fs \<subseteq> set (sch_fields from)" "sch_ok sch"
  shows "\<exists>sch'. sch_add_list fs from sch = Inr sch' \<and> sch_ok sch' \<and> sch_fields sch' = sch_fields sch @ fs"
  using assms(2,3)
proof (induction fs arbitrary: sch)
  case (Cons f fs)
  have "f \<in> dom (map_of (sch_info from))"
    using Cons.prems(1) assms(1) by (auto simp: sch_ok_def)
  then obtain fi where fi: "map_of (sch_info from) f = Some fi" by blast
  then have "fi_type fi \<in> {INTEGER, VARCHAR, BOOLEAN}" "0 \<le> fi_length fi"
    using assms(1) by (auto simp: sch_ok_def)
  then have "sch_ok (sch_addField f (fi_type fi) (fi_length fi) sch)"
    by (rule sch_ok_addField [OF Cons.prems(2)])
  from Cons.IH [OF _ this] Cons.prems(1) show ?case
    by (simp add: sch_add_def sch_fieldType_def sch_fieldLength_def fi sch_addField_def)
qed simp

lemma product_plan_ok:
  assumes "schema_fits p" "schema_fits q"
  shows "\<exists>sch. product_plan p q = Inr (ProductPlan p q sch) \<and> schema_fits (ProductPlan p q sch)"
proof -
  have ok: "sch_ok (pl_schema p)" "sch_ok (pl_schema q)"
    using assms by (simp_all add: schema_fits_def)
  from sch_add_fields_ok [OF ok(1) order_refl sch_ok_empty] obtain s1 where
    s1: "sch_addAll (pl_schema p) sch_empty = Inr s1" "sch_ok s1" "sch_fields s1 = sch_fields (pl_schema p)"
    by (auto simp: sch_addAll_def sch_empty_def)
  from sch_add_fields_ok [OF ok(2) order_refl s1(2)] obtain s2 where
    "sch_addAll (pl_schema q) s1 = Inr s2" "sch_ok s2" "sch_fields s2 = sch_fields s1 @ sch_fields (pl_schema q)"
    by (auto simp: sch_addAll_def)
  with s1 assms show ?thesis
    by (simp add: product_plan_def schema_fits_def)
qed

lemma prod_rows_Nil [simp]: "prod_rows xs ys = [] \<longleftrightarrow> xs = [] \<or> ys = []"
  by (simp flip: length_0_conv)

lemma product_all_ok:
  assumes "schema_fits p" "\<forall>q \<in> set ps. schema_fits q \<and> pl_ok k s q \<and> pl_depth q = 1" "pl_ok k s p" "1 \<le> pl_depth p"
    "\<forall>q \<in> set (butlast (p # ps)). pl_rows s q \<noteq> []"
  shows "\<exists>p'. product_all p ps = Inr p' \<and> schema_fits p' \<and> pl_ok k s p' \<and> pl_depth p' \<le> pl_depth p + length ps \<and>
    pl_rows s p' = foldl prod_rows (pl_rows s p) (map (pl_rows s) ps) \<and> pl_attrs p' = pl_attrs p \<union> (\<Union>q \<in> set ps. pl_attrs q) \<and>
    pl_tables p' = pl_tables p + sum_list (map pl_tables ps)"
  using assms
proof (induction ps arbitrary: p)
  case (Cons q qs)
  then have q: "schema_fits q" "pl_ok k s q" "pl_depth q = 1" "pl_rows s p \<noteq> []"
    by simp_all
  from product_plan_ok [OF Cons.prems(1) q(1)] obtain sch where
    p1: "product_plan p q = Inr (ProductPlan p q sch)" "schema_fits (ProductPlan p q sch)" by blast
  let ?p = "ProductPlan p q sch"
  have "pl_ok k s ?p" "1 \<le> pl_depth ?p"
    using Cons.prems(3) q by simp_all
  moreover have "\<forall>r \<in> set (butlast (?p # qs)). pl_rows s r \<noteq> []"
    using Cons.prems(5) q(4) by (auto split: if_splits)
  moreover have "\<forall>q \<in> set qs. schema_fits q \<and> pl_ok k s q \<and> pl_depth q = 1"
    using Cons.prems(2) by simp
  ultimately obtain p' where
    p': "product_all ?p qs = Inr p'" "schema_fits p'" "pl_ok k s p'" "pl_depth p' \<le> pl_depth ?p + length qs"
      "pl_rows s p' = foldl prod_rows (pl_rows s ?p) (map (pl_rows s) qs)" "pl_attrs p' = pl_attrs ?p \<union> (\<Union>q \<in> set qs. pl_attrs q)"
      "pl_tables p' = pl_tables ?p + sum_list (map pl_tables qs)"
    using Cons.IH [OF p1(2)] by blast
  with p1(1) q(3) Cons.prems(4) show ?case
    by (intro exI [of _ p']) (simp add: Un_assoc)
qed simp

lemma project_plan_ok:
  assumes "schema_fits p" "set fs \<subseteq> pl_attrs p"
  shows "\<exists>sch. project_plan p fs = Inr (ProjectPlan p sch) \<and> sch_fields sch = fs"
proof -
  have "sch_ok (pl_schema p)" "set fs \<subseteq> set (sch_fields (pl_schema p))"
    using assms by (simp_all add: schema_fits_def)
  from sch_add_fields_ok [OF this sch_ok_empty] show ?thesis
    by (auto simp: project_plan_def sch_empty_def)
qed

text \<open>What a query over tables denotes.\<close>

definition tables_product :: "row list list \<Rightarrow> row list" where
  "tables_product rs = foldl prod_rows (hd rs) (tl rs)"

definition query_rows :: "table_mgr \<Rightarrow> 'a tx_scheme \<Rightarrow> query_data \<Rightarrow> row list" where
  "query_rows tm s data = filter (\<lambda>r. pr_holds r (qd_pred data)) (tables_product (map (rows_in tm s) (qd_tables data)))"

text \<open>A query that the theorem is about: some base tables, none but the last empty; no grouping, no order, no subquery; typed terms.\<close>

definition simple_query :: "nat \<Rightarrow> table_mgr \<Rightarrow> 'a tx_scheme \<Rightarrow> query_data \<Rightarrow> bool" where
  "simple_query k tm s data \<longleftrightarrow> qd_tables data \<noteq> [] \<and> qd_groupFields data = [] \<and> qd_sortFields data = [] \<and> qd_queryTables data = [] \<and>
     (\<forall>t \<in> set (qd_tables data). base_table k tm s t) \<and> (\<forall>t \<in> set (butlast (qd_tables data)). rows_in tm s t \<noteq> []) \<and>
     set (qd_fields data) \<subseteq> (\<Union>t \<in> set (qd_tables data). lay_fields (layout_in tm s t)) \<and>
     (let rs = tables_product (map (rows_in tm s) (qd_tables data)) in
        length rs < k \<and> (\<forall>r \<in> set rs. \<forall>t \<in> set (qd_pred data). tm_typed r t))"

lemma plans_of_props:
  assumes "plans_of tm s ts ps" "\<forall>t \<in> set ts. base_table k tm s t" "db_like s s'"
  shows "\<forall>p \<in> set ps. schema_fits p \<and> pl_ok k s' p \<and> pl_depth p = 1" "map (pl_rows s') ps = map (rows_in tm s) ts"
    "(\<Union>p \<in> set ps. pl_attrs p) = (\<Union>t \<in> set ts. lay_fields (layout_in tm s t))" "sum_list (map pl_tables ps) = length ts"
proof -
  have "(\<forall>p \<in> set ps. schema_fits p \<and> pl_ok k s' p \<and> pl_depth p = 1) \<and> map (pl_rows s') ps = map (rows_in tm s) ts \<and>
      (\<Union>p \<in> set ps. pl_attrs p) = (\<Union>t \<in> set ts. lay_fields (layout_in tm s t)) \<and> sum_list (map pl_tables ps) = length ts"
    using assms(1) [unfolded plans_of_def] assms(2)
  proof (induction ts ps rule: list_all2_induct)
    case (Cons t ts p ps)
    then obtain si where p: "p = TablePlan t (layout_in tm s t) si" by blast
    let ?l = "layout_in tm s t"
    have u: "updatable k ?l t s"
      using Cons.prems by (simp add: base_table_def)
    note u' = db_like_updatable [OF assms(3) u]
    have "pl_ok k s' p" "sch_ok (lay_schema ?l)"
      using u' table_wf_ok by (auto simp: p updatable_def table_wf_def lay_ok_def)
    then have "schema_fits p \<and> pl_ok k s' p \<and> pl_depth p = 1" "pl_rows s' p = rows_in tm s t" "pl_attrs p = lay_fields ?l" "pl_tables p = 1"
      using u'(2) by (simp_all add: p schema_fits_def lay_fields_def sch_ok_def rows_in_def)
    with Cons show ?case by simp
  qed simp
  then show "\<forall>p \<in> set ps. schema_fits p \<and> pl_ok k s' p \<and> pl_depth p = 1" "map (pl_rows s') ps = map (rows_in tm s) ts"
    "(\<Union>p \<in> set ps. pl_attrs p) = (\<Union>t \<in> set ts. lay_fields (layout_in tm s t))" "sum_list (map pl_tables ps) = length ts" by blast+
qed

lemma qp_createPlan_ok:
  fixes s :: "'a db_scheme"
  assumes "db_ok k (mm_tableMgr mm) s" "simple_query k (mm_tableMgr mm) s data" "ready s M" "size M < length (pool s)"
    "numCalls s + int (length (qd_tables data)) \<le> 100" "length (qd_tables data) + 1 < fuel"
  shows "\<exists>s' p. qp_createPlan tok fuel k mm data s = (Inr (p, []), s') \<and> ready s' M \<and> db_like s s' \<and> pl_ok k s' p \<and>
    pl_depth p \<le> length (qd_tables data) + 2 \<and> pl_tables p = length (qd_tables data) \<and> pl_attrs p = set (qd_fields data) \<and>
    pl_rows s' p = map (\<lambda>r. r |` set (qd_fields data)) (query_rows (mm_tableMgr mm) s data)"
proof -
  let ?tm = "mm_tableMgr mm" and ?ts = "qd_tables data"
  have q: "?ts \<noteq> []" "qd_groupFields data = []" "qd_sortFields data = []" "qd_queryTables data = []"
    "\<forall>t \<in> set ?ts. base_table k ?tm s t" "\<forall>t \<in> set (butlast ?ts). rows_in ?tm s t \<noteq> []"
    "set (qd_fields data) \<subseteq> (\<Union>t \<in> set ?ts. lay_fields (layout_in ?tm s t))"
    "length (tables_product (map (rows_in ?tm s) ?ts)) < k"
    "\<forall>r \<in> set (tables_product (map (rows_in ?tm s) ?ts)). \<forall>t \<in> set (qd_pred data). tm_typed r t"
    using assms(2) by (simp_all add: simple_query_def Let_def)
  obtain f where f: "fuel = Suc f" "length ?ts < f"
    using assms(6) by (cases fuel) auto
  from qp_tables_ok [OF assms(1) q(5) assms(3,4,5) f(2) q(2), of tok "[]"] obtain s1 ps where
    s1: "qp_tables tok f k mm data ?ts [] s = (Inr (ps, []), s1)" "plans_of ?tm s ?ts ps" "ready s1 M" "db_like s s1" by blast
  obtain p0 ps' where ps: "ps = p0 # ps'"
    using s1(2) q(1) by (cases ps) (auto simp: plans_of_def)
  note pp = plans_of_props [OF s1(2) q(5) s1(4)]
  have "\<forall>q \<in> set (butlast (p0 # ps')). pl_rows s1 q \<noteq> []"
  proof -
    have "map (pl_rows s1) (butlast ps) = map (rows_in ?tm s) (butlast ?ts)"
      unfolding map_butlast pp(2) ..
    then have "pl_rows s1 ` set (butlast ps) = rows_in ?tm s ` set (butlast ?ts)"
      by (metis list.set_map)
    then show ?thesis
      using q(6) unfolding ps by force
  qed
  with product_all_ok [of p0 ps' k s1] pp(1) obtain p where
    p: "product_all p0 ps' = Inr p" "schema_fits p" "pl_ok k s1 p" "pl_depth p \<le> 1 + length ps'"
      "pl_rows s1 p = foldl prod_rows (pl_rows s1 p0) (map (pl_rows s1) ps')" "pl_attrs p = pl_attrs p0 \<union> (\<Union>q \<in> set ps'. pl_attrs q)"
      "pl_tables p = pl_tables p0 + sum_list (map pl_tables ps')" by (auto simp: ps)
  have rows: "pl_rows s1 p = tables_product (map (rows_in ?tm s) ?ts)"
    unfolding p(5) tables_product_def pp(2) [symmetric] by (simp add: ps)
  have len: "length ps' + 1 = length ?ts" and tabs: "pl_tables p = length ?ts"
    using s1(2) pp(4) p(7) by (auto simp: plans_of_def ps dest: list_all2_lengthD)
  let ?sel = "SelectPlan p (qd_pred data)"
  have sel: "schema_fits ?sel" "pl_ok k s1 ?sel" "set (qd_fields data) \<subseteq> pl_attrs ?sel"
    using p(2,3,6) q(7-9) pp(3) by (simp_all add: schema_fits_def rows ps)
  from project_plan_ok [OF sel(1,3)] obtain sch where
    prj: "project_plan ?sel (qd_fields data) = Inr (ProjectPlan ?sel sch)" "sch_fields sch = qd_fields data" by blast
  have "qp_createPlan tok fuel k mm data s = (Inr (ProjectPlan ?sel sch, []), s1)"
    using s1(1) p(1) prj(1) q(2-4) f by (cases f) (simp_all add: ps cmd_simps Let_def)
  with s1(3,4) p(4) sel prj(2) len tabs rows show ?thesis
    by (intro exI [of _ s1] exI [of _ "ProjectPlan ?sel sch"]) (simp add: query_rows_def)
qed


section \<open>Example\<close>

text \<open>
  A catalog of two tables: the empty table of views, and one table with one record; its entries and
  its record are added by the operations of the program.
\<close>

definition viewcat_schema :: schema where
  "viewcat_schema = sch_addStringField ''viewdef'' MAX_VIEW_DEF (sch_addStringField ''viewname'' MAX_NAME sch_empty)"

definition viewcat_layout :: layout where
  "viewcat_layout = (case lay_new viewcat_schema of Inr l \<Rightarrow> l)"

lemma viewcat:
  "lay_new viewcat_schema = Inr viewcat_layout" "sch_plain viewcat_schema" "length (sch_fields viewcat_schema) = 2"
  "lay_slotSize viewcat_layout < 2 ^ 31" "names_fit ''viewcat'' viewcat_schema" "lay_ok viewcat_layout"
  "log_check 256 viewcat_layout (table_file ''viewcat'')" "num_slots 256 viewcat_layout = 2"
proof -
  have "\<not> isl (lay_new viewcat_schema)" by code_simp
  then show l: "lay_new viewcat_schema = Inr viewcat_layout"
    by (auto simp: viewcat_layout_def isl_def split: sum.splits)
  show p: "sch_plain viewcat_schema"
    by (simp add: viewcat_schema_def sch_plain_add MAX_NAME_def MAX_VIEW_DEF_def)
  then show "lay_ok viewcat_layout"
    using lay_new_ok l by (auto simp: sch_plain_def)
qed code_simp+

lemma cat_ok_mono: "cat_ok k tm s \<Longrightarrow> k \<le> k' \<Longrightarrow> cat_ok k' tm s"
  by (auto simp: cat_ok_def updatable_def)

lemma updatable_mono: "updatable k l n s \<Longrightarrow> k \<le> k' \<Longrightarrow> updatable k' l n s"
  by (auto simp: updatable_def)

lemma more_stats: "tx.more s = tx.more s' \<Longrightarrow> numCalls s = numCalls s'"
  by (cases s; cases s') simp

lemma changed_stats: "changed s s' g \<Longrightarrow> numCalls s' = numCalls s"
  by (cases s; cases s') (simp add: changed_def)

text \<open>After the two tables have been created.\<close>

lemma two_tables:
  obtains s :: db where "ready s {#}" "cat_ok 20 catdb_mgr s" "layout_in catdb_mgr s ''viewcat'' = viewcat_layout"
    "layout_in catdb_mgr s ''t'' = people_layout" "updatable 20 viewcat_layout ''viewcat'' s" "updatable 20 people_layout ''t'' s"
    "table_rows s viewcat_layout (table_file ''viewcat'') = []" "table_rows s people_layout (table_file ''t'') = []"
    "length (pool s) = 4" "numCalls s = 0" "blocksize s = 256"
proof -
  let ?tm = catdb_mgr and ?vf = "table_file ''viewcat''" and ?tf = "table_file ''t''"
  note c = fresh_check [unfolded fresh_check_def]
  have files: "\<forall>n \<in> set [tcat_file, fcat_file, ?vf, ?tf]. n \<noteq> logFileName fresh_db \<and> n \<noteq> [] \<and> fm_length n fresh_db = 0"
    using c by (simp add: table_file_def)
  have "distinct [tcat_file, fcat_file, ?vf, ?tf]"
    by (simp add: table_file_def)
  from with_files [OF this files fresh_ready] obtain s :: db where
    s: "ready s {#}" "blocksize s = 256" "logFileName s = ''log''" "length (pool s) = 4" "tx.more s = tx.more fresh_db"
      "\<forall>n \<in> set [tcat_file, fcat_file, ?vf, ?tf]. file_blocks s n = 1 \<and> file_page s n 0 = page_new 256"
    using c by auto
  have calls: "numCalls s = 0"
    using more_stats [OF s(5)] c by simp
  have "\<forall>n \<in> {tcat_file, fcat_file}. file_blocks s n = 1 \<and> file_page s n 0 = page_new 256"
    using s(6) by simp
  note e = empty_catalog [OF s(2,3) this]
  have p: "?vf \<noteq> logFileName s" "?tf \<noteq> logFileName s" "0 \<le> blocksize s" "blocksize s < 2 ^ 31" "(1::nat) < 20" "file_blocks s ?vf = 1"
    "file_blocks s ?tf = 1" "file_page s ?vf 0 = page_new (blocksize s)" "file_page s ?tf 0 = page_new (blocksize s)"
    using s(2,3,6) by (simp_all add: table_file_def)
  note v = empty_updatable [OF viewcat(6) p(1,6,8,3,4) _ p(5), unfolded s(2) viewcat(8), OF viewcat(7)]
  note t = empty_updatable [OF catdb_layouts(3) p(2,7,9,3,4) _ p(5), unfolded s(2) catdb_layouts(9), OF catdb_layouts(6)]
  have u: "updatable 20 viewcat_layout ''viewcat'' s" "updatable 20 people_layout ''t'' s"
    using v(1) t(1) by simp_all
  have room: "cat_room 16 (length (sch_fields viewcat_schema)) ?tm s" and pool: "size {#} < length (pool s)"
    using e(1) s(4) by (simp_all add: viewcat(3))
  from tm_createTable_ok [OF room s(1) pool viewcat(2,1,4,5)] obtain t1 s1 where
    s1: "ready s1 {#}" "changed s t1 tcat_file" "changed t1 s1 fcat_file" "cat_ok 16 ?tm s1"
      "tcat_rows ?tm s1 \<in> shuffles [row_of (tbl_vals ''viewcat'' (lay_slotSize viewcat_layout))] []"
      "fcat_rows ?tm s1 \<in> shuffles (map (\<lambda>f. row_of (fld_vals ''viewcat'' viewcat_layout f)) (sch_fields viewcat_schema)) []"
    unfolding e(2,3) by blast
  have none: "\<forall>r \<in> set [] \<union> set []. \<not> of_table ''viewcat'' r" "\<forall>r \<in> set [] \<union> set []. \<not> of_table ''t'' r"
    by simp_all
  note l1 = created_layout [OF s1(5,6) none(1) viewcat(2,1)]
  have neq: "''t'' \<noteq> ''viewcat''" "''viewcat'' \<noteq> ''t''" by simp_all
  have b1: "blocksize s1 = 256" "length (pool s1) = 4" "numCalls s1 = 0"
    using s1(2,3) s(2,4) calls changed_stats [OF s1(2)] changed_stats [OF s1(3)] by (simp_all add: changed_def)
  have fb: "file_blocks s1 tcat_file < 16" "file_blocks s1 fcat_file < 16"
    using s1(4) by (simp_all add: cat_ok_def updatable_def)
  have room1: "cat_room 20 (length (sch_fields people)) ?tm s1" and pool1: "size {#} < length (pool s1)"
    using cat_ok_mono [OF s1(4), of 20] fb length_shuffles [OF s1(5)] length_shuffles [OF s1(6)] b1(1,2)
    by (simp_all add: cat_room_def people_plain(2) viewcat(3) catdb_layouts(7,8))
  have fit: "names_fit ''t'' people" by code_simp
  from tm_createTable_ok [OF room1 s1(1) pool1 people_plain(1) new_layouts(3) people_plain(3) fit] obtain t2 s2 where
    s2: "ready s2 {#}" "changed s1 t2 tcat_file" "changed t2 s2 fcat_file" "cat_ok 20 ?tm s2"
      "tcat_rows ?tm s2 \<in> shuffles [row_of (tbl_vals ''t'' (lay_slotSize people_layout))] (tcat_rows ?tm s1)"
      "fcat_rows ?tm s2 \<in> shuffles (map (\<lambda>f. row_of (fld_vals ''t'' people_layout f)) (sch_fields people)) (fcat_rows ?tm s1)" by blast
  note l2 = created_layout(1) [OF s2(5,6) l1(2) [OF neq(1) none(2)] people_plain(1) new_layouts(3)]
  have lay: "layout_in ?tm s2 ''t'' = people_layout" "layout_in ?tm s2 ''viewcat'' = viewcat_layout"
    using l2 [of "''t''"] l2 [of "''viewcat''"] l1(1) [of "''viewcat''"] by (simp_all add: layout_in_def)
  have f: "?vf \<noteq> tcat_file" "?vf \<noteq> fcat_file" "?tf \<noteq> tcat_file" "?tf \<noteq> fcat_file"
    by (simp_all add: table_file_def)
  note vs = updatable_changed [OF s1(2) u(1) f(1)] note vs = vs updatable_changed [OF s1(3) vs(1) f(2)]
  note vs = vs updatable_changed [OF s2(2) vs(3) f(1)] note vs = vs updatable_changed [OF s2(3) vs(5) f(2)]
  note ts = updatable_changed [OF s1(2) u(2) f(3)] note ts = ts updatable_changed [OF s1(3) ts(1) f(4)]
  note ts = ts updatable_changed [OF s2(2) ts(3) f(3)] note ts = ts updatable_changed [OF s2(3) ts(5) f(4)]
  have "table_rows s2 viewcat_layout ?vf = []" "table_rows s2 people_layout ?tf = []"
    using vs(2,4,6,8) ts(2,4,6,8) v(2) t(2) by simp_all
  moreover have "length (pool s2) = 4" "numCalls s2 = 0" "blocksize s2 = 256"
    using s2(2,3) b1 changed_stats [OF s2(2)] changed_stats [OF s2(3)] by (simp_all add: changed_def)
  ultimately show thesis
    by (intro that [OF s2(1,4) lay(2,1) vs(7) ts(7)])
qed

definition demo_data :: query_data where
  "demo_data = QueryData [''id''] [''t''] [] [] [] []"

definition demo_tok :: "string \<Rightarrow> string list" where
  "demo_tok q = [''select'', ''id'', ''from'', ''t'']"

lemma demo_parse: "parse_query demo_tok ''select id from t'' = Inr demo_data" "qd_toString demo_data = Inr ''select id from t''"
  by code_simp+


end
