(* ===== verification/BTreePages.thy ===== *)
theory BTreePages
  imports BTree TableWrites
begin

text \<open>
  A page of a B-tree as an array of typed records: a flag, the number of records, and the slots. What
  each operation of \<open>BTreePage\<close> does to the array, and that it changes no other block.
\<close>

section \<open>Pages as arrays of records\<close>

text \<open>Eight bytes before the slots hold the flag and the number of records.\<close>

lemma val_at_drop: "8 \<le> a \<Longrightarrow> val_at p a v \<longleftrightarrow> val_at (drop 8 p) (a - 8) v"
proof -
  assume a: "8 \<le> a"
  have "slice (nat (a - 8)) n (drop 8 p) = slice (nat a) n p" for n
  proof -
    have "nat (a - 8) + 8 = nat a"
      using a by simp
    then show ?thesis
      by (simp add: slice_def)
  qed
  moreover have "4 \<le> length (val_bytes v)"
    by (cases v) simp_all
  ultimately show ?thesis
    using a by (auto simp: val_at_def)
qed

lemma overwrite_drop:
  assumes "8 \<le> a" "a + int (length xs) \<le> int (length p)"
  shows "drop 8 (overwrite (nat a) xs p) = overwrite (nat (a - 8)) xs (drop 8 p)"
proof -
  have "nat (a - 8) + length xs + 8 = nat a + length xs" "8 \<le> nat a" "nat (a - 8) = nat a - 8"
    using assms(1) by simp_all
  moreover have "nat a \<le> length p"
    using assms by simp
  ultimately show ?thesis
    by (simp add: overwrite_def drop_take add.commute)
qed

lemma overwrite_front: "a + length xs \<le> 8 \<Longrightarrow> 8 \<le> length p \<Longrightarrow> drop 8 (overwrite a xs p) = drop 8 p"
  by (rule drop_overwrite_before) simp_all

text \<open>
  \<open>bt_view bs l fl n R p\<close>: the page of \<open>bs\<close> bytes has the flag \<open>fl\<close> and \<open>n\<close> records, and its slots hold
  the rows \<open>R\<close>, those beyond the records included.
\<close>

definition bt_view :: "int \<Rightarrow> layout \<Rightarrow> int \<Rightarrow> int \<Rightarrow> (nat \<Rightarrow> row) \<Rightarrow> bytes \<Rightarrow> bool" where
  "bt_view bs l fl n R p \<longleftrightarrow> int (length p) = bs \<and> 8 \<le> bs \<and> int32 fl \<and> int32 n \<and> val_at p 0 (VInt fl) \<and> val_at p 4 (VInt n) \<and>
     page_wf (bs - 8) l (drop 8 p) \<and> (\<forall>i < num_slots (bs - 8) l. page_row l (drop 8 p) i = R i)"

text \<open>Index layouts have integer and string fields only.\<close>

definition bt_lay :: "layout \<Rightarrow> bool" where
  "bt_lay l \<longleftrightarrow> lay_ok l \<and> (\<forall>f fi. map_of (sch_info (lay_schema l)) f = Some fi \<longrightarrow> fi_type fi \<noteq> BOOLEAN)"

definition bt_slots :: "int \<Rightarrow> layout \<Rightarrow> nat" where
  "bt_slots bs l = num_slots (bs - 8) l"

lemma bt_view_typed: "bt_view bs l fl n R p \<Longrightarrow> i < bt_slots bs l \<Longrightarrow> row_typed l (R i)"
  using slot_typed [of "bs - 8" l "drop 8 p" i] by (simp add: bt_view_def bt_slots_def)

lemma bt_view_cong:
  "(\<And>i. i < bt_slots bs l \<Longrightarrow> R i = R' i) \<Longrightarrow> bt_view bs l fl n R p \<Longrightarrow> bt_view bs l fl n R' p"
  by (simp add: bt_view_def bt_slots_def)

text \<open>Where a field lies, and what is there.\<close>

lemma bt_field:
  assumes "lay_ok l" "bt_view bs l fl n R p" "bs < 2 ^ 31" "i < bt_slots bs l" "field_val l f v" "lay_offset f l = Inr off"
  shows "8 \<le> 8 + int i * lay_slotSize l + off" "8 + int i * lay_slotSize l + off + int (length (val_bytes v)) \<le> bs"
    "val_at p (8 + int i * lay_slotSize l + off) v \<longleftrightarrow> R i f = Some v"
proof -
  have i: "i < num_slots (bs - 8) l" and bs: "0 \<le> bs - 8" and len: "int (length (drop 8 p)) = bs - 8"
    using assms(2,4) by (simp_all add: bt_slots_def bt_view_def)
  note w = field_within [OF assms(1) i bs assms(5,6)]
  show "8 \<le> 8 + int i * lay_slotSize l + off" "8 + int i * lay_slotSize l + off + int (length (val_bytes v)) \<le> bs"
    using w by simp_all
  have "page_row l (drop 8 p) i f = Some v \<longleftrightarrow> val_at (drop 8 p) (int i * lay_slotSize l + off) v"
    by (rule page_row_val_at [OF assms(1) i len _ assms(5,6)]) (use assms(3) in simp)
  then show "val_at p (8 + int i * lay_slotSize l + off) v \<longleftrightarrow> R i f = Some v"
    using val_at_drop [of "8 + int i * lay_slotSize l + off" p v] w(1) assms(2) i by (simp add: bt_view_def)
qed

text \<open>Writing a field, the flag or the number of records.\<close>

lemma bt_put_field:
  assumes "lay_ok l" "bt_view bs l fl n R p" "bs < 2 ^ 31" "i < bt_slots bs l" "field_val l f v" "lay_offset f l = Inr off"
  shows "bt_view bs l fl n (R(i := (R i)(f \<mapsto> v))) (overwrite (nat (8 + int i * lay_slotSize l + off)) (val_bytes v) p)"
proof -
  let ?a = "8 + int i * lay_slotSize l + off"
  let ?p = "overwrite (nat ?a) (val_bytes v) p"
  have i: "i < num_slots (bs - 8) l" and wf: "page_wf (bs - 8) l (drop 8 p)" and len: "int (length p) = bs"
    using assms(2,4) by (simp_all add: bt_slots_def bt_view_def)
  note a = bt_field(1,2) [OF assms]
  have d: "drop 8 ?p = overwrite (nat (int i * lay_slotSize l + off)) (val_bytes v) (drop 8 p)"
    using overwrite_drop [OF a(1), of "val_bytes v" p] a(2) len by simp
  have small: "bs - 8 < 2 ^ 31"
    using assms(3) by simp
  note put = put_field [OF assms(1) wf small i assms(5,6), folded d]
  have "val_at ?p 0 (VInt fl)" "val_at ?p 4 (VInt n)"
    using assms(2) a len by (auto intro!: val_at_other simp: bt_view_def apart_def)
  with assms(2) put a len show ?thesis
    by (auto simp: bt_view_def)
qed

lemma bt_put_front:
  assumes "bt_view bs l fl n R p" "int32 v"
  shows "bt_view bs l v n R (overwrite 0 (int_bytes v) p)" "bt_view bs l fl v R (overwrite 4 (int_bytes v) p)"
proof -
  have len: "int (length p) = bs" "8 \<le> bs"
    using assms(1) by (simp_all add: bt_view_def)
  then have d: "drop 8 (overwrite 0 (int_bytes v) p) = drop 8 p" "drop 8 (overwrite 4 (int_bytes v) p) = drop 8 p"
    by (simp_all add: overwrite_front)
  have v: "val_at (overwrite 0 (int_bytes v) p) 0 (VInt v)" "val_at (overwrite 4 (int_bytes v) p) 4 (VInt v)"
    using val_at_same [of 0 "VInt v" p] val_at_same [of 4 "VInt v" p] len by simp_all
  have o: "val_at (overwrite (nat 0) (int_bytes v) p) 4 (VInt n)" "val_at (overwrite (nat 4) (int_bytes v) p) 0 (VInt fl)"
    by (rule val_at_other; use assms(1) len in \<open>simp add: bt_view_def apart_def\<close>)+
  show "bt_view bs l v n R (overwrite 0 (int_bytes v) p)"
    using assms v(1) o(1) d(1) len by (simp add: bt_view_def)
  show "bt_view bs l fl v R (overwrite 4 (int_bytes v) p)"
    using assms v(2) o(2) d(2) len by (simp add: bt_view_def)
qed
section \<open>The operations on one page\<close>

text \<open>A pinned page of a B-tree, and the states that differ in one block at most.\<close>

definition bt_ready :: "'a tx_scheme \<Rightarrow> block_id multiset \<Rightarrow> bpage \<Rightarrow> int \<Rightarrow> int \<Rightarrow> (nat \<Rightarrow> row) \<Rightarrow> bool" where
  "bt_ready s M p fl n R \<longleftrightarrow> ready s M \<and> bp_blk p \<in># M \<and> bt_lay (bp_layout p) \<and>
     loggable (blocksize s) (bp_layout p) (fileName (bp_blk p)) \<and> bt_view (blocksize s) (bp_layout p) fl n R (view s (bp_blk p))"

definition bt_only :: "'a tx_scheme \<Rightarrow> 'a tx_scheme \<Rightarrow> block_id \<Rightarrow> bool" where
  "bt_only s s' blk \<longleftrightarrow> written s s' blk (view s' blk)"

lemma bt_readyD:
  assumes "bt_ready s M p fl n R"
  shows "ready s M" "bp_blk p \<in># M" "data_blk s (bp_blk p)" "bt_lay (bp_layout p)" "lay_ok (bp_layout p)"
    "bt_view (blocksize s) (bp_layout p) fl n R (view s (bp_blk p))" "blocksize s < 2 ^ 31"
    "loggable (blocksize s) (bp_layout p) (fileName (bp_blk p))" "int (length (fileName (bp_blk p))) + 32 \<le> blocksize s"
    "int (length (view s (bp_blk p))) = blocksize s" "8 \<le> blocksize s" "int32 fl" "int32 n"
  using assms ready_bounds(1) [of s M] ready_bufferD [of s M "bp_blk p"]
  by (auto simp: bt_ready_def bt_lay_def loggable_def bt_view_def)

lemma bt_only_trans [trans]: "bt_only s s' blk \<Longrightarrow> bt_only s' s'' blk \<Longrightarrow> bt_only s s'' blk"
  unfolding bt_only_def by (rule written_trans)

lemma written_only: "written s s' blk p \<Longrightarrow> bt_only s s' blk"
  by (simp add: bt_only_def written_def)

lemma alike_only: "alike s s' \<Longrightarrow> bt_only s s' blk"
  by (simp add: bt_only_def written_def alike_def)

lemma bt_only_alike: "alike s s' \<Longrightarrow> bt_only s' s'' blk \<Longrightarrow> bt_only s s'' blk" "bt_only s s' blk \<Longrightarrow> alike s' s'' \<Longrightarrow> bt_only s s'' blk"
  by (blast intro: bt_only_trans alike_only)+

lemma bt_only_same: "bt_only s s' blk \<Longrightarrow> blocksize s' = blocksize s"
  by (simp add: bt_only_def written_def)

lemma bt_other:
  assumes "bt_only s s' blk" "blk \<noteq> bp_blk p" "ready s' M" "bt_ready s M p fl n R"
  shows "bt_ready s' M p fl n R"
  using assms bt_readyD(3) [OF assms(4)] by (simp add: bt_only_def written_def bt_ready_def)

lemma bt_alike:
  assumes "alike s s'" "ready s' M" "bt_ready s M p fl n R"
  shows "bt_ready s' M p fl n R"
  using assms bt_readyD(3) [OF assms(3)] by (simp add: alike_def bt_ready_def)

lemma bt_written:
  assumes "written s s' (bp_blk p) pg" "ready s' M" "bt_ready s M p fl n R" "bt_view (blocksize s) (bp_layout p) fl' n' R' pg"
  shows "bt_ready s' M p fl' n' R'" "bt_only s s' (bp_blk p)"
  using assms(1-4) bt_readyD(3) [OF assms(3)] written_only [OF assms(1)] by (simp_all add: written_def bt_ready_def)

lemma bt_cong: "bt_ready s M p fl n R \<Longrightarrow> R = R' \<Longrightarrow> bt_ready s M p fl n R'"
  by simp

text \<open>Reads.\<close>

lemma bp_front_ok:
  assumes "bt_ready s M p fl n R"
  shows "\<exists>s'. bp_getFlag p s = (Inr fl, s') \<and> bt_ready s' M p fl n R \<and> alike s s'"
    "\<exists>s'. bp_getNumRecs p s = (Inr n, s') \<and> bt_ready s' M p fl n R \<and> alike s s'"
proof -
  note d = bt_readyD [OF assms]
  have "getInt (view s (bp_blk p)) 0 = Inr fl" "getInt (view s (bp_blk p)) 4 = Inr n"
    using getInt_val_at [of 0 "view s (bp_blk p)" fl] getInt_val_at [of 4 "view s (bp_blk p)" n] d(6,7) by (simp_all add: bt_view_def)
  with ready_getInt [OF d(1,2), of 0] ready_getInt [OF d(1,2), of 4] bt_alike [OF _ _ assms]
  show "\<exists>s'. bp_getFlag p s = (Inr fl, s') \<and> bt_ready s' M p fl n R \<and> alike s s'"
    "\<exists>s'. bp_getNumRecs p s = (Inr n, s') \<and> bt_ready s' M p fl n R \<and> alike s s'"
    by (fastforce simp: bp_getFlag_def bp_getNumRecs_def)+
qed

text \<open>The type, the place and the value of a field of a slot.\<close>

lemma bt_valueD:
  assumes "bt_ready s M p fl n R" "i < bt_slots (blocksize s) (bp_layout p)" "R i f = Some v"
  obtains off where "field_val (bp_layout p) f v" "lay_offset f (bp_layout p) = Inr off"
    "val_at (view s (bp_blk p)) (8 + int i * lay_slotSize (bp_layout p) + off) v"
    "sch_fieldType f (lay_schema (bp_layout p)) = Inr (case v of VInt _ \<Rightarrow> INTEGER | VStr _ \<Rightarrow> VARCHAR)"
proof -
  note d = bt_readyD [OF assms(1)]
  have f: "field_val (bp_layout p) f v"
    using bt_view_typed [OF d(6) assms(2)] assms(3) by (simp add: row_typed_def)
  obtain off fi where off: "lay_offset f (bp_layout p) = Inr off" "map_of (sch_info (lay_schema (bp_layout p))) f = Some fi"
      "sch_fieldType f (lay_schema (bp_layout p)) = Inr (fi_type fi)"
    using field_place [OF d(5) field_val_field [OF f]] by metis
  have "fi_type fi = (case v of VInt _ \<Rightarrow> INTEGER | VStr _ \<Rightarrow> VARCHAR)"
    using f off(2) d(4) by (auto simp: field_val_def bt_lay_def split: val.splits)
  with that [OF f off(1)] bt_field(3) [OF d(5,6,7) assms(2) f off(1)] assms(3) off(3) show thesis by simp
qed

lemma bp_getInt_ok:
  assumes "bt_ready s M p fl n R" "i < bt_slots (blocksize s) (bp_layout p)" "R i f = Some (VInt v)"
  shows "\<exists>s'. bp_getInt (int i) f p s = (Inr v, s') \<and> bt_ready s' M p fl n R \<and> alike s s'"
proof -
  note d = bt_readyD [OF assms(1)]
  obtain off where f: "field_val (bp_layout p) f (VInt v)" "lay_offset f (bp_layout p) = Inr off"
      "val_at (view s (bp_blk p)) (8 + int i * lay_slotSize (bp_layout p) + off) (VInt v)"
    by (rule bt_valueD [OF assms])
  have "int32 v"
    using f(1) by (auto simp: field_val_def split: option.splits)
  then have "getInt (view s (bp_blk p)) (8 + int i * lay_slotSize (bp_layout p) + off) = Inr v"
    using f(3) getInt_val_at [of "8 + int i * lay_slotSize (bp_layout p) + off" "view s (bp_blk p)" v] d(7,10) by (simp add: val_at_def)
  with ready_getInt [OF d(1,2), of "8 + int i * lay_slotSize (bp_layout p) + off"] bt_alike [OF _ _ assms(1)] f(2) show ?thesis
    by (fastforce simp: bp_getInt_def bp_fldPos_def bp_slotPos_def cmd_simps)
qed

lemma bp_getString_ok:
  assumes "bt_ready s M p fl n R" "i < bt_slots (blocksize s) (bp_layout p)" "R i f = Some (VStr v)"
  shows "\<exists>s'. bp_getString (int i) f p s = (Inr v, s') \<and> bt_ready s' M p fl n R \<and> alike s s'"
proof -
  note d = bt_readyD [OF assms(1)]
  obtain off where f: "lay_offset f (bp_layout p) = Inr off"
      "val_at (view s (bp_blk p)) (8 + int i * lay_slotSize (bp_layout p) + off) (VStr v)"
    by (rule bt_valueD [OF assms])
  then have "getString (view s (bp_blk p)) (8 + int i * lay_slotSize (bp_layout p) + off) = Inr v"
    using getString_val_at [of "8 + int i * lay_slotSize (bp_layout p) + off" "view s (bp_blk p)" v] d(7,10) by (simp add: val_at_def)
  with ready_getString [OF d(1,2), of "8 + int i * lay_slotSize (bp_layout p) + off"] bt_alike [OF _ _ assms(1)] f(1) show ?thesis
    by (fastforce simp: bp_getString_def bp_fldPos_def bp_slotPos_def cmd_simps)
qed

lemma bp_getValue_ok:
  assumes "bt_ready s M p fl n R" "i < bt_slots (blocksize s) (bp_layout p)" "R i f = Some v"
  shows "\<exists>s'. bp_getValue (int i) f p s = (Inr (const_of v), s') \<and> bt_ready s' M p fl n R \<and> alike s s'"
proof -
  obtain off where f: "sch_fieldType f (lay_schema (bp_layout p)) = Inr (case v of VInt _ \<Rightarrow> INTEGER | VStr _ \<Rightarrow> VARCHAR)"
    by (rule bt_valueD [OF assms])
  show ?thesis
  proof (cases v)
    case (VInt x)
    with bp_getInt_ok [OF assms(1,2), of f x] assms(3) f show ?thesis
      by (auto simp: bp_getValue_def cmd_simps)
  next
    case (VStr x)
    with bp_getString_ok [OF assms(1,2), of f x] assms(3) f show ?thesis
      by (auto simp: bp_getValue_def cmd_simps INTEGER_def VARCHAR_def)
  qed
qed

text \<open>Writes.\<close>

lemma bp_setInt_ok:
  assumes "bt_ready s M p fl n R" "i < bt_slots (blocksize s) (bp_layout p)" "field_val (bp_layout p) f (VInt v)"
  shows "\<exists>s'. bp_setInt (int i) f v p s = (Inr (), s') \<and> bt_ready s' M p fl n (R(i := (R i)(f \<mapsto> VInt v))) \<and> bt_only s s' (bp_blk p)"
proof -
  note d = bt_readyD [OF assms(1)]
  obtain off where off: "lay_offset f (bp_layout p) = Inr off"
    using field_place [OF d(5) field_val_field [OF assms(3)]] by metis
  let ?a = "8 + int i * lay_slotSize (bp_layout p) + off"
  note w = bt_field [OF d(5-7) assms(2,3) off]
  have "0 \<le> ?a" "?a + 4 \<le> blocksize s" "True \<Longrightarrow> int (length (fileName (bp_blk p))) + 32 \<le> blocksize s"
    using w(1,2) d(9) by simp_all
  from ready_setInt [OF d(1,2) this, where v = v] obtain s' where
    s': "tx_setInt (bp_blk p) ?a v True s = (Inr (), s')" "ready s' M"
      "written s s' (bp_blk p) (overwrite (nat ?a) (val_bytes (VInt v)) (view s (bp_blk p)))"
    by auto
  from bt_written [OF s'(3,2) assms(1) bt_put_field [OF d(5-7) assms(2,3) off]] s'(1) off show ?thesis
    by (auto simp: bp_setInt_def bp_fldPos_def bp_slotPos_def cmd_simps)
qed

lemma bp_setString_ok:
  assumes "bt_ready s M p fl n R" "i < bt_slots (blocksize s) (bp_layout p)" "field_val (bp_layout p) f (VStr v)"
  shows "\<exists>s'. bp_setString (int i) f v p s = (Inr (), s') \<and> bt_ready s' M p fl n (R(i := (R i)(f \<mapsto> VStr v))) \<and> bt_only s s' (bp_blk p)"
proof -
  note d = bt_readyD [OF assms(1)]
  obtain fi where fi: "map_of (sch_info (lay_schema (bp_layout p))) f = Some fi" "fi_type fi = VARCHAR"
    using assms(3) by (auto simp: field_val_def split: option.splits)
  have "f \<in> dom (R i)"
    using bt_view_typed [OF d(6) assms(2)] field_val_field [OF assms(3)] by (simp add: row_typed_def)
  then obtain x where x: "R i f = Some x" by blast
  obtain off where off: "field_val (bp_layout p) f x" "lay_offset f (bp_layout p) = Inr off"
      "val_at (view s (bp_blk p)) (8 + int i * lay_slotSize (bp_layout p) + off) x"
    by (rule bt_valueD [OF assms(1,2) x])
  let ?a = "8 + int i * lay_slotSize (bp_layout p) + off"
  obtain old where old: "x = VStr old" "int (length old) \<le> fi_length fi"
    using off(1) fi by (cases x) (auto simp: field_val_def INTEGER_def BOOLEAN_def VARCHAR_def)
  note w = bt_field [OF d(5-7) assms(2,3) off(2)]
  have "getString (view s (bp_blk p)) ?a = Inr old"
    using getString_val_at [of ?a "view s (bp_blk p)" old] off(3) old(1) d(7,10) by (simp add: val_at_def)
  moreover have "int (length (fileName (bp_blk p))) + 2 * int (length old) + 32 \<le> blocksize s"
    using d(8) fi old(2) unfolding loggable_def by fastforce
  ultimately have log: "True \<Longrightarrow> \<exists>old. getString (view s (bp_blk p)) ?a = Inr old \<and>
      int (length (fileName (bp_blk p))) + 2 * int (length old) + 32 \<le> blocksize s"
    by blast
  have "0 \<le> ?a" "?a + 4 + int (length v) \<le> blocksize s"
    using w(1,2) by simp_all
  from ready_setString [OF d(1,2) this log] obtain s' where
    s': "tx_setString (bp_blk p) ?a v True s = (Inr (), s')" "ready s' M"
      "written s s' (bp_blk p) (overwrite (nat ?a) (val_bytes (VStr v)) (view s (bp_blk p)))"
    by auto
  from bt_written [OF s'(3,2) assms(1) bt_put_field [OF d(5-7) assms(2,3) off(2)]] s'(1) off(2) show ?thesis
    by (auto simp: bp_setString_def bp_fldPos_def bp_slotPos_def cmd_simps)
qed

lemma bp_setValue_ok:
  assumes "bt_ready s M p fl n R" "i < bt_slots (blocksize s) (bp_layout p)" "field_val (bp_layout p) f v"
  shows "\<exists>s'. bp_setValue (int i) f (const_of v) p s = (Inr (), s') \<and> bt_ready s' M p fl n (R(i := (R i)(f \<mapsto> v))) \<and> bt_only s s' (bp_blk p)"
proof -
  have "f \<in> dom (R i)"
    using bt_view_typed [OF bt_readyD(6) [OF assms(1)] assms(2)] field_val_field [OF assms(3)] by (simp add: row_typed_def)
  then obtain x where x: "R i f = Some x" by blast
  obtain off where f: "field_val (bp_layout p) f x"
    "sch_fieldType f (lay_schema (bp_layout p)) = Inr (case x of VInt _ \<Rightarrow> INTEGER | VStr _ \<Rightarrow> VARCHAR)"
    by (rule bt_valueD [OF assms(1,2) x])
  show ?thesis
  proof (cases v)
    case (VInt y)
    with f assms(3) have "sch_fieldType f (lay_schema (bp_layout p)) = Inr INTEGER"
      by (auto simp: field_val_def INTEGER_def BOOLEAN_def VARCHAR_def split: option.splits val.splits)
    with bp_setInt_ok [OF assms(1,2), of f y] assms(3) VInt show ?thesis
      by (auto simp: bp_setValue_def cmd_simps const_asInt_def const_int_def deref_def)
  next
    case (VStr y)
    with f assms(3) have "sch_fieldType f (lay_schema (bp_layout p)) = Inr VARCHAR"
      by (auto simp: field_val_def INTEGER_def BOOLEAN_def VARCHAR_def split: option.splits val.splits)
    with bp_setString_ok [OF assms(1,2), of f y] assms(3) VStr show ?thesis
      by (auto simp: bp_setValue_def cmd_simps const_asString_def const_str_def deref_def INTEGER_def VARCHAR_def)
  qed
qed

lemma bp_put_front_ok:
  assumes "bt_ready s M p fl n R" "int32 v"
  shows "\<exists>s'. bp_setFlag v p s = (Inr (), s') \<and> bt_ready s' M p v n R \<and> bt_only s s' (bp_blk p)"
    "\<exists>s'. bp_setNumRecs v p s = (Inr (), s') \<and> bt_ready s' M p fl v R \<and> bt_only s s' (bp_blk p)"
proof -
  note d = bt_readyD [OF assms(1)]
  note pf = bt_put_front [OF d(6) assms(2)]
  obtain s0 where s0: "tx_setInt (bp_blk p) 0 v True s = (Inr (), s0)" "ready s0 M"
      "written s s0 (bp_blk p) (overwrite 0 (int_bytes v) (view s (bp_blk p)))"
    using ready_setInt [OF d(1,2), of 0 True v] d(9,11) by auto
  obtain s4 where s4: "tx_setInt (bp_blk p) 4 v True s = (Inr (), s4)" "ready s4 M"
      "written s s4 (bp_blk p) (overwrite 4 (int_bytes v) (view s (bp_blk p)))"
    using ready_setInt [OF d(1,2), of 4 True v] d(9,11) by auto
  show "\<exists>s'. bp_setFlag v p s = (Inr (), s') \<and> bt_ready s' M p v n R \<and> bt_only s s' (bp_blk p)"
    using bt_written [OF s0(3,2) assms(1) pf(1)] s0(1) by (auto simp: bp_setFlag_def)
  show "\<exists>s'. bp_setNumRecs v p s = (Inr (), s') \<and> bt_ready s' M p fl v R \<and> bt_only s s' (bp_blk p)"
    using bt_written [OF s4(3,2) assms(1) pf(2)] s4(1) by (auto simp: bp_setNumRecs_def)
qed
section \<open>Copying records\<close>

definition bt_slot :: "'a tx_scheme \<Rightarrow> block_id multiset \<Rightarrow> bpage \<Rightarrow> nat \<Rightarrow> row \<Rightarrow> bool" where
  "bt_slot s M p i r \<longleftrightarrow> i < bt_slots (blocksize s) (bp_layout p) \<and> (\<exists>fl n Q. bt_ready s M p fl n Q \<and> Q i = r)"

lemma bt_slotI: "bt_ready s M p fl n R \<Longrightarrow> i < bt_slots (blocksize s) (bp_layout p) \<Longrightarrow> bt_slot s M p i (R i)"
  by (auto simp: bt_slot_def)

lemma bt_slot_unique: "bt_slot s M p i r \<Longrightarrow> bt_ready s M p fl n R \<Longrightarrow> R i = r"
  by (auto simp: bt_slot_def bt_ready_def bt_view_def bt_slots_def)

lemma bt_slot_row:
  assumes "bt_slot s M p i r"
  shows "row_typed (bp_layout p) r"
  using assms by (auto simp: bt_slot_def intro: bt_view_typed dest: bt_readyD(6))

lemma bt_slot_alike: "alike s s' \<Longrightarrow> ready s' M \<Longrightarrow> bt_slot s M p i r \<Longrightarrow> bt_slot s' M p i r"
  using bt_alike [of s s' M p] unfolding bt_slot_def alike_def by metis

text \<open>A write to another slot leaves a slot alone, on the same page or not.\<close>

lemma bt_slot_keep:
  assumes "bt_slot s M p i r" "bt_ready s M q fl n R" "bt_ready s' M q fl' n' R'" "bt_only s s' (bp_blk q)"
    and "bp_layout p = bp_layout q" "bp_blk p = bp_blk q \<Longrightarrow> R' i = R i"
  shows "bt_slot s' M p i r"
proof (cases "bp_blk p = bp_blk q")
  case True
  then have "p = q"
    using assms(5) by simp
  with bt_slotI [OF assms(3), of i] bt_slot_unique [of s M q i r] assms True bt_only_same [OF assms(4)] show ?thesis
    by (auto simp: bt_slot_def)
next
  case False
  with assms(1,4) bt_other [OF assms(4) _ bt_readyD(1) [OF assms(3)]] bt_only_same [OF assms(4)] show ?thesis
    unfolding bt_slot_def by metis
qed

lemma bp_copy_fields_ok:
  assumes "bt_ready s M q fl n R" "to < bt_slots (blocksize s) (bp_layout q)" "bt_slot s M p from r" "bp_layout p = bp_layout q"
    and "bp_blk p = bp_blk q \<Longrightarrow> from \<noteq> to" "set fs \<subseteq> lay_fields (bp_layout q)"
  shows "\<exists>s'. bp_copy_fields (int from) p (int to) q fs s = (Inr (), s') \<and>
    bt_ready s' M q fl n (R(to := (\<lambda>f. if f \<in> set fs then r f else R to f))) \<and> bt_slot s' M p from r \<and> bt_only s s' (bp_blk q)"
  using assms(1-3,6)
proof (induction fs arbitrary: s R)
  case Nil
  then show ?case
    by (auto simp: ret_apply intro: alike_only)
next
  case (Cons f fs)
  have r: "row_typed (bp_layout q) r"
    using bt_slot_row [OF Cons.prems(3)] assms(4) by simp
  then obtain v where v: "r f = Some v" "field_val (bp_layout q) f v"
    using Cons.prems(4) by (fastforce simp: row_typed_def)
  obtain fl' n' Q where Q: "bt_ready s M p fl' n' Q" "Q from = r" "from < bt_slots (blocksize s) (bp_layout p)"
    using Cons.prems(3) by (auto simp: bt_slot_def)
  obtain s1 where s1: "bp_getValue (int from) f p s = (Inr (const_of v), s1)" "bt_ready s1 M p fl' n' Q" "alike s s1"
    using bp_getValue_ok [OF Q(1,3), of f v] Q(2) v(1) by auto
  note rd = bt_readyD(1) [OF s1(2)]
  have q1: "bt_ready s1 M q fl n R" "to < bt_slots (blocksize s1) (bp_layout q)"
    using bt_alike [OF s1(3) rd Cons.prems(1)] Cons.prems(2) s1(3) by (simp_all add: alike_def)
  obtain s2 where s2: "bp_setValue (int to) f (const_of v) q s1 = (Inr (), s2)" "bt_ready s2 M q fl n (R(to := (R to)(f \<mapsto> v)))"
      "bt_only s1 s2 (bp_blk q)"
    using bp_setValue_ok [OF q1 v(2)] by blast
  have p2: "bt_slot s2 M p from r"
    by (rule bt_slot_keep [OF bt_slot_alike [OF s1(3) rd Cons.prems(3)] q1(1) s2(2,3) assms(4)]) (use assms(5) in auto)
  have q2: "to < bt_slots (blocksize s2) (bp_layout q)"
    using q1(2) bt_only_same [OF s2(3)] by simp
  have "set fs \<subseteq> lay_fields (bp_layout q)"
    using Cons.prems(4) by simp
  from Cons.IH [OF s2(2) q2 p2 this] obtain s3 where s3: "bp_copy_fields (int from) p (int to) q fs s2 = (Inr (), s3)"
      "bt_ready s3 M q fl n ((R(to := (R to)(f \<mapsto> v)))(to := (\<lambda>g. if g \<in> set fs then r g else (R(to := (R to)(f \<mapsto> v))) to g)))"
      "bt_slot s3 M p from r" "bt_only s2 s3 (bp_blk q)"
    by blast
  have "bt_ready s3 M q fl n (R(to := (\<lambda>g. if g \<in> set (f # fs) then r g else R to g)))"
    by (rule bt_cong [OF s3(2)]) (use v(1) in \<open>auto simp: fun_eq_iff\<close>)
  moreover have "bp_copy_fields (int from) p (int to) q (f # fs) s = (Inr (), s3)"
    using s3(1) s1(1) s2(1) by (simp add: cmd_simps)
  ultimately show ?case
    using s3(3) bt_only_trans [OF bt_only_alike(1) [OF s1(3) s2(3)] s3(4)] by blast
qed

text \<open>All fields: the record itself.\<close>

lemma bp_copy_record_ok:
  assumes "bt_ready s M q fl n R" "to < bt_slots (blocksize s) (bp_layout q)" "bt_slot s M p from r" "bp_layout p = bp_layout q"
    and "bp_blk p = bp_blk q \<Longrightarrow> from \<noteq> to"
  shows "\<exists>s'. bp_copy_fields (int from) p (int to) q (sch_fields (lay_schema (bp_layout p))) s = (Inr (), s') \<and>
    bt_ready s' M q fl n (R(to := r)) \<and> bt_slot s' M p from r \<and> bt_only s s' (bp_blk q)"
proof -
  have fs: "set (sch_fields (lay_schema (bp_layout p))) = lay_fields (bp_layout q)"
    using bt_readyD(5) [OF assms(1)] assms(4) by (simp add: lay_ok_def sch_ok_def lay_fields_def)
  have "row_typed (bp_layout q) r" "row_typed (bp_layout q) (R to)"
    using bt_slot_row [OF assms(3)] bt_view_typed [OF bt_readyD(6) [OF assms(1)] assms(2)] assms(4) by simp_all
  then have "(\<lambda>f. if f \<in> lay_fields (bp_layout q) then r f else R to f) = r"
    by (fastforce simp: row_typed_def fun_eq_iff dom_def)
  with bp_copy_fields_ok [OF assms, of "sch_fields (lay_schema (bp_layout p))"] fs show ?thesis by simp
qed

lemma bp_copyRecord_ok:
  assumes "bt_ready s M p fl n R" "i < bt_slots (blocksize s) (bp_layout p)" "j < bt_slots (blocksize s) (bp_layout p)" "i \<noteq> j"
  shows "\<exists>s'. bp_copyRecord (int i) (int j) p s = (Inr (), s') \<and> bt_ready s' M p fl n (R(j := R i)) \<and> bt_only s s' (bp_blk p)"
  using bp_copy_record_ok [OF assms(1,3) bt_slotI [OF assms(1,2)] refl] assms(4) by (auto simp: bp_copyRecord_def)

section \<open>Making room and closing a gap\<close>

lemma bp_shift_up_ok:
  assumes "bt_ready s M p fl n R" "k \<le> i" "i < bt_slots (blocksize s) (bp_layout p)"
  shows "\<exists>s'. bp_shift_up k (int i) p s = (Inr (), s') \<and>
    bt_ready s' M p fl n (\<lambda>j. if i - k < j \<and> j \<le> i then R (j - 1) else R j) \<and> bt_only s s' (bp_blk p)"
  using assms
proof (induction k arbitrary: s R i)
  case 0
  have "bt_ready s M p fl n (\<lambda>j. if i - 0 < j \<and> j \<le> i then R (j - 1) else R j)"
    by (rule bt_cong [OF 0(1)]) (rule ext, auto)
  then show ?case
    by (auto simp: ret_apply intro: alike_only)
next
  case (Suc k)
  then have i: "i - 1 < bt_slots (blocksize s) (bp_layout p)" "i - 1 \<noteq> i" "int i - 1 = int (i - 1)" by simp_all
  obtain s1 where s1: "bp_copyRecord (int i - 1) (int i) p s = (Inr (), s1)" "bt_ready s1 M p fl n (R(i := R (i - 1)))"
      "bt_only s s1 (bp_blk p)"
    using bp_copyRecord_ok [OF Suc.prems(1) i(1) Suc.prems(3) i(2), folded i(3)] by blast
  have "k \<le> i - 1" "i - 1 < bt_slots (blocksize s1) (bp_layout p)"
    using Suc.prems(2) i(1) bt_only_same [OF s1(3)] by simp_all
  from Suc.IH [OF s1(2) this, folded i(3)] obtain s2 where s2: "bp_shift_up k (int i - 1) p s1 = (Inr (), s2)"
      "bt_ready s2 M p fl n (\<lambda>j. if i - 1 - k < j \<and> j \<le> i - 1 then (R(i := R (i - 1))) (j - 1) else (R(i := R (i - 1))) j)"
      "bt_only s1 s2 (bp_blk p)" by blast
  have "bt_ready s2 M p fl n (\<lambda>j. if i - Suc k < j \<and> j \<le> i then R (j - 1) else R j)"
    by (rule bt_cong [OF s2(2)]) (use Suc.prems(2) in \<open>auto simp: fun_eq_iff\<close>)
  with s1(1) s2(1) bt_only_trans [OF s1(3) s2(3)] show ?case
    by (simp add: cmd_simps)
qed

lemma bt_slots_small:
  assumes "lay_ok l" "bs < 2 ^ 31" "8 \<le> bs"
  shows "int (bt_slots bs l) < 2 ^ 31"
proof (cases "bt_slots bs l")
  case (Suc k)
  with slot_within [OF assms(1), of k "bs - 8" 0 4] lay_size [OF assms(1)] assms(3)
  have "int k * lay_slotSize l + 4 \<le> bs - 8" by (simp add: bt_slots_def)
  moreover have "int k * 1 \<le> int k * lay_slotSize l"
    using lay_size [OF assms(1)] by (intro mult_left_mono) simp_all
  ultimately show ?thesis
    using Suc assms(2) by simp
qed simp

lemma bp_insert_ok:
  assumes "bt_ready s M p fl (int m) R" "i \<le> m" "m < bt_slots (blocksize s) (bp_layout p)"
  shows "\<exists>s'. bp_insert (int i) p s = (Inr (), s') \<and>
    bt_ready s' M p fl (int (Suc m)) (\<lambda>j. if i < j \<and> j \<le> m then R (j - 1) else R j) \<and> bt_only s s' (bp_blk p)"
proof -
  obtain s1 where s1: "bp_getNumRecs p s = (Inr (int m), s1)" "bt_ready s1 M p fl (int m) R" "alike s s1"
    using bp_front_ok(2) [OF assms(1)] by blast
  have m: "m - i \<le> m" "m < bt_slots (blocksize s1) (bp_layout p)" "nat (int m - int i) = m - i" "m - (m - i) = i"
    using assms(2,3) s1(3) by (simp_all add: alike_def)
  obtain s2 where s2: "bp_shift_up (m - i) (int m) p s1 = (Inr (), s2)"
      "bt_ready s2 M p fl (int m) (\<lambda>j. if i < j \<and> j \<le> m then R (j - 1) else R j)" "bt_only s1 s2 (bp_blk p)"
    using bp_shift_up_ok [OF s1(2) m(1,2)] m(4) by auto
  obtain s3 where s3: "bp_getNumRecs p s2 = (Inr (int m), s3)"
      "bt_ready s3 M p fl (int m) (\<lambda>j. if i < j \<and> j \<le> m then R (j - 1) else R j)" "alike s2 s3"
    using bp_front_ok(2) [OF s2(2)] by blast
  note d = bt_readyD [OF assms(1)]
  have "int32 (int m + 1)"
    using bt_slots_small [OF d(5,7,11)] assms(3) by (simp add: int32_def)
  from bp_put_front_ok(2) [OF s3(2) this] obtain s4 where s4: "bp_setNumRecs (int m + 1) p s3 = (Inr (), s4)"
      "bt_ready s4 M p fl (int m + 1) (\<lambda>j. if i < j \<and> j \<le> m then R (j - 1) else R j)" "bt_only s3 s4 (bp_blk p)" by blast
  have "bt_only s s4 (bp_blk p)"
    by (rule bt_only_trans [OF bt_only_alike(2) [OF bt_only_alike(1) [OF s1(3) s2(3)] s3(3)] s4(3)])
  with s1(1) s2(1) s3(1) s4(1,2) m(3) show ?thesis
    by (simp add: bp_insert_def cmd_simps add.commute)
qed

lemma bp_remove_loop_ok:
  assumes "bt_ready s M p fl (int m) R" "0 < i" "m - i < k" "m \<le> bt_slots (blocksize s) (bp_layout p)"
  shows "\<exists>s'. bp_remove_loop k (int i) p s = (Inr (), s') \<and>
    bt_ready s' M p fl (int m) (\<lambda>j. if i \<le> Suc j \<and> Suc j < m then R (Suc j) else R j) \<and> bt_only s s' (bp_blk p)"
  using assms
proof (induction k arbitrary: s R i)
  case (Suc k)
  obtain s1 where s1: "bp_getNumRecs p s = (Inr (int m), s1)" "bt_ready s1 M p fl (int m) R" "alike s s1"
    using bp_front_ok(2) [OF Suc.prems(1)] by blast
  show ?case
  proof (cases "i < m")
    case False
    then have "bt_ready s1 M p fl (int m) (\<lambda>j. if i \<le> Suc j \<and> Suc j < m then R (Suc j) else R j)"
      by (intro bt_cong [OF s1(2)]) (auto simp: fun_eq_iff)
    with False s1(1) alike_only [OF s1(3)] show ?thesis
      by (auto simp: cmd_simps)
  next
    case True
    then have i: "i < bt_slots (blocksize s1) (bp_layout p)" "i - 1 < bt_slots (blocksize s1) (bp_layout p)" "i \<noteq> i - 1"
        "int i - 1 = int (i - 1)" "int i + 1 = int (Suc i)"
      using Suc.prems(2,4) s1(3) by (simp_all add: alike_def)
    obtain s2 where s2: "bp_copyRecord (int i) (int i - 1) p s1 = (Inr (), s2)" "bt_ready s2 M p fl (int m) (R(i - 1 := R i))"
        "bt_only s1 s2 (bp_blk p)"
      using bp_copyRecord_ok [OF s1(2) i(1-3), folded i(4)] by blast
    have "m - Suc i < k" "m \<le> bt_slots (blocksize s2) (bp_layout p)"
      using Suc.prems(3,4) True s1(3) bt_only_same [OF s2(3)] by (auto simp: alike_def)
    from Suc.IH [OF s2(2) _ this, folded i(5)] obtain s3 where s3: "bp_remove_loop k (int i + 1) p s2 = (Inr (), s3)"
        "bt_ready s3 M p fl (int m) (\<lambda>j. if Suc i \<le> Suc j \<and> Suc j < m then (R(i - 1 := R i)) (Suc j) else (R(i - 1 := R i)) j)"
        "bt_only s2 s3 (bp_blk p)" by blast
    have "bt_ready s3 M p fl (int m) (\<lambda>j. if i \<le> Suc j \<and> Suc j < m then R (Suc j) else R j)"
      by (rule bt_cong [OF s3(2)]) (use Suc.prems(2) True in \<open>auto simp: fun_eq_iff le_Suc_eq\<close>)
    moreover have "bt_only s s3 (bp_blk p)"
      by (rule bt_only_trans [OF bt_only_alike(1) [OF s1(3) s2(3)] s3(3)])
    ultimately show ?thesis
      using True s1(1) s2(1) s3(1) by (simp add: cmd_simps)
  qed
qed simp

lemma bp_remove_ok:
  assumes "bt_ready s M p fl (int m) R" "i < m" "m \<le> k" "m \<le> bt_slots (blocksize s) (bp_layout p)"
  shows "\<exists>s'. bp_remove k (int i) p s = (Inr (), s') \<and>
    bt_ready s' M p fl (int (m - 1)) (\<lambda>j. if i \<le> j \<and> Suc j < m then R (Suc j) else R j) \<and> bt_only s s' (bp_blk p)"
proof -
  let ?R = "\<lambda>j. if i \<le> j \<and> Suc j < m then R (Suc j) else R j"
  have i: "m - Suc i < k" "int i + 1 = int (Suc i)"
    using assms(2,3) by simp_all
  obtain s1 where s1: "bp_remove_loop k (int i + 1) p s = (Inr (), s1)" "bt_ready s1 M p fl (int m) ?R" "bt_only s s1 (bp_blk p)"
    using bp_remove_loop_ok [OF assms(1) zero_less_Suc i(1) assms(4), folded i(2)] by auto
  obtain s2 where s2: "bp_getNumRecs p s1 = (Inr (int m), s2)" "bt_ready s2 M p fl (int m) ?R" "alike s1 s2"
    using bp_front_ok(2) [OF s1(2)] by blast
  have m: "int32 (int (m - 1))" "int m - 1 = int (m - 1)"
    using bt_readyD(13) [OF assms(1)] assms(2) by (auto simp: int32_def)
  obtain s3 where s3: "bp_setNumRecs (int m - 1) p s2 = (Inr (), s3)" "bt_ready s3 M p fl (int (m - 1)) ?R" "bt_only s2 s3 (bp_blk p)"
    using bp_put_front_ok(2) [OF s2(2) m(1)] unfolding m(2) by blast
  have "bt_only s s3 (bp_blk p)"
    by (rule bt_only_trans [OF bt_only_alike(2) [OF s1(3) s2(3)] s3(3)])
  with s1(1) s2(1) s3(1,2) show ?thesis
    by (simp add: bp_remove_def cmd_simps)
qed
section \<open>Pages as lists of records\<close>

text \<open>The first slots hold the records, the others are free.\<close>

definition bt_list :: "'a tx_scheme \<Rightarrow> block_id multiset \<Rightarrow> bpage \<Rightarrow> int \<Rightarrow> row list \<Rightarrow> bool" where
  "bt_list s M p fl rs \<longleftrightarrow> length rs \<le> bt_slots (blocksize s) (bp_layout p) \<and>
     (\<exists>R. bt_ready s M p fl (int (length rs)) R \<and> (\<forall>i < length rs. R i = rs ! i))"

lemma bt_listE:
  assumes "bt_list s M p fl rs"
  obtains R where "bt_ready s M p fl (int (length rs)) R" "\<And>i. i < length rs \<Longrightarrow> R i = rs ! i"
    "length rs \<le> bt_slots (blocksize s) (bp_layout p)"
  using assms by (auto simp: bt_list_def)

lemma bt_list_ready: "bt_list s M p fl rs \<Longrightarrow> ready s M"
  by (auto simp: bt_list_def bt_ready_def)

lemma bt_list_alike: "alike s s' \<Longrightarrow> ready s' M \<Longrightarrow> bt_list s M p fl rs \<Longrightarrow> bt_list s' M p fl rs"
  using bt_alike [of s s' M p fl "int (length rs)"] unfolding bt_list_def alike_def by metis

lemma bt_list_other:
  "bt_only s s' blk \<Longrightarrow> blk \<noteq> bp_blk p \<Longrightarrow> ready s' M \<Longrightarrow> bt_list s M p fl rs \<Longrightarrow> bt_list s' M p fl rs"
  using bt_other [of s s' blk p M fl "int (length rs)"] bt_only_same [of s s' blk] unfolding bt_list_def by metis

lemma bt_list_row:
  assumes "bt_list s M p fl rs" "r \<in> set rs"
  shows "row_typed (bp_layout p) r"
proof -
  obtain i where "i < length rs" "r = rs ! i"
    using assms(2) by (auto simp: in_set_conv_nth)
  with assms(1) bt_view_typed [OF bt_readyD(6)] show ?thesis
    by (metis bt_listE order_less_le_trans)
qed

lemma bt_list_front:
  assumes "bt_list s M p fl rs"
  shows "\<exists>s'. bp_getFlag p s = (Inr fl, s') \<and> bt_list s' M p fl rs \<and> alike s s'"
    "\<exists>s'. bp_getNumRecs p s = (Inr (int (length rs)), s') \<and> bt_list s' M p fl rs \<and> alike s s'"
proof -
  obtain R where R: "bt_ready s M p fl (int (length rs)) R"
    by (rule bt_listE [OF assms])
  from bp_front_ok [OF R] bt_list_alike [OF _ bt_readyD(1) assms]
  show "\<exists>s'. bp_getFlag p s = (Inr fl, s') \<and> bt_list s' M p fl rs \<and> alike s s'"
    "\<exists>s'. bp_getNumRecs p s = (Inr (int (length rs)), s') \<and> bt_list s' M p fl rs \<and> alike s s'"
    by blast+
qed

lemma bt_list_get:
  assumes "bt_list s M p fl rs" "i < length rs" "(rs ! i) f = Some v"
  shows "\<exists>s'. bp_getValue (int i) f p s = (Inr (const_of v), s') \<and> bt_list s' M p fl rs \<and> alike s s'"
proof -
  obtain R where R: "bt_ready s M p fl (int (length rs)) R" "R i = rs ! i" "i < bt_slots (blocksize s) (bp_layout p)"
    by (rule bt_listE [OF assms(1)]) (use assms(2) in auto)
  from bp_getValue_ok [OF R(1,3), of f v] R(2) assms(3) bt_list_alike [OF _ bt_readyD(1) assms(1)] show ?thesis
    by auto
qed

lemma bt_list_getInt:
  assumes "bt_list s M p fl rs" "i < length rs" "(rs ! i) f = Some (VInt v)"
  shows "\<exists>s'. bp_getInt (int i) f p s = (Inr v, s') \<and> bt_list s' M p fl rs \<and> alike s s'"
proof -
  obtain R where R: "bt_ready s M p fl (int (length rs)) R" "R i = rs ! i" "i < bt_slots (blocksize s) (bp_layout p)"
    by (rule bt_listE [OF assms(1)]) (use assms(2) in auto)
  from bp_getInt_ok [OF R(1,3), of f v] R(2) assms(3) bt_list_alike [OF _ bt_readyD(1) assms(1)] show ?thesis
    by auto
qed

lemma bt_list_remove:
  assumes "bt_list s M p fl rs" "i < length rs" "length rs \<le> k"
  shows "\<exists>s'. bp_remove k (int i) p s = (Inr (), s') \<and> bt_list s' M p fl (take i rs @ drop (Suc i) rs) \<and> bt_only s s' (bp_blk p)"
proof -
  obtain R where R: "bt_ready s M p fl (int (length rs)) R" "\<And>i. i < length rs \<Longrightarrow> R i = rs ! i"
      "length rs \<le> bt_slots (blocksize s) (bp_layout p)"
    using bt_listE [OF assms(1)] by metis
  obtain s' where s': "bp_remove k (int i) p s = (Inr (), s')" "bt_only s s' (bp_blk p)"
      "bt_ready s' M p fl (int (length rs - 1)) (\<lambda>j. if i \<le> j \<and> Suc j < length rs then R (Suc j) else R j)"
    using bp_remove_ok [OF R(1) assms(2,3) R(3)] by blast
  have len: "length (take i rs @ drop (Suc i) rs) = length rs - 1"
    using assms(2) by simp
  have "(if i \<le> j \<and> Suc j < length rs then R (Suc j) else R j) = (take i rs @ drop (Suc i) rs) ! j" if "j < length rs - 1" for j
    using that R(2) assms(2) by (auto simp: nth_append)
  with s'(3) bt_only_same [OF s'(2)] R(3) have "bt_list s' M p fl (take i rs @ drop (Suc i) rs)"
    unfolding bt_list_def len by auto
  with s'(1,2) show ?thesis by blast
qed

section \<open>Records of leaves\<close>

definition leaf_row :: "val \<Rightarrow> rid \<Rightarrow> row" where
  "leaf_row k r = [''dataval'' \<mapsto> k, ''block'' \<mapsto> VInt (rid_block r), ''id'' \<mapsto> VInt (rid_slot r)]"

definition key_of :: "row \<Rightarrow> val" where
  "key_of r = the (r ''dataval'')"

definition leaf_lay :: "layout \<Rightarrow> bool" where
  "leaf_lay l \<longleftrightarrow> lay_fields l = {''dataval'', ''block'', ''id''}"

definition leaf_entry :: "layout \<Rightarrow> val \<Rightarrow> rid \<Rightarrow> bool" where
  "leaf_entry l k r \<longleftrightarrow> field_val l ''dataval'' k \<and> field_val l ''block'' (VInt (rid_block r)) \<and> field_val l ''id'' (VInt (rid_slot r))"

lemma key_of_leaf_row [simp]: "key_of (leaf_row k r) = k"
  by (simp add: key_of_def leaf_row_def)

lemma leaf_row_eq:
  assumes "dom r = {''dataval'', ''block'', ''id''}"
  shows "r(''dataval'' \<mapsto> k, ''block'' \<mapsto> VInt (rid_block d), ''id'' \<mapsto> VInt (rid_slot d)) = leaf_row k d"
proof
  fix f
  show "(r(''dataval'' \<mapsto> k, ''block'' \<mapsto> VInt (rid_block d), ''id'' \<mapsto> VInt (rid_slot d))) f = leaf_row k d f"
    using assms by (cases "f \<in> dom r") (auto simp: leaf_row_def)
qed

text \<open>Keys of one field compare.\<close>

lemma key_row:
  assumes "row_typed l r" "field_val l ''dataval'' k"
  shows "r ''dataval'' = Some (key_of r)" "val_kind (key_of r) = val_kind k \<or> fi_type (the (map_of (sch_info (lay_schema l)) ''dataval'')) = BOOLEAN"
proof -
  have "''dataval'' \<in> dom r"
    using assms field_val_field [OF assms(2)] by (simp add: row_typed_def)
  then show "r ''dataval'' = Some (key_of r)"
    by (auto simp: key_of_def)
  then have "field_val l ''dataval'' (key_of r)"
    using assms(1) by (simp add: row_typed_def)
  with assms(2) show "val_kind (key_of r) = val_kind k \<or> fi_type (the (map_of (sch_info (lay_schema l)) ''dataval'')) = BOOLEAN"
    by (auto simp: field_val_def split: option.splits val.splits)
qed

lemma bt_list_key:
  assumes "bt_list s M p fl rs" "r \<in> set rs" "field_val (bp_layout p) ''dataval'' k"
  shows "r ''dataval'' = Some (key_of r)" "val_kind (key_of r) = val_kind k"
proof -
  note row = bt_list_row [OF assms(1,2)]
  note k = key_row [OF row assms(3)]
  show "r ''dataval'' = Some (key_of r)"
    by (rule k(1))
  have "bt_lay (bp_layout p)"
    using assms(1) by (auto simp: bt_list_def bt_ready_def)
  moreover obtain fi where "map_of (sch_info (lay_schema (bp_layout p))) ''dataval'' = Some fi"
    using assms(3) by (auto simp: field_val_def split: option.splits)
  ultimately show "val_kind (key_of r) = val_kind k"
    using k(2) by (auto simp: bt_lay_def)
qed

lemma bt_list_getDataVal:
  assumes "bt_list s M p fl rs" "i < length rs" "field_val (bp_layout p) ''dataval'' k"
  shows "\<exists>s'. bp_getDataVal (int i) p s = (Inr (const_of (key_of (rs ! i))), s') \<and> bt_list s' M p fl rs \<and> alike s s'"
  using bt_list_get [OF assms(1,2)] bt_list_key(1) [OF assms(1) nth_mem [OF assms(2)] assms(3)] by (simp add: bp_getDataVal_def)

section \<open>Finding the place of a key\<close>

lemma bp_find_loop_ok:
  assumes "bt_list s M p fl rs" "field_val (bp_layout p) ''dataval'' k" "length rs - i < fuel" "i \<le> length rs"
  shows "\<exists>s'. bp_find_loop fuel (int i) (const_of k) p s =
      (Inr (int (i + length (takeWhile (\<lambda>r. key_of r < k) (drop i rs))) - 1), s') \<and> bt_list s' M p fl rs \<and> alike s s'"
  using assms
proof (induction fuel arbitrary: s i)
  case (Suc fuel)
  obtain s1 where s1: "bp_getNumRecs p s = (Inr (int (length rs)), s1)" "bt_list s1 M p fl rs" "alike s s1"
    using bt_list_front(2) [OF Suc.prems(1)] by blast
  show ?case
  proof (cases "i < length rs")
    case False
    with s1 show ?thesis
      by (intro exI [of _ s1]) (simp add: cmd_simps)
  next
    case True
    obtain s2 where s2: "bp_getDataVal (int i) p s1 = (Inr (const_of (key_of (rs ! i))), s2)" "bt_list s2 M p fl rs" "alike s1 s2"
      using bt_list_getDataVal [OF s1(2) True Suc.prems(2)] by blast
    note c = const_cmp(2) [OF bt_list_key(2) [OF s1(2) nth_mem [OF True] Suc.prems(2)]]
    have d: "drop i rs = rs ! i # drop (Suc i) rs"
      by (rule Cons_nth_drop_Suc [symmetric, OF True])
    show ?thesis
    proof (cases "key_of (rs ! i) < k")
      case False
      with True s1(1) s2 c alike_trans [OF s1(3) s2(3)] show ?thesis
        by (intro exI [of _ s2]) (simp add: cmd_simps d)
    next
      case lt: True
      have i: "int i + 1 = int (Suc i)" by simp
      have "length rs - Suc i < fuel" "Suc i \<le> length rs"
        using True Suc.prems(3) by simp_all
      from Suc.IH [OF s2(2) Suc.prems(2) this, folded i] obtain s3 where
        s3: "bp_find_loop fuel (int i + 1) (const_of k) p s2 =
            (Inr (int (Suc i + length (takeWhile (\<lambda>r. key_of r < k) (drop (Suc i) rs))) - 1), s3)"
          "bt_list s3 M p fl rs" "alike s2 s3"
        by blast
      with True lt s1(1) s2(1) c alike_trans [OF alike_trans [OF s1(3) s2(3)] s3(3)] show ?thesis
        by (intro exI [of _ s3]) (simp add: cmd_simps d)
    qed
  qed
qed simp

lemma bp_findSlotBefore_ok:
  assumes "bt_list s M p fl rs" "field_val (bp_layout p) ''dataval'' k" "length rs < fuel"
  shows "\<exists>s'. bp_findSlotBefore fuel (const_of k) p s = (Inr (int (length (takeWhile (\<lambda>r. key_of r < k) rs)) - 1), s') \<and>
    bt_list s' M p fl rs \<and> alike s s'"
  using bp_find_loop_ok [OF assms(1,2), of 0 fuel] assms(3) by (simp add: bp_findSlotBefore_def)

section \<open>Inserting a record\<close>

lemma bt_slots_same: "alike s s' \<Longrightarrow> bt_slots (blocksize s') l = bt_slots (blocksize s) l"
  "bt_only s s' b \<Longrightarrow> bt_slots (blocksize s') l = bt_slots (blocksize s) l"
  by (simp_all add: alike_def bt_only_same)

lemma bp_insertLeaf_ok:
  assumes "bt_list s M p fl rs" "leaf_lay (bp_layout p)" "leaf_entry (bp_layout p) k r" "i \<le> length rs"
    and "length rs < bt_slots (blocksize s) (bp_layout p)"
  shows "\<exists>s'. bp_insertLeaf (int i) (const_of k) r p s = (Inr (), s') \<and> bt_list s' M p fl (take i rs @ leaf_row k r # drop i rs) \<and>
    bt_only s s' (bp_blk p)"
proof -
  obtain R where R: "bt_ready s M p fl (int (length rs)) R" "\<And>i. i < length rs \<Longrightarrow> R i = rs ! i"
    using bt_listE [OF assms(1)] by metis
  let ?R = "\<lambda>j. if i < j \<and> j \<le> length rs then R (j - 1) else R j"
  let ?n = "int (Suc (length rs))" and ?l = "bp_layout p"
  note e = assms(3) [unfolded leaf_entry_def]
  obtain s1 where s1: "bp_insert (int i) p s = (Inr (), s1)" "bt_ready s1 M p fl ?n ?R" "bt_only s s1 (bp_blk p)"
    using bp_insert_ok [OF R(1) assms(4,5)] by blast
  note sl1 = bt_slots_same(2) [OF s1(3), of ?l]
  have i: "i < bt_slots (blocksize s1) ?l"
    using assms(4,5) sl1 by simp
  obtain s2 where s2: "bp_setValue (int i) ''dataval'' (const_of k) p s1 = (Inr (), s2)"
      "bt_ready s2 M p fl ?n (?R(i := (?R i)(''dataval'' \<mapsto> k)))" "bt_only s1 s2 (bp_blk p)"
    using bp_setValue_ok [OF s1(2) i, of "''dataval''" k] e by blast
  have i2: "i < bt_slots (blocksize s2) ?l"
    using i bt_slots_same(2) [OF s2(3)] by simp
  obtain s3 where s3: "bp_setInt (int i) ''block'' (rid_block r) p s2 = (Inr (), s3)"
      "bt_ready s3 M p fl ?n (?R(i := (?R i)(''dataval'' \<mapsto> k, ''block'' \<mapsto> VInt (rid_block r))))" "bt_only s2 s3 (bp_blk p)"
    using bp_setInt_ok [OF s2(2) i2, of "''block''" "rid_block r"] e unfolding fun_upd_same fun_upd_upd by blast
  have i3: "i < bt_slots (blocksize s3) ?l"
    using i2 bt_slots_same(2) [OF s3(3)] by simp
  obtain s4 where s4: "bp_setInt (int i) ''id'' (rid_slot r) p s3 = (Inr (), s4)"
      "bt_ready s4 M p fl ?n (?R(i := (?R i)(''dataval'' \<mapsto> k, ''block'' \<mapsto> VInt (rid_block r), ''id'' \<mapsto> VInt (rid_slot r))))"
      "bt_only s3 s4 (bp_blk p)"
    using bp_setInt_ok [OF s3(2) i3, of "''id''" "rid_slot r"] e unfolding fun_upd_same fun_upd_upd by blast
  have "dom (?R i) = {''dataval'', ''block'', ''id''}"
    using bt_view_typed [OF bt_readyD(6) [OF s1(2)] i] assms(2) by (simp add: row_typed_def leaf_lay_def)
  note row = leaf_row_eq [OF this, of k r]
  have only: "bt_only s s4 (bp_blk p)"
    by (rule bt_only_trans [OF bt_only_trans [OF bt_only_trans [OF s1(3) s2(3)] s3(3)] s4(3)])
  have len: "length (take i rs @ leaf_row k r # drop i rs) = Suc (length rs)"
    using assms(4) by simp
  have "(?R(i := leaf_row k r)) j = (take i rs @ leaf_row k r # drop i rs) ! j" if "j < Suc (length rs)" for j
    using that R(2) assms(4) by (auto simp: nth_append nth_Cons' Suc_diff_Suc)
  then have "bt_list s4 M p fl (take i rs @ leaf_row k r # drop i rs)"
    unfolding bt_list_def len using s4(2) [unfolded row] assms(5) bt_slots_same(2) [OF only] by auto
  with only s1(1) s2(1) s3(1) s4(1) show ?thesis
    by (simp add: bp_insertLeaf_def cmd_simps)
qed

end
