(* ===== verification/BTreeLeaves.thy ===== *)
theory BTreeLeaves
  imports BTreePages
begin

text \<open>
  Leaves of a B-tree: what inserting an entry, removing one and splitting a full leaf do to the sorted
  list of its records.
\<close>

section \<open>Stored pages\<close>

definition bt_stored :: "'a tx_scheme \<Rightarrow> block_id \<Rightarrow> layout \<Rightarrow> int \<Rightarrow> row list \<Rightarrow> bool" where
  "bt_stored s blk l fl rs \<longleftrightarrow> data_blk s blk \<and> number blk < fm_length (fileName blk) s \<and> bt_lay l \<and>
     loggable (blocksize s) l (fileName blk) \<and> length rs \<le> bt_slots (blocksize s) l \<and>
     (\<exists>R. bt_view (blocksize s) l fl (int (length rs)) R (view s blk) \<and> (\<forall>i < length rs. R i = rs ! i))"

lemma bt_stored_alike:
  assumes "alike s s'" "bt_stored s blk l fl rs"
  shows "bt_stored s' blk l fl rs"
  using assms alike_data_blk [OF assms(1)] by (auto simp: bt_stored_def alike_def data_blk_def)

lemma bt_stored_list:
  assumes "bt_stored s blk l fl rs" "ready s M" "blk \<in># M"
  shows "bt_list s M \<lparr>bp_blk = blk, bp_layout = l\<rparr> fl rs"
  using assms by (auto simp: bt_stored_def bt_list_def bt_ready_def)

lemma bt_list_stored:
  assumes "bt_list s M p fl rs"
  shows "bt_stored s (bp_blk p) (bp_layout p) fl rs"
proof -
  obtain R where R: "bt_ready s M p fl (int (length rs)) R" "\<And>i. i < length rs \<Longrightarrow> R i = rs ! i"
      "length rs \<le> bt_slots (blocksize s) (bp_layout p)"
    using bt_listE [OF assms(1)] by metis
  note d = bt_readyD [OF R(1)]
  obtain i where "i < length (pool s)" "buf_blk (pool s ! i) = bp_blk p"
    by (rule ready_bufferD [OF d(1,2)])
  then have "number (bp_blk p) < fm_length (fileName (bp_blk p)) s"
    using readyD(3) [OF d(1)] d(3) by (auto simp: pool_in_def)
  with R d show ?thesis
    by (auto simp: bt_stored_def)
qed

text \<open>Opening and closing a page.\<close>

lemma bp_new_ok:
  assumes "ready s M" "size M < length (pool s)" "bt_stored s blk l fl rs"
  shows "\<exists>s'. bp_new blk l s = (Inr \<lparr>bp_blk = blk, bp_layout = l\<rparr>, s') \<and>
    bt_list s' (add_mset blk M) \<lparr>bp_blk = blk, bp_layout = l\<rparr> fl rs \<and> alike s s'"
proof -
  have "data_blk s blk" "number blk < fm_length (fileName blk) s"
    using assms(3) by (simp_all add: bt_stored_def)
  from ready_pin [OF assms(1,2) this] obtain s' where
    s': "tx_pin blk s = (Inr (), s')" "ready s' (add_mset blk M)" "alike s s'" by blast
  from bt_stored_list [OF bt_stored_alike [OF s'(3) assms(3)] s'(2)] s'(1,3) show ?thesis
    by (simp add: bp_new_def cmd_simps)
qed

lemma data_blk_not_null: "data_blk s b \<Longrightarrow> \<not> blk_isNull b"
  by (auto simp: data_blk_def blk_isNull_def)

lemma bp_close_ok:
  assumes "bt_list s (add_mset (bp_blk p) M) p fl rs"
  shows "\<exists>s'. bp_close p s = (Inr (p\<lparr>bp_blk := null_blk\<rparr>), s') \<and> ready s' M \<and> alike s s'"
proof -
  have "data_blk s (bp_blk p)"
    using bt_list_stored [OF assms] by (simp add: bt_stored_def)
  with ready_unpin [OF bt_list_ready [OF assms], of "bp_blk p"] show ?thesis
    by (auto simp: bp_close_def data_blk_not_null cmd_simps)
qed

text \<open>A full page.\<close>

lemma bp_isFull_ok:
  assumes "bt_list s M p fl rs"
  shows "\<exists>s'. bp_isFull p s = (Inr (blocksize s \<le> 8 + (int (length rs) + 1) * lay_slotSize (bp_layout p)), s') \<and>
    bt_list s' M p fl rs \<and> alike s s'"
proof -
  obtain s' where "bp_getNumRecs p s = (Inr (int (length rs)), s')" "bt_list s' M p fl rs" "alike s s'"
    using bt_list_front(2) [OF assms] by blast
  then show ?thesis
    by (simp add: bp_isFull_def bp_slotPos_def tx_blockSize_def cmd_simps alike_def)
qed

text \<open>Room for \<open>n\<close> records.\<close>

lemma bt_slots_le:
  assumes "lay_ok l" "8 \<le> bs"
  shows "n \<le> bt_slots bs l \<longleftrightarrow> 8 + int n * lay_slotSize l \<le> bs"
proof (cases n)
  case (Suc i)
  have "0 < lay_slotSize l" "0 \<le> bs - 8"
    using lay_size [OF assms(1)] assms(2) by simp_all
  from num_slots_less [OF this, of i] Suc show ?thesis
    by (auto simp: bt_slots_def add.commute)
qed (use assms in simp)

section \<open>Insertion without a split\<close>

text \<open>The cursor of a leaf on the page \<open>p\<close>, before the first record with a key of at least \<open>k\<close>.\<close>

definition leaf_on :: "block_id \<Rightarrow> layout \<Rightarrow> val \<Rightarrow> int \<Rightarrow> bleaf" where
  "leaf_on blk l k i = \<lparr>lf_layout = l, lf_key = const_of k, lf_contents = \<lparr>bp_blk = blk, bp_layout = l\<rparr>, lf_slot = i, lf_fileName = fileName blk\<rparr>"

definition below :: "val \<Rightarrow> row list \<Rightarrow> row list" where
  "below k rs = takeWhile (\<lambda>r. key_of r < k) rs"

definition from_key :: "val \<Rightarrow> row list \<Rightarrow> row list" where
  "from_key k rs = dropWhile (\<lambda>r. key_of r < k) rs"

lemma below_from: "below k rs @ from_key k rs = rs" "take (length (below k rs)) rs = below k rs"
  "drop (length (below k rs)) rs = from_key k rs" "length (below k rs) \<le> length rs"
  unfolding below_def from_key_def by (simp_all add: takeWhile_eq_take [symmetric] dropWhile_eq_drop [symmetric] length_takeWhile_le)

definition with_key :: "row \<Rightarrow> row list \<Rightarrow> row list" where
  "with_key r rs = below (key_of r) rs @ r # from_key (key_of r) rs"

text \<open>A leaf stays sorted.\<close>

definition key_sorted :: "row list \<Rightarrow> bool" where
  "key_sorted rs \<longleftrightarrow> sorted (map key_of rs)"

lemma below_less: "r \<in> set (below k rs) \<Longrightarrow> key_of r < k"
  by (auto simp: below_def dest: set_takeWhileD)

lemma from_key_ge:
  assumes "key_sorted rs" "r \<in> set (from_key k rs)"
  shows "k \<le> key_of r"
proof -
  have s: "key_sorted (from_key k rs)"
    using assms(1) below_from(1) [of k rs] unfolding key_sorted_def by (metis map_append sorted_append)
  obtain x xs where x: "from_key k rs = x # xs"
    using assms(2) by (cases "from_key k rs") auto
  then have "\<not> key_of x < k"
    unfolding from_key_def by (metis hd_dropWhile list.discI list.sel(1))
  moreover have "key_of x \<le> key_of r"
    using s assms(2) x by (auto simp: key_sorted_def)
  ultimately show ?thesis by simp
qed

lemma with_key_sorted:
  assumes "key_sorted rs"
  shows "key_sorted (with_key r rs)"
proof -
  have "sorted (map key_of (below (key_of r) rs) @ map key_of (from_key (key_of r) rs))"
    using assms below_from(1) [of "key_of r" rs] unfolding key_sorted_def by (metis map_append)
  moreover have "\<forall>x \<in> set (below (key_of r) rs). key_of x \<le> key_of r" "\<forall>x \<in> set (from_key (key_of r) rs). key_of r \<le> key_of x"
    using below_less from_key_ge [OF assms] by fastforce+
  ultimately show ?thesis
    by (auto simp: key_sorted_def with_key_def sorted_append)
qed

lemma lf_new_ok:
  assumes "ready s M" "size M < length (pool s)" "bt_stored s blk l fl rs" "field_val l ''dataval'' k" "length rs < fuel"
  shows "\<exists>s'. lf_new fuel blk l (const_of k) s = (Inr (leaf_on blk l k (int (length (below k rs)) - 1)), s') \<and>
    bt_list s' (add_mset blk M) \<lparr>bp_blk = blk, bp_layout = l\<rparr> fl rs \<and> alike s s'"
proof -
  let ?p = "\<lparr>bp_blk = blk, bp_layout = l\<rparr>"
  obtain s1 where s1: "bp_new blk l s = (Inr ?p, s1)" "bt_list s1 (add_mset blk M) ?p fl rs" "alike s s1"
    using bp_new_ok [OF assms(1-3)] by blast
  have "field_val (bp_layout ?p) ''dataval'' k"
    using assms(4) by simp
  from bp_findSlotBefore_ok [OF s1(2) this assms(5)] obtain s2 where
    s2: "bp_findSlotBefore fuel (const_of k) ?p s1 = (Inr (int (length (below k rs)) - 1), s2)"
      "bt_list s2 (add_mset blk M) ?p fl rs" "alike s1 s2"
    by (auto simp: below_def)
  with s1(1) alike_trans [OF s1(3) s2(3)] show ?thesis
    by (simp add: lf_new_def leaf_on_def cmd_simps)
qed

text \<open>\<open>insert\<close> up to the test whether the page is full.\<close>

definition no_overflow :: "int \<Rightarrow> val \<Rightarrow> row list \<Rightarrow> bool" where
  "no_overflow fl k rs \<longleftrightarrow> fl < 0 \<or> (rs \<noteq> [] \<and> key_of (hd rs) \<le> k)"

lemma lf_insert_record:
  assumes "bt_list s M p fl rs" "p = \<lparr>bp_blk = blk, bp_layout = l\<rparr>" "leaf_lay l" "leaf_entry l k r" "no_overflow fl k rs"
    and "length rs < bt_slots (blocksize s) l"
  shows "\<exists>s'. bt_list s' M p fl (with_key (leaf_row k r) rs) \<and> bt_only s s' blk \<and>
    lf_insert fuel r (leaf_on blk l k (int (length (below k rs)) - 1)) s =
      bnd (if blocksize s \<le> 8 + (int (length rs) + 2) * lay_slotSize l
           then lf_split fuel (leaf_on blk l k (int (length (below k rs)))) else ret de_null)
        (\<lambda>d. ret (d, leaf_on blk l k (int (length (below k rs))))) s'"
proof -
  have dv: "field_val (bp_layout p) ''dataval'' k" and lay: "bp_layout p = l" "bp_blk p = blk"
    using assms(2,4) by (simp_all add: leaf_entry_def)
  obtain s1 where s1: "bp_getFlag p s = (Inr fl, s1)" "bt_list s1 M p fl rs" "alike s s1"
    using bt_list_front(1) [OF assms(1)] by blast
  obtain s2 where s2: "(if 0 \<le> fl then bnd (bp_getDataVal 0 p) (\<lambda>v. lift (const_gt v (const_of k))) else ret False) s1 = (Inr False, s2)"
      "bt_list s2 M p fl rs" "alike s1 s2"
  proof (cases "0 \<le> fl")
    case True
    then have rs: "0 < length rs" "key_of (rs ! 0) \<le> k"
      using assms(5) by (auto simp: no_overflow_def hd_conv_nth)
    obtain s2 where s2: "bp_getDataVal 0 p s1 = (Inr (const_of (key_of (rs ! 0))), s2)" "bt_list s2 M p fl rs" "alike s1 s2"
      using bt_list_getDataVal [OF s1(2) rs(1) dv] by auto
    with True rs(2) const_cmp(3) [OF bt_list_key(2) [OF s1(2) nth_mem [OF rs(1)] dv]] that [of s2] show thesis
      by (simp add: cmd_simps)
  next
    case False
    with that [of s1] s1(2) show thesis
      by (simp add: cmd_simps)
  qed
  have room: "length rs < bt_slots (blocksize s2) (bp_layout p)"
    using assms(6) bt_slots_same(1) [OF s1(3)] bt_slots_same(1) [OF s2(3)] lay by simp
  have "leaf_lay (bp_layout p)" "leaf_entry (bp_layout p) k r"
    using assms(3,4) lay by simp_all
  from bp_insertLeaf_ok [OF s2(2) this below_from(4) room] obtain s3 where
    s3: "bp_insertLeaf (int (length (below k rs))) (const_of k) r p s2 = (Inr (), s3)"
      "bt_list s3 M p fl (take (length (below k rs)) rs @ leaf_row k r # drop (length (below k rs)) rs)" "bt_only s2 s3 blk"
    using lay by blast
  have w: "bt_list s3 M p fl (with_key (leaf_row k r) rs)"
    using s3(2) by (simp add: with_key_def below_from)
  have len: "length (with_key (leaf_row k r) rs) = length rs + 1"
    using below_from(1) [of k rs, THEN arg_cong [where f = length]] by (simp add: with_key_def)
  obtain s4 where s4: "bp_isFull p s3 = (Inr (blocksize s \<le> 8 + (int (length rs) + 2) * lay_slotSize l), s4)"
      "bt_list s4 M p fl (with_key (leaf_row k r) rs)" "alike s3 s4"
  proof -
    have bs: "blocksize s3 = blocksize s"
      using bt_only_same [OF s3(3)] s1(3) s2(3) by (simp add: alike_def)
    have n: "int (length (with_key (leaf_row k r) rs)) + 1 = int (length rs) + 2"
      using len by simp
    from bp_isFull_ok [OF w, unfolded n bs lay] that show thesis by blast
  qed
  have "bt_only s s4 blk"
    by (rule bt_only_alike(2) [OF bt_only_alike(1) [OF alike_trans [OF s1(3) s2(3)] s3(3)] s4(3)])
  let ?lf = "leaf_on blk l k (int (length (below k rs)))"
  have lf: "lf_contents (leaf_on blk l k i) = p" "lf_key (leaf_on blk l k i) = const_of k" "lf_slot ?lf = int (length (below k rs))"
      "leaf_on blk l k (int (length (below k rs)) - 1)\<lparr>lf_slot := lf_slot (leaf_on blk l k (int (length (below k rs)) - 1)) + 1\<rparr> = ?lf" for i
    by (simp_all add: leaf_on_def assms(2))
  have "lf_insert fuel r (leaf_on blk l k (int (length (below k rs)) - 1)) s =
      seq (bp_insertLeaf (int (length (below k rs))) (const_of k) r p)
        (bnd (bp_isFull p) (\<lambda>full. if \<not> full then ret (de_null, ?lf) else bnd (lf_split fuel ?lf) (\<lambda>d. ret (d, ?lf)))) s2"
    unfolding lf_insert_def Let_def lf bnd_Inr [where m = "bp_getFlag p", OF s1(1)]
      bnd_Inr [where m = "if 0 \<le> fl then bnd (bp_getDataVal 0 p) (\<lambda>v. lift (const_gt v (const_of k))) else ret False", OF s2(1)] if_False ..
  also have "\<dots> = (if \<not> blocksize s \<le> 8 + (int (length rs) + 2) * lay_slotSize l then ret (de_null, ?lf)
      else bnd (lf_split fuel ?lf) (\<lambda>d. ret (d, ?lf))) s4"
    unfolding seq_Inr [where m = "bp_insertLeaf (int (length (below k rs))) (const_of k) r p", OF s3(1)]
      bnd_Inr [where m = "bp_isFull p", OF s4(1)] ..
  also have "\<dots> = bnd (if blocksize s \<le> 8 + (int (length rs) + 2) * lay_slotSize l then lf_split fuel ?lf else ret de_null)
      (\<lambda>d. ret (d, ?lf)) s4"
    by (simp add: cmd_simps)
  finally show ?thesis
    using s4(2) \<open>bt_only s s4 blk\<close> by blast
qed
text \<open>Opening the leaf, inserting and closing it, as the index does.\<close>

lemma lf_close_ok:
  assumes "bt_list s (add_mset blk M) \<lparr>bp_blk = blk, bp_layout = l\<rparr> fl rs"
  shows "\<exists>lf s'. lf_close (leaf_on blk l k i) s = (Inr lf, s') \<and> ready s' M \<and> alike s s' \<and> bt_stored s' blk l fl rs"
proof -
  have "bt_list s (add_mset (bp_blk \<lparr>bp_blk = blk, bp_layout = l\<rparr>) M) \<lparr>bp_blk = blk, bp_layout = l\<rparr> fl rs"
    using assms by simp
  from bp_close_ok [OF this] obtain s' where
    s': "bp_close \<lparr>bp_blk = blk, bp_layout = l\<rparr> s = (Inr (\<lparr>bp_blk = blk, bp_layout = l\<rparr>\<lparr>bp_blk := null_blk\<rparr>), s')" "ready s' M" "alike s s'"
    by blast
  have "bt_stored s blk l fl rs"
    using bt_list_stored [OF assms] by simp
  with s' bt_stored_alike [OF s'(3)] show ?thesis
    by (simp add: lf_close_def leaf_on_def cmd_simps)
qed

lemma slots_for_insert:
  assumes "bt_lay l" "8 \<le> bs" "8 + (int n + 1) * lay_slotSize l \<le> bs"
  shows "n < bt_slots bs l"
  using bt_slots_le [of l bs "Suc n"] assms by (simp add: bt_lay_def add.commute Suc_le_eq)

lemma bt_storedD:
  assumes "bt_stored s blk l fl rs"
  shows "bt_lay l" "8 \<le> blocksize s" "data_blk s blk" "length rs \<le> bt_slots (blocksize s) l"
  using assms by (auto simp: bt_stored_def bt_view_def)

lemma leaf_insert_keeps:
  assumes "ready s M" "size M < length (pool s)" "bt_stored s blk l fl rs" "leaf_lay l" "leaf_entry l k r" "no_overflow fl k rs"
    and "8 + (int (length rs) + 2) * lay_slotSize l < blocksize s" "length rs < fuel"
  shows "\<exists>s'. bnd (lf_new fuel blk l (const_of k)) (\<lambda>lf. bnd (lf_insert fuel r lf) (\<lambda>(e, lf). bnd (lf_close lf) (\<lambda>_. ret e))) s =
      (Inr de_null, s') \<and> ready s' M \<and> bt_stored s' blk l fl (with_key (leaf_row k r) rs) \<and> bt_only s s' blk"
proof -
  let ?p = "\<lparr>bp_blk = blk, bp_layout = l\<rparr>" and ?i = "int (length (below k rs))"
  have dv: "field_val l ''dataval'' k"
    using assms(5) by (simp add: leaf_entry_def)
  obtain s1 where s1: "lf_new fuel blk l (const_of k) s = (Inr (leaf_on blk l k (?i - 1)), s1)"
      "bt_list s1 (add_mset blk M) ?p fl rs" "alike s s1"
    using lf_new_ok [OF assms(1-3) dv assms(8)] by blast
  note d = bt_storedD [OF assms(3)]
  have bs: "blocksize s1 = blocksize s"
    using s1(3) by (simp add: alike_def)
  have "0 \<le> lay_slotSize l"
    using lay_size [of l] d(1) by (simp add: bt_lay_def)
  then have "8 + (int (length rs) + 1) * lay_slotSize l \<le> blocksize s"
    using assms(7) by (simp add: algebra_simps)
  from slots_for_insert [OF d(1,2) this] have room: "length rs < bt_slots (blocksize s1) l"
    by (simp add: bs)
  obtain s2 where s2: "bt_list s2 (add_mset blk M) ?p fl (with_key (leaf_row k r) rs)" "bt_only s1 s2 blk"
      "lf_insert fuel r (leaf_on blk l k (?i - 1)) s1 = (Inr (de_null, leaf_on blk l k ?i), s2)"
    using lf_insert_record [OF s1(2) refl assms(4-6) room, of fuel] assms(7) bs by (auto simp: cmd_simps)
  obtain lf s3 where s3: "lf_close (leaf_on blk l k ?i) s2 = (Inr lf, s3)" "ready s3 M" "alike s2 s3"
      "bt_stored s3 blk l fl (with_key (leaf_row k r) rs)"
    using lf_close_ok [OF s2(1)] by blast
  have "bt_only s s3 blk"
    by (rule bt_only_alike(2) [OF bt_only_alike(1) [OF s1(3) s2(2)] s3(3)])
  with s1(1) s2(3) s3(1,2,4) show ?thesis
    by (simp add: cmd_simps)
qed

section \<open>Searching and removing\<close>

text \<open>Every record of a leaf is an entry.\<close>

lemma leaf_row_of:
  assumes "row_typed l x" "leaf_lay l" "leaf_entry l k r"
  obtains d where "x = leaf_row (key_of x) d"
proof -
  have dom: "dom x = {''dataval'', ''block'', ''id''}"
    using assms(1,2) by (simp add: row_typed_def leaf_lay_def)
  then obtain v b i where v: "x ''dataval'' = Some v" "x ''block'' = Some b" "x ''id'' = Some i"
    by (metis domD insertI1 insertI2)
  then have "field_val l ''block'' b" "field_val l ''id'' i"
    using assms(1) by (simp_all add: row_typed_def)
  with assms(3) obtain b' i' where bi: "b = VInt b'" "i = VInt i'"
    by (cases b; cases i) (auto simp: leaf_entry_def field_val_def INTEGER_def BOOLEAN_def VARCHAR_def split: option.splits)
  have "x f = leaf_row (key_of x) \<lparr>rid_block = b', rid_slot = i'\<rparr> f" for f
    using dom v bi by (cases "f \<in> dom x") (auto simp: leaf_row_def key_of_def)
  with that [of "\<lparr>rid_block = b', rid_slot = i'\<rparr>"] show thesis
    by blast
qed

lemma leaf_row_inject: "leaf_row k d = leaf_row k' d' \<longleftrightarrow> k = k' \<and> d = d'"
proof
  assume "leaf_row k d = leaf_row k' d'"
  then have "leaf_row k d f = leaf_row k' d' f" for f by simp
  from this [of "''dataval''"] this [of "''block''"] this [of "''id''"] show "k = k' \<and> d = d'"
    by (simp add: leaf_row_def)
qed simp

text \<open>Without overflow blocks the search ends at the first record with another key.\<close>

lemma bt_list_first:
  assumes "bt_list s M p fl rs" "field_val (bp_layout p) ''dataval'' k" "0 < bt_slots (blocksize s) (bp_layout p)"
  shows "\<exists>v s'. bp_getDataVal 0 p s = (Inr (const_of v), s') \<and> bt_list s' M p fl rs \<and> alike s s' \<and> val_kind v = val_kind k"
proof -
  obtain R where R: "bt_ready s M p fl (int (length rs)) R"
    using bt_listE [OF assms(1)] by metis
  note d = bt_readyD [OF R]
  note row = bt_view_typed [OF d(6) assms(3)]
  note kr = key_row [OF row assms(2)]
  obtain fi where "map_of (sch_info (lay_schema (bp_layout p))) ''dataval'' = Some fi"
    using assms(2) by (auto simp: field_val_def split: option.splits)
  then have "val_kind (key_of (R 0)) = val_kind k"
    using kr(2) d(4) by (auto simp: bt_lay_def)
  with bp_getValue_ok [OF R assms(3) kr(1)] bt_list_alike [OF _ bt_readyD(1) assms(1)] show ?thesis
    by (auto simp: bp_getDataVal_def)
qed

lemma lf_tryOverflow_ends:
  assumes "bt_list s M \<lparr>bp_blk = blk, bp_layout = l\<rparr> fl rs" "field_val l ''dataval'' k" "0 < bt_slots (blocksize s) l" "fl < 0"
  shows "\<exists>s'. lf_tryOverflow (leaf_on blk l k i) s = (Inr (False, leaf_on blk l k i), s') \<and>
    bt_list s' M \<lparr>bp_blk = blk, bp_layout = l\<rparr> fl rs \<and> alike s s'"
proof -
  let ?p = "\<lparr>bp_blk = blk, bp_layout = l\<rparr>"
  have p: "field_val (bp_layout ?p) ''dataval'' k" "0 < bt_slots (blocksize s) (bp_layout ?p)"
    using assms(2,3) by simp_all
  obtain v s1 where s1: "bp_getDataVal 0 ?p s = (Inr (const_of v), s1)" "bt_list s1 M ?p fl rs" "alike s s1" "val_kind v = val_kind k"
    using bt_list_first [OF assms(1) p] by blast
  obtain s2 where s2: "bp_getFlag ?p s1 = (Inr fl, s2)" "bt_list s2 M ?p fl rs" "alike s1 s2"
    using bt_list_front(1) [OF s1(2)] by blast
  from s1(1) s2(1,2) const_cmp(1) [OF s1(4) [symmetric]] assms(4) alike_trans [OF s1(3) s2(3)] show ?thesis
    by (simp add: lf_tryOverflow_def leaf_on_def cmd_simps)
qed

lemma lf_next_ok:
  assumes "bt_list s M \<lparr>bp_blk = blk, bp_layout = l\<rparr> fl rs" "field_val l ''dataval'' k" "0 < bt_slots (blocksize s) l" "fl < 0"
  shows "\<exists>s'. lf_next (leaf_on blk l k (int j - 1)) s = (Inr (j < length rs \<and> key_of (rs ! j) = k, leaf_on blk l k (int j)), s') \<and>
    bt_list s' M \<lparr>bp_blk = blk, bp_layout = l\<rparr> fl rs \<and> alike s s'"
proof -
  let ?p = "\<lparr>bp_blk = blk, bp_layout = l\<rparr>" and ?lf = "leaf_on blk l k (int j)"
  have lf: "leaf_on blk l k (int j - 1)\<lparr>lf_slot := lf_slot (leaf_on blk l k (int j - 1)) + 1\<rparr> = ?lf" "lf_contents ?lf = ?p"
      "lf_slot ?lf = int j" "lf_key ?lf = const_of k"
    by (simp_all add: leaf_on_def)
  obtain s1 where s1: "bp_getNumRecs ?p s = (Inr (int (length rs)), s1)" "bt_list s1 M ?p fl rs" "alike s s1"
    using bt_list_front(2) [OF assms(1)] by blast
  have slots: "0 < bt_slots (blocksize s'') l" if "alike s s''" for s''
    using assms(3) bt_slots_same(1) [OF that] by simp
  show ?thesis
  proof (cases "j < length rs")
    case False
    obtain s2 where "lf_tryOverflow ?lf s1 = (Inr (False, ?lf), s2)" "bt_list s2 M ?p fl rs" "alike s1 s2"
      using lf_tryOverflow_ends [OF s1(2) assms(2) slots [OF s1(3)] assms(4)] by blast
    with False s1(1) alike_trans [OF s1(3)] show ?thesis
      unfolding lf_next_def Let_def lf by (auto simp: cmd_simps)
  next
    case True
    have dv: "field_val (bp_layout ?p) ''dataval'' k"
      using assms(2) by simp
    obtain s2 where s2: "bp_getDataVal (int j) ?p s1 = (Inr (const_of (key_of (rs ! j))), s2)" "bt_list s2 M ?p fl rs" "alike s1 s2"
      using bt_list_getDataVal [OF s1(2) True dv] by blast
    note c = const_cmp(1) [OF bt_list_key(2) [OF s1(2) nth_mem [OF True] dv]]
    note a2 = alike_trans [OF s1(3) s2(3)]
    show ?thesis
    proof (cases "key_of (rs ! j) = k")
      case eq: True
      with True s1(1) s2(1,2) c a2 show ?thesis
        unfolding lf_next_def Let_def lf by (auto simp: cmd_simps)
    next
      case False
      obtain s3 where "lf_tryOverflow ?lf s2 = (Inr (False, ?lf), s3)" "bt_list s3 M ?p fl rs" "alike s2 s3"
        using lf_tryOverflow_ends [OF s2(2) assms(2) slots [OF a2] assms(4)] by blast
      with True False s1(1) s2(1) c alike_trans [OF a2] show ?thesis
        unfolding lf_next_def Let_def lf by (auto simp: cmd_simps)
    qed
  qed
qed
text \<open>The removal loop, from the record \<open>j\<close> on.\<close>

lemma remove1_skip: "x \<notin> set xs \<Longrightarrow> remove1 x (xs @ ys) = xs @ remove1 x ys"
  by (simp add: remove1_append)

lemma take_next: "j < length rs \<Longrightarrow> take (Suc j) rs = take j rs @ [rs ! j]"
  by (rule take_Suc_conv_app_nth)

lemma lf_remove_loop_ok:
  assumes "bt_list s M \<lparr>bp_blk = blk, bp_layout = l\<rparr> fl rs" "leaf_lay l" "leaf_entry l k r" "0 < bt_slots (blocksize s) l" "fl < 0"
    and "key_sorted rs" "j \<le> length rs" "leaf_row k r \<notin> set (take j rs)" "\<forall>x \<in> set (drop j rs). k \<le> key_of x"
    and "length rs - j < fuel" "length rs \<le> m"
  shows "\<exists>i s'. lf_remove_loop fuel m r (leaf_on blk l k (int j - 1)) s = (Inr (leaf_on blk l k i), s') \<and>
    bt_list s' M \<lparr>bp_blk = blk, bp_layout = l\<rparr> fl (remove1 (leaf_row k r) rs) \<and> bt_only s s' blk"
  using assms(1,4,7-10)
proof (induction fuel arbitrary: s j)
  case (Suc fuel)
  let ?p = "\<lparr>bp_blk = blk, bp_layout = l\<rparr>"
  have dv: "field_val l ''dataval'' k"
    using assms(3) by (simp add: leaf_entry_def)
  obtain s1 where s1: "lf_next (leaf_on blk l k (int j - 1)) s = (Inr (j < length rs \<and> key_of (rs ! j) = k, leaf_on blk l k (int j)), s1)"
      "bt_list s1 M ?p fl rs" "alike s s1"
    using lf_next_ok [OF Suc.prems(1) dv Suc.prems(2) assms(5)] by blast
  show ?case
  proof (cases "j < length rs \<and> key_of (rs ! j) = k")
    case False
    have "leaf_row k r \<notin> set (drop j rs)"
    proof
      assume in_rest: "leaf_row k r \<in> set (drop j rs)"
      then have j: "j < length rs"
        by (cases "j < length rs") simp_all
      then have d: "drop j rs = rs ! j # drop (Suc j) rs"
        by (rule Cons_nth_drop_Suc [symmetric])
      have "key_sorted (drop j rs)"
        using assms(6) append_take_drop_id [of j rs] unfolding key_sorted_def by (metis map_append sorted_append)
      then have "key_of (rs ! j) \<le> key_of (leaf_row k r)"
        using in_rest unfolding d by (auto simp: key_sorted_def simp del: key_of_leaf_row)
      then have "key_of (rs ! j) \<le> k" by simp
      moreover have "k \<le> key_of (rs ! j)"
        using Suc.prems(5) unfolding d by simp
      ultimately show False
        using False j by simp
    qed
    then have "leaf_row k r \<notin> set rs"
      using Suc.prems(4) append_take_drop_id [of j rs] by (metis Un_iff set_append)
    then have "remove1 (leaf_row k r) rs = rs"
      by (rule remove1_idem)
    moreover have "(j < length rs \<and> key_of (rs ! j) = k) = False"
      using False by blast
    note s1(1) [unfolded this]
    ultimately show ?thesis
      using s1(2) alike_only [OF s1(3)] by (intro exI [of _ "int j"] exI [of _ s1]) (simp add: cmd_simps)
  next
    case True
    then have j: "j < length rs" "key_of (rs ! j) = k" by simp_all
    have "row_typed (bp_layout ?p) (rs ! j)"
      by (rule bt_list_row [OF s1(2) nth_mem [OF j(1)]])
    then have "row_typed l (rs ! j)" by simp
    from leaf_row_of [OF this assms(2,3)] j(2) obtain d where d: "rs ! j = leaf_row k d" by metis
    obtain s2 where s2: "bp_getInt (int j) ''block'' ?p s1 = (Inr (rid_block d), s2)" "bt_list s2 M ?p fl rs" "alike s1 s2"
      using bt_list_getInt [OF s1(2) j(1), of "''block''" "rid_block d"] d by (auto simp: leaf_row_def)
    obtain s3 where s3: "bp_getInt (int j) ''id'' ?p s2 = (Inr (rid_slot d), s3)" "bt_list s3 M ?p fl rs" "alike s2 s3"
      using bt_list_getInt [OF s2(2) j(1), of "''id''" "rid_slot d"] d by (auto simp: leaf_row_def)
    have get: "lf_getDataRid (leaf_on blk l k (int j)) s1 = (Inr d, s3)"
      using s2(1) s3(1) by (simp add: lf_getDataRid_def leaf_on_def bp_getDataRid_def cmd_simps)
    have eq: "rid_equals d r \<longleftrightarrow> d = r"
      by (cases d; cases r) (simp add: rid_equals_def)
    note a3 = alike_trans [OF alike_trans [OF s1(3) s2(3)] s3(3)]
    show ?thesis
    proof (cases "d = r")
      case True
      obtain s4 where s4: "bp_remove m (int j) ?p s3 = (Inr (), s4)" "bt_list s4 M ?p fl (take j rs @ drop (Suc j) rs)" "bt_only s3 s4 blk"
        using bt_list_remove [OF s3(2) j(1) assms(11)] by auto
      have "remove1 (leaf_row k r) rs = remove1 (leaf_row k r) (take j rs @ rs ! j # drop (Suc j) rs)"
        by (simp add: id_take_nth_drop [OF j(1), symmetric])
      also have "\<dots> = take j rs @ drop (Suc j) rs"
        using Suc.prems(4) d True by (simp add: remove1_skip)
      finally have "bt_list s4 M ?p fl (remove1 (leaf_row k r) rs)"
        using s4(2) by simp
      with s1(1) get eq True j s4(1) bt_only_alike(1) [OF a3 s4(3)] show ?thesis
        by (intro exI [of _ "int j"] exI [of _ s4]) (simp add: leaf_on_def cmd_simps)
    next
      case False
      have "leaf_row k r \<notin> set (take (Suc j) rs)"
        using Suc.prems(4) d False j(1) by (simp add: take_next leaf_row_inject)
      moreover have "\<forall>x \<in> set (drop (Suc j) rs). k \<le> key_of x"
        using Suc.prems(5) set_drop_subset_set_drop [of j "Suc j" rs] by auto
      moreover have "0 < bt_slots (blocksize s3) l"
        using Suc.prems(2) bt_slots_same(1) [OF a3] by simp
      moreover have "length rs - Suc j < fuel" "Suc j \<le> length rs"
        using Suc.prems(6) j(1) by simp_all
      ultimately obtain i s4 where "lf_remove_loop fuel m r (leaf_on blk l k (int (Suc j) - 1)) s3 = (Inr (leaf_on blk l k i), s4)"
          "bt_list s4 M ?p fl (remove1 (leaf_row k r) rs)" "bt_only s3 s4 blk"
        using Suc.IH [OF s3(2)] by blast
      with s1(1) get eq False j bt_only_alike(1) [OF a3] show ?thesis
        by (intro exI [of _ i] exI [of _ s4]) (simp add: cmd_simps)
    qed
  qed
qed simp

lemma leaf_remove_ok:
  assumes "ready s M" "size M < length (pool s)" "bt_stored s blk l fl rs" "leaf_lay l" "leaf_entry l k r" "fl < 0"
    and "key_sorted rs" "0 < bt_slots (blocksize s) l" "length rs < fuel"
  shows "\<exists>s'. bnd (lf_new fuel blk l (const_of k)) (\<lambda>lf. bnd (lf_remove fuel r lf) (\<lambda>lf. bnd (lf_close lf) (\<lambda>_. ret ()))) s =
      (Inr (), s') \<and> ready s' M \<and> bt_stored s' blk l fl (remove1 (leaf_row k r) rs) \<and> bt_only s s' blk"
proof -
  let ?p = "\<lparr>bp_blk = blk, bp_layout = l\<rparr>" and ?j = "length (below k rs)"
  have dv: "field_val l ''dataval'' k"
    using assms(5) by (simp add: leaf_entry_def)
  obtain s1 where s1: "lf_new fuel blk l (const_of k) s = (Inr (leaf_on blk l k (int ?j - 1)), s1)"
      "bt_list s1 (add_mset blk M) ?p fl rs" "alike s s1"
    using lf_new_ok [OF assms(1-3) dv assms(9)] by blast
  have slots: "0 < bt_slots (blocksize s1) l"
    using assms(8) bt_slots_same(1) [OF s1(3)] by simp
  have j: "leaf_row k r \<notin> set (take ?j rs)" "\<forall>x \<in> set (drop ?j rs). k \<le> key_of x" "length rs - ?j < fuel"
    using below_less [of "leaf_row k r" k rs] from_key_ge [OF assms(7)] assms(9) by (auto simp: below_from)
  obtain i s2 where s2: "lf_remove_loop fuel fuel r (leaf_on blk l k (int ?j - 1)) s1 = (Inr (leaf_on blk l k i), s2)"
      "bt_list s2 (add_mset blk M) ?p fl (remove1 (leaf_row k r) rs)" "bt_only s1 s2 blk"
    using lf_remove_loop_ok [OF s1(2) assms(4,5) slots assms(6,7) below_from(4) j] assms(9) by (meson less_imp_le)
  obtain lf s3 where s3: "lf_close (leaf_on blk l k i) s2 = (Inr lf, s3)" "ready s3 M" "alike s2 s3"
      "bt_stored s3 blk l fl (remove1 (leaf_row k r) rs)"
    using lf_close_ok [OF s2(2)] by blast
  have "bt_only s s3 blk"
    by (rule bt_only_alike(2) [OF bt_only_alike(1) [OF s1(3) s2(3)] s3(3)])
  with s1(1) s2(1) s3(1,2,4) show ?thesis
    by (simp add: lf_remove_def cmd_simps)
qed

end
