(* ===== verification/BTreeSplit.thy ===== *)
theory BTreeSplit
  imports BTreeLeaves
begin

text \<open>
  Splitting a full leaf: a new block at the end of the file takes the upper records; the index entry for
  it has a key between the two halves. The new block stays pinned.
\<close>

section \<open>A formatted block\<close>

lemma bpage_eta: "\<lparr>bp_blk = bp_blk p, bp_layout = bp_layout p\<rparr> = p"
  by (cases p) simp

text \<open>Everything but some blocks shows what it showed.\<close>

definition bt_others :: "'a tx_scheme \<Rightarrow> 'a tx_scheme \<Rightarrow> block_id set \<Rightarrow> bool" where
  "bt_others s s' B \<longleftrightarrow> blocksize s' = blocksize s \<and> data_blk s' = data_blk s \<and> length (pool s') = length (pool s) \<and>
     (\<forall>b. data_blk s b \<longrightarrow> b \<notin> B \<longrightarrow> view s' b = view s b)"

lemma bt_only_others: "bt_only s s' blk \<Longrightarrow> blk \<in> B \<Longrightarrow> bt_others s s' B"
  using written_data_blk [of s s' blk "view s' blk"] unfolding bt_only_def bt_others_def written_def by metis

lemma bt_alike_others: "alike s s' \<Longrightarrow> bt_others s s' B"
  using alike_data_blk [of s s'] by (simp add: bt_others_def alike_def)

lemma bt_others_trans [trans]: "bt_others s s' B \<Longrightarrow> bt_others s' s'' B \<Longrightarrow> bt_others s s'' B"
  by (simp add: bt_others_def)

lemma appended_others: "appended s s' fn \<Longrightarrow> BlockId fn (fm_length fn s) \<in> B \<Longrightarrow> bt_others s s' B"
  by (auto simp: appended_def bt_others_def data_blk_def fun_eq_iff)

text \<open>A block of zero bytes holds default records.\<close>

lemma bt_view_new:
  assumes "lay_ok l" "8 \<le> bs" "bs < 2 ^ 31"
  shows "bt_view bs l 0 0 (\<lambda>_. zero_row l) (page_new bs)"
proof -
  have d: "drop 8 (page_new bs) = page_new (bs - 8)"
    by (simp add: page_new_def nat_diff_distrib)
  have "0 \<le> bs - 8" "bs - 8 < 2 ^ 31"
    using assms(2,3) by simp_all
  note w = page_wf_new [OF assms(1) this]
  have "val_at (page_new bs) 0 (VInt 0)" "val_at (page_new bs) 4 (VInt 0)"
    using zero_val(1) [of 0 bs] zero_val(1) [of 4 bs] assms(2) by simp_all
  with w assms(2) show ?thesis
    by (simp add: bt_view_def d int32_def)
qed

text \<open>The defaults that \<open>format\<close> writes are there already.\<close>

lemma bp_default_fields_ok:
  assumes "bt_ready s M q fl n R" "i < bt_slots (blocksize s) (bp_layout q)" "R i = zero_row (bp_layout q)" "bp_layout p = bp_layout q"
    and "set fs \<subseteq> lay_fields (bp_layout q)"
  shows "\<exists>s'. bp_default_fields (bp_blk q) (8 + int i * lay_slotSize (bp_layout q)) fs p s = (Inr (), s') \<and> bt_ready s' M q fl n R \<and>
    bt_only s s' (bp_blk q)"
  using assms(1,2,5)
proof (induction fs arbitrary: s)
  case Nil
  then show ?case
    by (auto simp: ret_apply intro: alike_only)
next
  case (Cons f fs)
  note d = bt_readyD [OF Cons.prems(1)]
  have "f \<in> lay_fields (bp_layout q)"
    using Cons.prems(3) by simp
  then obtain fi v where fi: "map_of (sch_info (lay_schema (bp_layout q))) f = Some fi" "R i f = Some v"
      "v = (if fi_type fi = VARCHAR then VStr [] else VInt 0)"
    by (auto simp: assms(3) lay_fields_def zero_row_def)
  obtain off where f: "field_val (bp_layout q) f v" "lay_offset f (bp_layout q) = Inr off"
      "sch_fieldType f (lay_schema (bp_layout q)) = Inr (case v of VInt _ \<Rightarrow> INTEGER | VStr _ \<Rightarrow> VARCHAR)"
    by (rule bt_valueD [OF Cons.prems(1,2) fi(2)])
  let ?a = "8 + int i * lay_slotSize (bp_layout q) + off"
  note w = bt_field [OF d(5-7) Cons.prems(2) f(1,2)]
  note put = bt_put_field [OF d(5-7) Cons.prems(2) f(1,2)]
  have "R(i := (R i)(f \<mapsto> v)) = R"
    by (simp add: fi(2) [symmetric])
  note put = put [unfolded this]
  obtain s1 where s1: "(if v = VInt 0 then tx_setInt (bp_blk q) ?a 0 False else tx_setString (bp_blk q) ?a [] False) s = (Inr (), s1)"
      "ready s1 M" "written s s1 (bp_blk q) (overwrite (nat ?a) (val_bytes v) (view s (bp_blk q)))"
  proof (cases "v = VInt 0")
    case True
    with ready_setInt [OF d(1,2), of ?a False 0] w(1,2) that show thesis by auto
  next
    case False
    with fi(3) have "v = VStr []" by (simp split: if_splits)
    with ready_setString [OF d(1,2), of ?a "[]" False] w(1,2) that show thesis by auto
  qed
  note b = bt_written [OF s1(3,2) Cons.prems(1) put]
  have "i < bt_slots (blocksize s1) (bp_layout q)" "set fs \<subseteq> lay_fields (bp_layout q)"
    using Cons.prems(2,3) bt_only_same [OF b(2)] by simp_all
  from Cons.IH [OF b(1) this] obtain s2 where
    s2: "bp_default_fields (bp_blk q) (8 + int i * lay_slotSize (bp_layout q)) fs p s1 = (Inr (), s2)" "bt_ready s2 M q fl n R"
      "bt_only s1 s2 (bp_blk q)" by blast
  have "bp_default_fields (bp_blk q) (8 + int i * lay_slotSize (bp_layout q)) (f # fs) p s = (Inr (), s2)"
  proof (cases "v = VInt 0")
    case True
    with s1(1) s2(1) f(2,3) assms(4) show ?thesis
      by (simp add: cmd_simps)
  next
    case False
    with fi(3) have "v = VStr []" by (simp split: if_splits)
    with s1(1) s2(1) f(2,3) assms(4) show ?thesis
      by (simp add: cmd_simps INTEGER_def VARCHAR_def)
  qed
  with s2(2) bt_only_trans [OF b(2) s2(3)] show ?case by blast
qed

lemma bp_format_loop_ok:
  assumes "bt_ready s M q fl n (\<lambda>_. zero_row (bp_layout q))" "bp_layout p = bp_layout q" "bt_slots (blocksize s) (bp_layout q) - i < fuel"
  shows "\<exists>s'. bp_format_loop fuel (bp_blk q) (8 + int i * lay_slotSize (bp_layout q)) p s = (Inr (), s') \<and>
    bt_ready s' M q fl n (\<lambda>_. zero_row (bp_layout q)) \<and> bt_only s s' (bp_blk q)"
  using assms(1,3)
proof (induction fuel arbitrary: s i)
  case (Suc fuel)
  let ?l = "bp_layout q"
  note d = bt_readyD [OF Suc.prems(1)]
  have more: "8 + int i * lay_slotSize ?l + lay_slotSize ?l \<le> tx_blockSize s \<longleftrightarrow> i < bt_slots (blocksize s) ?l"
    using bt_slots_le [OF d(5,11), of "Suc i"] by (simp add: tx_blockSize_def algebra_simps Suc_le_eq)
  show ?case
  proof (cases "i < bt_slots (blocksize s) ?l")
    case False
    with more Suc.prems(1) show ?thesis
      by (auto simp: cmd_simps assms(2) intro: alike_only)
  next
    case True
    have fs: "set (sch_fields (lay_schema ?l)) \<subseteq> lay_fields ?l"
      using d(5) by (simp add: lay_ok_def sch_ok_def lay_fields_def)
    obtain s1 where s1: "bp_makeDefaultRecord (bp_blk q) (8 + int i * lay_slotSize ?l) p s = (Inr (), s1)"
        "bt_ready s1 M q fl n (\<lambda>_. zero_row ?l)" "bt_only s s1 (bp_blk q)"
      using bp_default_fields_ok [OF Suc.prems(1) True refl assms(2) fs] assms(2) by (auto simp: bp_makeDefaultRecord_def)
    have "bt_slots (blocksize s1) ?l - Suc i < fuel"
      using Suc.prems(2) True bt_only_same [OF s1(3)] by simp
    from Suc.IH [OF s1(2) this] obtain s2 where
      s2: "bp_format_loop fuel (bp_blk q) (8 + int (Suc i) * lay_slotSize ?l) p s1 = (Inr (), s2)"
        "bt_ready s2 M q fl n (\<lambda>_. zero_row ?l)" "bt_only s1 s2 (bp_blk q)" by blast
    have "8 + int (Suc i) * lay_slotSize ?l = 8 + int i * lay_slotSize ?l + lay_slotSize ?l"
      by (simp add: algebra_simps)
    note s2(1) [unfolded this]
    with more True s1(1) s2(2) bt_only_trans [OF s1(3) s2(3)] assms(2) show ?thesis
      by (simp add: cmd_simps)
  qed
qed simp

lemma bp_format_ok:
  assumes "bt_ready s M q fl n (\<lambda>_. zero_row (bp_layout q))" "bp_layout p = bp_layout q" "bt_slots (blocksize s) (bp_layout q) < fuel"
    and "int32 flag"
  shows "\<exists>s'. bp_format fuel (bp_blk q) flag p s = (Inr (), s') \<and> bt_list s' M q flag [] \<and> bt_only s s' (bp_blk q)"
proof -
  let ?R = "\<lambda>_. zero_row (bp_layout q)"
  note d = bt_readyD [OF assms(1)]
  obtain s1 where s1: "tx_setInt (bp_blk q) 0 flag False s = (Inr (), s1)" "ready s1 M"
      "written s s1 (bp_blk q) (overwrite 0 (int_bytes flag) (view s (bp_blk q)))"
    using ready_setInt [OF d(1,2), of 0 False flag] d(11) by auto
  note b1 = bt_written [OF s1(3,2) assms(1) bt_put_front(1) [OF d(6) assms(4)]]
  note d1 = bt_readyD [OF b1(1)]
  obtain s2 where s2: "tx_setInt (bp_blk q) 4 0 False s1 = (Inr (), s2)" "ready s2 M"
      "written s1 s2 (bp_blk q) (overwrite 4 (int_bytes 0) (view s1 (bp_blk q)))"
    using ready_setInt [OF d1(1,2), of 4 False 0] d1(11) by auto
  have z: "int32 0" by (simp add: int32_def)
  note b2 = bt_written [OF s2(3,2) b1(1) bt_put_front(2) [OF d1(6) z]]
  note only = bt_only_trans [OF b1(2) b2(2)]
  have "bt_slots (blocksize s2) (bp_layout q) - 0 < fuel"
    using assms(3) bt_only_same [OF only] by simp
  from bp_format_loop_ok [OF b2(1) assms(2) this] obtain s3 where
    s3: "bp_format_loop fuel (bp_blk q) 8 p s2 = (Inr (), s3)" "bt_ready s3 M q flag 0 ?R" "bt_only s2 s3 (bp_blk q)"
    by auto
  then have "bt_list s3 M q flag []"
    by (auto simp: bt_list_def)
  with s1(1) s2(1) s3(1) bt_only_trans [OF only s3(3)] show ?thesis
    by (simp add: bp_format_def cmd_simps)
qed

lemma bp_appendNew_ok:
  assumes "bt_list s M p fl rs" "Suc (size M) \<le> length (pool s)" "bt_slots (blocksize s) (bp_layout p) < fuel" "int32 flag"
  defines "fn \<equiv> fileName (bp_blk p)"
  defines "nb \<equiv> BlockId fn (fm_length fn s)"
  shows "\<exists>s'. bp_appendNew fuel flag p s = (Inr nb, s') \<and> bt_list s' (add_mset nb M) \<lparr>bp_blk = nb, bp_layout = bp_layout p\<rparr> flag [] \<and>
    bt_list s' (add_mset nb M) p fl rs \<and> bt_others s s' {bp_blk p, nb} \<and> nb \<noteq> bp_blk p \<and> nb \<notin># M"
proof -
  let ?q = "\<lparr>bp_blk = nb, bp_layout = bp_layout p\<rparr>" and ?l = "bp_layout p"
  note st = bt_list_stored [OF assms(1)]
  note rd = bt_list_ready [OF assms(1)]
  have st': "data_blk s (bp_blk p)" "number (bp_blk p) < fm_length fn s" "lay_ok ?l" "bt_lay ?l" "loggable (blocksize s) ?l fn"
    using st by (simp_all add: bt_stored_def fn_def bt_lay_def)
  then have fn: "fn \<noteq> logFileName s" "fn \<noteq> []"
    by (simp_all add: data_blk_def fn_def)
  have ne: "nb \<noteq> bp_blk p"
    using st'(2) unfolding nb_def by (metis block_id.sel(2) less_irrefl)
  have new: "nb \<notin># M"
  proof
    assume "nb \<in># M"
    from ready_bufferD [OF rd this] obtain i where i: "i < length (pool s)" "buf_blk (pool s ! i) = nb" "data_blk s nb" by metis
    with readyD(3) [OF rd] show False
      unfolding pool_in_def by (metis block_id.sel less_irrefl nb_def)
  qed
  obtain s1 where s1: "tx_append fn s = (Inr nb, s1)" "ready s1 M" "appended s s1 fn"
    using ready_append [OF rd fn] by (auto simp: nb_def)
  have db: "data_blk s nb"
    using st'(1) fm_length_nonneg fn ready_tx_ok [OF rd] by (auto simp: data_blk_def nb_def tx_ok_def bm_log_def dest: log_state_fm_inv)
  have a1: "view s1 nb = page_new (blocksize s)" "view s1 (bp_blk p) = view s (bp_blk p)" "blocksize s1 = blocksize s"
      "data_blk s1 nb" "number nb < fm_length (fileName nb) s1" "length (pool s1) = length (pool s)"
      "fm_length fn s1 = fm_length fn s + 1" "data_blk s1 (bp_blk p)"
    using s1(3) db st'(1) ne fn by (auto simp: appended_def nb_def data_blk_def)
  have "bt_stored s1 (bp_blk p) ?l fl rs"
    using st a1 by (simp add: bt_stored_def fn_def)
  obtain s2 where s2: "tx_pin nb s1 = (Inr (), s2)" "ready s2 (add_mset nb M)" "alike s1 s2"
    using ready_pin [OF s1(2) _ a1(4,5)] assms(2) a1(6) by auto
  have bs: "8 \<le> blocksize s" "blocksize s < 2 ^ 31"
    using bt_storedD(2) [OF st] ready_bounds(1) [OF rd] by simp_all
  have "bt_ready s2 (add_mset nb M) ?q 0 0 (\<lambda>_. zero_row ?l)"
    using s2(2) st'(4,5) bt_view_new [OF st'(3) bs] a1(1,3,4) s2(3) by (simp add: bt_ready_def alike_def nb_def)
  moreover have "bt_slots (blocksize s2) ?l < fuel"
    using assms(3) s2(3) a1(3) by (simp add: alike_def)
  ultimately obtain s3 where s3: "bp_format fuel nb flag p s2 = (Inr (), s3)" "bt_list s3 (add_mset nb M) ?q flag []" "bt_only s2 s3 nb"
    using bp_format_ok [of s2 "add_mset nb M" ?q 0 0 p fuel flag] assms(4) by auto
  have "bp_blk p \<in># add_mset nb M"
    using assms(1) by (auto simp: bt_list_def bt_ready_def)
  from bt_stored_list [OF bt_stored_alike [OF s2(3) \<open>bt_stored s1 (bp_blk p) ?l fl rs\<close>] s2(2) this]
  have "bt_list s2 (add_mset nb M) p fl rs"
    unfolding bpage_eta .
  from bt_list_other [OF s3(3) ne bt_list_ready [OF s3(2)] this] have p: "bt_list s3 (add_mset nb M) p fl rs" .
  have "bt_others s s3 {bp_blk p, nb}"
    using appended_others [OF s1(3)] bt_alike_others [OF s2(3)] bt_only_others [OF s3(3)] nb_def
    by (metis bt_others_trans insertCI)
  with s1(1) s2(1) s3(1,2) p ne new show ?thesis
    by (simp add: bp_appendNew_def fn_def cmd_simps)
qed
section \<open>Moving records to another page\<close>

lemma seq_seq: "seq m (seq m' m'') = seq (seq m m') m''"
  by (simp add: seq_def bnd_bnd)

lemma bt_list_append_record:
  assumes "bt_list s M q fl' zs" "bt_list s M p fl rs" "i < length rs" "bp_blk p \<noteq> bp_blk q" "bp_layout p = bp_layout q"
    and "length zs < bt_slots (blocksize s) (bp_layout q)"
  shows "\<exists>s'. seq (bp_insert (int (length zs)) q)
      (bp_copy_fields (int i) p (int (length zs)) q (sch_fields (lay_schema (bp_layout p)))) s = (Inr (), s') \<and>
    bt_list s' M q fl' (zs @ [rs ! i]) \<and> bt_list s' M p fl rs \<and> bt_only s s' (bp_blk q)"
proof -
  obtain R where R: "bt_ready s M q fl' (int (length zs)) R" "\<And>i. i < length zs \<Longrightarrow> R i = zs ! i"
    using bt_listE [OF assms(1)] by metis
  have same: "(\<lambda>j. if length zs < j \<and> j \<le> length zs then R (j - 1) else R j) = R"
    by (rule ext) auto
  obtain s1 where s1: "bp_insert (int (length zs)) q s = (Inr (), s1)" "bt_ready s1 M q fl' (int (Suc (length zs))) R"
      "bt_only s s1 (bp_blk q)"
    using bp_insert_ok [OF R(1) order_refl assms(6)] unfolding same by blast
  have p1: "bt_list s1 M p fl rs"
    by (rule bt_list_other [OF s1(3) _ bt_readyD(1) [OF s1(2)] assms(2)]) (use assms(4) in simp)
  obtain Q where Q: "bt_ready s1 M p fl (int (length rs)) Q" "Q i = rs ! i" "i < bt_slots (blocksize s1) (bp_layout p)"
    using bt_listE [OF p1] assms(3) by (metis order_less_le_trans)
  have to: "length zs < bt_slots (blocksize s1) (bp_layout q)"
    using assms(6) bt_slots_same(2) [OF s1(3)] by simp
  obtain s2 where s2: "bp_copy_fields (int i) p (int (length zs)) q (sch_fields (lay_schema (bp_layout p))) s1 = (Inr (), s2)"
      "bt_ready s2 M q fl' (int (Suc (length zs))) (R(length zs := rs ! i))" "bt_only s1 s2 (bp_blk q)"
    using bp_copy_record_ok [OF s1(2) to bt_slotI [OF Q(1,3)] assms(5)] assms(4) unfolding Q(2) by metis
  have p2: "bt_list s2 M p fl rs"
    by (rule bt_list_other [OF s2(3) _ bt_readyD(1) [OF s2(2)] p1]) (use assms(4) in simp)
  have "(R(length zs := rs ! i)) j = (zs @ [rs ! i]) ! j" if "j < Suc (length zs)" for j
    using that R(2) by (auto simp: nth_append)
  then have "bt_list s2 M q fl' (zs @ [rs ! i])"
    unfolding bt_list_def using s2(2) to bt_slots_same(2) [OF s2(3)] by (auto simp del: of_nat_Suc)
  with s1(1) s2(1) p2 bt_only_trans [OF s1(3) s2(3)] show ?thesis
    by (simp add: cmd_simps)
qed

lemma bp_transfer_loop_ok:
  assumes "bt_list s M p fl rs" "bt_list s M q fl' zs" "i \<le> length rs" "length rs - i < fuel" "length rs \<le> k"
    and "length zs + (length rs - i) \<le> bt_slots (blocksize s) (bp_layout q)" "bp_blk p \<noteq> bp_blk q" "bp_layout p = bp_layout q"
  shows "\<exists>s'. bp_transfer_loop fuel k (int i) (int (length zs)) q p s = (Inr (), s') \<and> bt_list s' M p fl (take i rs) \<and>
    bt_list s' M q fl' (zs @ drop i rs) \<and> bt_others s s' {bp_blk p, bp_blk q}"
  using assms(1-6)
proof (induction fuel arbitrary: s rs zs)
  case (Suc fuel)
  obtain s1 where s1: "bp_getNumRecs p s = (Inr (int (length rs)), s1)" "bt_list s1 M p fl rs" "alike s s1"
    using bt_list_front(2) [OF Suc.prems(1)] by blast
  note q1 = bt_list_alike [OF s1(3) bt_list_ready [OF s1(2)] Suc.prems(2)]
  show ?case
  proof (cases "i < length rs")
    case False
    with Suc.prems(3) s1 q1 bt_alike_others [OF s1(3)] show ?thesis
      by (simp add: cmd_simps)
  next
    case True
    have "length zs < bt_slots (blocksize s1) (bp_layout q)"
      using Suc.prems(6) True bt_slots_same(1) [OF s1(3)] by simp
    from bt_list_append_record [OF q1 s1(2) True assms(7,8) this] obtain s2 where
      s2: "seq (bp_insert (int (length zs)) q)
          (bp_copy_fields (int i) p (int (length zs)) q (sch_fields (lay_schema (bp_layout p)))) s1 = (Inr (), s2)"
        "bt_list s2 M q fl' (zs @ [rs ! i])" "bt_list s2 M p fl rs" "bt_only s1 s2 (bp_blk q)" by blast
    let ?rs = "take i rs @ drop (Suc i) rs"
    obtain s3 where s3: "bp_remove k (int i) p s2 = (Inr (), s3)" "bt_list s3 M p fl ?rs" "bt_only s2 s3 (bp_blk p)"
      using bt_list_remove [OF s2(3) True Suc.prems(5)] by blast
    have q3: "bt_list s3 M q fl' (zs @ [rs ! i])"
      by (rule bt_list_other [OF s3(3) assms(7) bt_list_ready [OF s3(2)] s2(2)])
    have slots: "bt_slots (blocksize s3) (bp_layout q) = bt_slots (blocksize s) (bp_layout q)"
      using bt_slots_same(1) [OF s1(3)] bt_slots_same(2) [OF s2(4)] bt_slots_same(2) [OF s3(3)] by simp
    have "i \<le> length ?rs" "length ?rs - i < fuel" "length ?rs \<le> k"
        "length (zs @ [rs ! i]) + (length ?rs - i) \<le> bt_slots (blocksize s3) (bp_layout q)"
      using True Suc.prems(4-6) unfolding slots by simp_all
    from Suc.IH [OF s3(2) q3 this] obtain s4 where
      s4: "bp_transfer_loop fuel k (int i) (int (length (zs @ [rs ! i]))) q p s3 = (Inr (), s4)" "bt_list s4 M p fl (take i ?rs)"
        "bt_list s4 M q fl' ((zs @ [rs ! i]) @ drop i ?rs)" "bt_others s3 s4 {bp_blk p, bp_blk q}" by blast
    have d: "drop i rs = rs ! i # drop (Suc i) rs"
      by (rule Cons_nth_drop_Suc [symmetric, OF True])
    have lists: "take i ?rs = take i rs" "(zs @ [rs ! i]) @ drop i ?rs = zs @ drop i rs" "int (length (zs @ [rs ! i])) = int (length zs) + 1"
      using True by (simp_all add: d)
    have "bt_others s s3 {bp_blk p, bp_blk q}"
      using bt_alike_others [OF s1(3)] bt_only_others [OF s2(4)] bt_only_others [OF s3(3)] by (metis bt_others_trans insertCI)
    moreover have "bp_transfer_loop (Suc fuel) k (int i) (int (length zs)) q p s = (Inr (), s4)"
      using True s1(1) s2(1) s3(1) s4(1) [unfolded lists] by (simp add: seq_seq cmd_simps)
    ultimately show ?thesis
      using s4(2-4) bt_others_trans unfolding lists by blast
  qed
qed simp

section \<open>Splitting a page\<close>

text \<open>The new block has one pin too many: it was pinned when it was formatted, and by the page object.\<close>

lemma bp_split_ok:
  assumes "bt_list s M p fl rs" "Suc (size M) < length (pool s)" "bt_slots (blocksize s) (bp_layout p) < fuel" "int32 flag" "i \<le> length rs"
  defines "nb \<equiv> BlockId (fileName (bp_blk p)) (fm_length (fileName (bp_blk p)) s)"
  shows "\<exists>s'. bp_split fuel (int i) flag p s = (Inr nb, s') \<and> bt_list s' (add_mset nb M) p fl (take i rs) \<and>
    bt_list s' (add_mset nb M) \<lparr>bp_blk = nb, bp_layout = bp_layout p\<rparr> flag (drop i rs) \<and> bt_others s s' {bp_blk p, nb} \<and> nb \<notin># M \<and> nb \<noteq> bp_blk p"
proof -
  let ?q = "\<lparr>bp_blk = nb, bp_layout = bp_layout p\<rparr>" and ?B = "{bp_blk p, nb}" and ?N = "add_mset nb (add_mset nb M)"
  have "Suc (size M) \<le> length (pool s)"
    using assms(2) by simp
  from bp_appendNew_ok [OF assms(1) this assms(3,4)] obtain s1 where
    s1: "bp_appendNew fuel flag p s = (Inr nb, s1)" "bt_list s1 (add_mset nb M) ?q flag []" "bt_list s1 (add_mset nb M) p fl rs"
      "bt_others s s1 ?B" "nb \<noteq> bp_blk p" "nb \<notin># M"
    unfolding nb_def by blast
  have stq: "bt_stored s1 nb (bp_layout p) flag []"
    using bt_list_stored [OF s1(2)] by simp
  have "size (add_mset nb M) < length (pool s1)"
    using assms(2) s1(4) by (simp add: bt_others_def)
  from bp_new_ok [OF bt_list_ready [OF s1(2)] this stq] obtain s2 where
    s2: "bp_new nb (bp_layout p) s1 = (Inr ?q, s2)" "bt_list s2 ?N ?q flag []" "alike s1 s2" by blast
  have "bp_blk p \<in># ?N"
    using assms(1) by (auto simp: bt_list_def bt_ready_def)
  from bt_stored_list [OF bt_stored_alike [OF s2(3) bt_list_stored [OF s1(3)]] bt_list_ready [OF s2(2)] this]
  have p2: "bt_list s2 ?N p fl rs"
    unfolding bpage_eta .
  have rs: "length rs \<le> bt_slots (blocksize s2) (bp_layout ?q)"
    using p2 by (simp add: bt_list_def)
  have sl: "bt_slots (blocksize s) (bp_layout p) = bt_slots (blocksize s2) (bp_layout p)"
    using s1(4) s2(3) by (simp add: bt_others_def alike_def)
  have fuel: "length rs - i < fuel" "length rs \<le> fuel" "length ([] :: row list) + (length rs - i) \<le> bt_slots (blocksize s2) (bp_layout ?q)"
    using rs assms(3) sl by simp_all
  have ne: "bp_blk p \<noteq> bp_blk ?q"
    using s1(5) by simp
  from bp_transfer_loop_ok [OF p2 s2(2) assms(5) fuel ne] obtain s3 where
    s3: "bp_transferRecs fuel (int i) ?q p s2 = (Inr (), s3)" "bt_list s3 ?N p fl (take i rs)" "bt_list s3 ?N ?q flag (drop i rs)"
      "bt_others s2 s3 ?B"
    by (auto simp: bp_transferRecs_def)
  obtain R where R: "bt_ready s3 ?N ?q flag (int (length (drop i rs))) R" "\<And>j. j < length (drop i rs) \<Longrightarrow> R j = drop i rs ! j"
      "length (drop i rs) \<le> bt_slots (blocksize s3) (bp_layout ?q)"
    using bt_listE [OF s3(3)] by metis
  obtain s4 where s4: "bp_setFlag flag ?q s3 = (Inr (), s4)" "bt_ready s4 ?N ?q flag (int (length (drop i rs))) R" "bt_only s3 s4 nb"
    using bp_put_front_ok(1) [OF R(1) assms(4)] by auto
  have q4: "bt_list s4 ?N ?q flag (drop i rs)"
    unfolding bt_list_def using s4(2) R(2,3) bt_slots_same(2) [OF s4(3)] by auto
  have p4: "bt_list s4 ?N p fl (take i rs)"
    by (rule bt_list_other [OF s4(3) s1(5) bt_readyD(1) [OF s4(2)] s3(2)])
  have "bt_list s4 (add_mset (bp_blk ?q) (add_mset nb M)) ?q flag (drop i rs)"
    using q4 by simp
  from bp_close_ok [OF this] obtain s5 where
    s5: "bp_close ?q s4 = (Inr (?q\<lparr>bp_blk := null_blk\<rparr>), s5)" "ready s5 (add_mset nb M)" "alike s4 s5" by blast
  have m: "bp_blk p \<in># add_mset nb M" "bp_blk ?q \<in># add_mset nb M"
    using assms(1) by (auto simp: bt_list_def bt_ready_def)
  note stored = bt_stored_list [OF bt_stored_alike [OF s5(3) bt_list_stored] s5(2)]
  have "bt_list s5 (add_mset nb M) p fl (take i rs)" "bt_list s5 (add_mset nb M) ?q flag (drop i rs)"
    using stored [OF p4 m(1)] stored [OF q4 m(2)] unfolding bpage_eta by simp_all
  moreover have "bt_others s s5 ?B"
    using s1(4) bt_alike_others [OF s2(3)] s3(4) bt_only_others [OF s4(3)] bt_alike_others [OF s5(3)]
    by (metis bt_others_trans insertCI)
  ultimately show ?thesis
    using s1(1,5,6) s2(1) s3(1) s4(1) s5(1) by (simp add: bp_split_def cmd_simps)
qed
section \<open>The place of the split\<close>

lemma lf_left_ok:
  assumes "bt_list s M p fl rs" "field_val (bp_layout p) ''dataval'' k" "i < length rs" "key_of (rs ! 0) \<noteq> k" "key_of (rs ! i) = k" "i < fuel"
  shows "\<exists>j s'. lf_left fuel (const_of k) (int i) p s = (Inr (int j), s') \<and> bt_list s' M p fl rs \<and> alike s s' \<and> 0 < j \<and> j \<le> i \<and>
    key_of (rs ! (j - 1)) \<noteq> k \<and> key_of (rs ! j) = k"
  using assms(1,3,5,6)
proof (induction fuel arbitrary: s i)
  case (Suc fuel)
  have i: "0 < i"
    using Suc.prems(3) assms(4) by (cases i) simp_all
  then have i': "int i - 1 = int (i - 1)" "i - 1 < length rs"
    using Suc.prems(2) by simp_all
  obtain s1 where s1: "bp_getDataVal (int i - 1) p s = (Inr (const_of (key_of (rs ! (i - 1)))), s1)" "bt_list s1 M p fl rs" "alike s s1"
    using bt_list_getDataVal [OF Suc.prems(1) i'(2) assms(2)] unfolding i'(1) by blast
  note c = const_cmp(1) [OF bt_list_key(2) [OF Suc.prems(1) nth_mem [OF i'(2)] assms(2)]]
  show ?case
  proof (cases "key_of (rs ! (i - 1)) = k")
    case False
    with s1 c i Suc.prems(3) show ?thesis
      by (intro exI [of _ i] exI [of _ s1]) (simp add: cmd_simps)
  next
    case True
    have "i - 1 < fuel"
      using i Suc.prems(4) by simp
    from Suc.IH [OF s1(2) i'(2) True this] obtain j s2 where
      j: "lf_left fuel (const_of k) (int i - 1) p s1 = (Inr (int j), s2)" "bt_list s2 M p fl rs" "alike s1 s2" "0 < j" "j \<le> i - 1"
        "key_of (rs ! (j - 1)) \<noteq> k" "key_of (rs ! j) = k"
      unfolding i'(1) by blast
    have "lf_left (Suc fuel) (const_of k) (int i) p s = (Inr (int j), s2)"
      using s1(1) c True j(1) by (simp add: cmd_simps)
    with j alike_trans [OF s1(3) j(3)] show ?thesis
      by (intro exI [of _ j] exI [of _ s2]) simp
  qed
qed simp

lemma lf_right_ok:
  assumes "bt_list s M p fl rs" "field_val (bp_layout p) ''dataval'' k" "i < length rs" "key_of (last rs) \<noteq> k" "0 < i \<Longrightarrow> key_of (rs ! (i - 1)) = k"
    "key_of (rs ! i) = k \<or> 0 < i" "length rs - i < fuel"
  shows "\<exists>j s'. lf_right fuel (const_of k) (int i) p s = (Inr (int j), s') \<and> bt_list s' M p fl rs \<and> alike s s' \<and> 0 < j \<and> j < length rs \<and>
    key_of (rs ! (j - 1)) = k \<and> key_of (rs ! j) \<noteq> k"
  using assms(1,3,5-7)
proof (induction fuel arbitrary: s i)
  case (Suc fuel)
  obtain s1 where s1: "bp_getDataVal (int i) p s = (Inr (const_of (key_of (rs ! i))), s1)" "bt_list s1 M p fl rs" "alike s s1"
    using bt_list_getDataVal [OF Suc.prems(1,2) assms(2)] by blast
  note c = const_cmp(1) [OF bt_list_key(2) [OF Suc.prems(1) nth_mem [OF Suc.prems(2)] assms(2)]]
  show ?case
  proof (cases "key_of (rs ! i) = k")
    case False
    with s1 c Suc.prems show ?thesis
      by (intro exI [of _ i] exI [of _ s1]) (simp add: cmd_simps)
  next
    case True
    have "i \<noteq> length rs - 1"
      using True assms(4) Suc.prems(2) by (metis last_conv_nth list.size(3) not_less_zero)
    then have i: "Suc i < length rs" "length rs - Suc i < fuel" "int i + 1 = int (Suc i)"
      using Suc.prems(2,5) by simp_all
    have k: "key_of (rs ! (Suc i - 1)) = k"
      using True by simp
    from Suc.IH [OF s1(2) i(1) k disjI2 [OF zero_less_Suc] i(2)] obtain j s2 where
      j: "lf_right fuel (const_of k) (int i + 1) p s1 = (Inr (int j), s2)" "bt_list s2 M p fl rs" "alike s1 s2" "0 < j" "j < length rs"
        "key_of (rs ! (j - 1)) = k" "key_of (rs ! j) \<noteq> k"
      unfolding i(3) by blast
    have "lf_right (Suc fuel) (const_of k) (int i) p s = (Inr (int j), s2)"
      using s1(1) c True j(1) by (simp add: cmd_simps)
    with j alike_trans [OF s1(3) j(3)] show ?thesis
      by (intro exI [of _ j] exI [of _ s2]) simp
  qed
qed simp

text \<open>A place where the keys change, in a sorted list.\<close>

definition splits_at :: "row list \<Rightarrow> nat \<Rightarrow> bool" where
  "splits_at rs i \<longleftrightarrow> 0 < i \<and> i < length rs \<and> key_of (rs ! (i - 1)) < key_of (rs ! i)"

lemma splits_atI:
  assumes "key_sorted rs" "0 < i" "i < length rs" "key_of (rs ! (i - 1)) \<noteq> key_of (rs ! i)"
  shows "splits_at rs i"
proof -
  have "map key_of rs ! (i - 1) \<le> map key_of rs ! i"
    using assms(1,3) unfolding key_sorted_def by (intro sorted_nth_mono) simp_all
  with assms(2-4) show ?thesis
    by (simp add: splits_at_def)
qed

lemma splits_at_halves:
  assumes "key_sorted rs" "splits_at rs i"
  shows "\<forall>x \<in> set (take i rs). key_of x < key_of (rs ! i)" "\<forall>x \<in> set (drop i rs). key_of (rs ! i) \<le> key_of x"
proof -
  have mono: "key_of (rs ! a) \<le> key_of (rs ! b)" if "a \<le> b" "b < length rs" for a b
    using sorted_nth_mono [OF assms(1) [unfolded key_sorted_def] that(1)] that by simp
  show "\<forall>x \<in> set (take i rs). key_of x < key_of (rs ! i)"
  proof
    fix x assume "x \<in> set (take i rs)"
    then obtain a where a: "a < i" "x = rs ! a" "a < length rs"
      by (auto simp: in_set_conv_nth)
    then have "a \<le> i - 1" "i - 1 < length rs"
      using assms(2) by (auto simp: splits_at_def)
    then have "key_of x \<le> key_of (rs ! (i - 1))"
      using mono a(2) by simp
    with assms(2) show "key_of x < key_of (rs ! i)"
      by (auto simp: splits_at_def)
  qed
  show "\<forall>x \<in> set (drop i rs). key_of (rs ! i) \<le> key_of x"
    using mono [of i] by (auto simp: in_set_conv_nth)
qed

text \<open>\<open>insert\<close> in a full page whose keys are not all the same.\<close>

lemma lf_split_ok:
  assumes "bt_list s M \<lparr>bp_blk = blk, bp_layout = l\<rparr> fl rs" "field_val l ''dataval'' k" "key_sorted rs" "key_of (hd rs) \<noteq> key_of (last rs)"
    and "rs \<noteq> []" "Suc (size M) < length (pool s)" "bt_slots (blocksize s) l < fuel"
  defines "nb \<equiv> BlockId (fileName blk) (fm_length (fileName blk) s)"
  shows "\<exists>i s'. lf_split fuel (leaf_on blk l k j) s = (Inr \<lparr>de_dataVal = const_of (key_of (rs ! i)), de_blockNum = number nb\<rparr>, s') \<and>
    splits_at rs i \<and> bt_list s' (add_mset nb M) \<lparr>bp_blk = blk, bp_layout = l\<rparr> fl (take i rs) \<and>
    bt_list s' (add_mset nb M) \<lparr>bp_blk = nb, bp_layout = l\<rparr> (- 1) (drop i rs) \<and> bt_others s s' {blk, nb} \<and> nb \<notin># M"
proof -
  let ?p = "\<lparr>bp_blk = blk, bp_layout = l\<rparr>" and ?n = "length rs" and ?key = "\<lambda>i. key_of (rs ! i)"
  let ?m = "?n div 2"
  have dv: "field_val (bp_layout ?p) ''dataval'' k"
    using assms(2) by simp
  have n: "0 < ?n" "?n - 1 < ?n" "?m < ?n" "int ?n - 1 = int (?n - 1)" "int ?n div 2 = int ?m"
    using assms(5) by (simp_all add: zdiv_int) (cases rs; simp)+
  have hl: "?key 0 \<noteq> ?key (?n - 1)" "?key (?n - 1) = key_of (last rs)"
    using assms(4,5) by (simp_all add: hd_conv_nth last_conv_nth)
  obtain s1 where s1: "bp_getDataVal 0 ?p s = (Inr (const_of (?key 0)), s1)" "bt_list s1 M ?p fl rs" "alike s s1"
    using bt_list_getDataVal [OF assms(1) n(1) dv] by auto
  obtain s2 where s2: "bp_getNumRecs ?p s1 = (Inr (int ?n), s2)" "bt_list s2 M ?p fl rs" "alike s1 s2"
    using bt_list_front(2) [OF s1(2)] by blast
  obtain s3 where s3: "bp_getDataVal (int ?n - 1) ?p s2 = (Inr (const_of (?key (?n - 1))), s3)" "bt_list s3 M ?p fl rs" "alike s2 s3"
    using bt_list_getDataVal [OF s2(2) n(2) dv] unfolding n(4) by blast
  obtain s4 where s4: "bp_getNumRecs ?p s3 = (Inr (int ?n), s4)" "bt_list s4 M ?p fl rs" "alike s3 s4"
    using bt_list_front(2) [OF s3(2)] by blast
  obtain s5 where s5: "bp_getDataVal (int ?m) ?p s4 = (Inr (const_of (?key ?m)), s5)" "bt_list s5 M ?p fl rs" "alike s4 s5"
    using bt_list_getDataVal [OF s4(2) n(3) dv] by blast
  have kind: "val_kind (?key i) = val_kind k" if "i < ?n" for i
    using bt_list_key(2) [OF assms(1) nth_mem [OF that] dv] .
  have eq: "const_eq (const_of (?key i)) (const_of (?key j)) = Inr (?key i = ?key j)" if "i < ?n" "j < ?n" for i j
    using const_cmp(1) [of "?key i" "?key j"] kind that by simp
  have dvi: "field_val (bp_layout ?p) ''dataval'' (?key ?m)"
    using bt_list_row [OF assms(1) nth_mem [OF n(3)]] bt_list_key(1) [OF assms(1) nth_mem [OF n(3)] dv] by (simp add: row_typed_def)
  have fuel: "?m < fuel" "?n - ?m < fuel"
    using assms(1,7) by (auto simp: bt_list_def)
  obtain i s6 where s6: "(if ?key ?m = ?key 0
        then bnd (lf_right fuel (const_of (?key ?m)) (int ?m) ?p) (\<lambda>pos. bnd (bp_getDataVal pos ?p) (\<lambda>key. ret (pos, key)))
        else bnd (lf_left fuel (const_of (?key ?m)) (int ?m) ?p) (\<lambda>pos. ret (pos, const_of (?key ?m)))) s5 =
        (Inr (int i, const_of (?key i)), s6)" "bt_list s6 M ?p fl rs" "alike s5 s6" "splits_at rs i"
  proof (cases "?key ?m = ?key 0")
    case True
    have last: "key_of (last rs) \<noteq> ?key ?m"
      using hl True by simp
    have before: "0 < ?m \<Longrightarrow> ?key (?m - 1) = ?key ?m"
    proof -
      assume m: "0 < ?m"
      have "?m - 1 < ?n" "?m - 1 \<le> ?m"
        using n(3) by simp_all
      then have "?key 0 \<le> ?key (?m - 1)" "?key (?m - 1) \<le> ?key ?m"
        using sorted_nth_mono [OF assms(3) [unfolded key_sorted_def], of 0 "?m - 1"]
          sorted_nth_mono [OF assms(3) [unfolded key_sorted_def], of "?m - 1" ?m] n(1,3) by simp_all
      with True show ?thesis by simp
    qed
    obtain j t where j: "lf_right fuel (const_of (?key ?m)) (int ?m) ?p s5 = (Inr (int j), t)" "bt_list t M ?p fl rs" "alike s5 t"
        "0 < j" "j < ?n" "?key (j - 1) = ?key ?m" "?key j \<noteq> ?key ?m"
      using lf_right_ok [OF s5(2) dvi n(3) last before disjI1 [OF refl] fuel(2)] by blast
    obtain t' where t': "bp_getDataVal (int j) ?p t = (Inr (const_of (?key j)), t')" "bt_list t' M ?p fl rs" "alike t t'"
      using bt_list_getDataVal [OF j(2,5) dv] by blast
    have "splits_at rs j"
      using splits_atI [OF assms(3) j(4,5)] j(6,7) by simp
    with True j(1) t' alike_trans [OF j(3) t'(3)] show thesis
      by (intro that [of j t']) (simp_all add: cmd_simps)
  next
    case False
    obtain j t where j: "lf_left fuel (const_of (?key ?m)) (int ?m) ?p s5 = (Inr (int j), t)" "bt_list t M ?p fl rs" "alike s5 t"
        "0 < j" "j \<le> ?m" "?key (j - 1) \<noteq> ?key ?m" "?key j = ?key ?m"
      using lf_left_ok [OF s5(2) dvi n(3) False [symmetric] refl fuel(1)] by blast
    have "splits_at rs j"
      using splits_atI [OF assms(3) j(4)] j(5-7) n(3) by simp
    with False j show thesis
      by (intro that [of j t]) (simp_all add: cmd_simps)
  qed
  have a6: "alike s s6"
    using s1(3) s2(3) s3(3) s4(3) s5(3) s6(3) by (meson alike_trans)
  then have t: "Suc (size M) < length (pool s6)" "bt_slots (blocksize s6) (bp_layout ?p) < fuel" "int32 (- 1)" "i \<le> ?n"
      "fm_length (fileName blk) s6 = fm_length (fileName blk) s"
    using assms(6,7) s6(4) bt_stored_list bt_list_stored [OF assms(1)]
    by (simp_all add: alike_def int32_def splits_at_def bt_stored_def data_blk_def)
  have nb: "nb = BlockId (fileName (bp_blk ?p)) (fm_length (fileName (bp_blk ?p)) s6)"
    using t(5) by (simp add: nb_def)
  obtain s7 where s7: "bp_split fuel (int i) (- 1) ?p s6 = (Inr nb, s7)" "bt_list s7 (add_mset nb M) ?p fl (take i rs)"
      "bt_list s7 (add_mset nb M) \<lparr>bp_blk = nb, bp_layout = l\<rparr> (- 1) (drop i rs)" "bt_others s6 s7 {blk, nb}" "nb \<notin># M"
    using bp_split_ok [OF s6(2) t(1-4)] unfolding nb [symmetric] by auto
  have "lf_split fuel (leaf_on blk l k j) s = (Inr \<lparr>de_dataVal = const_of (?key i), de_blockNum = number nb\<rparr>, s7)"
  proof (cases "?key ?m = ?key 0")
    case True
    with s1(1) s2(1) s3(1) s4(1) s5(1) s6(1) s7(1) eq [OF n(2,1)] eq [OF n(3,1)] hl(1) n(5) show ?thesis
      by (simp add: lf_split_def leaf_on_def Let_def cmd_simps)
  next
    case False
    with s1(1) s2(1) s3(1) s4(1) s5(1) s6(1) s7(1) eq [OF n(2,1)] eq [OF n(3,1)] hl(1) n(5) show ?thesis
      by (simp add: lf_split_def leaf_on_def Let_def cmd_simps)
  qed
  with s6(4) s7(2-5) bt_others_trans [OF bt_alike_others [OF a6] s7(4)] show ?thesis by blast
qed

end
