(* ===== verification/Indexes.thy ===== *)
theory Indexes
  imports BTreeSplit Algebra
begin

text \<open>
  What the index promises and where it does not keep it: insertion and removal in a leaf, and the
  search of a directory page.
\<close>

section \<open>Insertion into a leaf\<close>

text \<open>Opening the leaf for a key, inserting and closing it, as \<open>BTreeIndex::insert\<close> does.\<close>

abbreviation leaf_insert :: "nat \<Rightarrow> block_id \<Rightarrow> layout \<Rightarrow> val \<Rightarrow> rid \<Rightarrow> ('a tx_scheme, dir_entry) cmd" where
  "leaf_insert fuel blk l k r \<equiv>
     bnd (lf_new fuel blk l (const_of k)) (\<lambda>lf. bnd (lf_insert fuel r lf) (\<lambda>(e, lf). bnd (lf_close lf) (\<lambda>_. ret e)))"

abbreviation leaf_remove :: "nat \<Rightarrow> block_id \<Rightarrow> layout \<Rightarrow> val \<Rightarrow> rid \<Rightarrow> ('a tx_scheme, unit) cmd" where
  "leaf_remove fuel blk l k r \<equiv>
     bnd (lf_new fuel blk l (const_of k)) (\<lambda>lf. bnd (lf_remove fuel r lf) (\<lambda>lf. bnd (lf_close lf) (\<lambda>_. ret ())))"

lemma leaf_insert_splits:
  assumes "ready s M" "Suc (Suc (size M)) < length (pool s)" "bt_stored s blk l fl rs" "leaf_lay l" "leaf_entry l k r" "no_overflow fl k rs"
    and "key_sorted rs" "length rs < bt_slots (blocksize s) l" "blocksize s \<le> 8 + (int (length rs) + 2) * lay_slotSize l"
    and "bt_slots (blocksize s) l < fuel"
  defines "new \<equiv> with_key (leaf_row k r) rs" and "nb \<equiv> BlockId (fileName blk) (fm_length (fileName blk) s)"
  assumes "key_of (hd new) \<noteq> key_of (last new)"
  shows "\<exists>i s'. leaf_insert fuel blk l k r s = (Inr \<lparr>de_dataVal = const_of (key_of (new ! i)), de_blockNum = number nb\<rparr>, s') \<and>
    splits_at new i \<and> ready s' (add_mset nb M) \<and> bt_stored s' blk l fl (take i new) \<and> bt_stored s' nb l (- 1) (drop i new) \<and>
    bt_others s s' {blk, nb}"
proof -
  let ?p = "\<lparr>bp_blk = blk, bp_layout = l\<rparr>" and ?j = "int (length (below k rs))"
  have dv: "field_val l ''dataval'' k"
    using assms(5) by (simp add: leaf_entry_def)
  have "size M < length (pool s)" "length rs < fuel"
    using assms(2,8,10) by simp_all
  from lf_new_ok [OF assms(1) this(1) assms(3) dv this(2)] obtain s1 where
    s1: "lf_new fuel blk l (const_of k) s = (Inr (leaf_on blk l k (?j - 1)), s1)" "bt_list s1 (add_mset blk M) ?p fl rs" "alike s s1"
    by blast
  have bs: "blocksize s1 = blocksize s"
    using s1(3) by (simp add: alike_def)
  have room: "length rs < bt_slots (blocksize s1) l"
    using assms(8) bs by simp
  obtain s2 where s2: "bt_list s2 (add_mset blk M) ?p fl new" "bt_only s1 s2 blk"
      "lf_insert fuel r (leaf_on blk l k (?j - 1)) s1 = bnd (lf_split fuel (leaf_on blk l k ?j)) (\<lambda>d. ret (d, leaf_on blk l k ?j)) s2"
    using lf_insert_record [OF s1(2) refl assms(4-6) room, of fuel] assms(9) bs by (auto simp: new_def)
  have pool: "length (pool s2) = length (pool s)" "bt_slots (blocksize s2) l = bt_slots (blocksize s) l"
    using s1(3) s2(2) by (simp_all add: alike_def bt_only_def written_def)
  have len: "fm_length (fileName blk) s2 = fm_length (fileName blk) s"
    using s1(3) s2(2) bt_storedD(3) [OF assms(3)] by (simp add: alike_def bt_only_def written_def data_blk_def)
  have "new \<noteq> []" "key_sorted new"
    using with_key_sorted [OF assms(7), of "leaf_row k r"] unfolding new_def by (simp_all add: with_key_def)
  moreover have "Suc (size (add_mset blk M)) < length (pool s2)" "bt_slots (blocksize s2) l < fuel"
    using assms(2,10) pool by simp_all
  ultimately obtain i s3 where s3:
      "lf_split fuel (leaf_on blk l k ?j) s2 = (Inr \<lparr>de_dataVal = const_of (key_of (new ! i)), de_blockNum = number nb\<rparr>, s3)"
      "splits_at new i" "bt_list s3 (add_mset nb (add_mset blk M)) ?p fl (take i new)"
      "bt_list s3 (add_mset nb (add_mset blk M)) \<lparr>bp_blk = nb, bp_layout = l\<rparr> (- 1) (drop i new)" "bt_others s2 s3 {blk, nb}"
    using lf_split_ok [OF s2(1) dv _ assms(13), of fuel ?j] unfolding len nb_def by blast
  have "bt_list s3 (add_mset blk (add_mset nb M)) ?p fl (take i new)"
    using s3(3) by (simp add: add_mset_commute)
  from lf_close_ok [OF this] obtain lf s4 where
    s4: "lf_close (leaf_on blk l k ?j) s3 = (Inr lf, s4)" "ready s4 (add_mset nb M)" "alike s3 s4" "bt_stored s4 blk l fl (take i new)"
    by blast
  have "bt_stored s4 nb l (- 1) (drop i new)"
    using bt_stored_alike [OF s4(3) bt_list_stored [OF s3(4)]] by simp
  moreover have "bt_others s s4 {blk, nb}"
    using bt_alike_others [OF s1(3)] bt_only_others [OF s2(2)] s3(5) bt_alike_others [OF s4(3)] by (metis bt_others_trans insertCI)
  moreover have "leaf_insert fuel blk l k r s = (Inr \<lparr>de_dataVal = const_of (key_of (new ! i)), de_blockNum = number nb\<rparr>, s4)"
    using s1(1) s2(3) s3(1) s4(1) by (simp add: cmd_simps)
  ultimately show ?thesis
    using s3(2) s4(2,4) by blast
qed

section \<open>A directory page\<close>

text \<open>The search looks at the slot after the one it found, even where that slot is free.\<close>

lemma bp_find_before:
  assumes "bt_ready s M p fl (int n) R" "n \<le> bt_slots (blocksize s) (bp_layout p)" "field_val (bp_layout p) ''dataval'' k"
    and "\<forall>i < n. key_of (R i) < k" "n < fuel"
  shows "\<exists>s'. bp_findSlotBefore fuel (const_of k) p s = (Inr (int n - 1), s') \<and> bt_ready s' M p fl (int n) R \<and> alike s s'"
proof -
  let ?rs = "map R [0..<n]"
  have list: "bt_list s M p fl ?rs"
    using assms(1,2) by (auto simp: bt_list_def)
  have all: "takeWhile (\<lambda>r. key_of r < k) ?rs = ?rs" "length ?rs = n"
    using assms(4) by (intro takeWhile_eq_all_conv [THEN iffD2]) auto
  obtain s' where "bp_findSlotBefore fuel (const_of k) p s = (Inr (int n - 1), s')" "bt_list s' M p fl ?rs" "alike s s'"
    using bp_findSlotBefore_ok [OF list assms(3), of fuel, unfolded all] assms(5) by blast
  with bt_alike [OF _ bt_list_ready assms(1)] show ?thesis by blast
qed

lemma bt_key:
  assumes "bt_ready s M p fl n R" "i < bt_slots (blocksize s) (bp_layout p)" "field_val (bp_layout p) ''dataval'' k"
  shows "\<exists>s'. bp_getDataVal (int i) p s = (Inr (const_of (key_of (R i))), s') \<and> bt_ready s' M p fl n R \<and> alike s s'"
    "val_kind (key_of (R i)) = val_kind k"
proof -
  note d = bt_readyD [OF assms(1)]
  note kr = key_row [OF bt_view_typed [OF d(6) assms(2)] assms(3)]
  obtain fi where "map_of (sch_info (lay_schema (bp_layout p))) ''dataval'' = Some fi"
    using assms(3) by (auto simp: field_val_def split: option.splits)
  then show "val_kind (key_of (R i)) = val_kind k"
    using kr(2) d(4) by (auto simp: bt_lay_def)
  from bp_getValue_ok [OF assms(1,2) kr(1)] show
    "\<exists>s'. bp_getDataVal (int i) p s = (Inr (const_of (key_of (R i))), s') \<and> bt_ready s' M p fl n R \<and> alike s s'"
    by (simp add: bp_getDataVal_def)
qed

lemma dr_findChildBlock_last:
  assumes "bt_ready s M p fl (int n) R" "0 < n" "n < bt_slots (blocksize s) (bp_layout p)" "field_val (bp_layout p) ''dataval'' k"
    and "\<forall>i < n. key_of (R i) < k" "n < fuel" "R (if key_of (R n) = k then n else n - 1) ''block'' = Some (VInt b)"
  shows "\<exists>s'. dr_findChildBlock fuel (const_of k) \<lparr>dr_layout = bp_layout p, dr_contents = p, dr_fileName = fn\<rparr> s = (Inr (BlockId fn b), s') \<and>
    bt_ready s' M p fl (int n) R \<and> alike s s'"
proof -
  have n: "n \<le> bt_slots (blocksize s) (bp_layout p)" "int n - 1 + 1 = int n" "int n - 1 = int (n - 1)"
    using assms(2,3) by simp_all
  obtain s1 where s1: "bp_findSlotBefore fuel (const_of k) p s = (Inr (int n - 1), s1)" "bt_ready s1 M p fl (int n) R" "alike s s1"
    using bp_find_before [OF assms(1) n(1) assms(4-6)] by blast
  have sl1: "n < bt_slots (blocksize s1) (bp_layout p)"
    using assms(3) bt_slots_same(1) [OF s1(3)] by simp
  note key = bt_key [OF s1(2) sl1 assms(4)]
  obtain s2 where s2: "bp_getDataVal (int n) p s1 = (Inr (const_of (key_of (R n))), s2)" "bt_ready s2 M p fl (int n) R" "alike s1 s2"
    using key(1) by blast
  let ?i = "if key_of (R n) = k then n else n - 1"
  have "?i < bt_slots (blocksize s2) (bp_layout p)"
    using sl1 bt_slots_same(1) [OF s2(3)] by auto
  note get = bp_getInt_ok [OF s2(2) this assms(7)]
  have i: "int ?i = (if key_of (R n) = k then int n else int n - 1)"
    unfolding n(3) by (rule if_distrib)
  from get obtain s3 where s3: "bp_getInt (if key_of (R n) = k then int n else int n - 1) ''block'' p s2 = (Inr b, s3)"
      "bt_ready s3 M p fl (int n) R" "alike s2 s3"
    unfolding i by blast
  have "dr_findChildBlock fuel (const_of k) \<lparr>dr_layout = bp_layout p, dr_contents = p, dr_fileName = fn\<rparr> s = (Inr (BlockId fn b), s3)"
    using s1(1) s2(1) s3(1) const_cmp(1) [OF key(2)]
    unfolding dr_findChildBlock_def bdir.simps
    by (cases "key_of (R n) = k") (simp_all add: cmd_simps bp_getChildNum_def)
  with s3(2) alike_trans [OF alike_trans [OF s1(3) s2(3)] s3(3)] show ?thesis by blast
qed

section \<open>An index in use\<close>

text \<open>A formatted block at the end of a file.\<close>

lemma bt_only_pool: "bt_only s s' b \<Longrightarrow> blocksize s' = blocksize s \<and> length (pool s') = length (pool s)"
  by (simp add: bt_only_def written_def)

lemma fresh_page:
  fixes s :: "'a tx_scheme"
  assumes "ready s M" "size M < length (pool s)" "fn \<noteq> logFileName s" "fn \<noteq> []" "bt_lay l" "loggable (blocksize s) l fn"
    and "8 \<le> blocksize s"
  shows "\<exists>s' :: 'a tx_scheme. ready s' (add_mset (BlockId fn (fm_length fn s)) M) \<and>
    bt_ready s' (add_mset (BlockId fn (fm_length fn s)) M) \<lparr>bp_blk = BlockId fn (fm_length fn s), bp_layout = l\<rparr> 0 0 (\<lambda>_. zero_row l) \<and>
    blocksize s' = blocksize s \<and> length (pool s') = length (pool s)"
proof -
  let ?b = "BlockId fn (fm_length fn s)"
  obtain s1 where s1: "tx_append fn s = (Inr ?b, s1)" "ready s1 M" "appended s s1 fn"
    using ready_append [OF assms(1,3,4)] by blast
  have db: "data_blk s ?b"
    using fm_length_nonneg assms(3,4) ready_tx_ok [OF assms(1)]
    by (auto simp: data_blk_def tx_ok_def bm_log_def dest: log_state_fm_inv)
  then have a1: "view s1 ?b = page_new (blocksize s)" "blocksize s1 = blocksize s" "data_blk s1 ?b"
      "number ?b < fm_length (fileName ?b) s1" "length (pool s1) = length (pool s)"
    using s1(3) assms(3) by (simp_all add: appended_def data_blk_def)
  have "size M < length (pool s1)"
    using assms(2) a1(5) by simp
  from ready_pin [OF s1(2) this a1(3,4)] obtain s2 where s2: "ready s2 (add_mset ?b M)" "alike s1 s2"
    by blast
  have "lay_ok l"
    using assms(5) by (simp add: bt_lay_def)
  from bt_view_new [OF this assms(7) ready_bounds(1) [OF assms(1)]]
  have "bt_ready s2 (add_mset ?b M) \<lparr>bp_blk = ?b, bp_layout = l\<rparr> 0 0 (\<lambda>_. zero_row l)"
    using s2 assms(5,6) a1 by (simp add: bt_ready_def alike_def)
  moreover have "blocksize s2 = blocksize s" "length (pool s2) = length (pool s)"
    using s2(2) a1 by (simp_all add: alike_def)
  ultimately show ?thesis
    using s2(1) by blast
qed

lemma fresh_leaf:
  fixes s :: "'a tx_scheme"
  assumes "ready s M" "size M < length (pool s)" "fn \<noteq> logFileName s" "fn \<noteq> []" "bt_lay l" "loggable (blocksize s) l fn"
    and "8 \<le> blocksize s"
  shows "\<exists>s' :: 'a tx_scheme. ready s' M \<and> bt_stored s' (BlockId fn (fm_length fn s)) l (- 1) [] \<and> blocksize s' = blocksize s \<and>
    length (pool s') = length (pool s)"
proof -
  let ?b = "BlockId fn (fm_length fn s)"
  let ?p = "\<lparr>bp_blk = ?b, bp_layout = l\<rparr>"
  obtain s1 :: "'a tx_scheme" where s1: "bt_ready s1 (add_mset ?b M) ?p 0 0 (\<lambda>_. zero_row (bp_layout ?p))" "blocksize s1 = blocksize s"
      "length (pool s1) = length (pool s)"
    using fresh_page [OF assms] by auto
  have flag: "int32 (- 1)" by (simp add: int32_def)
  obtain s2 where s2: "bt_list s2 (add_mset ?b M) ?p (- 1) []" "bt_only s1 s2 ?b"
    using bp_format_ok [OF s1(1) refl lessI flag] by auto
  have "bt_list s2 (add_mset (bp_blk ?p) M) ?p (- 1) []"
    using s2(1) by simp
  from bp_close_ok [OF this] obtain s3 where s3: "ready s3 M" "alike s2 s3" by blast
  have "bt_stored s3 ?b l (- 1) []"
    using bt_stored_alike [OF s3(2) bt_list_stored [OF s2(1)]] by simp
  moreover have "blocksize s3 = blocksize s" "length (pool s3) = length (pool s)"
    using s1(2,3) s2(2) s3(2) by (simp_all add: alike_def bt_only_def written_def)
  ultimately show ?thesis
    using s3(1) by blast
qed

text \<open>The layouts of an index on an integer field.\<close>

definition ix_leaf_layout :: layout where
  "ix_leaf_layout = (case ix_createIndexLayout ''id'' (lay_schema demo_layout) of Inr l \<Rightarrow> l | Inl _ \<Rightarrow> demo_layout)"

definition ix_dir_layout :: layout where
  "ix_dir_layout = (case lay_new (sch_addIntField ''dataval'' (sch_addIntField ''block'' sch_empty)) of Inr l \<Rightarrow> l | Inl _ \<Rightarrow> demo_layout)"

definition no_booleans :: "layout \<Rightarrow> bool" where
  "no_booleans l \<longleftrightarrow> list_all (\<lambda>x. fi_type (snd x) \<noteq> BOOLEAN) (sch_info (lay_schema l))"

lemma no_booleans: "lay_ok l \<Longrightarrow> no_booleans l \<Longrightarrow> bt_lay l"
  by (fastforce simp: bt_lay_def no_booleans_def list_all_iff dest: map_of_SomeD)

definition ix_check :: bool where
  "ix_check \<longleftrightarrow> no_booleans ix_leaf_layout \<and> no_booleans ix_dir_layout \<and> lay_slotSize ix_leaf_layout = 16 \<and> lay_slotSize ix_dir_layout = 12 \<and>
     map fst (sch_info (lay_schema ix_leaf_layout)) = [''block'', ''dataval'', ''id''] \<and>
     log_check 64 ix_leaf_layout ''ix'' \<and> log_check 64 ix_dir_layout ''ix'' \<and>
     list_all (\<lambda>v. leaf_entry ix_leaf_layout (VInt v) \<lparr>rid_block = 1, rid_slot = v\<rparr>) [3, 5, 9] \<and>
     field_val ix_dir_layout ''dataval'' (VInt (- 5)) \<and> field_val ix_dir_layout ''dataval'' (VInt 0) \<and>
     field_val ix_dir_layout ''block'' (VInt 7) \<and>
     zero_row ix_dir_layout ''dataval'' = Some (VInt 0) \<and> zero_row ix_dir_layout ''block'' = Some (VInt 0)"

lemma ix_check: "ix_check" by code_simp

definition three_buffers :: "tmp \<Rightarrow> bool" where
  "three_buffers s \<longleftrightarrow> length (pool s) = 3 \<and> blocksize s = 64 \<and> logFileName s = ''log''"

lemma three_buffers: "three_buffers demo_tmp" by code_simp

text \<open>The leaf after the keys 5 and 3: one more record fills it.\<close>

lemma ix_layouts: "bt_lay ix_leaf_layout" "leaf_lay ix_leaf_layout" "bt_lay ix_dir_layout"
proof -
  let ?leaf = "sch_addIntField ''dataval'' (sch_addIntField ''id'' (sch_addIntField ''block'' sch_empty))"
    and ?dir = "sch_addIntField ''dataval'' (sch_addIntField ''block'' sch_empty)"
  note c = ix_check [unfolded ix_check_def]
  have "sch_ok ?leaf" "sch_ok ?dir"
    by (simp_all add: sch_addIntField_def sch_ok_addField)
  moreover have "ix_createIndexLayout ''id'' (lay_schema demo_layout) = lay_new ?leaf" "\<not> isl (lay_new ?leaf)" "\<not> isl (lay_new ?dir)"
    by code_simp+
  then have "lay_new ?leaf = Inr ix_leaf_layout" "lay_new ?dir = Inr ix_dir_layout"
    by (auto simp: ix_leaf_layout_def ix_dir_layout_def split: sum.splits)
  ultimately have "lay_ok ix_leaf_layout" "lay_ok ix_dir_layout"
    using lay_new_ok by blast+
  with c show "bt_lay ix_leaf_layout" "bt_lay ix_dir_layout"
    by (simp_all add: no_booleans)
  show "leaf_lay ix_leaf_layout"
    using c by (simp add: leaf_lay_def lay_fields_code del: set_map) auto
qed

abbreviation ix_rid :: "int \<Rightarrow> rid" where
  "ix_rid i \<equiv> \<lparr>rid_block = 1, rid_slot = i\<rparr>"

abbreviation ix_row :: "int \<Rightarrow> row" where
  "ix_row i \<equiv> leaf_row (VInt i) (ix_rid i)"

lemma ix_slots: "bt_slots 64 ix_leaf_layout = 3" "4 < bt_slots 64 ix_dir_layout + 1"
  using ix_check by (simp_all add: ix_check_def bt_slots_def num_slots_def)

lemma two_keys:
  obtains s :: tmp and b where "ready s {#}" "length (pool s) = 3" "blocksize s = 64"
    "bt_stored s b ix_leaf_layout (- 1) [ix_row 3, ix_row 5]"
proof -
  note c = ix_check [unfolded ix_check_def, simplified] three_buffers [unfolded three_buffers_def]
  have l: "size {#} < length (pool demo_tmp)" "''ix'' \<noteq> logFileName demo_tmp" "''ix'' \<noteq> []"
      "loggable (blocksize demo_tmp) ix_leaf_layout ''ix''" "8 \<le> blocksize demo_tmp"
    using c log_check by simp_all
  let ?b = "BlockId ''ix'' (fm_length ''ix'' demo_tmp)"
  obtain s1 :: tmp where s1: "ready s1 {#}" "bt_stored s1 ?b ix_leaf_layout (- 1) []" "blocksize s1 = 64" "length (pool s1) = 3"
    using fresh_leaf [OF demo_ready l(1-3) ix_layouts(1) l(4,5)] c by auto
  have e: "leaf_entry ix_leaf_layout (VInt i) (ix_rid i)" if "i \<in> {3, 5, 9}" for i
    using c that by auto
  have "\<exists>s2. ready s2 {#} \<and> bt_stored s2 ?b ix_leaf_layout (- 1) [ix_row 5] \<and> bt_only s1 s2 ?b"
    using leaf_insert_keeps [OF s1(1) _ s1(2) ix_layouts(2) e [of 5], of 1] s1(3,4) c
    by (auto simp: no_overflow_def with_key_def below_def from_key_def)
  then obtain s2 :: tmp where s2: "ready s2 {#}" "bt_stored s2 ?b ix_leaf_layout (- 1) [ix_row 5]" "blocksize s2 = 64" "length (pool s2) = 3"
    using s1(3,4) bt_only_pool [of s1 _ ?b] by auto
  have "\<exists>s3. ready s3 {#} \<and> bt_stored s3 ?b ix_leaf_layout (- 1) [ix_row 3, ix_row 5] \<and> bt_only s2 s3 ?b"
    using leaf_insert_keeps [OF s2(1) _ s2(2) ix_layouts(2) e [of 3], of 2] s2(3,4) c
    by (auto simp: no_overflow_def with_key_def below_def from_key_def)
  then obtain s3 :: tmp where "ready s3 {#}" "bt_stored s3 ?b ix_leaf_layout (- 1) [ix_row 3, ix_row 5]" "blocksize s3 = 64" "length (pool s3) = 3"
    using s2(3,4) bt_only_pool [of s2 _ ?b] by auto
  then show thesis
    using that by blast
qed

section \<open>The properties\<close>

text \<open>C38. Inserting an entry into a leaf (find the place of the key, insert, split when the page is full): with the keys sorted
  and no overflow block to split off, the new entry goes before the first record with a key of at least its own, all pins are
  given back, and the leaf stays sorted. A full leaf whose keys are not all the same is split where the keys change: the lower
  records stay, the upper ones go to a new block at the end of the file, and the entry returned for the directory has the first key
  of the new block. Then one pin of the new block is left over. No other block changes.\<close>

theorem leaf_insert_keeps_order:
  assumes "ready s M" "Suc (Suc (size M)) < length (pool s)" "bt_stored s blk l fl rs" "leaf_lay l" "leaf_entry l k r" "no_overflow fl k rs"
    and "key_sorted rs" "length rs < bt_slots (blocksize s) l" "bt_slots (blocksize s) l < fuel"
  defines "new \<equiv> with_key (leaf_row k r) rs" and "nb \<equiv> BlockId (fileName blk) (fm_length (fileName blk) s)"
  assumes "key_of (hd new) \<noteq> key_of (last new) \<or> 8 + (int (length rs) + 2) * lay_slotSize l < blocksize s"
  shows "key_sorted new \<and>
    (if 8 + (int (length rs) + 2) * lay_slotSize l < blocksize s
     then \<exists>s'. leaf_insert fuel blk l k r s = (Inr de_null, s') \<and> ready s' M \<and> bt_stored s' blk l fl new \<and> bt_others s s' {blk}
     else \<exists>i s'. leaf_insert fuel blk l k r s = (Inr \<lparr>de_dataVal = const_of (key_of (new ! i)), de_blockNum = number nb\<rparr>, s') \<and>
       splits_at new i \<and> ready s' (add_mset nb M) \<and> bt_stored s' blk l fl (take i new) \<and> bt_stored s' nb l (- 1) (drop i new) \<and>
       bt_others s s' {blk, nb})"
proof -
  have "key_sorted new"
    using with_key_sorted [OF assms(7)] by (simp add: new_def)
  moreover have "size M < length (pool s)" "length rs < fuel"
    using assms(2,8,9) by simp_all
  note keeps = leaf_insert_keeps [OF assms(1) this(1) assms(3-6) _ this(2), folded new_def]
  note splits = leaf_insert_splits [OF assms(1-8) _ assms(9), folded new_def nb_def]
  ultimately show ?thesis
  proof (cases "8 + (int (length rs) + 2) * lay_slotSize l < blocksize s")
    case True
    with \<open>key_sorted new\<close> keeps bt_only_others [of s _ blk "{blk}"] show ?thesis
      by (auto simp del: with_key_sorted)
  next
    case False
    then have "key_of (hd new) \<noteq> key_of (last new)" "blocksize s \<le> 8 + (int (length rs) + 2) * lay_slotSize l"
      using assms(12) by simp_all
    from splits [OF this(2,1)] False \<open>key_sorted new\<close> show ?thesis
      unfolding if_not_P [OF False] by blast
  qed
qed

theorem leaf_insert_keeps_order_witness:
  "\<exists>(s :: tmp) b i s'. leaf_insert 4 b ix_leaf_layout (VInt 9) (ix_rid 9) s =
      (Inr \<lparr>de_dataVal = const_of (key_of ([ix_row 3, ix_row 5, ix_row 9] ! i)), de_blockNum = fm_length (fileName b) s\<rparr>, s') \<and>
    splits_at [ix_row 3, ix_row 5, ix_row 9] i \<and> bt_stored s' b ix_leaf_layout (- 1) (take i [ix_row 3, ix_row 5, ix_row 9])"
proof -
  note c = ix_check [unfolded ix_check_def, simplified] three_buffers [unfolded three_buffers_def]
  obtain s :: tmp and b where s: "ready s {#}" "length (pool s) = 3" "blocksize s = 64"
      "bt_stored s b ix_leaf_layout (- 1) [ix_row 3, ix_row 5]"
    by (rule two_keys)
  have new: "with_key (ix_row 9) [ix_row 3, ix_row 5] = [ix_row 3, ix_row 5, ix_row 9]"
    by (simp add: with_key_def below_def from_key_def)
  have "leaf_entry ix_leaf_layout (VInt 9) (ix_rid 9)" "no_overflow (- 1) (VInt 9) [ix_row 3, ix_row 5]"
      "key_sorted [ix_row 3, ix_row 5]" "length [ix_row 3, ix_row 5] < bt_slots (blocksize s) ix_leaf_layout"
      "bt_slots (blocksize s) ix_leaf_layout < 4" "Suc (Suc (size {#})) < length (pool s)"
    using c s ix_slots by (simp_all add: no_overflow_def key_sorted_def less_eq_val_def)
  with leaf_insert_keeps_order [OF s(1) this(6) s(4) ix_layouts(2) this(1-5)] s(3) c show ?thesis
    unfolding new by simp blast
qed

text \<open>C39. Removing an entry from a sorted leaf without overflow blocks (find the key, go through its records up to the one with the
  record identifier, remove it): exactly the first record of that key and identifier is taken out, or nothing when there is none;
  the search ends, all pins are given back and no other block changes.\<close>

theorem leaf_remove_entry:
  assumes "ready s M" "size M < length (pool s)" "bt_stored s blk l fl rs" "leaf_lay l" "leaf_entry l k r" "fl < 0" "key_sorted rs"
    and "0 < bt_slots (blocksize s) l" "length rs < fuel"
  shows "\<exists>s'. leaf_remove fuel blk l k r s = (Inr (), s') \<and> ready s' M \<and> bt_stored s' blk l fl (remove1 (leaf_row k r) rs) \<and>
    bt_others s s' {blk}"
  using leaf_remove_ok [OF assms] bt_only_others [of s _ blk "{blk}"] by fastforce

theorem leaf_remove_entry_witness:
  "\<exists>(s :: tmp) b s'. leaf_remove 4 b ix_leaf_layout (VInt 5) (ix_rid 5) s = (Inr (), s') \<and> ready s' {#} \<and>
    bt_stored s b ix_leaf_layout (- 1) [ix_row 3, ix_row 5] \<and> bt_stored s' b ix_leaf_layout (- 1) [ix_row 3]"
proof -
  note c = ix_check [unfolded ix_check_def, simplified] three_buffers [unfolded three_buffers_def]
  obtain s :: tmp and b where s: "ready s {#}" "length (pool s) = 3" "blocksize s = 64"
      "bt_stored s b ix_leaf_layout (- 1) [ix_row 3, ix_row 5]"
    by (rule two_keys)
  have "leaf_entry ix_leaf_layout (VInt 5) (ix_rid 5)" "(- 1 :: int) < 0" "key_sorted [ix_row 3, ix_row 5]"
      "0 < bt_slots (blocksize s) ix_leaf_layout" "length [ix_row 3, ix_row 5] < 4" "size {#} < length (pool s)"
    using c s ix_slots by (simp_all add: key_sorted_def less_eq_val_def)
  with leaf_remove_entry [OF s(1) this(6) s(4) ix_layouts(2) this(1-5)] s(4) show ?thesis
    by (fastforce simp: leaf_row_inject)
qed

text \<open>C40. The search of a directory page in which all keys are below the searched one should descend into the child of the last
  record. It looks at the next slot first, which is free: when that slot happens to hold the searched key, the search descends
  into the block number in the free slot. A formatted page has the key 0 and the block 0 in its free slots, so among
  negative keys the key 0 is looked up, and inserted, in block 0.\<close>

theorem directory_search_reads_free_slot:
  assumes "bt_ready s M p fl (int n) R" "0 < n" "n < bt_slots (blocksize s) (bp_layout p)" "field_val (bp_layout p) ''dataval'' k"
    and "\<forall>i < n. key_of (R i) < k" "n < fuel" "R n ''block'' = Some (VInt free)" "R (n - 1) ''block'' = Some (VInt child)"
  shows "\<exists>s'. dr_findChildBlock fuel (const_of k) \<lparr>dr_layout = bp_layout p, dr_contents = p, dr_fileName = fn\<rparr> s =
      (Inr (BlockId fn (if key_of (R n) = k then free else child)), s') \<and> bt_ready s' M p fl (int n) R \<and> alike s s'"
  using dr_findChildBlock_last [OF assms(1-6)] assms(7,8) by auto
theorem directory_search_reads_free_slot_witness:
  "\<exists>(s :: tmp) p s'. dr_findChildBlock 2 (const_of (VInt 0)) \<lparr>dr_layout = ix_dir_layout, dr_contents = p, dr_fileName = ''ix''\<rparr> s =
      (Inr (BlockId ''ix'' 0), s') \<and>
    bt_list s {#bp_blk p#} p 0 [(zero_row ix_dir_layout)(''dataval'' \<mapsto> VInt (- 5), ''block'' \<mapsto> VInt 7)]"
proof -
  note c = ix_check [unfolded ix_check_def, simplified] three_buffers [unfolded three_buffers_def]
  have l: "size {#} < length (pool demo_tmp)" "''ix'' \<noteq> logFileName demo_tmp" "''ix'' \<noteq> []"
      "loggable (blocksize demo_tmp) ix_dir_layout ''ix''" "8 \<le> blocksize demo_tmp"
    using c log_check by simp_all
  let ?z = "zero_row ix_dir_layout"
  let ?r = "?z(''dataval'' \<mapsto> VInt (- 5), ''block'' \<mapsto> VInt 7)"
  define p where "p = \<lparr>bp_blk = BlockId ''ix'' (fm_length ''ix'' demo_tmp), bp_layout = ix_dir_layout\<rparr>"
  have lay: "bp_layout p = ix_dir_layout"
    by (simp add: p_def)
  obtain s1 :: tmp where s1: "bt_ready s1 {#bp_blk p#} p 0 (int 0) (\<lambda>_. ?z)" "blocksize s1 = 64"
    using fresh_page [OF demo_ready l(1-3) ix_layouts(3) l(4,5)] c by (auto simp: p_def)
  have sl: "1 < bt_slots 64 ix_dir_layout"
    using ix_slots by simp
  have "0 < bt_slots (blocksize s1) (bp_layout p)"
    using sl s1(2) lay by simp
  note ins = bp_insert_ok [OF s1(1) order_refl this]
  from ins [unfolded if_cancel] obtain s2 :: tmp where s2': "bt_ready s2 {#bp_blk p#} p 0 (int (Suc 0)) (\<lambda>_. ?z)" "bt_only s1 s2 (bp_blk p)"
    by blast
  note s2 = s2'(1) [folded One_nat_def] trans [OF bt_only_same [OF s2'(2)] s1(2)]
  have "0 < bt_slots (blocksize s2) (bp_layout p)" "field_val (bp_layout p) ''dataval'' (VInt (- 5))"
    using sl s2(2) lay c by simp_all
  from bp_setValue_ok [OF s2(1) this] obtain s3 :: tmp where
    s3': "bt_ready s3 {#bp_blk p#} p 0 (int 1) ((\<lambda>_. ?z)(0 := ?z(''dataval'' \<mapsto> VInt (- 5))))" "bt_only s2 s3 (bp_blk p)"
    by blast
  note s3 = s3'(1) trans [OF bt_only_same [OF s3'(2)] s2(2)]
  have "0 < bt_slots (blocksize s3) (bp_layout p)" "field_val (bp_layout p) ''block'' (VInt 7)"
    using sl s3(2) lay c by simp_all
  from bp_setInt_ok [OF s3(1) this, unfolded fun_upd_same fun_upd_upd] obtain s4 :: tmp where
    s4': "bt_ready s4 {#bp_blk p#} p 0 (int 1) ((\<lambda>_. ?z)(0 := ?r))" "bt_only s3 s4 (bp_blk p)"
    by blast
  note s4 = s4'(1) trans [OF bt_only_same [OF s4'(2)] s3(2)]
  have row: "key_of ?z = VInt 0" "?z ''block'' = Some (VInt 0)" "key_of ?r = VInt (- 5)"
    using c by (simp_all add: key_of_def)
  have h: "0 < (1::nat)" "1 < bt_slots (blocksize s4) (bp_layout p)" "field_val (bp_layout p) ''dataval'' (VInt 0)"
      "\<forall>i < (1 :: nat). key_of (((\<lambda>_. ?z)(0 := ?r)) i) < VInt 0" "1 < (2::nat)" "((\<lambda>_. ?z)(0 := ?r)) (1 :: nat) ''block'' = Some (VInt 0)"
      "((\<lambda>_. ?z)(0 := ?r)) (1 - 1 :: nat) ''block'' = Some (VInt 7)"
    using sl s4(2) lay c row by simp_all
  have "bt_list s4 {#bp_blk p#} p 0 [?r]"
    using s4 h(2) by (auto simp: bt_list_def)
  with directory_search_reads_free_slot [OF s4(1) h, of "''ix''"] row(1) show ?thesis
    unfolding lay by auto
qed

end
