(* ===== verification/ParserProofs.thy ===== *)
theory ParserProofs
  imports Parsing
begin

text \<open>
  The parser ends on every list of tokens, with the fuel that the program's definitions use, and
  it reads every statement of the grammar back: statements are printed as tokens and parsed.
\<close>

section \<open>Termination\<close>

text \<open>
  \<open>reads n j m m'\<close>: on fewer than \<open>n\<close> tokens \<open>m\<close> and \<open>m'\<close> agree, do not run out of fuel, and eat at
  least \<open>j\<close> tokens when they succeed.
\<close>

definition reads :: "nat \<Rightarrow> nat \<Rightarrow> (toks, 'a) cmd \<Rightarrow> (toks, 'a) cmd \<Rightarrow> bool" where
  "reads n j m m' \<longleftrightarrow> (\<forall>ts. length ts < n \<longrightarrow> m' ts = m ts \<and>
     (case m ts of (Inl e, _) \<Rightarrow> e \<noteq> OutOfFuel | (Inr _, ts') \<Rightarrow> length ts' + j \<le> length ts))"

named_theorems reads_intros "rules for commands that read tokens"

lemma reads_ret [reads_intros]: "reads n 0 (ret x) (ret x)"
  by (simp add: reads_def cmd_simps)

lemma reads_raise: "e \<noteq> OutOfFuel \<Longrightarrow> reads n j (raise e) (raise e)"
  by (simp add: reads_def cmd_simps)

lemma reads_lift: "r \<noteq> Inl OutOfFuel \<Longrightarrow> reads n 0 (lift r) (lift r)"
  by (auto simp: reads_def cmd_simps split: sum.split)

lemma reads_none: "reads 0 j m m'"
  by (simp add: reads_def)

lemma reads_weaken:
  assumes "reads n j m m'" "n' \<le> n" "j' \<le> j"
  shows "reads n' j' m m'"
  unfolding reads_def
proof (intro allI impI)
  fix ts :: toks assume "length ts < n'"
  with assms(1,2) have "m' ts = m ts" "case m ts of (Inl e, _) \<Rightarrow> e \<noteq> OutOfFuel | (Inr _, ts') \<Rightarrow> length ts' + j \<le> length ts"
    by (simp_all add: reads_def)
  with assms(3) show "m' ts = m ts \<and> (case m ts of (Inl e, _) \<Rightarrow> e \<noteq> OutOfFuel | (Inr _, ts') \<Rightarrow> length ts' + j' \<le> length ts)"
    by (auto split: prod.splits sum.splits)
qed

lemma reads_bnd:
  assumes "reads n j m m'" "\<And>x. reads (n - j) i (f x) (f' x)"
  shows "reads n (j + i) (bnd m f) (bnd m' f')"
  unfolding reads_def
proof (intro allI impI)
  fix ts :: toks assume n: "length ts < n"
  with assms(1) have m: "m' ts = m ts" "case m ts of (Inl e, _) \<Rightarrow> e \<noteq> OutOfFuel | (Inr _, ts') \<Rightarrow> length ts' + j \<le> length ts"
    by (simp_all add: reads_def)
  show "bnd m' f' ts = bnd m f ts \<and>
    (case bnd m f ts of (Inl e, _) \<Rightarrow> e \<noteq> OutOfFuel | (Inr _, ts') \<Rightarrow> length ts' + (j + i) \<le> length ts)"
  proof (cases "m ts")
    case (Pair r ts')
    show ?thesis
    proof (cases r)
      case (Inl e)
      with Pair m show ?thesis by (simp add: cmd_simps)
    next
      case (Inr x)
      with Pair m(2) n have "length ts' < n - j" "length ts' + j \<le> length ts" by simp_all
      with assms(2) [of x] have "f' x ts' = f x ts'"
        "case f x ts' of (Inl e, _) \<Rightarrow> e \<noteq> OutOfFuel | (Inr _, ts'') \<Rightarrow> length ts'' + (j + i) \<le> length ts"
        by (fastforce simp: reads_def split: prod.splits sum.splits)+
      with Pair Inr m(1) show ?thesis by (simp add: cmd_simps)
    qed
  qed
qed

text \<open>The cases of the rule: a first command that eats a token, one that may eat none.\<close>

lemma reads_eat_bnd [reads_intros]: "reads n 1 m m' \<Longrightarrow> (\<And>x. reads (n - 1) 0 (f x) (f' x)) \<Longrightarrow> reads n 1 (bnd m f) (bnd m' f')"
  using reads_bnd [of n 1 m m' 0 f f'] by simp

lemma reads_eat_seq [reads_intros]: "reads n 1 m m1 \<Longrightarrow> reads (n - 1) 0 m' m1' \<Longrightarrow> reads n 1 (seq m m') (seq m1 m1')"
  unfolding seq_def by (rule reads_eat_bnd)

lemma reads_bnd0 [reads_intros]: "reads n 0 m m' \<Longrightarrow> (\<And>x. reads n 0 (f x) (f' x)) \<Longrightarrow> reads n 0 (bnd m f) (bnd m' f')"
  using reads_bnd [of n 0 m m' 0 f f'] by simp

lemma reads_seq0 [reads_intros]: "reads n 0 m m1 \<Longrightarrow> reads n 0 m' m1' \<Longrightarrow> reads n 0 (seq m m') (seq m1 m1')"
  unfolding seq_def by (rule reads_bnd0)

lemma reads_gets: "(\<And>x. reads n j (f x) (f' x)) \<Longrightarrow> reads n j (bnd (gets g) f) (bnd (gets g) f')"
  by (simp add: reads_def bnd_def gets_def)

lemma reads_if [reads_intros]: "reads n j m1 m1' \<Longrightarrow> reads n j m2 m2' \<Longrightarrow> reads n j (if b then m1 else m2) (if b then m1' else m2')"
  by simp

lemma reads_case_prod [reads_intros]: "(\<And>x y. reads n j (f x y) (f' x y)) \<Longrightarrow> reads n j (case p of (x, y) \<Rightarrow> f x y) (case p of (x, y) \<Rightarrow> f' x y)"
  by (cases p) simp

lemma reads_some: "reads n 1 m m' \<Longrightarrow> reads n 0 m m'"
  by (erule reads_weaken) simp_all

text \<open>The lexer.\<close>

lemma ttype_Nil [simp]: "tk_ttype [] = ''EOF''"
  by (simp add: tk_ttype_def)

lemma ttype_nonempty: "tk_ttype ts = ''NUMBER'' \<or> tk_ttype ts = ''WORD'' \<or> first_char (tk_ttype ts) = QUOTE \<Longrightarrow> ts \<noteq> []"
  by (auto simp: tk_ttype_def first_char_def QUOTE_def)

lemma eat_one: "ts \<noteq> [] \<Longrightarrow> length (tk_nextToken ts) + 1 \<le> length ts"
  by (cases ts) (simp_all add: tk_nextToken_def)

lemma reads_eatDelimiter: "d \<noteq> CHR ''E'' \<Longrightarrow> reads n 1 (lx_eatDelimiter d) (lx_eatDelimiter d)"
  unfolding reads_def
proof (intro allI impI conjI refl)
  fix ts :: toks assume d: "d \<noteq> CHR ''E''"
  then have "\<not> lx_matchDelimiter d []"
    by (simp add: lx_matchDelimiter_def tk_ttype_def first_char_def)
  then show "case lx_eatDelimiter d ts of (Inl e, _) \<Rightarrow> e \<noteq> OutOfFuel | (Inr _, ts') \<Rightarrow> length ts' + 1 \<le> length ts"
    using eat_one [of ts] by (cases "lx_matchDelimiter d ts"; cases "ts = []") (simp_all add: lx_eatDelimiter_def cmd_simps)
qed

lemma reads_eatKeyword [reads_intros]: "reads n 1 (lx_eatKeyword k) (lx_eatKeyword k)"
  using eat_one ttype_nonempty by (auto simp: reads_def lx_eatKeyword_def cmd_simps lx_matchKeyword_def)

lemma tk_sval_fuel: "tk_sval ts \<noteq> Inl OutOfFuel" "tk_nval ts \<noteq> Inl OutOfFuel"
  by (auto simp: tk_sval_def tk_nval_def ck_def split: list.split)

lemma reads_token:
  assumes "\<And>ts. match ts \<Longrightarrow> ts \<noteq> []" "\<And>ts. r ts \<noteq> Inl OutOfFuel" "e \<noteq> OutOfFuel"
    and m: "m = bnd (gets match) (\<lambda>b. if \<not> b then raise e
      else bnd (gets r) (\<lambda>r. bnd (lift r) (\<lambda>v. seq (upd tk_nextToken) (ret (f v)))))"
  shows "reads n 1 m m"
  unfolding reads_def
proof (intro allI impI conjI refl)
  fix ts :: toks
  show "case m ts of (Inl e, _) \<Rightarrow> e \<noteq> OutOfFuel | (Inr _, ts') \<Rightarrow> length ts' + 1 \<le> length ts"
  proof (cases "match ts")
    case False
    with assms(3) show ?thesis by (simp add: m cmd_simps)
  next
    case True
    then show ?thesis
      using eat_one [OF assms(1) [OF True]] assms(2) [of ts] by (cases "r ts") (auto simp: m cmd_simps)
  qed
qed

lemma reads_eatIdentifier [reads_intros]: "reads n 1 lx_eatIdentifier lx_eatIdentifier"
  by (rule reads_token [where f = "\<lambda>x. x"]; (rule lx_eatIdentifier_def)?)
    (auto simp: tk_sval_fuel lx_matchIdentifier_def)

lemma reads_eatString [reads_intros]: "reads n 1 lx_eatString lx_eatString"
  by (rule reads_token; (rule lx_eatString_def)?) (auto simp: tk_sval_fuel lx_matchString_def first_char_def QUOTE_def)

lemma reads_eatInteger [reads_intros]: "reads n 1 lx_eatInteger lx_eatInteger"
  by (rule reads_token [where f = "\<lambda>x. x"]; (rule lx_eatInteger_def)?)
    (auto simp: tk_sval_fuel lx_matchInteger_def)

text \<open>The parser.\<close>

lemma reads_delims [reads_intros]:
  "reads n 1 (lx_eatDelimiter CHR '','') (lx_eatDelimiter CHR '','')" "reads n 1 (lx_eatDelimiter CHR ''='') (lx_eatDelimiter CHR ''='')"
  "reads n 1 (lx_eatDelimiter CHR ''('') (lx_eatDelimiter CHR ''('')" "reads n 1 (lx_eatDelimiter CHR '')'') (lx_eatDelimiter CHR '')'')"
  by (rule reads_eatDelimiter, simp)+

lemma reads_gets0 [reads_intros]: "reads n 0 (gets g) (gets g)"
  by (simp add: reads_def gets_def)

lemma reads_fieldName [reads_intros]: "reads n 1 ps_fieldName ps_fieldName"
  unfolding ps_fieldName_def by (rule reads_eatIdentifier)

lemma reads_constant [reads_intros]: "reads n 1 ps_constant ps_constant"
  unfolding ps_constant_def by (rule reads_gets) (intro reads_intros)

lemmas reads_atoms0 [reads_intros] = reads_delims [THEN reads_some] reads_eatKeyword [THEN reads_some]
  reads_eatIdentifier [THEN reads_some] reads_eatInteger [THEN reads_some] reads_fieldName [THEN reads_some]
  reads_constant [THEN reads_some]

lemma reads_expression [reads_intros]: "reads n 1 ps_expression ps_expression"
  unfolding ps_expression_def by (rule reads_gets) (intro reads_intros)

lemma reads_term [reads_intros]: "reads n 1 ps_term ps_term"
  unfolding ps_term_def by (intro reads_intros reads_expression [THEN reads_some])

text \<open>A loop: the two amounts of fuel are both at least the bound on the tokens.\<close>

lemma reads_predicate: "n \<le> fuel \<Longrightarrow> n \<le> fuel' \<Longrightarrow> reads n 1 (ps_predicate fuel) (ps_predicate fuel')"
proof (induction fuel arbitrary: n fuel')
  case 0
  then show ?case by (simp add: reads_none)
next
  case (Suc fuel)
  show ?case
  proof (cases fuel')
    case 0
    with Suc.prems show ?thesis by (simp add: reads_none)
  next
    case (Suc f)
    with Suc.prems Suc.IH [of "n - 1" f] have "reads (n - 1) 1 (ps_predicate fuel) (ps_predicate f)" by simp
    then show ?thesis
      unfolding Suc ps_predicate.simps by (intro reads_intros) (rule reads_some)
  qed
qed

lemma reads_list:
  assumes "\<And>n. reads n 1 item item"
  shows "n \<le> fuel \<Longrightarrow> n \<le> fuel' \<Longrightarrow> reads n 1 (ps_list fuel item) (ps_list fuel' item)"
proof (induction fuel arbitrary: n fuel')
  case 0
  then show ?case by (simp add: reads_none)
next
  case (Suc fuel)
  show ?case
  proof (cases fuel')
    case 0
    with Suc.prems show ?thesis by (simp add: reads_none)
  next
    case (Suc f)
    with Suc.prems Suc.IH [of "n - 1" f] have "reads (n - 1) 1 (ps_list fuel item) (ps_list f item)" by simp
    then show ?thesis
      unfolding Suc ps_list.simps by (intro reads_intros assms) (rule reads_some)
  qed
qed

lemma reads_lists:
  assumes "n \<le> fuel" "n \<le> fuel'"
  shows "reads n 1 (ps_selectList fuel) (ps_selectList fuel')" "reads n 1 (ps_fieldList fuel) (ps_fieldList fuel')"
    "reads n 1 (ps_constantList fuel) (ps_constantList fuel')"
    "reads n 0 (ps_byList fuel k) (ps_byList fuel' k)" "reads n 0 (ps_where fuel) (ps_where fuel')"
proof -
  note l = reads_list [OF reads_fieldName assms] reads_list [OF reads_constant assms]
  show "reads n 1 (ps_selectList fuel) (ps_selectList fuel')" and f: "reads n 1 (ps_fieldList fuel) (ps_fieldList fuel')"
    "reads n 1 (ps_constantList fuel) (ps_constantList fuel')"
    using l by (simp_all add: ps_selectList_def ps_fieldList_def ps_constantList_def)
  show "reads n 0 (ps_byList fuel k) (ps_byList fuel' k)"
    unfolding ps_byList_def by (intro reads_intros f [THEN reads_some])
  show "reads n 0 (ps_where fuel) (ps_where fuel')"
    unfolding ps_where_def by (intro reads_intros reads_predicate [THEN reads_some] assms)
qed

lemma reads_query:
  "n \<le> fuel \<Longrightarrow> n \<le> fuel' \<Longrightarrow> reads n 1 (ps_query fuel) (ps_query fuel')"
  "n \<le> fuel \<Longrightarrow> n \<le> fuel' \<Longrightarrow> reads n 1 (ps_tableItem fuel td) (ps_tableItem fuel' td)"
  "n \<le> fuel \<Longrightarrow> n \<le> fuel' \<Longrightarrow> reads n 0 (ps_tableLoop fuel td) (ps_tableLoop fuel' td)"
proof (induction fuel arbitrary: n fuel' td)
  case 0
  { case 1 then show ?case by (simp add: reads_none)
  next case 2 then show ?case by (simp add: reads_none)
  next case 3 then show ?case by (simp add: reads_none) }
next
  case (Suc fuel)
  have IH: "reads (n - 1) 1 (ps_query fuel) (ps_query f)" "reads (n - 1) 1 (ps_tableItem fuel td) (ps_tableItem f td)"
    "reads (n - 1) 0 (ps_tableLoop fuel td) (ps_tableLoop f td)"
    if "n \<le> Suc fuel" "n \<le> Suc f" for n f td
    using Suc.IH [of "n - 1" f] that by simp_all
  { case 1
    show ?case
    proof (cases fuel')
      case 0
      with 1 show ?thesis by (simp add: reads_none)
    next
      case (Suc f)
      with 1 have n: "n - 1 \<le> fuel" "n - 1 \<le> f" by simp_all
      show ?thesis
        unfolding Suc ps_query.simps ps_groupFieldList_def ps_sortFieldList_def
        using IH [of n f] 1 Suc by (intro reads_intros reads_lists n reads_lists(1) [THEN reads_some] reads_some IH) simp_all
    qed
  next
    case 2
    show ?case
    proof (cases fuel')
      case 0
      with 2 show ?thesis by (simp add: reads_none)
    next
      case (Suc f)
      with 2 have n: "n \<le> Suc fuel" "n \<le> Suc f" by simp_all
      show ?thesis
        unfolding Suc ps_tableItem.simps by (rule reads_gets) (intro reads_intros reads_some [OF IH(1) [OF n]])
    qed
  next
    case 3
    show ?case
    proof (cases fuel')
      case 0
      with 3 show ?thesis by (simp add: reads_none)
    next
      case (Suc f)
      with 3 have n: "n \<le> Suc fuel" "n \<le> Suc f" by simp_all
      have "reads (n - 1) 0 (bnd (ps_tableItem fuel td) (ps_tableLoop fuel)) (bnd (ps_tableItem f td) (ps_tableLoop f))"
        by (intro reads_bnd0 reads_some [OF IH(2) [OF n]] IH(3) [OF n])
      then have "reads n 1 (seq (lx_eatDelimiter CHR '','') (bnd (ps_tableItem fuel td) (ps_tableLoop fuel)))
          (seq (lx_eatDelimiter CHR '','') (bnd (ps_tableItem f td) (ps_tableLoop f)))"
        by (intro reads_eat_seq reads_delims)
      from reads_some [OF this] show ?thesis
        unfolding Suc ps_tableLoop.simps by (intro reads_gets reads_if reads_ret)
    qed
  }
qed

lemma sch_addAll_fuel: "sch_addAll from sch \<noteq> Inl OutOfFuel"
proof -
  have "sch_add f from sch \<noteq> Inl OutOfFuel" for f sch
    by (auto simp: sch_add_def sch_fieldType_def sch_fieldLength_def split: option.split)
  then have "sch_add_list fs from sch \<noteq> Inl OutOfFuel" for fs
    by (induction fs arbitrary: sch) (simp, metis rbind.simps sch_add_list.simps(2) sum.exhaust)
  then show ?thesis by (simp add: sch_addAll_def)
qed

lemma reads_fieldDefinition: "reads n 1 ps_fieldDefinition ps_fieldDefinition"
  unfolding ps_fieldDefinition_def ps_fieldType_def by (intro reads_intros)

lemma reads_fieldDefinitionList:
  "n \<le> fuel \<Longrightarrow> n \<le> fuel' \<Longrightarrow> reads n 1 (ps_fieldDefinitionList fuel) (ps_fieldDefinitionList fuel')"
proof (induction fuel arbitrary: n fuel')
  case 0
  then show ?case by (simp add: reads_none)
next
  case (Suc fuel)
  show ?case
  proof (cases fuel')
    case 0
    with Suc.prems show ?thesis by (simp add: reads_none)
  next
    case (Suc f)
    with Suc.prems Suc.IH [of "n - 1" f] have "reads (n - 1) 1 (ps_fieldDefinitionList fuel) (ps_fieldDefinitionList f)" by simp
    then show ?thesis
      unfolding Suc ps_fieldDefinitionList.simps
      by (intro reads_intros reads_fieldDefinition reads_lift sch_addAll_fuel) (rule reads_some)
  qed
qed

lemma reads_updateCmd:
  assumes "n \<le> fuel" "n \<le> fuel'"
  shows "reads n 1 (ps_updateCmd fuel) (ps_updateCmd fuel')"
proof -
  have n: "n - 1 \<le> fuel" "n - 1 \<le> fuel'" using assms by simp_all
  note lists = reads_lists [OF n] reads_lists(1-3) [OF n, THEN reads_some] reads_query(1) [OF n, THEN reads_some]
    reads_fieldDefinitionList [OF n, THEN reads_some]
  have "reads n 1 (ps_insert fuel) (ps_insert fuel')" "reads n 1 (ps_remove fuel) (ps_remove fuel')"
    "reads n 1 (ps_modify fuel) (ps_modify fuel')" "reads n 1 (ps_create fuel) (ps_create fuel')"
    unfolding ps_insert_def ps_remove_def ps_modify_def ps_create_def ps_createTable_def ps_createView_def ps_createIndex_def
    by (intro reads_intros lists)+
  then show ?thesis
    unfolding ps_updateCmd_def by (intro reads_gets reads_case_prod reads_if reads_eat_bnd reads_ret)
qed


section \<open>Statements as tokens\<close>

text \<open>
  The grammar as a printer: the tokens of a statement. Identifiers and words of the language are
  lower case; a word is a token of its own, and so is every parenthesis.
\<close>

definition word :: "string \<Rightarrow> bool" where
  "word t \<longleftrightarrow> list_all is_alnum t \<and> \<not> list_all is_digit t \<and> to_lower t = t"

definition ident :: "string \<Rightarrow> bool" where
  "ident f \<longleftrightarrow> word f \<and> f \<notin> set keyword_list"

definition const_tok :: "const \<Rightarrow> string" where
  "const_tok c = (case ival c of Some i \<Rightarrow> show_int i | None \<Rightarrow> [QUOTE] @ the (sval c) @ [QUOTE])"

definition lit :: "const \<Rightarrow> bool" where
  "lit c \<longleftrightarrow> (\<exists>i. 0 \<le> i \<and> i < 2 ^ 31 \<and> c = const_int i) \<or> (\<exists>x. to_lower x = x \<and> c = const_str x)"

definition expr_tok :: "expr \<Rightarrow> string" where
  "expr_tok e = (if ex_isFieldName e then ex_field e else const_tok (ex_value e))"

definition expr_ok :: "expr \<Rightarrow> bool" where
  "expr_ok e \<longleftrightarrow> (\<exists>f. ident f \<and> e = ex_name f) \<or> (\<exists>c. lit c \<and> e = ex_const c)"

fun sep_by :: "string \<Rightarrow> toks list \<Rightarrow> toks" where
  "sep_by s [] = []"
| "sep_by s [x] = x"
| "sep_by s (x # y # xs) = x @ s # sep_by s (y # xs)"

definition comma_list :: "string list \<Rightarrow> toks" where
  "comma_list xs = sep_by '','' (map (\<lambda>x. [x]) xs)"

definition term_toks :: "sterm \<Rightarrow> toks" where
  "term_toks t = [expr_tok (lhs t), ''='', expr_tok (rhs t)]"

definition where_toks :: "pred \<Rightarrow> toks" where
  "where_toks p = (if p = [] then [] else ''where'' # sep_by ''and'' (map term_toks p))"

definition by_toks :: "string \<Rightarrow> string list \<Rightarrow> toks" where
  "by_toks k fs = (if fs = [] then [] else k # ''by'' # comma_list fs)"

text \<open>Numbers.\<close>

lemma digit_char:
  assumes "d < 10"
  shows "is_digit (char_of (48 + d)) \<and> int (of_char (char_of (48 + d))) - 48 = int d"
proof -
  have "list_all (\<lambda>d. is_digit (char_of (48 + d)) \<and> int (of_char (char_of (48 + d))) - 48 = int d) [0..<10]"
    by code_simp
  with assms show ?thesis by (simp add: list_all_iff)
qed

lemma show_nat_digits: "show_nat n \<noteq> [] \<and> (\<forall>c \<in> set (show_nat n). is_digit c) \<and> digits_val (show_nat n) = int n"
proof (induction n rule: show_nat.induct)
  case (1 n)
  show ?case
  proof (cases "n < 10")
    case True
    with digit_char [OF True] show ?thesis
      by (subst (1 2 3) show_nat.simps) (simp add: digits_val_def)
  next
    case False
    have "n mod 10 < 10" by simp
    from digit_char [OF this] 1 [OF False] False show ?thesis
      by (subst (1 2 3) show_nat.simps) (simp add: digits_val_def, presburger)
  qed
qed

text \<open>Classes of tokens.\<close>

lemma word_tok:
  assumes "word t"
  shows "tk_ttype (t # r) = ''WORD''" "tk_sval (t # r) = Inr t"
  using assms by (auto simp: word_def tk_ttype_def tk_sval_def list_all_iff)

lemma word_matches:
  assumes "word t"
  shows "lx_matchKeyword k (t # r) \<longleftrightarrow> k = t" "lx_matchIdentifier (t # r) \<longleftrightarrow> t \<notin> set keyword_list"
    "\<not> lx_matchString (t # r)" "\<not> lx_matchInteger (t # r)" "d \<noteq> CHR ''W'' \<Longrightarrow> \<not> lx_matchDelimiter d (t # r)"
  using word_tok [OF assms]
  by (auto simp: lx_matchKeyword_def lx_matchIdentifier_def lx_matchString_def lx_matchInteger_def lx_matchDelimiter_def first_char_def QUOTE_def)

lemma number_matches:
  assumes "t \<noteq> []" "\<forall>c \<in> set t. is_digit c"
  shows "\<not> lx_matchKeyword k (t # r)" "\<not> lx_matchIdentifier (t # r)" "\<not> lx_matchString (t # r)" "lx_matchInteger (t # r)"
  using assms
  by (auto simp: lx_matchKeyword_def lx_matchIdentifier_def lx_matchString_def lx_matchInteger_def tk_ttype_def first_char_def QUOTE_def)

lemma quote_class: "\<not> is_digit QUOTE" "\<not> is_alnum QUOTE" "lower_char QUOTE = QUOTE"
  by code_simp+

lemma string_matches:
  "\<not> lx_matchKeyword k (([QUOTE] @ x @ [QUOTE]) # r)" "\<not> lx_matchIdentifier (([QUOTE] @ x @ [QUOTE]) # r)"
  "lx_matchString (([QUOTE] @ x @ [QUOTE]) # r)"
proof -
  have "tk_ttype (([QUOTE] @ x @ [QUOTE]) # r) = [QUOTE]"
    by (simp add: quote_class tk_ttype_def)
  then show "\<not> lx_matchKeyword k (([QUOTE] @ x @ [QUOTE]) # r)" "\<not> lx_matchIdentifier (([QUOTE] @ x @ [QUOTE]) # r)"
    "lx_matchString (([QUOTE] @ x @ [QUOTE]) # r)"
    unfolding lx_matchKeyword_def lx_matchIdentifier_def lx_matchString_def by (simp_all add: first_char_def QUOTE_def)
qed

lemma delim_toks:
  "tk_ttype ('','' # r) = '',''" "tk_ttype (''='' # r) = ''=''" "tk_ttype (''('' # r) = ''(''" "tk_ttype ('')'' # r) = '')''"
  by code_simp+

lemma delim_matches:
  "d \<in> {CHR '','', CHR ''='', CHR ''('', CHR '')''} \<Longrightarrow> lx_matchDelimiter e ([d] # r) \<longleftrightarrow> e = d"
  "d \<in> {CHR '','', CHR ''='', CHR ''('', CHR '')''} \<Longrightarrow> \<not> lx_matchKeyword k ([d] # r)"
  "d \<in> {CHR '','', CHR ''='', CHR ''('', CHR '')''} \<Longrightarrow> \<not> lx_matchIdentifier ([d] # r)"
  using delim_toks by (auto simp: lx_matchDelimiter_def lx_matchKeyword_def lx_matchIdentifier_def first_char_def)

lemma no_tokens:
  "\<not> lx_matchKeyword k []" "\<not> lx_matchIdentifier []" "d \<noteq> CHR ''E'' \<Longrightarrow> \<not> lx_matchDelimiter d []"
  by (auto simp: lx_matchDelimiter_def lx_matchKeyword_def lx_matchIdentifier_def first_char_def)

text \<open>Eating the tokens.\<close>

lemma bnd_gets [simp]: "bnd (gets g) f ts = f (g ts) ts"
  by (simp add: bnd_def gets_def)

lemma eat_keyword: "word k \<Longrightarrow> lx_eatKeyword k (k # r) = (Inr (), r)"
  by (simp add: lx_eatKeyword_def cmd_simps word_matches tk_nextToken_def)

lemma eat_delim: "d \<in> {CHR '','', CHR ''='', CHR ''('', CHR '')''} \<Longrightarrow> lx_eatDelimiter d ([d] # r) = (Inr (), r)"
  by (simp only: lx_eatDelimiter_def cmd_simps delim_matches tk_nextToken_def simp_thms if_False list.sel)

lemma eat_ident: "ident f \<Longrightarrow> lx_eatIdentifier (f # r) = (Inr f, r)"
  by (simp add: ident_def lx_eatIdentifier_def cmd_simps word_matches word_tok tk_nextToken_def)

lemma all_words: "list_all word (''group'' # ''order'' # ''by'' # keyword_list)"
  by code_simp

lemma parse_ident: "ident f \<Longrightarrow> ps_fieldName (f # r) = (Inr f, r)"
  by (simp add: ps_fieldName_def eat_ident)

lemma parse_const:
  assumes "lit c"
  shows "ps_constant (const_tok c # r) = (Inr c, r)" "\<not> lx_matchIdentifier (const_tok c # r)"
proof -
  have "ps_constant (const_tok c # r) = (Inr c, r) \<and> \<not> lx_matchIdentifier (const_tok c # r)"
  proof (cases "\<exists>x. to_lower x = x \<and> c = const_str x")
    case True
    then obtain x where x: "to_lower x = x" "const_tok c = [QUOTE] @ x @ [QUOTE]" "c = const_str x"
      by (auto simp: const_tok_def const_str_def)
    have "unquote (to_lower ([QUOTE] @ x @ [QUOTE])) = x"
      using x(1) by (simp add: unquote_def to_lower_def quote_class)
    then show ?thesis
      unfolding x(2) using string_matches [where x = x and r = r] x(3)
      by (simp add: ps_constant_def lx_eatString_def cmd_simps tk_sval_def tk_nextToken_def)
  next
    case False
    with assms obtain i where i: "0 \<le> i" "i < 2 ^ 31" "c = const_int i"
      by (auto simp: lit_def)
    then have t: "const_tok c = show_nat (nat i)"
      by (simp add: const_tok_def const_int_def show_int_def)
    have "tk_nval (show_nat (nat i) # r) = Inr i"
      using show_nat_digits [of "nat i"] i(1,2) by (simp add: tk_nval_def ck_def int32_def)
    then show ?thesis
      unfolding t using number_matches [where t = "show_nat (nat i)" and r = r] show_nat_digits [of "nat i"] i(3)
      by (simp add: ps_constant_def lx_eatInteger_def cmd_simps tk_nextToken_def)
  qed
  then show "ps_constant (const_tok c # r) = (Inr c, r)" "\<not> lx_matchIdentifier (const_tok c # r)" by simp_all
qed

lemma expr_tok_name: "ident f \<Longrightarrow> expr_tok (ex_name f) = f"
  by (auto simp: expr_tok_def ex_isFieldName_def ex_name_def ident_def word_def)

lemma parse_expr:
  assumes "expr_ok e"
  shows "ps_expression (expr_tok e # r) = (Inr e, r)"
proof (cases "\<exists>f. ident f \<and> e = ex_name f")
  case True
  then obtain f where f: "ident f" "e = ex_name f" by blast
  then have "expr_tok e = f"
    by (simp add: expr_tok_name)
  with f show ?thesis
    by (simp add: ps_expression_def cmd_simps parse_ident) (simp add: ident_def word_matches)
next
  case False
  with assms obtain c where c: "lit c" "e = ex_const c"
    by (auto simp: expr_ok_def)
  then have "expr_tok e = const_tok c"
    by (simp add: expr_tok_def ex_isFieldName_def ex_const_def)
  with parse_const [OF c(1)] c(2) show ?thesis
    by (simp add: ps_expression_def cmd_simps)
qed

lemma parse_term:
  assumes "expr_ok (lhs t)" "expr_ok (rhs t)"
  shows "ps_term (term_toks t @ r) = (Inr t, r)"
  using parse_expr [OF assms(1)] parse_expr [OF assms(2)] eat_delim [of "CHR ''=''"]
  by (simp add: ps_term_def term_toks_def cmd_simps)

text \<open>Lists: what follows must not go on with the separator.\<close>

lemma parse_predicate:
  assumes "p \<noteq> []" "\<forall>t \<in> set p. expr_ok (lhs t) \<and> expr_ok (rhs t)" "\<not> lx_matchKeyword ''and'' r" "length p \<le> fuel"
  shows "ps_predicate fuel (sep_by ''and'' (map term_toks p) @ r) = (Inr p, r)"
  using assms
proof (induction p arbitrary: fuel)
  case Nil
  then show ?case by simp
next
  case (Cons t p)
  obtain f where fuel: "fuel = Suc f"
    using Cons.prems(4) by (cases fuel) auto
  have "word ''and''" using all_words by (simp add: keyword_list_def)
  show ?case
  proof (cases p)
    case Nil
    with Cons.prems parse_term [of t] show ?thesis
      by (simp add: fuel cmd_simps)
  next
    case (Cons u q)
    have "ps_predicate f (sep_by ''and'' (map term_toks p) @ r) = (Inr p, r)"
      using Cons.IH Cons.prems fuel Cons by simp
    with Cons.prems parse_term [of t] Cons \<open>word ''and''\<close> show ?thesis
      by (simp add: fuel cmd_simps word_matches eat_keyword pr_conjoinWith_def)
  qed
qed

lemma parse_list:
  assumes "xs \<noteq> []" "\<And>x r. x \<in> set xs \<Longrightarrow> item (tok x # r) = (Inr x, r)" "\<not> lx_matchDelimiter CHR '','' r" "length xs \<le> fuel"
  shows "ps_list fuel item (comma_list (map tok xs) @ r) = (Inr xs, r)"
  using assms
proof (induction xs arbitrary: fuel)
  case Nil
  then show ?case by simp
next
  case (Cons x xs)
  obtain f where fuel: "fuel = Suc f"
    using Cons.prems(4) by (cases fuel) auto
  show ?case
  proof (cases xs)
    case Nil
    with Cons.prems show ?thesis
      by (simp add: fuel cmd_simps comma_list_def)
  next
    case (Cons y ys)
    have "ps_list f item (comma_list (map tok xs) @ r) = (Inr xs, r)"
      using Cons.IH Cons.prems fuel Cons by simp
    with Cons.prems(2) Cons eat_delim [of "CHR '',''"] delim_matches(1) [of "CHR '',''" "CHR '',''"] show ?thesis
      by (simp add: fuel cmd_simps comma_list_def)
  qed
qed


section \<open>Queries\<close>

fun query_toks :: "query_data \<Rightarrow> toks" where
  "query_toks (QueryData flds tables p groups sorts qs) =
     ''select'' # comma_list flds @
     ''from'' # sep_by '','' (map (\<lambda>t. [t]) tables @ map (\<lambda>q. ''('' # query_toks q @ ['')'']) qs) @
     where_toks p @ by_toks ''group'' groups @ by_toks ''order'' sorts"

text \<open>The tables of a query are a set: the parser lists them in order.\<close>

fun query_ok :: "query_data \<Rightarrow> bool" where
  "query_ok (QueryData flds tables p groups sorts qs) \<longleftrightarrow>
     flds \<noteq> [] \<and> list_all ident (flds @ tables @ groups @ sorts) \<and> sorted_wrt (<) tables \<and> (tables \<noteq> [] \<or> qs \<noteq> []) \<and>
     list_all (\<lambda>t. expr_ok (lhs t) \<and> expr_ok (rhs t)) p \<and> list_all query_ok qs"

definition ends :: "toks \<Rightarrow> bool" where
  "ends r \<longleftrightarrow> \<not> lx_matchDelimiter CHR '','' r \<and> (\<forall>k \<in> {''and'', ''where'', ''group'', ''order''}. \<not> lx_matchKeyword k r)"

lemma query_words: "word ''select''" "word ''from''" "word ''where''" "word ''and''" "word ''group''" "word ''order''" "word ''by''"
  using all_words by (simp_all add: keyword_list_def)

lemma parse_where:
  assumes "list_all (\<lambda>t. expr_ok (lhs t) \<and> expr_ok (rhs t)) p" "\<not> lx_matchKeyword ''and'' r" "\<not> lx_matchKeyword ''where'' r"
    "length p \<le> fuel"
  shows "ps_where fuel (where_toks p @ r) = (Inr p, r)"
  using assms parse_predicate [of p r fuel] query_words
  by (cases "p = []") (simp_all add: ps_where_def where_toks_def cmd_simps word_matches eat_keyword list_all_iff)

lemma parse_by:
  assumes "list_all ident fs" "\<not> lx_matchDelimiter CHR '','' r" "\<not> lx_matchKeyword k r" "word k" "length fs \<le> fuel"
  shows "ps_byList fuel k (by_toks k fs @ r) = (Inr fs, r)"
  using assms parse_list [of fs ps_fieldName "\<lambda>x. x" r fuel] query_words
  by (cases "fs = []") (simp_all add: ps_byList_def by_toks_def cmd_simps word_matches eat_keyword ps_fieldList_def list_all_iff parse_ident)

lemma sep_by_Cons: "sep_by s (x # xs) = x @ concat (map (\<lambda>y. s # y) xs)"
  by (induction xs arbitrary: x) auto

lemma set_put_last: "sorted_wrt (<) (xs @ [x]) \<Longrightarrow> set_put x xs = xs @ [x]"
  by (induction xs) (auto simp: sorted_wrt_append)

text \<open>Items of the list of tables, each with what it does to the data.\<close>

lemma parse_items:
  assumes "\<And>x g fuel td r. (x, g) \<in> set its \<Longrightarrow> F \<le> fuel \<Longrightarrow> ps_tableItem fuel td (x @ r) = (Inr (g td), r)"
    "\<not> lx_matchDelimiter CHR '','' r" "F + length its < fuel"
  shows "ps_tableLoop fuel td (concat (map (\<lambda>(x, g). '','' # x) its) @ r) = (Inr (fold (\<lambda>(x, g). g) its td), r)"
  using assms
proof (induction its arbitrary: fuel td)
  case Nil
  then obtain f where "fuel = Suc f" by (cases fuel) auto
  with Nil show ?case by (simp add: cmd_simps)
next
  case (Cons i its)
  obtain f where fuel: "fuel = Suc f"
    using Cons.prems(3) by (cases fuel) auto
  obtain x g where i: "i = (x, g)" by (cases i)
  have f: "F \<le> f" "F + length its < f"
    using Cons.prems(3) fuel by simp_all
  have "ps_tableItem f td (x @ s) = (Inr (g td), s)" for s
    using Cons.prems(1) [of x g f td s] f(1) i by simp
  moreover have "ps_tableLoop f (g td) (concat (map (\<lambda>(x, g). '','' # x) its) @ r) = (Inr (fold (\<lambda>(x, g). g) its (g td)), r)"
    using Cons.prems f by (intro Cons.IH) auto
  ultimately show ?case
    using eat_delim [of "CHR '',''"] delim_matches(1) [of "CHR '',''" "CHR '',''"]
    by (simp add: fuel i cmd_simps)
qed

lemma item_table: "ident t \<Longrightarrow> 1 \<le> fuel \<Longrightarrow> ps_tableItem fuel td ([t] @ r) = (Inr (td_addTableName t td), r)"
  by (cases fuel) (auto simp: cmd_simps eat_ident word_matches ident_def)

lemma ends_close: "ends ('')'' # r)"
  using delim_matches [of "CHR '')''"] by (simp add: ends_def)

lemma item_query:
  assumes "\<And>fuel r. F \<le> fuel \<Longrightarrow> ends r \<Longrightarrow> ps_query fuel (query_toks q @ r) = (Inr q, r)" "F < fuel"
  shows "ps_tableItem fuel td ((''('' # query_toks q @ ['')'']) @ r) = (Inr (td_addQueryData q td), r)"
proof -
  obtain f where f: "fuel = Suc f" "F \<le> f"
    using assms(2) by (cases fuel) auto
  have "ps_query f (query_toks q @ '')'' # r) = (Inr q, '')'' # r)"
    by (rule assms(1) [OF f(2) ends_close])
  then show ?thesis
    using eat_delim [of "CHR ''(''"] eat_delim [of "CHR '')''"] delim_matches(1) [of "CHR ''(''" "CHR ''(''"]
    by (simp add: f(1) cmd_simps)
qed

lemma fold_tables:
  "sorted_wrt (<) (td_tableNames td @ ts) \<Longrightarrow> fold td_addTableName ts td = td\<lparr>td_tableNames := td_tableNames td @ ts\<rparr>"
proof (induction ts arbitrary: td)
  case (Cons t ts)
  then have "set_put t (td_tableNames td) = td_tableNames td @ [t]"
    by (intro set_put_last) (auto simp: sorted_wrt_append)
  with Cons show ?case by (simp add: td_addTableName_def)
qed simp

lemma fold_queries: "fold td_addQueryData qs td = td\<lparr>td_queryData := td_queryData td @ qs\<rparr>"
  by (induction qs arbitrary: td) (simp_all add: td_addQueryData_def)

lemma fold_addQueryData:
  "fold qd_addQueryData qs (QueryData flds tables p g s qs') = QueryData flds tables p g s (qs' @ qs)"
  by (induction qs arbitrary: qs') (simp_all add: qd_addQueryData_def)


lemma ends_where: "\<not> lx_matchKeyword k (where_toks p @ r) \<or> k = ''where'' \<or> (p = [] \<and> lx_matchKeyword k r)"
  "\<not> lx_matchDelimiter CHR '','' r \<Longrightarrow> \<not> lx_matchDelimiter CHR '','' (where_toks p @ r)"
  using query_words by (auto simp: where_toks_def word_matches)

lemma ends_by:
  assumes "word k'"
  shows "\<not> lx_matchKeyword k (by_toks k' fs @ r) \<or> k = k' \<or> (fs = [] \<and> lx_matchKeyword k r)"
  "\<not> lx_matchDelimiter CHR '','' r \<Longrightarrow> \<not> lx_matchDelimiter CHR '','' (by_toks k' fs @ r)"
  using assms by (auto simp: by_toks_def word_matches)

lemma parse_tables:
  assumes "\<And>q fuel r. q \<in> set qs \<Longrightarrow> F \<le> fuel \<Longrightarrow> ends r \<Longrightarrow> ps_query fuel (query_toks q @ r) = (Inr q, r)"
    "list_all ident tables" "sorted_wrt (<) tables" "tables \<noteq> [] \<or> qs \<noteq> []" "\<not> lx_matchDelimiter CHR '','' r"
    "F + length tables + length qs + 1 < fuel"
  shows "bnd (ps_tableItem fuel td_empty) (ps_tableLoop fuel)
      (sep_by '','' (map (\<lambda>t. [t]) tables @ map (\<lambda>q. ''('' # query_toks q @ ['')'']) qs) @ r) =
    (Inr \<lparr>td_tableNames = tables, td_queryData = qs\<rparr>, r)"
proof -
  define its where "its = map (\<lambda>t. ([t], td_addTableName t)) tables @
    map (\<lambda>q. (''('' # query_toks q @ ['')''], td_addQueryData q)) qs"
  have item: "ps_tableItem fuel td (x @ r) = (Inr (g td), r)" if "(x, g) \<in> set its" "F + 1 \<le> fuel" for x g fuel td r
  proof -
    from that(1) consider t where "t \<in> set tables" "x = [t]" "g = td_addTableName t"
      | q where "q \<in> set qs" "x = ''('' # query_toks q @ ['')'']" "g = td_addQueryData q"
      by (auto simp: its_def)
    then show ?thesis
    proof cases
      case 1
      with item_table [of t fuel td r] that(2) assms(2) show ?thesis by (simp add: list_all_iff)
    next
      case 2
      with item_query [of F q fuel td r] that(2) assms(1) [of q] show ?thesis by simp
    qed
  qed
  have fold: "fold (\<lambda>(x, g). g) its td_empty = \<lparr>td_tableNames = tables, td_queryData = qs\<rparr>"
    using fold_tables [of td_empty tables] assms(3) by (simp add: its_def fold_map comp_def fold_queries td_empty_def)
  obtain x g its' where its': "its = (x, g) # its'"
    using assms(4) by (cases its) (auto simp: its_def)
  have toks: "map (\<lambda>t. [t]) tables @ map (\<lambda>q. ''('' # query_toks q @ ['')'']) qs = map fst its"
    by (simp add: its_def comp_def)
  have cat: "sep_by '','' (map fst its) = x @ concat (map (\<lambda>(x, g). '','' # x) its')"
    by (simp only: its' list.map fst_conv sep_by_Cons map_map) (simp add: comp_def case_prod_unfold)
  have "ps_tableItem fuel td_empty (x @ s) = (Inr (g td_empty), s)" for s
    using item [of x g fuel] assms(6) by (simp add: its')
  moreover have "ps_tableLoop fuel (g td_empty) (concat (map (\<lambda>(x, g). '','' # x) its') @ r) = (Inr (fold (\<lambda>(x, g). g) its' (g td_empty)), r)"
  proof (rule parse_items [of _ "F + 1"])
    show "F + 1 + length its' < fuel"
      using assms(6) arg_cong [OF its', of length] by (simp add: its_def)
  qed (use item its' assms(5) in auto)
  ultimately show ?thesis
    unfolding toks cat using fold by (simp add: its' cmd_simps)
qed

lemma parse_query_toks:
  "query_ok q \<Longrightarrow> \<exists>F. \<forall>fuel r. F \<le> fuel \<longrightarrow> ends r \<longrightarrow> ps_query fuel (query_toks q @ r) = (Inr q, r)"
proof (induction q rule: query_toks.induct)
  case (1 flds tables p groups sorts qs)
  from "1.prems" have ok: "flds \<noteq> []" "list_all ident flds" "list_all ident tables" "list_all ident groups" "list_all ident sorts"
    "sorted_wrt (<) tables" "tables \<noteq> [] \<or> qs \<noteq> []" "list_all (\<lambda>t. expr_ok (lhs t) \<and> expr_ok (rhs t)) p" "list_all query_ok qs"
    by simp_all
  have "\<forall>q \<in> set qs. \<exists>F. \<forall>fuel r. F \<le> fuel \<longrightarrow> ends r \<longrightarrow> ps_query fuel (query_toks q @ r) = (Inr q, r)"
    using "1.IH" ok(9) by (simp add: list_all_iff)
  then obtain Fs where Fs: "\<And>q fuel r. q \<in> set qs \<Longrightarrow> Fs q \<le> fuel \<Longrightarrow> ends r \<Longrightarrow> ps_query fuel (query_toks q @ r) = (Inr q, r)"
    by (metis (no_types))
  define F where "F = sum_list (map Fs qs)"
  have F: "ps_query fuel (query_toks q @ r) = (Inr q, r)" if "q \<in> set qs" "F \<le> fuel" "ends r" for q fuel r
    using Fs [OF that(1) _ that(3)] member_le_sum_list [of "Fs q" "map Fs qs"] that(1,2) by (simp add: F_def)
  let ?B = "F + length flds + length tables + length qs + length p + length groups + length sorts + 3"
  have "ps_query fuel (query_toks (QueryData flds tables p groups sorts qs) @ r) = (Inr (QueryData flds tables p groups sorts qs), r)"
    if fuel: "?B \<le> fuel" and r: "ends r" for fuel r
  proof -
    obtain f where f: "fuel = Suc f" "?B - 1 \<le> f"
      using fuel by (cases fuel) auto
    let ?s = "by_toks ''order'' sorts @ r"
    let ?g = "by_toks ''group'' groups @ ?s"
    let ?w = "where_toks p @ ?g"
    have d: "\<not> lx_matchDelimiter CHR '','' r" "\<not> lx_matchDelimiter CHR '','' ?s" "\<not> lx_matchDelimiter CHR '','' ?g" "\<not> lx_matchDelimiter CHR '','' ?w"
      using r by (simp_all add: ends_def ends_where(2) ends_by(2) query_words)
    have k: "\<not> lx_matchKeyword ''order'' r" "\<not> lx_matchKeyword ''group'' r" "\<not> lx_matchKeyword ''and'' r" "\<not> lx_matchKeyword ''where'' r"
      using r by (simp_all add: ends_def)
    have ks: "\<not> lx_matchKeyword ''group'' ?s" "\<not> lx_matchKeyword ''and'' ?s" "\<not> lx_matchKeyword ''where'' ?s"
      using k ends_by(1) [OF query_words(6), of _ sorts r] by auto
    have kg: "\<not> lx_matchKeyword ''and'' ?g" "\<not> lx_matchKeyword ''where'' ?g"
      using ks ends_by(1) [OF query_words(5), of _ groups ?s] by auto
    note e = d k(1) ks(1) kg
    have sel: "ps_selectList f (comma_list flds @ ''from'' # u) = (Inr flds, ''from'' # u)" for u
      using parse_list [of flds ps_fieldName "\<lambda>x. x" "''from'' # u" f] ok(1,2) f(2) query_words(2)
      by (simp add: ps_selectList_def parse_ident list_all_iff word_matches)
    have tab: "bnd (ps_tableItem f td_empty) (ps_tableLoop f)
        (sep_by '','' (map (\<lambda>t. [t]) tables @ map (\<lambda>q. ''('' # query_toks q @ ['')'']) qs) @ ?w) =
      (Inr \<lparr>td_tableNames = tables, td_queryData = qs\<rparr>, ?w)"
      using f(2) by (intro parse_tables F ok e) auto
    have "ps_where f ?w = (Inr p, ?g)" "ps_byList f ''group'' ?g = (Inr groups, ?s)" "ps_byList f ''order'' ?s = (Inr sorts, r)"
      using f(2) by (intro parse_where parse_by ok e query_words; simp)+
    with sel tab query_words show ?thesis
      by (simp add: f(1) cmd_simps eat_keyword ps_groupFieldList_def ps_sortFieldList_def fold_addQueryData)
  qed
  then show ?case by blast
qed


section \<open>Statements that change data\<close>

type_synonym column = "string \<times> int \<times> int"

definition schema_of :: "column list \<Rightarrow> schema" where
  "schema_of cs = fold (\<lambda>(f, ty, len). sch_addField f ty len) cs sch_empty"

definition columns_of :: "schema \<Rightarrow> column list" where
  "columns_of sch = map (\<lambda>f. (f, projr (sch_fieldType f sch), projr (sch_fieldLength f sch))) (sch_fields sch)"

definition column_ok :: "column \<Rightarrow> bool" where
  "column_ok c = (case c of (f, ty, len) \<Rightarrow>
     ident f \<and> (ty = INTEGER \<and> len = 0 \<or> ty = BOOLEAN \<and> len = 0 \<or> ty = VARCHAR \<and> 0 \<le> len \<and> len < 2 ^ 31))"

definition column_toks :: "column \<Rightarrow> toks" where
  "column_toks c = (case c of (f, ty, len) \<Rightarrow>
     if ty = INTEGER then [f, ''int''] else if ty = BOOLEAN then [f, ''bool''] else [f, ''varchar'', ''('', show_int len, '')''])"

fun stmt_toks :: "stmt \<Rightarrow> toks" where
  "stmt_toks (Insert d) =
     [''insert'', ''into'', id_tableName d, ''(''] @ comma_list (id_fields d) @ [('')''), ''values'', ''(''] @
     comma_list (map const_tok (id_values d)) @ ['')'']"
| "stmt_toks (Delete d) = [''delete'', ''from'', dd_tableName d] @ where_toks (dd_pred d)"
| "stmt_toks (Modify d) = [''update'', md_tableName d, ''set'', md_targetField d, ''='', expr_tok (md_newValue d)] @ where_toks (md_pred d)"
| "stmt_toks (CreateTable d) =
     [''create'', ''table'', ct_tableName d, ''(''] @ sep_by '','' (map column_toks (columns_of (ct_schema d))) @ ['')'']"
| "stmt_toks (CreateView d) = [''create'', ''view'', cv_viewName d, ''as''] @ query_toks (cv_query d)"
| "stmt_toks (CreateIndex d) =
     [''create'', ''index'', ci_indexName d, ''on'', ci_tableName d, ''('', ci_fieldName d, '')'']"

fun stmt_ok :: "stmt \<Rightarrow> bool" where
  "stmt_ok (Insert d) \<longleftrightarrow> ident (id_tableName d) \<and> id_fields d \<noteq> [] \<and> list_all ident (id_fields d) \<and>
     id_values d \<noteq> [] \<and> list_all lit (id_values d)"
| "stmt_ok (Delete d) \<longleftrightarrow> ident (dd_tableName d) \<and> list_all (\<lambda>t. expr_ok (lhs t) \<and> expr_ok (rhs t)) (dd_pred d)"
| "stmt_ok (Modify d) \<longleftrightarrow> ident (md_tableName d) \<and> ident (md_targetField d) \<and> expr_ok (md_newValue d) \<and>
     list_all (\<lambda>t. expr_ok (lhs t) \<and> expr_ok (rhs t)) (md_pred d)"
| "stmt_ok (CreateTable d) \<longleftrightarrow> ident (ct_tableName d) \<and>
     (let cs = columns_of (ct_schema d) in cs \<noteq> [] \<and> list_all column_ok cs \<and> distinct (map fst cs) \<and> ct_schema d = schema_of cs)"
| "stmt_ok (CreateView d) \<longleftrightarrow> ident (cv_viewName d) \<and> query_ok (cv_query d)"
| "stmt_ok (CreateIndex d) \<longleftrightarrow> ident (ci_indexName d) \<and> ident (ci_tableName d) \<and> ident (ci_fieldName d)"

lemma schema_add:
  assumes "distinct (map fst cs)"
  shows "sch_fields (fold (\<lambda>(f, ty, len). sch_addField f ty len) cs sch) = sch_fields sch @ map fst cs"
    "(f, ty, len) \<in> set cs \<Longrightarrow>
      map_of (sch_info (fold (\<lambda>(f, ty, len). sch_addField f ty len) cs sch)) f = Some \<lparr>fi_type = ty, fi_length = len\<rparr>"
    "f \<notin> fst ` set cs \<Longrightarrow> map_of (sch_info (fold (\<lambda>(f, ty, len). sch_addField f ty len) cs sch)) f = map_of (sch_info sch) f"
  using assms
  by (induction cs arbitrary: sch) (force simp: sch_addField_def)+

lemma addAll_columns:
  assumes "distinct (map fst cs)"
  shows "sch_addAll (schema_of cs) sch = Inr (fold (\<lambda>(f, ty, len). sch_addField f ty len) cs sch)"
proof -
  have info: "map_of (sch_info (schema_of cs)) f = Some \<lparr>fi_type = ty, fi_length = len\<rparr>" if "(f, ty, len) \<in> set cs" for f ty len
    using schema_add(2) [OF assms that] by (simp add: schema_of_def)
  have "set ds \<subseteq> set cs \<Longrightarrow> sch_add_list (map fst ds) (schema_of cs) sch =
      Inr (fold (\<lambda>(f, ty, len). sch_addField f ty len) ds sch)" for ds
    by (induction ds arbitrary: sch) (auto simp: sch_add_def sch_fieldType_def sch_fieldLength_def info)
  then show ?thesis
    using schema_add(1) [OF assms] by (simp add: sch_addAll_def schema_of_def sch_empty_def)
qed

lemma stmt_words: "word ''int''" "word ''bool''" "word ''varchar''" "word ''insert''" "word ''into''" "word ''values''" "word ''delete''"
  "word ''update''" "word ''set''" "word ''create''" "word ''table''" "word ''view''" "word ''as''" "word ''index''" "word ''on''"
  using all_words by (simp_all add: keyword_list_def)

lemma eat_number:
  assumes "0 \<le> n" "n < 2 ^ 31"
  shows "lx_eatInteger (show_int n # r) = (Inr n, r)"
proof -
  have t: "show_int n = show_nat (nat n)"
    using assms by (simp add: show_int_def)
  have "tk_nval (show_nat (nat n) # r) = Inr n"
    using show_nat_digits [of "nat n"] assms by (simp add: tk_nval_def ck_def int32_def)
  then show ?thesis
    unfolding t using number_matches [where t = "show_nat (nat n)" and r = r] show_nat_digits [of "nat n"]
    by (simp add: lx_eatInteger_def cmd_simps tk_nextToken_def)
qed

lemma parse_column:
  assumes "column_ok (f, ty, len)"
  shows "ps_fieldDefinition (column_toks (f, ty, len) @ r) = (Inr (sch_addField f ty len sch_empty), r)"
  using assms stmt_words eat_delim [of "CHR ''(''"] eat_delim [of "CHR '')''"] eat_number [of len]
  by (auto simp: column_ok_def column_toks_def ps_fieldDefinition_def ps_fieldType_def cmd_simps parse_ident word_matches eat_keyword
      sch_addIntField_def sch_addBoolField_def sch_addStringField_def INTEGER_def BOOLEAN_def VARCHAR_def)

lemma parse_columns:
  assumes "cs \<noteq> []" "list_all column_ok cs" "distinct (map fst cs)" "\<not> lx_matchDelimiter CHR '','' r" "length cs \<le> fuel"
  shows "ps_fieldDefinitionList fuel (sep_by '','' (map column_toks cs) @ r) = (Inr (schema_of cs), r)"
  using assms
proof (induction cs arbitrary: fuel)
  case Nil
  then show ?case by simp
next
  case (Cons c cs)
  obtain f where fuel: "fuel = Suc f"
    using Cons.prems(5) by (cases fuel) auto
  obtain n ty len where c: "c = (n, ty, len)" by (cases c)
  have col: "ps_fieldDefinition (column_toks (n, ty, len) @ r) = (Inr (sch_addField n ty len sch_empty), r)" for r
    using Cons.prems(2) c by (intro parse_column) simp
  show ?case
  proof (cases cs)
    case Nil
    with Cons.prems col c show ?thesis
      by (simp add: fuel cmd_simps schema_of_def)
  next
    case (Cons d ds)
    have "ps_fieldDefinitionList f (sep_by '','' (map column_toks cs) @ r) = (Inr (schema_of cs), r)"
      using Cons.IH Cons.prems fuel Cons by simp
    moreover have "sch_addAll (schema_of cs) (sch_addField n ty len sch_empty) = Inr (schema_of (c # cs))"
      using addAll_columns [of cs] Cons.prems(3) c by (simp add: schema_of_def)
    ultimately show ?thesis
      using Cons col c eat_delim [of "CHR '',''"] delim_matches(1) [of "CHR '',''" "CHR '',''"]
      by (simp add: fuel cmd_simps)
  qed
qed


section \<open>Properties\<close>

lemma ends_Nil: "ends []"
  by (simp add: ends_def no_tokens)

lemma parse_comma_idents:
  assumes "fs \<noteq> []" "list_all ident fs" "length fs \<le> fuel"
  shows "ps_fieldList fuel (comma_list fs @ '')'' # r) = (Inr fs, '')'' # r)"
  using assms parse_list [of fs ps_fieldName "\<lambda>x. x" "'')'' # r" fuel] delim_matches(1) [of "CHR '')''"]
  by (simp add: ps_fieldList_def parse_ident list_all_iff)

lemma parse_comma_consts:
  assumes "cs \<noteq> []" "list_all lit cs" "length cs \<le> fuel"
  shows "ps_constantList fuel (comma_list (map const_tok cs) @ '')'' # r) = (Inr cs, '')'' # r)"
  using assms parse_list [of cs ps_constant const_tok "'')'' # r" fuel] delim_matches(1) [of "CHR '')''"]
  by (simp add: ps_constantList_def parse_const list_all_iff)

lemma parse_stmt_toks:
  assumes "stmt_ok st"
  shows "\<exists>F. \<forall>fuel \<ge> F. fst (ps_updateCmd fuel (stmt_toks st)) =
    Inr (case st of Modify d \<Rightarrow> Modify (d\<lparr>md_newValue := ex_null, md_pred := []\<rparr>) | _ \<Rightarrow> st)"
proof (cases st)
  case (Insert d)
  have "fst (ps_updateCmd fuel (stmt_toks st)) = Inr st" if "length (id_fields d) + length (id_values d) \<le> fuel" for fuel
    using assms that Insert stmt_words eat_delim [of "CHR ''(''"] eat_delim [of "CHR '')''"]
    by (simp add: ps_updateCmd_def ps_insert_def cmd_simps word_matches eat_keyword eat_ident parse_comma_idents parse_comma_consts)
  with Insert show ?thesis by auto
next
  case (Delete d)
  have "fst (ps_updateCmd fuel (stmt_toks st)) = Inr st" if "length (dd_pred d) \<le> fuel" for fuel
    using assms that Delete stmt_words query_words parse_where [of "dd_pred d" "[]" fuel]
    by (simp add: ps_updateCmd_def ps_remove_def cmd_simps word_matches eat_keyword eat_ident no_tokens)
  with Delete show ?thesis by auto
next
  case (Modify d)
  have "\<not> lx_matchKeyword ''where'' (expr_tok (md_newValue d) # r)" for r
  proof (cases "\<exists>f. ident f \<and> md_newValue d = ex_name f")
    case True
    then obtain f where "ident f" "expr_tok (md_newValue d) = f"
      using expr_tok_name by metis
    then show ?thesis by (auto simp: ident_def word_matches keyword_list_def)
  next
    case False
    with assms Modify obtain c where c: "lit c" "expr_tok (md_newValue d) = const_tok c"
      by (auto simp: expr_ok_def expr_tok_def ex_isFieldName_def ex_const_def)
    then show ?thesis
      using string_matches(1) show_nat_digits number_matches(1)
      by (auto simp: lit_def const_tok_def const_int_def const_str_def show_int_def)
  qed
  then have "fst (ps_updateCmd fuel (stmt_toks st)) = Inr (Modify (d\<lparr>md_newValue := ex_null, md_pred := []\<rparr>))" for fuel
    using assms Modify stmt_words eat_delim [of "CHR ''=''"]
    by (simp add: ps_updateCmd_def ps_modify_def ps_where_def cmd_simps word_matches eat_keyword eat_ident parse_ident)
  with Modify show ?thesis by auto
next
  case (CreateTable d)
  let ?cs = "columns_of (ct_schema d)"
  have "fst (ps_updateCmd fuel (stmt_toks st)) = Inr st" if "length ?cs \<le> fuel" for fuel
    using assms that CreateTable stmt_words eat_delim [of "CHR ''(''"] eat_delim [of "CHR '')''"]
      parse_columns [of ?cs "['')'']" fuel] delim_matches(1) [of "CHR '')''"]
    by (simp add: ps_updateCmd_def ps_create_def ps_createTable_def cmd_simps word_matches eat_keyword eat_ident Let_def)
  with CreateTable show ?thesis by auto
next
  case (CreateView d)
  with assms obtain F where "\<And>fuel r. F \<le> fuel \<Longrightarrow> ends r \<Longrightarrow> ps_query fuel (query_toks (cv_query d) @ r) = (Inr (cv_query d), r)"
    using parse_query_toks by (metis stmt_ok.simps(5))
  from this [OF _ ends_Nil] have "fst (ps_updateCmd fuel (stmt_toks st)) = Inr st" if "F \<le> fuel" for fuel
    using assms that CreateView stmt_words
    by (simp add: ps_updateCmd_def ps_create_def ps_createView_def cmd_simps word_matches eat_keyword eat_ident)
  with CreateView show ?thesis by auto
next
  case (CreateIndex d)
  have "fst (ps_updateCmd fuel (stmt_toks st)) = Inr st" for fuel
    using assms CreateIndex stmt_words eat_delim [of "CHR ''(''"] eat_delim [of "CHR '')''"]
    by (simp add: ps_updateCmd_def ps_create_def ps_createIndex_def cmd_simps word_matches eat_keyword eat_ident parse_ident)
  with CreateIndex show ?thesis by auto
qed

lemma reads_fst:
  assumes "reads n j m m'" "length ts < n"
  shows "fst (m' ts) = fst (m ts)" "fst (m ts) \<noteq> Inl OutOfFuel"
proof -
  have "m' ts = m ts" "case m ts of (Inl e, _) \<Rightarrow> e \<noteq> OutOfFuel | (Inr _, ts') \<Rightarrow> length ts' + j \<le> length ts"
    using assms by (simp_all add: reads_def)
  then show "fst (m' ts) = fst (m ts)" "fst (m ts) \<noteq> Inl OutOfFuel"
    by (cases "m ts"; cases "fst (m ts)"; simp)+
qed

text \<open>
  C27. The parser terminates: on every string, however it is cut into tokens, one unit of fuel more
  than there are tokens is enough for the outcome of both entry points, and more fuel does not change it.
\<close>

theorem parser_terminates:
  "parse_query tokenize s \<noteq> Inl OutOfFuel \<and> parse_update tokenize s \<noteq> Inl OutOfFuel \<and>
   fst (ps_query (length (tokenize s) + 1 + n) (tokenize s)) = parse_query tokenize s \<and>
   fst (ps_updateCmd (length (tokenize s) + 1 + n) (tokenize s)) = parse_update tokenize s"
proof -
  let ?l = "length (tokenize s) + 1"
  have r: "reads ?l 1 (ps_query ?l) (ps_query (?l + n))" "reads ?l 1 (ps_updateCmd ?l) (ps_updateCmd (?l + n))"
    by (rule reads_query reads_updateCmd; simp)+
  show ?thesis
    using reads_fst [OF r(1), of "tokenize s"] reads_fst [OF r(2), of "tokenize s"]
    by (simp add: parse_query_def parse_update_def)
qed

text \<open>
  C25. The parser reads back every query of the grammar: fields, tables and nested queries, terms, group and
  order lists, when each is a token of its own.
\<close>

theorem query_parse_roundtrip:
  assumes "query_ok q" "tokenize s = query_toks q"
  shows "parse_query tokenize s = Inr q"
proof -
  obtain F where F: "\<And>fuel r. F \<le> fuel \<Longrightarrow> ends r \<Longrightarrow> ps_query fuel (query_toks q @ r) = (Inr q, r)"
    using parse_query_toks [OF assms(1)] by blast
  let ?l = "length (tokenize s) + 1"
  have "reads ?l 1 (ps_query ?l) (ps_query (?l + F))"
    by (rule reads_query) simp_all
  from reads_fst(1) [OF this, of "tokenize s"] F [OF _ ends_Nil, of "?l + F"] assms(2) show ?thesis
    by (simp add: parse_query_def)
qed

text \<open>
  C26. The parser reads back every statement of the grammar that is not an \<open>update\<close>; of an \<open>update\<close> it
  loses the new value, which stays the null expression, and with it the condition.
\<close>

theorem statement_parse_roundtrip:
  assumes "stmt_ok st" "tokenize s = stmt_toks st"
  shows "parse_update tokenize s =
    Inr (case st of Modify d \<Rightarrow> Modify (d\<lparr>md_newValue := ex_null, md_pred := []\<rparr>) | _ \<Rightarrow> st)"
proof -
  obtain F where F: "\<And>fuel. F \<le> fuel \<Longrightarrow> fst (ps_updateCmd fuel (stmt_toks st)) =
      Inr (case st of Modify d \<Rightarrow> Modify (d\<lparr>md_newValue := ex_null, md_pred := []\<rparr>) | _ \<Rightarrow> st)"
    using parse_stmt_toks [OF assms(1)] by blast
  let ?l = "length (tokenize s) + 1"
  have "reads ?l 1 (ps_updateCmd ?l) (ps_updateCmd (?l + F))"
    by (rule reads_updateCmd) simp_all
  from reads_fst(1) [OF this, of "tokenize s"] F [of "?l + F"] assms(2) show ?thesis
    by (simp add: parse_update_def)
qed

text \<open>Statements of the grammar, as a computation.\<close>

lemma lit_code [code]:
  "lit c \<longleftrightarrow> (case ival c of
     Some i \<Rightarrow> 0 \<le> i \<and> i < 2 ^ 31 \<and> sval c = None
   | None \<Rightarrow> (case sval c of Some x \<Rightarrow> to_lower x = x | None \<Rightarrow> False))"
  by (cases c) (auto simp: lit_def const_int_def const_str_def split: option.split)

lemma expr_ok_code [code]:
  "expr_ok e \<longleftrightarrow> (if ex_field e = [] then lit (ex_value e) else ident (ex_field e) \<and> ival (ex_value e) = None \<and> sval (ex_value e) = None)"
proof -
  have "\<not> ident []" by (simp add: ident_def word_def)
  then show ?thesis
    by (cases e; cases "ex_value e") (auto simp: expr_ok_def ex_name_def ex_const_def const_null_def)
qed

text \<open>A tokenizer that cuts at spaces and keeps commas as tokens.\<close>

fun cut :: "string \<Rightarrow> string \<Rightarrow> toks" where
  "cut t [] = (if t = [] then [] else [t])"
| "cut t (c # s) =
     (if c = CHR '' '' then (if t = [] then [] else [t]) @ cut [] s
      else if c = CHR '','' then (if t = [] then [] else [t]) @ '','' # cut [] s
      else cut (t @ [c]) s)"

definition demo_view :: query_data where
  "demo_view = QueryData [''id'', ''n''] [''t'']
     [\<lparr>lhs = ex_name ''n'', rhs = ex_const (const_int 42)\<rparr>, \<lparr>lhs = ex_const (const_str ''x''), rhs = ex_name ''id''\<rparr>] [] [''id'']
     [QueryData [''m''] [''u''] [] [''m''] [] []]"

theorem query_parse_roundtrip_witness:
  "parse_query (cut [])
    (''select id, n from t, ( select m from u group by m ) where n = 42 and '' @ [QUOTE] @ ''x'' @ [QUOTE] @ '' = id order by id'') = Inr demo_view"
  by (rule query_parse_roundtrip) code_simp+

definition demo_update :: stmt where
  "demo_update = Modify \<lparr>md_tableName = ''t'', md_targetField = ''n'', md_newValue = ex_const (const_int 5),
     md_pred = [\<lparr>lhs = ex_name ''id'', rhs = ex_const (const_int 3)\<rparr>]\<rparr>"

theorem statement_parse_roundtrip_witness:
  "parse_update (cut []) ''update t set n = 5 where id = 3'' =
    Inr (Modify \<lparr>md_tableName = ''t'', md_targetField = ''n'', md_newValue = ex_null, md_pred = []\<rparr>)"
proof -
  have "stmt_ok demo_update" "cut [] ''update t set n = 5 where id = 3'' = stmt_toks demo_update" by code_simp+
  from statement_parse_roundtrip [where tokenize = "cut []", OF this] show ?thesis
    by (simp add: demo_update_def)
qed

end
