(* ===== verification/Spec2Isabelle.thy ===== *)
theory Spec2Isabelle
  imports Recovery Interface Selects Indexes ParserProofs
begin

text \<open>
  A verification development for SampleDB, a relational database in C++ with a file layer, a
  write-ahead log, a buffer pool, transactions with two-phase locks, heap files, B-tree indexes,
  catalogs, a SQL parser, a planner and a command loop.

  The program and its theories, from the disk upwards (paths under \<open>src/src\<close>).

  \<^item> Prelude: the outcome of a C++ operation. A command is a function from a state to a
    result and the state after it; the result is a value, a thrown exception, a call of
    \<open>exit(1)\<close>, undefined behaviour (\<open>Undef\<close>: a null dereference, an index out of a vector, a
    signed overflow, a read of an object that was destroyed) or \<open>OutOfFuel\<close>, which is no
    behaviour of the code. Ints are integers with an explicit overflow check \<open>ck\<close>.
  \<^item> Page, FileManager: \<open>file/Page\<close>, \<open>BlockId\<close>, \<open>FileMgr\<close>. A file is a list of bytes; the
    state is a record that the later layers extend (\<open>fm\<close>, \<open>lm\<close>, \<open>bm\<close>, \<open>tx\<close>, \<open>tmp\<close>, \<open>db\<close>).
  \<^item> LogManager, BufferManager: \<open>logging\<close>, \<open>buffer\<close>. The log represents the list of appended
    records, a prefix of which is durable; the pool caches blocks, and what it shows of a block
    (\<open>view\<close>) is its newest contents.
  \<^item> Locks, LogRecords, Transactions, Recovery: \<open>tx\<close>. Locks has the lock table and a step relation
    of interleaved transactions; LogRecords the byte formats; Transactions the operations of one
    transaction; Recovery why rollback, commit and recovery after a crash are correct, over every
    history of transactions.
  \<^item> Values, Predicates, Scans, Records: constants, schemas and layouts (\<open>scan/Constant\<close>,
    \<open>record/Schema\<close>, \<open>Layout\<close>), predicates (\<open>scan/Expression\<close>, \<open>Term\<close>, \<open>Predicate\<close>), the scans
    over other scans (\<open>scan\<close>), record pages and table scans (\<open>record\<close>).
  \<^item> Memory: a transaction as a memory of blocks, the interface of the layers above to the layers
    below: \<open>ready\<close> is the invariant, \<open>alike\<close> what an operation leaves unchanged.
    MemoryWrites adds what a write and an appended block change.
  \<^item> ScanContract: what a scan promises, as two locales: a cursor has rows that it has yet to see
    and reads the current one; a scan is a cursor that can be restarted and closed. Selection,
    projection and product keep the contract. TableReads shows that table scans keep it for the
    records stored in a file, Algebra that trees of scans do and that query plans compute the
    relational algebra.
  \<^item> TablePages, TableWrites, Updates: the bytes of a record page as typed records, the
    operations of a table scan that change it (set, remove, insert with its new blocks), and the
    delete, modify and insert statements of the update planners from the plan of their table on.
  \<^item> Materialize, BTree, Meta, Plans, Planning: temporary tables, sorting, merge join and
    grouping (\<open>materialize\<close>), B-tree indexes (\<open>indexing\<close>), catalogs and statistics (\<open>meta\<close>), plan
    trees (\<open>plan\<close>) and the planners for queries and updates.
  \<^item> BTreePages, BTreeLeaves, BTreeSplit, Indexes: a page of a B-tree as an array of typed
    records; insertion, removal and search in a leaf as operations on a sorted list; the split of a
    full page into the old block and a new one; what the search of a directory page reads.
  \<^item> Catalog: the records of \<open>tblcat\<close> and \<open>fldcat\<close> as descriptions of tables; \<open>createTable\<close> and
    \<open>getLayout\<close> of Meta are inverse to each other.
  \<^item> Selects: statistics of tables, and select statements over base tables from their text to
    their rows; the state of the statistics lies beside the data (\<open>db_like\<close>).
  \<^item> Parsing: lexer and recursive-descent parser (\<open>parse\<close>) over the list of tokens.
    ParserProofs: parsing what a printer of statements writes gives them back, and the parser ends.
  \<^item> Interface: the database object, connections, statements, result sets and the command
    loop (\<open>interface\<close>, \<open>app\<close>).

  Fuel. A loop that is not structural takes its bound as an argument; \<open>k\<close> bounds the loops of
  scans and \<open>d\<close> the depth of scan trees, since a C++ virtual call is a call through a table of
  functions of the next smaller depth. Theorems about results have the bounds as hypotheses that
  say how much is enough: more than the blocks of a file, the slots of a block and the rows of an
  operand, also for the loops of updates and of B-tree pages; more than the operations of a transaction for rollback; one more than the number of
  tokens for the parser.

  Parameters. Boost's tokenizer, which cuts a string into tokens, is an argument.

  Not modelled. \<open>hashCode\<close> functions that nothing calls; \<open>BTreeIndex::searchCost\<close> and
  \<open>IndexInfo::blocksAccessed\<close>, which round a quotient of library logarithms; the notification
  of condition variables (a wait is the list of what other threads do meanwhile); threads inside
  an operation; the program's arguments and the messages before the command loop; failures of the
  disk. Tests and build files carry no logic.
\<close>

end
